(* ===== verification/Prelude.thy ===== *)
theory Prelude
  imports Complex_Main
begin

text \<open>
  What every component of the development shares: results that may be errors,
  reads of arrays that may be out of range, and the small facts about lists the
  component proofs use. A JavaScript \<open>throw\<close> is an \<open>Inl\<close> value of the sum type;
  an array read out of range is \<open>None\<close>, which stands for \<open>undefined\<close>.
\<close>

named_theorems js_str \<open>unfolding rules for the string operations of the language\<close>
named_theorems step_defs \<open>definitions of the step functions of stateful components\<close>
named_theorems result_intro \<open>rules about the sequencing of fallible computations\<close>

section \<open>Errors as values\<close>

text \<open>
  The error classes the modelled code throws: a plain \<open>Error\<close>, a LoopBack
  \<open>HttpErrors\<close> with its status, an OData code and a message, the filter builder's
  \<open>UnsupportedFilterError\<close> with its functions, \<open>LambdaQueryRejectedError\<close> with its
  reason, \<open>RangeError\<close> and the \<open>TypeError\<close> of reading a field of \<open>undefined\<close>.
  \<open>OutOfFuel\<close> is no error of the program: it marks a
  recursion of the model that ran out of its bound, and the theorems on the
  parsers show that it never comes out of them.
\<close>

datatype odata_error =
    PlainError string
  | HttpError nat string string
  | UnsupportedFilter "string list"
  | LambdaRejected string
  | RangeError
  | TypeError
  | OutOfFuel

type_synonym 'a result = "odata_error + 'a"

definition throw :: "string \<Rightarrow> 'a result" where
  "throw msg = Inl (PlainError msg)"

fun rbind :: "'a result \<Rightarrow> ('a \<Rightarrow> 'b result) \<Rightarrow> 'b result" where
  "rbind (Inl e) f = Inl e"
| "rbind (Inr x) f = f x"

fun is_ok :: "'a result \<Rightarrow> bool" where
  "is_ok (Inl e) = False"
| "is_ok (Inr x) = True"

lemma rbind_cong [fundef_cong]:
  "m = m' \<Longrightarrow> (\<And>x. m' = Inr x \<Longrightarrow> f x = g x) \<Longrightarrow> rbind m f = rbind m' g"
  by (cases m') auto

lemma rbind_eq_Inr [simp]: "rbind m f = Inr y \<longleftrightarrow> (\<exists>x. m = Inr x \<and> f x = Inr y)"
  by (cases m) auto

lemma Inr_eq_rbind [simp]: "Inr y = rbind m f \<longleftrightarrow> (\<exists>x. m = Inr x \<and> f x = Inr y)"
  by (cases m) auto

lemma rbind_eq_Inl: "rbind m f = Inl e \<longleftrightarrow> m = Inl e \<or> (\<exists>x. m = Inr x \<and> f x = Inl e)"
  by (cases m) auto

lemma rbind_Inr_right [simp]: "rbind m Inr = m"
  by (cases m) auto

lemma throw_ok [simp]: "throw msg \<noteq> Inr x" "Inr x \<noteq> throw msg"
  by (simp_all add: throw_def)

lemma throw_fuel [simp]: "throw msg \<noteq> Inl OutOfFuel" "Inl OutOfFuel \<noteq> throw msg"
  by (simp_all add: throw_def)

lemma is_ok_iff: "is_ok m \<longleftrightarrow> (\<exists>x. m = Inr x)"
  by (cases m) auto

text \<open>Mapping a fallible function over an array stops at the first throw.\<close>

fun rmap :: "('a \<Rightarrow> 'b result) \<Rightarrow> 'a list \<Rightarrow> 'b list result" where
  "rmap f [] = Inr []"
| "rmap f (x # xs) = rbind (f x) (\<lambda>y. rbind (rmap f xs) (\<lambda>ys. Inr (y # ys)))"

lemma rmap_cong [fundef_cong]:
  "xs = ys \<Longrightarrow> (\<And>x. x \<in> set ys \<Longrightarrow> f x = g x) \<Longrightarrow> rmap f xs = rmap g ys"
  by (induction ys arbitrary: xs) (auto intro: rbind_cong)

lemma rmap_Inr_length: "rmap f xs = Inr ys \<Longrightarrow> length ys = length xs"
  by (induction xs arbitrary: ys) auto

lemma rmap_Inr_nth: "rmap f xs = Inr ys \<Longrightarrow> i < length xs \<Longrightarrow> f (xs ! i) = Inr (ys ! i)"
  by (induction xs arbitrary: ys i) (auto simp: less_Suc_eq_0_disj)

lemma rmap_Inr_iff: "rmap f xs = Inr ys \<longleftrightarrow> list_all2 (\<lambda>x y. f x = Inr y) xs ys"
  by (induction xs arbitrary: ys) (auto simp: list_all2_Cons1)

section \<open>Arrays\<close>

text \<open>\<open>xs[i]\<close> is \<open>undefined\<close> outside the array.\<close>

definition nth_opt :: "'a list \<Rightarrow> nat \<Rightarrow> 'a option" where
  "nth_opt xs i = (if i < length xs then Some (xs ! i) else None)"

lemma nth_opt_Nil [simp]: "nth_opt [] i = None"
  by (simp add: nth_opt_def)

lemma nth_opt_Cons [simp]: "nth_opt (x # xs) i = (case i of 0 \<Rightarrow> Some x | Suc j \<Rightarrow> nth_opt xs j)"
  by (cases i) (auto simp: nth_opt_def)

lemma nth_opt_eq_Some: "nth_opt xs i = Some x \<longleftrightarrow> i < length xs \<and> xs ! i = x"
  by (auto simp: nth_opt_def)

lemma nth_opt_SomeD: "nth_opt xs i = Some x \<Longrightarrow> i < length xs"
  by (simp add: nth_opt_eq_Some)

lemma nth_opt_append_left: "i < length xs \<Longrightarrow> nth_opt (xs @ ys) i = nth_opt xs i"
  by (simp add: nth_opt_def nth_append)

lemma nth_opt_append_right: "nth_opt (xs @ ys) (length xs + i) = nth_opt ys i"
  by (simp add: nth_opt_def nth_append)

section \<open>What a fallible computation establishes\<close>

text \<open>
  \<open>ensures m Q\<close>: the computation does not run out of fuel, and its value, if it returns
  one, satisfies \<open>Q\<close>. Termination proofs and invariants of the parsers are stated with it.
\<close>

fun ensures :: "'a result \<Rightarrow> ('a \<Rightarrow> bool) \<Rightarrow> bool" where
  "ensures (Inl e) Q = (e \<noteq> OutOfFuel)"
| "ensures (Inr x) Q = Q x"

lemma ensures_rbind [result_intro]:
  "ensures m P \<Longrightarrow> (\<And>x. m = Inr x \<Longrightarrow> P x \<Longrightarrow> ensures (f x) Q) \<Longrightarrow> ensures (rbind m f) Q"
  by (cases m) auto

lemma ensures_mono: "ensures m P \<Longrightarrow> (\<And>x. m = Inr x \<Longrightarrow> P x \<Longrightarrow> Q x) \<Longrightarrow> ensures m Q"
  by (cases m) auto

lemma ensures_throw [simp]: "ensures (throw msg) Q"
  by (simp add: throw_def)

lemma ensures_if [result_intro]:
  "(b \<Longrightarrow> ensures m Q) \<Longrightarrow> (\<not> b \<Longrightarrow> ensures m' Q) \<Longrightarrow> ensures (if b then m else m') Q"
  by simp

lemma ensuresD: "ensures m Q \<Longrightarrow> m = Inr x \<Longrightarrow> Q x"
  by simp

lemma ensures_fuel: "ensures m Q \<Longrightarrow> m \<noteq> Inl OutOfFuel"
  by auto

lemma ensures_iff: "ensures m Q \<longleftrightarrow> m \<noteq> Inl OutOfFuel \<and> (\<forall>x. m = Inr x \<longrightarrow> Q x)"
  by (cases m) auto

lemma ensures_rmap:
  "(\<And>x. x \<in> set xs \<Longrightarrow> ensures (f x) (Q x)) \<Longrightarrow> ensures (rmap f xs) (\<lambda>ys. list_all2 Q xs ys)"
proof (induction xs)
  case (Cons x xs)
  have "ensures (f x) (Q x)" "ensures (rmap f xs) (list_all2 Q xs)" using Cons by simp_all
  then show ?case by (auto intro!: ensures_rbind)
qed simp

section \<open>Lists related element by element\<close>

lemma list_all2_second:
  "list_all2 P xs ys \<Longrightarrow> (\<And>x y. x \<in> set xs \<Longrightarrow> P x y \<Longrightarrow> Q y) \<Longrightarrow> list_all Q ys"
  by (induction rule: list_all2_induct) auto

lemma list_all2_transfer:
  "list_all2 P xs ys \<Longrightarrow> (\<And>x y. x \<in> set xs \<Longrightarrow> P x y \<Longrightarrow> f x = g y) \<Longrightarrow>
   list_all f xs = list_all g ys \<and> list_ex f xs = list_ex g ys"
  by (induction rule: list_all2_induct) auto

end
