(* ===== verification/JsStrings.thy ===== *)
theory JsStrings
  imports Prelude "HOL-Library.Sublist"
begin

text \<open>
  The string operations of the language that the modelled code calls, on
  \<open>string\<close>. A JavaScript string is represented by its UTF-8 bytes, so a character
  beyond ASCII is several \<open>char\<close>s: every delimiter the code looks for is an ASCII
  character and never one of those bytes. Case mapping and white space are those of
  ASCII (the code's case mapping of other letters is not modelled), and lengths count
  bytes, which are UTF-16 units exactly on ASCII text.
\<close>

section \<open>Characters\<close>

definition code :: "char \<Rightarrow> nat" where
  "code c = of_char c"

lemma code_less [simp]: "code c < 256"
  by (simp add: code_def)

lemma code_inject: "code c = code d \<longleftrightarrow> c = d"
  by (simp add: code_def)

lemma char_of_code [simp]: "char_of (code c) = c"
  by (simp add: code_def)

lemma code_char_of: "n < 256 \<Longrightarrow> code (char_of n) = n"
  by (simp add: code_def)

definition is_digit :: "char \<Rightarrow> bool" where
  "is_digit c \<longleftrightarrow> 48 \<le> code c \<and> code c \<le> 57"

definition is_upper :: "char \<Rightarrow> bool" where
  "is_upper c \<longleftrightarrow> 65 \<le> code c \<and> code c \<le> 90"

definition is_lower :: "char \<Rightarrow> bool" where
  "is_lower c \<longleftrightarrow> 97 \<le> code c \<and> code c \<le> 122"

definition is_alpha :: "char \<Rightarrow> bool" where
  "is_alpha c \<longleftrightarrow> is_upper c \<or> is_lower c"

definition is_space :: "char \<Rightarrow> bool" where
  "is_space c \<longleftrightarrow> code c = 32 \<or> (9 \<le> code c \<and> code c \<le> 13)"

definition ident_start :: "char \<Rightarrow> bool" where
  "ident_start c \<longleftrightarrow> is_alpha c \<or> c = CHR ''_''"

definition ident_char :: "char \<Rightarrow> bool" where
  "ident_char c \<longleftrightarrow> ident_start c \<or> is_digit c"

definition lower_char :: "char \<Rightarrow> char" where
  "lower_char c = (if is_upper c then char_of (code c + 32) else c)"

definition upper_char :: "char \<Rightarrow> char" where
  "upper_char c = (if is_lower c then char_of (code c - 32) else c)"

definition lower :: "string \<Rightarrow> string" where
  "lower s = map lower_char s"

definition upper :: "string \<Rightarrow> string" where
  "upper s = map upper_char s"

lemma length_lower [simp]: "length (lower s) = length s"
  by (simp add: lower_def)

lemma code_lower_char: "code (lower_char c) = (if is_upper c then code c + 32 else code c)"
  by (auto simp: lower_char_def is_upper_def code_char_of)

lemma lower_char_idem [simp]: "lower_char (lower_char c) = lower_char c"
  by (auto simp: lower_char_def is_upper_def code_char_of)

lemma lower_idem [simp]: "lower (lower s) = lower s"
  by (simp add: lower_def comp_def)

lemma lower_eq_Nil [simp]: "lower s = [] \<longleftrightarrow> s = []"
  by (simp add: lower_def)

section \<open>Trimming, splitting and joining\<close>

definition trim_left :: "string \<Rightarrow> string" where
  "trim_left s = dropWhile is_space s"

definition trim :: "string \<Rightarrow> string" where
  "trim s = rev (dropWhile is_space (rev (dropWhile is_space s)))"

text \<open>\<open>s.split(sep)\<close> with a one-character separator: never the empty array.\<close>

fun split_on :: "char \<Rightarrow> string \<Rightarrow> string list" where
  "split_on d [] = [[]]"
| "split_on d (c # cs) =
     (if c = d then [] # split_on d cs
      else (case split_on d cs of [] \<Rightarrow> [[c]] | p # ps \<Rightarrow> (c # p) # ps))"

fun join :: "string \<Rightarrow> string list \<Rightarrow> string" where
  "join sep [] = []"
| "join sep [x] = x"
| "join sep (x # xs) = x @ sep @ join sep xs"

text \<open>\<open>s.split(/\s+/)\<close>: a leading or trailing run of white space leaves an empty field.\<close>

fun split_ws_aux :: "string \<Rightarrow> string \<Rightarrow> bool \<Rightarrow> string list" where
  "split_ws_aux cur [] ws = [rev cur]"
| "split_ws_aux cur (c # cs) ws =
     (if is_space c
      then (if ws then split_ws_aux cur cs True else rev cur # split_ws_aux [] cs True)
      else split_ws_aux (c # cur) cs False)"

definition split_ws :: "string \<Rightarrow> string list" where
  "split_ws s = split_ws_aux [] s False"

lemma split_on_not_Nil [simp]: "split_on d s \<noteq> []"
  by (induction s) (auto split: list.splits)

lemma join_split_on: "join [d] (split_on d s) = s"
proof (induction s)
  case Nil
  then show ?case by simp
next
  case (Cons c cs)
  obtain p ps where ps: "split_on d cs = p # ps"
    by (cases "split_on d cs") auto
  with Cons show ?case by (cases ps) auto
qed

lemma split_on_free: "p \<in> set (split_on d s) \<Longrightarrow> d \<notin> set p"
proof (induction s arbitrary: p)
  case (Cons c cs)
  obtain q qs where "split_on d cs = q # qs"
    by (cases "split_on d cs") auto
  with Cons show ?case by (auto split: if_splits)
qed simp

lemma split_on_single: "d \<notin> set s \<Longrightarrow> split_on d s = [s]"
  by (induction s) auto

lemma split_on_join:
  "xs \<noteq> [] \<Longrightarrow> (\<forall>x\<in>set xs. d \<notin> set x) \<Longrightarrow> split_on d (join [d] xs) = xs"
proof (induction "[d]" xs rule: join.induct)
  case (2 x)
  then show ?case by (simp add: split_on_single)
next
  case (3 x y ys)
  have "split_on d (x @ d # s) = x # split_on d s" if "d \<notin> set x" for s
    using that by (induction x) auto
  with 3 show ?case by simp
qed simp

lemma set_trim: "set (trim s) \<subseteq> set s"
proof
  fix x
  assume "x \<in> set (trim s)"
  then have "x \<in> set (rev (dropWhile is_space s))"
    unfolding trim_def by (auto dest: set_dropWhileD)
  then show "x \<in> set s" by (auto dest: set_dropWhileD)
qed

lemma trim_Nil [simp]: "trim [] = []"
  by (simp add: trim_def)

lemma dropWhile_space_id: "s = [] \<or> \<not> is_space (hd s) \<Longrightarrow> dropWhile is_space s = s"
  by (cases s) auto

lemma trim_id: "s = [] \<or> (\<not> is_space (hd s) \<and> \<not> is_space (last s)) \<Longrightarrow> trim s = s"
proof -
  assume a: "s = [] \<or> (\<not> is_space (hd s) \<and> \<not> is_space (last s))"
  then have "dropWhile is_space s = s" by (intro dropWhile_space_id) auto
  moreover from a have "dropWhile is_space (rev s) = rev s"
    by (intro dropWhile_space_id) (auto simp: hd_rev)
  ultimately show ?thesis by (simp add: trim_def)
qed

lemma hd_trim: "trim s \<noteq> [] \<Longrightarrow> \<not> is_space (hd (trim s))"
proof -
  let ?t = "dropWhile is_space s"
  assume ne: "trim s \<noteq> []"
  then have tne: "?t \<noteq> []"
    unfolding trim_def by (metis dropWhile.simps(1) rev.simps(1))
  then have "\<not> is_space (hd ?t)" by (rule hd_dropWhile)
  moreover have "hd (trim s) = hd ?t"
  proof -
    have "rev ?t = takeWhile is_space (rev ?t) @ dropWhile is_space (rev ?t)" by simp
    then have "?t = trim s @ rev (takeWhile is_space (rev ?t))"
      unfolding trim_def by (metis rev_append rev_rev_ident)
    with ne show ?thesis by (metis hd_append2)
  qed
  ultimately show ?thesis by simp
qed

lemma last_trim: "trim s \<noteq> [] \<Longrightarrow> \<not> is_space (last (trim s))"
  unfolding trim_def by (simp add: last_rev hd_dropWhile)

lemma trim_trim [simp]: "trim (trim s) = trim s"
  using trim_id [of "trim s"] hd_trim last_trim by blast

section \<open>Searching\<close>

definition starts_with :: "string \<Rightarrow> string \<Rightarrow> bool" where
  "starts_with s p \<longleftrightarrow> take (length p) s = p"

definition ends_with :: "string \<Rightarrow> string \<Rightarrow> bool" where
  "ends_with s p \<longleftrightarrow> length p \<le> length s \<and> drop (length s - length p) s = p"

text \<open>\<open>s.indexOf(p)\<close>, \<open>None\<close> standing for -1, and \<open>s.includes(p)\<close>.\<close>

fun index_of :: "'a list \<Rightarrow> 'a list \<Rightarrow> nat option" where
  "index_of p [] = (if p = [] then Some 0 else None)"
| "index_of p (c # cs) =
     (if take (length p) (c # cs) = p then Some 0
      else map_option Suc (index_of p cs))"

definition contains_str :: "string \<Rightarrow> string \<Rightarrow> bool" where
  "contains_str s p \<longleftrightarrow> index_of p s \<noteq> None"

lemma starts_with_prefix: "starts_with s p \<longleftrightarrow> prefix p s"
  by (metis append_take_drop_id prefixE prefixI starts_with_def append_eq_conv_conj)

lemma ends_with_suffix: "ends_with s p \<longleftrightarrow> suffix p s"
proof
  assume "ends_with s p"
  then show "suffix p s"
    unfolding ends_with_def by (metis suffix_drop)
next
  assume "suffix p s"
  then obtain u where "s = u @ p" by (auto elim: suffixE)
  then show "ends_with s p" by (simp add: ends_with_def)
qed

lemma index_of_Some:
  "index_of p s = Some i \<Longrightarrow> i + length p \<le> length s \<and> take (length p) (drop i s) = p"
proof (induction s arbitrary: i)
  case (Cons c cs)
  show ?case
  proof (cases "take (length p) (c # cs) = p")
    case True
    with Cons.prems have "i = 0" by simp
    with True show ?thesis by simp (metis length_Cons length_take min.cobounded1)
  next
    case False
    with Cons.prems obtain j where "index_of p cs = Some j" "i = Suc j" by auto
    with Cons.IH show ?thesis by simp
  qed
qed (auto split: if_splits)

lemma index_of_least:
  "index_of p s = Some i \<Longrightarrow> j < i \<Longrightarrow> take (length p) (drop j s) \<noteq> p"
proof (induction s arbitrary: i j)
  case (Cons c cs)
  then show ?case
    by (cases j) (auto split: if_splits)
qed (auto split: if_splits)

lemma index_of_None: "index_of p s = None \<Longrightarrow> take (length p) (drop j s) \<noteq> p"
proof (induction s arbitrary: j)
  case Nil
  then show ?case by (auto split: if_splits)
next
  case (Cons c cs)
  then show ?case
    by (cases j) (auto split: if_splits)
qed

lemma index_of_append_first:
  "p \<noteq> [] \<Longrightarrow> (\<forall>i \<le> length u. i < length u \<longrightarrow> take (length p) (drop i (u @ p @ v)) \<noteq> p) \<Longrightarrow>
   index_of p (u @ p @ v) = Some (length u)"
proof (induction u)
  case Nil
  then show ?case by (cases p) auto
next
  case (Cons c u)
  have "take (length p) (c # u @ p @ v) \<noteq> p"
    using Cons.prems(2) by (metis append_Cons drop0 le0 length_Cons zero_less_Suc)
  moreover have "\<forall>i \<le> length u. i < length u \<longrightarrow> take (length p) (drop i (u @ p @ v)) \<noteq> p"
    using Cons.prems(2) by (metis Suc_less_eq Suc_le_mono append_Cons drop_Suc_Cons length_Cons)
  ultimately show ?case using Cons by simp
qed

definition index_of_char :: "char \<Rightarrow> string \<Rightarrow> nat option" where
  "index_of_char c s = index_of [c] s"

lemma index_of_char_None: "index_of_char c s = None \<longleftrightarrow> c \<notin> set s"
  unfolding index_of_char_def by (induction s) auto

lemma index_of_char_Some:
  "index_of_char c s = Some i \<longleftrightarrow> i < length s \<and> s ! i = c \<and> c \<notin> set (take i s)"
  unfolding index_of_char_def
proof (induction s arbitrary: i)
  case (Cons d s)
  then show ?case by (cases i) auto
qed simp

lemma index_of_char_append: "c \<notin> set u \<Longrightarrow> index_of_char c (u @ c # v) = Some (length u)"
  by (simp add: index_of_char_Some nth_append)

section \<open>Replacing\<close>

text \<open>\<open>s.replace(/''/g, "'")\<close>: a doubled quote becomes one, left to right.\<close>

fun undouble :: "string \<Rightarrow> string" where
  "undouble (c # d # cs) =
     (if c = CHR 0x27 \<and> d = CHR 0x27 then CHR 0x27 # undouble cs else c # undouble (d # cs))"
| "undouble cs = cs"

text \<open>Doubling every quote, which is what the source of a string literal does.\<close>

definition double :: "string \<Rightarrow> string" where
  "double s = concat (map (\<lambda>c. if c = CHR 0x27 then [c, c] else [c]) s)"

lemma double_Nil [simp]: "double [] = []"
  by (simp add: double_def)

lemma double_Cons: "double (c # cs) = (if c = CHR 0x27 then [c, c] else [c]) @ double cs"
  by (simp add: double_def)

lemma undouble_other: "c \<noteq> CHR 0x27 \<Longrightarrow> undouble (c # cs) = c # undouble cs"
  by (cases cs) auto

lemma undouble_double [simp]: "undouble (double s) = s"
  by (induction s) (auto simp: double_Cons undouble_other)

definition replace_char :: "char \<Rightarrow> string \<Rightarrow> string \<Rightarrow> string" where
  "replace_char c r s = concat (map (\<lambda>x. if x = c then r else [x]) s)"

lemma replace_char_Nil [simp]: "replace_char c r [] = []"
  by (simp add: replace_char_def)

lemma replace_char_Cons:
  "replace_char c r (x # xs) = (if x = c then r else [x]) @ replace_char c r xs"
  by (simp add: replace_char_def)

lemma replace_char_id: "c \<notin> set s \<Longrightarrow> replace_char c r s = s"
  by (induction s) (auto simp: replace_char_Cons)

section \<open>Numbers in decimal, and lines\<close>

fun show_nat :: "nat \<Rightarrow> string" where
  "show_nat n = (if n < 10 then [char_of (48 + n)] else show_nat (n div 10) @ [char_of (48 + n mod 10)])"

declare show_nat.simps [simp del]

fun nat_of_digits :: "nat \<Rightarrow> string \<Rightarrow> nat" where
  "nat_of_digits acc [] = acc"
| "nat_of_digits acc (c # cs) = nat_of_digits (10 * acc + (code c - 48)) cs"

lemma nat_of_digits_append:
  "nat_of_digits acc (xs @ ys) = nat_of_digits (nat_of_digits acc xs) ys"
  by (induction xs arbitrary: acc) auto

lemma show_nat_digits: "c \<in> set (show_nat n) \<Longrightarrow> is_digit c"
proof (induction n rule: show_nat.induct)
  case (1 n)
  then show ?case
    by (subst (asm) show_nat.simps) (auto simp: is_digit_def code_char_of split: if_splits)
qed

lemma nat_of_show_nat: "nat_of_digits 0 (show_nat n) = n"
proof (induction n rule: show_nat.induct)
  case (1 n)
  then show ?case
    by (subst show_nat.simps) (auto simp: nat_of_digits_append code_char_of)
qed

lemma show_nat_inject: "show_nat m = show_nat n \<longleftrightarrow> m = n"
  by (metis nat_of_show_nat)

text \<open>\<open>s.split(/\r?\n/)\<close>.\<close>

definition chop_cr :: "string \<Rightarrow> string" where
  "chop_cr s = (if s \<noteq> [] \<and> last s = CHR 13 then butlast s else s)"

definition split_lines :: "string \<Rightarrow> string list" where
  "split_lines s = (let ps = split_on (CHR 10) s in map chop_cr (butlast ps) @ [last ps])"

text \<open>\<open>s.replace(/^"|"$/g, '')\<close>.\<close>

definition strip_dquotes :: "string \<Rightarrow> string" where
  "strip_dquotes s =
     (let t = (case s of c # cs \<Rightarrow> if c = CHR 34 then cs else s | [] \<Rightarrow> [])
      in if t \<noteq> [] \<and> last t = CHR 34 then butlast t else t)"

section \<open>Objects with string keys\<close>

text \<open>A plain object used as a dictionary: an association list in insertion order.\<close>

fun obj_set :: "string \<Rightarrow> 'v \<Rightarrow> (string \<times> 'v) list \<Rightarrow> (string \<times> 'v) list" where
  "obj_set k v [] = [(k, v)]"
| "obj_set k v ((k', v') # xs) = (if k = k' then (k, v) # xs else (k', v') # obj_set k v xs)"

lemma map_of_obj_set [simp]: "map_of (obj_set k v xs) = (map_of xs)(k \<mapsto> v)"
  by (induction xs) (auto simp: fun_eq_iff)

lemma keys_obj_set: "fst ` set (obj_set k v xs) = insert k (fst ` set xs)"
  by (induction xs) force+

lemma distinct_obj_set: "distinct (map fst xs) \<Longrightarrow> distinct (map fst (obj_set k v xs))"
proof (induction xs)
  case (Cons x xs)
  obtain k' v' where "x = (k', v')" by (cases x)
  with Cons keys_obj_set [of k v xs] show ?case by (auto simp: image_iff)
qed simp

end
