(* ===== verification/BufferQueue.thy ===== *)
theory BufferQueue
  imports JsStrings
begin

text \<open>
  \<^verbatim>\<open>src/src/util/buffer-queue.ts\<close>: the queue of chunks that the streaming multipart
  parser reads from. The state is the class's fields; a \<open>Buffer\<close> is its list of bytes
  (\<open>char\<close>s). \<open>queue_bytes\<close> is the byte sequence the queue stands for, and every
  operation is shown to refine the operation on that sequence. The reading position
  cache that \<open>byteAt\<close> keeps between calls is part of the state and of the invariant.
\<close>

section \<open>State and operations\<close>

type_synonym bytes = string

record buffer_queue =
  buffers :: "bytes list"
  headIndex :: nat
  headOffset :: nat
  totalLength :: nat
  cache :: "(nat \<times> nat \<times> nat) option"

definition bq_empty :: buffer_queue where
  "bq_empty = \<lparr>buffers = [], headIndex = 0, headOffset = 0, totalLength = 0, cache = None\<rparr>"

definition bq_push :: "bytes \<Rightarrow> buffer_queue \<Rightarrow> buffer_queue" where
  "bq_push b q =
     (if b = [] then q
      else q\<lparr>buffers := buffers q @ [b], totalLength := totalLength q + length b\<rparr>)"

function consume_loop :: "bytes list \<Rightarrow> nat \<Rightarrow> nat \<Rightarrow> nat \<Rightarrow> (nat \<times> nat) result" where
  "consume_loop bufs hi ho remaining =
     (if remaining = 0 then Inr (hi, ho)
      else if hi < length bufs then
        (let headRemaining = length (bufs ! hi) - ho
         in if remaining < headRemaining then Inr (hi, ho + remaining)
            else consume_loop bufs (Suc hi) 0 (remaining - headRemaining))
      else Inl TypeError)"
  by pat_completeness auto
termination
  by (relation "measure (\<lambda>(bufs, hi, ho, r). length bufs - hi)") auto

declare consume_loop.simps [simp del]

definition bq_consume :: "int \<Rightarrow> buffer_queue \<Rightarrow> buffer_queue result" where
  "bq_consume n q =
     (if n \<le> 0 then Inr q
      else if n > int (totalLength q) then Inl RangeError
      else rbind (consume_loop (buffers q) (headIndex q) (headOffset q) (nat n)) (\<lambda>(hi, ho).
        let total = totalLength q - nat n
        in if total = 0
           then Inr \<lparr>buffers = [], headIndex = 0, headOffset = 0, totalLength = 0, cache = None\<rparr>
           else if hi > 64 \<and> ho = 0
           then Inr \<lparr>buffers = drop hi (buffers q), headIndex = 0, headOffset = ho,
                     totalLength = total, cache = None\<rparr>
           else Inr \<lparr>buffers = buffers q, headIndex = hi, headOffset = ho,
                     totalLength = total, cache = None\<rparr>))"

function copy_loop :: "bytes list \<Rightarrow> nat \<Rightarrow> nat \<Rightarrow> nat \<Rightarrow> bytes result" where
  "copy_loop bufs bi bo remaining =
     (if remaining = 0 then Inr []
      else if bi < length bufs then
        (let current = bufs ! bi; toCopy = min (length current - bo) remaining
         in rbind (copy_loop bufs (Suc bi) 0 (remaining - toCopy))
              (\<lambda>rest. Inr (take toCopy (drop bo current) @ rest)))
      else Inl TypeError)"
  by pat_completeness auto
termination
  by (relation "measure (\<lambda>(bufs, bi, bo, r). length bufs - bi)") auto

declare copy_loop.simps [simp del]

definition bq_slice :: "int \<Rightarrow> int \<Rightarrow> buffer_queue \<Rightarrow> bytes result" where
  "bq_slice start stop q =
     (if start < 0 \<or> stop < 0 \<or> start > stop then Inl RangeError
      else if stop > int (totalLength q) then Inl RangeError
      else if stop - start = 0 then Inr []
      else rbind (consume_loop (buffers q) (headIndex q) (headOffset q) (nat start))
             (\<lambda>(bi, bo). copy_loop (buffers q) bi bo (nat (stop - start))))"

function byte_loop :: "bytes list \<Rightarrow> nat \<Rightarrow> nat \<Rightarrow> nat \<Rightarrow> (nat \<times> nat) result" where
  "byte_loop bufs bi bo remaining =
     (if bi < length bufs then
        (let available = length (bufs ! bi) - bo
         in if remaining < available then Inr (bi, bo + remaining)
            else byte_loop bufs (Suc bi) 0 (remaining - available))
      else Inl RangeError)"
  by pat_completeness auto
termination
  by (relation "measure (\<lambda>(bufs, bi, bo, r). length bufs - bi)") auto

declare byte_loop.simps [simp del]

definition bq_byteAt :: "int \<Rightarrow> buffer_queue \<Rightarrow> (char \<times> buffer_queue) result" where
  "bq_byteAt pos q =
     (if pos < 0 \<or> pos \<ge> int (totalLength q) then Inl RangeError
      else let p = nat pos;
               (bi, bo, remaining) =
                 (case cache q of
                    Some (g, ci, co) \<Rightarrow>
                      if p \<ge> g then (ci, co, p - g) else (headIndex q, headOffset q, p)
                  | None \<Rightarrow> (headIndex q, headOffset q, p))
           in rbind (byte_loop (buffers q) bi bo remaining) (\<lambda>(ri, ro).
                Inr (buffers q ! ri ! ro, q\<lparr>cache := Some (p, ri, ro)\<rparr>)))"

text \<open>\<open>startsWith\<close> and \<open>indexOf\<close> read byte by byte and leave the cache behind them.\<close>

fun bq_match :: "bytes \<Rightarrow> int \<Rightarrow> buffer_queue \<Rightarrow> (bool \<times> buffer_queue) result" where
  "bq_match [] pos q = Inr (True, q)"
| "bq_match (c # cs) pos q =
     rbind (bq_byteAt pos q) (\<lambda>(b, q').
       if b \<noteq> c then Inr (False, q') else bq_match cs (pos + 1) q')"

definition bq_startsWith :: "bytes \<Rightarrow> int \<Rightarrow> buffer_queue \<Rightarrow> (bool \<times> buffer_queue) result" where
  "bq_startsWith p off q =
     (if off < 0 then Inr (False, q)
      else if int (length p) + off > int (totalLength q) then Inr (False, q)
      else bq_match p off q)"

fun bq_scan :: "nat \<Rightarrow> bytes \<Rightarrow> int \<Rightarrow> buffer_queue \<Rightarrow> (int \<times> buffer_queue) result" where
  "bq_scan 0 needle i q = Inr (-1, q)"
| "bq_scan (Suc n) needle i q =
     rbind (bq_match needle i q) (\<lambda>(m, q').
       if m then Inr (i, q') else bq_scan n needle (i + 1) q')"

definition bq_indexOf :: "bytes \<Rightarrow> int \<Rightarrow> buffer_queue \<Rightarrow> (int \<times> buffer_queue) result" where
  "bq_indexOf needle from0 q =
     (let frm = max 0 from0; total = int (totalLength q)
      in if needle = [] then Inr (min frm total, q)
         else if total - frm < int (length needle) then Inr (-1, q)
         else bq_scan (nat (total - int (length needle) - frm + 1)) needle frm q)"

section \<open>What the queue stands for\<close>

definition queue_bytes :: "buffer_queue \<Rightarrow> bytes" where
  "queue_bytes q = drop (headOffset q) (concat (drop (headIndex q) (buffers q)))"

text \<open>
  A position (a buffer index and an offset) is valid when it is inside a buffer, or is
  the end of the queue; \<open>pos_of\<close> is its distance from the first byte ever kept.
\<close>

definition pos_ok :: "bytes list \<Rightarrow> nat \<Rightarrow> nat \<Rightarrow> bool" where
  "pos_ok bufs i ofs \<longleftrightarrow>
     (if i < length bufs then ofs < length (bufs ! i) else i = length bufs \<and> ofs = 0)"

definition pos_of :: "bytes list \<Rightarrow> nat \<Rightarrow> nat \<Rightarrow> nat" where
  "pos_of bufs i ofs = length (concat (take i bufs)) + ofs"

definition queue_inv :: "buffer_queue \<Rightarrow> bool" where
  "queue_inv q \<longleftrightarrow>
     [] \<notin> set (buffers q)
     \<and> pos_ok (buffers q) (headIndex q) (headOffset q)
     \<and> totalLength q = length (queue_bytes q)
     \<and> (case cache q of None \<Rightarrow> True
        | Some (g, ci, co) \<Rightarrow>
            ci < length (buffers q) \<and> co < length (buffers q ! ci)
            \<and> pos_of (buffers q) ci co = pos_of (buffers q) (headIndex q) (headOffset q) + g)"

lemma queue_bytes_pos:
  "queue_bytes q = drop (pos_of (buffers q) (headIndex q) (headOffset q)) (concat (buffers q))"
proof -
  have "concat (buffers q) = concat (take (headIndex q) (buffers q)) @ concat (drop (headIndex q) (buffers q))"
    by (metis append_take_drop_id concat_append)
  then show ?thesis
    by (simp add: queue_bytes_def pos_of_def)
qed

lemma pos_of_Suc:
  "i < length bufs \<Longrightarrow> pos_of bufs (Suc i) ofs = pos_of bufs i (length (bufs ! i)) + ofs"
  by (simp add: pos_of_def take_Suc_conv_app_nth)

lemma pos_of_le: "pos_ok bufs i ofs \<Longrightarrow> pos_of bufs i ofs \<le> length (concat bufs)"
proof (cases "i < length bufs")
  case True
  assume "pos_ok bufs i ofs"
  with True have "ofs < length (bufs ! i)" by (simp add: pos_ok_def)
  moreover have "concat bufs = concat (take i bufs) @ bufs ! i @ concat (drop (Suc i) bufs)"
    using True by (metis concat.simps(2) concat_append id_take_nth_drop)
  ultimately show ?thesis by (simp add: pos_of_def)
qed (simp add: pos_ok_def pos_of_def)

lemma pos_of_less:
  "pos_ok bufs i ofs \<Longrightarrow> pos_of bufs i ofs < length (concat bufs) \<Longrightarrow> i < length bufs"
  by (auto simp: pos_ok_def pos_of_def split: if_splits)

lemma concat_nth_pos:
  assumes "i < length bufs" "ofs < length (bufs ! i)"
  shows "concat bufs ! pos_of bufs i ofs = bufs ! i ! ofs"
proof -
  have "concat bufs = concat (take i bufs) @ bufs ! i @ concat (drop (Suc i) bufs)"
    using assms(1) by (metis concat.simps(2) concat_append id_take_nth_drop)
  then show ?thesis using assms(2) by (simp add: pos_of_def nth_append)
qed

lemma pos_ok_Suc: "[] \<notin> set bufs \<Longrightarrow> i < length bufs \<Longrightarrow> pos_ok bufs (Suc i) 0"
  by (auto simp: pos_ok_def) (metis nth_mem)

lemma consume_loop_pos:
  assumes "[] \<notin> set bufs" "pos_ok bufs hi ho" "pos_of bufs hi ho + n \<le> length (concat bufs)"
  shows "\<exists>hi' ho'. consume_loop bufs hi ho n = Inr (hi', ho') \<and> pos_ok bufs hi' ho'
           \<and> pos_of bufs hi' ho' = pos_of bufs hi ho + n"
  using assms
proof (induction bufs hi ho n rule: consume_loop.induct)
  case (1 bufs hi ho n)
  show ?case
  proof (cases "n = 0")
    case True
    then show ?thesis using "1.prems" by (simp add: consume_loop.simps)
  next
    case False
    with "1.prems" have "pos_of bufs hi ho < length (concat bufs)" by simp
    with "1.prems"(2) have hi: "hi < length bufs" by (rule pos_of_less)
    with "1.prems"(2) have ho: "ho < length (bufs ! hi)" by (simp add: pos_ok_def)
    show ?thesis
    proof (cases "n < length (bufs ! hi) - ho")
      case True
      with hi False show ?thesis
        by (simp add: consume_loop.simps [of bufs hi ho n] pos_ok_def pos_of_def)
    next
      case ge: False
      let ?n' = "n - (length (bufs ! hi) - ho)"
      have eq: "consume_loop bufs hi ho n = consume_loop bufs (Suc hi) 0 ?n'"
        using False hi ge by (simp add: consume_loop.simps [of bufs hi ho n] Let_def)
      have pos: "pos_of bufs (Suc hi) 0 + ?n' = pos_of bufs hi ho + n"
        using hi ho ge by (simp add: pos_of_Suc) (simp add: pos_of_def)
      show ?thesis
        using "1.IH" [OF False hi refl ge "1.prems"(1) pos_ok_Suc [OF "1.prems"(1) hi]]
          "1.prems"(3) pos eq by simp
    qed
  qed
qed

lemma byte_loop_pos:
  assumes "[] \<notin> set bufs" "pos_ok bufs bi bo" "pos_of bufs bi bo + n < length (concat bufs)"
  shows "\<exists>ri ro. byte_loop bufs bi bo n = Inr (ri, ro) \<and> ri < length bufs
           \<and> ro < length (bufs ! ri) \<and> pos_of bufs ri ro = pos_of bufs bi bo + n"
  using assms
proof (induction bufs bi bo n rule: byte_loop.induct)
  case (1 bufs bi bo n)
  then have bi: "bi < length bufs"
    by (metis add_lessD1 pos_of_less)
  with "1.prems"(2) have bo: "bo < length (bufs ! bi)" by (simp add: pos_ok_def)
  show ?case
  proof (cases "n < length (bufs ! bi) - bo")
    case True
    with bi show ?thesis
      by (simp add: byte_loop.simps [of bufs bi bo n] pos_of_def)
  next
    case ge: False
    let ?n' = "n - (length (bufs ! bi) - bo)"
    have eq: "byte_loop bufs bi bo n = byte_loop bufs (Suc bi) 0 ?n'"
      using bi ge by (simp add: byte_loop.simps [of bufs bi bo n] Let_def)
    have pos: "pos_of bufs (Suc bi) 0 + ?n' = pos_of bufs bi bo + n"
      using bi bo ge by (simp add: pos_of_Suc) (simp add: pos_of_def)
    show ?thesis
      using "1.IH" [OF bi refl ge "1.prems"(1) pos_ok_Suc [OF "1.prems"(1) bi]]
        "1.prems"(3) pos eq by simp
  qed
qed

lemma copy_loop_pos:
  assumes "[] \<notin> set bufs" "pos_ok bufs bi bo" "pos_of bufs bi bo + n \<le> length (concat bufs)"
  shows "copy_loop bufs bi bo n = Inr (take n (drop (pos_of bufs bi bo) (concat bufs)))"
  using assms
proof (induction bufs bi bo n rule: copy_loop.induct)
  case (1 bufs bi bo n)
  show ?case
  proof (cases "n = 0")
    case True
    then show ?thesis by (simp add: copy_loop.simps)
  next
    case False
    with "1.prems" have "pos_of bufs bi bo < length (concat bufs)" by simp
    with "1.prems"(2) have bi: "bi < length bufs" by (rule pos_of_less)
    with "1.prems"(2) have bo: "bo < length (bufs ! bi)" by (simp add: pos_ok_def)
    let ?k = "min (length (bufs ! bi) - bo) n"
    have split: "drop (pos_of bufs bi bo) (concat bufs)
      = drop bo (bufs ! bi) @ drop (pos_of bufs (Suc bi) 0) (concat bufs)"
    proof -
      have "concat bufs = concat (take bi bufs) @ bufs ! bi @ concat (drop (Suc bi) bufs)"
        using bi by (metis concat.simps(2) concat_append id_take_nth_drop)
      then show ?thesis using bi bo by (simp add: pos_of_Suc) (simp add: pos_of_def)
    qed
    have bound: "pos_of bufs (Suc bi) 0 + (n - ?k) \<le> length (concat bufs)"
    proof (cases "n \<le> length (bufs ! bi) - bo")
      case True
      then show ?thesis
        using pos_of_le [OF pos_ok_Suc [OF "1.prems"(1) bi]] by simp
    next
      case False
      then have "pos_of bufs (Suc bi) 0 + (n - ?k) = pos_of bufs bi bo + n"
        using bi bo by (simp add: pos_of_Suc) (simp add: pos_of_def)
      with "1.prems"(3) show ?thesis by simp
    qed
    have "copy_loop bufs (Suc bi) 0 (n - ?k)
      = Inr (take (n - ?k) (drop (pos_of bufs (Suc bi) 0) (concat bufs)))"
      using "1.IH" [OF False bi refl refl "1.prems"(1) pos_ok_Suc [OF "1.prems"(1) bi] bound] .
    then have "copy_loop bufs bi bo n
      = Inr (take ?k (drop bo (bufs ! bi)) @ take (n - ?k) (drop (pos_of bufs (Suc bi) 0) (concat bufs)))"
      using False bi by (simp add: copy_loop.simps [of bufs bi bo n] Let_def)
    moreover have "take ?k (drop bo (bufs ! bi)) = take n (drop bo (bufs ! bi))"
      by (cases "n \<le> length (bufs ! bi) - bo") auto
    moreover have "n - ?k = n - length (drop bo (bufs ! bi))" by simp
    ultimately show ?thesis by (simp add: split)
  qed
qed

section \<open>Each operation refines the one on the byte sequence\<close>

lemma queue_inv_empty: "queue_inv bq_empty"
  by (simp add: queue_inv_def bq_empty_def pos_ok_def queue_bytes_def)

lemma queue_bytes_empty: "queue_bytes bq_empty = []"
  by (simp add: bq_empty_def queue_bytes_def)

lemma queue_inv_total: "queue_inv q \<Longrightarrow> totalLength q = length (queue_bytes q)"
  by (simp add: queue_inv_def)

lemma queue_pos_bound:
  "queue_inv q \<Longrightarrow> pos_of (buffers q) (headIndex q) (headOffset q) + totalLength q
     = length (concat (buffers q))"
  using pos_of_le [of "buffers q" "headIndex q" "headOffset q"]
  by (simp add: queue_inv_def queue_bytes_pos)

lemma pos_of_append: "i \<le> length bufs \<Longrightarrow> pos_of (bufs @ bs) i ofs = pos_of bufs i ofs"
  by (simp add: pos_of_def)

lemma pos_ok_le: "pos_ok bufs i ofs \<Longrightarrow> i \<le> length bufs"
  by (auto simp: pos_ok_def split: if_splits)

lemma bq_push_refines:
  assumes "queue_inv q"
  shows "queue_inv (bq_push b q) \<and> queue_bytes (bq_push b q) = queue_bytes q @ b"
proof (cases "b = []")
  case True
  with assms show ?thesis by (simp add: bq_push_def)
next
  case False
  have ok: "pos_ok (buffers q) (headIndex q) (headOffset q)"
    and tot: "totalLength q = length (queue_bytes q)" and ne: "[] \<notin> set (buffers q)"
    using assms by (simp_all add: queue_inv_def)
  have le: "headIndex q \<le> length (buffers q)" using ok by (rule pos_ok_le)
  have ok': "pos_ok (buffers q @ [b]) (headIndex q) (headOffset q)"
    using ok False by (auto simp: pos_ok_def nth_append split: if_splits)
  have bytes: "queue_bytes (bq_push b q) = queue_bytes q @ b"
    using False le pos_of_le [OF ok]
    by (simp add: bq_push_def queue_bytes_pos pos_of_append)
  have "queue_inv (bq_push b q)"
    using assms False ne ok' tot bytes le
    by (auto simp: queue_inv_def bq_push_def pos_of_append nth_append split: option.splits)
  with bytes show ?thesis by simp
qed

lemma bq_consume_refines:
  assumes "queue_inv q" "0 \<le> n" "nat n \<le> length (queue_bytes q)"
  shows "\<exists>q'. bq_consume n q = Inr q' \<and> queue_inv q' \<and> queue_bytes q' = drop (nat n) (queue_bytes q)"
proof (cases "n = 0")
  case True
  with assms(1) show ?thesis by (simp add: bq_consume_def)
next
  case False
  let ?b = "buffers q"
  have inv: "[] \<notin> set ?b" "pos_ok ?b (headIndex q) (headOffset q)"
    and tot: "totalLength q = length (queue_bytes q)"
    using assms(1) by (simp_all add: queue_inv_def)
  have "pos_of ?b (headIndex q) (headOffset q) + nat n \<le> length (concat ?b)"
    using queue_pos_bound [OF assms(1)] assms(3) tot by linarith
  then obtain hi ho where loop: "consume_loop ?b (headIndex q) (headOffset q) (nat n) = Inr (hi, ho)"
    and ok: "pos_ok ?b hi ho"
    and pos: "pos_of ?b hi ho = pos_of ?b (headIndex q) (headOffset q) + nat n"
    using consume_loop_pos [OF inv] by blast
  let ?r = "drop (nat n) (queue_bytes q)"
  have rest: "drop (pos_of ?b hi ho) (concat ?b) = ?r"
    by (simp add: pos queue_bytes_pos add.commute)
  have len: "totalLength q - nat n = length ?r" using tot by simp
  have guard: "\<not> n \<le> 0" "\<not> n > int (totalLength q)" using False assms(2,3) tot by linarith+
  consider "?r = []" | "?r \<noteq> []" "hi > 64 \<and> ho = 0" | "?r \<noteq> []" "\<not> (hi > 64 \<and> ho = 0)" by blast
  then show ?thesis
  proof cases
    case 1
    then show ?thesis
      using guard loop len queue_inv_empty queue_bytes_empty
      by (simp add: bq_consume_def Let_def bq_empty_def)
  next
    case 2
    let ?q = "\<lparr>buffers = drop hi ?b, headIndex = 0, headOffset = ho,
                     totalLength = totalLength q - nat n, cache = None\<rparr>"
    have "bq_consume n q = Inr ?q" using guard loop len 2 by (simp add: bq_consume_def Let_def)
    moreover have bts: "queue_bytes ?q = ?r"
      using 2 rest by (metis append_take_drop_id buffer_queue.select_convs(1-3) concat_append
          drop0 add_0_right append_eq_conv_conj pos_of_def queue_bytes_def)
    moreover have "queue_inv ?q"
      using 2 inv(1) ok bts len by (auto simp: queue_inv_def pos_ok_def dest: in_set_dropD split: if_splits)
    ultimately show ?thesis by blast
  next
    case 3
    let ?q = "\<lparr>buffers = ?b, headIndex = hi, headOffset = ho,
                     totalLength = totalLength q - nat n, cache = None\<rparr>"
    have "bq_consume n q = Inr ?q" using guard loop len 3 by (simp add: bq_consume_def Let_def)
    moreover have bts: "queue_bytes ?q = ?r" using rest by (simp add: queue_bytes_pos)
    moreover have "queue_inv ?q" using inv(1) ok bts len by (simp add: queue_inv_def)
    ultimately show ?thesis by blast
  qed
qed

lemma bq_slice_refines:
  assumes "queue_inv q" "0 \<le> start" "start \<le> stop" "nat stop \<le> length (queue_bytes q)"
  shows "bq_slice start stop q = Inr (take (nat (stop - start)) (drop (nat start) (queue_bytes q)))"
proof (cases "stop - start = 0")
  case True
  with assms show ?thesis by (simp add: bq_slice_def queue_inv_total)
next
  case False
  let ?b = "buffers q" and ?p = "pos_of (buffers q) (headIndex q) (headOffset q)"
  have inv: "[] \<notin> set ?b" "pos_ok ?b (headIndex q) (headOffset q)"
    using assms(1) by (simp_all add: queue_inv_def)
  have bound: "?p + nat stop \<le> length (concat ?b)"
    using queue_pos_bound [OF assms(1)] queue_inv_total [OF assms(1)] assms(4) by linarith
  then have "?p + nat start \<le> length (concat ?b)" using assms(3) by linarith
  then obtain bi bo where loop: "consume_loop ?b (headIndex q) (headOffset q) (nat start) = Inr (bi, bo)"
    and ok: "pos_ok ?b bi bo" and pos: "pos_of ?b bi bo = ?p + nat start"
    using consume_loop_pos [OF inv] by blast
  have "pos_of ?b bi bo + nat (stop - start) \<le> length (concat ?b)"
    using bound pos assms(2,3) by linarith
  then have "copy_loop ?b bi bo (nat (stop - start))
    = Inr (take (nat (stop - start)) (drop (pos_of ?b bi bo) (concat ?b)))"
    by (rule copy_loop_pos [OF inv(1) ok])
  moreover have "\<not> stop > int (totalLength q)"
    using assms by (simp add: queue_inv_total)
  ultimately show ?thesis
    using False assms(2,3) loop by (simp add: bq_slice_def pos queue_bytes_pos add.commute)
qed

lemma bq_byteAt_refines:
  assumes "queue_inv q" "0 \<le> pos" "nat pos < length (queue_bytes q)"
  shows "\<exists>q'. bq_byteAt pos q = Inr (queue_bytes q ! nat pos, q') \<and> queue_inv q'
           \<and> queue_bytes q' = queue_bytes q"
proof -
  let ?b = "buffers q" and ?p = "pos_of (buffers q) (headIndex q) (headOffset q)"
  have inv: "[] \<notin> set ?b" "pos_ok ?b (headIndex q) (headOffset q)"
    using assms(1) by (simp_all add: queue_inv_def)
  have bound: "?p + nat pos < length (concat ?b)"
    using queue_pos_bound [OF assms(1)] queue_inv_total [OF assms(1)] assms(3) by linarith
  define start where "start = (case cache q of
      Some (g, ci, co) \<Rightarrow> if nat pos \<ge> g then (ci, co, nat pos - g) else (headIndex q, headOffset q, nat pos)
    | None \<Rightarrow> (headIndex q, headOffset q, nat pos))"
  obtain bi bo r where st: "start = (bi, bo, r)" by (cases start) auto
  have "pos_ok ?b bi bo \<and> pos_of ?b bi bo + r = ?p + nat pos"
    using st assms(1) inv(2)
    by (auto simp: start_def queue_inv_def pos_ok_def split: option.splits prod.splits if_splits)
  then obtain ri ro where loop: "byte_loop ?b bi bo r = Inr (ri, ro)"
    and r: "ri < length ?b" "ro < length (?b ! ri)" and pos: "pos_of ?b ri ro = ?p + nat pos"
    using byte_loop_pos [OF inv(1), of bi bo r] bound by auto
  let ?q = "q\<lparr>cache := Some (nat pos, ri, ro)\<rparr>"
  have byte: "?b ! ri ! ro = queue_bytes q ! nat pos"
    using concat_nth_pos [OF r] bound by (simp add: pos queue_bytes_pos)
  have guard: "\<not> (pos < 0 \<or> pos \<ge> int (totalLength q))"
    using assms by (simp add: queue_inv_total)
  have res: "bq_byteAt pos q = Inr (queue_bytes q ! nat pos, ?q)"
    using guard loop st byte
    unfolding bq_byteAt_def start_def [symmetric] by (simp add: Let_def start_def [symmetric])
  moreover have same: "queue_bytes ?q = queue_bytes q" by (simp add: queue_bytes_def)
  moreover have "queue_inv ?q"
    using assms(1) r pos same by (simp add: queue_inv_def)
  ultimately show ?thesis by blast
qed

lemma bq_match_refines:
  assumes "queue_inv q" "0 \<le> pos" "nat pos + length p \<le> length (queue_bytes q)"
  shows "\<exists>q'. bq_match p pos q = Inr (take (length p) (drop (nat pos) (queue_bytes q)) = p, q')
           \<and> queue_inv q' \<and> queue_bytes q' = queue_bytes q"
  using assms
proof (induction p arbitrary: pos q)
  case Nil
  then show ?case by simp
next
  case (Cons c cs)
  let ?s = "queue_bytes q"
  have lt: "nat pos < length ?s" using Cons.prems(3) by simp
  obtain q1 where q1: "bq_byteAt pos q = Inr (?s ! nat pos, q1)" "queue_inv q1" "queue_bytes q1 = ?s"
    using bq_byteAt_refines [OF Cons.prems(1,2) lt] by blast
  have drop: "drop (nat pos) ?s = ?s ! nat pos # drop (nat (pos + 1)) ?s"
    using lt Cons.prems(2) by (simp add: Cons_nth_drop_Suc nat_add_distrib)
  obtain q2 where q2: "bq_match cs (pos + 1) q1
      = Inr (take (length cs) (drop (nat (pos + 1)) ?s) = cs, q2)"
    "queue_inv q2" "queue_bytes q2 = ?s"
    using Cons.IH [OF q1(2), of "pos + 1"] Cons.prems(2,3) q1(3) by (auto simp: nat_add_distrib)
  show ?case using q1 q2 drop by auto
qed

lemma drop_short: "p \<noteq> [] \<Longrightarrow> length xs < i + length p \<Longrightarrow> length (drop i xs) < length p"
  by (cases p) auto

lemma take_drop_short: "p \<noteq> [] \<Longrightarrow> length xs < i + length p \<Longrightarrow> take (length p) (drop i xs) \<noteq> p"
  using drop_short [of p xs i] by (metis length_take min.strict_order_iff nat_neq_iff)

lemma bq_startsWith_refines:
  assumes "queue_inv q" "0 \<le> ofs" "p \<noteq> []"
  shows "\<exists>q'. bq_startsWith p ofs q = Inr (take (length p) (drop (nat ofs) (queue_bytes q)) = p, q')
           \<and> queue_inv q' \<and> queue_bytes q' = queue_bytes q"
proof (cases "nat ofs + length p \<le> length (queue_bytes q)")
  case True
  moreover have "\<not> int (length p) + ofs > int (totalLength q)"
    using True assms by (simp add: queue_inv_total)
  ultimately show ?thesis
    using assms bq_match_refines [OF assms(1,2) True] by (simp add: bq_startsWith_def)
next
  case False
  then have "take (length p) (drop (nat ofs) (queue_bytes q)) \<noteq> p"
    by (intro take_drop_short assms) simp
  moreover have "int (length p) + ofs > int (totalLength q)"
    using False assms by (simp add: queue_inv_total)
  ultimately show ?thesis using assms by (simp add: bq_startsWith_def)
qed

definition shifted :: "nat \<Rightarrow> nat option \<Rightarrow> int" where
  "shifted k r = (case r of None \<Rightarrow> -1 | Some i \<Rightarrow> int (i + k))"

lemma shifted_simps [simp]:
  "shifted k None = -1" "shifted k (Some i) = int (i + k)"
  by (simp_all add: shifted_def)

lemma shifted_neg [simp]: "shifted k r < 0 \<longleftrightarrow> r = None"
  by (cases r) auto

lemma index_of_short: "p \<noteq> [] \<Longrightarrow> length xs < length p \<Longrightarrow> index_of p xs = None"
  using index_of_Some [of p xs] by (cases "index_of p xs") auto

lemma bq_scan_refines:
  assumes "queue_inv q" "p \<noteq> []" "0 \<le> i"
    "n = (if length (queue_bytes q) < nat i + length p then 0
          else length (queue_bytes q) - length p - nat i + 1)"
  shows "\<exists>q'. bq_scan n p i q = Inr (shifted (nat i) (index_of p (drop (nat i) (queue_bytes q))), q')
           \<and> queue_inv q' \<and> queue_bytes q' = queue_bytes q"
  using assms
proof (induction n arbitrary: i q)
  case 0
  then have "length (queue_bytes q) < nat i + length p" by (auto split: if_splits)
  then have "index_of p (drop (nat i) (queue_bytes q)) = None"
    using 0 by (intro index_of_short drop_short) auto
  with 0 show ?case by (simp add: shifted_def)
next
  case (Suc n)
  let ?s = "queue_bytes q"
  have fits: "nat i + length p \<le> length ?s" using Suc.prems(4) by (auto split: if_splits)
  obtain q1 where q1: "bq_match p i q = Inr (take (length p) (drop (nat i) ?s) = p, q1)"
    "queue_inv q1" "queue_bytes q1 = ?s"
    using bq_match_refines [OF Suc.prems(1,3) fits] by blast
  have "nat i < length ?s" using fits Suc.prems(2) by (cases p) auto
  then have drop: "drop (nat i) ?s = ?s ! nat i # drop (nat (i + 1)) ?s"
    using Suc.prems(3) by (simp add: Cons_nth_drop_Suc nat_add_distrib)
  show ?case
  proof (cases "take (length p) (drop (nat i) ?s) = p")
    case True
    then have "index_of p (drop (nat i) ?s) = Some 0" using drop by simp
    with True q1 Suc.prems(3) show ?thesis by (simp add: shifted_def)
  next
    case False
    have n: "n = (if length ?s < nat (i + 1) + length p then 0
                  else length ?s - length p - nat (i + 1) + 1)"
      using Suc.prems(3,4) fits by (auto simp: nat_add_distrib split: if_splits)
    obtain q2 where q2: "bq_scan n p (i + 1) q1
        = Inr (shifted (nat (i + 1)) (index_of p (drop (nat (i + 1)) ?s)), q2)"
      "queue_inv q2" "queue_bytes q2 = ?s"
    proof -
      have "0 \<le> i + 1" using Suc.prems(3) by simp
      then show ?thesis
        using that Suc.IH [OF q1(2) Suc.prems(2) _ n [folded q1(3)]] unfolding q1(3) by blast
    qed
    have "index_of p (drop (nat i) ?s) = map_option Suc (index_of p (drop (nat (i + 1)) ?s))"
      using False drop by simp
    then have "shifted (nat i) (index_of p (drop (nat i) ?s))
      = shifted (nat (i + 1)) (index_of p (drop (nat (i + 1)) ?s))"
      using Suc.prems(3) by (auto simp: shifted_def nat_add_distrib split: option.splits)
    with False q1 q2 show ?thesis by simp
  qed
qed

lemma bq_indexOf_refines:
  assumes "queue_inv q" "p \<noteq> []" "0 \<le> frm"
  shows "\<exists>q'. bq_indexOf p frm q = Inr (shifted (nat frm) (index_of p (drop (nat frm) (queue_bytes q))), q')
           \<and> queue_inv q' \<and> queue_bytes q' = queue_bytes q"
proof (cases "length (queue_bytes q) < nat frm + length p")
  case True
  then have "index_of p (drop (nat frm) (queue_bytes q)) = None"
    using assms(2) by (intro index_of_short drop_short) auto
  moreover have "int (totalLength q) - frm < int (length p)"
    using True assms by (simp add: queue_inv_total)
  ultimately show ?thesis using assms by (simp add: bq_indexOf_def shifted_def Let_def)
next
  case False
  then have fits: "\<not> int (totalLength q) - frm < int (length p)"
    using assms by (simp add: queue_inv_total)
  have "nat (int (totalLength q) - int (length p) - frm + 1)
      = length (queue_bytes q) - length p - nat frm + 1"
    using False assms by (simp add: queue_inv_total)
  then show ?thesis
    using fits False assms bq_scan_refines [OF assms, of "length (queue_bytes q) - length p - nat frm + 1"]
    by (simp add: bq_indexOf_def Let_def)
qed

section \<open>The interface of the queue\<close>

text \<open>
  What the multipart parser relies on: a queue type with an invariant and a view as
  bytes, and one law per operation. The facts proved inside speak of reading a prefix
  and dropping it, which is how the parser uses the queue.
\<close>

locale byte_queue =
  fixes inv :: "'q \<Rightarrow> bool"
    and view :: "'q \<Rightarrow> bytes"
    and push :: "bytes \<Rightarrow> 'q \<Rightarrow> 'q"
    and consume :: "int \<Rightarrow> 'q \<Rightarrow> 'q result"
    and slice :: "int \<Rightarrow> int \<Rightarrow> 'q \<Rightarrow> bytes result"
    and byteAt :: "int \<Rightarrow> 'q \<Rightarrow> (char \<times> 'q) result"
    and startsWith :: "bytes \<Rightarrow> int \<Rightarrow> 'q \<Rightarrow> (bool \<times> 'q) result"
    and indexOf :: "bytes \<Rightarrow> int \<Rightarrow> 'q \<Rightarrow> (int \<times> 'q) result"
  assumes push_law: "inv q \<Longrightarrow> inv (push b q) \<and> view (push b q) = view q @ b"
    and consume_law: "inv q \<Longrightarrow> 0 \<le> n \<Longrightarrow> nat n \<le> length (view q) \<Longrightarrow>
      \<exists>q'. consume n q = Inr q' \<and> inv q' \<and> view q' = drop (nat n) (view q)"
    and slice_law: "inv q \<Longrightarrow> 0 \<le> i \<Longrightarrow> i \<le> j \<Longrightarrow> nat j \<le> length (view q) \<Longrightarrow>
      slice i j q = Inr (take (nat (j - i)) (drop (nat i) (view q)))"
    and byteAt_law: "inv q \<Longrightarrow> 0 \<le> pos \<Longrightarrow> nat pos < length (view q) \<Longrightarrow>
      \<exists>q'. byteAt pos q = Inr (view q ! nat pos, q') \<and> inv q' \<and> view q' = view q"
    and startsWith_law: "inv q \<Longrightarrow> 0 \<le> k \<Longrightarrow> p \<noteq> [] \<Longrightarrow>
      \<exists>q'. startsWith p k q = Inr (take (length p) (drop (nat k) (view q)) = p, q')
        \<and> inv q' \<and> view q' = view q"
    and indexOf_law: "inv q \<Longrightarrow> p \<noteq> [] \<Longrightarrow> 0 \<le> k \<Longrightarrow>
      \<exists>q'. indexOf p k q = Inr (shifted (nat k) (index_of p (drop (nat k) (view q))), q')
        \<and> inv q' \<and> view q' = view q"
begin

lemma indexOf_start:
  "inv q \<Longrightarrow> p \<noteq> [] \<Longrightarrow>
   \<exists>q'. indexOf p 0 q = Inr (shifted 0 (index_of p (view q)), q') \<and> inv q' \<and> view q' = view q"
  using indexOf_law [of q p 0] by simp

lemma read_and_drop:
  assumes "inv q" "n \<le> length (view q)"
  shows "slice 0 (int n) q = Inr (take n (view q))"
    and "\<exists>q'. consume (int n) q = Inr q' \<and> inv q' \<and> view q' = drop n (view q)"
  using slice_law [of q 0 "int n"] consume_law [of q "int n"] assms by simp_all

lemma read_back_pushed:
  assumes "inv q" "view q = []"
  shows "slice 0 (int (length b)) (push b q) = Inr b"
  using push_law [OF assms(1), of b] assms(2) read_and_drop(1) [of "push b q" "length b"] by simp

end

interpretation bq: byte_queue queue_inv queue_bytes bq_push bq_consume bq_slice bq_byteAt
  bq_startsWith bq_indexOf
proof (unfold_locales, goal_cases)
  case (1 q b)
  then show ?case by (rule bq_push_refines)
next
  case (2 q n)
  then show ?case by (rule bq_consume_refines)
next
  case (3 q i j)
  then show ?case by (rule bq_slice_refines)
next
  case (4 q pos)
  then show ?case by (rule bq_byteAt_refines)
next
  case (5 q k p)
  then show ?case by (rule bq_startsWith_refines)
next
  case (6 q p k)
  then show ?case by (rule bq_indexOf_refines)
qed

end
