(* ===== verification/MultipartParser.thy ===== *)
theory MultipartParser
  imports BufferQueue
begin

text \<open>
  \<^verbatim>\<open>src/src/services/multipart-batch.parser.ts\<close>: the streaming parser of multipart
  \<open>$batch\<close> payloads. A parser is a record with the fields of \<open>StreamingBatchParser\<close>; the
  \<open>ParserContext\<close> that a parser shares with the parsers it starts for changesets is
  threaded through. \<open>JSON.parse\<close> is the argument \<open>json\<close> (\<open>None\<close> where it throws); a
  \<open>Buffer\<close> decoded as UTF-8 is its bytes. The callback that reports a limit violation is
  called just before the error that names the same limit is thrown, so the error stands
  for both. The loop of \<open>processBuffer\<close> takes fuel.
\<close>

section \<open>Limits and the shared context\<close>

record limits =
  maxPayloadBytes :: "int option"
  maxOperations :: "int option"
  maxChangesetOperations :: "int option"
  maxDepth :: "int option"
  maxPartBodyBytes :: "int option"

record parser_context =
  autoId :: nat
  totalOperations :: nat

definition context_init :: parser_context where
  "context_init = \<lparr>autoId = 0, totalOperations = 0\<rparr>"

text \<open>\<open>limit && limit > 0 && n > limit\<close>\<close>

definition exceeds :: "nat \<Rightarrow> int option \<Rightarrow> bool" where
  "exceeds n limit \<longleftrightarrow> (case limit of None \<Rightarrow> False | Some m \<Rightarrow> m \<noteq> 0 \<and> m > 0 \<and> int n > m)"

definition truthy :: "string option \<Rightarrow> bool" where
  "truthy s \<longleftrightarrow> (case s of None \<Rightarrow> False | Some x \<Rightarrow> x \<noteq> [])"

definition bad_request :: "string \<Rightarrow> 'a result" where
  "bad_request msg = Inl (HttpError 400 '''' msg)"

definition recordOperation ::
  "limits \<Rightarrow> string option \<Rightarrow> nat option \<Rightarrow> parser_context \<Rightarrow> parser_context result" where
  "recordOperation lims changesetId position ctx =
     (let ctx' = ctx\<lparr>totalOperations := totalOperations ctx + 1\<rparr>
      in if exceeds (totalOperations ctx') (maxOperations lims)
         then Inl (HttpError 400 ''batch-operation-limit-exceeded''
                ''Batch payload exceeds the configured operation limit.'')
         else if truthy changesetId
           \<and> (case position of None \<Rightarrow> False
               | Some k \<Rightarrow> k \<noteq> 0 \<and> exceeds k (maxChangesetOperations lims))
         then Inl (HttpError 400 ''changeset-operation-limit-exceeded''
                ''Changeset exceeds the configured operation limit.'')
         else Inr ctx')"

definition checkTotalBytes :: "limits \<Rightarrow> nat \<Rightarrow> unit result" where
  "checkTotalBytes lims n =
     (if exceeds n (maxPayloadBytes lims)
      then Inl (HttpError 413 ''batch-payload-size-limit-exceeded''
             ''Batch payload exceeds the configured size limit.'')
      else Inr ())"

definition ensureDepth :: "limits \<Rightarrow> nat \<Rightarrow> unit result" where
  "ensureDepth lims nextDepth =
     (case maxDepth lims of
        Some m \<Rightarrow> if m \<noteq> 0 \<and> m > 0 \<and> int nextDepth \<ge> m
          then Inl (HttpError 400 ''batch-depth-limit-exceeded''
                 ''Changeset nesting depth exceeds the configured limit.'')
          else Inr ()
      | None \<Rightarrow> Inr ())"

definition ensurePartSize :: "limits \<Rightarrow> nat \<Rightarrow> unit result" where
  "ensurePartSize lims size' =
     (if exceeds size' (maxPartBodyBytes lims)
      then Inl (HttpError 413 ''batch-part-size-limit-exceeded''
             ''Batch part exceeds the configured size limit.'')
      else Inr ())"

section \<open>The text of one part\<close>

type_synonym headers = "(string \<times> string) list"

text \<open>\<open>parsedBody\<close>: absent, the value of \<open>JSON.parse\<close>, or text.\<close>

datatype 'j part_body = NoBody | JsonBody 'j | TextBody string

record 'j batch_request =
  req_id :: "string option"
  req_method :: string
  req_url :: string
  req_headers :: headers
  req_body :: "'j part_body"
  req_rawBody :: "bytes option"
  atomicityGroup :: "string option"

definition stripLeadingEmptyLine :: "bytes \<Rightarrow> bytes" where
  "stripLeadingEmptyLine b =
     (if b = [] then b
      else if nth_opt b 0 = Some (CHR 13) \<and> nth_opt b 1 = Some (CHR 10) then drop 2 b
      else if nth_opt b 0 = Some (CHR 10) then drop 1 b
      else b)"

fun findLineBreak :: "bytes \<Rightarrow> (nat \<times> nat) option" where
  "findLineBreak [] = None"
| "findLineBreak (c # cs) =
     (if c = CHR 13 \<and> cs \<noteq> [] \<and> hd cs = CHR 10 then Some (0, 2)
      else if c = CHR 10 then Some (0, 1)
      else map_option (\<lambda>(i, l). (Suc i, l)) (findLineBreak cs))"

definition crlf :: bytes where
  "crlf = [CHR 13, CHR 10]"

definition crlf2 :: bytes where
  "crlf2 = [CHR 13, CHR 10, CHR 13, CHR 10]"

definition lf2 :: bytes where
  "lf2 = [CHR 10, CHR 10]"

definition findHeaderSeparator :: "bytes \<Rightarrow> (nat \<times> nat) option" where
  "findHeaderSeparator b =
     (case index_of crlf2 b of
        Some i \<Rightarrow> Some (i, 4)
      | None \<Rightarrow> (case index_of lf2 b of Some i \<Rightarrow> Some (i, 2) | None \<Rightarrow> None))"

definition add_header_line :: "headers \<Rightarrow> string \<Rightarrow> headers" where
  "add_header_line hs line =
     (if line = [] then hs
      else case index_of_char (CHR '':'') line of
        None \<Rightarrow> hs
      | Some i \<Rightarrow> obj_set (lower (trim (take i line))) (trim (drop (i + 1) line)) hs)"

definition parseHeaders :: "string \<Rightarrow> headers" where
  "parseHeaders raw = foldl add_header_line [] (split_lines raw)"

text \<open>\<open>/boundary=([^;]+)/i\<close>: the leftmost match, with at least one character after the sign.\<close>

fun match_boundary :: "string \<Rightarrow> string option" where
  "match_boundary [] = None"
| "match_boundary (c # cs) =
     (let v = takeWhile (\<lambda>x. x \<noteq> CHR '';'') (drop 9 (c # cs))
      in if starts_with (lower (c # cs)) ''boundary='' \<and> v \<noteq> [] then Some v
         else match_boundary cs)"

definition extractBoundary :: "string \<Rightarrow> string option" where
  "extractBoundary contentType =
     map_option (\<lambda>m. strip_dquotes (trim m)) (match_boundary contentType)"

definition parseHttpPayload ::
  "(string \<Rightarrow> 'j option) \<Rightarrow> bytes \<Rightarrow>
   (string \<times> string \<times> headers \<times> 'j part_body \<times> bytes option) result" where
  "parseHttpPayload json body =
     (let sanitized = stripLeadingEmptyLine body
      in case findLineBreak sanitized of
        None \<Rightarrow> bad_request ''Malformed batch part: missing request line.''
      | Some (i, len) \<Rightarrow>
          let requestLine = trim (take i sanitized);
              rest = drop (i + len) sanitized;
              fields = split_ws requestLine;
              method = nth_opt fields 0;
              url = nth_opt fields 1
          in if \<not> truthy method \<or> \<not> truthy url
             then bad_request ''Malformed batch part: invalid request line.''
             else let headerInfo = findHeaderSeparator rest;
                      hs = parseHeaders (case headerInfo of None \<Rightarrow> rest | Some (k, l) \<Rightarrow> take k rest);
                      bodyStart = (case headerInfo of None \<Rightarrow> length rest | Some (k, l) \<Rightarrow> k + l);
                      rawBody = drop bodyStart rest;
                      contentType = map_of hs ''content-type'';
                      isJson = (case contentType of None \<Rightarrow> False
                        | Some ct \<Rightarrow> contains_str (lower ct) ''application/json'');
                      isText = (case contentType of None \<Rightarrow> False
                        | Some ct \<Rightarrow> starts_with (lower ct) ''text/'')
                  in if rawBody = []
                     then Inr (upper (the method), the url, hs, NoBody, None)
                     else if truthy contentType \<and> isJson
                     then (case json rawBody of
                             None \<Rightarrow> bad_request ''Invalid JSON payload inside batch part.''
                           | Some j \<Rightarrow> Inr (upper (the method), the url, hs, JsonBody j, None))
                     else Inr (upper (the method), the url, hs,
                            if truthy contentType \<and> isText then TextBody rawBody else NoBody,
                            Some rawBody))"

text \<open>
  \<open>parseHttpPart\<close>: the id is the part's \<open>Content-ID\<close>, or the next automatic one, which
  advances the shared counter.
\<close>

definition parseHttpPart ::
  "(string \<Rightarrow> 'j option) \<Rightarrow> headers \<Rightarrow> bytes \<Rightarrow> string option \<Rightarrow> parser_context \<Rightarrow>
   (parser_context \<times> 'j batch_request) result" where
  "parseHttpPart json hs body grp ctx =
     (let (ctx', rid) = (case map_of hs ''content-id'' of
            Some v \<Rightarrow> (ctx, v)
          | None \<Rightarrow> (ctx\<lparr>autoId := autoId ctx + 1\<rparr>, ''auto-'' @ show_nat (autoId ctx + 1)))
      in rbind (parseHttpPayload json body) (\<lambda>(method, url, phs, pbody, raw).
           Inr (ctx', \<lparr>req_id = Some rid, req_method = method, req_url = url, req_headers = phs,
                       req_body = pbody, req_rawBody = raw, atomicityGroup = grp\<rparr>)))"

section \<open>The streaming parser\<close>

datatype parser_state = Headers | Body

record 'j batch_parser =
  boundary :: string
  depth :: nat
  changesetId :: "string option"
  buffer :: buffer_queue
  firstBoundarySeen :: bool
  pstate :: parser_state
  currentHeaders :: "headers option"
  currentPartBytes :: nat
  ended :: bool
  requests :: "'j batch_request list"
  changesetOperationIndex :: nat

definition new_parser :: "string \<Rightarrow> nat \<Rightarrow> string option \<Rightarrow> 'j batch_parser" where
  "new_parser b d cs =
     \<lparr>boundary = b, depth = d, changesetId = cs, buffer = bq_empty, firstBoundarySeen = False,
      pstate = Headers, currentHeaders = None, currentPartBytes = 0, ended = False,
      requests = [], changesetOperationIndex = 0\<rparr>"

definition boundaryPrefix :: "string \<Rightarrow> bytes" where
  "boundaryPrefix b = ''--'' @ b"

definition boundaryMarker :: "string \<Rightarrow> bytes" where
  "boundaryMarker b = crlf @ ''--'' @ b"

definition closingMarker :: "string \<Rightarrow> bytes" where
  "closingMarker b = crlf @ ''--'' @ b @ ''--''"

definition boundaryHeadroom :: "string \<Rightarrow> nat" where
  "boundaryHeadroom b = max (length (boundaryMarker b)) (length (closingMarker b)) + 4"

text \<open>\<open>buffer.length >= 2 && byteAt(0) === c && byteAt(1) === d\<close>\<close>

definition next_two :: "char \<Rightarrow> char \<Rightarrow> buffer_queue \<Rightarrow> (bool \<times> buffer_queue) result" where
  "next_two c d q =
     (if totalLength q \<ge> 2
      then rbind (bq_byteAt 0 q) (\<lambda>(x, q1).
             if x = c then rbind (bq_byteAt 1 q1) (\<lambda>(y, q2). Inr (y = d, q2))
             else Inr (False, q1))
      else Inr (False, q))"

text \<open>\<open>if (<the next two bytes are CRLF>) this.buffer.consume(2)\<close>\<close>

definition skip_crlf :: "buffer_queue \<Rightarrow> buffer_queue result" where
  "skip_crlf q = rbind (next_two (CHR 13) (CHR 10) q) (\<lambda>(yes, q1).
     if yes then bq_consume 2 q1 else Inr q1)"

text \<open>
  \<open>consumeAnchoredFirstBoundary\<close>: \<open>None\<close> is \<open>undefined\<close>, wait for more data.
\<close>

definition tooShortFirst :: "bool \<Rightarrow> buffer_queue \<Rightarrow> bytes \<Rightarrow> (nat option \<times> buffer_queue) result" where
  "tooShortFirst finalPass q pre =
     (if totalLength q = 0
      then (if \<not> finalPass then Inr (None, q)
            else bad_request ''Malformed batch payload: boundary not found.'')
      else if totalLength q < length pre
      then rbind (bq_byteAt 0 q) (\<lambda>(c, q1).
             if (c = CHR 45 \<or> c = CHR 13) \<and> \<not> finalPass then Inr (None, q1)
             else bad_request ''Malformed batch payload: boundary must appear at start of payload.'')
      else bad_request ''Malformed batch payload: boundary must appear at start of payload.'')"

definition consumeAnchoredFirstBoundary ::
  "bool \<Rightarrow> string \<Rightarrow> buffer_queue \<Rightarrow> (nat option \<times> buffer_queue) result" where
  "consumeAnchoredFirstBoundary finalPass b q =
     (let pre = boundaryPrefix b
      in rbind (if totalLength q \<ge> length pre then bq_startsWith pre 0 q else Inr (False, q))
         (\<lambda>(yes, q1).
           if yes then rbind (bq_consume (int (length pre)) q1) (\<lambda>q2. Inr (Some (length pre), q2))
           else if totalLength q1 < 2
           then (if \<not> finalPass then Inr (None, q1) else tooShortFirst finalPass q1 pre)
           else rbind (next_two (CHR 13) (CHR 10) q1) (\<lambda>(isCrlf, q2).
             if \<not> isCrlf then tooShortFirst finalPass q2 pre
             else let required = 2 + length pre
                  in if totalLength q2 < required
                     then (if \<not> finalPass then Inr (None, q2) else tooShortFirst finalPass q2 pre)
                     else rbind (bq_startsWith pre 2 q2) (\<lambda>(yes2, q3).
                       if yes2 then rbind (bq_consume (int required) q3) (\<lambda>q4. Inr (Some required, q4))
                       else tooShortFirst finalPass q3 pre))))"

text \<open>
  The start of \<open>processBuffer\<close>'s loop body: \<open>False\<close> when the function returns there
  (no boundary yet, or the closing boundary of an empty payload).
\<close>

definition first_stage :: "bool \<Rightarrow> 'j batch_parser \<Rightarrow> (bool \<times> 'j batch_parser) result" where
  "first_stage finalPass p =
     (if firstBoundarySeen p then Inr (True, p)
      else rbind (consumeAnchoredFirstBoundary finalPass (boundary p) (buffer p)) (\<lambda>(consumed, q).
        case consumed of
          None \<Rightarrow> Inr (False, p\<lparr>buffer := q\<rparr>)
        | Some k \<Rightarrow>
            if k = 0 then Inr (False, p\<lparr>buffer := q\<rparr>)
            else rbind (next_two (CHR 45) (CHR 45) q) (\<lambda>(closing, q1).
              if closing
              then rbind (bq_consume 2 q1) (\<lambda>q2.
                     Inr (False, p\<lparr>buffer := q2, firstBoundarySeen := True, ended := True\<rparr>))
              else rbind (skip_crlf q1) (\<lambda>q2.
                     Inr (True, p\<lparr>buffer := q2, firstBoundarySeen := True, pstate := Headers\<rparr>)))))"

definition findHeaderSeparatorInQueue ::
  "buffer_queue \<Rightarrow> ((nat \<times> nat) option \<times> buffer_queue) result" where
  "findHeaderSeparatorInQueue q =
     rbind (bq_indexOf crlf2 0 q) (\<lambda>(crlfIdx, q1).
     rbind (bq_indexOf lf2 0 q1) (\<lambda>(lfIdx, q2).
       Inr (if crlfIdx = -1 then (if lfIdx \<ge> 0 then Some (nat lfIdx, 2) else None)
            else if lfIdx = -1 then Some (nat crlfIdx, 4)
            else if crlfIdx \<le> lfIdx then Some (nat crlfIdx, 4) else Some (nat lfIdx, 2), q2)))"

definition header_stage :: "bool \<Rightarrow> 'j batch_parser \<Rightarrow> (bool \<times> 'j batch_parser) result" where
  "header_stage finalPass p =
     (if pstate p \<noteq> Headers then Inr (True, p)
      else rbind (findHeaderSeparatorInQueue (buffer p)) (\<lambda>(info, q).
        case info of
          None \<Rightarrow>
            if finalPass then bad_request ''Malformed multipart part: missing header separator.''
            else Inr (False, p\<lparr>buffer := q\<rparr>)
        | Some (i, len) \<Rightarrow>
            rbind (bq_slice 0 (int i) q) (\<lambda>headerBuffer.
            rbind (bq_consume (int (i + len)) q) (\<lambda>q1.
              Inr (True, p\<lparr>buffer := q1, currentHeaders := Some (parseHeaders headerBuffer),
                           pstate := Body, currentPartBytes := 0\<rparr>)))))"

text \<open>\<open>findNextBoundary\<close>: \<open>None\<close> is index -1, the flag says whether it closes.\<close>

definition findNextBoundary ::
  "string \<Rightarrow> buffer_queue \<Rightarrow> ((nat \<times> bool) option \<times> buffer_queue) result" where
  "findNextBoundary b q =
     rbind (bq_indexOf (closingMarker b) 0 q) (\<lambda>(closingIndex, q1).
     rbind (bq_indexOf (boundaryMarker b) 0 q1) (\<lambda>(markerIndex, q2).
       Inr (if closingIndex = -1 \<and> markerIndex = -1 then None
            else if closingIndex \<ge> 0 \<and> (markerIndex = -1 \<or> closingIndex \<le> markerIndex)
            then Some (nat closingIndex, True)
            else Some (nat markerIndex, False), q2)))"

definition enforceStreamingPartLimit :: "limits \<Rightarrow> 'j batch_parser \<Rightarrow> 'j batch_parser result" where
  "enforceStreamingPartLimit lims p =
     (case maxPartBodyBytes lims of
        None \<Rightarrow> Inr p
      | Some m \<Rightarrow>
          if m = 0 \<or> m \<le> 0 then Inr p
          else let safeLength = totalLength (buffer p) - boundaryHeadroom (boundary p)
               in if safeLength \<le> currentPartBytes p then Inr p
                  else rbind (ensurePartSize lims safeLength)
                         (\<lambda>_. Inr (p\<lparr>currentPartBytes := safeLength\<rparr>)))"

definition nextChangesetOperation :: "'j batch_parser \<Rightarrow> nat option \<times> 'j batch_parser" where
  "nextChangesetOperation p =
     (if \<not> truthy (changesetId p) then (None, p)
      else let k = changesetOperationIndex p + 1
           in (Some k, p\<lparr>changesetOperationIndex := k\<rparr>))"

text \<open>
  \<open>handlePart\<close>. \<open>nested\<close> runs the parser of a changeset on its body (\<open>parseBuffer\<close>) and
  returns the requests it found.
\<close>

definition handlePart ::
  "(bytes \<Rightarrow> parser_context \<Rightarrow> 'j batch_parser \<Rightarrow> (parser_context \<times> 'j batch_request list) result) \<Rightarrow>
   (string \<Rightarrow> 'j option) \<Rightarrow> limits \<Rightarrow> bytes \<Rightarrow> headers option \<Rightarrow> parser_context \<Rightarrow> 'j batch_parser \<Rightarrow>
   (parser_context \<times> 'j batch_parser) result" where
  "handlePart nested json lims body hs0 ctx p =
     (case hs0 of
        None \<Rightarrow> bad_request ''Multipart part is missing headers.''
      | Some hs \<Rightarrow>
          let contentType = (case map_of hs ''content-type'' of None \<Rightarrow> '''' | Some v \<Rightarrow> lower v)
          in if starts_with contentType ''multipart/mixed''
             then let nestedBoundary = extractBoundary contentType
                  in if \<not> truthy nestedBoundary
                     then bad_request ''Changeset part is missing boundary attribute.''
                     else rbind (ensureDepth lims (depth p + 1)) (\<lambda>_.
                       let groupId = (case map_of hs ''content-id'' of
                             Some v \<Rightarrow> v | None \<Rightarrow> the nestedBoundary)
                       in rbind (nested body ctx (new_parser (the nestedBoundary) (depth p + 1) (Some groupId)))
                          (\<lambda>(ctx', rs).
                            if rs = []
                            then bad_request ''Changeset part must contain at least one request.''
                            else Inr (ctx', p\<lparr>requests := requests p @ rs\<rparr>)))
             else if starts_with contentType ''application/http''
             then rbind (parseHttpPart json hs body (changesetId p) ctx) (\<lambda>(ctx1, request).
                    let (position, p1) = nextChangesetOperation p
                    in rbind (recordOperation lims (changesetId p1) position ctx1) (\<lambda>ctx2.
                         Inr (ctx2, p1\<lparr>requests := requests p1 @ [request]\<rparr>)))
             else bad_request (''Unsupported part content-type: ''
                    @ (if contentType = [] then ''unknown'' else contentType) @ ''.''))"

text \<open>After a part: consume its boundary; \<open>False\<close> when it was the closing one.\<close>

definition finish_part :: "nat \<Rightarrow> bool \<Rightarrow> 'j batch_parser \<Rightarrow> (bool \<times> 'j batch_parser) result" where
  "finish_part i closing p =
     (let markerLength = (if closing then length (closingMarker (boundary p))
                          else length (boundaryMarker (boundary p)))
      in rbind (bq_consume (int (i + markerLength)) (buffer p)) (\<lambda>q.
         rbind (skip_crlf q) (\<lambda>q1.
           if closing
           then Inr (False, p\<lparr>buffer := q1, currentHeaders := None, currentPartBytes := 0, ended := True\<rparr>)
           else Inr (True, p\<lparr>buffer := q1, currentHeaders := None, currentPartBytes := 0,
                            pstate := Headers\<rparr>))))"

text \<open>
  \<open>processBuffer\<close>: one unit of fuel per round of the loop. The nested parser of a part
  runs on the fuel that is left. \<open>parse_nested\<close> is \<open>parseBuffer\<close> for it.
\<close>

definition parse_nested ::
  "(bool \<Rightarrow> parser_context \<Rightarrow> 'j batch_parser \<Rightarrow> (parser_context \<times> 'j batch_parser) result) \<Rightarrow>
   bytes \<Rightarrow> parser_context \<Rightarrow> 'j batch_parser \<Rightarrow> (parser_context \<times> 'j batch_request list) result" where
  "parse_nested process b ctx p =
     rbind (process True ctx (p\<lparr>buffer := bq_push b (buffer p)\<rparr>)) (\<lambda>(ctx', p').
       if \<not> ended p' then bad_request ''Malformed batch payload: missing closing boundary.''
       else Inr (ctx', requests p'))"

definition body_stage ::
  "(bool \<Rightarrow> parser_context \<Rightarrow> 'j batch_parser \<Rightarrow> (parser_context \<times> 'j batch_parser) result) \<Rightarrow>
   (string \<Rightarrow> 'j option) \<Rightarrow> limits \<Rightarrow> bool \<Rightarrow> parser_context \<Rightarrow> 'j batch_parser \<Rightarrow>
   (parser_context \<times> 'j batch_parser) result" where
  "body_stage run json lims finalPass ctx p =
     rbind (findNextBoundary (boundary p) (buffer p)) (\<lambda>(found, q).
       let p1 = p\<lparr>buffer := q\<rparr>
       in case found of
            None \<Rightarrow>
              rbind (enforceStreamingPartLimit lims p1) (\<lambda>p2.
                if finalPass then bad_request ''Malformed multipart part: unterminated body.''
                else Inr (ctx, p2))
          | Some (i, closing) \<Rightarrow>
              rbind (bq_slice 0 (int i) q) (\<lambda>body.
              rbind (ensurePartSize lims (length body)) (\<lambda>_.
              rbind (handlePart (parse_nested run) json lims body (currentHeaders p1) ctx p1) (\<lambda>(ctx', p2).
              rbind (finish_part i closing p2) (\<lambda>(more, p3).
                if more then run finalPass ctx' p3 else Inr (ctx', p3))))))"

primrec processBuffer ::
  "nat \<Rightarrow> (string \<Rightarrow> 'j option) \<Rightarrow> limits \<Rightarrow> bool \<Rightarrow> parser_context \<Rightarrow> 'j batch_parser \<Rightarrow>
   (parser_context \<times> 'j batch_parser) result" where
  "processBuffer 0 json lims finalPass ctx p = (if ended p then Inr (ctx, p) else Inl OutOfFuel)"
| "processBuffer (Suc n) json lims finalPass ctx p =
     (if ended p then Inr (ctx, p)
      else rbind (first_stage finalPass p) (\<lambda>(go1, p1).
        if \<not> go1 then Inr (ctx, p1)
        else rbind (header_stage finalPass p1) (\<lambda>(go2, p2).
          if \<not> go2 then Inr (ctx, p2)
          else body_stage (processBuffer n json lims) json lims finalPass ctx p2)))"

text \<open>
  \<open>parse\<close>: every chunk is counted against the payload limit (\<open>enforcePayloadLimit\<close>),
  pushed and processed, then the final pass runs. The fuel of each call is one more than
  the bytes that are queued.
\<close>

definition fuel_for :: "'j batch_parser \<Rightarrow> nat" where
  "fuel_for p = Suc (length (queue_bytes (buffer p)))"

fun parse_chunks ::
  "(string \<Rightarrow> 'j option) \<Rightarrow> limits \<Rightarrow> bytes list \<Rightarrow> nat \<Rightarrow> parser_context \<Rightarrow> 'j batch_parser \<Rightarrow>
   (parser_context \<times> 'j batch_parser) result" where
  "parse_chunks json lims [] n ctx p = processBuffer (fuel_for p) json lims True ctx p"
| "parse_chunks json lims (b # bs) n ctx p =
     rbind (checkTotalBytes lims (n + length b)) (\<lambda>_.
       let p1 = p\<lparr>buffer := bq_push b (buffer p)\<rparr>
       in rbind (processBuffer (fuel_for p1) json lims False ctx p1) (\<lambda>(ctx', p2).
            parse_chunks json lims bs (n + length b) ctx' p2))"

definition parseMultipartBatch ::
  "(string \<Rightarrow> 'j option) \<Rightarrow> limits \<Rightarrow> string \<Rightarrow> bytes list \<Rightarrow> 'j batch_request list result" where
  "parseMultipartBatch json lims b chunks =
     rbind (parse_chunks json lims chunks 0 context_init (new_parser b 0 None)) (\<lambda>(ctx, p).
       if \<not> ended p then bad_request ''Malformed batch payload: missing closing boundary.''
       else Inr (requests p))"

section \<open>The stages on the byte sequence\<close>

text \<open>The unread bytes of a parser, and the invariant of its queue.\<close>

abbreviation unread :: "'j batch_parser \<Rightarrow> bytes" where
  "unread p \<equiv> queue_bytes (buffer p)"

abbreviation parser_ok :: "'j batch_parser \<Rightarrow> bool" where
  "parser_ok p \<equiv> queue_inv (buffer p)"

lemma bad_request_ensures [simp]: "ensures (bad_request msg) Q"
  by (simp add: bad_request_def)

lemma bad_request_ok [simp]: "bad_request msg \<noteq> Inr x" "Inr x \<noteq> bad_request msg"
  by (simp_all add: bad_request_def)

lemma markers_not_Nil [simp]:
  "boundaryPrefix b \<noteq> []" "boundaryMarker b \<noteq> []" "closingMarker b \<noteq> []" "crlf2 \<noteq> []" "lf2 \<noteq> []"
  by (simp_all add: boundaryPrefix_def boundaryMarker_def closingMarker_def crlf_def crlf2_def lf2_def)

lemma next_two_view:
  assumes "queue_inv q"
  shows "\<exists>q'. next_two c d q = Inr (take 2 (queue_bytes q) = [c, d], q') \<and> queue_inv q'
           \<and> queue_bytes q' = queue_bytes q"
proof (cases "totalLength q \<ge> 2")
  case True
  with assms have len: "2 \<le> length (queue_bytes q)" by (simp add: queue_inv_total)
  then obtain x y zs where v: "queue_bytes q = x # y # zs"
    by (metis Suc_le_length_iff numeral_2_eq_2)
  obtain q1 where q1: "bq_byteAt 0 q = Inr (x, q1)" "queue_inv q1" "queue_bytes q1 = queue_bytes q"
    using bq.byteAt_law [OF assms, of 0] v by auto
  obtain q2 where q2: "bq_byteAt 1 q1 = Inr (y, q2)" "queue_inv q2" "queue_bytes q2 = queue_bytes q"
    using bq.byteAt_law [OF q1(2), of 1] v q1(3) by auto
  show ?thesis
    using True v q1 q2 by (cases "x = c") (auto simp: next_two_def)
next
  case False
  with assms have "length (queue_bytes q) < 2" by (simp add: queue_inv_total)
  then have "take 2 (queue_bytes q) \<noteq> [c, d]" by (metis length_Cons length_take less_irrefl
        list.size(3) min.strict_order_iff numeral_2_eq_2)
  with False assms show ?thesis by (simp add: next_two_def)
qed

lemma skip_crlf_view:
  assumes "queue_inv q"
  shows "\<exists>q'. skip_crlf q = Inr q' \<and> queue_inv q'
    \<and> queue_bytes q' = (if take 2 (queue_bytes q) = crlf then drop 2 (queue_bytes q) else queue_bytes q)"
proof -
  obtain q1 where q1: "next_two (CHR 13) (CHR 10) q = Inr (take 2 (queue_bytes q) = crlf, q1)"
    "queue_inv q1" "queue_bytes q1 = queue_bytes q"
    using next_two_view [OF assms] unfolding crlf_def by blast
  show ?thesis
  proof (cases "take 2 (queue_bytes q) = crlf")
    case True
    then have "length (take 2 (queue_bytes q)) = 2" by (simp add: crlf_def)
    then have "nat 2 \<le> length (queue_bytes q1)" using q1(3) by simp
    with True q1 bq.consume_law [OF q1(2), of 2] show ?thesis by (auto simp: skip_crlf_def)
  next
    case False
    with q1 show ?thesis by (simp add: skip_crlf_def)
  qed
qed

lemma tooShortFirst_view:
  "queue_inv q \<Longrightarrow> ensures (tooShortFirst fin q pre)
     (\<lambda>(k, q'). k = None \<and> \<not> fin \<and> queue_inv q' \<and> queue_bytes q' = queue_bytes q)"
  using bq.byteAt_law [of q 0]
  by (auto simp: tooShortFirst_def queue_inv_total intro!: result_intro)

text \<open>
  The first boundary: either the function waits for data, or it consumes a prefix that
  holds the boundary, or it rejects the payload.
\<close>

lemma consumeFirst_view:
  assumes "queue_inv q"
  shows "ensures (consumeAnchoredFirstBoundary fin b q) (\<lambda>(k, q'). queue_inv q' \<and>
    (case k of None \<Rightarrow> \<not> fin \<and> queue_bytes q' = queue_bytes q
     | Some n \<Rightarrow> 0 < n \<and> n \<le> length (queue_bytes q) \<and> queue_bytes q' = drop n (queue_bytes q)))"
proof -
  let ?pre = "boundaryPrefix b" and ?s = "queue_bytes q"
  have len: "0 < length ?pre" by simp
  have short: "ensures (tooShortFirst fin q' ?pre) (\<lambda>(k, q'). queue_inv q' \<and>
      (case k of None \<Rightarrow> \<not> fin \<and> queue_bytes q' = ?s
       | Some n \<Rightarrow> 0 < n \<and> n \<le> length ?s \<and> queue_bytes q' = drop n ?s))"
    if "queue_inv q'" "queue_bytes q' = ?s" for q'
    using tooShortFirst_view [OF that(1), of fin ?pre] that(2) by (auto elim!: ensures_mono)
  have test: "ensures (if totalLength q \<ge> length ?pre then bq_startsWith ?pre 0 q else Inr (False, q))
     (\<lambda>(yes, q1). queue_inv q1 \<and> queue_bytes q1 = ?s \<and> (yes \<longrightarrow> length ?pre \<le> length ?s))"
    using bq.startsWith_law [OF assms, of 0 ?pre] assms by (auto simp: queue_inv_total)
  have take1: "ensures (bq_consume (int n) q1) (\<lambda>q'. queue_inv q' \<and> queue_bytes q' = drop n ?s)"
    if "queue_inv q1" "queue_bytes q1 = ?s" "n \<le> length ?s" for n q1
    using bq.read_and_drop(2) [of q1 n] that by auto
  have crlf_test: "ensures (next_two (CHR 13) (CHR 10) q1) (\<lambda>(y, q2). queue_inv q2 \<and> queue_bytes q2 = ?s)"
    if "queue_inv q1" "queue_bytes q1 = ?s" for q1
    using next_two_view [OF that(1), of "CHR 13" "CHR 10"] that by auto
  have second: "ensures (bq_startsWith ?pre 2 q1)
      (\<lambda>(y, q2). queue_inv q2 \<and> queue_bytes q2 = ?s)"
    if "queue_inv q1" "queue_bytes q1 = ?s" for q1
    using bq.startsWith_law [OF that(1), of 2 ?pre] that by auto
  show ?thesis
    unfolding consumeAnchoredFirstBoundary_def Let_def
    apply (rule ensures_rbind [OF test])
    apply (clarsimp split del: if_split)
    apply (rule ensures_if)
     apply (rule ensures_rbind [OF take1], assumption, assumption, simp)
     apply (use len in simp)
    apply (rule ensures_if)
     apply (rule ensures_if, simp, rule short, assumption+)
    apply (rule ensures_rbind [OF crlf_test], assumption, assumption)
    apply (clarsimp split del: if_split)
    apply (rule ensures_if)
     apply (rule short, assumption+)
    apply (rule ensures_if)
     apply (rule ensures_if, simp, rule short, assumption+)
    apply (rule ensures_rbind [OF second], assumption, assumption)
    apply (clarsimp split del: if_split)
    apply (rule ensures_if)
     apply (rule ensures_rbind [OF take1], assumption, assumption)
      apply (simp add: queue_inv_total)
     apply (simp add: queue_inv_total)
    apply (rule short, assumption+)
    done
qed

lemma next_two_ensures:
  "queue_inv q \<Longrightarrow> ensures (next_two c d q)
     (\<lambda>(y, q'). y = (take 2 (queue_bytes q) = [c, d]) \<and> queue_inv q' \<and> queue_bytes q' = queue_bytes q)"
  using next_two_view [of q c d] by auto

lemma skip_crlf_ensures:
  "queue_inv q \<Longrightarrow> ensures (skip_crlf q) (\<lambda>q'. queue_inv q' \<and> queue_bytes q' =
     (if take 2 (queue_bytes q) = crlf then drop 2 (queue_bytes q) else queue_bytes q))"
  using skip_crlf_view [of q] by auto

lemma consume_ensures:
  "queue_inv q \<Longrightarrow> n \<le> length (queue_bytes q) \<Longrightarrow>
   ensures (bq_consume (int n) q) (\<lambda>q'. queue_inv q' \<and> queue_bytes q' = drop n (queue_bytes q))"
  using bq.read_and_drop(2) [of q n] by auto

lemma take2_length: "take 2 xs = [c, d] \<Longrightarrow> 2 \<le> length xs"
  by (metis length_Cons length_take list.size(3) min.cobounded1 numeral_2_eq_2)

text \<open>
  The fields a stage never touches, gathered in one relation: its boundary, its depth,
  its changeset, the requests found and the position in the changeset.
\<close>

definition same_frame :: "'j batch_parser \<Rightarrow> 'j batch_parser \<Rightarrow> bool" where
  "same_frame p p' \<longleftrightarrow> boundary p' = boundary p \<and> depth p' = depth p \<and> changesetId p' = changesetId p
     \<and> requests p' = requests p \<and> changesetOperationIndex p' = changesetOperationIndex p"

lemma first_stage_view:
  assumes "parser_ok p"
  shows "ensures (first_stage fin p) (\<lambda>(go, p'). parser_ok p' \<and> same_frame p p'
    \<and> length (unread p') \<le> length (unread p))"
proof (cases "firstBoundarySeen p")
  case True
  with assms show ?thesis by (simp add: first_stage_def same_frame_def)
next
  case False
  let ?s = "unread p"
  have two: "ensures (bq_consume 2 q1) (\<lambda>q'. queue_inv q' \<and> length (queue_bytes q') \<le> length ?s)"
    if "queue_inv q1" "length (queue_bytes q1) \<le> length ?s" "2 \<le> length (queue_bytes q1)" for q1
    using consume_ensures [OF that(1), of 2] that by (auto elim!: ensures_mono)
  have skip: "ensures (skip_crlf q1) (\<lambda>q'. queue_inv q' \<and> length (queue_bytes q') \<le> length ?s)"
    if "queue_inv q1" "length (queue_bytes q1) \<le> length ?s" for q1
    using skip_crlf_ensures [OF that(1)] that(2) by (auto elim!: ensures_mono split: if_splits)
  let ?Q = "\<lambda>(go :: bool, p'). parser_ok p' \<and> same_frame p p' \<and> length (unread p') \<le> length ?s"
  have tail: "ensures (rbind (next_two (CHR 45) (CHR 45) q) (\<lambda>(closing, q1).
      if closing
      then rbind (bq_consume 2 q1) (\<lambda>q2.
             Inr (False, p\<lparr>buffer := q2, firstBoundarySeen := True, ended := True\<rparr>))
      else rbind (skip_crlf q1) (\<lambda>q2.
             Inr (True, p\<lparr>buffer := q2, firstBoundarySeen := True, pstate := Headers\<rparr>)))) ?Q"
    if "queue_inv q" "length (queue_bytes q) \<le> length ?s" for q
    using that
    apply -
    apply (rule ensures_rbind [OF next_two_ensures], assumption)
    apply (clarsimp split del: if_split)
    apply (rule ensures_if)
     apply (rule ensures_rbind [OF two], assumption, simp)
      apply (drule take2_length, simp)
     apply (simp add: same_frame_def)
    apply (rule ensures_rbind [OF skip], assumption, simp)
    apply (simp add: same_frame_def)
    done
  show ?thesis
  proof (cases "consumeAnchoredFirstBoundary fin (boundary p) (buffer p)")
    case (Inl e)
    with False consumeFirst_view [OF assms, of fin "boundary p"] show ?thesis
      by (simp add: first_stage_def)
  next
    case (Inr r)
    obtain k q where r: "r = (k, q)" by (cases r)
    show ?thesis
    proof (cases k)
      case None
      with False Inr r consumeFirst_view [OF assms, of fin "boundary p"] show ?thesis
        by (simp add: first_stage_def same_frame_def)
    next
      case (Some n)
      then have "queue_inv q" "length (queue_bytes q) \<le> length ?s" "0 < n"
        using Inr r consumeFirst_view [OF assms, of fin "boundary p"] by auto
      with tail False Inr r Some show ?thesis by (simp add: first_stage_def)
    qed
  qed
qed

lemma findHeaderSeparatorInQueue_view:
  assumes "queue_inv q"
  shows "\<exists>q'. findHeaderSeparatorInQueue q =
      Inr (case index_of crlf2 (queue_bytes q) of
             None \<Rightarrow> (case index_of lf2 (queue_bytes q) of None \<Rightarrow> None | Some j \<Rightarrow> Some (j, 2))
           | Some i \<Rightarrow> (case index_of lf2 (queue_bytes q) of None \<Rightarrow> Some (i, 4)
               | Some j \<Rightarrow> if i \<le> j then Some (i, 4) else Some (j, 2)), q')
    \<and> queue_inv q' \<and> queue_bytes q' = queue_bytes q"
proof -
  obtain q1 where q1: "bq_indexOf crlf2 0 q = Inr (shifted 0 (index_of crlf2 (queue_bytes q)), q1)"
    "queue_inv q1" "queue_bytes q1 = queue_bytes q"
    using bq.indexOf_start [OF assms, of crlf2] by auto
  obtain q2 where q2: "bq_indexOf lf2 0 q1 = Inr (shifted 0 (index_of lf2 (queue_bytes q)), q2)"
    "queue_inv q2" "queue_bytes q2 = queue_bytes q"
    using bq.indexOf_start [OF q1(2), of lf2] q1(3) by auto
  show ?thesis
    using q1(1) q2 unfolding findHeaderSeparatorInQueue_def by (auto split: option.splits)
qed

lemma header_stage_view:
  assumes "parser_ok p"
  shows "ensures (header_stage fin p) (\<lambda>(go, p'). parser_ok p' \<and> same_frame p p'
    \<and> length (unread p') \<le> length (unread p))"
proof (cases "pstate p = Headers")
  case True
  let ?s = "unread p"
  obtain info q' where q': "findHeaderSeparatorInQueue (buffer p) = Inr (info, q')"
    "queue_inv q'" "queue_bytes q' = ?s"
    and info: "info = (case index_of crlf2 ?s of
             None \<Rightarrow> (case index_of lf2 ?s of None \<Rightarrow> None | Some j \<Rightarrow> Some (j, 2))
           | Some i \<Rightarrow> (case index_of lf2 ?s of None \<Rightarrow> Some (i, 4)
               | Some j \<Rightarrow> if i \<le> j then Some (i, 4) else Some (j, 2)))"
    using findHeaderSeparatorInQueue_view [OF assms] by blast
  have bound: "i + l \<le> length ?s" if "info = Some (i, l)" for i l
    using that index_of_Some [of crlf2 ?s] index_of_Some [of lf2 ?s]
    by (auto simp: info crlf2_def lf2_def split: option.splits if_splits)
  show ?thesis
  proof (cases info)
    case None
    with True q' show ?thesis by (simp add: header_stage_def same_frame_def)
  next
    case (Some il)
    obtain i l where il: "il = (i, l)" by (cases il)
    with Some bound have b: "i + l \<le> length ?s" by blast
    then have "bq_slice 0 (int i) q' = Inr (take i ?s)"
      using bq.read_and_drop(1) [OF q'(2), of i] q'(3) by simp
    moreover have "ensures (bq_consume (int (i + l)) q') (\<lambda>q2. queue_inv q2 \<and> queue_bytes q2 = drop (i + l) ?s)"
      using consume_ensures [OF q'(2), of "i + l"] q'(3) b by simp
    ultimately show ?thesis
      using True q'(1) Some il
      by (auto simp: header_stage_def same_frame_def intro!: ensures_rbind [where P = "\<lambda>q2. queue_inv q2 \<and> queue_bytes q2 = drop (i + l) ?s"])
  qed
next
  case False
  with assms show ?thesis by (simp add: header_stage_def same_frame_def)
qed

lemma findNextBoundary_view:
  assumes "queue_inv q"
  shows "\<exists>q'. findNextBoundary b q =
      Inr (case index_of (closingMarker b) (queue_bytes q) of
             None \<Rightarrow> (case index_of (boundaryMarker b) (queue_bytes q) of
                None \<Rightarrow> None | Some j \<Rightarrow> Some (j, False))
           | Some i \<Rightarrow> (case index_of (boundaryMarker b) (queue_bytes q) of
                None \<Rightarrow> Some (i, True)
              | Some j \<Rightarrow> if i \<le> j then Some (i, True) else Some (j, False)), q')
    \<and> queue_inv q' \<and> queue_bytes q' = queue_bytes q"
proof -
  obtain q1 where q1: "bq_indexOf (closingMarker b) 0 q =
      Inr (shifted 0 (index_of (closingMarker b) (queue_bytes q)), q1)"
    "queue_inv q1" "queue_bytes q1 = queue_bytes q"
    using bq.indexOf_start [OF assms, of "closingMarker b"] by auto
  obtain q2 where q2: "bq_indexOf (boundaryMarker b) 0 q1 =
      Inr (shifted 0 (index_of (boundaryMarker b) (queue_bytes q)), q2)"
    "queue_inv q2" "queue_bytes q2 = queue_bytes q"
    using bq.indexOf_start [OF q1(2), of "boundaryMarker b"] q1(3) by auto
  show ?thesis
    using q1(1) q2 unfolding findNextBoundary_def by (auto split: option.splits)
qed

definition marker_length :: "bool \<Rightarrow> string \<Rightarrow> nat" where
  "marker_length closing b = (if closing then length (closingMarker b) else length (boundaryMarker b))"

lemma marker_length_pos: "4 \<le> marker_length closing b"
  by (simp add: marker_length_def closingMarker_def boundaryMarker_def crlf_def)

lemma findNextBoundary_bound:
  assumes "queue_inv q" "findNextBoundary b q = Inr (Some (i, closing), q')"
  shows "i + marker_length closing b \<le> length (queue_bytes q) \<and> queue_inv q' \<and> queue_bytes q' = queue_bytes q"
  using findNextBoundary_view [OF assms(1), of b] assms(2)
    index_of_Some [of "closingMarker b" "queue_bytes q"] index_of_Some [of "boundaryMarker b" "queue_bytes q"]
  by (auto simp: marker_length_def split: option.splits if_splits)

lemma finish_part_view:
  assumes "parser_ok p" "i + marker_length closing (boundary p) \<le> length (unread p)"
  shows "ensures (finish_part i closing p) (\<lambda>(more, p'). parser_ok p' \<and> same_frame p p'
    \<and> (more \<longrightarrow> \<not> closing) \<and> length (unread p') < length (unread p) \<and> (ended p' \<longleftrightarrow> closing \<or> ended p))"
proof -
  let ?k = "i + marker_length closing (boundary p)"
  have "0 < ?k" "0 < length (unread p)"
    using marker_length_pos [of closing "boundary p"] assms(2) by linarith+
  then have lt: "length (drop ?k (unread p)) < length (unread p)"
    unfolding length_drop by (rule diff_less)
  have c: "ensures (bq_consume (int ?k) (buffer p)) (\<lambda>q. queue_inv q \<and> queue_bytes q = drop ?k (unread p))"
    by (rule consume_ensures [OF assms])
  have skip: "ensures (skip_crlf q) (\<lambda>q1. queue_inv q1 \<and> length (queue_bytes q1) < length (unread p))"
    if "queue_inv q" "queue_bytes q = drop ?k (unread p)" for q
    using skip_crlf_ensures [OF that(1)] that(2) lt by (auto elim!: ensures_mono split: if_splits)
  show ?thesis
    unfolding finish_part_def Let_def marker_length_def [symmetric]
    apply (rule ensures_rbind [OF c])
    apply (rule ensures_rbind [OF skip], simp, simp)
    apply (simp add: same_frame_def)
    done
qed

section \<open>Termination and the operation limit\<close>

text \<open>
  What a run of \<open>processBuffer\<close> establishes: the queue keeps its invariant and does not
  grow, the requests found are counted in the shared context, and the count never passes
  a positive \<open>maxOperations\<close>.
\<close>

definition ops_bound :: "limits \<Rightarrow> parser_context \<Rightarrow> bool" where
  "ops_bound lims ctx \<longleftrightarrow> (case maxOperations lims of None \<Rightarrow> True
     | Some m \<Rightarrow> m > 0 \<longrightarrow> int (totalOperations ctx) \<le> m)"

definition parse_post :: "limits \<Rightarrow> parser_context \<Rightarrow> 'j batch_parser \<Rightarrow>
    parser_context \<Rightarrow> 'j batch_parser \<Rightarrow> bool" where
  "parse_post lims ctx p ctx' p' \<longleftrightarrow>
     parser_ok p' \<and> length (unread p') \<le> length (unread p) \<and> boundary p' = boundary p
     \<and> totalOperations ctx' + length (requests p) = totalOperations ctx + length (requests p')
     \<and> (ops_bound lims ctx \<longrightarrow> ops_bound lims ctx')"

lemma parse_post_refl: "parser_ok p \<Longrightarrow> parse_post lims ctx p ctx p"
  by (simp add: parse_post_def)

lemma parse_post_trans:
  "parse_post lims ctx p ctx1 p1 \<Longrightarrow> parse_post lims ctx1 p1 ctx2 p2 \<Longrightarrow> parse_post lims ctx p ctx2 p2"
  by (auto simp: parse_post_def)

lemma same_frame_post:
  "parser_ok p' \<Longrightarrow> same_frame p p' \<Longrightarrow> length (unread p') \<le> length (unread p) \<Longrightarrow>
   parse_post lims ctx p ctx p'"
  by (simp add: parse_post_def same_frame_def)

lemma parseHttpPayload_ensures [simp]: "ensures (parseHttpPayload json body) (\<lambda>_. True)"
  by (auto simp: parseHttpPayload_def Let_def split: option.splits)

lemma parseHttpPart_ensures:
  "ensures (parseHttpPart json hs body grp ctx) (\<lambda>(ctx', r). totalOperations ctx' = totalOperations ctx)"
  by (auto simp: parseHttpPart_def split: option.splits
      intro!: ensures_rbind [OF parseHttpPayload_ensures])

lemma recordOperation_ensures:
  "ensures (recordOperation lims cs pos ctx) (\<lambda>ctx'. totalOperations ctx' = totalOperations ctx + 1
     \<and> (ops_bound lims ctx \<longrightarrow> ops_bound lims ctx'))"
  by (auto simp: recordOperation_def Let_def exceeds_def ops_bound_def split: option.splits)

lemma limit_ensures [simp]:
  "ensures (ensureDepth lims d) (\<lambda>_. True)" "ensures (ensurePartSize lims n) (\<lambda>_. True)"
  "ensures (checkTotalBytes lims n) (\<lambda>_. True)"
  by (auto simp: ensureDepth_def ensurePartSize_def checkTotalBytes_def split: option.splits)

lemma handlePart_view:
  assumes ok: "parser_ok p"
    and nested: "\<And>b d cs. ensures (nested body ctx (new_parser b d cs))
      (\<lambda>(ctx', rs). totalOperations ctx' = totalOperations ctx + length rs
        \<and> (ops_bound lims ctx \<longrightarrow> ops_bound lims ctx'))"
  shows "ensures (handlePart nested json lims body hs ctx p)
    (\<lambda>(ctx', p'). parse_post lims ctx p ctx' p' \<and> buffer p' = buffer p \<and> ended p' = ended p)"
proof (cases hs)
  case None
  then show ?thesis by (simp add: handlePart_def)
next
  case (Some h)
  let ?Q = "\<lambda>(ctx', p'). parse_post lims ctx p ctx' p' \<and> buffer p' = buffer p \<and> ended p' = ended p"
  have mixed: "ensures (rbind (ensureDepth lims (depth p + 1)) (\<lambda>_.
       let groupId = (case map_of h ''content-id'' of Some v \<Rightarrow> v | None \<Rightarrow> the nb)
       in rbind (nested body ctx (new_parser (the nb) (depth p + 1) (Some groupId)))
          (\<lambda>(ctx', rs). if rs = [] then bad_request ''Changeset part must contain at least one request.''
             else Inr (ctx', p\<lparr>requests := requests p @ rs\<rparr>)))) ?Q" for nb
    unfolding Let_def using ok
    by (intro ensures_rbind [OF limit_ensures(1)] ensures_rbind [OF nested])
       (auto simp: parse_post_def)
  have http: "ensures (rbind (parseHttpPart json h body (changesetId p) ctx) (\<lambda>(ctx1, request).
       let (position, p1) = nextChangesetOperation p
       in rbind (recordOperation lims (changesetId p1) position ctx1) (\<lambda>ctx2.
            Inr (ctx2, p1\<lparr>requests := requests p1 @ [request]\<rparr>)))) ?Q"
  proof (rule ensures_rbind [OF parseHttpPart_ensures], clarsimp)
    fix ctx1 :: parser_context and r
    assume c1: "totalOperations ctx1 = totalOperations ctx"
    then have "ops_bound lims ctx1 = ops_bound lims ctx" by (simp add: ops_bound_def split: option.splits)
    with c1 ok show "ensures (case nextChangesetOperation p of (position, p1) \<Rightarrow>
       rbind (recordOperation lims (changesetId p1) position ctx1) (\<lambda>ctx2.
            Inr (ctx2, p1\<lparr>requests := requests p1 @ [r]\<rparr>))) ?Q"
      by (auto simp: nextChangesetOperation_def Let_def parse_post_def
          intro!: ensures_rbind [OF recordOperation_ensures])
  qed
  show ?thesis
    using Some mixed http by (simp add: handlePart_def Let_def)
qed

lemma enforceStreamingPartLimit_ensures:
  "parser_ok p \<Longrightarrow> ensures (enforceStreamingPartLimit lims p)
     (\<lambda>p'. parser_ok p' \<and> same_frame p p' \<and> unread p' = unread p \<and> ended p' = ended p)"
  by (auto simp: enforceStreamingPartLimit_def Let_def same_frame_def split: option.splits
      intro!: ensures_rbind [OF limit_ensures(2)])

lemma new_parser_view [simp]:
  "parser_ok (new_parser b d cs)" "unread (new_parser b d cs) = []"
  "requests (new_parser b d cs) = []" "ended (new_parser b d cs) = False"
  by (simp_all add: new_parser_def queue_inv_empty queue_bytes_empty)

lemma parser_push:
  "parser_ok p \<Longrightarrow> parser_ok (p\<lparr>buffer := bq_push b (buffer p)\<rparr>)
     \<and> unread (p\<lparr>buffer := bq_push b (buffer p)\<rparr>) = unread p @ b"
  using bq.push_law [of "buffer p" b] by simp

lemma parse_nested_view:
  fixes process :: "bool \<Rightarrow> parser_context \<Rightarrow> 'j batch_parser \<Rightarrow> (parser_context \<times> 'j batch_parser) result"
  assumes "\<And>p. parser_ok p \<Longrightarrow> length (unread p) < n \<Longrightarrow>
      ensures (process True ctx p) (\<lambda>(ctx', p'). parse_post lims ctx p ctx' p')"
    and "length body < n"
  shows "ensures (parse_nested process body ctx (new_parser b d cs))
    (\<lambda>(ctx', rs). totalOperations ctx' = totalOperations ctx + length rs
      \<and> (ops_bound lims ctx \<longrightarrow> ops_bound lims ctx'))"
proof -
  let ?np = "(new_parser b d cs) :: 'j batch_parser"
  let ?p = "?np\<lparr>buffer := bq_push body (buffer ?np)\<rparr>"
  have ok: "parser_ok ?p" "unread ?p = body"
    using parser_push [of ?np body] by simp_all
  have req: "requests ?p = []" by (simp add: new_parser_def)
  have "ensures (process True ctx ?p) (\<lambda>(ctx', p'). parse_post lims ctx ?p ctx' p')"
    using assms(1) [OF ok(1)] assms(2) ok(2) by simp
  then show ?thesis
    unfolding parse_nested_def using req
    by (auto intro!: ensures_rbind [where P = "\<lambda>(ctx', p'). parse_post lims ctx ?p ctx' p'"]
        simp: parse_post_def)
qed

definition run_ok :: "nat \<Rightarrow> limits \<Rightarrow>
    (bool \<Rightarrow> parser_context \<Rightarrow> 'j batch_parser \<Rightarrow> (parser_context \<times> 'j batch_parser) result) \<Rightarrow> bool" where
  "run_ok n lims run \<longleftrightarrow> (\<forall>fin ctx p. parser_ok p \<longrightarrow> length (unread p) < n \<longrightarrow>
     ensures (run fin ctx p) (\<lambda>(ctx', p'). parse_post lims ctx p ctx' p'))"

lemma run_okD:
  "run_ok n lims run \<Longrightarrow> parser_ok p \<Longrightarrow> length (unread p) < n \<Longrightarrow>
   ensures (run fin ctx p) (\<lambda>(ctx', p'). parse_post lims ctx p ctx' p')"
  by (simp add: run_ok_def)

lemma part_stage_view:
  assumes run: "run_ok n lims run" and ok: "parser_ok p" "length (unread p) \<le> n"
    and bnd: "i + marker_length closing (boundary p) \<le> length (unread p)" "length body \<le> i"
  shows "ensures (rbind (handlePart (parse_nested run) json lims body hs ctx p) (\<lambda>(ctx', p2).
       rbind (finish_part i closing p2) (\<lambda>(more, p3).
         if more then run fin ctx' p3 else Inr (ctx', p3))))
     (\<lambda>(ctx', p'). parse_post lims ctx p ctx' p')"
proof -
  have "length body < n"
    using bnd ok(2) marker_length_pos [of closing "boundary p"] by linarith
  then have nested: "ensures (parse_nested run body ctx (new_parser b d cs))
      (\<lambda>(ctx', rs). totalOperations ctx' = totalOperations ctx + length rs
        \<and> (ops_bound lims ctx \<longrightarrow> ops_bound lims ctx'))" for b d cs
    by (intro parse_nested_view [where n = n] run_okD [OF run])
  have step: "ensures (rbind (finish_part i closing p2) (\<lambda>(more, p3).
        if more then run fin ctx' p3 else Inr (ctx', p3))) (\<lambda>(ctx', p'). parse_post lims ctx p ctx' p')"
    if post: "parse_post lims ctx p ctx' p2" and buf: "buffer p2 = buffer p" for ctx' p2
  proof -
    have "i + marker_length closing (boundary p2) \<le> length (unread p2)" "parser_ok p2"
      using post bnd(1) buf by (simp_all add: parse_post_def)
    then have "ensures (finish_part i closing p2) (\<lambda>(more, p3). parse_post lims ctx p ctx' p3
        \<and> length (unread p3) < n)"
      using buf ok(2)
      by (intro ensures_mono [OF finish_part_view]) (auto intro: parse_post_trans [OF post same_frame_post])
    moreover have "ensures (if more then run fin ctx' p3 else Inr (ctx', p3))
        (\<lambda>(ctx', p'). parse_post lims ctx p ctx' p')"
      if p3: "parse_post lims ctx p ctx' p3" "length (unread p3) < n" for more p3
    proof -
      have "parser_ok p3" using p3(1) by (simp add: parse_post_def)
      from run_okD [OF run this p3(2), of fin ctx'] p3(1) show ?thesis
        by (auto elim!: ensures_mono intro: parse_post_trans)
    qed
    ultimately show ?thesis
      by (auto intro!: ensures_rbind)
  qed
  show ?thesis
    by (rule ensures_rbind [OF handlePart_view [where nested = "parse_nested run", OF ok(1) nested]])
       (auto intro: step)
qed

lemma body_stage_view:
  assumes run: "run_ok n lims run" and ok: "parser_ok p" "length (unread p) \<le> n"
  shows "ensures (body_stage run json lims fin ctx p) (\<lambda>(ctx', p'). parse_post lims ctx p ctx' p')"
proof -
  obtain found q where f: "findNextBoundary (boundary p) (buffer p) = Inr (found, q)"
    and q: "queue_inv q" "queue_bytes q = unread p"
    using findNextBoundary_view [OF ok(1)] by blast
  let ?p = "p\<lparr>buffer := q\<rparr>"
  have p1: "parser_ok ?p" "length (unread ?p) \<le> n" "parse_post lims ctx p ctx ?p"
    using ok q by (simp_all add: parse_post_def)
  show ?thesis
  proof (cases found)
    case None
    have "ensures (enforceStreamingPartLimit lims ?p) (\<lambda>p'. parse_post lims ctx p ctx p')"
      using enforceStreamingPartLimit_ensures [OF p1(1), of lims]
      by (elim ensures_mono) (auto intro!: parse_post_trans [OF p1(3) same_frame_post])
    with None f show ?thesis
      by (auto simp: body_stage_def Let_def intro!: ensures_rbind)
  next
    case (Some ic)
    obtain i closing where ic: "ic = (i, closing)" by (cases ic)
    have bnd: "i + marker_length closing (boundary ?p) \<le> length (unread ?p)"
      using findNextBoundary_bound [OF ok(1)] f Some ic q by simp
    then have slice: "bq_slice 0 (int i) q = Inr (take i (unread p))"
      using bq.read_and_drop(1) [OF q(1), of i] q(2) by simp
    have "ensures (rbind (handlePart (parse_nested run) json lims (take i (unread p)) (currentHeaders ?p) ctx ?p)
         (\<lambda>(ctx', p2). rbind (finish_part i closing p2) (\<lambda>(more, p3).
            if more then run fin ctx' p3 else Inr (ctx', p3))))
         (\<lambda>(ctx', p'). parse_post lims ctx p ctx' p')"
      by (rule ensures_mono [OF part_stage_view [OF run p1(1,2) bnd]])
         (auto intro: parse_post_trans [OF p1(3)])
    with f Some ic slice show ?thesis
      by (auto simp: body_stage_def Let_def intro!: ensures_rbind [OF limit_ensures(2)])
  qed
qed

lemma processBuffer_run_ok: "run_ok n lims (processBuffer n json lims)"
proof (induction n)
  case 0
  then show ?case by (simp add: run_ok_def)
next
  case (Suc n)
  have "ensures (processBuffer (Suc n) json lims fin ctx p) (\<lambda>(ctx', p'). parse_post lims ctx p ctx' p')"
    if ok: "parser_ok p" "length (unread p) < Suc n" for fin ctx p
  proof (cases "ended p")
    case True
    with ok show ?thesis by (simp add: parse_post_refl)
  next
    case False
    have first: "ensures (first_stage fin p) (\<lambda>(go, p'). parse_post lims ctx p ctx p')"
      by (rule ensures_mono [OF first_stage_view [OF ok(1)]]) (auto intro: same_frame_post)
    have hdr: "ensures (header_stage fin p1) (\<lambda>(go, p'). parse_post lims ctx p ctx p')"
      if "parse_post lims ctx p ctx p1" for p1
    proof -
      have "parser_ok p1" using that by (simp add: parse_post_def)
      then show ?thesis
        by (rule ensures_mono [OF header_stage_view]) (auto intro: parse_post_trans [OF that same_frame_post])
    qed
    have bdy: "ensures (body_stage (processBuffer n json lims) json lims fin ctx p2)
        (\<lambda>(ctx', p'). parse_post lims ctx p ctx' p')"
      if "parse_post lims ctx p ctx p2" for p2
    proof -
      have "parser_ok p2" "length (unread p2) \<le> n" using that ok(2) by (simp_all add: parse_post_def)
      then show ?thesis
        by (rule ensures_mono [OF body_stage_view [OF Suc.IH]]) (auto intro: parse_post_trans [OF that])
    qed
    show ?thesis
      using False by (auto intro!: ensures_rbind [OF first] ensures_rbind [OF hdr] bdy)
  qed
  then show ?case by (simp add: run_ok_def)
qed

lemma parse_chunks_view:
  "parser_ok p \<Longrightarrow>
   ensures (parse_chunks json lims chunks n ctx p) (\<lambda>(ctx', p').
     totalOperations ctx' + length (requests p) = totalOperations ctx + length (requests p')
     \<and> (ops_bound lims ctx \<longrightarrow> ops_bound lims ctx'))"
proof (induction chunks arbitrary: n ctx p)
  case Nil
  then have "ensures (processBuffer (fuel_for p) json lims True ctx p) (\<lambda>(ctx', p'). parse_post lims ctx p ctx' p')"
    by (rule run_okD [OF processBuffer_run_ok]) (simp add: fuel_for_def)
  then show ?case
    unfolding parse_chunks.simps by (rule ensures_mono) (auto simp: parse_post_def)
next
  case (Cons b bs)
  let ?p = "p\<lparr>buffer := bq_push b (buffer p)\<rparr>"
  have ok: "parser_ok ?p" using parser_push [OF Cons.prems] by blast
  have "ensures (processBuffer (fuel_for ?p) json lims False ctx ?p) (\<lambda>(ctx', p'). parse_post lims ctx ?p ctx' p')"
    by (rule run_okD [OF processBuffer_run_ok ok]) (simp add: fuel_for_def)
  then show ?case
    by (auto simp: Let_def intro!: ensures_rbind [OF limit_ensures(3)]
        intro!: ensures_rbind [where P = "\<lambda>(ctx', p'). parse_post lims ctx ?p ctx' p'"]
        ensures_mono [OF Cons.IH]) (auto simp: parse_post_def)
qed

lemma parseMultipartBatch_ensures:
  "ensures (parseMultipartBatch json lims b chunks)
     (\<lambda>rs. \<forall>m. maxOperations lims = Some m \<longrightarrow> m > 0 \<longrightarrow> int (length rs) \<le> m)"
  unfolding parseMultipartBatch_def
  by (rule ensures_rbind [OF parse_chunks_view])
     (auto simp: context_init_def ops_bound_def bad_request_def)

end
