(* ===== verification/JsValues.thy ===== *)
theory JsValues
  imports JsStrings
begin

text \<open>
  The values the query component handles: what a literal of a filter, a property of an
  entity or a query option can be. A number is an exact rational, \<open>NaN\<close> or an infinity: a
  literal with at most fifteen significant digits, the only ones the filter parser turns
  into numbers, determines its double, and rounding of longer ones is not modelled (overflow
  to infinity is). A date is its time value, \<open>None\<close> for \<open>Invalid Date\<close>. The section on
  numbers models \<open>Number(s)\<close>; the one on dates models \<open>Date.UTC\<close> and the \<open>getUTC\<close> readers
  as the language defines them.
\<close>

section \<open>Numbers\<close>

datatype js_number = NotANumber | PosInfinity | NegInfinity | Finite rat

fun is_finite :: "js_number \<Rightarrow> bool" where
  "is_finite (Finite x) = True"
| "is_finite _ = False"

fun finite_value :: "js_number \<Rightarrow> rat option" where
  "finite_value (Finite x) = Some x"
| "finite_value _ = None"

definition is_integer :: "rat \<Rightarrow> bool" where
  "is_integer x \<longleftrightarrow> of_int \<lfloor>x\<rfloor> = x"

definition is_safe_integer :: "rat \<Rightarrow> bool" where
  "is_safe_integer x \<longleftrightarrow> is_integer x \<and> \<bar>x\<bar> \<le> 9007199254740991"

definition max_double :: rat where
  "max_double = 2 ^ 1024 - 2 ^ 970"

text \<open>A decimal beyond the largest double reads as an infinity.\<close>

definition to_number :: "rat \<Rightarrow> js_number" where
  "to_number x = (if \<bar>x\<bar> < max_double then Finite x else if 0 < x then PosInfinity else NegInfinity)"

definition pow10 :: "int \<Rightarrow> rat" where
  "pow10 e = (if 0 \<le> e then 10 ^ nat e else 1 / 10 ^ nat (- e))"

definition span_digits :: "string \<Rightarrow> string \<times> string" where
  "span_digits s = (takeWhile is_digit s, dropWhile is_digit s)"

fun strip_minus :: "string \<Rightarrow> bool \<times> string" where
  "strip_minus [] = (False, [])"
| "strip_minus (c # cs) = (if c = CHR ''-'' then (True, cs) else (False, c # cs))"

fun strip_sign :: "string \<Rightarrow> bool \<times> string" where
  "strip_sign [] = (False, [])"
| "strip_sign (c # cs) =
     (if c = CHR ''-'' then (True, cs) else if c = CHR ''+'' then (False, cs) else (False, c # cs))"

text \<open>\<open>(?:[eE][+-]?\d+)?$\<close>: the exponent of the rest of a decimal, \<open>0\<close> when there is none.\<close>

fun read_exponent :: "string \<Rightarrow> int option" where
  "read_exponent [] = Some 0"
| "read_exponent (c # cs) =
     (if c = CHR ''e'' \<or> c = CHR ''E''
      then (let (neg, ds) = strip_sign cs
            in if ds \<noteq> [] \<and> list_all is_digit ds
               then Some ((if neg then -1 else 1) * int (nat_of_digits 0 ds)) else None)
      else None)"

definition decimal_value :: "bool \<Rightarrow> string \<Rightarrow> string \<Rightarrow> int \<Rightarrow> rat" where
  "decimal_value neg ip fp e =
     (if neg then -1 else 1) * of_nat (nat_of_digits 0 (ip @ fp)) * pow10 (e - int (length fp))"

text \<open>
  \<open>/^-?\d+(?:\.\d+)?(?:[eE][+-]?\d+)?$/\<close>: the sign, the digits before and after the point and
  the exponent of a token the expression matches.
\<close>

definition match_decimal :: "string \<Rightarrow> (bool \<times> string \<times> string \<times> int) option" where
  "match_decimal s =
     (let (neg, r) = strip_minus s; (ip, r1) = span_digits r
      in if ip = [] then None
         else case r1 of
             [] \<Rightarrow> Some (neg, ip, [], 0)
           | c # r2 \<Rightarrow>
               if c = CHR ''.''
               then (let (fp, r3) = span_digits r2
                     in if fp = [] then None
                        else map_option (\<lambda>e. (neg, ip, fp, e)) (read_exponent r3))
               else map_option (\<lambda>e. (neg, ip, [], e)) (read_exponent r1))"

text \<open>\<open>/^-?\d+$/\<close>.\<close>

definition match_int :: "string \<Rightarrow> bool" where
  "match_int s = (let (neg, r) = strip_minus s in r \<noteq> [] \<and> list_all is_digit r)"

definition int_value :: "string \<Rightarrow> int" where
  "int_value s = (let (neg, r) = strip_minus s
     in (if neg then - int (nat_of_digits 0 r) else int (nat_of_digits 0 r)))"

definition digit_of :: "char \<Rightarrow> nat" where
  "digit_of c = (if is_digit c then code c - 48
     else if is_lower c then code c - 87 else if is_upper c then code c - 55 else 99)"

fun radix_value :: "nat \<Rightarrow> nat \<Rightarrow> string \<Rightarrow> nat option" where
  "radix_value b acc [] = Some acc"
| "radix_value b acc (c # cs) = (if digit_of c < b then radix_value b (b * acc + digit_of c) cs else None)"

definition radix_number :: "nat \<Rightarrow> string \<Rightarrow> js_number" where
  "radix_number b ds = (if ds = [] then NotANumber
     else case radix_value b 0 ds of None \<Rightarrow> NotANumber | Some n \<Rightarrow> to_number (of_nat n))"

text \<open>\<open>StrDecimalLiteral\<close>: \<open>Infinity\<close> or a decimal, with an optional sign.\<close>

definition decimal_number :: "string \<Rightarrow> js_number" where
  "decimal_number s =
     (let (neg, r) = strip_sign s
      in if r = ''Infinity'' then (if neg then NegInfinity else PosInfinity)
         else let (ip, r1) = span_digits r;
                  (fp, r2) = (case r1 of c # cs \<Rightarrow> if c = CHR ''.'' then span_digits cs else ([], r1)
                                       | [] \<Rightarrow> ([], []))
              in if ip @ fp = [] then NotANumber
                 else case read_exponent r2 of
                     None \<Rightarrow> NotANumber
                   | Some e \<Rightarrow> to_number (decimal_value neg ip fp e))"

text \<open>\<open>Number(s)\<close> of a string.\<close>

definition js_Number :: "string \<Rightarrow> js_number" where
  "js_Number s =
     (let t = trim s
      in if t = [] then Finite 0
         else if starts_with t ''0x'' \<or> starts_with t ''0X'' then radix_number 16 (drop 2 t)
         else if starts_with t ''0o'' \<or> starts_with t ''0O'' then radix_number 8 (drop 2 t)
         else if starts_with t ''0b'' \<or> starts_with t ''0B'' then radix_number 2 (drop 2 t)
         else decimal_number t)"

text \<open>The decimal digits of an integer, as \<open>String(n)\<close> writes a safe integer.\<close>

definition show_int :: "int \<Rightarrow> string" where
  "show_int n = (if n < 0 then CHR ''-'' # show_nat (nat (- n)) else show_nat (nat n))"

lemma span_digits_split: "fst (span_digits s) @ snd (span_digits s) = s"
  by (simp add: span_digits_def)

lemma digits_dropWhile: "list_all is_digit s \<Longrightarrow> dropWhile is_digit s = []"
  by (induction s) auto

lemma digits_takeWhile: "list_all is_digit s \<Longrightarrow> takeWhile is_digit s = s"
  by (induction s) auto

lemma show_nat_not_Nil [simp]: "show_nat n \<noteq> []"
  by (subst show_nat.simps) simp

lemma show_nat_all_digits [simp]: "list_all is_digit (show_nat n)"
  by (auto simp: list_all_iff dest: show_nat_digits)

lemma not_digit_minus [simp]: "\<not> is_digit (CHR ''-'')" "\<not> is_space (CHR ''-'')"
  by (simp_all add: is_digit_def is_space_def code_def)

lemma strip_minus_digits: "list_all is_digit s \<Longrightarrow> strip_minus s = (False, s)"
  by (cases s) auto

lemma match_int_show_int [simp]: "match_int (show_int n)"
  by (simp add: match_int_def show_int_def strip_minus_digits)

lemma int_value_show_int [simp]: "int_value (show_int n) = n"
  by (simp add: int_value_def show_int_def strip_minus_digits nat_of_show_nat)

lemma show_int_inject: "show_int m = show_int n \<longleftrightarrow> m = n"
  by (metis int_value_show_int)

section \<open>Values\<close>

datatype js_value =
    JUndefined
  | JNull
  | JBool bool
  | JNum js_number
  | JStr string
  | JDate "int option"
  | JArr "js_value list"
  | JObj "(string \<times> js_value) list"

text \<open>\<open>v == null\<close>.\<close>

fun is_nullish :: "js_value \<Rightarrow> bool" where
  "is_nullish JUndefined = True"
| "is_nullish JNull = True"
| "is_nullish _ = False"

text \<open>
  \<open>v[k]\<close> of a value that is not \<open>null\<close> or \<open>undefined\<close>, by the own properties of an object and
  the length and elements of arrays and strings. What the prototypes hold (methods)
  is not modelled.
\<close>

definition array_index :: "string \<Rightarrow> nat option" where
  "array_index k = (if k \<noteq> [] \<and> list_all is_digit k \<and> show_nat (nat_of_digits 0 k) = k
     then Some (nat_of_digits 0 k) else None)"

fun get_prop :: "js_value \<Rightarrow> string \<Rightarrow> js_value" where
  "get_prop (JObj ps) k = (case map_of ps k of Some v \<Rightarrow> v | None \<Rightarrow> JUndefined)"
| "get_prop (JArr vs) k =
     (if k = ''length'' then JNum (Finite (of_nat (length vs)))
      else case array_index k of
          Some i \<Rightarrow> (if i < length vs then vs ! i else JUndefined) | None \<Rightarrow> JUndefined)"
| "get_prop (JStr s) k =
     (if k = ''length'' then JNum (Finite (of_nat (length s)))
      else case array_index k of
          Some i \<Rightarrow> (if i < length s then JStr [s ! i] else JUndefined) | None \<Rightarrow> JUndefined)"
| "get_prop _ k = JUndefined"

text \<open>
  What \<open>String\<close> prints for a number or a date, and how \<open>new Date\<close> reads a string, depends
  on the host (its time zone, its accepted date formats): these are arguments of the model.
\<close>

record js_host =
  number_text :: "rat \<Rightarrow> string"
  date_text :: "int \<Rightarrow> string"
  date_parse :: "string \<Rightarrow> int option"

fun js_String :: "js_host \<Rightarrow> js_value \<Rightarrow> string" where
  "js_String h JUndefined = ''undefined''"
| "js_String h JNull = ''null''"
| "js_String h (JBool b) = (if b then ''true'' else ''false'')"
| "js_String h (JNum NotANumber) = ''NaN''"
| "js_String h (JNum PosInfinity) = ''Infinity''"
| "js_String h (JNum NegInfinity) = ''-Infinity''"
| "js_String h (JNum (Finite x)) = number_text h x"
| "js_String h (JStr s) = s"
| "js_String h (JDate None) = ''Invalid Date''"
| "js_String h (JDate (Some t)) = date_text h t"
| "js_String h (JArr vs) =
     join '','' (map (\<lambda>v. if is_nullish v then [] else js_String h v) vs)"
| "js_String h (JObj ps) = ''[object Object]''"

text \<open>\<open>Number(v)\<close> of any value.\<close>

fun js_to_number :: "js_host \<Rightarrow> js_value \<Rightarrow> js_number" where
  "js_to_number h JUndefined = NotANumber"
| "js_to_number h JNull = Finite 0"
| "js_to_number h (JBool b) = Finite (if b then 1 else 0)"
| "js_to_number h (JNum n) = n"
| "js_to_number h (JStr s) = js_Number s"
| "js_to_number h (JDate None) = NotANumber"
| "js_to_number h (JDate (Some t)) = Finite (of_int t)"
| "js_to_number h (JArr vs) = js_Number (js_String h (JArr vs))"
| "js_to_number h (JObj ps) = NotANumber"

section \<open>Dates\<close>

definition ms_per_day :: int where
  "ms_per_day = 86400000"

definition day_from_year :: "int \<Rightarrow> int" where
  "day_from_year y = 365 * (y - 1970) + (y - 1969) div 4 - (y - 1901) div 100 + (y - 1601) div 400"

definition leap_year :: "int \<Rightarrow> bool" where
  "leap_year y \<longleftrightarrow> y mod 4 = 0 \<and> (y mod 100 \<noteq> 0 \<or> y mod 400 = 0)"

text \<open>The day of the year on which month \<open>m\<close> (from 0) starts.\<close>

definition month_start :: "bool \<Rightarrow> nat \<Rightarrow> int" where
  "month_start leap m =
     [0, 31, 59, 90, 120, 151, 181, 212, 243, 273, 304, 334] ! m + (if leap \<and> 2 \<le> m then 1 else 0)"

text \<open>\<open>MakeDay(y, m, d)\<close>; a month out of range moves the year.\<close>

definition make_day :: "int \<Rightarrow> int \<Rightarrow> int \<Rightarrow> int" where
  "make_day y m d = (let ym = y + m div 12
     in day_from_year ym + month_start (leap_year ym) (nat (m mod 12)) + d - 1)"

definition time_clip :: "int \<Rightarrow> int option" where
  "time_clip t = (if \<bar>t\<bar> \<le> 8640000000000000 then Some t else None)"

definition truncate_rat :: "rat \<Rightarrow> int" where
  "truncate_rat x = (if 0 \<le> x then \<lfloor>x\<rfloor> else \<lceil>x\<rceil>)"

text \<open>
  \<open>Date.UTC(y, m, d, h, mi, s, ms)\<close>: a year from 0 to 99 stands for one of the twentieth
  century.
\<close>

definition date_UTC :: "rat \<Rightarrow> int \<Rightarrow> int \<Rightarrow> int \<Rightarrow> int \<Rightarrow> int \<Rightarrow> int \<Rightarrow> int option" where
  "date_UTC y m d h mi s ms =
     (let yi = truncate_rat y; yr = (if 0 \<le> yi \<and> yi \<le> 99 then 1900 + yi else yi)
      in time_clip (make_day yr m d * ms_per_day + (h * 3600000 + mi * 60000 + s * 1000 + ms)))"

definition day_of :: "int \<Rightarrow> int" where
  "day_of t = t div ms_per_day"

text \<open>
  The year of a day: an estimate by the mean length of the year, one too small or one too
  large at most, corrected with the first days of the years.
\<close>

definition year_from_day :: "int \<Rightarrow> int" where
  "year_from_day d = (let e = 1970 + (d * 400) div 146097
     in if d < day_from_year e then e - 1
        else if day_from_year (e + 1) \<le> d then e + 1 else e)"

definition utc_year :: "int \<Rightarrow> int" where
  "utc_year t = year_from_day (day_of t)"

definition day_in_year :: "int \<Rightarrow> int" where
  "day_in_year t = day_of t - day_from_year (utc_year t)"

definition utc_month :: "int \<Rightarrow> nat" where
  "utc_month t = last (filter (\<lambda>m. month_start (leap_year (utc_year t)) m \<le> day_in_year t) [0..<12])"

definition utc_date :: "int \<Rightarrow> int" where
  "utc_date t = day_in_year t - month_start (leap_year (utc_year t)) (utc_month t) + 1"

definition utc_hours :: "int \<Rightarrow> int" where
  "utc_hours t = t div 3600000 mod 24"

definition utc_minutes :: "int \<Rightarrow> int" where
  "utc_minutes t = t div 60000 mod 60"

definition utc_seconds :: "int \<Rightarrow> int" where
  "utc_seconds t = t div 1000 mod 60"

lemma div_bounds:
  fixes a :: int
  assumes "0 < k"
  shows "k * (a div k) \<le> a" "a < k * (a div k) + k"
  using assms by (simp_all add: minus_mod_eq_mult_div [symmetric] pos_mod_bound)

lemma day_from_year_bounds:
  "146097 * (y - 1970) - 900 < 400 * day_from_year y"
  "400 * day_from_year y < 146097 * (y - 1970) + 900"
proof -
  define a b c where abc: "a = (y - 1969) div 4" "b = (y - 1901) div 100" "c = (y - 1601) div 400"
  have "4 * a \<le> y - 1969" "y - 1969 < 4 * a + 4" "100 * b \<le> y - 1901" "y - 1901 < 100 * b + 100"
    "400 * c \<le> y - 1601" "y - 1601 < 400 * c + 400"
    unfolding abc by (rule div_bounds, simp)+
  moreover have "day_from_year y = 365 * (y - 1970) + a - b + c"
    by (simp add: abc day_from_year_def)
  ultimately have "146097 * (y - 1970) - 900 < 400 * day_from_year y
    \<and> 400 * day_from_year y < 146097 * (y - 1970) + 900" by simp
  then show "146097 * (y - 1970) - 900 < 400 * day_from_year y"
    "400 * day_from_year y < 146097 * (y - 1970) + 900" by simp_all
qed

theorem year_from_day: "day_from_year (year_from_day d) \<le> d \<and> d < day_from_year (year_from_day d + 1)"
proof -
  let ?e = "1970 + (d * 400) div 146097"
  have e: "146097 * (?e - 1970) \<le> 400 * d" "400 * d < 146097 * (?e - 1970) + 146097"
    using div_bounds(1) [of 146097 "d * 400"] div_bounds(2) [of 146097 "d * 400"] by simp_all
  have low: "day_from_year (?e - 1) \<le> d"
    using e(1) day_from_year_bounds(2) [of "?e - 1"] by simp
  have up: "d < day_from_year (?e + 2)"
    using e(2) day_from_year_bounds(1) [of "?e + 2"] by simp
  consider "d < day_from_year ?e" | "day_from_year ?e \<le> d" "day_from_year (?e + 1) \<le> d"
    | "day_from_year ?e \<le> d" "d < day_from_year (?e + 1)" by linarith
  then show ?thesis
  proof cases
    case 1
    then have "year_from_day d = ?e - 1" unfolding year_from_day_def Let_def by simp
    with 1 low show ?thesis by simp
  next
    case 2
    then have "year_from_day d = ?e + 1" unfolding year_from_day_def Let_def by simp
    with 2 up show ?thesis by (simp add: add.assoc)
  next
    case 3
    then have "year_from_day d = ?e" unfolding year_from_day_def Let_def by simp
    with 3 show ?thesis by simp
  qed
qed

lemma day_from_year_mono: "y < z \<Longrightarrow> day_from_year y < day_from_year z"
proof -
  assume "y < z"
  define p q where pq: "p = (y - 1901) div 100" "q = (z - 1901) div 100"
  from \<open>y < z\<close> have "(y - 1969) div 4 \<le> (z - 1969) div 4" "(y - 1601) div 400 \<le> (z - 1601) div 400"
    by (intro zdiv_mono1; simp)+
  moreover have "y - 1901 < 100 * p + 100" "100 * q \<le> z - 1901"
    unfolding pq by (rule div_bounds, simp)+
  then have "q - p < z - y + 1" using \<open>y < z\<close> by linarith
  ultimately have "365 * (y - 1970) + (y - 1969) div 4 - p + (y - 1601) div 400
      < 365 * (z - 1970) + (z - 1969) div 4 - q + (z - 1601) div 400"
    using \<open>y < z\<close> by (smt (verit))
  then show ?thesis by (simp add: pq day_from_year_def)
qed

lemma day_from_year_le [simp]: "day_from_year y \<le> day_from_year z \<longleftrightarrow> y \<le> z"
  using day_from_year_mono by (metis linorder_not_less order_le_less)

lemma year_from_day_eq: "year_from_day d = y \<longleftrightarrow> day_from_year y \<le> d \<and> d < day_from_year (y + 1)"
proof
  assume "day_from_year y \<le> d \<and> d < day_from_year (y + 1)"
  then have "\<not> day_from_year (y + 1) \<le> day_from_year (year_from_day d)"
    "\<not> day_from_year (year_from_day d + 1) \<le> day_from_year y"
    using year_from_day [of d] by linarith+
  then have "\<not> y + 1 \<le> year_from_day d" "\<not> year_from_day d + 1 \<le> y"
    using day_from_year_mono by (metis order_le_less)+
  then show "year_from_day d = y" by linarith
qed (use year_from_day in auto)

lemma make_day_first [simp]: "make_day y 0 1 = day_from_year y"
  by (simp add: make_day_def month_start_def)

lemma day_of_less: "day_of t < d \<longleftrightarrow> t < d * ms_per_day"
  unfolding day_of_def ms_per_day_def using div_bounds [of 86400000 t] by (auto; linarith)

lemma day_of_ge: "d \<le> day_of t \<longleftrightarrow> d * ms_per_day \<le> t"
  using day_of_less [of t d] by linarith

lemma utc_year_iff:
  "utc_year t = y \<longleftrightarrow> day_from_year y * ms_per_day \<le> t \<and> t < day_from_year (y + 1) * ms_per_day"
  by (simp add: utc_year_def year_from_day_eq day_of_less day_of_ge)

lemma utc_year_ge: "y \<le> utc_year t \<longleftrightarrow> day_from_year y * ms_per_day \<le> t"
proof -
  have "y \<le> year_from_day d \<longleftrightarrow> day_from_year y \<le> d" for d
  proof
    assume "y \<le> year_from_day d"
    then have "day_from_year y \<le> day_from_year (year_from_day d)" by simp
    with year_from_day [of d] show "day_from_year y \<le> d" by linarith
  next
    assume "day_from_year y \<le> d"
    with year_from_day [of d] have "\<not> day_from_year (year_from_day d + 1) \<le> day_from_year y" by linarith
    then show "y \<le> year_from_day d" by simp
  qed
  then show ?thesis by (simp add: utc_year_def day_of_ge)
qed

end
