(* ===== verification/FilterAst.thy ===== *)
theory FilterAst
  imports JsValues
begin

text \<open>
  The tokens, literals and syntax tree of \<open>$filter\<close>: the types of
  \<open>odata-query-parser.service.ts\<close>, its \<open>tokenize\<close>, the recognisers of literal tokens
  (\<open>isInListLiteralToken\<close>, \<open>tryParseNumericToken\<close>, \<open>parseLiteral\<close>) and the unwrapping of
  typed literals of \<open>util/odata-literals.ts\<close>. The lemmas show that quoting is undone by the
  literal reader and that the tokens of a text made of separated tokens are those tokens.
\<close>

section \<open>The syntax tree\<close>

datatype transform = ToLower | ToUpper

datatype function_arg =
    ArgField (arg_name: string) "transform option"
  | ArgLiteral js_value

datatype operand =
    FieldOperand string "transform option"
  | LiteralOperand js_value "transform option"

datatype comparator = Eq | Neq | Gt | Gte | Lt | Lte | Inq | Nin

datatype logical_type = And | Or

datatype lambda_type = AnyOf | AllOf

datatype string_test = Contains | StartsWith | EndsWith

datatype number_fn = Round | Floor | Ceiling | Year

datatype string_fn = Trim | Concat

datatype date_part = Month | Day | Hour | Minute | Second

text \<open>
  \<open>ParsedExpression\<close>, a constructor per \<open>operator\<close>. The fields of a node come in the order of
  the type; an optional field is an \<open>option\<close> (\<open>negated\<close>, which is only ever set to a
  boolean, a \<open>bool\<close>).
\<close>

datatype parsed_expression =
    Comparison string comparator js_value
  | Logical logical_type "parsed_expression list"
  | Not parsed_expression
  | StringTest string_test string "js_value list" bool "transform option" bool
  | TransformCmp transform string comparator "string option"
  | FnCmp number_fn string comparator rat
  | StringFnCmp string_fn "function_arg list" comparator string
  | DatePart date_part string comparator rat
  | IndexOfCmp string comparator rat string
  | SubstrCmp string rat "rat option" comparator string
  | LengthCmp string comparator rat
  | Lambda lambda_type "string list" string parsed_expression

text \<open>What the parser guarantees of lambdas: a navigation path and an alias, neither empty.\<close>

fun lambdas_wf :: "parsed_expression \<Rightarrow> bool" where
  "lambdas_wf (Lambda k path a p) = (path \<noteq> [] \<and> a \<noteq> [] \<and> lambdas_wf p)"
| "lambdas_wf (Logical t es) = list_all lambdas_wf es"
| "lambdas_wf (Not e) = lambdas_wf e"
| "lambdas_wf _ = True"

section \<open>Tokens\<close>

definition quote :: char where
  "quote = CHR 0x27"

text \<open>The loop of \<open>tokenize\<close>: the tokens so far, the current token and whether a literal is open.\<close>

definition flush_token :: "string list \<Rightarrow> string \<Rightarrow> string list" where
  "flush_token tokens current = (if current = [] then tokens else tokens @ [current])"

fun tokenize_loop :: "string \<Rightarrow> string list \<Rightarrow> string \<Rightarrow> bool \<Rightarrow> string list \<times> bool" where
  "tokenize_loop [] tokens current inString = (flush_token tokens current, inString)"
| "tokenize_loop (c # cs) tokens current inString =
     (if c = quote
      then (case cs of
              d # ds \<Rightarrow> if inString \<and> d = quote
                then tokenize_loop ds tokens (current @ [quote, quote]) inString
                else tokenize_loop cs tokens (current @ [quote]) (\<not> inString)
            | [] \<Rightarrow> tokenize_loop cs tokens (current @ [quote]) (\<not> inString))
      else if \<not> inString \<and> (c = CHR ''('' \<or> c = CHR '')'' \<or> c = CHR '','')
      then tokenize_loop cs (flush_token tokens current @ [[c]]) [] inString
      else if \<not> inString \<and> is_space c
      then tokenize_loop cs (flush_token tokens current) [] inString
      else tokenize_loop cs tokens (current @ [c]) inString)"

definition tokenize :: "string \<Rightarrow> string list result" where
  "tokenize s =
     (let (tokens, inString) = tokenize_loop s [] [] False
      in if inString then throw ''Unterminated string literal in filter expression.''
         else Inr tokens)"

section \<open>Literals\<close>

datatype literal_kind = KDateTimeOffset | KDate | KGuid | KInt64 | KDecimal

fun kind_name :: "literal_kind \<Rightarrow> string" where
  "kind_name KDateTimeOffset = ''datetimeoffset''"
| "kind_name KDate = ''date''"
| "kind_name KGuid = ''guid''"
| "kind_name KInt64 = ''int64''"
| "kind_name KDecimal = ''decimal''"

text \<open>\<open>s.slice(i, -1)\<close>.\<close>

definition slice_inner :: "nat \<Rightarrow> string \<Rightarrow> string" where
  "slice_inner i s = take (length s - 1 - i) (drop i s)"

definition unwrapODataTypedLiteral :: "string \<Rightarrow> literal_kind \<Rightarrow> string option" where
  "unwrapODataTypedLiteral token kind =
     (if token = [] then None
      else if \<not> ends_with token [quote] then None
      else if \<not> starts_with (lower token) (kind_name kind @ [quote]) then None
      else Some (undouble (slice_inner (length (kind_name kind @ [quote])) token)))"

definition parseInt64StringLiteral :: "string \<Rightarrow> string option" where
  "parseInt64StringLiteral token =
     (let raw = trim token
      in if raw = [] then None
         else case unwrapODataTypedLiteral raw KInt64 of
             Some typed \<Rightarrow> (let inner = trim typed in if match_int inner then Some inner else None)
           | None \<Rightarrow>
               if raw \<noteq> [] \<and> (last raw = CHR ''l'' \<or> last raw = CHR ''L'') \<and> match_int (butlast raw)
               then Some (butlast raw)
               else if match_int raw then Some raw else None)"

text \<open>Patterns of fixed length: a digit, a hexadecimal digit (of either case) or a character.\<close>

datatype char_pat = PDigit | PHex | PChar char

definition is_hex :: "char \<Rightarrow> bool" where
  "is_hex c \<longleftrightarrow> is_digit c \<or> digit_of c < 16"

fun char_fits :: "char_pat \<Rightarrow> char \<Rightarrow> bool" where
  "char_fits PDigit c = is_digit c"
| "char_fits PHex c = is_hex c"
| "char_fits (PChar d) c = (c = d)"

definition fits :: "char_pat list \<Rightarrow> string \<Rightarrow> bool" where
  "fits ps s \<longleftrightarrow> list_all2 char_fits ps s"

definition date_pat :: "char_pat list" where
  "date_pat = [PDigit, PDigit, PDigit, PDigit, PChar CHR ''-'', PDigit, PDigit, PChar CHR ''-'', PDigit, PDigit]"

definition time_pat :: "char_pat list" where
  "time_pat = [PDigit, PDigit, PChar CHR '':'', PDigit, PDigit, PChar CHR '':'', PDigit, PDigit]"

definition guid_pat :: "char_pat list" where
  "guid_pat = replicate 8 PHex @ PChar CHR ''-'' # replicate 4 PHex @ PChar CHR ''-'' # replicate 4 PHex @
     PChar CHR ''-'' # replicate 4 PHex @ PChar CHR ''-'' # replicate 12 PHex"

text \<open>\<open>(?:Z|z|[+-]\d{2}(?::?\d{2})?)?$\<close>.\<close>

definition zone_ok :: "string \<Rightarrow> bool" where
  "zone_ok s \<longleftrightarrow> s = [] \<or> s = ''Z'' \<or> s = ''z''
     \<or> ((hd s = CHR ''+'' \<or> hd s = CHR ''-'')
        \<and> (fits [PDigit, PDigit] (tl s) \<or> fits [PDigit, PDigit, PDigit, PDigit] (tl s)
           \<or> fits [PDigit, PDigit, PChar CHR '':'', PDigit, PDigit] (tl s)))"

definition match_date_time :: "string \<Rightarrow> bool" where
  "match_date_time s \<longleftrightarrow> fits (date_pat @ PChar CHR ''T'' # time_pat) (take 19 s)
     \<and> (case drop 19 s of
          [] \<Rightarrow> True
        | c # cs \<Rightarrow>
            if c = CHR ''.''
            then (let (fp, r) = span_digits cs in 1 \<le> length fp \<and> length fp \<le> 7 \<and> zone_ok r)
            else zone_ok (c # cs))"

definition normalizeGuidStringLiteral :: "string \<Rightarrow> string option" where
  "normalizeGuidStringLiteral token =
     (let raw = trim token
      in if raw = [] then None
         else let raw1 = (case unwrapODataTypedLiteral raw KGuid of Some typed \<Rightarrow> trim typed | None \<Rightarrow> raw);
                  raw2 = (if starts_with raw1 ''{'' \<and> ends_with raw1 ''}''
                          then trim (slice_inner 1 raw1) else raw1)
              in if fits guid_pat raw2 then Some (lower raw2) else None)"

definition parseDateStringLiteral :: "string \<Rightarrow> string option" where
  "parseDateStringLiteral token =
     (let raw = trim token
      in if raw = [] then None
         else let raw1 = (case unwrapODataTypedLiteral raw KDate of Some typed \<Rightarrow> trim typed | None \<Rightarrow> raw)
              in if fits date_pat raw1 then Some raw1 else None)"

text \<open>\<open>/^(datetimeoffset|date|guid|decimal|int64)'/i\<close>.\<close>

definition has_typed_prefix :: "string \<Rightarrow> bool" where
  "has_typed_prefix s \<longleftrightarrow> (\<exists>k \<in> {KDateTimeOffset, KDate, KGuid, KDecimal, KInt64}.
     starts_with (lower s) (kind_name k @ [quote]))"

definition is_quoted :: "string \<Rightarrow> bool" where
  "is_quoted s \<longleftrightarrow> starts_with s [quote] \<and> ends_with s [quote]"

definition isInListLiteralToken :: "string \<Rightarrow> bool" where
  "isInListLiteralToken token =
     (let raw = trim token; low = lower raw
      in raw \<noteq> []
         \<and> (is_quoted raw
            \<or> low = ''null'' \<or> low = ''true'' \<or> low = ''false''
            \<or> match_decimal raw \<noteq> None
            \<or> ((last raw = CHR ''l'' \<or> last raw = CHR ''L'') \<and> match_int (butlast raw))
            \<or> (has_typed_prefix raw \<and> ends_with raw [quote])
            \<or> fits date_pat raw
            \<or> match_date_time raw
            \<or> fits guid_pat raw))"

definition tryParseNumericToken :: "string \<Rightarrow> rat option" where
  "tryParseNumericToken token =
     (let t = trim token
      in if t = [] then None
         else if match_int t
         then (if 15 < length (snd (strip_minus t)) then None
               else let n = of_int (int_value t) in if is_safe_integer n then Some n else None)
         else case match_decimal t of
             None \<Rightarrow> None
           | Some (neg, ip, fp, e) \<Rightarrow>
               if 15 < length fp then None
               else if 15 < length (dropWhile (\<lambda>c. c = CHR ''0'') (ip @ fp)) then None
               else finite_value (to_number (decimal_value neg ip fp e)))"

definition typed_literal :: "string \<Rightarrow> string option" where
  "typed_literal token =
     (if has_typed_prefix token \<and> ends_with token [quote]
      then (let low = lower token
            in if starts_with low (''guid'' @ [quote]) then unwrapODataTypedLiteral token KGuid
               else if starts_with low (''datetimeoffset'' @ [quote]) then unwrapODataTypedLiteral token KDateTimeOffset
               else if starts_with low (''date'' @ [quote]) then unwrapODataTypedLiteral token KDate
               else if starts_with low (''decimal'' @ [quote]) then unwrapODataTypedLiteral token KDecimal
               else if starts_with low (''int64'' @ [quote]) then unwrapODataTypedLiteral token KInt64
               else None)
      else None)"

definition parseLiteral :: "string \<Rightarrow> js_value" where
  "parseLiteral token =
     (if token = [] then JStr token
      else case typed_literal token of
          Some v \<Rightarrow> JStr v
        | None \<Rightarrow>
            if is_quoted token then JStr (undouble (slice_inner 1 token))
            else let low = lower token
                 in if low = ''true'' then JBool True
                    else if low = ''false'' then JBool False
                    else if low = ''null'' then JNull
                    else case tryParseNumericToken token of
                        Some n \<Rightarrow> JNum (Finite n)
                      | None \<Rightarrow> JStr token)"

section \<open>What the tokenizer and the literal reader guarantee\<close>

text \<open>
  A token is one of the three punctuation characters or a word: text without white space
  and punctuation outside its literals, whose literals are closed.
\<close>

definition punctuation :: "char \<Rightarrow> bool" where
  "punctuation c \<longleftrightarrow> c = CHR ''('' \<or> c = CHR '')'' \<or> c = CHR '',''"

fun word_state :: "string \<Rightarrow> bool \<Rightarrow> bool option" where
  "word_state [] inString = Some inString"
| "word_state (c # cs) inString =
     (if c = quote then word_state cs (\<not> inString)
      else if inString \<or> (\<not> punctuation c \<and> \<not> is_space c) then word_state cs inString
      else None)"

definition is_token :: "string \<Rightarrow> bool" where
  "is_token w \<longleftrightarrow> (\<exists>c. w = [c] \<and> punctuation c) \<or> (w \<noteq> [] \<and> word_state w False = Some False)"

lemma quote_not_space [simp]: "\<not> is_space quote" "\<not> punctuation quote"
  by (simp_all add: is_space_def quote_def code_def punctuation_def)

lemma punctuation_not_space: "punctuation c \<Longrightarrow> \<not> is_space c"
  by (auto simp: punctuation_def is_space_def code_def)

text \<open>
  An escaped quote inside a literal and a quote that closes one followed by a quote that
  opens another are the same to the loop, so every quote just flips its flag.
\<close>

lemma tokenize_quote [simp]:
  "tokenize_loop (quote # cs) tokens current inString = tokenize_loop cs tokens (current @ [quote]) (\<not> inString)"
proof (induction cs arbitrary: current inString)
  case (Cons d ds)
  show ?case
  proof (cases "inString \<and> d = quote")
    case True
    have "tokenize_loop (quote # quote # ds) tokens current True
        = tokenize_loop ds tokens (current @ [quote, quote]) True" by simp
    also have "\<dots> = tokenize_loop (quote # ds) tokens (current @ [quote]) False"
      using Cons.IH [of "current @ [quote]" False] by simp
    finally show ?thesis using True by simp
  next
    case False
    then show ?thesis by (auto simp del: tokenize_loop.simps simp add: tokenize_loop.simps(2) [of quote "d # ds"])
  qed
qed simp

lemma tokenize_other:
  "c \<noteq> quote \<Longrightarrow> tokenize_loop (c # cs) tokens current inString =
     (if \<not> inString \<and> punctuation c then tokenize_loop cs (flush_token tokens current @ [[c]]) [] inString
      else if \<not> inString \<and> is_space c then tokenize_loop cs (flush_token tokens current) [] inString
      else tokenize_loop cs tokens (current @ [c]) inString)"
  by (simp add: punctuation_def)

declare tokenize_loop.simps(2) [simp del]

lemma word_state_append:
  "word_state (u @ v) b = Option.bind (word_state u b) (word_state v)"
  by (induction u arbitrary: b) auto

lemma tokenize_word:
  "word_state w inString = Some b \<Longrightarrow>
   tokenize_loop (w @ rest) tokens current inString = tokenize_loop rest tokens (current @ w) b"
proof (induction w arbitrary: current inString)
  case (Cons c cs)
  then show ?case
    by (cases "c = quote") (auto simp: tokenize_other split: if_splits)
qed simp

lemma tokenize_space:
  "tokenize_loop (CHR '' '' # rest) ts cur False = tokenize_loop rest (flush_token ts cur) [] False"
  by (simp add: tokenize_other quote_def punctuation_def is_space_def code_def)

lemma tokenize_punctuation:
  "punctuation c \<Longrightarrow> tokenize_loop (c # rest) ts cur False = tokenize_loop rest (flush_token ts cur @ [[c]]) [] False"
  by (cases "c = quote") (auto simp: tokenize_other)

lemma tokenize_loop_token:
  assumes "is_token w"
  shows "tokenize_loop (w @ CHR '' '' # rest) tokens [] False = tokenize_loop rest (tokens @ [w]) [] False"
    "tokenize_loop w tokens [] False = (tokens @ [w], False)"
  using assms unfolding is_token_def
  by (auto simp: tokenize_space flush_token_def tokenize_punctuation
      tokenize_word [where b = False] tokenize_word [where b = False and rest = "[]", simplified])

lemma tokenize_join:
  "(\<forall>w\<in>set ws. is_token w) \<Longrightarrow> tokenize_loop (join '' '' ws) tokens [] False = (tokens @ ws, False)"
proof (induction "'' ''" ws arbitrary: tokens rule: join.induct)
  case (3 x y ys)
  then show ?case by (simp add: tokenize_loop_token(1))
qed (auto simp: flush_token_def tokenize_loop_token(2))

lemma tokenize_tokens: "(\<forall>w\<in>set ws. is_token w) \<Longrightarrow> tokenize (join '' '' ws) = Inr ws"
  by (simp add: tokenize_def tokenize_join)

text \<open>The state of the loop between two characters: the tokens are tokens, the current one a prefix of a word.\<close>

definition open_word :: "string \<Rightarrow> bool \<Rightarrow> bool" where
  "open_word current inString \<longleftrightarrow> word_state current False = Some inString"

lemma open_word_step:
  "open_word current b \<Longrightarrow> open_word (current @ [quote]) (\<not> b)"
  "open_word current b \<Longrightarrow> b \<or> (\<not> punctuation c \<and> \<not> is_space c) \<Longrightarrow> c \<noteq> quote \<Longrightarrow> open_word (current @ [c]) b"
  by (simp_all add: open_word_def word_state_append)

lemma flush_tokens:
  "(\<forall>w\<in>set tokens. is_token w) \<Longrightarrow> open_word current False \<Longrightarrow> \<forall>w\<in>set (flush_token tokens current). is_token w"
  by (auto simp: flush_token_def is_token_def open_word_def)

lemma tokenize_loop_tokens:
  "(\<forall>w\<in>set tokens. is_token w) \<Longrightarrow> open_word current b \<Longrightarrow> tokenize_loop s tokens current b = (ts, False) \<Longrightarrow>
   \<forall>w\<in>set ts. is_token w"
proof (induction s arbitrary: tokens current b)
  case Nil
  then show ?case using flush_tokens by auto
next
  case (Cons c cs)
  have flush: "\<forall>w\<in>set (flush_token tokens current). is_token w" if "\<not> b"
    using flush_tokens [OF Cons.prems(1)] Cons.prems(2) that by simp
  have tok: "is_token [c]" if "punctuation c" using that by (simp add: is_token_def)
  have empty: "open_word [] False" by (simp add: open_word_def)
  show ?case
  proof (cases "c = quote")
    case True
    have "open_word (current @ [quote]) (\<not> b)" using Cons.prems(2) by (rule open_word_step(1))
    moreover have "tokenize_loop cs tokens (current @ [quote]) (\<not> b) = (ts, False)"
      using Cons.prems(3) True by simp
    ultimately show ?thesis using Cons.IH Cons.prems(1) by blast
  next
    case False
    consider "\<not> b" "punctuation c" | "\<not> b" "\<not> punctuation c" "is_space c"
      | "b \<or> (\<not> punctuation c \<and> \<not> is_space c)" by blast
    then show ?thesis
    proof cases
      case 1
      then have "tokenize_loop cs (flush_token tokens current @ [[c]]) [] False = (ts, False)"
        using Cons.prems(3) False by (simp add: tokenize_other)
      moreover have "\<forall>w\<in>set (flush_token tokens current @ [[c]]). is_token w"
        using flush [OF 1(1)] tok [OF 1(2)] by simp
      ultimately show ?thesis using Cons.IH empty by blast
    next
      case 2
      then have "tokenize_loop cs (flush_token tokens current) [] False = (ts, False)"
        using Cons.prems(3) False by (simp add: tokenize_other)
      then show ?thesis using Cons.IH flush [OF 2(1)] empty by blast
    next
      case 3
      then have "tokenize_loop cs tokens (current @ [c]) b = (ts, False)"
        using Cons.prems(3) False by (auto simp: tokenize_other)
      then show ?thesis using Cons.IH Cons.prems(1) open_word_step(2) [OF Cons.prems(2) 3 False] by blast
    qed
  qed
qed

lemma tokenize_is_token: "tokenize s = Inr ts \<Longrightarrow> \<forall>w\<in>set ts. is_token w"
  using tokenize_loop_tokens [of "[]" "[]" False s]
  by (cases "tokenize_loop s [] [] False") (auto simp: tokenize_def open_word_def split: if_splits)

lemma quoted_is_token: "is_token (quote # double s @ [quote])"
proof -
  have "word_state (double s @ [quote]) True = Some False"
    by (induction s) (auto simp: double_Cons quote_def)
  then show ?thesis by (simp add: is_token_def)
qed

lemma slice_inner_quoted [simp]: "slice_inner (Suc 0) (c # s @ [d]) = s"
  by (simp add: slice_inner_def)

lemma quoted_is_quoted: "is_quoted (quote # s @ [quote])"
  by (simp add: is_quoted_def starts_with_def ends_with_def)

lemma lower_char_quote [simp]: "lower_char quote = quote"
  by (simp add: lower_char_def is_upper_def quote_def code_def)

lemma typed_prefix_char:
  assumes "has_typed_prefix (c # s)"
  shows "lower_char c \<in> {CHR ''d'', CHR ''g'', CHR ''i''}"
  using assms by (auto simp: has_typed_prefix_def starts_with_def lower_def)

lemma parseLiteral_quoted [simp]: "parseLiteral (quote # double s @ [quote]) = JStr s"
proof -
  have "lower_char quote \<notin> {CHR ''d'', CHR ''g'', CHR ''i''}"
    unfolding lower_char_quote by (simp add: quote_def)
  then have "\<not> has_typed_prefix (quote # double s @ [quote])"
    using typed_prefix_char by blast
  then show ?thesis
    by (simp add: parseLiteral_def typed_literal_def quoted_is_quoted)
qed

text \<open>Integers of up to fifteen digits are read back from their decimal digits.\<close>

lemma length_show_nat: "n < 10 ^ k \<Longrightarrow> 0 < k \<Longrightarrow> length (show_nat n) \<le> k"
proof (induction n arbitrary: k rule: show_nat.induct)
  case (1 n)
  show ?case
  proof (cases "n < 10")
    case True
    with 1 show ?thesis by (subst show_nat.simps) simp
  next
    case False
    with 1 obtain j where j: "k = Suc j" "0 < j"
      by (cases k; cases "k - 1") auto
    with 1 False have "n div 10 < 10 ^ j" by simp
    with 1 False j have "length (show_nat (n div 10)) \<le> j" by blast
    with False j show ?thesis by (subst show_nat.simps) simp
  qed
qed

definition small_int :: "int \<Rightarrow> bool" where
  "small_int n \<longleftrightarrow> \<bar>n\<bar> < 10 ^ 15"

lemma digit_facts:
  "is_digit c \<Longrightarrow> \<not> is_space c" "is_digit c \<Longrightarrow> c \<noteq> quote" "is_digit c \<Longrightarrow> \<not> punctuation c"
  "is_digit c \<Longrightarrow> lower_char c = c" "is_digit c \<Longrightarrow> \<not> is_lower c"
  by (auto simp: is_digit_def is_space_def quote_def code_def punctuation_def lower_char_def
      is_upper_def is_lower_def)

lemma show_int_chars: "c \<in> set (show_int n) \<Longrightarrow> is_digit c \<or> c = CHR ''-''"
  by (auto simp: show_int_def dest: show_nat_digits split: if_splits)

lemma show_int_not_Nil [simp]: "show_int n \<noteq> []"
  by (simp add: show_int_def)

lemma trim_show_int [simp]: "trim (show_int n) = show_int n"
proof -
  have "\<not> is_space c" if "c \<in> set (show_int n)" for c
    using show_int_chars [OF that] digit_facts(1) by auto
  then show ?thesis by (intro trim_id) simp
qed

lemma tryParseNumericToken_int: "small_int n \<Longrightarrow> tryParseNumericToken (show_int n) = Some (of_int n)"
proof -
  assume n: "small_int n"
  have "length (snd (strip_minus (show_int n))) \<le> 15"
    using n length_show_nat [of _ 15]
    by (auto simp: show_int_def small_int_def strip_minus_digits)
  moreover have "is_safe_integer (of_int n)"
    using n by (simp add: is_safe_integer_def is_integer_def small_int_def)
  ultimately show ?thesis by (simp add: tryParseNumericToken_def Let_def)
qed

lemma show_int_not_keyword:
  assumes "w \<noteq> []" "\<not> is_digit (hd w)" "hd w \<noteq> CHR ''-''"
  shows "lower (show_int n) \<noteq> w" "show_int n \<noteq> w"
proof -
  have "hd (show_int n) \<in> set (show_int n)" by simp
  then have "is_digit (hd (show_int n)) \<or> hd (show_int n) = CHR ''-''" by (rule show_int_chars)
  moreover have "lower_char (CHR ''-'') = CHR ''-''"
    by (simp add: lower_char_def is_upper_def code_def)
  ultimately have "lower_char (hd (show_int n)) = hd (show_int n)"
    using digit_facts(4) by auto
  moreover have "hd (lower (show_int n)) = lower_char (hd (show_int n))"
    by (simp add: lower_def hd_map)
  ultimately show "lower (show_int n) \<noteq> w" "show_int n \<noteq> w"
    using \<open>is_digit (hd (show_int n)) \<or> _\<close> assms by auto
qed

lemma show_int_not_quoted: "\<not> is_quoted (show_int n)" "\<not> ends_with (show_int n) [quote]"
proof -
  have "c \<noteq> quote" if "c \<in> set (show_int n)" for c
    using show_int_chars [OF that] digit_facts(2) by (auto simp: quote_def)
  then have "quote \<notin> set (show_int n)" by blast
  then show "\<not> ends_with (show_int n) [quote]"
    by (auto simp: ends_with_suffix suffix_def)
  then show "\<not> is_quoted (show_int n)" by (simp add: is_quoted_def)
qed

lemma parseLiteral_int: "small_int n \<Longrightarrow> parseLiteral (show_int n) = JNum (Finite (of_int n))"
  using show_int_not_keyword [of _ n] show_int_not_quoted [of n] tryParseNumericToken_int [of n]
  by (simp add: parseLiteral_def typed_literal_def Let_def is_digit_def code_def)

lemma show_int_is_token: "is_token (show_int n)"
proof -
  have "word_state s False = Some False" if "\<forall>c\<in>set s. is_digit c \<or> c = CHR ''-''" for s
    using that
  proof (induction s)
    case (Cons c s)
    have "c \<noteq> quote" "\<not> punctuation c" "\<not> is_space c"
      using Cons.prems digit_facts(1,2,3) [of c] by (auto simp: quote_def punctuation_def)
    with Cons show ?case by simp
  qed simp
  then show ?thesis using show_int_chars by (simp add: is_token_def)
qed

end
