(* ===== verification/FilterEval.thy ===== *)
theory FilterEval
  imports FilterAst
begin

text \<open>
  The evaluation of filters in memory by the controllers of
  \<open>controllers/crud-controller-factory.ts\<close>: \<open>evaluatePredicate\<close> with the comparison of values,
  the resolution of paths and the collections of lambda expressions. An entity is a
  value; \<open>host\<close> is what \<open>String\<close> and \<open>new Date\<close> depend on.
\<close>

section \<open>Comparing values\<close>

fun num_less :: "js_number \<Rightarrow> js_number \<Rightarrow> bool" where
  "num_less NotANumber b = False"
| "num_less a NotANumber = False"
| "num_less a NegInfinity = False"
| "num_less NegInfinity b = True"
| "num_less PosInfinity b = False"
| "num_less a PosInfinity = True"
| "num_less (Finite x) (Finite y) = (x < y)"

fun str_less :: "string \<Rightarrow> string \<Rightarrow> bool" where
  "str_less s [] = False"
| "str_less [] (d # ds) = True"
| "str_less (c # cs) (d # ds) = (code c < code d \<or> (c = d \<and> str_less cs ds))"

text \<open>
  \<open>a === b\<close> of values that are not objects. Two references to one object are equal to the
  source, but what follows gives 0 for them as well.
\<close>

fun strict_equal :: "js_value \<Rightarrow> js_value \<Rightarrow> bool" where
  "strict_equal JUndefined JUndefined = True"
| "strict_equal JNull JNull = True"
| "strict_equal (JBool a) (JBool b) = (a = b)"
| "strict_equal (JNum a) (JNum b) = (a = b \<and> a \<noteq> NotANumber)"
| "strict_equal (JStr a) (JStr b) = (a = b)"
| "strict_equal _ _ = False"

definition sign_of :: "bool \<Rightarrow> bool \<Rightarrow> int" where
  "sign_of lt gt = (if lt then -1 else if gt then 1 else 0)"

fun date_time :: "js_value \<Rightarrow> int option" where
  "date_time (JDate t) = t"
| "date_time _ = None"

definition compare_text :: "js_host \<Rightarrow> js_value \<Rightarrow> js_value \<Rightarrow> int" where
  "compare_text h a b =
     sign_of (str_less (js_String h a) (js_String h b)) (str_less (js_String h b) (js_String h a))"

fun compare_plain :: "js_host \<Rightarrow> js_value \<Rightarrow> js_value \<Rightarrow> int" where
  "compare_plain h (JNum x) (JNum y) = sign_of (num_less x y) (num_less y x)"
| "compare_plain h a b = compare_text h a b"

definition compareValues :: "js_host \<Rightarrow> js_value \<Rightarrow> js_value \<Rightarrow> int" where
  "compareValues h a b =
     (if strict_equal a b then 0
      else if is_nullish a then -1
      else if is_nullish b then 1
      else case (date_time a, date_time b) of
          (Some s, Some t) \<Rightarrow> sign_of (s < t) (t < s)
        | _ \<Rightarrow> compare_plain h a b)"

fun test_comparison :: "comparator \<Rightarrow> int \<Rightarrow> bool" where
  "test_comparison Eq c = (c = 0)"
| "test_comparison Neq c = (c \<noteq> 0)"
| "test_comparison Gt c = (0 < c)"
| "test_comparison Gte c = (0 \<le> c)"
| "test_comparison Lt c = (c < 0)"
| "test_comparison Lte c = (c \<le> 0)"
| "test_comparison _ c = False"

section \<open>Paths\<close>

text \<open>Whether a value counts as true.\<close>

fun js_truthy :: "js_value \<Rightarrow> bool" where
  "js_truthy JUndefined = False"
| "js_truthy JNull = False"
| "js_truthy (JBool b) = b"
| "js_truthy (JNum n) = (n \<noteq> NotANumber \<and> n \<noteq> Finite 0)"
| "js_truthy (JStr s) = (s \<noteq> [])"
| "js_truthy _ = True"

fun resolvePath :: "js_value \<Rightarrow> string list \<Rightarrow> js_value" where
  "resolvePath v [] = v"
| "resolvePath v (s # ss) = (if is_nullish v then JUndefined else resolvePath (get_prop v s) ss)"

text \<open>The bindings of lambda aliases; no bindings are the empty ones.\<close>

type_synonym bindings = "string \<rightharpoonup> js_value"

definition bound_to :: "bindings \<Rightarrow> string \<Rightarrow> js_value option" where
  "bound_to b name =
     (if name = [] then None
      else case b name of Some v \<Rightarrow> (if js_truthy v then Some v else None) | None \<Rightarrow> None)"

definition resolvePredicateValue ::
  "string \<Rightarrow> js_value \<Rightarrow> string \<Rightarrow> js_value \<Rightarrow> bindings \<Rightarrow> js_value" where
  "resolvePredicateValue path current al rt b =
     (let segments = split_on CHR ''/'' path
      in case bound_to b (hd segments) of
          Some v \<Rightarrow> resolvePath v (tl segments)
        | None \<Rightarrow> if hd segments = al then resolvePath current (tl segments) else resolvePath rt segments)"

text \<open>\<open>resolveCollectionPath\<close>: arrays are flattened at every segment, missing values dropped.\<close>

fun collection_step :: "string \<Rightarrow> js_value list \<Rightarrow> js_value list" where
  "collection_step s items = concat (map (\<lambda>item.
     if is_nullish item then []
     else case get_prop item s of
         JArr vs \<Rightarrow> vs
       | v \<Rightarrow> if is_nullish v then [] else [v]) items)"

definition resolveCollectionPath :: "js_value \<Rightarrow> string list \<Rightarrow> js_value list" where
  "resolveCollectionPath source segments =
     filter (\<lambda>v. \<not> is_nullish v) (foldl (\<lambda>items s. collection_step s items) [source] segments)"

section \<open>Functions\<close>

fun transformed :: "js_host \<Rightarrow> transform option \<Rightarrow> js_value \<Rightarrow> js_value" where
  "transformed h t (JStr s) = (case t of None \<Rightarrow> JStr s | Some ToLower \<Rightarrow> JStr (lower s) | Some ToUpper \<Rightarrow> JStr (upper s))"
| "transformed h t v =
     (if is_nullish v then v
      else case t of None \<Rightarrow> v | Some ToLower \<Rightarrow> JStr (lower (js_String h v)) | Some ToUpper \<Rightarrow> JStr (upper (js_String h v)))"

fun resolveFunctionArgValue ::
  "js_host \<Rightarrow> function_arg \<Rightarrow> js_value \<Rightarrow> string \<Rightarrow> js_value \<Rightarrow> bindings \<Rightarrow> js_value" where
  "resolveFunctionArgValue h (ArgLiteral v) current al rt b = v"
| "resolveFunctionArgValue h (ArgField name t) current al rt b =
     transformed h t (resolvePredicateValue name current al rt b)"

definition evaluateStringFunction ::
  "js_host \<Rightarrow> string_fn \<Rightarrow> function_arg list \<Rightarrow> js_value \<Rightarrow> string \<Rightarrow> js_value \<Rightarrow> bindings \<Rightarrow> string option" where
  "evaluateStringFunction h fn args current al rt b =
     (let value = (\<lambda>a. resolveFunctionArgValue h a current al rt b)
      in case fn of
          Trim \<Rightarrow> (let v = value (hd args) in if is_nullish v then None else Some (trim (js_String h v)))
        | Concat \<Rightarrow> Some (concat (map (\<lambda>a. if is_nullish (value a) then [] else js_String h (value a)) args)))"

text \<open>The time value of \<open>new Date(v)\<close>.\<close>

fun as_date :: "js_host \<Rightarrow> js_value \<Rightarrow> int option" where
  "as_date h (JDate t) = t"
| "as_date h (JStr s) = date_parse h s"
| "as_date h (JNum (Finite x)) = time_clip (truncate_rat x)"
| "as_date h _ = None"

definition extractDatePart :: "js_host \<Rightarrow> js_value \<Rightarrow> date_part \<Rightarrow> int option" where
  "extractDatePart h v part = map_option (\<lambda>t. case part of
       Month \<Rightarrow> int (utc_month t) + 1 | Day \<Rightarrow> utc_date t | Hour \<Rightarrow> utc_hours t
     | Minute \<Rightarrow> utc_minutes t | Second \<Rightarrow> utc_seconds t) (as_date h v)"

definition round_half_up :: "rat \<Rightarrow> int" where
  "round_half_up x = \<lfloor>x + 1 / 2\<rfloor>"

text \<open>The year, the rounding, the floor or the ceiling is compared for equality, whatever the comparator.\<close>

definition evaluate_fncmp :: "js_host \<Rightarrow> number_fn \<Rightarrow> js_value \<Rightarrow> rat \<Rightarrow> bool" where
  "evaluate_fncmp h fn v x =
     (let equals = (\<lambda>n. compareValues h (JNum n) (JNum (Finite x)) = 0)
      in case (fn, v) of
          (Year, JDate None) \<Rightarrow> equals NotANumber
        | (Year, JDate (Some t)) \<Rightarrow> equals (Finite (of_int (utc_year t)))
        | (Year, _) \<Rightarrow> False
        | (_, JDate t) \<Rightarrow> False
        | (_, _) \<Rightarrow>
            (case js_to_number h v of
               Finite y \<Rightarrow>
                 (case fn of
                    Round \<Rightarrow> equals (Finite (of_int (round_half_up y)))
                  | Floor \<Rightarrow> equals (Finite (of_int \<lfloor>y\<rfloor>))
                  | Ceiling \<Rightarrow> equals (Finite (of_int \<lceil>y\<rceil>))
                  | Year \<Rightarrow> False)
             | _ \<Rightarrow> False))"

text \<open>\<open>s.substr(start, length)\<close> and \<open>s.slice(start)\<close> for a start that is not negative.\<close>

definition js_substr :: "string \<Rightarrow> rat \<Rightarrow> rat option \<Rightarrow> string" where
  "js_substr s start len =
     (let rest = drop (nat (truncate_rat start)) s
      in case len of None \<Rightarrow> rest | Some n \<Rightarrow> take (nat (truncate_rat n)) rest)"

fun js_length :: "js_value \<Rightarrow> nat" where
  "js_length (JStr s) = length s"
| "js_length (JArr vs) = length vs"
| "js_length _ = 0"

fun number_test :: "comparator \<Rightarrow> rat \<Rightarrow> rat \<Rightarrow> bool" where
  "number_test Eq a b = (a = b)"
| "number_test Neq a b = (a \<noteq> b)"
| "number_test Gt a b = (b < a)"
| "number_test Gte a b = (b \<le> a)"
| "number_test Lt a b = (a < b)"
| "number_test Lte a b = (a \<le> b)"
| "number_test _ a b = False"

definition evaluate_comparison :: "js_host \<Rightarrow> comparator \<Rightarrow> js_value \<Rightarrow> js_value \<Rightarrow> bool" where
  "evaluate_comparison h c left right =
     (case c of
        Inq \<Rightarrow>
          (case right of
             JArr vs \<Rightarrow>
               (if is_nullish left then JNull \<in> set vs
                else list_ex (\<lambda>v. compareValues h left v = 0) (filter (\<lambda>v. v \<noteq> JNull) vs))
           | _ \<Rightarrow> False)
      | Nin \<Rightarrow>
          (case right of
             JArr vs \<Rightarrow>
               (if is_nullish left then JNull \<notin> set vs
                else \<not> list_ex (\<lambda>v. compareValues h left v = 0) (filter (\<lambda>v. v \<noteq> JNull) vs))
           | _ \<Rightarrow> False)
      | _ \<Rightarrow> test_comparison c (compareValues h left right))"

definition evaluate_transformcmp :: "transform \<Rightarrow> comparator \<Rightarrow> js_value \<Rightarrow> string option \<Rightarrow> bool" where
  "evaluate_transformcmp t c left v =
     (if is_nullish left then (if v = None then c = Eq else c = Neq)
      else case left of
          JStr s \<Rightarrow>
            (let s' = (case t of ToLower \<Rightarrow> lower s | ToUpper \<Rightarrow> upper s)
             in case v of None \<Rightarrow> c = Neq
                | Some w \<Rightarrow> if c = Eq then s' = w else s' \<noteq> w)
        | _ \<Rightarrow> False)"

definition evaluate_string_test :: "js_host \<Rightarrow> string_test \<Rightarrow> js_value \<Rightarrow> js_value list \<Rightarrow> bool \<Rightarrow> bool" where
  "evaluate_string_test h fn v args caseInsensitive =
     (case v of
        JStr s \<Rightarrow>
          (let a = (case args of [] \<Rightarrow> [] | x # _ \<Rightarrow> if is_nullish x then [] else js_String h x);
               source = (if caseInsensitive then lower s else s);
               needle = (if caseInsensitive then lower a else a)
           in case fn of
               Contains \<Rightarrow> contains_str source needle
             | StartsWith \<Rightarrow> starts_with source needle
             | EndsWith \<Rightarrow> ends_with source needle)
      | _ \<Rightarrow> False)"

definition index_in :: "string \<Rightarrow> string \<Rightarrow> rat" where
  "index_in s needle = (case index_of (lower needle) (lower s) of None \<Rightarrow> -1 | Some i \<Rightarrow> of_nat i)"

text \<open>The comparisons of a filter, by the value of their field or arguments.\<close>

fun evaluate_atom ::
  "js_host \<Rightarrow> parsed_expression \<Rightarrow> js_value \<Rightarrow> string \<Rightarrow> js_value \<Rightarrow> bindings \<Rightarrow> bool" where
  "evaluate_atom h (Comparison f c right) current al rt b =
     evaluate_comparison h c (resolvePredicateValue f current al rt b) right"
| "evaluate_atom h (TransformCmp t f c v) current al rt b =
     evaluate_transformcmp t c (resolvePredicateValue f current al rt b) v"
| "evaluate_atom h (StringTest fn f args ci t neg) current al rt b =
     evaluate_string_test h fn (resolvePredicateValue f current al rt b) args ci"
| "evaluate_atom h (StringFnCmp fn args c v) current al rt b =
     (case evaluateStringFunction h fn args current al rt b of
        None \<Rightarrow> False
      | Some s \<Rightarrow> if c = Eq then compareValues h (JStr s) (JStr v) = 0 else compareValues h (JStr s) (JStr v) \<noteq> 0)"
| "evaluate_atom h (DatePart part f c x) current al rt b =
     (case extractDatePart h (resolvePredicateValue f current al rt b) part of
        None \<Rightarrow> False
      | Some n \<Rightarrow> test_comparison c (compareValues h (JNum (Finite (of_int n))) (JNum (Finite x))))"
| "evaluate_atom h (FnCmp fn f c x) current al rt b =
     evaluate_fncmp h fn (resolvePredicateValue f current al rt b) x"
| "evaluate_atom h (IndexOfCmp f c x needle) current al rt b =
     (case resolvePredicateValue f current al rt b of
        JStr s \<Rightarrow> test_comparison c (compareValues h (JNum (Finite (index_in s needle))) (JNum (Finite x)))
      | _ \<Rightarrow> False)"
| "evaluate_atom h (SubstrCmp f start len c literal) current al rt b =
     (case resolvePredicateValue f current al rt b of
        JStr s \<Rightarrow>
          (if c = Eq then js_substr s (max 0 start) len = literal else js_substr s (max 0 start) len \<noteq> literal)
      | _ \<Rightarrow> False)"
| "evaluate_atom h (LengthCmp f c x) current al rt b =
     number_test c (of_nat (js_length (resolvePredicateValue f current al rt b))) x"
| "evaluate_atom h _ current al rt b = False"

section \<open>Predicates\<close>

text \<open>The items a lambda ranges over: of the bound alias its path starts with, or of the root.\<close>

definition lambda_items :: "string list \<Rightarrow> js_value \<Rightarrow> bindings \<Rightarrow> js_value list" where
  "lambda_items path rt b =
     (case (bound_to b (hd path), tl path) of
        (Some source, rest) \<Rightarrow>
          if rest \<noteq> [] then resolveCollectionPath source rest else resolveCollectionPath rt path
      | (None, _) \<Rightarrow> resolveCollectionPath rt path)"

fun evaluatePredicate ::
  "js_host \<Rightarrow> parsed_expression \<Rightarrow> js_value \<Rightarrow> string \<Rightarrow> js_value \<Rightarrow> bindings \<Rightarrow> bool" where
  "evaluatePredicate h (Logical t es) current al rt b =
     (case t of
        And \<Rightarrow> list_all (\<lambda>e. evaluatePredicate h e current al rt b) es
      | Or \<Rightarrow> list_ex (\<lambda>e. evaluatePredicate h e current al rt b) es)"
| "evaluatePredicate h (Not e) current al rt b = (\<not> evaluatePredicate h e current al rt b)"
| "evaluatePredicate h (Lambda k path a p) current al rt b =
     (if path = [] then False
      else let items = lambda_items path rt b
           in case k of
               AnyOf \<Rightarrow> list_ex (\<lambda>item. evaluatePredicate h p item a rt (b(a \<mapsto> item))) items
             | AllOf \<Rightarrow> items = [] \<or> list_all (\<lambda>item. evaluatePredicate h p item a rt (b(a \<mapsto> item))) items)"
| "evaluatePredicate h e current al rt b = evaluate_atom h e current al rt b"

text \<open>\<open>evaluateLambda\<close> and \<open>filterEntitiesByLambdas\<close>.\<close>

record lambda_expression =
  lambdaType :: lambda_type
  lambdaPath :: "string list"
  lambdaAlias :: string
  lambdaPredicate :: parsed_expression

definition evaluateLambda :: "js_host \<Rightarrow> js_value \<Rightarrow> lambda_expression \<Rightarrow> bool" where
  "evaluateLambda h entity l =
     (let items = resolveCollectionPath entity (lambdaPath l);
          evalItem = (\<lambda>item. evaluatePredicate h (lambdaPredicate l) item (lambdaAlias l) entity
            (if lambdaAlias l = [] then Map.empty else [lambdaAlias l \<mapsto> item]))
      in case lambdaType l of
          AnyOf \<Rightarrow> list_ex evalItem items
        | AllOf \<Rightarrow> items = [] \<or> list_all evalItem items)"

definition filterEntitiesByLambdas :: "js_host \<Rightarrow> js_value list \<Rightarrow> lambda_expression list \<Rightarrow> js_value list" where
  "filterEntitiesByLambdas h entities ls = filter (\<lambda>entity. list_all (evaluateLambda h entity) ls) entities"

section \<open>Laws of the evaluation\<close>

lemma num_less_irrefl [simp]: "\<not> num_less a a"
  by (cases a) auto

lemma str_less_irrefl [simp]: "\<not> str_less s s"
  by (induction s) auto

lemma str_less_total: "\<not> str_less s t \<Longrightarrow> \<not> str_less t s \<Longrightarrow> s = t"
proof (induction s t rule: str_less.induct)
  case (3 c cs d ds)
  then have "code c = code d" by auto
  then have "c = d" by (simp add: code_inject)
  with 3 show ?case by auto
next
  case (1 s)
  then show ?case by (cases s) auto
qed simp

lemma str_less_asym: "str_less s t \<Longrightarrow> \<not> str_less t s"
  by (induction s t rule: str_less.induct) auto

lemma compareValues_strings: "compareValues h (JStr s) (JStr t) = 0 \<longleftrightarrow> s = t"
  using str_less_total [of s t] by (auto simp: compareValues_def compare_text_def sign_of_def)

lemma compareValues_numbers:
  "compareValues h (JNum (Finite x)) (JNum (Finite y)) = (if x = y then 0 else if x < y then -1 else 1)"
  by (auto simp: compareValues_def sign_of_def)

lemma compareValues_range: "compareValues h a b \<in> {-1, 0, 1}"
proof -
  have "sign_of p q \<in> {-1, 0, 1}" for p q by (simp add: sign_of_def)
  moreover have "\<exists>p q. compare_plain h a b = sign_of p q"
    by (cases "(h, a, b)" rule: compare_plain.cases) (auto simp: compare_text_def)
  ultimately have "compare_plain h a b \<in> {-1, 0, 1}" "\<And>s t. sign_of (s < t) (t < s) \<in> {-1, 0, 1}"
    for s :: int by metis+
  then show ?thesis unfolding compareValues_def by (auto split: option.splits)
qed

text \<open>Away from \<open>null\<close> and \<open>undefined\<close> the order is antisymmetric.\<close>

lemma strict_equal_sym: "strict_equal a b = strict_equal b a"
  by (cases a; cases b) auto

lemma num_less_asym: "num_less x y \<Longrightarrow> \<not> num_less y x"
  by (induction x y rule: num_less.induct) auto

lemma sign_of_swap: "\<not> (p \<and> q) \<Longrightarrow> sign_of q p = - sign_of p q"
  by (auto simp: sign_of_def)

lemma compareValues_antisym:
  assumes "\<not> is_nullish a" "\<not> is_nullish b"
  shows "compareValues h b a = - compareValues h a b"
proof (cases "strict_equal a b")
  case True
  then show ?thesis using strict_equal_sym by (simp add: compareValues_def)
next
  case False
  have t: "compare_text h b a = - compare_text h a b"
    unfolding compare_text_def using str_less_asym by (intro sign_of_swap) blast
  have n: "sign_of (num_less y x) (num_less x y) = - sign_of (num_less x y) (num_less y x)" for x y
    using num_less_asym by (intro sign_of_swap) blast
  have p: "compare_plain h b a = - compare_plain h a b"
  proof (cases "\<exists>x y. a = JNum x \<and> b = JNum y")
    case True
    then obtain x y where "a = JNum x" "b = JNum y" by blast
    with n [of y x] show ?thesis by simp
  next
    case False
    then have "compare_plain h a b = compare_text h a b" "compare_plain h b a = compare_text h b a"
      by (cases a; cases b; simp)+
    with t show ?thesis by simp
  qed
  show ?thesis
  proof (cases "date_time a = None \<or> date_time b = None")
    case True
    then show ?thesis
      using assms False strict_equal_sym [of b a] p
      by (auto simp: compareValues_def split: option.splits)
  next
    case False
    then obtain u v where "date_time a = Some u" "date_time b = Some v" by auto
    moreover have "sign_of (v < u) (u < v) = - sign_of (u < v) (v < u)" by (intro sign_of_swap) simp
    ultimately show ?thesis
      using assms \<open>\<not> strict_equal a b\<close> strict_equal_sym [of b a] by (simp add: compareValues_def)
  qed
qed

end
