(* ===== verification/FilterTree.thy ===== *)
theory FilterTree
  imports FilterEval
begin

text \<open>
  What \<open>parseODataQuery\<close> does with a parsed filter before a query is built from it:
  \<open>containsLambda\<close>, \<open>listLambdaPaths\<close>, \<open>validateLambdaExpressionTree\<close>,
  \<open>rewriteNegatedLambdas\<close> and \<open>splitLambdaExpressions\<close>, and the split of a predicate into
  the part the repository takes and the part left to the controller
  (\<open>splitParsedExpression\<close> of \<open>crud-controller-factory.ts\<close>). The theorems state what each
  keeps of the meaning \<open>evaluatePredicate\<close> gives to a filter.
\<close>

section \<open>Lambdas in a tree\<close>

fun containsLambda :: "parsed_expression \<Rightarrow> bool" where
  "containsLambda (Lambda k path a p) = True"
| "containsLambda (Logical t es) = list_ex containsLambda es"
| "containsLambda (Not e) = containsLambda e"
| "containsLambda _ = False"

fun listLambdaPaths :: "parsed_expression \<Rightarrow> string list" where
  "listLambdaPaths (Lambda k path a p) = join ''/'' path # listLambdaPaths p"
| "listLambdaPaths (Logical t es) = concat (map listLambdaPaths es)"
| "listLambdaPaths (Not e) = listLambdaPaths e"
| "listLambdaPaths _ = []"

lemma listLambdaPaths_contains: "containsLambda e \<longleftrightarrow> listLambdaPaths e \<noteq> []"
  by (induction e) (auto simp: list_ex_iff)

definition DEFAULT_MAX_LAMBDA_EXISTS_DEPTH :: nat where
  "DEFAULT_MAX_LAMBDA_EXISTS_DEPTH = 2"

text \<open>A numeric option with a default: absent, not finite or not positive values give the default.\<close>

definition readPositiveLimit :: "js_number option \<Rightarrow> nat \<Rightarrow> nat" where
  "readPositiveLimit value fallback =
     (case value of
        None \<Rightarrow> fallback
      | Some n \<Rightarrow> (case n of Finite x \<Rightarrow> if x \<le> 0 then fallback else nat \<lfloor>x\<rfloor> | _ \<Rightarrow> fallback))"

definition normalizeMaxLambdaDepth :: "js_number option \<Rightarrow> nat" where
  "normalizeMaxLambdaDepth configured = readPositiveLimit configured DEFAULT_MAX_LAMBDA_EXISTS_DEPTH"

section \<open>Validation of lambda expressions\<close>

definition LambdaAliasPrefixRequired :: string where
  "LambdaAliasPrefixRequired = ''lambda-alias-prefix-required''"

definition NestedLambdaDepthExceeded :: string where
  "NestedLambdaDepthExceeded = ''nested-lambda-depth-exceeded''"

definition LambdaOrUnsupported :: string where
  "LambdaOrUnsupported = ''lambda-or-unsupported''"

definition reject :: "string \<Rightarrow> 'a result" where
  "reject reason = Inl (LambdaRejected reason)"

definition assertAliasedField :: "string \<Rightarrow> string list \<Rightarrow> unit result" where
  "assertAliasedField field aliases =
     (if aliases = [] then Inr ()
      else let segments = split_on CHR ''/'' field
           in if hd segments = [] \<or> tl segments = [] \<or> hd segments \<notin> set aliases
              then reject LambdaAliasPrefixRequired else Inr ())"

text \<open>The first failing check throws.\<close>

fun for_each :: "('a \<Rightarrow> unit result) \<Rightarrow> 'a list \<Rightarrow> unit result" where
  "for_each f [] = Inr ()"
| "for_each f (x # xs) = rbind (f x) (\<lambda>_. for_each f xs)"

lemma for_each_cong [fundef_cong]:
  "xs = ys \<Longrightarrow> (\<And>x. x \<in> set ys \<Longrightarrow> f x = g x) \<Longrightarrow> for_each f xs = for_each g ys"
  by (induction ys arbitrary: xs) (auto intro: rbind_cong)

lemma for_each_ok: "for_each f xs = Inr u \<longleftrightarrow> (\<forall>x\<in>set xs. f x = Inr ())"
  by (induction xs) auto

definition check_arg :: "string list \<Rightarrow> function_arg \<Rightarrow> unit result" where
  "check_arg aliases arg = (case arg of ArgField name t \<Rightarrow> assertAliasedField name aliases | ArgLiteral v \<Rightarrow> Inr ())"

text \<open>\<open>visit\<close>, with the aliases in scope and the nesting of lambdas.\<close>

fun visit_lambda :: "nat \<Rightarrow> parsed_expression \<Rightarrow> string list \<Rightarrow> nat \<Rightarrow> unit result" where
  "visit_lambda maxDepth (Lambda k path a p) aliases depth =
     (if maxDepth < depth + 1 then reject NestedLambdaDepthExceeded
      else if aliases \<noteq> [] \<and> (path = [] \<or> hd path = [] \<or> hd path \<notin> set aliases \<or> length path < 2)
      then reject LambdaAliasPrefixRequired
      else visit_lambda maxDepth p (aliases @ [a]) (depth + 1))"
| "visit_lambda maxDepth (Logical t es) aliases depth =
     (if aliases \<noteq> [] \<and> t = Or \<and> list_ex containsLambda es then reject LambdaOrUnsupported
      else for_each (\<lambda>e. visit_lambda maxDepth e aliases depth) es)"
| "visit_lambda maxDepth (Not e) aliases depth = visit_lambda maxDepth e aliases depth"
| "visit_lambda maxDepth (Comparison f c v) aliases depth = assertAliasedField f aliases"
| "visit_lambda maxDepth (TransformCmp t f c v) aliases depth = assertAliasedField f aliases"
| "visit_lambda maxDepth (StringTest fn f vs ci t neg) aliases depth = assertAliasedField f aliases"
| "visit_lambda maxDepth (FnCmp fn f c x) aliases depth = assertAliasedField f aliases"
| "visit_lambda maxDepth (StringFnCmp fn args c v) aliases depth = for_each (check_arg aliases) args"
| "visit_lambda maxDepth (DatePart part f c x) aliases depth = assertAliasedField f aliases"
| "visit_lambda maxDepth (IndexOfCmp f c x needle) aliases depth = assertAliasedField f aliases"
| "visit_lambda maxDepth (SubstrCmp f start len c literal) aliases depth = assertAliasedField f aliases"
| "visit_lambda maxDepth (LengthCmp f c x) aliases depth = assertAliasedField f aliases"

definition validateLambdaExpressionTree :: "js_number option \<Rightarrow> parsed_expression \<Rightarrow> unit result" where
  "validateLambdaExpressionTree maxLambdaExistsDepth e =
     (if \<not> containsLambda e then Inr ()
      else visit_lambda (normalizeMaxLambdaDepth maxLambdaExistsDepth) e [] 0)"

section \<open>Negated lambdas\<close>

fun as_not :: "parsed_expression \<Rightarrow> parsed_expression option" where
  "as_not (Not e) = Some e"
| "as_not _ = None"

fun flip_lambda :: "lambda_type \<Rightarrow> lambda_type" where
  "flip_lambda AnyOf = AllOf"
| "flip_lambda AllOf = AnyOf"

text \<open>The last step of the \<open>not\<close> branch, for an inner expression that is no \<open>not\<close>.\<close>

fun negate_inner :: "parsed_expression \<Rightarrow> parsed_expression" where
  "negate_inner (Lambda k path a p) = Lambda (flip_lambda k) path a (Not p)"
| "negate_inner e = Not e"

function rewriteNegatedLambdas :: "parsed_expression \<Rightarrow> parsed_expression" where
  "rewriteNegatedLambdas (Logical t es) = Logical t (map rewriteNegatedLambdas es)"
| "rewriteNegatedLambdas (Not e) =
     (case as_not (rewriteNegatedLambdas e) of
        Some e' \<Rightarrow> rewriteNegatedLambdas e'
      | None \<Rightarrow> negate_inner (rewriteNegatedLambdas e))"
| "rewriteNegatedLambdas (Lambda k path a p) = Lambda k path a p"
| "rewriteNegatedLambdas (Comparison f c v) = Comparison f c v"
| "rewriteNegatedLambdas (StringTest fn f vs ci t neg) = StringTest fn f vs ci t neg"
| "rewriteNegatedLambdas (TransformCmp t f c w) = TransformCmp t f c w"
| "rewriteNegatedLambdas (FnCmp g f c x) = FnCmp g f c x"
| "rewriteNegatedLambdas (StringFnCmp sf args c l) = StringFnCmp sf args c l"
| "rewriteNegatedLambdas (DatePart d f c x) = DatePart d f c x"
| "rewriteNegatedLambdas (IndexOfCmp f c x n) = IndexOfCmp f c x n"
| "rewriteNegatedLambdas (SubstrCmp f x len c l) = SubstrCmp f x len c l"
| "rewriteNegatedLambdas (LengthCmp f c x) = LengthCmp f c x"
  by pat_completeness auto

lemma as_not_Some: "as_not e = Some e' \<longleftrightarrow> e = Not e'"
  by (cases e) auto

lemma size_negate_inner: "size (negate_inner e) \<le> size e + 1"
  by (cases e) simp_all

lemma rewrite_size:
  "rewriteNegatedLambdas_dom e \<Longrightarrow> size (rewriteNegatedLambdas e) \<le> size e"
proof (induction e rule: rewriteNegatedLambdas.pinduct)
  case (1 t es)
  have "size_list size (map rewriteNegatedLambdas es) \<le> size_list size es"
    using 1(2) by (induction es) fastforce+
  then show ?case using 1(1) by (simp add: rewriteNegatedLambdas.psimps)
next
  case (2 e)
  show ?case
  proof (cases "as_not (rewriteNegatedLambdas e)")
    case None
    with 2 show ?thesis
      using size_negate_inner [of "rewriteNegatedLambdas e"] by (simp add: rewriteNegatedLambdas.psimps)
  next
    case (Some e')
    then have "size e' < size (rewriteNegatedLambdas e)" by (simp add: as_not_Some)
    with 2 Some show ?thesis by (fastforce simp: rewriteNegatedLambdas.psimps)
  qed
qed (simp_all add: rewriteNegatedLambdas.psimps)

termination rewriteNegatedLambdas
proof (relation "measure size")
  fix t :: logical_type and es and e :: parsed_expression
  assume "e \<in> set es"
  then show "(e, Logical t es) \<in> measure size"
    by (simp add: size_list_estimation' less_Suc_eq_le)
next
  fix e e'
  assume "rewriteNegatedLambdas_dom e" "as_not (rewriteNegatedLambdas e) = Some e'"
  then show "(e', Not e) \<in> measure size"
    using rewrite_size [of e] by (simp add: as_not_Some)
qed simp_all

section \<open>Splitting off the lambdas\<close>

fun collectAndTerms :: "parsed_expression \<Rightarrow> parsed_expression list" where
  "collectAndTerms (Logical t es) =
     (case t of And \<Rightarrow> concat (map collectAndTerms es) | Or \<Rightarrow> [Logical t es])"
| "collectAndTerms e = [e]"

record lambda_split =
  lambdas :: "lambda_expression list"
  predicate_part :: "parsed_expression option"
  lambdaExpression :: "parsed_expression option"

definition no_split :: lambda_split where
  "no_split = \<lparr>lambdas = [], predicate_part = None, lambdaExpression = None\<rparr>"

definition mk_lambda :: "lambda_type \<Rightarrow> string list \<Rightarrow> string \<Rightarrow> parsed_expression \<Rightarrow> lambda_expression" where
  "mk_lambda k path a p = \<lparr>lambdaType = k, lambdaPath = path, lambdaAlias = a, lambdaPredicate = p\<rparr>"

definition negated_lambda_message :: string where
  "negated_lambda_message = ''Negated lambda expressions are only supported as '' @ [CHR 34] @ ''not <collection>/any(...)''
     @ [CHR 34] @ '' or '' @ [CHR 34] @ ''not <collection>/all(...)'' @ [CHR 34] @ ''.''"

text \<open>
  The loop over the terms of a conjunction: lambdas and other terms so far. \<open>None\<close> is the
  early return of the whole expression as \<open>lambdaExpression\<close>.
\<close>

fun split_terms ::
  "parsed_expression list \<Rightarrow> lambda_expression list \<Rightarrow> parsed_expression list \<Rightarrow>
   (lambda_expression list \<times> parsed_expression list) option result" where
  "split_terms [] ls others = Inr (Some (ls, others))"
| "split_terms (Lambda k path a p # es) ls others = split_terms es (ls @ [mk_lambda k path a p]) others"
| "split_terms (e # es) ls others =
     (if containsLambda e
      then (case as_not e of
          Some _ \<Rightarrow> throw negated_lambda_message
        | None \<Rightarrow> Inr None)
      else split_terms es ls (others @ [e]))"

definition join_terms :: "parsed_expression list \<Rightarrow> parsed_expression option" where
  "join_terms es = (case es of [] \<Rightarrow> None | [e] \<Rightarrow> Some e | _ \<Rightarrow> Some (Logical And es))"

fun splitLambdaExpressions :: "parsed_expression \<Rightarrow> lambda_split result" where
  "splitLambdaExpressions (Lambda k path a p) = Inr (no_split\<lparr>lambdas := [mk_lambda k path a p]\<rparr>)"
| "splitLambdaExpressions (Logical t es) =
     (case t of
        Or \<Rightarrow> if containsLambda (Logical t es) then Inr (no_split\<lparr>lambdaExpression := Some (Logical t es)\<rparr>)
              else Inr (no_split\<lparr>predicate_part := Some (Logical t es)\<rparr>)
      | And \<Rightarrow>
          rbind (split_terms (collectAndTerms (Logical t es)) [] []) (\<lambda>r. case r of
              None \<Rightarrow> Inr (no_split\<lparr>lambdaExpression := Some (Logical t es)\<rparr>)
            | Some (ls, others) \<Rightarrow> Inr (no_split\<lparr>lambdas := ls, predicate_part := join_terms others\<rparr>)))"
| "splitLambdaExpressions (Not e) =
     (if containsLambda e
      then throw negated_lambda_message
      else Inr (no_split\<lparr>predicate_part := Some (Not e)\<rparr>))"
| "splitLambdaExpressions e = Inr (no_split\<lparr>predicate_part := Some e\<rparr>)"

section \<open>Rewriting keeps the meaning\<close>

lemma flip_flip [simp]: "flip_lambda (flip_lambda k) = k"
  by (cases k) auto

lemma evaluate_negate_inner:
  "lambdas_wf e \<Longrightarrow> evaluatePredicate h (negate_inner e) c al rt b = (\<not> evaluatePredicate h e c al rt b)"
proof (cases e)
  case (Lambda k path a p)
  then show "lambdas_wf e \<Longrightarrow> ?thesis"
    by (cases k) (auto simp: Let_def list_all_iff list_ex_iff)
qed simp_all

lemma lambdas_wf_negate_inner [simp]: "lambdas_wf (negate_inner e) = lambdas_wf e"
  by (cases e) simp_all

lemma rewrite_wf: "lambdas_wf e \<Longrightarrow> lambdas_wf (rewriteNegatedLambdas e)"
proof (induction e rule: rewriteNegatedLambdas.induct)
  case (1 t es)
  then show ?case by (simp add: list_all_iff)
next
  case (2 e)
  then show ?case by (auto simp: as_not_Some split: option.splits)
qed simp_all

lemma rewrite_meaning:
  "lambdas_wf e \<Longrightarrow>
   evaluatePredicate h (rewriteNegatedLambdas e) c al rt b = evaluatePredicate h e c al rt b"
proof (induction e rule: rewriteNegatedLambdas.induct)
  case (1 t es)
  then show ?case by (cases t) (auto simp: list_all_iff list_ex_iff)
next
  case (2 e)
  then have e: "evaluatePredicate h (rewriteNegatedLambdas e) c al rt b = evaluatePredicate h e c al rt b"
    by (auto simp del: evaluatePredicate.simps)
  have wf: "lambdas_wf (rewriteNegatedLambdas e)" using "2.prems" rewrite_wf by simp
  show ?case
  proof (cases "as_not (rewriteNegatedLambdas e)")
    case None
    with e evaluate_negate_inner [OF wf] show ?thesis by simp
  next
    case (Some e')
    then have r: "rewriteNegatedLambdas e = Not e'" by (simp add: as_not_Some)
    with wf have "lambdas_wf e'" by simp
    from "2.IH"(3) [OF Some this] Some e r show ?thesis by auto
  qed
qed simp_all

text \<open>After the rewriting no \<open>not\<close> stands before a \<open>not\<close> or a lambda.\<close>

fun negation_normal :: "parsed_expression \<Rightarrow> bool" where
  "negation_normal (Logical t es) = list_all negation_normal es"
| "negation_normal (Not e) = (negation_normal e \<and>
     (case e of Not _ \<Rightarrow> False | Lambda _ _ _ _ \<Rightarrow> False | _ \<Rightarrow> True))"
| "negation_normal _ = True"

lemma negation_normal_negate_inner:
  "negation_normal e \<Longrightarrow> as_not e = None \<Longrightarrow> negation_normal (negate_inner e)"
  by (cases e) auto

lemma rewrite_normal: "negation_normal (rewriteNegatedLambdas e)"
proof (induction e rule: rewriteNegatedLambdas.induct)
  case (1 t es)
  then show ?case by (simp add: list_all_iff)
next
  case (2 e)
  then show ?case
    by (auto simp: negation_normal_negate_inner simp del: negation_normal.simps split: option.splits)
qed simp_all

lemma rewrite_normal_id: "negation_normal e \<Longrightarrow> rewriteNegatedLambdas e = e"
proof (induction e rule: rewriteNegatedLambdas.induct)
  case (1 t es)
  then show ?case by (simp add: list_all_iff map_idI)
next
  case (2 e)
  then have "rewriteNegatedLambdas e = e" by simp
  then show ?case using "2.prems"
    by (cases e) (simp_all del: rewriteNegatedLambdas.simps add: rewriteNegatedLambdas.simps(2))
qed simp_all

section \<open>The split keeps the meaning\<close>

abbreviation holds_for :: "js_host \<Rightarrow> js_value \<Rightarrow> parsed_expression \<Rightarrow> bool" where
  "holds_for h entity e \<equiv> evaluatePredicate h e entity [] entity Map.empty"

definition split_holds :: "js_host \<Rightarrow> js_value \<Rightarrow> lambda_split \<Rightarrow> bool" where
  "split_holds h entity s \<longleftrightarrow> list_all (evaluateLambda h entity) (lambdas s)
     \<and> (case predicate_part s of None \<Rightarrow> True | Some e \<Rightarrow> holds_for h entity e)
     \<and> (case lambdaExpression s of None \<Rightarrow> True | Some e \<Rightarrow> holds_for h entity e)"

lemma evaluateLambda_predicate:
  "path \<noteq> [] \<Longrightarrow> a \<noteq> [] \<Longrightarrow>
   evaluateLambda h entity (mk_lambda k path a p) = holds_for h entity (Lambda k path a p)"
  by (simp add: evaluateLambda_def mk_lambda_def lambda_items_def bound_to_def Let_def split: lambda_type.splits)

lemma collectAndTerms_meaning:
  "list_all (holds_for h entity) (collectAndTerms e) = holds_for h entity e"
proof (induction e rule: collectAndTerms.induct)
  case (1 t es)
  then show ?case by (cases t) (auto simp: list_all_iff)
qed simp_all

lemma collectAndTerms_wf: "lambdas_wf e \<Longrightarrow> list_all lambdas_wf (collectAndTerms e)"
proof (induction e rule: collectAndTerms.induct)
  case (1 t es)
  then show ?case by (cases t) (auto simp: list_all_iff)
qed simp_all

lemma join_terms_meaning:
  "(case join_terms es of None \<Rightarrow> True | Some e \<Rightarrow> holds_for h entity e) = list_all (holds_for h entity) es"
  by (auto simp: join_terms_def split: list.splits)

lemma split_terms_meaning:
  "split_terms es ls others = Inr (Some (ls', others')) \<Longrightarrow> list_all lambdas_wf es \<Longrightarrow>
   list_all (evaluateLambda h entity) ls' \<and> list_all (holds_for h entity) others' \<longleftrightarrow>
   list_all (evaluateLambda h entity) ls \<and> list_all (holds_for h entity) others \<and> list_all (holds_for h entity) es"
proof (induction es ls others rule: split_terms.induct)
  case (2 k path a p es ls others)
  then show ?case using evaluateLambda_predicate [of path a h entity k p] by auto
qed (auto split: if_splits option.splits)

lemma split_meaning:
  assumes "splitLambdaExpressions e = Inr s" "lambdas_wf e"
  shows "split_holds h entity s = holds_for h entity e"
proof (cases e)
  case (Logical t es)
  show ?thesis
  proof (cases t)
    case And
    obtain r where r: "split_terms (collectAndTerms e) [] [] = Inr r"
      using assms(1) Logical And by auto
    show ?thesis
    proof (cases r)
      case None
      with assms(1) r Logical And show ?thesis by (auto simp: split_holds_def no_split_def)
    next
      case (Some lo)
      obtain ls others where lo: "lo = (ls, others)" by (cases lo)
      have "list_all (evaluateLambda h entity) ls \<and> list_all (holds_for h entity) others \<longleftrightarrow> holds_for h entity e"
        using split_terms_meaning [of "collectAndTerms e" "[]" "[]" ls others h entity] r Some lo
          collectAndTerms_meaning [of h entity e] collectAndTerms_wf [OF assms(2)] by simp
      moreover have "s = no_split\<lparr>lambdas := ls, predicate_part := join_terms others\<rparr>"
        using assms(1) r Some lo Logical And by auto
      ultimately show ?thesis
        using join_terms_meaning [where es = others and h = h and entity = entity] by (simp add: split_holds_def no_split_def)
    qed
  next
    case Or
    with assms Logical show ?thesis by (auto simp: split_holds_def no_split_def split: if_splits)
  qed
next
  case (Lambda k path a p)
  with assms show ?thesis
    using evaluateLambda_predicate [of path a h entity k p] by (auto simp: split_holds_def no_split_def)
qed (use assms in \<open>auto simp: split_holds_def no_split_def simp del: evaluate_atom.simps split: if_splits\<close>)

text \<open>What the split leaves to the query builder holds no lambda.\<close>

lemma split_terms_lambda_free:
  "split_terms es ls others = Inr (Some (ls', others')) \<Longrightarrow> \<not> list_ex containsLambda others \<Longrightarrow>
   \<not> list_ex containsLambda others'"
  by (induction es ls others rule: split_terms.induct) (auto split: if_splits option.splits)

lemma split_lambda_free:
  assumes "splitLambdaExpressions e = Inr s" "predicate_part s = Some p"
  shows "\<not> containsLambda p"
proof (cases e)
  case (Logical t es)
  show ?thesis
  proof (cases t)
    case And
    then obtain ls others where "split_terms (collectAndTerms e) [] [] = Inr (Some (ls, others))"
      "join_terms others = Some p"
      using assms Logical by (auto simp: no_split_def split: option.splits)
    then show ?thesis
      using split_terms_lambda_free [of "collectAndTerms e" "[]" "[]" ls others]
      by (auto simp: join_terms_def split: list.splits)
  next
    case Or
    with assms Logical show ?thesis by (auto simp: no_split_def split: if_splits)
  qed
qed (use assms in \<open>auto simp: no_split_def split: if_splits\<close>)

section \<open>What validation guarantees\<close>

text \<open>The nesting of lambdas, and the fields a predicate reads outside nested lambdas.\<close>

fun lambda_depth :: "parsed_expression \<Rightarrow> nat" where
  "lambda_depth (Lambda k path a p) = Suc (lambda_depth p)"
| "lambda_depth (Logical t es) = Max (set (0 # map lambda_depth es))"
| "lambda_depth (Not e) = lambda_depth e"
| "lambda_depth _ = 0"

fun arg_fields :: "function_arg list \<Rightarrow> string list" where
  "arg_fields [] = []"
| "arg_fields (ArgField f t # as) = f # arg_fields as"
| "arg_fields (ArgLiteral v # as) = arg_fields as"

fun expression_fields :: "parsed_expression \<Rightarrow> string list" where
  "expression_fields (Logical t es) = concat (map expression_fields es)"
| "expression_fields (Not e) = expression_fields e"
| "expression_fields (Lambda k path a p) = []"
| "expression_fields (StringFnCmp fn args c v) = arg_fields args"
| "expression_fields (Comparison f c v) = [f]"
| "expression_fields (TransformCmp t f c v) = [f]"
| "expression_fields (StringTest fn f vs ci t neg) = [f]"
| "expression_fields (FnCmp fn f c x) = [f]"
| "expression_fields (DatePart part f c x) = [f]"
| "expression_fields (IndexOfCmp f c x needle) = [f]"
| "expression_fields (SubstrCmp f start len c literal) = [f]"
| "expression_fields (LengthCmp f c x) = [f]"

lemma reject_simps [simp]: "reject m \<noteq> Inr x"
  by (simp add: reject_def)

text \<open>A lambda that passes is not nested deeper than the limit.\<close>

lemma visit_depth:
  "visit_lambda maxDepth e aliases depth = Inr u \<Longrightarrow> lambda_depth e = 0 \<or> lambda_depth e + depth \<le> maxDepth"
proof (induction maxDepth e aliases depth arbitrary: u rule: visit_lambda.induct)
  case (1 maxDepth k path a p aliases depth)
  then show ?case by (auto split: if_splits)
next
  case (2 maxDepth t es aliases depth)
  have ok: "visit_lambda maxDepth e aliases depth = Inr ()" if "e \<in> set es" for e
    using 2(2) that by (auto simp: for_each_ok split: if_splits)
  have "\<not> (aliases \<noteq> [] \<and> t = Or \<and> list_ex containsLambda es)"
    using 2(2) by auto
  then have "lambda_depth e = 0 \<or> lambda_depth e + depth \<le> maxDepth" if "e \<in> set es" for e
    using 2(1) [OF _ that ok [OF that]] by simp
  then have "\<forall>n \<in> set (0 # map lambda_depth es). n = 0 \<or> n + depth \<le> maxDepth" by auto
  moreover have "Max (set (0 # map lambda_depth es)) \<in> set (0 # map lambda_depth es)"
    by (rule Max_in) auto
  ultimately show ?case unfolding lambda_depth.simps by blast
qed simp_all

definition scoped_field :: "string list \<Rightarrow> string \<Rightarrow> bool" where
  "scoped_field aliases f \<longleftrightarrow> (\<exists>a \<in> set aliases. \<exists>rest. split_on CHR ''/'' f = a # rest \<and> a \<noteq> [] \<and> rest \<noteq> [])"

lemma assertAliasedField_scoped:
  "aliases \<noteq> [] \<Longrightarrow> assertAliasedField f aliases = Inr u \<longleftrightarrow> scoped_field aliases f"
  unfolding assertAliasedField_def scoped_field_def
  by (cases "split_on CHR ''/'' f") (auto simp: Let_def)

lemma check_args_scoped:
  "aliases \<noteq> [] \<Longrightarrow> for_each (check_arg aliases) args = Inr u \<Longrightarrow> \<forall>f \<in> set (arg_fields args). scoped_field aliases f"
  by (induction args rule: arg_fields.induct) (auto simp: check_arg_def assertAliasedField_scoped)

lemma visit_scoped:
  "visit_lambda maxDepth e aliases depth = Inr u \<Longrightarrow> aliases \<noteq> [] \<Longrightarrow>
   \<forall>f \<in> set (expression_fields e). scoped_field aliases f"
proof (induction maxDepth e aliases depth arbitrary: u rule: visit_lambda.induct)
  case (2 maxDepth t es aliases depth)
  then have n: "\<not> (aliases \<noteq> [] \<and> t = Or \<and> list_ex containsLambda es)"
    and ok: "\<forall>e\<in>set es. visit_lambda maxDepth e aliases depth = Inr ()"
    by (auto simp: for_each_ok split: if_splits)
  with 2 show ?case by (auto simp del: visit_lambda.simps)
qed (auto simp: assertAliasedField_scoped dest: check_args_scoped)

text \<open>
  So the predicate of a validated lambda reads the item, and nothing of the entity: two
  entities with equal items give the same answer.
\<close>

lemma scoped_value:
  "scoped_field [a] f \<Longrightarrow> resolvePredicateValue f item a rt b = resolvePredicateValue f item a rt' b"
  by (auto simp: scoped_field_def resolvePredicateValue_def Let_def split: option.splits)

lemma scoped_arg:
  "\<forall>f \<in> set (arg_fields args). scoped_field [a] f \<Longrightarrow> x \<in> set args \<Longrightarrow>
   resolveFunctionArgValue h x item a rt b = resolveFunctionArgValue h x item a rt' b"
  by (induction args rule: arg_fields.induct) (auto simp: scoped_value [of a _ item rt b rt'])

lemma scoped_string_function:
  assumes "\<forall>f \<in> set (arg_fields args). scoped_field [a] f" "args \<noteq> []"
  shows "evaluateStringFunction h fn args item a rt b = evaluateStringFunction h fn args item a rt' b"
proof -
  have eq: "resolveFunctionArgValue h x item a rt b = resolveFunctionArgValue h x item a rt' b"
    if "x \<in> set args" for x using scoped_arg [OF assms(1) that] .
  then have "map (\<lambda>x. if is_nullish (resolveFunctionArgValue h x item a rt b) then []
      else js_String h (resolveFunctionArgValue h x item a rt b)) args
    = map (\<lambda>x. if is_nullish (resolveFunctionArgValue h x item a rt' b) then []
      else js_String h (resolveFunctionArgValue h x item a rt' b)) args" by simp
  with eq [of "hd args"] assms(2) show ?thesis
    by (cases fn) (simp_all add: evaluateStringFunction_def Let_def del: map_eq_conv)
qed

fun args_present :: "parsed_expression \<Rightarrow> bool" where
  "args_present (StringFnCmp fn args c v) = (args \<noteq> [])"
| "args_present (Logical t es) = list_all args_present es"
| "args_present (Not e) = args_present e"
| "args_present (Lambda k path a p) = args_present p"
| "args_present _ = True"

lemma scoped_isolated:
  assumes "\<forall>f \<in> set (expression_fields p). scoped_field [a] f" "\<not> containsLambda p" "args_present p"
  shows "evaluatePredicate h p item a rt b = evaluatePredicate h p item a rt' b"
  using assms
proof (induction p)
  case (Logical t es)
  have "evaluatePredicate h e item a rt b = evaluatePredicate h e item a rt' b"
    if e: "e \<in> set es" for e
  proof (rule Logical.IH [OF e])
    show "\<forall>f \<in> set (expression_fields e). scoped_field [a] f" "\<not> containsLambda e" "args_present e"
      using e Logical.prems by (auto simp: list_all_iff list_ex_iff)
  qed
  then show ?case by (cases t) (auto simp: list_all_iff list_ex_iff)
next
  case (StringFnCmp fn args c v)
  then show ?case using scoped_string_function [of args a h fn item rt b rt'] by simp
qed (auto simp: scoped_value [of a _ item rt b rt'])

section \<open>The part of a predicate the repository takes\<close>

text \<open>\<open>combineParsedExpressions\<close>, \<open>extractExpressionFields\<close> and \<open>splitParsedExpression\<close>; \<open>structured\<close> is the test \<open>isStructuredFieldPath\<close>.\<close>

definition combineParsedExpressions :: "logical_type \<Rightarrow> parsed_expression list \<Rightarrow> parsed_expression option" where
  "combineParsedExpressions t es = (case es of [] \<Rightarrow> None | [e] \<Rightarrow> Some e | _ \<Rightarrow> Some (Logical t es))"

fun extractExpressionFields :: "parsed_expression \<Rightarrow> string list" where
  "extractExpressionFields (StringTest fn f vs ci t neg) = [f]"
| "extractExpressionFields (FnCmp fn f c x) = [f]"
| "extractExpressionFields (DatePart part f c x) = [f]"
| "extractExpressionFields (IndexOfCmp f c x needle) = [f]"
| "extractExpressionFields (SubstrCmp f start len c literal) = [f]"
| "extractExpressionFields (LengthCmp f c x) = [f]"
| "extractExpressionFields (TransformCmp t f c v) = [f]"
| "extractExpressionFields (StringFnCmp fn args c v) = arg_fields args"
| "extractExpressionFields _ = []"

type_synonym expr_split = "parsed_expression option \<times> parsed_expression option"

definition present :: "'a option list \<Rightarrow> 'a list" where
  "present xs = concat (map (\<lambda>x. case x of None \<Rightarrow> [] | Some y \<Rightarrow> [y]) xs)"

definition split_field :: "(string \<Rightarrow> bool) \<Rightarrow> string \<Rightarrow> parsed_expression \<Rightarrow> expr_split" where
  "split_field structured f e = (if structured f then (None, Some e) else (Some e, None))"

fun splitParsedExpression :: "(string \<Rightarrow> bool) \<Rightarrow> parsed_expression \<Rightarrow> expr_split" where
  "splitParsedExpression structured (Comparison f c v) = split_field structured f (Comparison f c v)"
| "splitParsedExpression structured (TransformCmp t f c v) = split_field structured f (TransformCmp t f c v)"
| "splitParsedExpression structured (StringTest fn f vs ci t neg) =
     (if t \<noteq> None then (None, Some (StringTest fn f vs ci t neg))
      else split_field structured f (StringTest fn f vs ci t neg))"
| "splitParsedExpression structured (Logical t es) =
     (let splits = map (splitParsedExpression structured) es
      in case t of
          And \<Rightarrow> (combineParsedExpressions And (present (map fst splits)),
                  combineParsedExpressions And (present (map snd splits)))
        | Or \<Rightarrow>
            if list_all (\<lambda>(repo, struc). struc = None \<and> repo \<noteq> None) splits
            then (combineParsedExpressions Or (present (map fst splits)), None)
            else (None, Some (Logical t es)))"
| "splitParsedExpression structured (Not e) =
     (case splitParsedExpression structured e of
        (Some repo, None) \<Rightarrow> (Some (Not repo), None)
      | _ \<Rightarrow> (None, Some (Not e)))"
| "splitParsedExpression structured e =
     (if list_ex structured (extractExpressionFields e) then (None, Some e) else (Some e, None))"

lemma present_simps [simp]:
  "present [] = []" "present (None # xs) = present xs" "present (Some y # xs) = y # present xs"
  by (simp_all add: present_def)

lemma present_all_Some: "list_all (\<lambda>x. x \<noteq> None) xs \<Longrightarrow> map Some (present xs) = xs"
  by (induction xs) auto

lemma combine_and:
  "(case combineParsedExpressions And es of None \<Rightarrow> True | Some e \<Rightarrow> evaluatePredicate h e c al rt b)
     = list_all (\<lambda>e. evaluatePredicate h e c al rt b) es"
  by (auto simp: combineParsedExpressions_def split: list.splits)

lemma combine_or:
  "es \<noteq> [] \<Longrightarrow> \<exists>e. combineParsedExpressions Or es = Some e \<and>
     evaluatePredicate h e c al rt b = list_ex (\<lambda>e. evaluatePredicate h e c al rt b) es"
  by (auto simp: combineParsedExpressions_def split: list.splits)

definition part_holds ::
  "js_host \<Rightarrow> parsed_expression option \<Rightarrow> js_value \<Rightarrow> string \<Rightarrow> js_value \<Rightarrow> bindings \<Rightarrow> bool" where
  "part_holds h part c al rt b = (case part of None \<Rightarrow> True | Some e \<Rightarrow> evaluatePredicate h e c al rt b)"

fun no_empty_or :: "parsed_expression \<Rightarrow> bool" where
  "no_empty_or (Logical t es) = (es \<noteq> [] \<and> list_all no_empty_or es)"
| "no_empty_or (Not e) = no_empty_or e"
| "no_empty_or _ = True"

lemma present_parts:
  "list_all (\<lambda>e. evaluatePredicate h e c al rt b) (present xs) = list_all (\<lambda>x. part_holds h x c al rt b) xs"
  by (induction xs) (auto simp: present_def part_holds_def split: option.splits)

lemma splitParsedExpression_meaning:
  "no_empty_or e \<Longrightarrow> splitParsedExpression structured e = (repo, struc) \<Longrightarrow>
   part_holds h repo c al rt b \<and> part_holds h struc c al rt b \<longleftrightarrow> evaluatePredicate h e c al rt b"
proof (induction e arbitrary: repo struc)
  case (Logical t es)
  let ?split = "splitParsedExpression structured"
  have child: "part_holds h (fst (?split e)) c al rt b \<and> part_holds h (snd (?split e)) c al rt b
      \<longleftrightarrow> evaluatePredicate h e c al rt b" if "e \<in> set es" for e
    using Logical.IH [OF that, of "fst (?split e)" "snd (?split e)"] Logical.prems(1) that
    by (simp add: list_all_iff)
  show ?case
  proof (cases t)
    case And
    have "part_holds h repo c al rt b = list_all (\<lambda>x. part_holds h x c al rt b) (map (fst \<circ> ?split) es)"
      "part_holds h struc c al rt b = list_all (\<lambda>x. part_holds h x c al rt b) (map (snd \<circ> ?split) es)"
      using Logical.prems(2) And combine_and present_parts unfolding part_holds_def by (auto simp: Let_def)
    then show ?thesis using child And by (auto simp: list_all_iff)
  next
    case Or
    show ?thesis
    proof (cases "list_all (\<lambda>(repo, struc). struc = None \<and> repo \<noteq> None) (map ?split es)")
      case True
      let ?rs = "present (map (fst \<circ> ?split) es)"
      have some: "list_all (\<lambda>x. x \<noteq> None) (map (fst \<circ> ?split) es)"
        using True by (auto simp: list_all_iff split_beta)
      then have rs: "map Some ?rs = map (fst \<circ> ?split) es" by (rule present_all_Some)
      then have ne: "?rs \<noteq> []" using Logical.prems(1) by auto
      have "list_ex (\<lambda>e. evaluatePredicate h e c al rt b) ?rs
          = list_ex (\<lambda>x. part_holds h x c al rt b) (map Some ?rs)"
        by (simp add: list_ex_iff part_holds_def)
      also have "\<dots> = list_ex (\<lambda>e. evaluatePredicate h e c al rt b) es"
        using child True unfolding rs
        by (auto simp: list_ex_iff list_all_iff part_holds_def split_beta)
      finally show ?thesis
        using combine_or [OF ne, of h c al rt b] Logical.prems(2) Or True
        by (auto simp: Let_def part_holds_def)
    next
      case False
      with Logical.prems(2) Or show ?thesis by (auto simp: Let_def part_holds_def)
    qed
  qed
next
  case (Not e)
  obtain r s where rs: "splitParsedExpression structured e = (r, s)" by (cases "splitParsedExpression structured e")
  with Not.IH [OF _ rs] Not.prems show ?case
    by (auto simp: part_holds_def split: option.splits)
qed (auto simp: split_field_def part_holds_def simp del: evaluate_atom.simps split: if_splits)

text \<open>The repository never sees a structured field, nor a string test on a transformed field.\<close>

fun plain_for_repository :: "(string \<Rightarrow> bool) \<Rightarrow> parsed_expression \<Rightarrow> bool" where
  "plain_for_repository structured (Logical t es) = list_all (plain_for_repository structured) es"
| "plain_for_repository structured (Not e) = plain_for_repository structured e"
| "plain_for_repository structured (StringTest fn f vs ci t neg) = (t = None \<and> \<not> structured f)"
| "plain_for_repository structured e = (\<not> list_ex structured (expression_fields e))"

lemma plain_combine:
  "list_all (plain_for_repository structured) es \<Longrightarrow> combineParsedExpressions t es = Some e \<Longrightarrow>
   plain_for_repository structured e"
  by (auto simp: combineParsedExpressions_def split: list.splits)

lemma splitParsedExpression_plain:
  "splitParsedExpression structured e = (Some repo, struc) \<Longrightarrow> plain_for_repository structured repo"
proof (induction e arbitrary: repo struc)
  case (Logical t es)
  let ?split = "splitParsedExpression structured"
  have "plain_for_repository structured r" if "e \<in> set es" "fst (?split e) = Some r" for e r
    using Logical.IH [OF that(1), of r "snd (?split e)"] that(2) by (simp add: prod_eq_iff)
  then have "list_all (plain_for_repository structured) (present (map (fst \<circ> ?split) es))"
    by (auto simp: list_all_iff present_def split: option.splits)
  then show ?case
    using Logical.prems plain_combine [of structured "present (map (fst \<circ> ?split) es)"]
    by (cases t) (auto simp: Let_def split: if_splits)
next
  case (Not e)
  then show ?case by (auto split: prod.splits option.splits)
qed (auto simp: split_field_def split: if_splits)

end
