(* ===== verification/WhereBuilder.thy ===== *)
theory WhereBuilder
  imports FilterTree
begin

text \<open>
  \<open>buildWhere\<close> of \<open>odata-query-parser.service.ts\<close>: the translation of a filter without lambdas
  to a LoopBack \<open>Where\<close> object, with the limits and checks on field names and patterns, the
  push of \<open>not\<close> through the logical operators, the ranges for \<open>floor\<close>, \<open>ceiling\<close>, \<open>round\<close>
  and \<open>year\<close>, and the \<open>LIKE\<close> patterns of the string functions. The second half gives
  \<open>Where\<close> objects a reference meaning and shows where the translation has the
  meaning of the filter.
\<close>

section \<open>Where objects\<close>

text \<open>
  The value of a field in a \<open>Where\<close>: \<open>{field: value}\<close> or \<open>{field: {op: value, ...}}\<close>.
\<close>

datatype where_cond = Value js_value | Ops "(string \<times> js_value) list"

datatype where_clause =
    WField string where_cond
  | WAnd "where_clause list"
  | WOr "where_clause list"
  | WNot where_clause

definition op :: "string \<Rightarrow> string \<Rightarrow> js_value \<Rightarrow> where_clause" where
  "op field name v = WField field (Ops [(name, v)])"

fun comparator_name :: "comparator \<Rightarrow> string" where
  "comparator_name Eq = ''eq''" | "comparator_name Neq = ''neq''" | "comparator_name Gt = ''gt''"
| "comparator_name Gte = ''gte''" | "comparator_name Lt = ''lt''" | "comparator_name Lte = ''lte''"
| "comparator_name Inq = ''inq''" | "comparator_name Nin = ''nin''"

section \<open>Options and limits\<close>

record parse_options =
  strict :: bool
  maxFilterPatternLength :: "js_number option"
  maxSubstringStart :: "js_number option"
  maxSubstringLength :: "js_number option"
  maxFilterFieldNameLength :: "js_number option"
  maxLambdaExistsDepth :: "js_number option"
  maxInListItems :: "js_number option"

definition default_options :: parse_options where
  "default_options = \<lparr>strict = False, maxFilterPatternLength = None, maxSubstringStart = None,
     maxSubstringLength = None, maxFilterFieldNameLength = None, maxLambdaExistsDepth = None,
     maxInListItems = None\<rparr>"

definition pattern_limit :: "parse_options \<Rightarrow> nat" where
  "pattern_limit opts = readPositiveLimit (maxFilterPatternLength opts) 10000"

definition start_limit :: "parse_options \<Rightarrow> nat" where
  "start_limit opts = readPositiveLimit (maxSubstringStart opts) 10000"

definition substring_limit :: "parse_options \<Rightarrow> nat" where
  "substring_limit opts = readPositiveLimit (maxSubstringLength opts) 10000"

definition field_name_limit :: "parse_options \<Rightarrow> nat" where
  "field_name_limit opts = readPositiveLimit (maxFilterFieldNameLength opts) 256"

definition in_list_limit :: "parse_options \<Rightarrow> nat" where
  "in_list_limit opts = readPositiveLimit (maxInListItems opts) 100"

definition DANGEROUS_FIELD_NAMES :: "string list" where
  "DANGEROUS_FIELD_NAMES = [''__proto__'', ''prototype'', ''constructor'']"

text \<open>\<open>/^[_A-Za-z][0-9A-Za-z_./]*$/\<close>.\<close>

definition field_name_pattern :: "string \<Rightarrow> bool" where
  "field_name_pattern s \<longleftrightarrow> s \<noteq> [] \<and> ident_start (hd s)
     \<and> list_all (\<lambda>c. ident_char c \<or> c = CHR ''.'' \<or> c = CHR ''/'') s"

definition assertSafeFilterFieldName :: "parse_options \<Rightarrow> string \<Rightarrow> unit result" where
  "assertSafeFilterFieldName opts field =
     (if field = [] then throw ''Filter field name is required.''
      else if field_name_limit opts < length field
      then throw (''Filter field name exceeds maximum length of '' @ show_nat (field_name_limit opts) @ ''.'')
      else if lower field \<in> set DANGEROUS_FIELD_NAMES then throw ''Filter field name is not allowed.''
      else if \<not> field_name_pattern field then throw ''Filter field name contains unsupported characters.''
      else Inr ())"

definition is_index :: "rat \<Rightarrow> bool" where
  "is_index x \<longleftrightarrow> 0 \<le> x \<and> is_integer x"

definition underscorePattern :: "parse_options \<Rightarrow> rat \<Rightarrow> string result" where
  "underscorePattern opts len =
     (if \<not> is_index len then throw ''Filter pattern length must be a non-negative integer.''
      else if rat_of_nat (pattern_limit opts) < len
      then throw (''Filter pattern length exceeds maximum of '' @ show_nat (pattern_limit opts) @ ''.'')
      else Inr (replicate (nat \<lfloor>len\<rfloor>) CHR ''_''))"

text \<open>\<open>escapeLikeLiteral\<close> of \<open>util/like-escaping.ts\<close>: the backslashes first, then the wildcards.\<close>

definition backslash :: char where
  "backslash = CHR 92"

definition escapeLikeLiteral :: "string \<Rightarrow> string" where
  "escapeLikeLiteral input =
     replace_char CHR ''_'' [backslash, CHR ''_'']
       (replace_char CHR ''%'' [backslash, CHR ''%'']
         (replace_char backslash [backslash, backslash] input))"

section \<open>Unsupported functions\<close>

text \<open>\<open>UnsupportedFilterError\<close> keeps each function once.\<close>

fun unique :: "'a list \<Rightarrow> 'a list" where
  "unique [] = []"
| "unique (x # xs) = x # filter (\<lambda>y. y \<noteq> x) (unique xs)"

definition unsupported :: "string list \<Rightarrow> 'a result" where
  "unsupported functions = Inl (UnsupportedFilter (unique functions))"

fun string_fn_text :: "string_fn \<Rightarrow> string" where
  "string_fn_text Trim = ''trim''" | "string_fn_text Concat = ''concat''"

fun date_part_text :: "date_part \<Rightarrow> string" where
  "date_part_text Month = ''month''" | "date_part_text Day = ''day''" | "date_part_text Hour = ''hour''"
| "date_part_text Minute = ''minute''" | "date_part_text Second = ''second''"

fun transform_text :: "transform \<Rightarrow> string" where
  "transform_text ToLower = ''tolower''" | "transform_text ToUpper = ''toupper''"

section \<open>Comparisons\<close>

definition num :: "rat \<Rightarrow> js_value" where
  "num x = JNum (Finite x)"

definition InOperatorRequiresList :: string where
  "InOperatorRequiresList = ''in-operator-requires-list''"

definition InListTooLarge :: string where
  "InListTooLarge = ''in-list-too-large''"

definition in_where :: "parse_options \<Rightarrow> string \<Rightarrow> bool \<Rightarrow> js_value \<Rightarrow> where_clause result" where
  "in_where opts field negated value =
     (case value of
        JArr vs \<Rightarrow>
          if in_list_limit opts < length vs
          then Inl (HttpError 400 InListTooLarge
                 (''in list exceeds maximum of '' @ show_nat (in_list_limit opts) @ '' items.''))
          else let hasNull = JNull \<in> set vs; nonNull = filter (\<lambda>v. v \<noteq> JNull) vs
               in Inr (if \<not> negated
                  then (if hasNull \<and> nonNull \<noteq> []
                        then WOr [WField field (Value JNull), op field ''inq'' (JArr nonNull)]
                        else if hasNull then WField field (Value JNull)
                        else op field ''inq'' (JArr nonNull))
                  else (if hasNull \<and> nonNull \<noteq> []
                        then WAnd [op field ''neq'' JNull, op field ''nin'' (JArr nonNull)]
                        else if hasNull then op field ''neq'' JNull
                        else op field ''nin'' (JArr nonNull)))
      | _ \<Rightarrow> Inl (HttpError 400 InOperatorRequiresList ''in operator requires a list.''))"

definition comparison_where :: "parse_options \<Rightarrow> string \<Rightarrow> comparator \<Rightarrow> js_value \<Rightarrow> where_clause result" where
  "comparison_where opts field c v =
     rbind (assertSafeFilterFieldName opts field) (\<lambda>_.
       case c of
         Eq \<Rightarrow> Inr (WField field (Value v))
       | Inq \<Rightarrow> in_where opts field False v
       | Nin \<Rightarrow> in_where opts field True v
       | _ \<Rightarrow> Inr (op field (comparator_name c) v))"

definition string_test_where ::
  "parse_options \<Rightarrow> string_test \<Rightarrow> string \<Rightarrow> js_value list \<Rightarrow> bool \<Rightarrow> bool \<Rightarrow> where_clause result" where
  "string_test_where opts fn field args caseInsensitive negated =
     rbind (assertSafeFilterFieldName opts field) (\<lambda>_.
       case args of
         JStr s # _ \<Rightarrow>
           (let escaped = escapeLikeLiteral s;
                pattern = (case fn of
                    Contains \<Rightarrow> ''%'' @ escaped @ ''%''
                  | StartsWith \<Rightarrow> escaped @ ''%''
                  | EndsWith \<Rightarrow> ''%'' @ escaped)
            in Inr (WField field (Ops ((if negated then ''nlike'' else ''like'', JStr pattern)
                 # (if caseInsensitive then [(''options'', JStr ''i'')] else [])))))
       | _ \<Rightarrow> throw ((case fn of Contains \<Rightarrow> ''contains'' | StartsWith \<Rightarrow> ''startswith'' | EndsWith \<Rightarrow> ''endswith'')
                  @ '' requires a string literal argument.''))"

definition index_of_where :: "parse_options \<Rightarrow> string \<Rightarrow> comparator \<Rightarrow> rat \<Rightarrow> string \<Rightarrow> where_clause result" where
  "index_of_where opts field c x needle =
     rbind (assertSafeFilterFieldName opts field) (\<lambda>_.
       let lit = ''%'' @ escapeLikeLiteral needle @ ''%''
       in if (c = Gte \<and> 0 \<le> x) \<or> (c = Gt \<and> -1 \<le> x)
          then Inr (WField field (Ops [(''like'', JStr lit), (''options'', JStr ''i'')]))
          else if c = Eq \<and> x = -1
          then Inr (WField field (Ops [(''nlike'', JStr lit), (''options'', JStr ''i'')]))
          else throw ''Unsupported indexof comparison. Supported: ge 0, gt -1, eq -1.'')"

definition substring_where ::
  "parse_options \<Rightarrow> string \<Rightarrow> rat \<Rightarrow> rat option \<Rightarrow> comparator \<Rightarrow> string \<Rightarrow> where_clause result" where
  "substring_where opts field start len c literal =
     rbind (assertSafeFilterFieldName opts field) (\<lambda>_.
       if \<not> is_index start then throw ''substring start must be a non-negative integer literal.''
       else if rat_of_nat (start_limit opts) < start
       then throw (''substring start exceeds maximum of '' @ show_nat (start_limit opts) @ ''.'')
       else rbind (case len of
           None \<Rightarrow> Inr ()
         | Some n \<Rightarrow>
             if \<not> is_index n then throw ''substring length must be a non-negative integer literal.''
             else if rat_of_nat (substring_limit opts) < n
             then throw (''substring length exceeds maximum of '' @ show_nat (substring_limit opts) @ ''.'')
             else Inr ()) (\<lambda>_.
         let pattern = replicate (nat \<lfloor>start\<rfloor>) CHR ''_'' @ escapeLikeLiteral literal
               @ (if len \<noteq> None then ''%'' else [])
         in Inr (op field (if c = Eq then ''like'' else ''nlike'') (JStr pattern))))"

definition translateLengthComparison :: "parse_options \<Rightarrow> string \<Rightarrow> comparator \<Rightarrow> rat \<Rightarrow> where_clause result" where
  "translateLengthComparison opts field c x =
     rbind (assertSafeFilterFieldName opts field) (\<lambda>_.
       if x < 0 then throw ''length comparison requires a non-negative integer value.''
       else if \<not> is_integer x then throw ''length comparison requires an integer literal.''
       else case c of
           Eq \<Rightarrow> if x = 0 then Inr (WField field (Value (JStr [])))
                 else rbind (underscorePattern opts x) (\<lambda>p. Inr (op field ''like'' (JStr p)))
         | Neq \<Rightarrow> if x = 0 then Inr (op field ''neq'' (JStr []))
                  else rbind (underscorePattern opts x) (\<lambda>p. Inr (op field ''nlike'' (JStr p)))
         | Gt \<Rightarrow> if x = 0 then Inr (op field ''neq'' (JStr []))
                 else rbind (underscorePattern opts (x + 1)) (\<lambda>p. Inr (op field ''like'' (JStr (p @ ''%''))))
         | Gte \<Rightarrow> if x \<le> 0 then Inr (op field ''like'' (JStr ''%''))
                  else rbind (underscorePattern opts x) (\<lambda>p. Inr (op field ''like'' (JStr (p @ ''%''))))
         | Lt \<Rightarrow> rbind (underscorePattern opts x) (\<lambda>p. Inr (op field ''nlike'' (JStr (p @ ''%''))))
         | Lte \<Rightarrow> if x = 0 then Inr (WField field (Value (JStr [])))
                  else rbind (underscorePattern opts (x + 1)) (\<lambda>p. Inr (op field ''nlike'' (JStr (p @ ''%''))))
         | _ \<Rightarrow> throw ''Unsupported length comparison.'')"

definition unsupported_comparator :: "string \<Rightarrow> comparator \<Rightarrow> 'a result" where
  "unsupported_comparator name c = throw (name @ ''() does not support comparator: '' @ comparator_name c)"

definition number_fn_where :: "parse_options \<Rightarrow> number_fn \<Rightarrow> string \<Rightarrow> comparator \<Rightarrow> rat \<Rightarrow> where_clause result" where
  "number_fn_where opts fn field c x =
     rbind (assertSafeFilterFieldName opts field) (\<lambda>_.
       case fn of
         Year \<Rightarrow>
           (let start = JDate (date_UTC x 0 1 0 0 0 0); end = JDate (date_UTC (x + 1) 0 1 0 0 0 0)
            in case c of
                Eq \<Rightarrow> Inr (WAnd [op field ''gte'' start, op field ''lt'' end])
              | Gte \<Rightarrow> Inr (op field ''gte'' start)
              | Gt \<Rightarrow> Inr (op field ''gte'' end)
              | Lte \<Rightarrow> Inr (op field ''lt'' end)
              | Lt \<Rightarrow> Inr (op field ''lt'' start)
              | _ \<Rightarrow> unsupported_comparator ''year'' c)
       | Floor \<Rightarrow>
           (case c of
                Eq \<Rightarrow> Inr (WAnd [op field ''gte'' (num x), op field ''lt'' (num (x + 1))])
              | Gte \<Rightarrow> Inr (op field ''gte'' (num x))
              | Gt \<Rightarrow> Inr (op field ''gte'' (num (x + 1)))
              | Lte \<Rightarrow> Inr (op field ''lt'' (num (x + 1)))
              | Lt \<Rightarrow> Inr (op field ''lt'' (num x))
              | _ \<Rightarrow> unsupported_comparator ''floor'' c)
       | Ceiling \<Rightarrow>
           (case c of
                Eq \<Rightarrow> Inr (WAnd [op field ''gt'' (num (x - 1)), op field ''le'' (num x)])
              | Gte \<Rightarrow> Inr (op field ''gt'' (num (x - 1)))
              | Gt \<Rightarrow> Inr (op field ''gte'' (num x))
              | Lte \<Rightarrow> Inr (op field ''lt'' (num (x + 1)))
              | Lt \<Rightarrow> Inr (op field ''lt'' (num x))
              | _ \<Rightarrow> unsupported_comparator ''ceiling'' c)
       | Round \<Rightarrow>
           (let lo = x - 1 / 2; hi = x + 1 / 2
            in case c of
                Eq \<Rightarrow> Inr (WAnd [op field ''gte'' (num lo), op field ''lt'' (num hi)])
              | Gte \<Rightarrow> Inr (op field ''gte'' (num lo))
              | Gt \<Rightarrow> Inr (op field ''gte'' (num hi))
              | Lte \<Rightarrow> Inr (op field ''lt'' (num hi))
              | Lt \<Rightarrow> Inr (op field ''lt'' (num lo))
              | _ \<Rightarrow> unsupported_comparator ''round'' c))"

section \<open>Negated comparisons\<close>

fun inverse_comparator :: "comparator \<Rightarrow> comparator" where
  "inverse_comparator Eq = Neq" | "inverse_comparator Neq = Eq"
| "inverse_comparator Gt = Lte" | "inverse_comparator Gte = Lt"
| "inverse_comparator Lt = Gte" | "inverse_comparator Lte = Gt"
| "inverse_comparator Inq = Nin" | "inverse_comparator Nin = Inq"

definition negateIndexOfExpression :: "comparator \<Rightarrow> rat \<Rightarrow> (comparator \<times> rat) result" where
  "negateIndexOfExpression c x =
     (if c = Eq \<and> x = -1 then Inr (Gte, 0)
      else if c = Gte \<and> 0 \<le> x then Inr (Eq, -1)
      else if c = Gt \<and> -1 < x then Inr (Eq, -1)
      else throw ''Unsupported negated indexof comparison.'')"

definition negateSubstringExpression :: "comparator \<Rightarrow> comparator" where
  "negateSubstringExpression c = (if c = Eq then Neq else Eq)"

definition negateLengthExpression :: "comparator \<Rightarrow> comparator result" where
  "negateLengthExpression c =
     (if c = Inq \<or> c = Nin then throw ''Unsupported negated length comparison.''
      else Inr (inverse_comparator c))"

section \<open>The translation\<close>

definition unsupported_expression :: "'a result" where
  "unsupported_expression = throw ''Unsupported filter expression''"

text \<open>The clauses of a logical expression: functions a clause does not support are collected, other errors thrown.\<close>

fun collect_clauses :: "where_clause result list \<Rightarrow> where_clause list \<Rightarrow> string list \<Rightarrow> where_clause list result" where
  "collect_clauses [] clauses functions =
     (if functions \<noteq> [] then unsupported functions else Inr clauses)"
| "collect_clauses (Inr w # rs) clauses functions = collect_clauses rs (clauses @ [w]) functions"
| "collect_clauses (Inl (UnsupportedFilter fs) # rs) clauses functions = collect_clauses rs clauses (functions @ fs)"
| "collect_clauses (Inl e # rs) clauses functions = Inl e"

definition logical_where :: "logical_type \<Rightarrow> where_clause list \<Rightarrow> where_clause" where
  "logical_where t ws = (case t of And \<Rightarrow> WAnd ws | Or \<Rightarrow> WOr ws)"

definition dual :: "logical_type \<Rightarrow> logical_type" where
  "dual t = (case t of And \<Rightarrow> Or | Or \<Rightarrow> And)"

function buildWhere :: "parse_options \<Rightarrow> parsed_expression \<Rightarrow> where_clause result" where
  "buildWhere opts (StringFnCmp fn args c v) = unsupported [string_fn_text fn]"
| "buildWhere opts (DatePart part f c x) = unsupported [date_part_text part]"
| "buildWhere opts (TransformCmp t f c v) = unsupported [transform_text t]"
| "buildWhere opts (Comparison f c v) = comparison_where opts f c v"
| "buildWhere opts (StringTest fn f args ci t neg) = string_test_where opts fn f args ci neg"
| "buildWhere opts (IndexOfCmp f c x needle) = index_of_where opts f c x needle"
| "buildWhere opts (SubstrCmp f start len c literal) = substring_where opts f start len c literal"
| "buildWhere opts (LengthCmp f c x) = translateLengthComparison opts f c x"
| "buildWhere opts (FnCmp fn f c x) = number_fn_where opts fn f c x"
| "buildWhere opts (Lambda k path a p) = unsupported_expression"
| "buildWhere opts (Logical t es) =
     rbind (collect_clauses (map (buildWhere opts) es) [] []) (\<lambda>ws. Inr (logical_where t ws))"
| "buildWhere opts (Not e) =
     (case e of
        Comparison f c v \<Rightarrow>
          (let c' = inverse_comparator c
           in rbind (assertSafeFilterFieldName opts f) (\<lambda>_.
                if c' = Eq then Inr (WField f (Value v))
                else if c' = Inq \<or> c' = Nin then comparison_where opts f c' v
                else Inr (op f (comparator_name c') v)))
      | StringTest fn f args ci t neg \<Rightarrow> string_test_where opts fn f args ci (\<not> neg)
      | Logical t es \<Rightarrow>
          rbind (rmap (\<lambda>e'. buildWhere opts (Not e')) es) (\<lambda>ws. Inr (logical_where (dual t) ws))
      | FnCmp fn f c x \<Rightarrow> rbind (number_fn_where opts fn f c x) (\<lambda>w. Inr (WNot w))
      | IndexOfCmp f c x needle \<Rightarrow>
          rbind (negateIndexOfExpression c x) (\<lambda>(c', x'). index_of_where opts f c' x' needle)
      | SubstrCmp f start len c literal \<Rightarrow>
          substring_where opts f start len (negateSubstringExpression c) literal
      | LengthCmp f c x \<Rightarrow>
          rbind (negateLengthExpression c) (\<lambda>c'. translateLengthComparison opts f c' x)
      | StringFnCmp fn args c v \<Rightarrow> unsupported [string_fn_text fn]
      | DatePart part f c x \<Rightarrow> unsupported [date_part_text part]
      | TransformCmp t f c v \<Rightarrow> unsupported [transform_text t]
      | _ \<Rightarrow> unsupported_expression)"
  by pat_completeness auto
termination
  by (relation "measure (\<lambda>(opts, e). size e)")
     (auto simp: size_list_estimation' less_Suc_eq_le)

text \<open>The \<open>not\<close> branch, by the expression under it.\<close>

declare buildWhere.simps(12) [simp del]

lemma buildWhere_not:
  "buildWhere opts (Not (StringTest fn f args ci t neg)) = string_test_where opts fn f args ci (\<not> neg)"
  "buildWhere opts (Not (Logical lt es)) =
     rbind (rmap (\<lambda>e'. buildWhere opts (Not e')) es) (\<lambda>ws. Inr (logical_where (dual lt) ws))"
  "buildWhere opts (Not (FnCmp g f c x)) = rbind (number_fn_where opts g f c x) (\<lambda>w. Inr (WNot w))"
  "buildWhere opts (Not (IndexOfCmp f c x needle)) =
     rbind (negateIndexOfExpression c x) (\<lambda>(c', x'). index_of_where opts f c' x' needle)"
  "buildWhere opts (Not (SubstrCmp f start len c literal)) =
     substring_where opts f start len (negateSubstringExpression c) literal"
  "buildWhere opts (Not (LengthCmp f c x)) =
     rbind (negateLengthExpression c) (\<lambda>c'. translateLengthComparison opts f c' x)"
  "buildWhere opts (Not (StringFnCmp sf sargs c v)) = unsupported [string_fn_text sf]"
  "buildWhere opts (Not (DatePart part f c x)) = unsupported [date_part_text part]"
  "buildWhere opts (Not (TransformCmp tr f c w)) = unsupported [transform_text tr]"
  "buildWhere opts (Not (Not e)) = unsupported_expression"
  "buildWhere opts (Not (Lambda k path a p)) = unsupported_expression"
  by (subst buildWhere.simps(12), simp only: parsed_expression.case)+

text \<open>A negated comparison is the inverse comparison.\<close>

lemma buildWhere_not_comparison:
  "buildWhere opts (Not (Comparison f c v)) = comparison_where opts f (inverse_comparator c) v"
  by (subst buildWhere.simps(12), cases c; cases "assertSafeFilterFieldName opts f")
     (simp_all add: comparison_where_def Let_def)

lemmas buildWhere_not_simps [simp] = buildWhere_not buildWhere_not_comparison

text \<open>An \<open>UnsupportedFilterError\<close> names a function, so no clause of a logical expression is lost.\<close>

definition names_function :: "'a result \<Rightarrow> bool" where
  "names_function r \<longleftrightarrow> r \<noteq> Inl (UnsupportedFilter [])"

lemma names_function_simps [simp]:
  "names_function (Inr x)" "names_function (throw m)" "names_function (Inl (HttpError n c m))"
  "names_function (unsupported [f])" "names_function unsupported_expression"
  by (simp_all add: names_function_def throw_def unsupported_def unsupported_expression_def)

lemma names_function_rbind: "names_function m \<Longrightarrow> (\<And>x. names_function (f x)) \<Longrightarrow> names_function (rbind m f)"
  by (cases m) (auto simp: names_function_def)

lemma unique_Nil [simp]: "unique xs = [] \<longleftrightarrow> xs = []"
  by (cases xs) auto

lemma collect_clauses_names:
  "list_all names_function rs \<Longrightarrow> names_function (collect_clauses rs ws fs)"
  by (induction rs ws fs rule: collect_clauses.induct) (auto simp: names_function_def unsupported_def)

lemma rmap_names: "(\<And>x. x \<in> set xs \<Longrightarrow> names_function (f x)) \<Longrightarrow> names_function (rmap f xs)"
  by (induction xs) (auto intro!: names_function_rbind)

lemma names_assert [simp]: "names_function (assertSafeFilterFieldName opts f)"
  by (simp add: assertSafeFilterFieldName_def)

lemma names_underscore [simp]: "names_function (underscorePattern opts x)"
  by (simp add: underscorePattern_def)

lemma names_atoms [simp]:
  "names_function (comparison_where opts f c v)" "names_function (string_test_where opts fn f args ci neg)"
  "names_function (index_of_where opts f c x n)" "names_function (substring_where opts f start len c l)"
  "names_function (translateLengthComparison opts f c x)" "names_function (number_fn_where opts g f c x)"
  by (auto simp: comparison_where_def in_where_def string_test_where_def index_of_where_def substring_where_def
      translateLengthComparison_def number_fn_where_def unsupported_comparator_def Let_def
      intro!: names_function_rbind split: comparator.splits js_value.splits list.splits option.splits number_fn.splits)

lemma buildWhere_names: "names_function (buildWhere opts e)"
proof (induction opts e rule: buildWhere.induct)
  case (11 opts t es)
  then show ?case by (auto intro!: names_function_rbind collect_clauses_names simp: list_all_iff)
next
  case (12 opts e)
  then show ?case
    by (cases e) (auto intro!: names_function_rbind rmap_names
        simp: negateIndexOfExpression_def negateLengthExpression_def split: prod.splits)
qed simp_all

lemma collect_clauses_ok:
  "collect_clauses rs ws fs = Inr ws' \<Longrightarrow> list_all names_function rs \<Longrightarrow>
   fs = [] \<and> list_all is_ok rs \<and> ws' = ws @ map projr rs"
proof (induction rs ws fs rule: collect_clauses.induct)
  case (1 clauses fns)
  then show ?case by (auto simp: unsupported_def split: if_splits)
qed (auto simp: names_function_def)

lemma buildWhere_logical:
  assumes "buildWhere opts (Logical t es) = Inr w"
  shows "\<exists>ws. w = logical_where t ws \<and> list_all2 (\<lambda>e w'. buildWhere opts e = Inr w') es ws"
proof -
  obtain ws where c: "collect_clauses (map (buildWhere opts) es) [] [] = Inr ws" and w: "w = logical_where t ws"
    using assms by auto
  have "list_all is_ok (map (buildWhere opts) es)" "ws = map (projr \<circ> buildWhere opts) es"
    using collect_clauses_ok [OF c] buildWhere_names by (auto simp: list_all_iff)
  then have "list_all2 (\<lambda>e w'. buildWhere opts e = Inr w') es ws"
    by (auto simp: list_all2_conv_all_nth list_all_length is_ok_iff)
  with w show ?thesis by blast
qed

lemma buildWhere_not_logical:
  assumes "buildWhere opts (Not (Logical t es)) = Inr w"
  shows "\<exists>ws. w = logical_where (dual t) ws \<and> list_all2 (\<lambda>e w'. buildWhere opts (Not e) = Inr w') es ws"
  using assms by (auto simp: rmap_Inr_iff)

end
