(* ===== verification/Scopes.thy ===== *)
theory Scopes
  imports WhereBuilder
begin

text \<open>
  The scopes of included relations, as \<open>mergeScopes\<close>, \<open>mergeInclusionList\<close>,
  \<open>ensureFieldsIncludeRelations\<close> and the cloning functions of
  \<open>odata-query-parser.service.ts\<close> build them. Every scope that is merged is built anew, so
  the objects are values here. Merging two scopes merges the scopes of the relations they share,
  so the recursion is bounded by how deep the scopes nest; the equations without the bound are
  proved below, and with them what every merged scope satisfies.
\<close>

section \<open>Scopes\<close>

text \<open>
  The part of a LoopBack filter that is set: the selected fields (an object whose keys are \<open>true\<close>,
  as the list of its keys), the clause, the orders, the page and the included relations.
\<close>

datatype scope = Scope
    (fields_of: "string list option") (where_of: "where_clause option") (order_of: "string list option")
    (limit_of: "nat option") (offset_of: "nat option") (include_of: "inclusion list option")
and inclusion = Inclusion (relation_of: string) (scope_of: "scope option")

definition no_scope :: scope where
  "no_scope = Scope None None None None None None"

definition is_some :: "'a option \<Rightarrow> bool" where
  "is_some m = (case m of None \<Rightarrow> False | Some x \<Rightarrow> True)"

definition or_default :: "'a \<Rightarrow> 'a option \<Rightarrow> 'a" where
  "or_default d m = (case m of None \<Rightarrow> d | Some x \<Rightarrow> x)"

definition or_keep :: "'a option \<Rightarrow> 'a option \<Rightarrow> 'a option" where
  "or_keep new old = (case new of None \<Rightarrow> old | Some x \<Rightarrow> Some x)"

lemma option_facts [simp]:
  "is_some None = False" "is_some (Some x)" "or_default d None = d" "or_default d (Some x) = x"
  "or_keep None old = old" "or_keep (Some x) old = Some x"
  by (simp_all add: is_some_def or_default_def or_keep_def)

text \<open>\<open>fields[name] = true\<close>: the key \<open>__proto__\<close> names the prototype, which stays as it is.\<close>

definition add_field :: "string list \<Rightarrow> string \<Rightarrow> string list" where
  "add_field fs name = (if name \<in> set fs \<or> name = ''__proto__'' then fs else fs @ [name])"

definition spread :: "string list \<Rightarrow> string list \<Rightarrow> string list" where
  "spread = foldl add_field"

section \<open>Selected fields and relations\<close>

definition projectRelationField :: "string list option \<Rightarrow> string \<Rightarrow> string list option" where
  "projectRelationField fs relation = map_option (\<lambda>f. add_field f relation) fs"

primrec ensureFieldsIncludeRelations :: "scope \<Rightarrow> scope" and ensure_inclusion :: "inclusion \<Rightarrow> inclusion" where
  "ensureFieldsIncludeRelations (Scope fs w ord lm off inc) =
     Scope (case inc of None \<Rightarrow> fs | Some is \<Rightarrow> foldl projectRelationField fs (map relation_of is))
       w ord lm off (map_option (map ensure_inclusion) inc)"
| "ensure_inclusion (Inclusion r s) = Inclusion r (map_option ensureFieldsIncludeRelations s)"

section \<open>Merging\<close>

text \<open>The map of the relations met so far, in the order they were met.\<close>

fun upsert :: "(scope option \<Rightarrow> scope option \<Rightarrow> scope option) \<Rightarrow> inclusion list \<Rightarrow> inclusion \<Rightarrow> inclusion list" where
  "upsert mrg [] entry = [Inclusion (relation_of entry) (mrg None (scope_of entry))]"
| "upsert mrg (current # rest) entry =
     (if relation_of current = relation_of entry
      then Inclusion (relation_of current) (mrg (scope_of current) (scope_of entry)) # rest
      else current # upsert mrg rest entry)"

definition merge_lists ::
  "(scope option \<Rightarrow> scope option \<Rightarrow> scope option) \<Rightarrow> inclusion list \<Rightarrow> inclusion list \<Rightarrow> inclusion list" where
  "merge_lists mrg existing additions = foldl (upsert mrg) (foldl (upsert mrg) [] existing) additions"

definition merge_step ::
  "(scope option \<Rightarrow> scope option \<Rightarrow> scope option) \<Rightarrow> scope option \<Rightarrow> scope option \<Rightarrow> scope option" where
  "merge_step mrg target incoming =
     (case incoming of
        None \<Rightarrow> target
      | Some i \<Rightarrow>
          let r = or_default no_scope target;
              fs = (case fields_of i of None \<Rightarrow> fields_of r
                    | Some f \<Rightarrow> Some (spread (or_default [] (fields_of r)) f));
              w = (case where_of i of None \<Rightarrow> where_of r
                   | Some c \<Rightarrow> Some (case where_of r of None \<Rightarrow> c | Some c' \<Rightarrow> WAnd [c', c]));
              ord = or_keep (order_of i) (order_of r);
              lm = or_keep (limit_of i) (limit_of r);
              off = or_keep (offset_of i) (offset_of r)
          in Some
            (if or_default [] (include_of i) = [] then Scope fs w ord lm off (include_of r)
             else ensureFieldsIncludeRelations (Scope fs w ord lm off
                    (Some (merge_lists mrg (or_default [] (include_of r)) (or_default [] (include_of i)))))))"

fun merge_within :: "nat \<Rightarrow> scope option \<Rightarrow> scope option \<Rightarrow> scope option" where
  "merge_within 0 target incoming = target"
| "merge_within (Suc n) target incoming = merge_step (merge_within n) target incoming"

text \<open>How deep includes nest.\<close>

primrec scope_depth :: "scope \<Rightarrow> nat" and inclusion_depth :: "inclusion \<Rightarrow> nat" where
  "scope_depth (Scope fs w ord lm off inc) =
     (case map_option (map inclusion_depth) inc of None \<Rightarrow> 0 | Some ds \<Rightarrow> foldr max ds 0)"
| "inclusion_depth (Inclusion r s) = Suc (case map_option scope_depth s of None \<Rightarrow> 0 | Some d \<Rightarrow> d)"

definition opt_depth :: "scope option \<Rightarrow> nat" where
  "opt_depth s = (case s of None \<Rightarrow> 0 | Some c \<Rightarrow> scope_depth c)"

definition list_depth :: "inclusion list \<Rightarrow> nat" where
  "list_depth is = foldr max (map inclusion_depth is) 0"

definition mergeScopes :: "scope option \<Rightarrow> scope option \<Rightarrow> scope option" where
  "mergeScopes target incoming = merge_within (Suc (max (opt_depth target) (opt_depth incoming))) target incoming"

definition mergeInclusionList :: "inclusion list \<Rightarrow> inclusion list \<Rightarrow> inclusion list" where
  "mergeInclusionList existing additions = merge_lists mergeScopes existing additions"

section \<open>Copies\<close>

primrec cloneScope :: "scope \<Rightarrow> scope" and cloneInclusion :: "inclusion \<Rightarrow> inclusion" where
  "cloneScope (Scope fs w ord lm off inc) = Scope fs w ord lm off (map_option (map cloneInclusion) inc)"
| "cloneInclusion (Inclusion r s) = Inclusion r (map_option cloneScope s)"

lemma clone_same: "cloneScope s = s" "cloneInclusion i = i"
  by (induction s and i) (auto intro!: option.map_ident_strong map_idI)

section \<open>The bound on the depth is never reached\<close>

lemma depth_Scope [simp]: "scope_depth (Scope fs w ord lm off inc) = list_depth (or_default [] inc)"
  by (cases inc) (simp_all add: list_depth_def)

lemma inclusion_depth_eq [simp]: "inclusion_depth (Inclusion r s) = Suc (opt_depth s)"
  by (cases s) (simp_all add: opt_depth_def)

lemma depth_simps [simp]:
  "opt_depth None = 0" "opt_depth (Some s) = scope_depth s" "scope_depth no_scope = 0"
  "list_depth [] = 0" "list_depth (i # is) = max (inclusion_depth i) (list_depth is)"
  by (simp_all add: opt_depth_def list_depth_def no_scope_def)

declare scope_depth.simps [simp del] inclusion_depth.simps [simp del]

lemma list_depth_member: "i \<in> set is \<Longrightarrow> inclusion_depth i \<le> list_depth is"
  by (induction "is") auto

lemma depth_eq: "scope_depth s = list_depth (or_default [] (include_of s))"
  by (cases s) simp

lemma inclusion_eq: "inclusion_depth i = Suc (opt_depth (scope_of i))"
  by (cases i) simp

lemma ensure_depth: "scope_depth (ensureFieldsIncludeRelations s) = scope_depth s" "inclusion_depth (ensure_inclusion i) = inclusion_depth i"
proof (induction s and i)
  case (Scope fs w ord lm off inc)
  have "list_depth (map ensure_inclusion is) = list_depth is" if "inc = Some is" for "is"
  proof -
    have "\<forall>i\<in>set is. inclusion_depth (ensure_inclusion i) = inclusion_depth i" using Scope that by auto
    then show ?thesis by (induction "is") simp_all
  qed
  then show ?case by (cases inc) simp_all
next
  case (Inclusion r s)
  then show ?case by (cases s) simp_all
qed

lemma ensure_list_depth: "list_depth (map ensure_inclusion is) = list_depth is"
  by (induction "is") (simp_all add: ensure_depth)

lemma upsert_depth:
  assumes "\<And>t. opt_depth t \<le> d \<Longrightarrow> opt_depth (mrg t (scope_of e)) \<le> d"
  shows "list_depth acc \<le> Suc d \<Longrightarrow> list_depth (upsert mrg acc e) \<le> Suc d"
  by (induction acc) (auto simp: inclusion_eq assms)

lemma foldl_depth:
  assumes "\<And>t i. opt_depth t \<le> d \<Longrightarrow> opt_depth i \<le> d \<Longrightarrow> opt_depth (mrg t i) \<le> d"
  shows "list_depth acc \<le> Suc d \<Longrightarrow> list_depth es \<le> Suc d \<Longrightarrow> list_depth (foldl (upsert mrg) acc es) \<le> Suc d"
proof (induction es arbitrary: acc)
  case (Cons e es)
  have "opt_depth (scope_of e) \<le> d" using Cons.prems(2) by (simp add: inclusion_eq)
  then have "list_depth (upsert mrg acc e) \<le> Suc d" using Cons.prems(1) assms by (intro upsert_depth) auto
  with Cons show ?case by simp
qed simp

lemma merge_depth: "opt_depth t \<le> d \<Longrightarrow> opt_depth i \<le> d \<Longrightarrow> opt_depth (merge_within n t i) \<le> d"
proof (induction n arbitrary: t i d)
  case (Suc n)
  show ?case
  proof (cases i)
    case (Some s)
    let ?r = "or_default no_scope t"
    have r: "list_depth (or_default [] (include_of ?r)) \<le> d" using Suc.prems(1) by (cases t) (simp_all add: depth_eq no_scope_def)
    have s: "list_depth (or_default [] (include_of s)) \<le> d" using Suc.prems(2) Some by (simp add: depth_eq)
    have "list_depth (merge_lists (merge_within n) (or_default [] (include_of ?r)) (or_default [] (include_of s))) \<le> d"
      if ne: "or_default [] (include_of s) \<noteq> []"
    proof -
      obtain d' where d: "d = Suc d'" using s ne by (cases d; cases "or_default [] (include_of s)") (auto simp: inclusion_eq)
      show ?thesis
        unfolding merge_lists_def d
        using r s Suc.IH by (intro foldl_depth) (auto simp: d)
    qed
    with Some r show ?thesis by (auto simp: merge_step_def Let_def ensure_list_depth)
  qed (use Suc.prems in \<open>simp add: merge_step_def\<close>)
qed simp

lemma upsert_cong:
  assumes "\<And>t. opt_depth t \<le> d \<Longrightarrow> m t (scope_of e) = m' t (scope_of e)"
  shows "list_depth acc \<le> Suc d \<Longrightarrow> upsert m acc e = upsert m' acc e"
  by (induction acc) (auto simp: inclusion_eq assms)

lemma foldl_cong_depth:
  assumes eq: "\<And>t i. opt_depth t \<le> d \<Longrightarrow> opt_depth i \<le> d \<Longrightarrow> m t i = m' t i"
    and le: "\<And>t i. opt_depth t \<le> d \<Longrightarrow> opt_depth i \<le> d \<Longrightarrow> opt_depth (m t i) \<le> d"
  shows "list_depth acc \<le> Suc d \<Longrightarrow> list_depth es \<le> Suc d \<Longrightarrow> foldl (upsert m) acc es = foldl (upsert m') acc es"
proof (induction es arbitrary: acc)
  case (Cons e es)
  have e: "opt_depth (scope_of e) \<le> d" using Cons.prems(2) by (simp add: inclusion_eq)
  have "upsert m acc e = upsert m' acc e" using Cons.prems(1) e eq by (intro upsert_cong) auto
  moreover have "list_depth (upsert m acc e) \<le> Suc d" using Cons.prems(1) e le by (intro upsert_depth) auto
  ultimately show ?case using Cons by simp
qed simp

lemma merge_lists_cong:
  assumes "\<And>t i. opt_depth t \<le> d \<Longrightarrow> opt_depth i \<le> d \<Longrightarrow> m t i = m' t i"
    and "\<And>t i. opt_depth t \<le> d \<Longrightarrow> opt_depth i \<le> d \<Longrightarrow> opt_depth (m t i) \<le> d"
    and "list_depth xs \<le> Suc d" "list_depth ys \<le> Suc d"
  shows "merge_lists m xs ys = merge_lists m' xs ys"
proof -
  have "foldl (upsert m) [] xs = foldl (upsert m') [] xs" using assms by (intro foldl_cong_depth) auto
  moreover have "list_depth (foldl (upsert m) [] xs) \<le> Suc d" using assms by (intro foldl_depth) auto
  ultimately show ?thesis
    unfolding merge_lists_def using foldl_cong_depth [where acc = "foldl (upsert m') [] xs", OF assms(1,2) _ assms(4)] by simp
qed

lemma merge_step_cong:
  assumes "\<And>d. d < n \<Longrightarrow> list_depth (or_default [] (include_of (or_default no_scope t))) \<le> Suc d \<Longrightarrow>
      list_depth (or_default [] (include_of (or_default no_scope i))) \<le> Suc d \<Longrightarrow>
      merge_lists m (or_default [] (include_of (or_default no_scope t))) (or_default [] (include_of (or_default no_scope i))) =
      merge_lists m' (or_default [] (include_of (or_default no_scope t))) (or_default [] (include_of (or_default no_scope i)))"
    and "opt_depth t \<le> n" "opt_depth i \<le> n"
  shows "merge_step m t i = merge_step m' t i"
proof (cases i)
  case (Some s)
  let ?is = "or_default [] (include_of s)" and ?ts = "or_default [] (include_of (or_default no_scope t))"
  have d: "list_depth ?ts \<le> n" "list_depth ?is \<le> n"
    using assms(2,3) Some by (cases t; simp add: depth_eq no_scope_def)+
  have "merge_lists m ?ts ?is = merge_lists m' ?ts ?is" if ne: "?is \<noteq> []"
  proof -
    obtain k where "n = Suc k" using d(2) ne by (cases n; cases ?is) (auto simp: inclusion_eq)
    with d assms(1) [of k] Some show ?thesis by simp
  qed
  with Some show ?thesis by (simp add: merge_step_def Let_def)
qed (simp add: merge_step_def)

lemma merge_fuel:
  "opt_depth t \<le> d \<Longrightarrow> opt_depth i \<le> d \<Longrightarrow> d < n \<Longrightarrow> d < k \<Longrightarrow> merge_within n t i = merge_within k t i"
proof (induction n arbitrary: k d t i)
  case (Suc n)
  then obtain k' where k: "k = Suc k'" by (cases k) auto
  have "merge_step (merge_within n) t i = merge_step (merge_within k') t i"
  proof (rule merge_step_cong [where n = d])
    fix e
    assume e: "e < d" and l: "list_depth (or_default [] (include_of (or_default no_scope t))) \<le> Suc e"
      "list_depth (or_default [] (include_of (or_default no_scope i))) \<le> Suc e"
    show "merge_lists (merge_within n) (or_default [] (include_of (or_default no_scope t))) (or_default [] (include_of (or_default no_scope i))) =
      merge_lists (merge_within k') (or_default [] (include_of (or_default no_scope t))) (or_default [] (include_of (or_default no_scope i)))"
    proof (rule merge_lists_cong [OF _ merge_depth l])
      fix t i
      assume "opt_depth t \<le> e" "opt_depth i \<le> e"
      then show "merge_within n t i = merge_within k' t i" using Suc.prems e k by (intro Suc.IH [of t e i]) auto
    qed
  qed (use Suc.prems in auto)
  then show ?case by (simp add: k)
qed simp

lemma mergeScopes_depth: "opt_depth t \<le> d \<Longrightarrow> opt_depth i \<le> d \<Longrightarrow> opt_depth (mergeScopes t i) \<le> d"
  unfolding mergeScopes_def by (rule merge_depth)

text \<open>The equations of the source, without a bound.\<close>

theorem mergeScopes_step: "mergeScopes t i = merge_step mergeScopes t i"
proof -
  let ?d = "max (opt_depth t) (opt_depth i)"
  have "merge_step (merge_within ?d) t i = merge_step mergeScopes t i"
  proof (rule merge_step_cong [where n = ?d])
    fix e
    assume e: "e < ?d" and l: "list_depth (or_default [] (include_of (or_default no_scope t))) \<le> Suc e"
      "list_depth (or_default [] (include_of (or_default no_scope i))) \<le> Suc e"
    have "merge_within ?d t' i' = mergeScopes t' i'" if "opt_depth t' \<le> e" "opt_depth i' \<le> e" for t' i'
      unfolding mergeScopes_def by (rule merge_fuel [where d = "max (opt_depth t') (opt_depth i')"]) (use that e in auto)
    then show "merge_lists (merge_within ?d) (or_default [] (include_of (or_default no_scope t))) (or_default [] (include_of (or_default no_scope i))) =
      merge_lists mergeScopes (or_default [] (include_of (or_default no_scope t))) (or_default [] (include_of (or_default no_scope i)))"
      by (rule merge_lists_cong [OF _ merge_depth l])
  qed auto
  then show ?thesis by (simp add: mergeScopes_def)
qed

section \<open>What merged scopes satisfy\<close>

text \<open>No relation is included twice at a level.\<close>

primrec single :: "scope \<Rightarrow> bool" and single_inclusion :: "inclusion \<Rightarrow> bool" where
  "single (Scope fs w ord lm off inc) =
     (distinct (map relation_of (or_default [] inc)) \<and> pred_option (list_all (\<lambda>b. b)) (map_option (map single_inclusion) inc))"
| "single_inclusion (Inclusion r s) = pred_option (\<lambda>b. b) (map_option single s)"

abbreviation single_list :: "inclusion list \<Rightarrow> bool" where
  "single_list is \<equiv> distinct (map relation_of is) \<and> list_all single_inclusion is"

abbreviation single_opt :: "scope option \<Rightarrow> bool" where
  "single_opt s \<equiv> pred_option single s"

lemma single_Scope [simp]: "single (Scope fs w ord lm off inc) = single_list (or_default [] inc)"
  by (cases inc) (auto simp: list_all_iff)

lemma single_inclusion_eq: "single_inclusion i = single_opt (scope_of i)"
  by (cases i; cases "scope_of i") simp_all

declare single.simps [simp del] single_inclusion.simps [simp del]

lemma single_eq: "single s = single_list (or_default [] (include_of s))"
  by (cases s) simp

text \<open>Every included relation is one of the model, and so are the relations included in it.\<close>

type_synonym 'r relations = "'r \<Rightarrow> string \<Rightarrow> 'r option option"

primrec known :: "'r relations \<Rightarrow> scope \<Rightarrow> 'r option \<Rightarrow> bool"
  and known_inclusion :: "'r relations \<Rightarrow> inclusion \<Rightarrow> 'r option \<Rightarrow> bool" where
  "known look (Scope fs w ord lm off inc) rels =
     pred_option (list_all (\<lambda>k. k rels)) (map_option (map (known_inclusion look)) inc)"
| "known_inclusion look (Inclusion r s) rels =
     (case rels of
        None \<Rightarrow> pred_option (\<lambda>k. k None) (map_option (known look) s)
      | Some m \<Rightarrow> (case look m r of
            None \<Rightarrow> False
          | Some next \<Rightarrow> pred_option (\<lambda>k. k next) (map_option (known look) s)))"

abbreviation known_list :: "'r relations \<Rightarrow> inclusion list \<Rightarrow> 'r option \<Rightarrow> bool" where
  "known_list look is rels \<equiv> list_all (\<lambda>i. known_inclusion look i rels) is"

lemma known_Scope [simp]: "known look (Scope fs w ord lm off inc) rels = known_list look (or_default [] inc) rels"
  by (cases inc) (auto simp: list_all_iff)

lemma known_Inclusion [simp]:
  "known_inclusion look (Inclusion r s) rels =
     (case rels of
        None \<Rightarrow> pred_option (\<lambda>c. known look c None) s
      | Some m \<Rightarrow> (case look m r of None \<Rightarrow> False | Some next \<Rightarrow> pred_option (\<lambda>c. known look c next) s))"
  by (cases s) (auto split: option.splits)

declare known.simps [simp del] known_inclusion.simps [simp del]

text \<open>Selected fields name the included relations.\<close>

primrec projected :: "scope \<Rightarrow> bool" and projected_inclusion :: "inclusion \<Rightarrow> bool" where
  "projected (Scope fs w ord lm off inc) =
     (pred_option (\<lambda>f. set (map relation_of (or_default [] inc)) \<subseteq> insert ''__proto__'' (set f)) fs
      \<and> pred_option (list_all (\<lambda>b. b)) (map_option (map projected_inclusion) inc))"
| "projected_inclusion (Inclusion r s) = pred_option (\<lambda>b. b) (map_option projected s)"

lemma add_field_set: "insert ''__proto__'' (set (add_field f r)) = insert r (insert ''__proto__'' (set f))"
  by (auto simp: add_field_def)

lemma project_all:
  "foldl projectRelationField (Some f) rs = Some (spread f rs)"
  "foldl projectRelationField None rs = None"
  "insert ''__proto__'' (set (spread f rs)) = set rs \<union> insert ''__proto__'' (set f)"
proof -
  show "foldl projectRelationField (Some f) rs = Some (spread f rs)"
    unfolding spread_def by (induction rs arbitrary: f) (simp_all add: projectRelationField_def)
  show "foldl projectRelationField None rs = None"
    by (induction rs) (simp_all add: projectRelationField_def)
  show "insert ''__proto__'' (set (spread f rs)) = set rs \<union> insert ''__proto__'' (set f)"
    unfolding spread_def
  proof (induction rs arbitrary: f)
    case (Cons r rs)
    then show ?case using add_field_set [of f r] by simp blast
  qed simp
qed

lemma relation_of_ensure [simp]: "relation_of (ensure_inclusion i) = relation_of i"
  by (cases i) simp

lemma ensure_projected: "projected (ensureFieldsIncludeRelations s)" "projected_inclusion (ensure_inclusion i)"
proof (induction s and i)
  case (Scope fs w ord lm off inc)
  show ?case
  proof (cases inc)
    case (Some xs)
    have "list_all projected_inclusion (map ensure_inclusion xs)" using Scope Some by (auto simp: list_all_iff)
    moreover have "pred_option (\<lambda>f. set (map relation_of xs) \<subseteq> insert ''__proto__'' (set f))
        (foldl projectRelationField fs (map relation_of xs))"
      using project_all(3) by (cases fs) (fastforce simp: project_all(1,2))+
    ultimately show ?thesis by (simp add: Some list_all_iff comp_def)
  qed (cases fs; simp)
next
  case (Inclusion r s)
  then show ?case by (cases s) simp_all
qed

lemma ensure_single: "single (ensureFieldsIncludeRelations s) = single s" "single_inclusion (ensure_inclusion i) = single_inclusion i"
proof (induction s and i)
  case (Scope fs w ord lm off inc)
  show ?case
  proof (cases inc)
    case (Some xs)
    have "list_all single_inclusion (map ensure_inclusion xs) = list_all single_inclusion xs"
      using Scope Some by (auto simp: list_all_iff)
    then show ?thesis by (simp add: Some comp_def)
  qed simp
next
  case (Inclusion r s)
  then show ?case by (cases s) (simp_all add: single_inclusion_eq)
qed

lemma ensure_known:
  "known look (ensureFieldsIncludeRelations s) rels = known look s rels"
  "known_inclusion look (ensure_inclusion i) rels = known_inclusion look i rels"
proof (induction s and i arbitrary: rels and rels)
  case (Scope fs w ord lm off inc)
  show ?case
  proof (cases inc)
    case (Some xs)
    have "known_list look (map ensure_inclusion xs) rels = known_list look xs rels"
      using Scope Some by (auto simp: list_all_iff)
    then show ?thesis by (simp add: Some comp_def)
  qed simp
next
  case (Inclusion r s)
  then show ?case by (cases s) (simp_all split: option.split)
qed

text \<open>Merging keeps the first two; the list of a merge has each relation once whatever came in.\<close>

lemma upsert_relations: "set (map relation_of (upsert m acc e)) = insert (relation_of e) (set (map relation_of acc))"
  by (induction acc) auto

lemma upsert_single:
  assumes "\<And>t. single_opt t \<Longrightarrow> single_opt (m t (scope_of e))"
  shows "single_list acc \<Longrightarrow> single_list (upsert m acc e)"
proof (induction acc)
  case (Cons a acc)
  then show ?case using upsert_relations [of m acc e] by (auto simp: single_inclusion_eq assms)
qed (simp add: single_inclusion_eq assms)

lemma merge_lists_single:
  assumes "\<And>t i. single_opt t \<Longrightarrow> single_opt (m t i)"
  shows "single_list (merge_lists m xs ys)"
proof -
  have "single_list acc \<Longrightarrow> single_list (foldl (upsert m) acc es)" for acc es
  proof (induction es arbitrary: acc)
    case (Cons e es)
    from Cons.IH [OF upsert_single [OF assms Cons.prems]] show ?case by simp
  qed simp
  then show ?thesis by (simp add: merge_lists_def)
qed

lemma merge_step_cases:
  obtains (keep) s where "merge_step m t (Some i) = Some s" "include_of s = include_of (or_default no_scope t)"
  | (join) s where "merge_step m t (Some i) = Some (ensureFieldsIncludeRelations s)"
      "include_of s = Some (merge_lists m (or_default [] (include_of (or_default no_scope t))) (or_default [] (include_of i)))"
proof (cases "or_default [] (include_of i) = []")
  case True
  then have "\<exists>c. merge_step m t (Some i) = Some c \<and> include_of c = include_of (or_default no_scope t)"
    by (simp add: merge_step_def Let_def)
  with keep show ?thesis by blast
next
  case False
  then show ?thesis
    by (intro join) (simp_all add: merge_step_def Let_def del: ensureFieldsIncludeRelations.simps, simp)
qed

lemma single_or_default: "single_opt t \<Longrightarrow> single (or_default no_scope t)"
  by (cases t) (simp_all add: no_scope_def)

lemma mergeScopes_single: "single_opt t \<Longrightarrow> single_opt (mergeScopes t i)"
proof -
  have "single_opt t \<Longrightarrow> single_opt (merge_within n t i)" for n t i
  proof (induction n arbitrary: t i)
    case (Suc n)
    show ?case
    proof (cases i)
      case (Some s)
      show ?thesis
      proof (rule merge_step_cases [of "merge_within n" t s])
        fix c
        assume "merge_step (merge_within n) t (Some s) = Some c" "include_of c = include_of (or_default no_scope t)"
        with single_or_default [OF Suc.prems] Some show ?thesis by (simp add: single_eq)
      next
        fix c
        assume "merge_step (merge_within n) t (Some s) = Some (ensureFieldsIncludeRelations c)"
          "include_of c = Some (merge_lists (merge_within n) (or_default [] (include_of (or_default no_scope t)))
            (or_default [] (include_of s)))"
        with merge_lists_single [of "merge_within n", OF Suc.IH] Some show ?thesis by (simp add: ensure_single) (simp add: single_eq)
      qed
    qed (use Suc.prems in \<open>simp add: merge_step_def\<close>)
  qed simp
  then show "single_opt t \<Longrightarrow> single_opt (mergeScopes t i)" unfolding mergeScopes_def .
qed

definition known_opt :: "'r relations \<Rightarrow> scope option \<Rightarrow> 'r option \<Rightarrow> bool" where
  "known_opt look s rels = pred_option (\<lambda>c. known look c rels) s"

lemma known_opt_simps [simp]: "known_opt look None rels" "known_opt look (Some s) rels = known look s rels"
  by (simp_all add: known_opt_def)

text \<open>The relations of the target of a relation.\<close>

definition known_at :: "'r relations \<Rightarrow> string \<Rightarrow> scope option \<Rightarrow> 'r option \<Rightarrow> bool" where
  "known_at look r s rels =
     (case rels of None \<Rightarrow> known_opt look s None
      | Some m \<Rightarrow> (case look m r of None \<Rightarrow> False | Some next \<Rightarrow> known_opt look s next))"

lemma known_inclusion_at: "known_inclusion look i rels = known_at look (relation_of i) (scope_of i) rels"
  by (cases i) (auto simp: known_at_def known_opt_def split: option.split)

lemma known_at_merge:
  "(\<And>rels t i. known_opt look t rels \<Longrightarrow> known_opt look i rels \<Longrightarrow> known_opt look (m t i) rels) \<Longrightarrow>
   known_at look r t rels \<Longrightarrow> known_at look r i rels \<Longrightarrow> known_at look r (m t i) rels"
  by (auto simp: known_at_def split: option.splits)

lemma upsert_known:
  assumes m: "\<And>rels t i. known_opt look t rels \<Longrightarrow> known_opt look i rels \<Longrightarrow> known_opt look (m t i) rels"
  shows "known_list look acc rels \<Longrightarrow> known_inclusion look e rels \<Longrightarrow> known_list look (upsert m acc e) rels"
proof (induction acc)
  case Nil
  have "known_at look (relation_of e) None rels" using Nil.prems(2) by (auto simp: known_inclusion_at known_at_def split: option.splits)
  with Nil known_at_merge [of look m, OF m] show ?case by (simp add: known_inclusion_at)
next
  case (Cons a acc)
  then show ?case using known_at_merge [of look m, OF m] by (auto simp: known_inclusion_at)
qed

lemma merge_lists_known:
  assumes "\<And>rels t i. known_opt look t rels \<Longrightarrow> known_opt look i rels \<Longrightarrow> known_opt look (m t i) rels"
    and "known_list look xs rels" "known_list look ys rels"
  shows "known_list look (merge_lists m xs ys) rels"
proof -
  have "known_list look acc rels \<Longrightarrow> known_list look es rels \<Longrightarrow> known_list look (foldl (upsert m) acc es) rels" for acc es
  proof (induction es arbitrary: acc)
    case (Cons e es)
    then have "known_list look (upsert m acc e) rels" by (intro upsert_known [of look m, OF assms(1)]) simp_all
    with Cons show ?case by simp
  qed simp
  with assms(2,3) show ?thesis by (simp add: merge_lists_def)
qed

lemma mergeScopes_known:
  "known_opt look t rels \<Longrightarrow> known_opt look i rels \<Longrightarrow> known_opt look (mergeScopes t i) rels"
proof -
  have "known_opt look t rels \<Longrightarrow> known_opt look i rels \<Longrightarrow> known_opt look (merge_within n t i) rels" for n t i rels
  proof (induction n arbitrary: t i rels)
    case (Suc n)
    have e: "known look s rels = known_list look (or_default [] (include_of s)) rels" for s by (cases s) simp
    show ?case
    proof (cases i)
      case (Some s)
      have t: "known_list look (or_default [] (include_of (or_default no_scope t))) rels"
        using Suc.prems(1) by (cases t) (simp_all add: e no_scope_def)
      have i: "known_list look (or_default [] (include_of s)) rels" using Suc.prems(2) Some by (simp add: e)
      show ?thesis
      proof (rule merge_step_cases [of "merge_within n" t s])
        fix c
        assume "merge_step (merge_within n) t (Some s) = Some c" "include_of c = include_of (or_default no_scope t)"
        with t Some show ?thesis by (simp add: e)
      next
        fix c
        assume "merge_step (merge_within n) t (Some s) = Some (ensureFieldsIncludeRelations c)"
          "include_of c = Some (merge_lists (merge_within n) (or_default [] (include_of (or_default no_scope t)))
            (or_default [] (include_of s)))"
        moreover from this(2) have "known look c rels"
          unfolding e [of c] using merge_lists_known [OF Suc.IH t i] by simp
        ultimately show ?thesis using Some by (simp add: ensure_known)
      qed
    qed (use Suc.prems in \<open>simp add: merge_step_def\<close>)
  qed simp
  then show "known_opt look t rels \<Longrightarrow> known_opt look i rels \<Longrightarrow> known_opt look (mergeScopes t i) rels"
    unfolding mergeScopes_def .
qed

end
