(* ===== verification/TopLevel.thy ===== *)
theory TopLevel
  imports FilterAst
begin

text \<open>
  Cutting option texts at their top level, as \<open>splitTopLevel\<close>, \<open>findClosingParen\<close> and
  \<open>extractPathAndOptions\<close> of \<open>odata-query-parser.service.ts\<close> do: delimiters inside
  parentheses or string literals do not count. The lemmas show that texts put together
  from well-nested pieces are taken apart into those pieces.
\<close>

section \<open>Cutting at a delimiter\<close>

text \<open>A piece is trimmed and dropped when nothing is left.\<close>

definition segment :: "string \<Rightarrow> string list" where
  "segment current = (if trim current = [] then [] else [trim current])"

fun split_loop :: "char \<Rightarrow> string \<Rightarrow> string \<Rightarrow> nat \<Rightarrow> bool \<Rightarrow> string list result" where
  "split_loop d [] current depth inString =
     (if inString then throw ''Malformed expand expression: unterminated string literal.''
      else if depth \<noteq> 0 then throw ''Malformed expand expression: unmatched parentheses.''
      else Inr (segment current))"
| "split_loop d (c # cs) current depth inString =
     (if c = quote
      then (if inString
            then (case cs of
                    q # cs' \<Rightarrow> if q = quote then split_loop d cs' (current @ [c, q]) depth True
                               else split_loop d cs (current @ [c]) depth False
                  | [] \<Rightarrow> split_loop d cs (current @ [c]) depth False)
            else split_loop d cs (current @ [c]) depth True)
      else if inString then split_loop d cs (current @ [c]) depth True
      else if c = CHR ''('' then split_loop d cs (current @ [c]) (depth + 1) False
      else if c = CHR '')''
      then (if depth = 0 then throw ''Malformed expand expression: unmatched closing parenthesis.''
            else split_loop d cs (current @ [c]) (depth - 1) False)
      else if c = d \<and> depth = 0
      then rbind (split_loop d cs [] depth False) (\<lambda>rest. Inr (segment current @ rest))
      else split_loop d cs (current @ [c]) depth False)"

definition splitTopLevel :: "string \<Rightarrow> char \<Rightarrow> string list result" where
  "splitTopLevel s d = split_loop d s [] 0 False"

section \<open>Closing parentheses\<close>

fun closing_loop :: "string \<Rightarrow> nat \<Rightarrow> nat \<Rightarrow> bool \<Rightarrow> nat option" where
  "closing_loop [] i depth inString = None"
| "closing_loop (c # cs) i depth inString =
     (if c = quote
      then (if inString
            then (case cs of
                    q # cs' \<Rightarrow> if q = quote then closing_loop cs' (i + 2) depth True
                               else closing_loop cs (i + 1) depth False
                  | [] \<Rightarrow> closing_loop cs (i + 1) depth False)
            else closing_loop cs (i + 1) depth True)
      else if inString then closing_loop cs (i + 1) depth True
      else if c = CHR ''('' then closing_loop cs (i + 1) (depth + 1) False
      else if c = CHR '')''
      then (if depth = 1 then Some i
            else if depth = 0 then None
            else closing_loop cs (i + 1) (depth - 1) False)
      else closing_loop cs (i + 1) depth False)"

definition findClosingParen :: "string \<Rightarrow> nat \<Rightarrow> nat result" where
  "findClosingParen s openIndex =
     (case closing_loop (drop openIndex s) openIndex 0 False of
        Some i \<Rightarrow> Inr i
      | None \<Rightarrow> throw ''Malformed expression: unmatched parentheses.'')"

text \<open>\<open>extractPathAndOptions\<close>: the text before the first parenthesis and what the parentheses hold.\<close>

fun options_loop :: "string \<Rightarrow> string \<Rightarrow> nat \<Rightarrow> nat option \<Rightarrow> nat \<Rightarrow> bool \<Rightarrow> (string \<times> string option) result" where
  "options_loop s [] i start depth inString =
     (if depth \<noteq> 0 then throw ''Malformed expand segment: unmatched parentheses.''
      else Inr (s, None))"
| "options_loop s (c # cs) i start depth inString =
     (if c = quote
      then (if inString
            then (case cs of
                    q # cs' \<Rightarrow> if q = quote then options_loop s cs' (i + 2) start depth True
                               else options_loop s cs (i + 1) start depth False
                  | [] \<Rightarrow> options_loop s cs (i + 1) start depth False)
            else options_loop s cs (i + 1) start depth True)
      else if inString then options_loop s cs (i + 1) start depth True
      else if c = CHR ''(''
      then options_loop s cs (i + 1) (case start of None \<Rightarrow> Some i | Some k \<Rightarrow> Some k) (depth + 1) False
      else if c = CHR '')''
      then (if depth = 0 then throw ''Malformed expand segment: unmatched closing parenthesis.''
            else if depth = 1
            then (let k = (case start of Some k \<Rightarrow> k | None \<Rightarrow> 0);
                      options = trim (drop (k + 1) (take i s))
                  in if trim (drop (i + 1) s) \<noteq> []
                     then throw ''Malformed expand segment: trailing characters after options.''
                     else Inr (trim (take k s), if options = [] then None else Some options))
            else options_loop s cs (i + 1) start (depth - 1) False)
      else options_loop s cs (i + 1) start depth False)"

definition extractPathAndOptions :: "string \<Rightarrow> (string \<times> string option) result" where
  "extractPathAndOptions seg = (let s = trim seg in options_loop s s 0 None 0 False)"

section \<open>Nesting\<close>

text \<open>
  Read one character at a time: a doubled quote inside a literal closes and reopens it. The
  reading fails at a parenthesis that closes nothing and at a character of \<open>stops\<close> at the top.
\<close>

fun nest :: "char list \<Rightarrow> string \<Rightarrow> nat \<Rightarrow> bool \<Rightarrow> (nat \<times> bool) option" where
  "nest stops [] depth inString = Some (depth, inString)"
| "nest stops (c # cs) depth inString =
     (if c = quote then nest stops cs depth (\<not> inString)
      else if inString then nest stops cs depth True
      else if c = CHR ''('' then nest stops cs (depth + 1) False
      else if c = CHR '')'' then (if depth = 0 then None else nest stops cs (depth - 1) False)
      else if c \<in> set stops \<and> depth = 0 then None
      else nest stops cs depth False)"

definition well_nested :: "char list \<Rightarrow> string \<Rightarrow> bool" where
  "well_nested stops s \<longleftrightarrow> nest stops s 0 False = Some (0, False)"

lemma quote_facts [simp]:
  "quote \<noteq> CHR ''(''" "quote \<noteq> CHR '')''" "quote \<noteq> CHR '',''" "quote \<noteq> CHR ''/''" "quote \<noteq> CHR '';''"
  "CHR ''('' \<noteq> quote" "CHR '')'' \<noteq> quote" "CHR '','' \<noteq> quote" "CHR ''/'' \<noteq> quote" "CHR '';'' \<noteq> quote"
  by (simp_all add: quote_def)

lemma nest_append: "nest stops (s @ t) depth q = Option.bind (nest stops s depth q) (\<lambda>(k, b). nest stops t k b)"
  by (induction stops s depth q rule: nest.induct) auto

text \<open>The two loops, one character at a time.\<close>

lemma split_loop_quote:
  "split_loop d (quote # cs) current depth inString = split_loop d cs (current @ [quote]) depth (\<not> inString)"
  by (cases cs) auto

lemma closing_loop_quote:
  "closing_loop (quote # cs) i depth inString = closing_loop cs (i + 1) depth (\<not> inString)"
  by (cases cs) auto

lemma options_loop_quote:
  "options_loop s (quote # cs) i start depth inString = options_loop s cs (i + 1) start depth (\<not> inString)"
  by (cases cs) auto

lemma split_loop_nested:
  "nest stops s depth q = Some (k, b) \<Longrightarrow> d \<in> set stops \<Longrightarrow> d \<noteq> quote \<Longrightarrow>
   split_loop d (s @ t) current depth q = split_loop d t (current @ s) k b"
proof (induction stops s depth q arbitrary: current rule: nest.induct)
  case (2 stops c cs depth q)
  show ?case
  proof (cases "c = quote")
    case True
    with 2 show ?thesis by (simp add: split_loop_quote del: split_loop.simps)
  next
    case False
    with 2 show ?thesis by (auto split: if_splits)
  qed
qed simp

lemma closing_loop_nested:
  "nest stops s depth q = Some (k, b) \<Longrightarrow>
   closing_loop (s @ t) i (Suc depth) q = closing_loop t (i + length s) (Suc k) b"
proof (induction stops s depth q arbitrary: i rule: nest.induct)
  case (2 stops c cs depth q)
  show ?case
  proof (cases "c = quote")
    case True
    with 2 show ?thesis by (simp add: closing_loop_quote del: closing_loop.simps)
  next
    case False
    with 2 show ?thesis by (cases depth) (auto split: if_splits)
  qed
qed simp

lemma options_loop_nested:
  "nest stops s depth q = Some (k, b) \<Longrightarrow>
   options_loop full (s @ t) i (Some j) (Suc depth) q = options_loop full t (i + length s) (Some j) (Suc k) b"
proof (induction stops s depth q arbitrary: i rule: nest.induct)
  case (2 stops c cs depth q)
  show ?case
  proof (cases "c = quote")
    case True
    with 2 show ?thesis by (simp add: options_loop_quote del: options_loop.simps)
  next
    case False
    with 2 show ?thesis by (cases depth) (auto split: if_splits)
  qed
qed simp

section \<open>Taking texts apart again\<close>

definition piece :: "char \<Rightarrow> string \<Rightarrow> bool" where
  "piece d s \<longleftrightarrow> well_nested [d] s \<and> s \<noteq> [] \<and> trim s = s"

lemma segment_piece [simp]: "piece d s \<Longrightarrow> segment s = [s]"
  by (simp add: segment_def piece_def)

lemma split_loop_piece:
  "piece d s \<Longrightarrow> d \<noteq> quote \<Longrightarrow> split_loop d (s @ t) [] 0 False = split_loop d t s 0 False"
  using split_loop_nested [of "[d]" s 0 False 0 False d t "[]"] by (simp add: piece_def well_nested_def)

lemma splitTopLevel_join:
  assumes "\<forall>s\<in>set ss. piece d s" "d \<notin> {quote, CHR ''('', CHR '')''}"
  shows "splitTopLevel (join [d] ss) d = Inr ss"
  using assms
proof (induction "[d]" ss rule: join.induct)
  case 1
  show ?case by (simp add: splitTopLevel_def segment_def)
next
  case (2 s)
  then show ?case using split_loop_piece [of d s "[]"] by (simp add: splitTopLevel_def)
next
  case (3 s t ts)
  have "splitTopLevel (join [d] (t # ts)) d = Inr (t # ts)" using 3 by simp
  moreover have "splitTopLevel (join [d] (s # t # ts)) d = split_loop d (d # join [d] (t # ts)) s 0 False"
    using 3 split_loop_piece [of d s "d # join [d] (t # ts)"] by (simp add: splitTopLevel_def)
  ultimately show ?case using 3 segment_piece [of d s] by (auto simp: splitTopLevel_def)
qed

lemma findClosingParen_nested:
  assumes "well_nested [] body"
  shows "findClosingParen (pre @ ''('' @ body @ '')'' @ post) (length pre) = Inr (length pre + 1 + length body)"
  using closing_loop_nested [OF assms [unfolded well_nested_def], of "'')'' @ post" "Suc (length pre)"]
  by (simp add: findClosingParen_def)

text \<open>What the loops return lies within the text, and the pieces are not longer than it.\<close>

lemma closing_loop_bound: "closing_loop s i depth q = Some j \<Longrightarrow> i \<le> j \<and> j < i + length s"
proof (induction s arbitrary: i depth q)
  case (Cons c cs)
  show ?case
  proof (cases "c = quote")
    case True
    with Cons.prems have "closing_loop cs (i + 1) depth (\<not> q) = Some j" by (simp only: closing_loop_quote)
    from Cons.IH [OF this] show ?thesis by simp
  next
    case False
    then have "j = i \<or> (\<exists>k b. closing_loop cs (i + 1) k b = Some j)"
      using Cons.prems by (simp split: if_splits) blast+
    then show ?thesis using Cons.IH by fastforce
  qed
qed simp

lemma length_trim_le: "length (trim s) \<le> length s"
  unfolding trim_def using length_dropWhile_le [of is_space] by (metis length_rev order_trans)

lemma segment_length: "p \<in> set (segment s) \<Longrightarrow> length p \<le> length s \<and> p \<noteq> [] \<and> trim p = p"
  using length_trim_le [of s] by (auto simp: segment_def split: if_splits)

lemma split_loop_pieces:
  "split_loop d s current depth q = Inr ps \<Longrightarrow> p \<in> set ps \<Longrightarrow>
   length p \<le> length current + length s \<and> p \<noteq> [] \<and> trim p = p"
proof (induction s arbitrary: current depth q ps)
  case Nil
  then have "ps = segment current" by (simp split: if_splits)
  with Nil.prems(2) segment_length [of p current] show ?case by simp
next
  case (Cons c cs)
  consider (piece) rest where "split_loop d cs [] 0 False = Inr rest" "ps = segment current @ rest"
    | (more) k b where "split_loop d cs (current @ [c]) k b = Inr ps"
  proof (cases "c = quote")
    case True
    with Cons.prems(1) have "split_loop d cs (current @ [c]) depth (\<not> q) = Inr ps" by (simp only: split_loop_quote)
    then show ?thesis by (rule more)
  next
    case False
    with Cons.prems(1) show ?thesis by (simp split: if_splits) (use piece more in blast)+
  qed
  then show ?case
  proof cases
    case piece
    from piece(2) Cons.prems(2) have "p \<in> set (segment current) \<or> p \<in> set rest" by simp
    with Cons.IH [OF piece(1)] segment_length [of p current] show ?thesis by fastforce
  next
    case more
    from Cons.IH [OF this Cons.prems(2)] show ?thesis by simp
  qed
qed

lemma splitTopLevel_pieces:
  "splitTopLevel s d = Inr ps \<Longrightarrow> p \<in> set ps \<Longrightarrow> length p \<le> length s \<and> p \<noteq> [] \<and> trim p = p"
  using split_loop_pieces [of d s "[]" 0 False ps p] by (simp add: splitTopLevel_def)

end
