(* ===== verification/FilterParser.thy ===== *)
theory FilterParser
  imports FilterAst
begin

text \<open>
  The recursive-descent parser of \<open>$filter\<close> in \<open>odata-query-parser.service.ts\<close>, on a token
  array and an index as in the source: \<open>parseOperand\<close>, one function per kind of comparison,
  \<open>tryParseLambda\<close>, and the levels \<open>parsePrimary\<close>, \<open>parseUnary\<close>, \<open>parseAnd\<close>, \<open>parseOr\<close> and
  \<open>parseExpression\<close>. A level takes the parser of nested expressions as an argument and
  \<open>parseExpression\<close> ties the knot with a bound on the nesting; the loops of \<open>parseAnd\<close> and
  \<open>parseOr\<close> have a bound on their iterations. The theorems at the end show that the bounds
  \<open>parseFilter\<close> starts with are never reached and that printing an expression and
  parsing the tokens gives the expression back.
\<close>

section \<open>Reading tokens\<close>

definition tok_is :: "string list \<Rightarrow> nat \<Rightarrow> string \<Rightarrow> bool" where
  "tok_is tokens i s \<longleftrightarrow> nth_opt tokens i = Some s"

text \<open>\<open>tokens[i]?.toLowerCase()\<close>.\<close>

definition tok_lower :: "string list \<Rightarrow> nat \<Rightarrow> string option" where
  "tok_lower tokens i = map_option lower (nth_opt tokens i)"

text \<open>\<open>!tokens[i]\<close>: out of range or empty.\<close>

definition tok_missing :: "string list \<Rightarrow> nat \<Rightarrow> bool" where
  "tok_missing tokens i \<longleftrightarrow> nth_opt tokens i = None \<or> nth_opt tokens i = Some []"

fun comparisonOperators :: "string \<Rightarrow> comparator option" where
  "comparisonOperators s =
     (if s = ''eq'' then Some Eq else if s = ''ne'' then Some Neq
      else if s = ''gt'' then Some Gt else if s = ''ge'' then Some Gte
      else if s = ''lt'' then Some Lt else if s = ''le'' then Some Lte else None)"

definition malformed_open :: "string \<Rightarrow> 'a result" where
  "malformed_open name = throw (''Malformed '' @ name @ '' invocation. Expected opening parenthesis.'')"

definition malformed_close :: "string \<Rightarrow> 'a result" where
  "malformed_close name = throw (''Malformed '' @ name @ '' invocation. Expected closing parenthesis.'')"

definition first_not_field :: "string \<Rightarrow> 'a result" where
  "first_not_field name = throw (name @ '' requires the first argument to be a field.'')"

lemmas throw_defs = malformed_open_def malformed_close_def first_not_field_def

section \<open>Operands\<close>

definition transform_str :: "transform \<Rightarrow> string \<Rightarrow> string" where
  "transform_str t s = (case t of ToLower \<Rightarrow> lower s | ToUpper \<Rightarrow> upper s)"

fun applyTransform :: "operand \<Rightarrow> transform \<Rightarrow> operand" where
  "applyTransform (FieldOperand n t0) t = FieldOperand n (Some t)"
| "applyTransform (LiteralOperand (JStr s) t0) t = LiteralOperand (JStr (transform_str t s)) (Some t)"
| "applyTransform (LiteralOperand v t0) t = LiteralOperand v (Some t)"

fun transform_of :: "string \<Rightarrow> transform option" where
  "transform_of s = (if s = ''tolower'' then Some ToLower else if s = ''toupper'' then Some ToUpper else None)"

definition operand_token :: "string \<Rightarrow> operand" where
  "operand_token token =
     (if is_quoted token then LiteralOperand (JStr (undouble (slice_inner 1 token))) None
      else if token = ''null'' then LiteralOperand JNull None
      else if token = ''true'' \<or> token = ''false'' then LiteralOperand (JBool (token = ''true'')) None
      else case tryParseNumericToken token of
          Some n \<Rightarrow> LiteralOperand (JNum (Finite n)) None
        | None \<Rightarrow> FieldOperand token None)"

function parseOperand :: "string list \<Rightarrow> nat \<Rightarrow> (operand \<times> nat) result" where
  "parseOperand tokens index =
     (case nth_opt tokens index of
        None \<Rightarrow> throw ''Unexpected end of function arguments.''
      | Some token \<Rightarrow>
          (case (if tok_is tokens (index + 1) ''('' then transform_of (lower token) else None) of
             Some t \<Rightarrow>
               rbind (parseOperand tokens (index + 2)) (\<lambda>(inner, nextIndex).
                 if tok_is tokens nextIndex '')'' then Inr (applyTransform inner t, nextIndex + 1)
                 else malformed_close (lower token))
           | None \<Rightarrow>
               if token = ''('' then
                 rbind (parseOperand tokens (index + 1)) (\<lambda>(inner, nextIndex).
                   if tok_is tokens nextIndex '')'' then Inr (inner, nextIndex + 1)
                   else throw ''Unmatched parenthesis in function argument.'')
               else Inr (operand_token token, index + 1)))"
  by pat_completeness auto
termination
  by (relation "measure (\<lambda>(tokens, i). length tokens - i)") (auto dest: nth_opt_SomeD)

declare parseOperand.simps [simp del]

fun operandToFunctionArg :: "operand \<Rightarrow> function_arg" where
  "operandToFunctionArg (FieldOperand n t) = ArgField n t"
| "operandToFunctionArg (LiteralOperand v t) = ArgLiteral v"

lemma malformed_close_ok [simp]: "malformed_close n \<noteq> Inr x"
  by (simp add: malformed_close_def)

text \<open>An operand takes at least one token and ends inside the array.\<close>

lemma parseOperand_index:
  "parseOperand tokens i = Inr (x, j) \<Longrightarrow> i < j \<and> j \<le> length tokens"
proof (induction tokens i arbitrary: x j rule: parseOperand.induct)
  case (1 tokens i)
  obtain token where t: "nth_opt tokens i = Some token" "i < length tokens"
    using 1(3) by (cases "nth_opt tokens i") (auto simp: parseOperand.simps [of tokens i] dest: nth_opt_SomeD)
  from 1(3) t show ?case
    using 1(1) [OF t(1)] 1(2) [OF t(1)]
    by (subst (asm) parseOperand.simps)
       (fastforce simp: tok_is_def dest: nth_opt_SomeD split: option.splits if_splits prod.splits)
qed

lemma parseOperand_ensures:
  "ensures (parseOperand tokens i) (\<lambda>(x, j). i < j \<and> j \<le> length tokens)"
proof -
  have "parseOperand tokens i \<noteq> Inl OutOfFuel"
  proof (induction tokens i rule: parseOperand.induct)
    case (1 tokens i)
    show ?case
    proof (cases "nth_opt tokens i")
      case None
      then show ?thesis by (simp add: parseOperand.simps [of tokens i])
    next
      case (Some token)
      note IH = 1(2) [OF Some] 1(1) [OF Some]
      show ?thesis
      proof (cases "if tok_is tokens (i + 1) ''('' then transform_of (lower token) else None")
        case None
        from IH(2) [OF None] show ?thesis
          unfolding parseOperand.simps [of tokens i] Some option.case None
          by (auto simp: rbind_eq_Inl throw_def split: if_splits)
      next
        case t: (Some t)
        from IH(1) [OF t] show ?thesis
          unfolding parseOperand.simps [of tokens i] Some option.case t
          by (auto simp: rbind_eq_Inl throw_def throw_defs split: if_splits)
      qed
    qed
  qed
  then show ?thesis using parseOperand_index by (auto simp: ensures_iff)
qed

section \<open>Comparisons of functions\<close>

text \<open>
  Each parser below returns \<open>None\<close> (the source's \<open>undefined\<close>) when the token at the index does not name its
  function, and throws when it does but what follows is malformed.
\<close>

type_synonym expr_at = "parsed_expression \<times> nat"

fun string_test_of :: "string \<Rightarrow> string_test option" where
  "string_test_of s = (if s = ''contains'' then Some Contains
     else if s = ''startswith'' then Some StartsWith
     else if s = ''endswith'' then Some EndsWith else None)"

definition test_argument :: "transform option \<Rightarrow> js_value \<Rightarrow> transform option \<Rightarrow> js_value" where
  "test_argument fieldT value valueT =
     (case value of
        JStr s \<Rightarrow>
          if fieldT = Some ToLower \<or> valueT = Some ToLower then JStr (lower s)
          else if fieldT = Some ToUpper \<or> valueT = Some ToUpper then JStr (upper s) else value
      | _ \<Rightarrow> value)"

definition parseFunction :: "string list \<Rightarrow> nat \<Rightarrow> expr_at option result" where
  "parseFunction tokens index =
     (case Option.bind (tok_lower tokens index) string_test_of of
        None \<Rightarrow> Inr None
      | Some fn \<Rightarrow>
          let name = the (tok_lower tokens index)
          in if \<not> tok_is tokens (index + 1) ''('' then malformed_open name
             else rbind (parseOperand tokens (index + 2)) (\<lambda>(fieldOperand, afterField).
               case fieldOperand of
                 LiteralOperand _ _ \<Rightarrow> first_not_field name
               | FieldOperand field fieldT \<Rightarrow>
                   if \<not> tok_is tokens afterField '','' then throw (name @ '' requires a value argument.'')
                   else rbind (parseOperand tokens (afterField + 1)) (\<lambda>(valueOperand, afterValue).
                     case valueOperand of
                       FieldOperand _ _ \<Rightarrow> throw (name @ '' requires the second argument to be a literal.'')
                     | LiteralOperand value valueT \<Rightarrow>
                         if \<not> tok_is tokens afterValue '')'' then malformed_close name
                         else Inr (Some (StringTest fn field [test_argument fieldT value valueT] True fieldT False,
                                         afterValue + 1)))))"

fun string_fn_of :: "string \<Rightarrow> string_fn option" where
  "string_fn_of s = (if s = ''trim'' then Some Trim else if s = ''concat'' then Some Concat else None)"

text \<open>The loop over the arguments of \<open>trim\<close> and \<open>concat\<close>.\<close>

function parse_args :: "string list \<Rightarrow> nat \<Rightarrow> function_arg list \<Rightarrow> (function_arg list \<times> nat) result" where
  "parse_args tokens cursor args =
     (if cursor < length tokens
      then case parseOperand tokens cursor of
          Inl e \<Rightarrow> Inl e
        | Inr (operand, next) \<Rightarrow>
            (let args' = args @ [operandToFunctionArg operand]
             in if tok_is tokens next '','' then parse_args tokens (next + 1) args' else Inr (args', next))
      else Inr (args, cursor))"
  by pat_completeness auto
termination
  by (relation "measure (\<lambda>(tokens, i, args). length tokens - i)") (auto dest: parseOperand_index)

declare parse_args.simps [simp del]

definition eq_or_ne :: "string option \<Rightarrow> comparator option" where
  "eq_or_ne t = (if t = Some ''eq'' then Some Eq else if t = Some ''ne'' then Some Neq else None)"

definition parseStringFunctionComparison :: "string list \<Rightarrow> nat \<Rightarrow> expr_at option result" where
  "parseStringFunctionComparison tokens index =
     (case Option.bind (tok_lower tokens index) string_fn_of of
        None \<Rightarrow> Inr None
      | Some fn \<Rightarrow>
          let name = the (tok_lower tokens index)
          in if \<not> tok_is tokens (index + 1) ''('' then malformed_open name
             else rbind (parse_args tokens (index + 2) []) (\<lambda>(args, cursor).
               if \<not> tok_is tokens cursor '')'' then malformed_close name
               else if fn = Trim \<and> length args \<noteq> 1 then throw ''trim requires exactly one argument.''
               else if fn = Concat \<and> length args < 2 then throw ''concat requires at least two arguments.''
               else if tok_missing tokens (cursor + 1) \<or> nth_opt tokens (cursor + 2) = None
               then throw (''Invalid '' @ name @ '' comparison.'')
               else case eq_or_ne (tok_lower tokens (cursor + 1)) of
                   None \<Rightarrow> throw (name @ '' comparison only supports eq/ne comparators.'')
                 | Some cmp \<Rightarrow>
                     (case parseLiteral (the (nth_opt tokens (cursor + 2))) of
                        JStr literal \<Rightarrow> Inr (Some (StringFnCmp fn args cmp literal, cursor + 3))
                      | _ \<Rightarrow> throw (name @ '' comparison requires a string literal comparator value.''))))"

text \<open>
  What \<open>parseDatePartComparison\<close>, \<open>parseFieldFunctionComparison\<close>, \<open>parseLengthComparison\<close>
  and the end of \<open>parseIndexOfComparison\<close> read after the closing parenthesis: a comparator
  and a number, \<open>invalid\<close> and \<open>nonnumeric\<close> being their messages.
\<close>

definition numeric_comparison ::
  "string \<Rightarrow> string \<Rightarrow> (comparator \<Rightarrow> rat \<Rightarrow> parsed_expression) \<Rightarrow> string list \<Rightarrow> nat \<Rightarrow> expr_at option result" where
  "numeric_comparison invalid nonnumeric build tokens close =
     (if tok_missing tokens (close + 1) \<or> nth_opt tokens (close + 2) = None then throw invalid
      else case comparisonOperators (the (tok_lower tokens (close + 1))) of
          None \<Rightarrow> throw (''Unsupported comparator: '' @ the (tok_lower tokens (close + 1)))
        | Some cmp \<Rightarrow>
            (case js_Number (the (nth_opt tokens (close + 2))) of
               Finite n \<Rightarrow> Inr (Some (build cmp n, close + 3))
             | _ \<Rightarrow> throw nonnumeric))"

text \<open>\<open>name(field)\<close>: the field and the index of the closing parenthesis.\<close>

definition one_field_call :: "string \<Rightarrow> string list \<Rightarrow> nat \<Rightarrow> (string \<times> nat) result" where
  "one_field_call name tokens index =
     (if \<not> tok_is tokens (index + 1) ''('' then malformed_open name
      else rbind (parseOperand tokens (index + 2)) (\<lambda>(fieldOperand, afterField).
        case fieldOperand of
          LiteralOperand _ _ \<Rightarrow> first_not_field name
        | FieldOperand field _ \<Rightarrow>
            if \<not> tok_is tokens afterField '')'' then malformed_close name else Inr (field, afterField)))"

fun date_part_of :: "string \<Rightarrow> date_part option" where
  "date_part_of s = (if s = ''month'' then Some Month else if s = ''day'' then Some Day
     else if s = ''hour'' then Some Hour else if s = ''minute'' then Some Minute
     else if s = ''second'' then Some Second else None)"

definition parseDatePartComparison :: "string list \<Rightarrow> nat \<Rightarrow> expr_at option result" where
  "parseDatePartComparison tokens index =
     (case Option.bind (tok_lower tokens index) date_part_of of
        None \<Rightarrow> Inr None
      | Some part \<Rightarrow>
          let name = the (tok_lower tokens index)
          in rbind (one_field_call name tokens index) (\<lambda>(field, close).
               numeric_comparison (''Invalid '' @ name @ '' comparison.'')
                 (name @ '' comparison requires a numeric literal comparator value.'')
                 (\<lambda>cmp n. DatePart part field cmp n) tokens close))"

fun number_fn_of :: "string \<Rightarrow> number_fn option" where
  "number_fn_of s = (if s = ''round'' then Some Round else if s = ''floor'' then Some Floor
     else if s = ''ceiling'' then Some Ceiling else if s = ''year'' then Some Year else None)"

definition parseFieldFunctionComparison :: "string list \<Rightarrow> nat \<Rightarrow> expr_at option result" where
  "parseFieldFunctionComparison tokens index =
     (case Option.bind (tok_lower tokens index) number_fn_of of
        None \<Rightarrow> Inr None
      | Some fn \<Rightarrow>
          let name = the (tok_lower tokens index)
          in rbind (one_field_call name tokens index) (\<lambda>(field, close).
               numeric_comparison ''Invalid filter expression''
                 (name @ '' requires a numeric literal comparator value.'')
                 (\<lambda>cmp n. FnCmp fn field cmp n) tokens close))"

definition parseLengthComparison :: "string list \<Rightarrow> nat \<Rightarrow> expr_at option result" where
  "parseLengthComparison tokens index =
     (if tok_lower tokens index \<noteq> Some ''length'' then Inr None
      else rbind (one_field_call ''length'' tokens index) (\<lambda>(field, close).
             numeric_comparison ''Invalid length comparison.'' ''length comparison requires a numeric value.''
               (\<lambda>cmp n. LengthCmp field cmp n) tokens close))"

definition parseIndexOfComparison :: "string list \<Rightarrow> nat \<Rightarrow> expr_at option result" where
  "parseIndexOfComparison tokens index =
     (if tok_lower tokens index \<noteq> Some ''indexof'' then Inr None
      else if \<not> tok_is tokens (index + 1) ''('' then malformed_open ''indexof''
      else rbind (parseOperand tokens (index + 2)) (\<lambda>(fieldOperand, afterField).
        case fieldOperand of
          LiteralOperand _ _ \<Rightarrow> first_not_field ''indexof''
        | FieldOperand field _ \<Rightarrow>
            if \<not> tok_is tokens afterField '','' then throw ''indexof requires a search literal.''
            else rbind (parseOperand tokens (afterField + 1)) (\<lambda>(litOperand, afterLit).
              case litOperand of
                LiteralOperand (JStr needle) _ \<Rightarrow>
                  if \<not> tok_is tokens afterLit '')'' then malformed_close ''indexof''
                  else numeric_comparison ''Invalid indexof comparison.'' ''indexof comparison requires a numeric value.''
                         (\<lambda>cmp n. IndexOfCmp field cmp n needle) tokens afterLit
              | _ \<Rightarrow> throw ''indexof requires a string literal as second argument.'')))"

fun numeric_operand :: "operand \<Rightarrow> rat option" where
  "numeric_operand (LiteralOperand (JNum (Finite n)) _) = Some n"
| "numeric_operand _ = None"

text \<open>The optional length, and what follows the arguments.\<close>

definition substring_length :: "string list \<Rightarrow> nat \<Rightarrow> (rat option \<times> nat) result" where
  "substring_length tokens afterStart =
     (if tok_is tokens afterStart '',''
      then rbind (parseOperand tokens (afterStart + 1)) (\<lambda>(lenOperand, afterLen).
        case numeric_operand lenOperand of
          None \<Rightarrow> throw ''substring length must be a numeric literal.''
        | Some n \<Rightarrow> Inr (Some n, afterLen))
      else Inr (None, afterStart))"

definition substring_comparison ::
  "string \<Rightarrow> rat \<Rightarrow> rat option \<Rightarrow> string list \<Rightarrow> nat \<Rightarrow> expr_at option result" where
  "substring_comparison field start len tokens afterArgs =
     (if \<not> tok_is tokens afterArgs '')'' then malformed_close ''substring''
      else if tok_missing tokens (afterArgs + 1) \<or> nth_opt tokens (afterArgs + 2) = None
      then throw ''Invalid substring comparison.''
      else case eq_or_ne (tok_lower tokens (afterArgs + 1)) of
          None \<Rightarrow> throw (''Unsupported comparator for substring: '' @ the (tok_lower tokens (afterArgs + 1)))
        | Some cmp \<Rightarrow>
            (case parseLiteral (the (nth_opt tokens (afterArgs + 2))) of
               JStr literal \<Rightarrow> Inr (Some (SubstrCmp field start len cmp literal, afterArgs + 3))
             | _ \<Rightarrow> throw ''substring comparison requires a string literal.''))"

definition parseSubstringComparison :: "string list \<Rightarrow> nat \<Rightarrow> expr_at option result" where
  "parseSubstringComparison tokens index =
     (if tok_lower tokens index \<noteq> Some ''substring'' then Inr None
      else if \<not> tok_is tokens (index + 1) ''('' then malformed_open ''substring''
      else rbind (parseOperand tokens (index + 2)) (\<lambda>(fieldOperand, afterField).
        case fieldOperand of
          LiteralOperand _ _ \<Rightarrow> first_not_field ''substring''
        | FieldOperand field _ \<Rightarrow>
            if \<not> tok_is tokens afterField '','' then throw ''substring requires a start argument.''
            else rbind (parseOperand tokens (afterField + 1)) (\<lambda>(startOperand, afterStart).
              case numeric_operand startOperand of
                None \<Rightarrow> throw ''substring start must be a numeric literal.''
              | Some start \<Rightarrow>
                  rbind (substring_length tokens afterStart) (\<lambda>(len, afterArgs).
                    substring_comparison field start len tokens afterArgs))))"

section \<open>Lists of literals and transformed fields\<close>

definition InOperatorRequiresLiteralListItems :: string where
  "InOperatorRequiresLiteralListItems = ''in-operator-requires-literal-list-items''"

definition InOperatorRequiresNonEmptyList :: string where
  "InOperatorRequiresNonEmptyList = ''in-operator-requires-non-empty-list''"

definition badRequestWithCode :: "string \<Rightarrow> string \<Rightarrow> 'a result" where
  "badRequestWithCode msg c = Inl (HttpError 400 c msg)"

lemma badRequestWithCode_simps [simp]:
  "badRequestWithCode m c \<noteq> Inr x" "ensures (badRequestWithCode m c) Q"
  by (simp_all add: badRequestWithCode_def)

function parse_list ::
  "bool \<Rightarrow> string list \<Rightarrow> nat \<Rightarrow> bool \<Rightarrow> js_value list \<Rightarrow> (js_value list \<times> nat) result" where
  "parse_list strict tokens cursor expectValue values =
     (case nth_opt tokens cursor of
        None \<Rightarrow> Inr (values, cursor)
      | Some token \<Rightarrow>
          if token = '')'' then
            (if expectValue \<and> values \<noteq> [] then throw ''Malformed in expression. Expected list item.''
             else Inr (values, cursor))
          else if expectValue then
            (if token = '','' then throw ''Malformed in expression. Expected list item.''
             else if strict \<and> \<not> isInListLiteralToken token
             then badRequestWithCode ''in operator requires literal list items.'' InOperatorRequiresLiteralListItems
             else parse_list strict tokens (cursor + 1) False (values @ [parseLiteral token]))
          else if token \<noteq> '','' then throw ''Malformed in expression. Expected comma between list items.''
          else parse_list strict tokens (cursor + 1) True values)"
  by pat_completeness auto
termination
  by (relation "measure (\<lambda>(s, tokens, i, b, vs). length tokens - i)") (auto dest: nth_opt_SomeD)

declare parse_list.simps [simp del]

definition parseInComparison :: "bool \<Rightarrow> string list \<Rightarrow> nat \<Rightarrow> expr_at option result" where
  "parseInComparison strict tokens index =
     (if tok_missing tokens index \<or> tok_lower tokens (index + 1) \<noteq> Some ''in'' then Inr None
      else if \<not> tok_is tokens (index + 2) ''('' then throw ''Malformed in expression. Expected opening parenthesis.''
      else rbind (parse_list strict tokens (index + 3) True []) (\<lambda>(values, cursor).
        if \<not> tok_is tokens cursor '')'' then throw ''Malformed in expression. Expected closing parenthesis.''
        else if values = []
        then badRequestWithCode ''in operator requires at least one list item.'' InOperatorRequiresNonEmptyList
        else Inr (Some (Comparison (the (nth_opt tokens index)) Inq (JArr values), cursor + 1))))"

definition starts_numeric :: "string \<Rightarrow> bool" where
  "starts_numeric s = (let (neg, r) = strip_minus s in r \<noteq> [] \<and> is_digit (hd r))"

definition not_single_field :: "string \<Rightarrow> bool" where
  "not_single_field field \<longleftrightarrow>
     starts_with field [quote] \<or> ends_with field [quote]
     \<or> field = ''('' \<or> field = '')'' \<or> field = '',''
     \<or> lower field = ''null'' \<or> lower field = ''true'' \<or> lower field = ''false''
     \<or> starts_numeric field \<or> has_typed_prefix field"

definition parseTransformComparison :: "string list \<Rightarrow> nat \<Rightarrow> expr_at option result" where
  "parseTransformComparison tokens index =
     (case Option.bind (tok_lower tokens index) transform_of of
        None \<Rightarrow> Inr None
      | Some t \<Rightarrow>
          let name = the (tok_lower tokens index)
          in if \<not> tok_is tokens (index + 1) ''('' then Inr None
             else if tok_missing tokens (index + 2) \<or> \<not> tok_is tokens (index + 3) '')''
               \<or> not_single_field (the (nth_opt tokens (index + 2)))
             then throw (name @ '' requires a single field argument.'')
             else case eq_or_ne (tok_lower tokens (index + 4)) of
                 None \<Rightarrow> throw (name @ '' comparisons support only eq/ne.'')
               | Some cmp \<Rightarrow>
                   (case nth_opt tokens (index + 5) of
                      None \<Rightarrow> throw (name @ '' comparisons require a string or null literal.'')
                    | Some valueToken \<Rightarrow>
                        if lower valueToken \<noteq> ''null'' \<and> \<not> is_quoted valueToken
                        then throw (name @ '' comparisons require a string or null literal.'')
                        else case parseLiteral valueToken of
                            JNull \<Rightarrow> Inr (Some (TransformCmp t (the (nth_opt tokens (index + 2))) cmp None, index + 6))
                          | JStr v \<Rightarrow> Inr (Some (TransformCmp t (the (nth_opt tokens (index + 2))) cmp (Some v), index + 6))
                          | _ \<Rightarrow> throw (name @ '' comparisons require a string or null literal.'')))"

section \<open>Lambda expressions\<close>

text \<open>\<open>/^([A-Za-z_][A-Za-z0-9_\/]*)\/(any|all)$/i\<close>: the path before the last slash and the kind.\<close>

definition path_char :: "char \<Rightarrow> bool" where
  "path_char c \<longleftrightarrow> ident_char c \<or> c = CHR ''/''"

definition match_lambda :: "string \<Rightarrow> (string \<times> lambda_type) option" where
  "match_lambda token =
     (let n = length token - 4; path = take n token; kind = lower (drop n token)
      in if path \<noteq> [] \<and> ident_start (hd path) \<and> list_all path_char path
         then (if kind = ''/any'' then Some (path, AnyOf)
               else if kind = ''/all'' then Some (path, AllOf) else None)
         else None)"

definition lambda_name :: "lambda_type \<Rightarrow> string" where
  "lambda_name k = (case k of AnyOf \<Rightarrow> ''any'' | AllOf \<Rightarrow> ''all'')"

text \<open>
  The loop that collects the tokens between the parenthesis after the name and its match;
  \<open>None\<close> for the index when the tokens end first.
\<close>

fun collect_inner :: "string list \<Rightarrow> int \<Rightarrow> string list \<Rightarrow> nat \<Rightarrow> (int \<times> string list \<times> nat option) result" where
  "collect_inner [] depth inner i = Inr (depth, inner, None)"
| "collect_inner (c # cs) depth inner i =
     (if c = ''('' then collect_inner cs (depth + 1) (if depth + 1 > 1 then inner @ [c] else inner) (i + 1)
      else if c = '')'' then
        (if depth - 1 < 0 then throw ''Malformed lambda expression: unmatched closing parenthesis.''
         else if depth - 1 = 0 then Inr (0, inner, Some i)
         else collect_inner cs (depth - 1) (inner @ [c]) (i + 1))
      else collect_inner cs depth (inner @ [c]) (i + 1))"

text \<open>The alias and the tokens of the predicate from the tokens between the parentheses.\<close>

definition split_alias :: "string list \<Rightarrow> (string \<times> string list) result" where
  "split_alias inner =
     (case inner of
        [] \<Rightarrow> throw ''Lambda expressions require an alias before the predicate.''
      | alias # rest \<Rightarrow>
          if alias = [] then throw ''Lambda expressions require an alias before the predicate.''
          else rbind
            (if ends_with alias '':'' then Inr (butlast alias, rest)
             else if nth_opt rest 0 = Some '':'' then Inr (alias, tl rest)
             else case index_of_char CHR '':'' alias of
                 Some idx \<Rightarrow>
                   (let front = take idx alias; back = drop (idx + 1) alias
                    in if front = [] then throw (''Malformed lambda expression: expected alias before '' @ [CHR 34] @ '':'' @ [CHR 34] @ ''.'')
                       else Inr (front, if back = [] then rest else back # rest))
               | None \<Rightarrow> throw (''Malformed lambda expression: expected '' @ [CHR 34] @ '':'' @ [CHR 34] @ '' after alias.''))
            (\<lambda>(alias', rest').
               if alias' = [] then throw ''Lambda alias cannot be empty.''
               else if rest' = [] then throw ''Lambda predicate is required.''
               else Inr (alias', rest')))"

type_synonym expr_parser = "string list \<Rightarrow> nat \<Rightarrow> expr_at result"

definition path_segments :: "string \<Rightarrow> string list" where
  "path_segments s = filter (\<lambda>p. p \<noteq> []) (split_on CHR ''/'' s)"

definition tryParseLambda :: "expr_parser \<Rightarrow> string list \<Rightarrow> nat \<Rightarrow> expr_at option result" where
  "tryParseLambda parseExpr tokens index =
     (case Option.bind (nth_opt tokens index) match_lambda of
        None \<Rightarrow> Inr None
      | Some (path, kind) \<Rightarrow>
          if \<not> tok_is tokens (index + 1) ''(''
          then throw (''Malformed '' @ lambda_name kind @ '' expression. Expected opening parenthesis.'')
          else rbind (collect_inner (drop (index + 1) tokens) 0 [] (index + 1)) (\<lambda>(depth, inner, close).
            case close of
              None \<Rightarrow> throw (if depth \<noteq> 0 then ''Malformed lambda expression: unmatched parentheses.''
                              else ''Malformed lambda expression.'')
            | Some i \<Rightarrow>
                rbind (split_alias inner) (\<lambda>(alias, rest).
                rbind (parseExpr rest 0) (\<lambda>(predicate, consumed).
                  if consumed \<noteq> length rest then throw ''Unable to parse lambda predicate.''
                  else if path_segments path = []
                  then throw ''Lambda expressions must reference a navigation property.''
                  else Inr (Some (Lambda kind (path_segments path) alias predicate, i + 1))))))"

section \<open>The levels of the grammar\<close>

text \<open>\<open>p\<close> and, where it does not apply, the next parser.\<close>

definition or_else :: "expr_at option result \<Rightarrow> expr_at result \<Rightarrow> expr_at result" where
  "or_else p q = rbind p (\<lambda>r. case r of Some x \<Rightarrow> Inr x | None \<Rightarrow> q)"

definition plain_comparison :: expr_parser where
  "plain_comparison tokens index =
     (if tok_missing tokens index \<or> tok_missing tokens (index + 1) \<or> nth_opt tokens (index + 2) = None
      then throw ''Invalid filter expression''
      else case comparisonOperators (the (tok_lower tokens (index + 1))) of
          None \<Rightarrow> throw (''Unsupported comparator: '' @ the (nth_opt tokens (index + 1)))
        | Some cmp \<Rightarrow>
            Inr (Comparison (the (nth_opt tokens index)) cmp (parseLiteral (the (nth_opt tokens (index + 2)))),
                 index + 3))"

definition parseComparison :: "expr_parser \<Rightarrow> bool \<Rightarrow> expr_parser" where
  "parseComparison parseExpr strict tokens index =
     or_else (tryParseLambda parseExpr tokens index) (
     or_else (parseTransformComparison tokens index) (
     or_else (parseStringFunctionComparison tokens index) (
     or_else (parseDatePartComparison tokens index) (
     or_else (parseFunction tokens index) (
     or_else (parseIndexOfComparison tokens index) (
     or_else (parseSubstringComparison tokens index) (
     or_else (parseLengthComparison tokens index) (
     or_else (parseFieldFunctionComparison tokens index) (
     or_else (parseInComparison strict tokens index) (
     plain_comparison tokens index))))))))))"

definition parsePrimary :: "expr_parser \<Rightarrow> bool \<Rightarrow> expr_parser" where
  "parsePrimary parseExpr strict tokens index =
     (if tok_is tokens index ''(''
      then rbind (parseExpr tokens (index + 1)) (\<lambda>(expr, nextIndex).
        if tok_is tokens nextIndex '')'' then Inr (expr, nextIndex + 1)
        else throw ''Unmatched parenthesis in filter expression.'')
      else parseComparison parseExpr strict tokens index)"

function parseUnary :: "expr_parser \<Rightarrow> bool \<Rightarrow> expr_parser" where
  "parseUnary parseExpr strict tokens index =
     (if tok_lower tokens index = Some ''not''
      then rbind (parseUnary parseExpr strict tokens (index + 1)) (\<lambda>(expr, nextIndex). Inr (Not expr, nextIndex))
      else parsePrimary parseExpr strict tokens index)"
  by pat_completeness auto
termination
  by (relation "measure (\<lambda>(pe, s, tokens, i). length tokens - i)")
     (auto simp: tok_lower_def dest: nth_opt_SomeD)

declare parseUnary.simps [simp del]

text \<open>
  The loops of \<open>parseAnd\<close> and \<open>parseOr\<close>: \<open>operand\<close> parses an operand, \<open>word\<close> is the
  operator. Each iteration takes a token at least, so the number of tokens bounds them.
\<close>

fun binary_loop ::
  "nat \<Rightarrow> expr_parser \<Rightarrow> string \<Rightarrow> logical_type \<Rightarrow> string list \<Rightarrow> parsed_expression \<Rightarrow> nat \<Rightarrow> expr_at result" where
  "binary_loop 0 operand word t tokens left nextIndex = Inl OutOfFuel"
| "binary_loop (Suc n) operand word t tokens left nextIndex =
     (if nextIndex < length tokens \<and> tok_lower tokens nextIndex = Some word
      then rbind (operand tokens (nextIndex + 1)) (\<lambda>(right, afterRight).
             binary_loop n operand word t tokens (Logical t [left, right]) afterRight)
      else Inr (left, nextIndex))"

definition binary_level :: "expr_parser \<Rightarrow> string \<Rightarrow> logical_type \<Rightarrow> expr_parser" where
  "binary_level operand word t tokens index =
     rbind (operand tokens index) (\<lambda>(left, nextIndex).
       binary_loop (Suc (length tokens)) operand word t tokens left nextIndex)"

definition parseAnd :: "expr_parser \<Rightarrow> bool \<Rightarrow> expr_parser" where
  "parseAnd parseExpr strict = binary_level (parseUnary parseExpr strict) ''and'' And"

definition parseOr :: "expr_parser \<Rightarrow> bool \<Rightarrow> expr_parser" where
  "parseOr parseExpr strict = binary_level (parseAnd parseExpr strict) ''or'' Or"

text \<open>\<open>parseExpression\<close>, with a bound on the nesting of parentheses and lambdas.\<close>

primrec parseExpression :: "nat \<Rightarrow> bool \<Rightarrow> expr_parser" where
  "parseExpression 0 strict = (\<lambda>tokens index. Inl OutOfFuel)"
| "parseExpression (Suc n) strict = parseOr (parseExpression n strict) strict"

definition parseFilter :: "string list \<Rightarrow> nat \<Rightarrow> bool \<Rightarrow> expr_at result" where
  "parseFilter tokens startIndex strict =
     (if length tokens \<le> startIndex then throw ''Empty filter expression''
      else parseExpression (Suc (length tokens)) strict tokens startIndex)"

section \<open>Every parser ends and moves forward\<close>

definition moved :: "string list \<Rightarrow> nat \<Rightarrow> expr_at \<Rightarrow> bool" where
  "moved tokens i r \<longleftrightarrow> i < snd r \<and> snd r \<le> length tokens \<and> lambdas_wf (fst r)"

definition moved_opt :: "string list \<Rightarrow> nat \<Rightarrow> expr_at option \<Rightarrow> bool" where
  "moved_opt tokens i r \<longleftrightarrow> (case r of None \<Rightarrow> True | Some x \<Rightarrow> moved tokens i x)"

lemma moved_simps [simp]:
  "moved tokens i (x, j) \<longleftrightarrow> i < j \<and> j \<le> length tokens \<and> lambdas_wf x"
  "moved_opt tokens i None" "moved_opt tokens i (Some r) \<longleftrightarrow> moved tokens i r"
  by (simp_all add: moved_def moved_opt_def)

lemma throws_ensure [simp]:
  "ensures (malformed_open n) Q" "ensures (malformed_close n) Q" "ensures (first_not_field n) Q"
  by (simp_all add: throw_defs)

lemma tok_isD: "tok_is tokens i s \<Longrightarrow> i < length tokens"
  by (auto simp: tok_is_def dest: nth_opt_SomeD)

lemma nth_opt_NoneD: "nth_opt tokens i \<noteq> None \<Longrightarrow> i < length tokens"
  by (auto simp: nth_opt_def split: if_splits)

lemma parse_operand_at:
  "(\<And>x j. i < j \<Longrightarrow> j \<le> length tokens \<Longrightarrow> ensures (f (x, j)) Q) \<Longrightarrow> ensures (rbind (parseOperand tokens i) f) Q"
  by (rule ensures_rbind [OF parseOperand_ensures]) auto

lemma numeric_comparison_ensures:
  "i \<le> close \<Longrightarrow> (\<And>c n. lambdas_wf (build c n)) \<Longrightarrow> ensures (numeric_comparison m1 m2 build tokens close) (moved_opt tokens i)"
  by (auto simp: numeric_comparison_def dest!: nth_opt_SomeD split: option.splits js_number.splits if_splits)

lemma one_field_call_ensures:
  "ensures (one_field_call name tokens i) (\<lambda>(f, j). i \<le> j)"
  by (auto simp: one_field_call_def intro!: parse_operand_at split: operand.splits)

lemma parseFunction_ensures: "ensures (parseFunction tokens i) (moved_opt tokens i)"
  by (auto simp: parseFunction_def Let_def intro!: parse_operand_at dest!: tok_isD
      split: option.splits operand.splits)

lemma parse_args_ensures: "i \<le> length tokens \<Longrightarrow> ensures (parse_args tokens i args) (\<lambda>(args', j). i \<le> j)"
proof (induction tokens i args rule: parse_args.induct)
  case (1 tokens i args)
  show ?case
  proof (cases "parseOperand tokens i")
    case (Inl e)
    with parseOperand_ensures [of tokens i] show ?thesis
      by (simp add: parse_args.simps [of tokens i])
  next
    case (Inr r)
    obtain op j where r: "r = (op, j)" by (cases r)
    with Inr have j: "i < j" "j \<le> length tokens" using parseOperand_index by auto
    have rec: "ensures (parse_args tokens (j + 1) (args @ [operandToFunctionArg op])) (\<lambda>(args', k). i \<le> k)"
      if c: "tok_is tokens j '',''" "i < length tokens"
      by (rule ensures_mono [OF "1.IH" [OF c(2) Inr _ refl c(1)]])
         (use r j tok_isD [OF c(1)] in auto)
    show ?thesis
      using Inr r j rec by (subst parse_args.simps) (simp add: Let_def)
  qed
qed

lemma parseStringFunctionComparison_ensures:
  "ensures (parseStringFunctionComparison tokens i) (moved_opt tokens i)"
proof (cases "tok_is tokens (i + 1) ''(''")
  case True
  then have "i + 2 \<le> length tokens" by (auto dest: tok_isD)
  then show ?thesis
    using True
    by (auto simp: parseStringFunctionComparison_def Let_def dest!: nth_opt_SomeD
        intro!: ensures_rbind [OF parse_args_ensures] split: option.splits js_value.splits)
next
  case False
  then show ?thesis
    by (auto simp: parseStringFunctionComparison_def Let_def split: option.splits)
qed

lemma parseDatePartComparison_ensures: "ensures (parseDatePartComparison tokens i) (moved_opt tokens i)"
  by (auto simp: parseDatePartComparison_def Let_def split: option.splits
      intro!: ensures_rbind [OF one_field_call_ensures] numeric_comparison_ensures)

lemma parseFieldFunctionComparison_ensures: "ensures (parseFieldFunctionComparison tokens i) (moved_opt tokens i)"
  by (auto simp: parseFieldFunctionComparison_def Let_def split: option.splits
      intro!: ensures_rbind [OF one_field_call_ensures] numeric_comparison_ensures)

lemma parseLengthComparison_ensures: "ensures (parseLengthComparison tokens i) (moved_opt tokens i)"
  by (auto simp: parseLengthComparison_def Let_def
      intro!: ensures_rbind [OF one_field_call_ensures] numeric_comparison_ensures)

lemma parseIndexOfComparison_ensures: "ensures (parseIndexOfComparison tokens i) (moved_opt tokens i)"
  by (auto simp: parseIndexOfComparison_def intro!: parse_operand_at numeric_comparison_ensures
      split: operand.splits js_value.splits)

lemma substring_length_ensures:
  "ensures (substring_length tokens j) (\<lambda>(l, k). j \<le> k)"
  by (auto simp: substring_length_def intro!: parse_operand_at split: option.splits)

lemma substring_comparison_ensures:
  "i \<le> k \<Longrightarrow> ensures (substring_comparison field start len tokens k) (moved_opt tokens i)"
  by (auto simp: substring_comparison_def dest!: nth_opt_SomeD split: option.splits js_value.splits)

lemma parseSubstringComparison_ensures: "ensures (parseSubstringComparison tokens i) (moved_opt tokens i)"
  unfolding parseSubstringComparison_def
  by (auto intro!: parse_operand_at ensures_rbind [OF substring_length_ensures] substring_comparison_ensures
      split: operand.splits option.splits)

lemma parse_list_ensures:
  "i \<le> length tokens \<Longrightarrow> ensures (parse_list strict tokens i ev vs) (\<lambda>(vs', j). i \<le> j)"
proof (induction strict tokens i ev vs rule: parse_list.induct)
  case (1 strict tokens i ev vs)
  show ?case
  proof (cases "nth_opt tokens i")
    case (Some token)
    then have "i < length tokens" by (rule nth_opt_SomeD)
    then show ?thesis
      using Some "1.IH" [OF Some]
      by (subst parse_list.simps) (auto elim!: ensures_mono)
  qed (simp add: parse_list.simps)
qed

lemma parseInComparison_ensures: "ensures (parseInComparison strict tokens i) (moved_opt tokens i)"
proof (cases "tok_is tokens (i + 2) ''(''")
  case True
  then have "i + 3 \<le> length tokens" by (auto dest: tok_isD)
  then show ?thesis
    by (auto simp: parseInComparison_def dest!: tok_isD intro!: ensures_rbind [OF parse_list_ensures])
qed (auto simp: parseInComparison_def)

lemma parseTransformComparison_ensures: "ensures (parseTransformComparison tokens i) (moved_opt tokens i)"
  by (auto simp: parseTransformComparison_def Let_def dest!: nth_opt_SomeD
      split: option.splits js_value.splits)

lemma plain_comparison_ensures: "ensures (plain_comparison tokens i) (moved tokens i)"
  by (auto simp: plain_comparison_def dest!: nth_opt_SomeD split: option.splits)

lemma or_else_ensures:
  "ensures p (moved_opt tokens i) \<Longrightarrow> ensures q (moved tokens i) \<Longrightarrow> ensures (or_else p q) (moved tokens i)"
  unfolding or_else_def by (erule ensures_rbind) (auto split: option.splits)

lemma collect_inner_ensures:
  "ensures (collect_inner cs depth inner i) (\<lambda>(d, inner', j). case j of None \<Rightarrow> True
     | Some k \<Rightarrow> k < i + length cs \<and> length inner' + i \<le> length inner + k)"
proof (induction cs depth inner i rule: collect_inner.induct)
  case (2 c cs depth inner i)
  let ?Q = "\<lambda>(d, inner', j). case j of None \<Rightarrow> True
     | Some k \<Rightarrow> k < i + length (c # cs) \<and> length inner' + i \<le> length inner + k"
  have step: "ensures (collect_inner cs d inn (i + 1)) ?Q"
    if "ensures (collect_inner cs d inn (i + 1)) (\<lambda>(d, inner', j). case j of None \<Rightarrow> True
     | Some k \<Rightarrow> k < i + 1 + length cs \<and> length inner' + (i + 1) \<le> length inn + k)"
      "length inn \<le> length inner + 1" for d inn
    by (rule ensures_mono [OF that(1)]) (use that(2) in \<open>auto split: option.splits\<close>)
  show ?case
    using step [OF 2(1)] step [OF 2(2)] step [OF 2(3)] by auto
qed simp

lemma split_alias_ensures:
  "ensures (split_alias inner) (\<lambda>(a, rest). length rest \<le> length inner \<and> rest \<noteq> [] \<and> a \<noteq> [])"
  by (auto simp: split_alias_def Let_def split: list.splits option.splits intro!: ensures_rbind
      [where P = "\<lambda>(a, rest). length rest \<le> length inner"])

text \<open>\<open>pe\<close> parses whatever is shorter than \<open>n\<close> tokens.\<close>

definition expr_ok :: "nat \<Rightarrow> expr_parser \<Rightarrow> bool" where
  "expr_ok n pe \<longleftrightarrow> (\<forall>tokens i. length tokens - i < n \<longrightarrow> ensures (pe tokens i) (moved tokens i))"

lemma expr_okD: "expr_ok n pe \<Longrightarrow> length tokens - i < n \<Longrightarrow> ensures (pe tokens i) (moved tokens i)"
  by (simp add: expr_ok_def)

lemma tryParseLambda_ensures:
  assumes "expr_ok n pe" "length tokens - i \<le> n"
  shows "ensures (tryParseLambda pe tokens i) (moved_opt tokens i)"
proof (cases "Option.bind (nth_opt tokens i) match_lambda")
  case (Some pk)
  then have i: "i < length tokens" by (auto dest: nth_opt_SomeD simp: bind_eq_Some_conv)
  obtain path kind where pk: "pk = (path, kind)" by (cases pk)
  have inner: "ensures (rbind (split_alias inner) (\<lambda>(alias, rest).
                rbind (pe rest 0) (\<lambda>(predicate, consumed).
                  if consumed \<noteq> length rest then throw ''Unable to parse lambda predicate.''
                  else if path_segments path = []
                  then throw ''Lambda expressions must reference a navigation property.''
                  else Inr (Some (Lambda kind (path_segments path) alias predicate, k + 1)))))
             (moved_opt tokens i)"
    if k: "k < length tokens" "length inner + (i + 1) \<le> k" for inner k
  proof (rule ensures_rbind [OF split_alias_ensures], clarify)
    fix a :: string and rest :: "string list"
    assume "length rest \<le> length inner" and "a \<noteq> []"
    then have "length rest - 0 < n" using k i assms(2) by linarith
    then have "ensures (pe rest 0) (moved rest 0)" by (intro expr_okD [OF assms(1)])
    then show "ensures (rbind (pe rest 0) (\<lambda>(predicate, consumed).
                  if consumed \<noteq> length rest then throw ''Unable to parse lambda predicate.''
                  else if path_segments path = []
                  then throw ''Lambda expressions must reference a navigation property.''
                  else Inr (Some (Lambda kind (path_segments path) a predicate, k + 1)))) (moved_opt tokens i)"
      using k \<open>a \<noteq> []\<close> by (elim ensures_rbind) auto
  qed
  have "ensures (rbind (collect_inner (drop (i + 1) tokens) 0 [] (i + 1)) f) (moved_opt tokens i)"
    if f: "\<And>d inner close. (case close of None \<Rightarrow> True
        | Some k \<Rightarrow> k < length tokens \<and> length inner + (i + 1) \<le> k) \<Longrightarrow> ensures (f (d, inner, close)) (moved_opt tokens i)" for f
    by (rule ensures_rbind [OF collect_inner_ensures], clarify, rule f) (use i in \<open>auto split: option.splits\<close>)
  then show ?thesis
    using Some pk inner unfolding tryParseLambda_def
    by (auto split: option.splits)
qed (simp add: tryParseLambda_def)

lemma parseComparison_ensures:
  assumes "expr_ok n pe" "length tokens - i \<le> n"
  shows "ensures (parseComparison pe strict tokens i) (moved tokens i)"
  unfolding parseComparison_def
  by (intro or_else_ensures tryParseLambda_ensures [OF assms] parseTransformComparison_ensures
      parseStringFunctionComparison_ensures parseDatePartComparison_ensures parseFunction_ensures
      parseIndexOfComparison_ensures parseSubstringComparison_ensures parseLengthComparison_ensures
      parseFieldFunctionComparison_ensures parseInComparison_ensures plain_comparison_ensures)

lemma parsePrimary_ensures:
  assumes "expr_ok n pe" "length tokens - i \<le> n"
  shows "ensures (parsePrimary pe strict tokens i) (moved tokens i)"
proof (cases "tok_is tokens i ''(''")
  case True
  then have "i < length tokens" by (rule tok_isD)
  with assms(2) have "length tokens - (i + 1) < n" by linarith
  from expr_okD [OF assms(1) this] True show ?thesis
    unfolding parsePrimary_def by (auto elim!: ensures_rbind dest!: tok_isD)
next
  case False
  with parseComparison_ensures [OF assms] show ?thesis by (simp add: parsePrimary_def)
qed

lemma parseUnary_ensures:
  "expr_ok n pe \<Longrightarrow> length tokens - i \<le> n \<Longrightarrow> ensures (parseUnary pe strict tokens i) (moved tokens i)"
proof (induction pe strict tokens i rule: parseUnary.induct)
  case (1 pe strict tokens i)
  show ?case
  proof (cases "tok_lower tokens i = Some ''not''")
    case True
    have "ensures (parseUnary pe strict tokens (i + 1)) (moved tokens (i + 1))"
      using "1.IH" [OF True "1.prems"(1)] "1.prems"(2) by simp
    with True show ?thesis
      by (subst parseUnary.simps) (auto elim!: ensures_rbind)
  next
    case False
    with parsePrimary_ensures [OF "1.prems"] show ?thesis
      by (subst parseUnary.simps) simp
  qed
qed

lemma binary_loop_ensures:
  assumes operand: "\<And>i. i0 \<le> i \<Longrightarrow> ensures (operand tokens i) (moved tokens i)"
  shows "i0 < i \<Longrightarrow> i \<le> length tokens \<Longrightarrow> lambdas_wf left \<Longrightarrow> length tokens - i < k \<Longrightarrow>
    ensures (binary_loop k operand word t tokens left i) (moved tokens i0)"
proof (induction k arbitrary: i left)
  case (Suc k)
  show ?case
  proof (cases "i < length tokens \<and> tok_lower tokens i = Some word")
    case True
    have "ensures (operand tokens (i + 1)) (moved tokens (i + 1))"
      using operand [of "i + 1"] Suc.prems by simp
    then show ?thesis
      using True Suc by (auto elim!: ensures_rbind)
  next
    case False
    then have "binary_loop (Suc k) operand word t tokens left i = Inr (left, i)" by auto
    with Suc.prems show ?thesis by simp
  qed
qed simp

lemma binary_level_ensures:
  assumes operand: "\<And>i. i0 \<le> i \<Longrightarrow> ensures (operand tokens i) (moved tokens i)"
    and "i0 \<le> i"
  shows "ensures (binary_level operand word t tokens i) (moved tokens i)"
  unfolding binary_level_def
proof (rule ensures_rbind [OF operand [OF assms(2)]], clarify)
  fix left j
  assume "moved tokens i (left, j)"
  with assms show "ensures (binary_loop (Suc (length tokens)) operand word t tokens left j) (moved tokens i)"
    by (intro binary_loop_ensures) auto
qed

lemma parseExpression_ok: "expr_ok n (parseExpression n strict)"
proof (induction n)
  case (Suc n)
  have "ensures (parseOr (parseExpression n strict) strict tokens i) (moved tokens i)"
    if l: "length tokens - i < Suc n" for tokens i
  proof -
    have u: "ensures (parseUnary (parseExpression n strict) strict tokens j) (moved tokens j)" if "i \<le> j" for j
      using that l by (intro parseUnary_ensures [OF Suc.IH]) simp
    have a: "ensures (parseAnd (parseExpression n strict) strict tokens j) (moved tokens j)" if "i \<le> j" for j
      unfolding parseAnd_def
      using binary_level_ensures [of i "parseUnary (parseExpression n strict) strict" tokens j] u that by blast
    show ?thesis
      unfolding parseOr_def
      using binary_level_ensures [of i "parseAnd (parseExpression n strict) strict" tokens i] a by blast
  qed
  then show ?case by (simp add: expr_ok_def)
qed (simp add: expr_ok_def)

lemma parseFilter_total: "ensures (parseFilter tokens i strict) (moved tokens i)"
  unfolding parseFilter_def
  by (auto simp del: parseExpression.simps intro!: expr_okD [OF parseExpression_ok])

end
