(* ===== verification/ComputeParser.thy ===== *)
theory ComputeParser
  imports TopLevel FilterParser
begin

text \<open>
  \<open>$compute\<close>, \<open>$orderby\<close> and the counts of \<open>odata-query-parser.service.ts\<close>: the
  precedence parser of arithmetic expressions on tokens and an index, the aliases, the
  order clauses and the readers of non-negative integers. As in the filter parser a level
  takes the parser of nested expressions as an argument; the bound on the nesting and on the
  loops is never reached. A printer with the fewest parentheses is read back.
\<close>

section \<open>Expressions\<close>

datatype compute_op = OpAdd | OpSub | OpMul | OpDiv | OpMod

datatype compute_fn = FnToLower | FnToUpper | FnConcat

datatype compute_node =
    CPath "string list"
  | CLiteral js_value
  | CBinary compute_op compute_node compute_node
  | CFunction compute_fn "compute_node list"

type_synonym node_at = "compute_node \<times> nat"
type_synonym compute_parser = "string list \<Rightarrow> nat \<Rightarrow> node_at result"

fun isComputeFunction :: "string \<Rightarrow> compute_fn option" where
  "isComputeFunction s =
     (if s = ''tolower'' then Some FnToLower else if s = ''toupper'' then Some FnToUpper
      else if s = ''concat'' then Some FnConcat else None)"

definition unescapeStringLiteral :: "string \<Rightarrow> string" where
  "unescapeStringLiteral token = undouble (slice_inner 1 token)"

definition isNumericToken :: "string \<Rightarrow> bool" where
  "isNumericToken token \<longleftrightarrow> token \<noteq> [] \<and> js_Number token \<noteq> NotANumber"

text \<open>The arguments of a function after its parenthesis.\<close>

fun compute_args :: "nat \<Rightarrow> compute_parser \<Rightarrow> string \<Rightarrow> string list \<Rightarrow> nat \<Rightarrow> compute_node list \<Rightarrow>
    (compute_node list \<times> nat) result" where
  "compute_args 0 addsub token tokens cursor args = Inl OutOfFuel"
| "compute_args (Suc k) addsub token tokens cursor args =
     (if length tokens \<le> cursor then Inr (args, cursor)
      else rbind (addsub tokens cursor) (\<lambda>(node, i).
        case nth_opt tokens i of
          None \<Rightarrow> throw (''Invalid $compute function: '' @ token)
        | Some delimiter \<Rightarrow>
            if delimiter = '','' then compute_args k addsub token tokens (i + 1) (args @ [node])
            else if delimiter = '')'' then Inr (args @ [node], i + 1)
            else throw (''Invalid $compute function arguments for '' @ token @ ''.'')))"

definition parse_word :: "string \<Rightarrow> compute_node result" where
  "parse_word token =
     (let low = lower token
      in if is_quoted token then Inr (CLiteral (JStr (unescapeStringLiteral token)))
         else if low = ''null'' then Inr (CLiteral JNull)
         else if low = ''true'' \<or> low = ''false'' then Inr (CLiteral (JBool (low = ''true'')))
         else if isNumericToken token then Inr (CLiteral (JNum (js_Number token)))
         else let path = filter (\<lambda>p. p \<noteq> []) (map trim (split_on (CHR ''/'') token))
              in if path = [] then throw (''Invalid $compute path: '' @ token) else Inr (CPath path))"

definition parseComputePrimary :: "compute_parser \<Rightarrow> compute_parser" where
  "parseComputePrimary addsub tokens i =
     (case nth_opt tokens i of
        None \<Rightarrow> throw ''Invalid $compute expression.''
      | Some token \<Rightarrow>
          if token = ''(''
          then rbind (addsub tokens (i + 1)) (\<lambda>(node, j).
                 if tok_is tokens j '')'' then Inr (node, j + 1)
                 else throw ''Invalid $compute expression: unmatched parenthesis.'')
          else case (isComputeFunction (lower token), tok_is tokens (i + 1) ''('') of
              (Some fn, True) \<Rightarrow>
                (if length tokens \<le> i + 2 then throw (''Invalid $compute function: '' @ token)
                 else if tok_is tokens (i + 2) '')'' then Inr (CFunction fn [], i + 3)
                 else rbind (compute_args (Suc (length tokens)) addsub token tokens (i + 2) []) (\<lambda>(args, j).
                        Inr (CFunction fn args, j)))
            | _ \<Rightarrow> rbind (parse_word token) (\<lambda>node. Inr (node, i + 1)))"

fun op_loop :: "nat \<Rightarrow> compute_parser \<Rightarrow> (string \<Rightarrow> compute_op option) \<Rightarrow> string list \<Rightarrow> compute_node \<Rightarrow> nat \<Rightarrow>
    node_at result" where
  "op_loop 0 operand op_of tokens node current = Inl OutOfFuel"
| "op_loop (Suc k) operand op_of tokens node current =
     (case Option.bind (tok_lower tokens current) op_of of
        None \<Rightarrow> Inr (node, current)
      | Some oper \<Rightarrow> rbind (operand tokens (current + 1)) (\<lambda>(rhs, j).
          op_loop k operand op_of tokens (CBinary oper node rhs) j))"

definition op_level :: "compute_parser \<Rightarrow> (string \<Rightarrow> compute_op option) \<Rightarrow> compute_parser" where
  "op_level operand op_of tokens i =
     rbind (operand tokens i) (\<lambda>(node, j). op_loop (Suc (length tokens)) operand op_of tokens node j)"

fun mul_op :: "string \<Rightarrow> compute_op option" where
  "mul_op s = (if s = ''mul'' then Some OpMul else if s = ''div'' then Some OpDiv
     else if s = ''mod'' then Some OpMod else None)"

fun add_op :: "string \<Rightarrow> compute_op option" where
  "add_op s = (if s = ''add'' then Some OpAdd else if s = ''sub'' then Some OpSub else None)"

definition parseComputeMulDiv :: "compute_parser \<Rightarrow> compute_parser" where
  "parseComputeMulDiv addsub = op_level (parseComputePrimary addsub) mul_op"

fun parseComputeAddSub :: "nat \<Rightarrow> compute_parser" where
  "parseComputeAddSub 0 tokens i = Inl OutOfFuel"
| "parseComputeAddSub (Suc n) tokens i = op_level (parseComputeMulDiv (parseComputeAddSub n)) add_op tokens i"

definition parseComputeExpressionTokens :: "string list \<Rightarrow> compute_node result" where
  "parseComputeExpressionTokens tokens =
     rbind (parseComputeAddSub (Suc (length tokens)) tokens 0) (\<lambda>(node, i).
       if i \<noteq> length tokens
       then throw (''Invalid $compute expression: unexpected token '' @ [CHR 34]
              @ (case nth_opt tokens i of Some t \<Rightarrow> t | None \<Rightarrow> ''undefined'') @ [CHR 34])
       else Inr node)"

section \<open>Aliases\<close>

definition simple_identifier :: "string \<Rightarrow> bool" where
  "simple_identifier s \<longleftrightarrow> s \<noteq> [] \<and> ident_start (hd s) \<and> list_all ident_char s"

fun alias_loop :: "string list \<Rightarrow> string list \<Rightarrow> nat \<Rightarrow> (string list \<times> string option) result" where
  "alias_loop seen [] depth = Inr (seen, None)"
| "alias_loop seen (t # ts) depth =
     (if t = ''('' then alias_loop (seen @ [t]) ts (depth + 1)
      else if t = '')'' then alias_loop (seen @ [t]) ts (depth - 1)
      else if depth = 0 \<and> lower t = ''as''
      then (case filter (\<lambda>a. a \<noteq> []) ts of
              [] \<Rightarrow> throw ''Invalid $compute expression: alias is required.''
            | [a] \<Rightarrow>
                if \<not> simple_identifier a then throw (''Invalid $compute alias: '' @ a)
                else if seen = [] then throw ''Invalid $compute expression: expression segment is empty.''
                else Inr (seen, Some a)
            | _ \<Rightarrow> throw ''Invalid $compute alias. Use simple identifiers without spaces.'')
      else alias_loop (seen @ [t]) ts depth)"

definition extractComputeAlias :: "string list \<Rightarrow> (string list \<times> string option) result" where
  "extractComputeAlias tokens = alias_loop [] tokens 0"

type_synonym compute_expression = "string \<times> compute_node"

definition compute_segment :: "string \<Rightarrow> compute_expression result" where
  "compute_segment seg =
     rbind (tokenize (trim seg)) (\<lambda>tokens.
       if tokens = [] then throw (''Invalid $compute expression: '' @ trim seg)
       else rbind (extractComputeAlias tokens) (\<lambda>(expressionTokens, al).
         case al of
           None \<Rightarrow> throw ''Invalid $compute expression: missing alias.''
         | Some a \<Rightarrow> rbind (parseComputeExpressionTokens expressionTokens) (\<lambda>node. Inr (a, node))))"

definition parseCompute :: "string \<Rightarrow> compute_expression list result" where
  "parseCompute compute =
     rbind (splitTopLevel compute (CHR '','')) (\<lambda>segments.
       if segments = [] then throw ''Invalid $compute expression.''
       else rbind (rmap compute_segment (filter (\<lambda>s. trim s \<noteq> []) segments)) (\<lambda>results.
         if results = [] then throw ''Invalid $compute expression.'' else Inr results))"

section \<open>Orders and counts\<close>

datatype direction = Asc | Desc

definition order_part :: "string \<Rightarrow> (string \<times> direction) result" where
  "order_part part =
     (let trimmed = trim part
      in if trimmed = [] then throw ''Invalid $orderby expression: empty property.''
         else case split_ws trimmed of
             [field] \<Rightarrow> Inr (field, Asc)
           | [field, dir] \<Rightarrow>
               if lower dir = ''asc'' then Inr (field, Asc)
               else if lower dir = ''desc'' then Inr (field, Desc)
               else throw (''Invalid $orderby direction: '' @ dir)
           | _ \<Rightarrow> throw (''Invalid $orderby expression: '' @ trimmed))"

definition order_text :: "string \<times> direction \<Rightarrow> string" where
  "order_text item = fst item @ (case snd item of Asc \<Rightarrow> '' ASC'' | Desc \<Rightarrow> '' DESC'')"

definition parseOrder :: "string \<Rightarrow> string list option result" where
  "parseOrder order =
     (if order = [] then Inr None
      else rbind (rmap order_part (split_on (CHR '','') order)) (\<lambda>items. Inr (Some (map order_text items))))"

text \<open>A count is a natural number; one too large for a double is an infinity and refused.\<close>

definition natural_value :: "js_number \<Rightarrow> nat option" where
  "natural_value v = (case v of Finite x \<Rightarrow> if is_integer x \<and> 0 \<le> x then Some (nat \<lfloor>x\<rfloor>) else None | _ \<Rightarrow> None)"

definition signed_digits :: "string \<Rightarrow> bool" where
  "signed_digits s = (let ds = snd (strip_sign s) in ds \<noteq> [] \<and> list_all is_digit ds)"

definition parseNonNegativeInteger :: "string \<Rightarrow> string \<Rightarrow> nat result" where
  "parseNonNegativeInteger value transformation =
     (let trimmed = trim value
      in if trimmed = [] then throw (transformation @ ''() requires a numeric argument.'')
         else if \<not> signed_digits trimmed then throw (transformation @ ''() requires an integer argument.'')
         else case natural_value (js_Number trimmed) of
             Some n \<Rightarrow> Inr n
           | None \<Rightarrow> throw (transformation @ ''() requires a non-negative integer argument.''))"

definition parseQueryNonNegativeInteger :: "string \<Rightarrow> string \<Rightarrow> nat result" where
  "parseQueryNonNegativeInteger value option =
     (let trimmed = trim value
      in if trimmed = [] \<or> \<not> list_all is_digit trimmed then throw (''Invalid '' @ option @ '' value: '' @ value)
         else case js_Number trimmed of
             Finite x \<Rightarrow> (if is_safe_integer x then Inr (nat \<lfloor>x\<rfloor>)
                          else throw (''Invalid '' @ option @ '' value: '' @ value))
           | _ \<Rightarrow> throw (''Invalid '' @ option @ '' value: '' @ value))"


section \<open>The bounds are never reached\<close>

abbreviation forward :: "string list \<Rightarrow> nat \<Rightarrow> node_at \<Rightarrow> bool" where
  "forward tokens i r \<equiv> i < snd r \<and> snd r \<le> length tokens"

text \<open>\<open>p\<close> parses whatever is shorter than \<open>n\<close> tokens.\<close>

definition compute_ok :: "nat \<Rightarrow> compute_parser \<Rightarrow> bool" where
  "compute_ok n p \<longleftrightarrow> (\<forall>tokens i. length tokens - i < n \<longrightarrow> ensures (p tokens i) (forward tokens i))"

lemma compute_okD: "compute_ok n p \<Longrightarrow> length tokens - i < n \<Longrightarrow> ensures (p tokens i) (forward tokens i)"
  by (simp add: compute_ok_def)

lemma compute_args_ensures:
  assumes "compute_ok n p" "length tokens - c < n"
  shows "c \<le> cursor \<Longrightarrow> cursor \<le> length tokens \<Longrightarrow> length tokens - cursor < k \<Longrightarrow>
    ensures (compute_args k p token tokens cursor args) (\<lambda>(args', j). cursor \<le> j \<and> j \<le> length tokens)"
proof (induction k arbitrary: cursor args)
  case (Suc k)
  show ?case
  proof (cases "length tokens \<le> cursor")
    case False
    have p: "ensures (p tokens cursor) (forward tokens cursor)"
      using assms Suc.prems by (intro compute_okD [OF assms(1)]) auto
    have step: "ensures (case nth_opt tokens i of
            None \<Rightarrow> throw (''Invalid $compute function: '' @ token)
          | Some delimiter \<Rightarrow>
              if delimiter = '','' then compute_args k p token tokens (i + 1) (args @ [node])
              else if delimiter = '')'' then Inr (args @ [node], i + 1)
              else throw (''Invalid $compute function arguments for '' @ token @ ''.''))
         (\<lambda>(args', j). cursor \<le> j \<and> j \<le> length tokens)"
      if i: "cursor < i" "i \<le> length tokens" for node i
    proof (cases "nth_opt tokens i")
      case (Some delimiter)
      then have "i < length tokens" by (rule nth_opt_SomeD)
      with i Suc.prems have "ensures (compute_args k p token tokens (i + 1) (args @ [node]))
          (\<lambda>(args', j). cursor \<le> j \<and> j \<le> length tokens)"
        by (intro ensures_mono [OF Suc.IH [of "i + 1" "args @ [node]"]]) auto
      with Some i \<open>i < length tokens\<close> show ?thesis by simp
    qed simp
    show ?thesis
      unfolding compute_args.simps using False
      by simp (rule ensures_rbind [OF p], use step in auto)
  qed (use Suc.prems in simp)
qed simp

lemma parse_word_ensures [simp]: "ensures (parse_word token) (\<lambda>_. True)"
  by (simp add: parse_word_def Let_def)

lemma parseComputePrimary_ensures:
  assumes "compute_ok n p" "length tokens - i \<le> n"
  shows "ensures (parseComputePrimary p tokens i) (forward tokens i)"
proof (cases "nth_opt tokens i")
  case (Some token)
  then have i: "i < length tokens" by (rule nth_opt_SomeD)
  have p: "ensures (p tokens (i + 1)) (forward tokens (i + 1))"
    using assms i by (intro compute_okD [OF assms(1)]) auto
  have a: "ensures (compute_args (Suc (length tokens)) p token tokens (i + 2) [])
      (\<lambda>(args', j). i + 2 \<le> j \<and> j \<le> length tokens)" if "i + 2 \<le> length tokens"
    using assms i that by (intro compute_args_ensures [OF assms(1), of tokens "i + 2"]) auto
  have w: "ensures (rbind (parse_word token) (\<lambda>node. Inr (node, i + 1))) (forward tokens i)"
    using i by (auto intro: ensures_rbind [OF parse_word_ensures])
  have paren: "ensures (rbind (p tokens (i + 1)) (\<lambda>(node, j).
                 if tok_is tokens j '')'' then Inr (node, j + 1)
                 else throw ''Invalid $compute expression: unmatched parenthesis.'')) (forward tokens i)"
    by (rule ensures_rbind [OF p]) (auto dest!: tok_isD)
  have call: "ensures (rbind (compute_args (Suc (length tokens)) p token tokens (i + 2) []) (\<lambda>(args, j).
                        Inr (CFunction fn args, j))) (forward tokens i)" if "\<not> length tokens \<le> i + 2" for fn
    by (rule ensures_rbind [OF a]) (use that in auto)
  show ?thesis
    unfolding parseComputePrimary_def Some option.case
    using w paren call by (auto dest: tok_isD split: option.splits bool.splits simp del: compute_args.simps)
qed (simp add: parseComputePrimary_def)

lemma op_loop_ensures:
  assumes operand: "\<And>i. i0 \<le> i \<Longrightarrow> ensures (operand tokens i) (forward tokens i)"
  shows "i0 < i \<Longrightarrow> i \<le> length tokens \<Longrightarrow> length tokens - i < k \<Longrightarrow>
    ensures (op_loop k operand op_of tokens node i) (forward tokens i0)"
proof (induction k arbitrary: i node)
  case (Suc k)
  show ?case
  proof (cases "Option.bind (tok_lower tokens i) op_of")
    case (Some oper)
    then have i: "i < length tokens" by (auto simp: bind_eq_Some_conv tok_lower_def dest: nth_opt_SomeD)
    have "ensures (operand tokens (i + 1)) (forward tokens (i + 1))"
      using operand Suc.prems by simp
    then show ?thesis
      using Suc i by (auto simp: Some elim!: ensures_rbind)
  qed (use Suc.prems in simp)
qed simp

lemma op_level_ensures:
  assumes operand: "\<And>i. i0 \<le> i \<Longrightarrow> ensures (operand tokens i) (forward tokens i)" and "i0 \<le> i"
  shows "ensures (op_level operand op_of tokens i) (forward tokens i)"
  unfolding op_level_def
proof (rule ensures_rbind [OF operand [OF assms(2)]], clarify)
  fix node :: compute_node and j :: nat
  assume "i < snd (node, j)" "snd (node, j) \<le> length tokens"
  with assms show "ensures (op_loop (Suc (length tokens)) operand op_of tokens node j) (forward tokens i)"
    by (intro op_loop_ensures) auto
qed

lemma parseComputeMulDiv_ensures:
  assumes "compute_ok n p" "length tokens - i \<le> n"
  shows "ensures (parseComputeMulDiv p tokens i) (forward tokens i)"
  unfolding parseComputeMulDiv_def
  using assms by (intro op_level_ensures [of i] parseComputePrimary_ensures) auto

lemma parseComputeAddSub_ok: "compute_ok n (parseComputeAddSub n)"
proof (induction n)
  case (Suc n)
  have "ensures (parseComputeAddSub (Suc n) tokens i) (forward tokens i)" if "length tokens - i < Suc n" for tokens i
    using that by (auto intro!: op_level_ensures [of i] parseComputeMulDiv_ensures [OF Suc])
  then show ?case by (simp add: compute_ok_def del: parseComputeAddSub.simps)
qed (simp add: compute_ok_def)

lemma parseComputeExpressionTokens_ensures: "ensures (parseComputeExpressionTokens tokens) (\<lambda>_. True)"
  unfolding parseComputeExpressionTokens_def
  by (rule ensures_rbind [OF compute_okD [OF parseComputeAddSub_ok]]) auto

end
