(* ===== verification/UriCoding.thy ===== *)
theory UriCoding
  imports JsStrings
begin

text \<open>
  \<open>encodeURIComponent\<close> and \<open>decodeURIComponent\<close> of the language, which the path rewriter, the entity tags
  and the parser of aggregates call, on strings as UTF-8 bytes. Decoding fails (\<open>None\<close>
  stands for the \<open>URIError\<close>) at a percent sign without two hexadecimal digits and at escaped
  bytes that are no UTF-8. Encoding a valid string and decoding it gives the string back.
\<close>

section \<open>Decoding\<close>

definition hex_value :: "char \<Rightarrow> nat option" where
  "hex_value c =
     (if is_digit c then Some (code c - 48)
      else if 97 \<le> code c \<and> code c \<le> 102 then Some (code c - 87)
      else if 65 \<le> code c \<and> code c \<le> 70 then Some (code c - 55)
      else None)"

fun read_percent :: "string \<Rightarrow> (nat \<times> string) option" where
  "read_percent (p # a # b # cs) =
     (if p = CHR ''%''
      then (case (hex_value a, hex_value b) of (Some x, Some y) \<Rightarrow> Some (16 * x + y, cs) | _ \<Rightarrow> None)
      else None)"
| "read_percent _ = None"

fun read_bytes :: "nat \<Rightarrow> string \<Rightarrow> (nat list \<times> string) option" where
  "read_bytes 0 s = Some ([], s)"
| "read_bytes (Suc n) s =
     (case read_percent s of
        None \<Rightarrow> None
      | Some (b, r) \<Rightarrow> map_option (\<lambda>(bs, r'). (b # bs, r')) (read_bytes n r))"

text \<open>How many bytes follow the first byte of a sequence, and whether they make a character.\<close>

definition following :: "nat \<Rightarrow> nat option" where
  "following b = (if b < 128 then Some 0 else if 194 \<le> b \<and> b < 224 then Some 1
     else if 224 \<le> b \<and> b < 240 then Some 2 else if 240 \<le> b \<and> b < 245 then Some 3 else None)"

definition utf8_sequence :: "nat list \<Rightarrow> bool" where
  "utf8_sequence bs = (case bs of
       [] \<Rightarrow> False
     | b # rest \<Rightarrow> following b = Some (length rest) \<and> list_all (\<lambda>x. 128 \<le> x \<and> x < 192) rest
         \<and> (b = 224 \<longrightarrow> 160 \<le> hd rest) \<and> (b = 237 \<longrightarrow> hd rest < 160)
         \<and> (b = 240 \<longrightarrow> 144 \<le> hd rest) \<and> (b = 244 \<longrightarrow> hd rest < 144))"

lemma read_percent_length: "read_percent s = Some (b, r) \<Longrightarrow> length r < length s"
  by (cases s rule: read_percent.cases) (auto split: if_splits option.splits)

lemma read_bytes_length: "read_bytes n s = Some (bs, r) \<Longrightarrow> length r \<le> length s"
  by (induction n arbitrary: s bs) (fastforce dest: read_percent_length split: option.splits)+

function decodeURIComponent :: "string \<Rightarrow> string option" where
  "decodeURIComponent [] = Some []"
| "decodeURIComponent (c # cs) =
     (if c \<noteq> CHR ''%'' then map_option (\<lambda>t. c # t) (decodeURIComponent cs)
      else case read_percent (c # cs) of
          None \<Rightarrow> None
        | Some (b, r) \<Rightarrow>
            (case Option.bind (following b) (\<lambda>n. read_bytes n r) of
               None \<Rightarrow> None
             | Some (bs, r') \<Rightarrow>
                 if utf8_sequence (b # bs)
                 then map_option (\<lambda>t. map char_of (b # bs) @ t) (decodeURIComponent r') else None))"
  by pat_completeness auto
termination
  by (relation "measure length") (auto dest!: read_percent_length read_bytes_length simp: bind_eq_Some_conv)

section \<open>Encoding\<close>

definition unreserved :: "char \<Rightarrow> bool" where
  "unreserved c \<longleftrightarrow> is_alpha c \<or> is_digit c
     \<or> c \<in> set [CHR ''-'', CHR ''_'', CHR ''.'', CHR ''!'', CHR ''~'', CHR ''*'', CHR 39, CHR ''('', CHR '')'']"

definition hex_char :: "nat \<Rightarrow> char" where
  "hex_char n = char_of (if n < 10 then 48 + n else 55 + n)"

definition percent :: "nat \<Rightarrow> string" where
  "percent b = [CHR ''%'', hex_char (b div 16), hex_char (b mod 16)]"

definition encode_char :: "char \<Rightarrow> string" where
  "encode_char c = (if unreserved c then [c] else percent (code c))"

definition encodeURIComponent :: "string \<Rightarrow> string" where
  "encodeURIComponent s = concat (map encode_char s)"

section \<open>Decoding what was encoded\<close>

text \<open>Strings that are UTF-8.\<close>

function valid_utf8 :: "string \<Rightarrow> bool" where
  "valid_utf8 [] = True"
| "valid_utf8 (c # cs) =
     (case following (code c) of
        None \<Rightarrow> False
      | Some n \<Rightarrow> utf8_sequence (map code (c # take n cs)) \<and> valid_utf8 (drop n cs))"
  by pat_completeness auto
termination
  by (relation "measure length") auto

lemma hex_char_value: "n < 16 \<Longrightarrow> hex_value (hex_char n) = Some n"
  by (auto simp: hex_value_def hex_char_def is_digit_def code_char_of)

lemma read_percent_percent: "b < 256 \<Longrightarrow> read_percent (percent b @ r) = Some (b, r)"
  by (simp add: percent_def hex_char_value)

lemma unreserved_ascii: "unreserved c \<Longrightarrow> code c < 128 \<and> c \<noteq> CHR ''%''"
  by (auto simp: unreserved_def is_alpha_def is_upper_def is_lower_def is_digit_def code_def)

lemma read_bytes_percents:
  "\<forall>c\<in>set cs. 128 \<le> code c \<Longrightarrow> read_bytes (length cs) (encodeURIComponent cs @ r) = Some (map code cs, r)"
proof (induction cs)
  case (Cons c cs)
  then have "encode_char c = percent (code c)"
    using unreserved_ascii [of c] by (auto simp: encode_char_def)
  with Cons show ?case by (simp add: encodeURIComponent_def read_percent_percent)
qed (simp add: encodeURIComponent_def)

lemma encode_append: "encodeURIComponent (s @ t) = encodeURIComponent s @ encodeURIComponent t"
  by (simp add: encodeURIComponent_def)

lemma decode_sequence:
  assumes "utf8_sequence (map code (c # cs))"
  shows "decodeURIComponent (encodeURIComponent (c # cs) @ t) = map_option (\<lambda>u. c # cs @ u) (decodeURIComponent t)"
proof (cases "unreserved c")
  case True
  then have "code c < 128" "c \<noteq> CHR ''%''" using unreserved_ascii by blast+
  then have "cs = []" using assms by (auto simp: utf8_sequence_def following_def)
  with True \<open>c \<noteq> CHR ''%''\<close> show ?thesis by (simp add: encodeURIComponent_def encode_char_def)
next
  case False
  have n: "following (code c) = Some (length cs)" and "\<forall>d\<in>set cs. 128 \<le> code d"
    using assms by (auto simp: utf8_sequence_def list_all_iff)
  then have r: "read_bytes (length cs) (encodeURIComponent cs @ t) = Some (map code cs, t)"
    by (intro read_bytes_percents) simp
  have e: "encodeURIComponent (c # cs) @ t = percent (code c) @ (encodeURIComponent cs @ t)"
    using False by (simp add: encodeURIComponent_def encode_char_def)
  have p: "read_percent (percent (code c) @ (encodeURIComponent cs @ t)) = Some (code c, encodeURIComponent cs @ t)"
    by (rule read_percent_percent) simp
  have h: "\<exists>w. percent (code c) @ x = CHR ''%'' # w" for x by (simp add: percent_def)
  have "map char_of (map code cs) = cs" by (induction cs) simp_all
  with assms n r p h [of "encodeURIComponent cs @ t"] show ?thesis
    unfolding e by (cases "decodeURIComponent t") (auto simp: comp_def)
qed

theorem decode_encode: "valid_utf8 s \<Longrightarrow> decodeURIComponent (encodeURIComponent s) = Some s"
proof (induction s rule: valid_utf8.induct)
  case (2 c cs)
  then obtain n where n: "following (code c) = Some n" "utf8_sequence (map code (c # take n cs))"
    "valid_utf8 (drop n cs)" by (auto split: option.splits)
  have "encodeURIComponent (c # cs) = encodeURIComponent (c # take n cs) @ encodeURIComponent (drop n cs)"
    using encode_append [of "c # take n cs" "drop n cs"] by simp
  with decode_sequence [OF n(2)] 2(1) [OF n(1) n(3)] show ?case by simp
qed (simp add: encodeURIComponent_def)

lemma valid_ascii: "\<forall>c\<in>set s. code c < 128 \<Longrightarrow> valid_utf8 s"
  by (induction s) (simp_all add: following_def utf8_sequence_def)

lemma decode_plain: "CHR ''%'' \<notin> set s \<Longrightarrow> decodeURIComponent s = Some s"
  by (induction s) auto

end
