(* ===== verification/ApplyParser.thy ===== *)
theory ApplyParser
  imports ComputeParser UriCoding
begin

text \<open>
  \<open>$apply\<close> of \<open>odata-query-parser.service.ts\<close>: the pipelines of transformations, their aggregates
  and the aggregation \<open>deriveAggregationSpecFromPipeline\<close> reads off a pipeline. Pipelines
  nest through \<open>concat\<close>; the bound on the nesting is the length of the text and is never reached.
\<close>

section \<open>Aggregates\<close>

text \<open>
  \<open>ObjectConstructor\<close> is what the operator table holds, by inheritance, under the name
  \<open>constructor\<close>.
\<close>

datatype aggregation_operator = Sum | Average | Min | Max | Count | CountDistinct | ObjectConstructor

record aggregation =
  agg_field :: "string option"
  agg_expression :: "compute_node option"
  agg_operator :: aggregation_operator
  agg_alias :: string

definition isValidPath :: "string \<Rightarrow> bool" where
  "isValidPath path \<longleftrightarrow> list_all simple_identifier (split_on (CHR ''/'') path)"

text \<open>\<open>operatorMap[operatorToken]\<close>.\<close>

fun operatorMap :: "string \<Rightarrow> aggregation_operator option" where
  "operatorMap s =
     (if s = ''sum'' then Some Sum else if s = ''min'' then Some Min else if s = ''max'' then Some Max
      else if s = ''average'' then Some Average else if s = ''avg'' then Some Average
      else if s = ''count'' then Some Count else if s = ''countdistinct'' then Some CountDistinct
      else if s = ''constructor'' then Some ObjectConstructor else None)"

text \<open>\<open>s.replace(/%24/gi, '$')\<close>.\<close>

fun undollar :: "string \<Rightarrow> string" where
  "undollar (p # a # b # cs) =
     (if p = CHR ''%'' \<and> a = CHR ''2'' \<and> b = CHR ''4'' then CHR ''$'' # undollar cs
      else p # undollar (a # b # cs))"
| "undollar s = s"

definition normalize_aggregate :: "string \<Rightarrow> string" where
  "normalize_aggregate expr =
     (let normalized = undollar expr
      in case decodeURIComponent (replace_char (CHR ''+'') '' '' normalized) of
          Some t \<Rightarrow> t | None \<Rightarrow> normalized)"

text \<open>A word, a run of white space or a run of letters at the front or at the back.\<close>

definition after_spaces :: "string \<Rightarrow> string option" where
  "after_spaces s = (if s \<noteq> [] \<and> is_space (hd s) then Some (dropWhile is_space s) else None)"

definition after_word :: "string \<Rightarrow> string \<Rightarrow> string option" where
  "after_word w s = (if lower (take (length w) s) = w then Some (drop (length w) s) else None)"

definition line_end :: "char \<Rightarrow> bool" where
  "line_end c \<longleftrightarrow> code c = 10 \<or> code c = 13"

text \<open>\<open>/^\$count\s+as\s+([A-Za-z_][A-Za-z0-9_]*)$/i\<close>.\<close>

definition match_count :: "string \<Rightarrow> string option" where
  "match_count s =
     Option.bind (after_word ''$count'' s) (\<lambda>r. Option.bind (after_spaces r) (\<lambda>r.
       Option.bind (after_word ''as'' r) (\<lambda>r. Option.bind (after_spaces r) (\<lambda>a.
         if simple_identifier a then Some a else None))))"

text \<open>
  \<open>/^(.+)\s+with\s+([A-Za-z]+)\s+as\s+([A-Za-z_][A-Za-z0-9_]*)$/i\<close>, read from the end: the text is
  reversed, and the operand is what is left. The operand is trimmed afterwards, so only
  white space is lost with the split of the first run.
\<close>

definition match_operand :: "string \<Rightarrow> string option" where
  "match_operand pre =
     (let core = rev (dropWhile is_space (rev pre))
      in if core \<noteq> []
         then (if length core < length pre \<and> \<not> list_ex line_end core then Some (trim core) else None)
         else if 2 \<le> length pre \<and> \<not> line_end (hd pre) then Some [] else None)"

definition match_aggregate :: "string \<Rightarrow> (string \<times> string \<times> string) option" where
  "match_aggregate s =
     (let r = rev s; al = rev (takeWhile (\<lambda>c. \<not> is_space c) r); r1 = dropWhile (\<lambda>c. \<not> is_space c) r
      in if \<not> simple_identifier al then None
         else Option.bind (after_spaces r1) (\<lambda>r2.
           Option.bind (after_word ''sa'' r2) (\<lambda>r3. Option.bind (after_spaces r3) (\<lambda>r4.
             let oper = rev (takeWhile is_alpha r4)
             in if oper = [] then None
                else Option.bind (after_spaces (dropWhile is_alpha r4)) (\<lambda>r5.
                  Option.bind (after_word ''htiw'' r5) (\<lambda>r6.
                    map_option (\<lambda>operand. (operand, oper, al)) (match_operand (rev r6))))))))"

definition aggregate_operand :: "string \<Rightarrow> (string option \<times> compute_node option) result" where
  "aggregate_operand raw =
     (if raw = ''*'' then Inr (None, None)
      else if isValidPath raw then Inr (Some raw, None)
      else rbind (tokenize raw) (\<lambda>tokens.
        if tokens = [] then throw (''Unsupported aggregate operand: '' @ raw)
        else case parseComputeExpressionTokens tokens of
            Inr node \<Rightarrow> Inr (None, Some node)
          | Inl e \<Rightarrow> throw (''Unsupported aggregate operand: '' @ raw)))"

definition parseAggregateExpression :: "string \<Rightarrow> aggregation result" where
  "parseAggregateExpression raw =
     (let expr = trim raw; normalized = normalize_aggregate expr
      in if expr = [] then throw ''Empty aggregate expression.''
         else case match_count normalized of
             Some a \<Rightarrow> Inr \<lparr>agg_field = None, agg_expression = None, agg_operator = Count, agg_alias = a\<rparr>
           | None \<Rightarrow>
               (case match_aggregate normalized of
                  None \<Rightarrow> throw (''Invalid aggregate expression: '' @ expr)
                | Some (operand, oper, a) \<Rightarrow>
                    (case operatorMap (lower oper) of
                       None \<Rightarrow> throw (''Unsupported aggregation operator: '' @ lower oper)
                     | Some f \<Rightarrow>
                         if operand = ''*'' \<and> f \<noteq> Count
                         then throw ''Only count(*) is supported for the wildcard aggregator.''
                         else rbind (aggregate_operand operand) (\<lambda>(field, expression).
                           if field = None \<and> expression = None \<and> f \<noteq> Count
                           then throw (''Invalid aggregate operand for '' @ lower oper @ ''.'')
                           else Inr \<lparr>agg_field = field, agg_expression = expression,
                                     agg_operator = f, agg_alias = a\<rparr>))))"

section \<open>Transformations\<close>

datatype apply_transformation =
    TFilter parsed_expression
  | TGroupBy "string list" "aggregation list"
  | TAggregate "aggregation list"
  | TOrderBy "(string \<times> direction) list"
  | TSkip nat
  | TTop nat
  | TBottom nat
  | TConcat "apply_transformation list list"

type_synonym apply_pipeline = "apply_transformation list"

definition parseApplyFilter :: "string \<Rightarrow> apply_transformation result" where
  "parseApplyFilter body =
     (if trim body = [] then throw ''filter() requires an expression.''
      else rbind (tokenize (trim body)) (\<lambda>tokens.
        if tokens = [] then throw ''filter() requires an expression.''
        else rbind (parseFilter tokens 0 False) (\<lambda>(expression, next).
          if next \<noteq> length tokens then throw ''Invalid filter() transformation.''
          else Inr (TFilter expression))))"

text \<open>\<open>/^,?\s*aggregate\s*\((.*)\)\s*$/i\<close> on a trimmed text.\<close>

definition match_aggregate_clause :: "string \<Rightarrow> string option" where
  "match_aggregate_clause s =
     (let s1 = (if s \<noteq> [] \<and> hd s = CHR '','' then tl s else s)
      in Option.bind (after_word ''aggregate'' (dropWhile is_space s1)) (\<lambda>r.
           let r1 = dropWhile is_space r
           in if 2 \<le> length r1 \<and> hd r1 = CHR ''('' \<and> last r1 = CHR '')''
                 \<and> \<not> list_ex line_end (butlast (tl r1))
              then Some (butlast (tl r1)) else None))"

definition parseApplyGroupBy :: "string \<Rightarrow> apply_transformation result" where
  "parseApplyGroupBy body =
     (let trimmed = trim body
      in if \<not> starts_with trimmed ''('' then throw ''groupby requires a list of properties in double parentheses.''
         else rbind (findClosingParen trimmed 0) (\<lambda>groupClose.
           let groupFieldsExpr = trim (drop 1 (take groupClose trimmed));
               remainder = trim (drop (groupClose + 1) trimmed);
               groupFields = (if groupFieldsExpr = [] then []
                 else filter (\<lambda>p. p \<noteq> []) (map trim (split_on (CHR '','') groupFieldsExpr)))
           in if groupFields = [] then throw ''groupby requires at least one property.''
              else case find (\<lambda>f. \<not> isValidPath f) groupFields of
                  Some f \<Rightarrow> throw (''Unsupported group-by property: '' @ f)
                | None \<Rightarrow>
                    if remainder = [] then throw ''aggregate(...) clause is required within groupby.''
                    else case match_aggregate_clause remainder of
                        None \<Rightarrow> throw ''Unsupported $apply expression. Expected aggregate(...) after groupby.''
                      | Some aggregateBody \<Rightarrow>
                          rbind (splitTopLevel aggregateBody (CHR '','')) (\<lambda>aggregateTokens.
                            if aggregateTokens = [] then throw ''aggregate(...) must specify at least one aggregation.''
                            else rbind (rmap parseAggregateExpression aggregateTokens) (\<lambda>aggregates.
                              Inr (TGroupBy groupFields aggregates)))))"

definition parseApplyAggregate :: "string \<Rightarrow> apply_transformation result" where
  "parseApplyAggregate body =
     (if trim body = [] then throw ''aggregate() requires at least one expression.''
      else rbind (splitTopLevel (trim body) (CHR '','')) (\<lambda>aggregateTokens.
        if aggregateTokens = [] then throw ''aggregate() requires at least one expression.''
        else rbind (rmap parseAggregateExpression aggregateTokens) (\<lambda>expressions.
          Inr (TAggregate expressions))))"

definition order_item :: "string \<Rightarrow> string \<times> direction" where
  "order_item item =
     (case split_ws item of
        [] \<Rightarrow> ([], Asc)
      | [field] \<Rightarrow> (field, Asc)
      | field # dir # _ \<Rightarrow> (field, if lower dir = ''desc'' then Desc else Asc))"

definition parseApplyOrderBy :: "string \<Rightarrow> apply_transformation result" where
  "parseApplyOrderBy body =
     rbind (parseOrder body) (\<lambda>orderStrings.
       case orderStrings of
         None \<Rightarrow> throw ''orderby() requires at least one property.''
       | Some items \<Rightarrow> if items = [] then throw ''orderby() requires at least one property.''
           else Inr (TOrderBy (map order_item items)))"

definition parseApplySkip :: "string \<Rightarrow> apply_transformation result" where
  "parseApplySkip body = rbind (parseNonNegativeInteger body ''skip'') (\<lambda>n. Inr (TSkip n))"

definition parseApplyTop :: "string \<Rightarrow> apply_transformation result" where
  "parseApplyTop body = rbind (parseNonNegativeInteger body ''top'') (\<lambda>n. Inr (TTop n))"

definition parseApplyBottom :: "string \<Rightarrow> apply_transformation result" where
  "parseApplyBottom body = rbind (parseNonNegativeInteger body ''bottom'') (\<lambda>n. Inr (TBottom n))"

definition parseApplyConcat :: "(string \<Rightarrow> apply_pipeline result) \<Rightarrow> string \<Rightarrow> apply_transformation result" where
  "parseApplyConcat pipeline body =
     rbind (splitTopLevel body (CHR '','')) (\<lambda>segments.
       if length segments < 2 then throw ''concat() requires at least two pipeline arguments.''
       else rbind (rmap pipeline segments) (\<lambda>pipelines. Inr (TConcat pipelines)))"

definition parseApplyTransformation :: "(string \<Rightarrow> apply_pipeline result) \<Rightarrow> string \<Rightarrow> apply_transformation result" where
  "parseApplyTransformation pipeline seg =
     (let trimmed = trim seg
      in if trimmed = [] then throw ''Empty $apply transformation.''
         else case index_of_char (CHR ''('') trimmed of
             None \<Rightarrow> throw (''Invalid $apply transformation: '' @ seg)
           | Some openIndex \<Rightarrow>
               rbind (findClosingParen trimmed openIndex) (\<lambda>closeIndex.
                 let name = lower (trim (take openIndex trimmed));
                     remainder = trim (drop (closeIndex + 1) trimmed);
                     inner = trim (drop (openIndex + 1) (take closeIndex trimmed))
                 in if remainder \<noteq> []
                    then throw (''Invalid $apply transformation: unexpected content '' @ [CHR 34] @ remainder @ [CHR 34] @ ''.'')
                    else if name = ''filter'' then parseApplyFilter inner
                    else if name = ''groupby'' then parseApplyGroupBy inner
                    else if name = ''aggregate'' then parseApplyAggregate inner
                    else if name = ''orderby'' then parseApplyOrderBy inner
                    else if name = ''skip'' then parseApplySkip inner
                    else if name = ''top'' then parseApplyTop inner
                    else if name = ''bottom'' then parseApplyBottom inner
                    else if name = ''concat'' then parseApplyConcat pipeline inner
                    else throw (''Unsupported $apply transformation: '' @ name)))"

fun pipeline_within :: "nat \<Rightarrow> string \<Rightarrow> apply_pipeline result" where
  "pipeline_within 0 apply' = Inl OutOfFuel"
| "pipeline_within (Suc n) apply' =
     (if trim apply' = [] then throw ''Empty $apply expression.''
      else rbind (splitTopLevel (trim apply') (CHR ''/'')) (\<lambda>segments.
        if segments = [] then throw ''Empty $apply expression.''
        else rmap (\<lambda>s. parseApplyTransformation (pipeline_within n) (trim s)) segments))"

definition parseApplyPipeline :: "string \<Rightarrow> apply_pipeline result" where
  "parseApplyPipeline apply' = pipeline_within (Suc (length apply')) apply'"

section \<open>The aggregation of a pipeline\<close>

fun pipelineHasPaging :: "apply_pipeline \<Rightarrow> bool" where
  "pipelineHasPaging [] = False"
| "pipelineHasPaging (TSkip n # ts) = True"
| "pipelineHasPaging (TTop n # ts) = True"
| "pipelineHasPaging (TConcat ps # ts) = (list_ex pipelineHasPaging ps \<or> pipelineHasPaging ts)"
| "pipelineHasPaging (_ # ts) = pipelineHasPaging ts"

type_synonym aggregation_spec = "string list \<times> aggregation list"

text \<open>The first branch with an aggregation, or the first one that also pages.\<close>

fun select_branch :: "(aggregation_spec option \<times> bool) list \<Rightarrow> (aggregation_spec \<times> bool) option \<Rightarrow> aggregation_spec option" where
  "select_branch [] selected = map_option fst selected"
| "select_branch ((None, paging) # bs) selected = select_branch bs selected"
| "select_branch ((Some spec, paging) # bs) selected =
     (case selected of
        None \<Rightarrow> select_branch bs (Some (spec, paging))
      | Some (s, p) \<Rightarrow> if paging \<and> \<not> p then select_branch bs (Some (spec, paging)) else select_branch bs selected)"

lemma branch_size: "p \<in> set ps \<Longrightarrow> size_list f p \<le> size_list (size_list f) ps"
  by (rule size_list_estimation' [OF _ order_refl])

function derive_loop :: "apply_pipeline \<Rightarrow> string list option \<Rightarrow> aggregation list \<Rightarrow> bool \<Rightarrow> aggregation_spec option result" where
  "derive_loop [] keys aggregates grouped =
     Inr (if \<not> grouped \<or> aggregates = [] then None
          else Some (case keys of None \<Rightarrow> [] | Some ks \<Rightarrow> ks, aggregates))"
| "derive_loop (t # ts) keys aggregates grouped =
     (case t of
        TGroupBy ks as \<Rightarrow>
          (if keys \<noteq> None then throw ''Multiple groupby() transformations are not supported.''
           else derive_loop ts (Some ks) (aggregates @ as) True)
      | TAggregate es \<Rightarrow> derive_loop ts keys (aggregates @ es) True
      | TConcat ps \<Rightarrow>
          (if grouped then derive_loop ts keys aggregates grouped
           else rbind (rmap (\<lambda>p. rbind (derive_loop p None [] False) (\<lambda>spec. Inr (spec, pipelineHasPaging p))) ps)
                  (\<lambda>branches. case select_branch branches None of
                     Some spec \<Rightarrow> Inr (Some spec)
                   | None \<Rightarrow> derive_loop ts keys aggregates grouped))
      | _ \<Rightarrow> derive_loop ts keys aggregates grouped)"
  by pat_completeness auto
termination
  by (relation "measure (\<lambda>(ts, _). size_list size ts)") (auto simp: less_Suc_eq_le intro: trans_le_add1 le_SucI dest: branch_size [where f = size])

definition deriveAggregationSpecFromPipeline :: "apply_pipeline \<Rightarrow> aggregation_spec option result" where
  "deriveAggregationSpecFromPipeline pipeline = derive_loop pipeline None [] False"

definition parseApply :: "string \<Rightarrow> aggregation_spec option result" where
  "parseApply apply' = rbind (parseApplyPipeline apply') deriveAggregationSpecFromPipeline"


section \<open>The bound on the nesting is never reached\<close>

text \<open>Whatever a parser of a part answers, it is not that the bound was too small.\<close>

abbreviation settles :: "'a result \<Rightarrow> bool" where
  "settles m \<equiv> ensures m (\<lambda>_. True)"

lemma settles_rbind: "settles m \<Longrightarrow> (\<And>a. m = Inr a \<Longrightarrow> settles (f a)) \<Longrightarrow> settles (rbind m f)"
  by (rule ensures_rbind)

lemma settles_if: "settles a \<Longrightarrow> settles b \<Longrightarrow> settles (if c then a else b)"
  by simp

lemma settles_rmap: "(\<And>x. settles (f x)) \<Longrightarrow> settles (rmap f xs)"
  by (rule ensures_mono [OF ensures_rmap [where Q = "\<lambda>_ _. True"]]) auto

lemma split_loop_settles: "settles (split_loop d s current depth q)"
proof (induction s arbitrary: current depth q)
  case (Cons c cs)
  show ?case
  proof (cases "c = quote")
    case True
    with Cons show ?thesis by (simp only: split_loop_quote)
  next
    case False
    with Cons show ?thesis by (auto intro!: settles_rbind)
  qed
qed simp

lemma splitTopLevel_ensures:
  "ensures (splitTopLevel s d) (\<lambda>ps. \<forall>p\<in>set ps. length p \<le> length s \<and> p \<noteq> [] \<and> trim p = p)"
  using split_loop_settles [of d s "[]" 0 False] splitTopLevel_pieces [of s d]
  unfolding ensures_iff splitTopLevel_def by blast

lemma splitTopLevel_settles: "settles (splitTopLevel s d)"
  by (rule ensures_mono [OF splitTopLevel_ensures]) simp

lemma tokenize_settles: "settles (tokenize s)"
  by (auto simp: tokenize_def split: prod.splits)

lemma parseFilter_settles: "settles (parseFilter ts 0 False)"
  by (rule ensures_mono [OF parseFilter_total]) simp

lemma parseApplyFilter_settles: "settles (parseApplyFilter body)"
  unfolding parseApplyFilter_def
  by (intro settles_if settles_rbind tokenize_settles parseFilter_settles ensures_throw)
    (auto split: prod.splits)

lemma aggregate_operand_settles: "settles (aggregate_operand raw)"
  unfolding aggregate_operand_def
  by (auto intro!: settles_rbind tokenize_settles split: sum.splits)

lemma parseAggregateExpression_settles: "settles (parseAggregateExpression raw)"
  unfolding parseAggregateExpression_def Let_def
  by (auto intro!: settles_rbind aggregate_operand_settles split: option.splits simp del: operatorMap.simps)

lemma aggregates_settle: "settles (rmap parseAggregateExpression ts)"
  by (rule settles_rmap [OF parseAggregateExpression_settles])

lemma parseOrder_settles: "settles (parseOrder s)"
  unfolding parseOrder_def
  by (auto intro!: settles_rbind settles_rmap simp: order_part_def Let_def split: list.splits)

lemma parseNonNegativeInteger_settles: "settles (parseNonNegativeInteger v t)"
  by (auto simp: parseNonNegativeInteger_def Let_def split: option.splits)

lemma findClosingParen_ensures: "ensures (findClosingParen s i) (\<lambda>j. i \<le> j \<and> (j < length s \<or> length s \<le> i))"
  using closing_loop_bound [of "drop i s" i 0 False] by (auto simp: findClosingParen_def split: option.splits)

lemma findClosingParen_settles: "settles (findClosingParen s i)"
  by (rule ensures_mono [OF findClosingParen_ensures]) simp

lemma parseApplyGroupBy_settles: "settles (parseApplyGroupBy body)"
  unfolding parseApplyGroupBy_def Let_def
  apply (intro settles_if settles_rbind findClosingParen_settles ensures_throw)
  apply (auto intro!: settles_rbind splitTopLevel_settles aggregates_settle split: option.split)
  done

lemma parseApplyAggregate_settles: "settles (parseApplyAggregate body)"
  unfolding parseApplyAggregate_def
  by (auto intro!: settles_rbind splitTopLevel_settles aggregates_settle)

lemma parseApplyOrderBy_settles: "settles (parseApplyOrderBy body)"
  unfolding parseApplyOrderBy_def
  by (auto intro!: settles_rbind parseOrder_settles split: option.split)

lemma paging_settles:
  "settles (parseApplySkip body)" "settles (parseApplyTop body)" "settles (parseApplyBottom body)"
  unfolding parseApplySkip_def parseApplyTop_def parseApplyBottom_def
  by (auto intro!: settles_rbind parseNonNegativeInteger_settles)

lemma parseApplyConcat_settles:
  assumes "\<And>s. s \<noteq> [] \<Longrightarrow> length s \<le> length body \<Longrightarrow> settles (pipeline s)"
  shows "settles (parseApplyConcat pipeline body)"
  unfolding parseApplyConcat_def
proof (rule ensures_rbind [OF splitTopLevel_ensures])
  fix segments
  assume s: "\<forall>p\<in>set segments. length p \<le> length body \<and> p \<noteq> [] \<and> trim p = p"
  have "settles (rmap pipeline segments)"
    by (rule ensures_mono [OF ensures_rmap [where Q = "\<lambda>_ _. True"]]) (use s assms in auto)
  then show "settles (if length segments < 2 then throw ''concat() requires at least two pipeline arguments.''
       else rbind (rmap pipeline segments) (\<lambda>pipelines. Inr (TConcat pipelines)))"
    by (auto intro!: settles_rbind)
qed

lemma parseApplyTransformation_settles:
  assumes "\<And>s. length s + 2 \<le> length seg \<Longrightarrow> settles (pipeline s)"
  shows "settles (parseApplyTransformation pipeline seg)"
proof (cases "index_of_char (CHR ''('') (trim seg)")
  case (Some i)
  let ?t = "trim seg"
  have i: "i < length ?t" using Some by (simp add: index_of_char_Some)
  have t: "length ?t \<le> length seg" by (rule length_trim_le)
  have c: "settles (parseApplyConcat pipeline (trim (drop (Suc i) (take j ?t))))"
    if j: "i \<le> j \<and> (j < length ?t \<or> length ?t \<le> i)" for j
  proof (rule parseApplyConcat_settles)
    fix s :: string
    assume s: "s \<noteq> []" "length s \<le> length (trim (drop (Suc i) (take j ?t)))"
    have "length s \<le> j - Suc i"
      using s(2) length_trim_le [of "drop (Suc i) (take j ?t)"] by simp
    moreover have "0 < length s" using s(1) by simp
    ultimately have "length s + 2 \<le> length seg" using j i t by linarith
    then show "settles (pipeline s)" by (rule assms)
  qed
  show ?thesis
    using Some unfolding parseApplyTransformation_def Let_def
    apply (simp cong: if_cong)
    apply (intro impI ensures_rbind [OF findClosingParen_ensures])
    apply (auto intro!: c parseApplyFilter_settles parseApplyGroupBy_settles parseApplyAggregate_settles
        parseApplyOrderBy_settles paging_settles)
    done
qed (simp add: parseApplyTransformation_def Let_def)

lemma pipeline_within_settles: "length s < n \<Longrightarrow> settles (pipeline_within n s)"
proof (induction n arbitrary: s)
  case (Suc n)
  have t: "length (trim s) \<le> length s" by (rule length_trim_le)
  have seg: "settles (parseApplyTransformation (pipeline_within n) (trim p))" if "length p \<le> length (trim s)" for p
    using that t Suc.prems length_trim_le [of p]
    by (intro parseApplyTransformation_settles Suc.IH) linarith
  have "settles (rmap (\<lambda>p. parseApplyTransformation (pipeline_within n) (trim p)) ps)"
    if "\<forall>p\<in>set ps. length p \<le> length (trim s) \<and> p \<noteq> [] \<and> trim p = p" for ps
    by (rule ensures_mono [OF ensures_rmap [where Q = "\<lambda>_ _. True"]]) (use that seg in metis, simp)
  then show ?case by (auto intro!: ensures_rbind [OF splitTopLevel_ensures])
qed simp

lemma parseApplyPipeline_settles: "settles (parseApplyPipeline s)"
  unfolding parseApplyPipeline_def by (rule pipeline_within_settles) simp

lemma derive_loop_settles: "settles (derive_loop ts keys aggregates grouped)"
proof (induction ts keys aggregates grouped rule: derive_loop.induct)
  case (2 t ts keys aggregates grouped)
  show ?case
  proof (cases t)
    case (TConcat ps)
    have "settles (rmap (\<lambda>p. rbind (derive_loop p None [] False) (\<lambda>spec. Inr (spec, pipelineHasPaging p))) ps)"
      if "\<not> grouped"
      by (rule ensures_mono [OF ensures_rmap [where Q = "\<lambda>_ _. True"]])
        (use 2 TConcat that in \<open>auto intro!: settles_rbind\<close>)
    with 2 TConcat show ?thesis by (auto intro!: settles_rbind split: option.split)
  qed (use 2 in auto)
qed simp

lemma parseApply_settles: "settles (parseApply s)"
  unfolding parseApply_def deriveAggregationSpecFromPipeline_def
  by (intro settles_rbind parseApplyPipeline_settles derive_loop_settles)

section \<open>Pipelines without concat\<close>

text \<open>What a transformation adds to the keys and to the aggregates.\<close>

fun keys_of :: "apply_transformation \<Rightarrow> string list list" where
  "keys_of (TGroupBy ks as) = [ks]"
| "keys_of t = []"

fun aggregates_of :: "apply_transformation \<Rightarrow> aggregation list" where
  "aggregates_of (TGroupBy ks as) = as"
| "aggregates_of (TAggregate as) = as"
| "aggregates_of t = []"

fun is_concat :: "apply_transformation \<Rightarrow> bool" where
  "is_concat (TConcat ps) = True"
| "is_concat t = False"

abbreviation all_keys :: "apply_pipeline \<Rightarrow> string list list" where
  "all_keys p \<equiv> concat (map keys_of p)"

abbreviation all_aggregates :: "apply_pipeline \<Rightarrow> aggregation list" where
  "all_aggregates p \<equiv> concat (map aggregates_of p)"

lemma derive_loop_flat:
  assumes "\<not> list_ex is_concat p" "\<not> grouped \<longrightarrow> keys = None \<and> aggregates = []"
  shows "derive_loop p keys aggregates grouped =
    (if 1 < length (case keys of None \<Rightarrow> all_keys p | Some ks \<Rightarrow> ks # all_keys p)
     then throw ''Multiple groupby() transformations are not supported.''
     else Inr (if aggregates @ all_aggregates p = [] then None
               else Some (concat (case keys of None \<Rightarrow> all_keys p | Some ks \<Rightarrow> ks # all_keys p),
                          aggregates @ all_aggregates p)))"
  using assms
proof (induction p arbitrary: keys aggregates grouped)
  case Nil
  then show ?case by (auto split: option.splits)
next
  case (Cons t p)
  show ?case
  proof (cases t)
    case (TGroupBy ks as)
    with Cons.prems Cons.IH [of True "Some ks" "aggregates @ as"] show ?thesis by (cases keys) simp_all
  next
    case (TAggregate as)
    with Cons.prems Cons.IH [of True keys "aggregates @ as"] show ?thesis by (cases keys) simp_all
  qed (use Cons.prems Cons.IH [of grouped keys aggregates] in \<open>cases keys; simp\<close>)+
qed

lemma derive_flat:
  "\<not> list_ex is_concat p \<Longrightarrow> deriveAggregationSpecFromPipeline p =
    (if 1 < length (all_keys p) then throw ''Multiple groupby() transformations are not supported.''
     else Inr (if all_aggregates p = [] then None else Some (concat (all_keys p), all_aggregates p)))"
  by (simp add: deriveAggregationSpecFromPipeline_def derive_loop_flat)

end
