(* ===== verification/ExpandParser.thy ===== *)
theory ExpandParser
  imports Scopes ApplyParser
begin

text \<open>
  \<open>$expand\<close> and the whole of \<open>parseODataQuery\<close> of \<open>odata-query-parser.service.ts\<close>. The relations of
  the models are not in the repository: \<open>look m r\<close> is \<open>relations[r]\<close> on the relations \<open>m\<close>, \<open>None\<close> when
  there is no such relation and otherwise what \<open>getTargetRelations\<close> finds behind it, if anything.
  Expand options nest; the bound on the nesting is the length of the text and is never reached.
\<close>

section \<open>The filter option\<close>

record filter_parts =
  fp_where :: "where_clause option"
  fp_lambdas :: "lambda_expression list"
  fp_lambdaExpression :: "parsed_expression option"
  whereExpression :: "parsed_expression option"
  postFilter :: "parsed_expression option"
  unsupportedFunctions :: "string list"

definition no_filter :: filter_parts where
  "no_filter = \<lparr>fp_where = None, fp_lambdas = [], fp_lambdaExpression = None, whereExpression = None,
     postFilter = None, unsupportedFunctions = []\<rparr>"

definition predicate_clause :: "parse_options \<Rightarrow> filter_parts \<Rightarrow> parsed_expression \<Rightarrow> filter_parts result" where
  "predicate_clause opts parts predicate =
     (case buildWhere opts predicate of
        Inr w \<Rightarrow> Inr (parts\<lparr>whereExpression := Some predicate, fp_where := Some w\<rparr>)
      | Inl (UnsupportedFilter fs) \<Rightarrow>
          Inr (parts\<lparr>whereExpression := Some predicate, postFilter := Some predicate, unsupportedFunctions := fs\<rparr>)
      | Inl e \<Rightarrow> Inl e)"

definition filter_clause :: "parse_options \<Rightarrow> string \<Rightarrow> filter_parts result" where
  "filter_clause opts filterExpr =
     (if filterExpr = [] then Inr no_filter
      else rbind (tokenize filterExpr) (\<lambda>tokens.
        if tokens = [] then Inr no_filter
        else rbind (parseFilter tokens 0 (strict opts)) (\<lambda>(expr, nextIndex).
          if nextIndex \<noteq> length tokens
          then throw (''Invalid $filter expression near '' @ [CHR 34]
                 @ (case nth_opt tokens nextIndex of Some t \<Rightarrow> t | None \<Rightarrow> ''undefined'') @ [CHR 34] @ ''.'')
          else let rewritten = rewriteNegatedLambdas expr
               in rbind (validateLambdaExpressionTree (maxLambdaExistsDepth opts) rewritten) (\<lambda>_.
                  rbind (splitLambdaExpressions rewritten) (\<lambda>split.
                    let parts = no_filter\<lparr>fp_lambdas := lambdas split, fp_lambdaExpression := lambdaExpression split\<rparr>
                    in case predicate_part split of
                        None \<Rightarrow> Inr parts
                      | Some predicate \<Rightarrow> predicate_clause opts parts predicate)))))"

fun filter_features :: "parsed_expression \<Rightarrow> string list" where
  "filter_features (StringTest fn f args ci t neg) = (case t of None \<Rightarrow> [] | Some tr \<Rightarrow> [transform_text tr])"
| "filter_features (Logical t es) = concat (map filter_features es)"
| "filter_features (Not e) = filter_features e"
| "filter_features (Lambda k path a p) = ''lambda'' # filter_features p"
| "filter_features _ = []"

definition collectUnsupportedExpandFilterFeatures :: "filter_parts \<Rightarrow> string list" where
  "collectUnsupportedExpandFilterFeatures parsed = unique
     ((if postFilter parsed = None then []
       else if unsupportedFunctions parsed \<noteq> [] then unsupportedFunctions parsed else [''post-filter''])
      @ (if fp_lambdas parsed \<noteq> [] \<or> fp_lambdaExpression parsed \<noteq> None then [''lambda''] else [])
      @ (case whereExpression parsed of None \<Rightarrow> [] | Some e \<Rightarrow> filter_features e))"

section \<open>Expand options\<close>

definition parseSelect :: "string \<Rightarrow> string list option" where
  "parseSelect select =
     (if select = [] then None
      else Some (foldl add_field [] (filter (\<lambda>f. f \<noteq> []) (map trim (split_on (CHR '','') select)))))"

record expand_options =
  eo_scope :: "scope option"
  eo_includes :: "inclusion list option"
  eo_levels :: "nat option"

type_synonym 'r sub_parser = "string \<Rightarrow> 'r option \<Rightarrow> inclusion list option result"

definition add_scope :: "expand_options \<Rightarrow> scope \<Rightarrow> expand_options" where
  "add_scope st s = st\<lparr>eo_scope := mergeScopes (eo_scope st) (Some s)\<rparr>"

definition levels_option :: "expand_options \<Rightarrow> string \<Rightarrow> expand_options result" where
  "levels_option st rawValue =
     (if eo_levels st \<noteq> None then throw ''Duplicate $levels option is not allowed.''
      else if lower rawValue = ''max'' then throw ''$levels=max is not supported. Specify a numeric depth.''
      else case natural_value (js_Number rawValue) of
          Some n \<Rightarrow> if n < 1 then throw (''Invalid $levels value: '' @ rawValue) else Inr (st\<lparr>eo_levels := Some n\<rparr>)
        | None \<Rightarrow> throw (''Invalid $levels value: '' @ rawValue))"

definition filter_option :: "parse_options \<Rightarrow> expand_options \<Rightarrow> string \<Rightarrow> expand_options result" where
  "filter_option opts st rawValue =
     rbind (filter_clause opts rawValue) (\<lambda>parsed.
       let unsupported = collectUnsupportedExpandFilterFeatures parsed
       in if unsupported \<noteq> []
          then throw (''$expand $filter requires unsupported relation post-filter evaluation: ''
                 @ join '', '' unsupported @ ''.'')
          else Inr (case fp_where parsed of None \<Rightarrow> st | Some w \<Rightarrow> add_scope st (Scope None (Some w) None None None None)))"

definition expand_option ::
  "parse_options \<Rightarrow> 'r sub_parser \<Rightarrow> 'r option \<Rightarrow> expand_options \<Rightarrow> string \<Rightarrow> expand_options result" where
  "expand_option opts sub rels st token =
     (let entry = trim token
      in if entry = [] then Inr st
         else case index_of_char (CHR ''='') entry of
             None \<Rightarrow> throw (''Invalid expand option: '' @ entry)
           | Some eqIndex \<Rightarrow>
               let key = lower (trim (take eqIndex entry)); rawValue = trim (drop (eqIndex + 1) entry)
               in if rawValue = [] then throw (''Expand option '' @ key @ '' requires a value.'')
                  else if key = ''$select''
                  then Inr (case parseSelect rawValue of None \<Rightarrow> st
                            | Some fs \<Rightarrow> add_scope st (Scope (Some fs) None None None None None))
                  else if key = ''$expand''
                  then rbind (sub rawValue rels) (\<lambda>includes.
                    Inr (if or_default [] includes = [] then st
                         else st\<lparr>eo_includes := Some (case eo_includes st of
                                  None \<Rightarrow> or_default [] includes
                                | Some old \<Rightarrow> mergeInclusionList old (or_default [] includes))\<rparr>))
                  else if key = ''$filter'' then filter_option opts st rawValue
                  else if key = ''$orderby''
                  then rbind (parseOrder rawValue) (\<lambda>order.
                    Inr (if or_default [] order = [] then st
                         else add_scope st (Scope None None order None None None)))
                  else if key = ''$top''
                  then rbind (parseQueryNonNegativeInteger rawValue ''$top'') (\<lambda>n.
                    Inr (add_scope st (Scope None None None (Some n) None None)))
                  else if key = ''$skip''
                  then rbind (parseQueryNonNegativeInteger rawValue ''$skip'') (\<lambda>n.
                    Inr (add_scope st (Scope None None None None (Some n) None)))
                  else if key = ''$count'' then Inr st
                  else if key = ''$levels'' then levels_option st rawValue
                  else throw (''Unsupported expand option: '' @ key))"

fun rfold :: "('s \<Rightarrow> 'a \<Rightarrow> 's result) \<Rightarrow> 's \<Rightarrow> 'a list \<Rightarrow> 's result" where
  "rfold f s [] = Inr s"
| "rfold f s (x # xs) = rbind (f s x) (\<lambda>t. rfold f t xs)"

definition parseExpandOptions ::
  "parse_options \<Rightarrow> 'r sub_parser \<Rightarrow> string \<Rightarrow> 'r option \<Rightarrow> expand_options result" where
  "parseExpandOptions opts sub options rels =
     rbind (splitTopLevel options (CHR '';'')) (\<lambda>tokens.
       rfold (expand_option opts sub rels) \<lparr>eo_scope = None, eo_includes = None, eo_levels = None\<rparr> tokens)"

section \<open>Relations and levels\<close>

text \<open>
  \<open>expandLevels\<close>: one copy of the included scope per further level, each under the one before, as far
  as the relation leads back to a model that has it.
\<close>

definition append_include :: "scope option \<Rightarrow> inclusion \<Rightarrow> scope" where
  "append_include s child =
     (case or_default no_scope s of Scope fs w ord lm off inc \<Rightarrow> Scope fs w ord lm off (Some (or_default [] inc @ [child])))"

fun expandLevels ::
  "'r relations \<Rightarrow> string \<Rightarrow> nat \<Rightarrow> 'r option \<Rightarrow> scope option \<Rightarrow> scope option \<Rightarrow> scope option" where
  "expandLevels look relation 0 rels templateScope current = current"
| "expandLevels look relation (Suc k) rels templateScope current =
     (case Option.bind rels (\<lambda>m. look m relation) of
        None \<Rightarrow> current
      | Some next \<Rightarrow>
          Some (append_include current (Inclusion relation
            (expandLevels look relation k next templateScope (map_option cloneScope templateScope)))))"

definition relation_target :: "'r relations \<Rightarrow> 'r option \<Rightarrow> string \<Rightarrow> 'r option" where
  "relation_target look rels relation = Option.bind (Option.bind rels (\<lambda>m. look m relation)) (\<lambda>target. target)"

definition only_includes :: "inclusion list \<Rightarrow> scope" where
  "only_includes incs = Scope None None None None None (Some incs)"

text \<open>The scope of a relation from its options: what they set, then the includes, then the levels.\<close>

definition options_scope :: "expand_options \<Rightarrow> scope option" where
  "options_scope parts =
     (let s = mergeScopes None (eo_scope parts); incs = or_default [] (eo_includes parts)
      in if incs = [] then s else mergeScopes s (Some (only_includes incs)))"

definition levels_scope :: "'r relations \<Rightarrow> string \<Rightarrow> 'r option \<Rightarrow> expand_options \<Rightarrow> scope option" where
  "levels_scope look current target parts =
     (let s = options_scope parts; levels = or_default 0 (eo_levels parts)
      in if 1 < levels then expandLevels look current (levels - 1) target s s else s)"

fun buildIncludeFromParts ::
  "'r relations \<Rightarrow> parse_options \<Rightarrow> 'r sub_parser \<Rightarrow> string list \<Rightarrow> string option \<Rightarrow> 'r option \<Rightarrow> inclusion result" where
  "buildIncludeFromParts look opts sub [] options rels = throw ''Invalid $expand segment: missing relation name.''"
| "buildIncludeFromParts look opts sub (current # rest) options rels =
     (if current = [] then throw ''Invalid $expand segment: missing relation name.''
      else if rels \<noteq> None \<and> Option.bind rels (\<lambda>m. look m current) = None
      then throw (''Unknown expand relation: '' @ current)
      else let nextRelations = relation_target look rels current
           in if rest \<noteq> []
              then rbind (buildIncludeFromParts look opts sub rest options nextRelations) (\<lambda>child.
                Inr (Inclusion current (mergeScopes None (Some (only_includes [child])))))
              else case options of
                  None \<Rightarrow> Inr (Inclusion current None)
                | Some opt \<Rightarrow>
                    rbind (parseExpandOptions opts sub opt nextRelations) (\<lambda>parts.
                      Inr (Inclusion current (levels_scope look current nextRelations parts))))"

definition expand_segment ::
  "'r relations \<Rightarrow> parse_options \<Rightarrow> 'r sub_parser \<Rightarrow> 'r option \<Rightarrow> string \<Rightarrow> inclusion result" where
  "expand_segment look opts sub rels seg =
     rbind (extractPathAndOptions seg) (\<lambda>(path, options).
       let parts = filter (\<lambda>p. p \<noteq> []) (map trim (split_on (CHR ''/'') path))
       in if parts = [] then throw ''Invalid $expand segment: missing relation name.''
          else buildIncludeFromParts look opts sub parts options rels)"

fun expand_within :: "nat \<Rightarrow> 'r relations \<Rightarrow> parse_options \<Rightarrow> 'r sub_parser" where
  "expand_within 0 look opts expand rels = Inl OutOfFuel"
| "expand_within (Suc n) look opts expand rels =
     (if expand = [] then Inr None
      else rbind (splitTopLevel expand (CHR '','')) (\<lambda>segments.
        if segments = [] then Inr None
        else rbind (rmap (expand_segment look opts (expand_within n look opts) rels) segments) (\<lambda>includes.
          Inr (Some (foldl (upsert mergeScopes) [] includes)))))"

definition parseExpand :: "'r relations \<Rightarrow> parse_options \<Rightarrow> 'r sub_parser" where
  "parseExpand look opts expand rels = expand_within (Suc (length expand)) look opts expand rels"

section \<open>Queries\<close>

text \<open>The value of a query option, once or repeated.\<close>

datatype query_value = One string | Many "string list"

type_synonym query = "(string \<times> query_value) list"

definition singleQueryValue :: "query \<Rightarrow> string \<Rightarrow> string option result" where
  "singleQueryValue query key =
     (case map_of query key of
        None \<Rightarrow> Inr None
      | Some (One s) \<Rightarrow> Inr (Some s)
      | Some (Many ss) \<Rightarrow> throw (''Duplicate query option is not allowed: '' @ key))"

text \<open>A value that is present and not empty.\<close>

definition given :: "string option \<Rightarrow> string option" where
  "given v = (if v = Some [] then None else v)"

definition expand_value :: "query \<Rightarrow> string" where
  "expand_value query = (case map_of query ''$expand'' of
     None \<Rightarrow> [] | Some (One s) \<Rightarrow> s | Some (Many ss) \<Rightarrow> join '','' ss)"

definition allowed_options :: "string list" where
  "allowed_options = [''$filter'', ''$orderby'', ''$top'', ''$skip'', ''$skiptoken'', ''$deltatoken'', ''$select'',
     ''$expand'', ''$count'', ''$search'', ''$apply'', ''$format'', ''$compute'']"

definition check_options :: "parse_options \<Rightarrow> query \<Rightarrow> unit result" where
  "check_options opts query =
     (if strict opts
      then (case find (\<lambda>k. starts_with k ''$'' \<and> k \<notin> set allowed_options) (map fst query) of
              Some k \<Rightarrow> throw (''Unsupported query option: '' @ k) | None \<Rightarrow> Inr ())
      else Inr ())"

definition count_option :: "string option \<Rightarrow> bool result" where
  "count_option v =
     (case v of
        None \<Rightarrow> Inr False
      | Some count \<Rightarrow>
          if lower (trim count) = ''true'' then Inr True
          else if lower (trim count) = ''false'' then Inr False
          else throw (''Invalid $count value: '' @ count))"

definition optional :: "('a \<Rightarrow> 'b result) \<Rightarrow> 'a option \<Rightarrow> 'b option result" where
  "optional f v = (case v of None \<Rightarrow> Inr None | Some x \<Rightarrow> rbind (f x) (\<lambda>y. Inr (Some y)))"

record parsed_query =
  pq_scope :: scope
  pq_filter :: filter_parts
  inlineCount :: bool
  search :: "string option"
  applyPipeline :: "apply_pipeline option"
  pq_apply :: "aggregation_spec option"
  skipToken :: "string option"
  deltaToken :: "string option"
  format :: "string option"
  compute :: "compute_expression list option"

definition parseODataQuery :: "'r relations \<Rightarrow> 'r option \<Rightarrow> parse_options \<Rightarrow> query \<Rightarrow> parsed_query result" where
  "parseODataQuery look rels opts query =
     rbind (check_options opts query) (\<lambda>_.
     rbind (singleQueryValue query ''$filter'') (\<lambda>filterExpr.
     rbind (filter_clause opts (or_default [] filterExpr)) (\<lambda>parts.
     rbind (singleQueryValue query ''$orderby'') (\<lambda>orderby.
     rbind (parseOrder (or_default [] orderby)) (\<lambda>order.
     rbind (singleQueryValue query ''$top'') (\<lambda>top.
     rbind (optional (\<lambda>s. parseQueryNonNegativeInteger s ''$top'') top) (\<lambda>limit.
     rbind (singleQueryValue query ''$skip'') (\<lambda>skip.
     rbind (optional (\<lambda>s. parseQueryNonNegativeInteger s ''$skip'') skip) (\<lambda>offset.
     rbind (singleQueryValue query ''$skiptoken'') (\<lambda>skiptoken.
     rbind (singleQueryValue query ''$deltatoken'') (\<lambda>delta.
     rbind (singleQueryValue query ''$select'') (\<lambda>select.
     rbind (parseExpand look opts (expand_value query) rels) (\<lambda>include.
     rbind (singleQueryValue query ''$count'') (\<lambda>count.
     rbind (count_option count) (\<lambda>inline.
     rbind (singleQueryValue query ''$search'') (\<lambda>search.
     rbind (singleQueryValue query ''$apply'') (\<lambda>apply'.
     rbind (optional parseApplyPipeline (given apply')) (\<lambda>pipeline.
     rbind (optional deriveAggregationSpecFromPipeline pipeline) (\<lambda>spec.
     rbind (singleQueryValue query ''$format'') (\<lambda>fmt.
     rbind (singleQueryValue query ''$compute'') (\<lambda>computeRaw.
     rbind (optional parseCompute (given computeRaw)) (\<lambda>comp.
       Inr \<lparr>pq_scope = ensureFieldsIncludeRelations
              (Scope (parseSelect (or_default [] select)) (fp_where parts) order limit offset include),
            pq_filter = parts, inlineCount = inline, search = given search, applyPipeline = pipeline,
            pq_apply = Option.bind spec (\<lambda>s. s), skipToken = given skiptoken, deltaToken = given delta,
            format = given fmt, compute = comp\<rparr>))))))))))))))))))))))"

end
