(* ===== verification/ExpandTotal.thy ===== *)
theory ExpandTotal
  imports ExpandParser
begin

text \<open>
  Parsing a query always ends, and what it gives is well formed: no relation is included twice at
  a level, every included relation is one of the model, and selected fields name the relations
  that are included beside them.
\<close>

section \<open>The filter option never runs out of its bounds\<close>

lemma unsupported_settles [simp]: "settles (unsupported fs)" "settles unsupported_expression" "settles (unsupported_comparator n c)"
  by (simp_all add: unsupported_def unsupported_expression_def unsupported_comparator_def)

lemma assertSafe_settles [simp]: "settles (assertSafeFilterFieldName opts f)"
  by (simp add: assertSafeFilterFieldName_def)

lemma underscore_settles [simp]: "settles (underscorePattern opts x)"
  by (simp add: underscorePattern_def)

lemma leaf_where_settles [simp]:
  "settles (comparison_where opts f c v)" "settles (string_test_where opts fn f args ci neg)"
  "settles (index_of_where opts f c x needle)"
  unfolding comparison_where_def in_where_def string_test_where_def index_of_where_def Let_def
  by (auto intro!: settles_rbind split: comparator.split js_value.split list.split)

lemma substring_where_settles [simp]: "settles (substring_where opts f start len c literal)"
  unfolding substring_where_def Let_def by (auto intro!: settles_rbind split: option.split)

lemma length_settles [simp]: "settles (translateLengthComparison opts f c x)"
  unfolding translateLengthComparison_def by (intro settles_rbind) (auto intro!: settles_rbind split: comparator.split)

lemma number_fn_settles [simp]: "settles (number_fn_where opts fn f c x)"
  unfolding number_fn_where_def Let_def by (intro settles_rbind) (simp_all split: number_fn.split comparator.split)

lemma collect_settles: "\<forall>r\<in>set rs. settles r \<Longrightarrow> settles (collect_clauses rs ws fs)"
  by (induction rs ws fs rule: collect_clauses.induct) auto

lemma buildWhere_settles: "settles (buildWhere opts e)"
proof (induction opts e rule: buildWhere.induct)
  case (11 opts t es)
  then show ?case by (auto intro!: settles_rbind collect_settles)
next
  case (12 opts e)
  show ?case
  proof (cases e)
    case (Logical t es)
    have "settles (rmap (\<lambda>e'. buildWhere opts (Not e')) es)"
      by (rule ensures_mono [OF ensures_rmap [where Q = "\<lambda>_ _. True"]]) (use 12 Logical in auto)
    with Logical show ?thesis by (subst buildWhere.simps(12)) (auto intro!: settles_rbind)
  next
    case (IndexOfCmp f c x needle)
    then show ?thesis
      by (auto simp: buildWhere.simps(12) negateIndexOfExpression_def intro!: settles_rbind split: prod.split)
  next
    case (LengthCmp f c x)
    then show ?thesis by (auto simp: buildWhere.simps(12) negateLengthExpression_def intro!: settles_rbind)
  next
    case (Comparison f c v)
    then show ?thesis by (auto simp: buildWhere.simps(12) Let_def intro!: settles_rbind)
  qed (auto simp: buildWhere.simps(12) intro!: settles_rbind)
qed simp_all

lemma for_each_settles: "(\<And>x. x \<in> set xs \<Longrightarrow> settles (f x)) \<Longrightarrow> settles (for_each f xs)"
  by (induction xs) (auto intro!: settles_rbind)

lemma aliased_settles [simp]: "settles (assertAliasedField f al)" "settles (check_arg al a)" "settles (reject r)"
  by (auto simp: assertAliasedField_def check_arg_def reject_def Let_def split: function_arg.split)

lemma visit_settles: "settles (visit_lambda n e al d)"
  by (induction n e al d rule: visit_lambda.induct) (auto intro!: for_each_settles)

lemma split_terms_settles: "settles (split_terms es ls others)"
  by (induction es ls others rule: split_terms.induct) (auto split: option.split)

lemma splitLambda_settles: "settles (splitLambdaExpressions e)"
proof (cases e)
  case (Logical t es)
  then show ?thesis
    by (cases t) (auto intro!: settles_rbind split_terms_settles split: option.split)
qed auto

lemma predicate_clause_settles: "settles (predicate_clause opts parts p)"
  using buildWhere_settles [of opts p] unfolding predicate_clause_def
  by (auto split: sum.split odata_error.split)

lemma parseFilter_any_settles: "settles (parseFilter ts i s)"
  by (rule ensures_mono [OF parseFilter_total]) simp

lemma filter_clause_settles: "settles (filter_clause opts s)"
proof -
  have v: "settles (validateLambdaExpressionTree m e)" for m e
    by (simp add: validateLambdaExpressionTree_def visit_settles)
  show ?thesis
    unfolding filter_clause_def Let_def
    by (intro settles_if settles_rbind tokenize_settles parseFilter_any_settles ensures_throw)
      (auto intro!: settles_rbind v splitLambda_settles predicate_clause_settles split: option.split)
qed

section \<open>Queries never run out of their bounds\<close>

lemma query_integer_settles [simp]: "settles (parseQueryNonNegativeInteger s w)"
  by (auto simp: parseQueryNonNegativeInteger_def Let_def split: js_number.split)

lemma rfold_settles: "(\<And>s x. x \<in> set xs \<Longrightarrow> settles (f s x)) \<Longrightarrow> settles (rfold f s xs)"
  by (induction xs arbitrary: s) (auto intro!: settles_rbind)

lemma options_loop_settles:
  "ensures (options_loop s t i start depth q) (\<lambda>(p, o'). \<forall>text. o' = Some text \<longrightarrow> length text \<le> length s)"
proof (induction t arbitrary: i start depth q)
  case (Cons c cs)
  show ?case
  proof (cases "c = quote")
    case True
    with Cons show ?thesis by (simp only: options_loop_quote)
  next
    case False
    have "length (trim (drop k (take j s))) \<le> length s" for k j
      using length_trim_le [of "drop k (take j s)"] by simp
    with False Cons show ?thesis by (auto simp: Let_def)
  qed
qed simp

lemma extract_settles:
  "ensures (extractPathAndOptions seg) (\<lambda>(p, o'). \<forall>text. o' = Some text \<longrightarrow> length text \<le> length seg)"
  unfolding extractPathAndOptions_def Let_def
  by (rule ensures_mono [OF options_loop_settles]) (use length_trim_le [of seg] in force)

lemma filter_option_settles: "settles (filter_option opts st s)"
  unfolding filter_option_def Let_def by (auto intro!: settles_rbind filter_clause_settles)

lemma levels_option_settles: "settles (levels_option st s)"
  unfolding levels_option_def by (auto split: option.split)

lemma expand_option_settles:
  assumes "\<And>s. length s < length token \<Longrightarrow> settles (sub s rels)"
  shows "settles (expand_option opts sub rels st token)"
proof -
  have "settles (sub (trim (drop (Suc i) (trim token))) rels)" if "index_of_char CHR ''='' (trim token) = Some i" for i
  proof (rule assms)
    have "i < length (trim token)" using that by (simp add: index_of_char_Some)
    then show "length (trim (drop (Suc i) (trim token))) < length token"
      using length_trim_le [of token] length_trim_le [of "drop (Suc i) (trim token)"] by simp
  qed
  then show ?thesis
    unfolding expand_option_def Let_def
    by (auto intro!: settles_rbind filter_option_settles levels_option_settles parseOrder_settles split: option.split)
qed

lemma parseExpandOptions_settles:
  assumes "\<And>s. length s < length text \<Longrightarrow> settles (sub s rels)"
  shows "settles (parseExpandOptions opts sub text rels)"
  unfolding parseExpandOptions_def
proof (rule ensures_rbind [OF splitTopLevel_ensures])
  fix tokens
  assume "\<forall>p\<in>set tokens. length p \<le> length text \<and> p \<noteq> [] \<and> trim p = p"
  then show "settles (rfold (expand_option opts sub rels) \<lparr>eo_scope = None, eo_includes = None, eo_levels = None\<rparr> tokens)"
    using assms by (intro rfold_settles expand_option_settles) (meson order_less_le_trans)
qed

lemma build_settles:
  assumes "\<And>s r. length s < n \<Longrightarrow> settles (sub s r)" "\<And>text. options = Some text \<Longrightarrow> length text \<le> n"
  shows "settles (buildIncludeFromParts look opts sub parts options rels)"
proof (induction parts arbitrary: rels)
  case (Cons p ps)
  then show ?case using assms
    by (auto simp: Let_def intro!: settles_rbind parseExpandOptions_settles split: option.split)
qed simp

lemma expand_within_settles: "length s < n \<Longrightarrow> settles (expand_within n look opts s rels)"
proof (induction n arbitrary: s rels)
  case (Suc n)
  have seg: "settles (expand_segment look opts (expand_within n look opts) rels p)" if "length p \<le> length s" for p
    unfolding expand_segment_def
    apply (rule ensures_rbind [OF extract_settles])
    using that Suc by (auto simp: Let_def split: prod.split intro!: build_settles [where n = "length s"])
  have "settles (rmap (expand_segment look opts (expand_within n look opts) rels) ps)"
    if "\<forall>p\<in>set ps. length p \<le> length s \<and> p \<noteq> [] \<and> trim p = p" for ps
    by (rule ensures_mono [OF ensures_rmap [where Q = "\<lambda>_ _. True"]]) (use that seg in auto)
  then show ?case by (auto intro!: ensures_rbind [OF splitTopLevel_ensures] settles_rbind)
qed simp

lemma parseExpand_settles: "settles (parseExpand look opts s rels)"
  unfolding parseExpand_def by (rule expand_within_settles) simp

lemma single_value_settles [simp]: "settles (singleQueryValue q k)" "settles (check_options opts q)" "settles (count_option v)"
  by (auto simp: singleQueryValue_def check_options_def count_option_def split: option.split query_value.split)

lemma optional_settles: "(\<And>x. settles (f x)) \<Longrightarrow> settles (optional f v)"
  by (auto simp: optional_def intro!: settles_rbind split: option.split)

lemma compute_segment_settles: "settles (compute_segment s)"
proof -
  have "settles (extractComputeAlias ts)" for ts
  proof -
    have "settles (alias_loop seen ts d)" for seen d
      by (induction seen ts d rule: alias_loop.induct) (auto split: list.split)
    then show ?thesis by (simp add: extractComputeAlias_def)
  qed
  moreover have "settles (parseComputeExpressionTokens ts)" for ts
    by (rule ensures_mono [OF parseComputeExpressionTokens_ensures]) simp
  ultimately show ?thesis
    unfolding compute_segment_def by (auto intro!: settles_rbind tokenize_settles split: option.split prod.split)
qed

lemma parseCompute_settles: "settles (parseCompute s)"
  unfolding parseCompute_def
  by (intro settles_rbind settles_if splitTopLevel_settles ensures_throw settles_rmap compute_segment_settles) simp

lemma derive_settles: "settles (deriveAggregationSpecFromPipeline p)"
  by (simp add: deriveAggregationSpecFromPipeline_def derive_loop_settles)

theorem parseODataQuery_settles: "settles (parseODataQuery look rels opts query)"
  unfolding parseODataQuery_def
  by (intro settles_rbind single_value_settles filter_clause_settles parseOrder_settles optional_settles
      query_integer_settles parseExpand_settles parseApplyPipeline_settles derive_settles parseCompute_settles) simp

section \<open>No relation twice\<close>

lemma includes_single: "single_list (foldl (upsert mergeScopes) [] includes)"
  using merge_lists_single [of mergeScopes "[]" "includes", OF mergeScopes_single] by (simp add: merge_lists_def)

lemma parseExpand_single:
  assumes "parseExpand look opts s rels = Inr include"
  shows "single_list (or_default [] include)"
proof -
  have "expand_within n look opts s rels = Inr include \<Longrightarrow> single_list (or_default [] include)" for n
    using includes_single by (cases n) (auto split: if_splits)
  with assms show ?thesis unfolding parseExpand_def by blast
qed

theorem query_single:
  "parseODataQuery look rels opts query = Inr q \<Longrightarrow> single (pq_scope q)"
  by (auto simp: parseODataQuery_def ensure_single dest: parseExpand_single simp del: ensureFieldsIncludeRelations.simps)

theorem query_projected: "parseODataQuery look rels opts query = Inr q \<Longrightarrow> projected (pq_scope q)"
  by (auto simp: parseODataQuery_def ensure_projected simp del: ensureFieldsIncludeRelations.simps)

section \<open>Only known relations\<close>

lemma append_include_known:
  "known_opt look s rels \<Longrightarrow> known_inclusion look i rels \<Longrightarrow> known look (append_include s i) rels"
  by (cases "or_default no_scope s"; cases s) (auto simp: append_include_def no_scope_def)

text \<open>
  The levels of a relation copy what is included with it, so they need a relation that leads from
  its target back to the same model.
\<close>

definition level_stable :: "'r relations \<Rightarrow> bool" where
  "level_stable look \<longleftrightarrow> (\<forall>m r m' n. look m r = Some (Some m') \<longrightarrow> look m' r = Some n \<longrightarrow> n = Some m')"

lemma expandLevels_known:
  "known_opt look t rels \<Longrightarrow> known_opt look c rels \<Longrightarrow> (\<And>m n. rels = Some m \<Longrightarrow> look m r = Some n \<Longrightarrow> n = rels) \<Longrightarrow>
   known_opt look (expandLevels look r k rels t c) rels"
proof (induction k arbitrary: c)
  case (Suc k)
  show ?case
  proof (cases rels)
    case (Some m)
    show ?thesis
    proof (cases "look m r")
      case (Some n)
      with Suc.prems(3) \<open>rels = Some m\<close> have n: "n = Some m" by blast
      have "known_opt look (expandLevels look r k rels t (map_option cloneScope t)) rels"
        by (rule Suc.IH) (use Suc.prems in \<open>simp_all add: option.map_ident clone_same(1) [abs_def]\<close>)
      then have "known_inclusion look (Inclusion r (expandLevels look r k (Some m) t (map_option cloneScope t))) (Some m)"
        using Some n \<open>rels = Some m\<close> by (simp add: known_opt_def)
      with Suc.prems(2) Some n \<open>rels = Some m\<close> show ?thesis by (simp add: append_include_known del: known_Inclusion)
    qed (use Suc.prems Some in simp)
  qed (use Suc.prems in simp)
qed simp

definition sub_known :: "'r relations \<Rightarrow> 'r sub_parser \<Rightarrow> bool" where
  "sub_known look sub \<longleftrightarrow> (\<forall>s rels include. sub s rels = Inr include \<longrightarrow> known_list look (or_default [] include) rels)"

definition options_known :: "'r relations \<Rightarrow> expand_options \<Rightarrow> 'r option \<Rightarrow> bool" where
  "options_known look st rels \<longleftrightarrow> known_opt look (eo_scope st) rels \<and> known_list look (or_default [] (eo_includes st)) rels"

lemma add_scope_known:
  "options_known look st rels \<Longrightarrow> known look s rels \<Longrightarrow> options_known look (add_scope st s) rels"
  by (simp add: options_known_def add_scope_def mergeScopes_known)

lemma mergeInclusionList_known:
  "known_list look xs rels \<Longrightarrow> known_list look ys rels \<Longrightarrow> known_list look (mergeInclusionList xs ys) rels"
  unfolding mergeInclusionList_def by (rule merge_lists_known [OF mergeScopes_known])

lemma filter_option_known:
  "filter_option opts st s = Inr st' \<Longrightarrow> options_known look st rels \<Longrightarrow> options_known look st' rels"
  by (auto simp: filter_option_def Let_def intro!: add_scope_known split: if_splits option.splits)

lemma levels_option_known:
  "levels_option st s = Inr st' \<Longrightarrow> options_known look st rels \<Longrightarrow> options_known look st' rels"
  by (auto simp: levels_option_def options_known_def split: if_splits option.splits)

lemma expand_option_known:
  assumes sub: "sub_known look sub" and st: "options_known look st rels"
    and ok: "expand_option opts sub rels st token = Inr st'"
  shows "options_known look st' rels"
proof (cases "trim token = []")
  case False
  then obtain i where i: "index_of_char CHR ''='' (trim token) = Some i"
    using ok by (auto simp: expand_option_def Let_def split: option.splits)
  let ?key = "lower (trim (take i (trim token)))" and ?raw = "trim (drop (i + 1) (trim token))"
  have expand: "options_known look (if or_default [] incs = [] then st
       else st\<lparr>eo_includes := Some (case eo_includes st of None \<Rightarrow> or_default [] incs
          | Some old \<Rightarrow> mergeInclusionList old (or_default [] incs))\<rparr>) rels"
    if "sub ?raw rels = Inr incs" for incs
  proof -
    have "known_list look (or_default [] incs) rels" using sub that by (auto simp: sub_known_def)
    with st mergeInclusionList_known [OF _ this] show ?thesis by (auto simp: options_known_def split: option.splits)
  qed
  have select: "options_known look (case parseSelect ?raw of None \<Rightarrow> st | Some fs \<Rightarrow> add_scope st (Scope (Some fs) None None None None None)) rels"
    using st by (auto intro: add_scope_known split: option.split)
  show ?thesis
    using ok False i st expand select
    unfolding expand_option_def Let_def
    by (simp add: if_distrib [where f = "\<lambda>x. x = Inr st'"] split: if_splits)
      (auto simp: intro: add_scope_known filter_option_known levels_option_known split: if_splits)
qed (use ok st in \<open>simp add: expand_option_def Let_def\<close>)

lemma options_parsed_known:
  assumes "sub_known look sub" "parseExpandOptions opts sub text rels = Inr st"
  shows "options_known look st rels"
proof -
  have "rfold (expand_option opts sub rels) s ts = Inr st \<Longrightarrow> options_known look s rels \<Longrightarrow> options_known look st rels" for s ts
    by (induction ts arbitrary: s) (auto dest: expand_option_known [OF assms(1)])
  with assms(2) show ?thesis by (auto simp: parseExpandOptions_def) (auto simp: options_known_def)
qed

lemma only_includes_known [simp]: "known look (only_includes incs) rels = known_list look incs rels"
  by (simp add: only_includes_def)

lemma options_scope_known: "options_known look parts rels \<Longrightarrow> known_opt look (options_scope parts) rels"
  unfolding options_scope_def Let_def options_known_def by (auto intro!: mergeScopes_known)

lemma levels_scope_known:
  assumes "options_known look parts rels" "\<And>m n. rels = Some m \<Longrightarrow> look m r = Some n \<Longrightarrow> n = rels"
  shows "known_opt look (levels_scope look r rels parts) rels"
  using expandLevels_known [OF options_scope_known [OF assms(1)] options_scope_known [OF assms(1)] assms(2)]
    options_scope_known [OF assms(1)]
  by (simp add: levels_scope_def Let_def)

lemma build_known:
  assumes stable: "level_stable look" and sub: "sub_known look sub"
  shows "buildIncludeFromParts look opts sub parts options rels = Inr i \<Longrightarrow> known_inclusion look i rels"
proof (induction parts arbitrary: rels i)
  case (Cons current rest)
  let ?next = "relation_target look rels current"
  have ok: "current \<noteq> []" "rels = None \<or> Option.bind rels (\<lambda>m. look m current) \<noteq> None"
    using Cons.prems by (auto simp: Let_def split: if_splits)
  have here: "known_inclusion look (Inclusion current s) rels" if "known_opt look s ?next" for s
    using ok(2) that by (auto simp: relation_target_def known_opt_def split: option.split)
  show ?case
  proof (cases "rest = []")
    case False
    then obtain child where child: "buildIncludeFromParts look opts sub rest options ?next = Inr child"
      and i: "i = Inclusion current (mergeScopes None (Some (only_includes [child])))"
      using Cons.prems by (auto simp: Let_def split: if_splits)
    have "known_opt look (mergeScopes None (Some (only_includes [child]))) ?next"
      using Cons.IH [OF child] by (intro mergeScopes_known) simp_all
    from here [OF this] show ?thesis by (simp only: i)
  next
    case True
    show ?thesis
    proof (cases options)
      case None
      with True Cons.prems have "i = Inclusion current None" by (auto simp: Let_def split: if_splits)
      with here [of None] show ?thesis by simp
    next
      case (Some opt)
      then obtain parts where parts: "parseExpandOptions opts sub opt ?next = Inr parts"
        and i: "i = Inclusion current (levels_scope look current ?next parts)"
        using True Cons.prems by (auto simp: Let_def split: if_splits)
      have "n = ?next" if n: "?next = Some m" "look m current = Some n" for m n
      proof -
        obtain m0 where "rels = Some m0" "look m0 current = Some (Some m)"
          using n(1) by (auto simp: relation_target_def bind_eq_Some_conv)
        with stable n show ?thesis by (auto simp: level_stable_def)
      qed
      then have "known_opt look (levels_scope look current ?next parts) ?next"
        by (rule levels_scope_known [OF options_parsed_known [OF sub parts]])
      from here [OF this] show ?thesis by (simp only: i)
    qed
  qed
qed simp

lemma expand_within_known:
  assumes "level_stable look"
  shows "sub_known look (expand_within n look opts)"
proof (induction n)
  case (Suc n)
  have seg: "known_inclusion look i rels" if "expand_segment look opts (expand_within n look opts) rels p = Inr i" for p i rels
    using that by (auto simp: expand_segment_def Let_def split: if_splits intro: build_known [OF assms Suc])
  have "known_list look incs rels" if "rmap (expand_segment look opts (expand_within n look opts) rels) ps = Inr incs" for ps incs rels
    using that seg by (auto simp: rmap_Inr_iff list_all2_conv_all_nth list_all_length)
  moreover have "known_list look (foldl (upsert mergeScopes) [] incs) rels" if "known_list look incs rels" for incs rels
    using merge_lists_known [where m = mergeScopes and xs = "[]" and ys = incs and look = look and rels = rels] that mergeScopes_known
    by (auto simp: merge_lists_def)
  ultimately show ?case by (auto simp: sub_known_def split: if_splits)
qed (simp add: sub_known_def)

theorem query_known:
  assumes "level_stable look" "parseODataQuery look rels opts query = Inr q"
  shows "known look (pq_scope q) rels"
proof -
  have "known_list look (or_default [] incs) rels" if "parseExpand look opts s rels = Inr incs" for s incs
    using expand_within_known [OF assms(1), of "Suc (length s)" opts] that
    unfolding parseExpand_def sub_known_def by blast
  with assms(2) show ?thesis
    by (auto simp: parseODataQuery_def ensure_known simp del: ensureFieldsIncludeRelations.simps)
qed

end
