(* ===== verification/FilterRoundTrip.thy ===== *)
theory FilterRoundTrip
  imports FilterParser
begin

text \<open>
  The grammar of \<open>$filter\<close> as a printer: \<open>print_expr\<close> writes an expression with the fewest parentheses
  the precedences of \<open>or\<close>, \<open>and\<close> and \<open>not\<close> allow, and the theorems show that the parser
  reads every printed expression back: its precedences and left associativity, its
  dispatch on function names, its literals and its treatment of lambda aliases are those
  of the printer.
\<close>

section \<open>The printer\<close>

fun cmp_word :: "comparator \<Rightarrow> string" where
  "cmp_word Eq = ''eq''" | "cmp_word Neq = ''ne''" | "cmp_word Gt = ''gt''"
| "cmp_word Gte = ''ge''" | "cmp_word Lt = ''lt''" | "cmp_word Lte = ''le''"
| "cmp_word Inq = ''in''" | "cmp_word Nin = ''in''"

fun test_name :: "string_test \<Rightarrow> string" where
  "test_name Contains = ''contains''" | "test_name StartsWith = ''startswith''" | "test_name EndsWith = ''endswith''"

fun number_fn_name :: "number_fn \<Rightarrow> string" where
  "number_fn_name Round = ''round''" | "number_fn_name Floor = ''floor''"
| "number_fn_name Ceiling = ''ceiling''" | "number_fn_name Year = ''year''"

fun part_name :: "date_part \<Rightarrow> string" where
  "part_name Month = ''month''" | "part_name Day = ''day''" | "part_name Hour = ''hour''"
| "part_name Minute = ''minute''" | "part_name Second = ''second''"

fun string_fn_name :: "string_fn \<Rightarrow> string" where
  "string_fn_name Trim = ''trim''" | "string_fn_name Concat = ''concat''"

fun transform_name :: "transform \<Rightarrow> string" where
  "transform_name ToLower = ''tolower''" | "transform_name ToUpper = ''toupper''"

definition quoted :: "string \<Rightarrow> string" where
  "quoted s = quote # double s @ [quote]"

fun lit_token :: "js_value \<Rightarrow> string" where
  "lit_token JNull = ''null''"
| "lit_token (JBool b) = (if b then ''true'' else ''false'')"
| "lit_token (JStr s) = quoted s"
| "lit_token (JNum (Finite x)) = show_int \<lfloor>x\<rfloor>"
| "lit_token _ = []"

fun field_tokens :: "string \<Rightarrow> transform option \<Rightarrow> string list" where
  "field_tokens f None = [f]"
| "field_tokens f (Some t) = [transform_name t, ''('', f, '')'']"

fun arg_tokens :: "function_arg \<Rightarrow> string list" where
  "arg_tokens (ArgField f t) = field_tokens f t"
| "arg_tokens (ArgLiteral v) = [lit_token v]"

fun commas :: "string list list \<Rightarrow> string list" where
  "commas [] = []"
| "commas [x] = x"
| "commas (x # xs) = x @ '','' # commas xs"

fun print_atom :: "parsed_expression \<Rightarrow> string list" where
  "print_atom (Comparison f c v) = (case (c, v) of
      (Inq, JArr vs) \<Rightarrow> [f, ''in'', ''(''] @ commas (map (\<lambda>v. [lit_token v]) vs) @ ['')'']
    | _ \<Rightarrow> [f, cmp_word c, lit_token v])"
| "print_atom (StringTest fn f vs ci t neg) =
     [test_name fn, ''(''] @ field_tokens f t @ [('',''), lit_token (hd vs), '')'']"
| "print_atom (TransformCmp t f c v) =
     field_tokens f (Some t) @ [cmp_word c, case v of None \<Rightarrow> ''null'' | Some s \<Rightarrow> quoted s]"
| "print_atom (FnCmp fn f c x) = [number_fn_name fn, ''('', f, '')'', cmp_word c, show_int \<lfloor>x\<rfloor>]"
| "print_atom (DatePart p f c x) = [part_name p, ''('', f, '')'', cmp_word c, show_int \<lfloor>x\<rfloor>]"
| "print_atom (LengthCmp f c x) = [''length'', ''('', f, '')'', cmp_word c, show_int \<lfloor>x\<rfloor>]"
| "print_atom (IndexOfCmp f c x needle) =
     [''indexof'', ''('', f, '','', quoted needle, '')'', cmp_word c, show_int \<lfloor>x\<rfloor>]"
| "print_atom (SubstrCmp f start len c literal) =
     [''substring'', ''('', f, '','', show_int \<lfloor>start\<rfloor>]
     @ (case len of None \<Rightarrow> [] | Some n \<Rightarrow> ['','', show_int \<lfloor>n\<rfloor>])
     @ ['')'', cmp_word c, quoted literal]"
| "print_atom (StringFnCmp fn args c literal) =
     [string_fn_name fn, ''(''] @ commas (map arg_tokens args) @ ['')'', cmp_word c, quoted literal]"
| "print_atom _ = []"

definition parens_if :: "bool \<Rightarrow> string list \<Rightarrow> string list" where
  "parens_if b ts = (if b then ''('' # ts @ ['')''] else ts)"

text \<open>The level is 0 where an \<open>or\<close> may stand, 1 where an \<open>and\<close> may, 2 for an operand of \<open>not\<close>.\<close>

fun print_expr :: "nat \<Rightarrow> parsed_expression \<Rightarrow> string list" where
  "print_expr l (Logical Or [a, b]) = parens_if (0 < l) (print_expr 0 a @ ''or'' # print_expr 1 b)"
| "print_expr l (Logical And [a, b]) = parens_if (1 < l) (print_expr 1 a @ ''and'' # print_expr 2 b)"
| "print_expr l (Not e) = ''not'' # print_expr 2 e"
| "print_expr l (Lambda k path alias p) =
     (join ''/'' path @ ''/'' @ lambda_name k) # ''('' # (alias @ '':'') # print_expr 0 p @ ['')'']"
| "print_expr l e = print_atom e"

section \<open>Expressions that can be written\<close>

definition reserved :: "string list" where
  "reserved = [''not'', ''tolower'', ''toupper'', ''trim'', ''concat'', ''month'', ''day'', ''hour'', ''minute'', ''second'',
     ''contains'', ''startswith'', ''endswith'', ''indexof'', ''substring'', ''length'', ''round'', ''floor'', ''ceiling'',
     ''year'', ''null'', ''true'', ''false'']"

definition field_ok :: "string \<Rightarrow> bool" where
  "field_ok f \<longleftrightarrow> f \<noteq> [] \<and> ident_start (hd f) \<and> list_all path_char f
     \<and> lower f \<notin> set reserved \<and> match_lambda f = None"

definition int_ok :: "rat \<Rightarrow> bool" where
  "int_ok x \<longleftrightarrow> is_integer x \<and> small_int \<lfloor>x\<rfloor>"

fun lit_ok :: "js_value \<Rightarrow> bool" where
  "lit_ok JNull = True"
| "lit_ok (JBool b) = True"
| "lit_ok (JStr s) = True"
| "lit_ok (JNum (Finite x)) = int_ok x"
| "lit_ok _ = False"

fun arg_ok :: "function_arg \<Rightarrow> bool" where
  "arg_ok (ArgField f t) = field_ok f"
| "arg_ok (ArgLiteral v) = lit_ok v"

definition order_cmp :: "comparator \<Rightarrow> bool" where
  "order_cmp c \<longleftrightarrow> c \<noteq> Inq \<and> c \<noteq> Nin"

fun atom_ok :: "parsed_expression \<Rightarrow> bool" where
  "atom_ok (Comparison f c v) = (field_ok f \<and> (case (c, v) of
      (Inq, JArr vs) \<Rightarrow> vs \<noteq> [] \<and> list_all lit_ok vs
    | _ \<Rightarrow> order_cmp c \<and> lit_ok v))"
| "atom_ok (StringTest fn f vs ci t neg) =
     (field_ok f \<and> ci \<and> \<not> neg \<and> (\<exists>v \<in> set vs. vs = [v] \<and> lit_ok v \<and> test_argument t v None = v))"
| "atom_ok (TransformCmp t f c v) = (field_ok f \<and> (c = Eq \<or> c = Neq))"
| "atom_ok (FnCmp fn f c x) = (field_ok f \<and> order_cmp c \<and> int_ok x)"
| "atom_ok (DatePart p f c x) = (field_ok f \<and> order_cmp c \<and> int_ok x)"
| "atom_ok (LengthCmp f c x) = (field_ok f \<and> order_cmp c \<and> int_ok x)"
| "atom_ok (IndexOfCmp f c x needle) = (field_ok f \<and> order_cmp c \<and> int_ok x)"
| "atom_ok (SubstrCmp f start len c literal) =
     (field_ok f \<and> (c = Eq \<or> c = Neq) \<and> int_ok start \<and> (case len of None \<Rightarrow> True | Some n \<Rightarrow> int_ok n))"
| "atom_ok (StringFnCmp fn args c literal) =
     ((c = Eq \<or> c = Neq) \<and> list_all arg_ok args
      \<and> (case fn of Trim \<Rightarrow> length args = 1 | Concat \<Rightarrow> 2 \<le> length args))"
| "atom_ok _ = False"

definition segment_ok :: "string \<Rightarrow> bool" where
  "segment_ok s \<longleftrightarrow> s \<noteq> [] \<and> ident_start (hd s) \<and> list_all ident_char s"

fun writable :: "parsed_expression \<Rightarrow> bool" where
  "writable (Logical t es) = (case es of [a, b] \<Rightarrow> writable a \<and> writable b | _ \<Rightarrow> False)"
| "writable (Not e) = writable e"
| "writable (Lambda k path alias p) =
     (path \<noteq> [] \<and> list_all segment_ok path \<and> segment_ok alias \<and> writable p)"
| "writable e = atom_ok e"

section \<open>Tokens of the atoms\<close>

lemmas char_eval = lower_def lower_char_def is_upper_def code_def

lemma lower_keyword [simp]:
  "lower (cmp_word c) = cmp_word c" "lower (test_name fn) = test_name fn"
  "lower (number_fn_name g) = number_fn_name g" "lower (part_name p) = part_name p"
  "lower (string_fn_name s) = string_fn_name s" "lower (transform_name t) = transform_name t"
proof -
  show "lower (cmp_word c) = cmp_word c" by (cases c) (simp_all add: char_eval)
  show "lower (test_name fn) = test_name fn" by (cases fn) (simp_all add: char_eval)
  show "lower (number_fn_name g) = number_fn_name g" by (cases g) (simp_all add: char_eval)
  show "lower (part_name p) = part_name p" by (cases p) (simp_all add: char_eval)
  show "lower (string_fn_name s) = string_fn_name s" by (cases s) (simp_all add: char_eval)
  show "lower (transform_name t) = transform_name t" by (cases t) (simp_all add: char_eval)
qed

lemma names_inverse [simp]:
  "order_cmp c \<Longrightarrow> comparisonOperators (cmp_word c) = Some c"
  "string_test_of (test_name fn) = Some fn" "number_fn_of (number_fn_name g) = Some g"
  "date_part_of (part_name p) = Some p" "string_fn_of (string_fn_name s) = Some s"
  "transform_of (transform_name t) = Some t"
proof -
  show "order_cmp c \<Longrightarrow> comparisonOperators (cmp_word c) = Some c" by (cases c) (simp_all add: order_cmp_def)
  show "string_test_of (test_name fn) = Some fn" by (cases fn) simp_all
  show "number_fn_of (number_fn_name g) = Some g" by (cases g) simp_all
  show "date_part_of (part_name p) = Some p" by (cases p) simp_all
  show "string_fn_of (string_fn_name s) = Some s" by (cases s) simp_all
  show "transform_of (transform_name t) = Some t" by (cases t) simp_all
qed

declare comparisonOperators.simps [simp del] string_test_of.simps [simp del] number_fn_of.simps [simp del]
  date_part_of.simps [simp del] string_fn_of.simps [simp del] transform_of.simps [simp del]

lemma cmp_word_facts [simp]: "cmp_word c \<noteq> []" "order_cmp c \<Longrightarrow> cmp_word c \<noteq> ''in''" "cmp_word c \<noteq> ''(''"
  by (cases c; simp add: order_cmp_def)+

lemma eq_or_ne_word: "c = Eq \<or> c = Neq \<Longrightarrow> eq_or_ne (Some (cmp_word c)) = Some c"
  by (auto simp: eq_or_ne_def)

text \<open>Reading at an index, from what the array holds from there on.\<close>

lemma nth_opt_drop: "nth_opt tokens (i + k) = nth_opt (drop i tokens) k"
  by (auto simp: nth_opt_def)

lemma at_drop:
  assumes "drop i tokens = ts"
  shows "nth_opt tokens i = nth_opt ts 0" "nth_opt tokens (Suc i) = nth_opt ts 1"
    "nth_opt tokens (Suc (Suc i)) = nth_opt ts 2" "nth_opt tokens (i + numeral k) = nth_opt ts (numeral k)"
    "drop (Suc i) tokens = tl ts" "drop (i + k') tokens = drop k' ts"
  using nth_opt_drop [of tokens i 0] nth_opt_drop [of tokens i 1] nth_opt_drop [of tokens i 2]
    nth_opt_drop [of tokens i "numeral k"] assms
  by (auto simp: drop_Suc tl_drop add.commute)

lemma quoted_facts [simp]:
  "quoted s \<noteq> []" "is_quoted (quoted s)" "slice_inner (Suc 0) (quoted s) = double s"
  "parseLiteral (quoted s) = JStr s" "is_token (quoted s)"
  by (simp_all add: quoted_def quoted_is_quoted quoted_is_token)

lemma quoted_not_keyword [simp]:
  "x \<noteq> quote \<Longrightarrow> lower (quoted s) \<noteq> x # xs" "x \<noteq> quote \<Longrightarrow> quoted s \<noteq> x # xs"
  by (auto simp: quoted_def lower_def)

lemma letters_not_quote [simp]:
  "CHR ''('' \<noteq> quote" "CHR '')'' \<noteq> quote" "CHR '','' \<noteq> quote" "CHR ''t'' \<noteq> quote" "CHR ''n'' \<noteq> quote" "CHR ''f'' \<noteq> quote"
  by (simp_all add: quote_def)

lemma show_int_not_word [simp]:
  "\<not> is_digit x \<Longrightarrow> x \<noteq> CHR ''-'' \<Longrightarrow> lower (show_int n) \<noteq> x # xs"
  "\<not> is_digit x \<Longrightarrow> x \<noteq> CHR ''-'' \<Longrightarrow> show_int n \<noteq> x # xs"
  using show_int_not_keyword [of "x # xs" n] by auto

lemma not_digit_letters [simp]:
  "\<not> is_digit CHR ''('' " "\<not> is_digit CHR '')''" "\<not> is_digit CHR '',''" "\<not> is_digit CHR ''t''"
  "\<not> is_digit CHR ''n''" "\<not> is_digit CHR ''f''"
  by (simp_all add: is_digit_def code_def)

lemma int_ok_floor: "int_ok x \<Longrightarrow> of_int \<lfloor>x\<rfloor> = x \<and> small_int \<lfloor>x\<rfloor>"
  by (simp add: int_ok_def is_integer_def)

lemma transform_of_literal [simp]:
  "transform_of (lower (quoted s)) = None" "transform_of (lower (show_int n)) = None"
  by (simp_all add: transform_of.simps)

lemma parseLiteral_token: "lit_ok v \<Longrightarrow> parseLiteral (lit_token v) = v"
proof (cases v rule: lit_ok.cases)
  case (4 x)
  moreover assume "lit_ok v"
  ultimately show ?thesis using int_ok_floor [of x] parseLiteral_int [of "\<lfloor>x\<rfloor>"] by simp
next
  case (2 b)
  then show ?thesis
    by (cases b) (simp_all add: parseLiteral_def typed_literal_def has_typed_prefix_def starts_with_def
        is_quoted_def ends_with_def quote_def char_eval Let_def)
next
  case 1
  then show ?thesis
    by (simp add: parseLiteral_def typed_literal_def has_typed_prefix_def starts_with_def
        is_quoted_def ends_with_def quote_def char_eval Let_def)
qed simp_all

lemma operand_literal:
  assumes "lit_ok v"
  shows "operand_token (lit_token v) = LiteralOperand v None"
    "transform_of (lower (lit_token v)) = None" "lit_token v \<noteq> ''(''"
proof -
  have "operand_token (lit_token v) = LiteralOperand v None \<and> transform_of (lower (lit_token v)) = None
      \<and> lit_token v \<noteq> ''(''"
  proof (cases v rule: lit_ok.cases)
    case (4 x)
    with assms int_ok_floor [of x] tryParseNumericToken_int [of "\<lfloor>x\<rfloor>"] show ?thesis
      by (simp add: operand_token_def show_int_not_quoted)
  next
    case (2 b)
    then show ?thesis
      by (cases b) (simp_all add: operand_token_def is_quoted_def starts_with_def quote_def char_eval
          transform_of.simps)
  next
    case 1
    then show ?thesis
      by (simp add: operand_token_def is_quoted_def starts_with_def quote_def char_eval transform_of.simps)
  next
    case (3 s)
    then show ?thesis by (simp add: operand_token_def)
  qed (use assms in simp_all)
  then show "operand_token (lit_token v) = LiteralOperand v None"
    "transform_of (lower (lit_token v)) = None" "lit_token v \<noteq> ''(''" by auto
qed

lemma parse_literal_operand:
  assumes "drop j tokens = lit_token v # rest" "lit_ok v"
  shows "parseOperand tokens j = Inr (LiteralOperand v None, Suc j)"
  using operand_literal [OF assms(2)] at_drop(1) [OF assms(1)]
  by (subst parseOperand.simps) (auto split: if_splits)

text \<open>A field name is none of the other operands.\<close>

lemma path_char_facts:
  assumes "ident_start c"
  shows "\<not> is_digit c" "c \<noteq> CHR ''-''" "c \<noteq> quote" "c \<noteq> CHR ''('' \<and> c \<noteq> CHR '')'' \<and> c \<noteq> CHR '',''" "\<not> is_space c"
  using assms by (auto simp: ident_start_def is_alpha_def is_upper_def is_lower_def is_digit_def code_def
      quote_def is_space_def)

lemma path_char_plain:
  assumes "path_char c"
  shows "c \<noteq> quote" "\<not> punctuation c" "\<not> is_space c"
  using assms by (auto simp: path_char_def ident_char_def ident_start_def is_alpha_def is_upper_def is_lower_def
      is_digit_def code_def quote_def is_space_def punctuation_def)

lemma path_chars_no_quote: "list_all path_char f \<Longrightarrow> quote \<notin> set f"
  using path_char_plain(1) by (auto simp: list_all_iff)

lemma path_chars_word: "list_all path_char f \<Longrightarrow> word_state f False = Some False"
  by (induction f) (auto simp: path_char_plain)

lemma trim_path: "f \<noteq> [] \<Longrightarrow> list_all path_char f \<Longrightarrow> trim f = f"
  using path_char_plain(3) by (intro trim_id) (auto simp: list_all_iff)

lemma not_numeric_start: "ident_start c \<Longrightarrow> match_decimal (c # s) = None \<and> \<not> match_int (c # s)"
  using path_char_facts(1,2) by (auto simp: match_decimal_def match_int_def span_digits_def)

lemma lower_char_is_quote: "lower_char d = quote \<Longrightarrow> d = quote"
proof (rule ccontr)
  assume l: "lower_char d = quote" and "d \<noteq> quote"
  then have "is_upper d" by (auto simp: lower_char_def split: if_splits)
  then have "code (lower_char d) \<noteq> code quote"
    by (simp add: code_lower_char is_upper_def) (simp add: quote_def code_def)
  with l show False by simp
qed

lemma field_facts:
  assumes "field_ok f"
  shows "\<not> is_quoted f" "tryParseNumericToken f = None" "operand_token f = FieldOperand f None"
    "transform_of (lower f) = None" "f \<noteq> ''(''" "f \<noteq> []" "is_token f" "match_lambda f = None"
    "\<not> not_single_field f"
proof -
  obtain c s where f: "f = c # s" and c: "ident_start c" and chars: "list_all path_char f"
    using assms by (cases f) (auto simp: field_ok_def)
  have res: "lower f \<notin> set reserved" using assms by (simp add: field_ok_def)
  have nq: "quote \<notin> set f" using path_chars_no_quote [OF chars] .
  have lowid: "f = w \<Longrightarrow> lower w = w \<Longrightarrow> w \<notin> set reserved" for w using res by auto
  show q: "\<not> is_quoted f" using nq f by (auto simp: is_quoted_def starts_with_def)
  show num: "tryParseNumericToken f = None"
    using not_numeric_start [OF c, of s] trim_path [of f] chars f
    by (simp add: tryParseNumericToken_def Let_def)
  show "operand_token f = FieldOperand f None"
    using q num lowid [of "''null''"] lowid [of "''true''"] lowid [of "''false''"]
    by (auto simp: operand_token_def reserved_def char_eval)
  show "transform_of (lower f) = None" using res by (auto simp: reserved_def transform_of.simps)
  show "f \<noteq> ''(''" using path_char_facts(4) [OF c] f by auto
  show "f \<noteq> []" using f by simp
  show "is_token f" using path_chars_word [OF chars] f by (simp add: is_token_def)
  show "match_lambda f = None" using assms by (simp add: field_ok_def)
  have "\<not> ends_with f [quote]" using nq by (auto simp: ends_with_suffix suffix_def)
  moreover have "\<not> has_typed_prefix f"
  proof -
    have "quote \<notin> set (lower f)"
    proof
      assume "quote \<in> set (lower f)"
      then obtain d where "d \<in> set f" "lower_char d = quote" by (auto simp: lower_def)
      then show False using nq lower_char_is_quote by auto
    qed
    moreover have "quote \<in> set (lower f)" if "starts_with (lower f) (w @ [quote])" for w
      using that unfolding starts_with_def by (metis in_set_conv_decomp in_set_takeD)
    ultimately show ?thesis unfolding has_typed_prefix_def by blast
  qed
  moreover have "f \<noteq> '')'' \<and> f \<noteq> '',''" using path_char_facts(4) [OF c] f by auto
  ultimately show "\<not> not_single_field f"
    using res f path_char_facts(1,2,3) [OF c] \<open>f \<noteq> ''(''\<close>
    by (auto simp: not_single_field_def reserved_def starts_numeric_def starts_with_def)
qed

lemma parse_field_operand:
  assumes "drop j tokens = field_tokens f t @ rest" "field_ok f"
  shows "parseOperand tokens j = Inr (FieldOperand f t, j + length (field_tokens f t))"
proof (cases t)
  case None
  with assms(1) have "drop j tokens = f # rest" by simp
  with field_facts [OF assms(2)] at_drop(1) [OF this] None show ?thesis
    by (subst parseOperand.simps) (auto split: if_splits)
next
  case (Some u)
  with assms(1) have d: "drop j tokens = transform_name u # ''('' # f # '')'' # rest" by simp
  then have d2: "drop (j + 2) tokens = f # '')'' # rest" using at_drop(6) [OF d, of 2] by simp
  have "parseOperand tokens (j + 2) = Inr (FieldOperand f None, j + 3)"
    using field_facts [OF assms(2)] at_drop(1) [OF d2]
    by (subst parseOperand.simps) (auto split: if_splits)
  with at_drop(1-4) [OF d] Some show ?thesis
    by (subst parseOperand.simps) (simp add: tok_is_def)
qed

section \<open>Reading atoms\<close>

lemma field_not_function:
  assumes "field_ok f"
  shows "string_test_of (lower f) = None" "number_fn_of (lower f) = None" "date_part_of (lower f) = None"
    "string_fn_of (lower f) = None" "transform_of (lower f) = None" "lower f \<noteq> ''length''"
    "lower f \<noteq> ''indexof''" "lower f \<noteq> ''substring''" "lower f \<noteq> ''not''"
  using assms by (auto simp: field_ok_def reserved_def string_test_of.simps number_fn_of.simps
      date_part_of.simps string_fn_of.simps transform_of.simps)

lemma names_not_lambda [simp]:
  "match_lambda (test_name fn) = None" "match_lambda (number_fn_name g) = None" "match_lambda (part_name p) = None"
  "match_lambda (string_fn_name s) = None" "match_lambda (transform_name t) = None"
  "match_lambda ''length'' = None" "match_lambda ''indexof'' = None" "match_lambda ''substring'' = None"
proof -
  show "match_lambda (test_name fn) = None" by (cases fn) (simp_all add: match_lambda_def Let_def char_eval)
  show "match_lambda (number_fn_name g) = None" by (cases g) (simp_all add: match_lambda_def Let_def char_eval)
  show "match_lambda (part_name p) = None" by (cases p) (simp_all add: match_lambda_def Let_def char_eval)
  show "match_lambda (string_fn_name s) = None" by (cases s) (simp_all add: match_lambda_def Let_def char_eval)
  show "match_lambda (transform_name t) = None" by (cases t) (simp_all add: match_lambda_def Let_def char_eval)
qed (simp_all add: match_lambda_def Let_def char_eval)

lemma or_else_simps [simp]: "or_else (Inr None) q = q" "or_else (Inr (Some x)) q = Inr x"
  by (simp_all add: or_else_def)

text \<open>The parsers before the one that applies return \<open>None\<close>.\<close>

lemma dispatch:
  assumes "nth_opt tokens i = Some w"
  shows "match_lambda w = None \<Longrightarrow> tryParseLambda pe tokens i = Inr None"
    "transform_of (lower w) = None \<Longrightarrow> parseTransformComparison tokens i = Inr None"
    "string_fn_of (lower w) = None \<Longrightarrow> parseStringFunctionComparison tokens i = Inr None"
    "date_part_of (lower w) = None \<Longrightarrow> parseDatePartComparison tokens i = Inr None"
    "string_test_of (lower w) = None \<Longrightarrow> parseFunction tokens i = Inr None"
    "lower w \<noteq> ''indexof'' \<Longrightarrow> parseIndexOfComparison tokens i = Inr None"
    "lower w \<noteq> ''substring'' \<Longrightarrow> parseSubstringComparison tokens i = Inr None"
    "lower w \<noteq> ''length'' \<Longrightarrow> parseLengthComparison tokens i = Inr None"
    "number_fn_of (lower w) = None \<Longrightarrow> parseFieldFunctionComparison tokens i = Inr None"
  using assms
  by (simp_all add: tryParseLambda_def parseTransformComparison_def parseStringFunctionComparison_def
      parseDatePartComparison_def parseFunction_def parseIndexOfComparison_def parseSubstringComparison_def
      parseLengthComparison_def parseFieldFunctionComparison_def tok_lower_def)

lemma dispatch_field:
  assumes "nth_opt tokens i = Some f" "field_ok f"
  shows "parseComparison pe strict tokens i = or_else (parseInComparison strict tokens i) (plain_comparison tokens i)"
  unfolding parseComparison_def
  using dispatch [OF assms(1)] field_not_function [OF assms(2)] field_facts(8) [OF assms(2)]
  by simp

lemma read_comparison:
  assumes "drop i tokens = [f, cmp_word c, lit_token v] @ post" "field_ok f" "order_cmp c" "lit_ok v"
  shows "parseComparison pe strict tokens i = Inr (Comparison f c v, i + 3)"
proof -
  note at = at_drop [OF assms(1)]
  have "nth_opt tokens i = Some f" using at(1) by simp
  moreover have "parseInComparison strict tokens i = Inr None"
    using at(2) assms(3) by (simp add: parseInComparison_def tok_lower_def)
  moreover have "plain_comparison tokens i = Inr (Comparison f c v, i + 3)"
    using at(1-3) assms(3) field_facts(6) [OF assms(2)] parseLiteral_token [OF assms(4)]
    by (simp add: plain_comparison_def tok_missing_def tok_lower_def)
  ultimately show ?thesis using dispatch_field [OF _ assms(2)] by simp
qed

lemma match_decimal_int: "match_decimal (show_int n) \<noteq> None"
proof -
  have "span_digits (show_nat k) = (show_nat k, [])" for k
    by (simp add: span_digits_def digits_takeWhile digits_dropWhile)
  then show ?thesis by (cases "n < 0") (simp_all add: match_decimal_def show_int_def strip_minus_digits)
qed

lemma list_literal_token:
  assumes "lit_ok v"
  shows "isInListLiteralToken (lit_token v)" "lit_token v \<noteq> '')''" "lit_token v \<noteq> '',''"
proof -
  have q: "trim (quoted s) = quoted s" for s
    by (rule trim_id) (simp add: quoted_def)
  have "isInListLiteralToken (lit_token v) \<and> lit_token v \<noteq> '')'' \<and> lit_token v \<noteq> '',''"
  proof (cases v rule: lit_ok.cases)
    case (2 b)
    have "trim ''true'' = ''true''" "trim ''false'' = ''false''"
      by (simp_all add: trim_def is_space_def code_def)
    with 2 show ?thesis by (cases b) (simp_all add: isInListLiteralToken_def char_eval)
  next
    case 1
    have "trim ''null'' = ''null''" by (simp add: trim_def is_space_def code_def)
    with 1 show ?thesis by (simp add: isInListLiteralToken_def char_eval)
  next
    case (3 s)
    then show ?thesis by (simp add: isInListLiteralToken_def q)
  next
    case (4 x)
    then show ?thesis using match_decimal_int [of "\<lfloor>x\<rfloor>"] by (simp add: isInListLiteralToken_def)
  qed (use assms in simp_all)
  then show "isInListLiteralToken (lit_token v)" "lit_token v \<noteq> '')''" "lit_token v \<noteq> '',''" by auto
qed

lemma read_list:
  assumes "vs \<noteq> []" "list_all lit_ok vs" "drop j tokens = commas (map (\<lambda>v. [lit_token v]) vs) @ '')'' # post"
  shows "parse_list strict tokens j True acc =
     Inr (acc @ vs, j + length (commas (map (\<lambda>v. [lit_token v]) vs)))"
  using assms
proof (induction vs arbitrary: j acc)
  case (Cons v vs)
  have v: "lit_ok v" using Cons.prems(2) by simp
  note lv = list_literal_token [OF v] parseLiteral_token [OF v]
  show ?case
  proof (cases vs)
    case Nil
    with Cons.prems have d: "drop j tokens = lit_token v # '')'' # post" by simp
    show ?thesis
      using at_drop(1,2) [OF d] lv Nil by (subst parse_list.simps; subst parse_list.simps) simp
  next
    case (Cons w ws)
    have d: "drop j tokens = lit_token v # '','' # commas (map (\<lambda>v. [lit_token v]) vs) @ '')'' # post"
      using Cons.prems(3) Cons by simp
    have "drop (j + 2) tokens = commas (map (\<lambda>v. [lit_token v]) vs) @ '')'' # post"
      using at_drop(6) [OF d, of 2] by simp
    then have "parse_list strict tokens (j + 2) True (acc @ [v]) =
        Inr ((acc @ [v]) @ vs, j + 2 + length (commas (map (\<lambda>v. [lit_token v]) vs)))"
      using Cons.IH Cons.prems Cons by simp
    then show ?thesis
      using at_drop(1,2) [OF d] lv Cons by (subst parse_list.simps; subst parse_list.simps) simp
  qed
qed simp

lemma read_in:
  assumes "drop i tokens = [f, ''in'', ''(''] @ commas (map (\<lambda>v. [lit_token v]) vs) @ '')'' # post"
    and f: "field_ok f" and vs: "vs \<noteq> []" "list_all lit_ok vs"
  shows "parseComparison pe strict tokens i =
     Inr (Comparison f Inq (JArr vs), i + 4 + length (commas (map (\<lambda>v. [lit_token v]) vs)))"
proof -
  note at = at_drop [OF assms(1)]
  let ?k = "length (commas (map (\<lambda>v. [lit_token v]) vs))"
  have d3: "drop (i + 3) tokens = commas (map (\<lambda>v. [lit_token v]) vs) @ '')'' # post"
    using at(6) [of 3] by simp
  have l: "parse_list strict tokens (i + 3) True [] = Inr (vs, i + 3 + ?k)"
    using read_list [OF vs d3] by simp
  have c: "nth_opt tokens (i + 3 + ?k) = Some '')''"
    unfolding nth_opt_drop [of tokens "i + 3"] d3 nth_opt_append_right [of _ _ 0, simplified] by simp
  have "lower ''in'' = ''in''" by (simp add: char_eval)
  with l c at(1-3) vs(1) field_facts(6) [OF f]
  have "parseInComparison strict tokens i = Inr (Some (Comparison f Inq (JArr vs), i + 3 + ?k + 1))"
    by (simp add: parseInComparison_def tok_missing_def tok_lower_def tok_is_def)
  then show ?thesis
    using dispatch_field [OF _ f, of tokens i] at(1) by simp
qed

text \<open>What follows the closing parenthesis of a call.\<close>

lemma js_Number_int: "small_int n \<Longrightarrow> js_Number (show_int n) = Finite (of_int n)"
proof -
  assume n: "small_int n"
  let ?s = "show_int n"
  have sp: "span_digits (show_nat k) = (show_nat k, [])" for k
    by (simp add: span_digits_def digits_takeWhile digits_dropWhile)
  have sign: "strip_sign (show_nat k) = (False, show_nat k)" for k
  proof -
    have "is_digit (hd (show_nat k))" by (rule show_nat_digits [of _ k]) simp
    then show ?thesis by (cases "show_nat k") (auto simp: is_digit_def code_def)
  qed
  have inf: "show_nat k \<noteq> ''Infinity''" for k
    using show_nat_digits [of "CHR ''I''" k] by (auto simp: is_digit_def code_def)
  have not0: "\<not> starts_with ?s [CHR ''0'', c]" if "\<not> is_digit c" for c
  proof
    assume "starts_with ?s [CHR ''0'', c]"
    then have "take 2 ?s = [CHR ''0'', c]" by (simp add: starts_with_def numeral_2_eq_2)
    then have "?s ! 1 = c" "1 < length ?s" "?s ! 0 = CHR ''0''"
      by (metis One_nat_def lessI nth_Cons_0 nth_Cons_Suc nth_take numeral_2_eq_2 zero_less_Suc length_Cons
          length_take list.size(3) min_less_iff_conj)+
    then have "c \<in> set ?s" "c \<noteq> CHR ''-'' \<or> 0 \<le> n" by (auto simp: show_int_def split: if_splits)
    then show False
      using that show_int_chars [of c n] \<open>?s ! 0 = CHR ''0''\<close> show_nat_digits [of "CHR ''-''" "nat n"]
      by (auto simp: show_int_def split: if_splits)
  qed
  have val: "to_number (of_int n) = Finite (of_int n)"
  proof -
    have "\<bar>of_int n :: rat\<bar> < 10 ^ 15"
      using n unfolding small_int_def by (metis of_int_abs of_int_less_iff of_int_numeral of_int_power)
    also have "(10 ^ 15 :: rat) \<le> max_double" unfolding max_double_def by simp
    finally show ?thesis by (simp add: to_number_def)
  qed
  have "decimal_number ?s = to_number (of_int n)"
    using inf sp sign
    by (simp add: decimal_number_def show_int_def decimal_value_def pow10_def nat_of_show_nat Let_def)
  moreover have "\<not> is_digit (CHR ''x'')" "\<not> is_digit (CHR ''X'')" "\<not> is_digit (CHR ''o'')"
    "\<not> is_digit (CHR ''O'')" "\<not> is_digit (CHR ''b'')" "\<not> is_digit (CHR ''B'')"
    by (simp_all add: is_digit_def code_def)
  ultimately show ?thesis using not0 val by (simp add: js_Number_def)
qed

lemma read_numeric_comparison:
  assumes "drop j tokens = '')'' # cmp_word c # show_int \<lfloor>x\<rfloor> # post" "order_cmp c" "int_ok x"
  shows "numeric_comparison m1 m2 build tokens j = Inr (Some (build c x, j + 3))"
  using at_drop(2,3) [OF assms(1)] assms(2) js_Number_int [of "\<lfloor>x\<rfloor>"] int_ok_floor [OF assms(3)]
  by (simp add: numeric_comparison_def tok_missing_def tok_lower_def)

lemma read_one_field_call:
  assumes "drop i tokens = [w, ''('', f, '')''] @ post" "field_ok f"
  shows "one_field_call name tokens i = Inr (f, i + 3)" "drop (i + 3) tokens = '')'' # post"
proof -
  note at = at_drop [OF assms(1)]
  have d2: "drop (i + 2) tokens = field_tokens f None @ '')'' # post" using at(6) [of 2] by simp
  have "nth_opt tokens (i + 3) = Some '')''" using at(4) [of "num.Bit1 num.One"] by simp
  then show "one_field_call name tokens i = Inr (f, i + 3)"
    using parse_field_operand [OF d2 assms(2)] at(2)
    by (simp add: one_field_call_def tok_is_def eval_nat_numeral)
  show "drop (i + 3) tokens = '')'' # post" using at(6) [of 3] by simp
qed

lemma keyword_dispatch [simp]:
  "transform_of (test_name fn) = None" "string_fn_of (test_name fn) = None" "date_part_of (test_name fn) = None"
  "transform_of (number_fn_name g) = None" "string_fn_of (number_fn_name g) = None"
  "date_part_of (number_fn_name g) = None" "string_test_of (number_fn_name g) = None"
  "number_fn_name g \<noteq> ''indexof''" "number_fn_name g \<noteq> ''substring''" "number_fn_name g \<noteq> ''length''"
  "transform_of (part_name p) = None" "string_fn_of (part_name p) = None"
  "transform_of (string_fn_name s) = None"
proof -
  note defs = transform_of.simps string_fn_of.simps date_part_of.simps string_test_of.simps
  show "transform_of (test_name fn) = None" "string_fn_of (test_name fn) = None" "date_part_of (test_name fn) = None"
    by (cases fn; simp add: defs)+
  show "transform_of (number_fn_name g) = None" "string_fn_of (number_fn_name g) = None"
    "date_part_of (number_fn_name g) = None" "string_test_of (number_fn_name g) = None"
    "number_fn_name g \<noteq> ''indexof''" "number_fn_name g \<noteq> ''substring''" "number_fn_name g \<noteq> ''length''"
    by (cases g; simp add: defs)+
  show "transform_of (part_name p) = None" "string_fn_of (part_name p) = None"
    by (cases p; simp add: defs)+
  show "transform_of (string_fn_name s) = None" by (cases s; simp add: defs)
qed

lemma keyword_dispatch_words [simp]:
  "X \<in> {''length'', ''indexof'', ''substring''} \<Longrightarrow> transform_of X = None"
  "X \<in> {''length'', ''indexof'', ''substring''} \<Longrightarrow> string_fn_of X = None"
  "X \<in> {''length'', ''indexof'', ''substring''} \<Longrightarrow> date_part_of X = None"
  "X \<in> {''length'', ''indexof'', ''substring''} \<Longrightarrow> string_test_of X = None"
  "lower ''length'' = ''length''" "lower ''indexof'' = ''indexof''" "lower ''substring'' = ''substring''"
  by (auto simp: transform_of.simps string_fn_of.simps date_part_of.simps string_test_of.simps char_eval)

lemma read_test:
  assumes "drop i tokens = [test_name fn, ''(''] @ field_tokens f t @ ['','', lit_token v, '')''] @ post"
    and "field_ok f" "lit_ok v" "test_argument t v None = v"
  shows "parseComparison pe strict tokens i =
     Inr (StringTest fn f [v] True t False, i + 5 + length (field_tokens f t))"
proof -
  note at = at_drop [OF assms(1)]
  let ?k = "length (field_tokens f t)"
  have d2: "drop (i + 2) tokens = field_tokens f t @ '','' # lit_token v # '')'' # post"
    using at(6) [of 2] by simp
  have d3: "drop (i + 2 + ?k) tokens = '','' # lit_token v # '')'' # post"
    using at_drop(6) [OF d2, of ?k] by simp
  have d4: "drop (i + 2 + ?k + 1) tokens = lit_token v # '')'' # post"
    using at_drop(6) [OF d3, of 1] by simp
  have "parseFunction tokens i = Inr (Some (StringTest fn f [v] True t False, i + 5 + ?k))"
    using at(1,2) parse_field_operand [OF d2 assms(2)] parse_literal_operand [OF d4 assms(3)]
      at_drop(1) [OF d3] at_drop(2) [OF d4] assms(4)
    by (simp add: parseFunction_def tok_lower_def tok_is_def)
  then show ?thesis
    using dispatch [of tokens i "test_name fn"] at(1) by (simp add: parseComparison_def)
qed

lemma read_number_fn:
  assumes "drop i tokens = [number_fn_name g, ''('', f, '')'', cmp_word c, show_int \<lfloor>x\<rfloor>] @ post"
    and "field_ok f" "order_cmp c" "int_ok x"
  shows "parseComparison pe strict tokens i = Inr (FnCmp g f c x, i + 6)"
proof -
  note at = at_drop [OF assms(1)]
  have d: "drop i tokens = [number_fn_name g, ''('', f, '')''] @ cmp_word c # show_int \<lfloor>x\<rfloor> # post"
    using assms(1) by simp
  have "parseFieldFunctionComparison tokens i = Inr (Some (FnCmp g f c x, i + 6))"
    using at(1) read_one_field_call [OF d assms(2)]
      read_numeric_comparison [OF _ assms(3,4), of "i + 3" tokens post]
    by (simp add: parseFieldFunctionComparison_def tok_lower_def)
  then show ?thesis
    using dispatch [of tokens i "number_fn_name g"] at(1) by (simp add: parseComparison_def)
qed

lemma read_date_part:
  assumes "drop i tokens = [part_name p, ''('', f, '')'', cmp_word c, show_int \<lfloor>x\<rfloor>] @ post"
    and "field_ok f" "order_cmp c" "int_ok x"
  shows "parseComparison pe strict tokens i = Inr (DatePart p f c x, i + 6)"
proof -
  note at = at_drop [OF assms(1)]
  have d: "drop i tokens = [part_name p, ''('', f, '')''] @ cmp_word c # show_int \<lfloor>x\<rfloor> # post"
    using assms(1) by simp
  have "parseDatePartComparison tokens i = Inr (Some (DatePart p f c x, i + 6))"
    using at(1) read_one_field_call [OF d assms(2)]
      read_numeric_comparison [OF _ assms(3,4), of "i + 3" tokens post]
    by (simp add: parseDatePartComparison_def tok_lower_def)
  then show ?thesis
    using dispatch [of tokens i "part_name p"] at(1) by (simp add: parseComparison_def)
qed

lemma read_length:
  assumes "drop i tokens = [''length'', ''('', f, '')'', cmp_word c, show_int \<lfloor>x\<rfloor>] @ post"
    and "field_ok f" "order_cmp c" "int_ok x"
  shows "parseComparison pe strict tokens i = Inr (LengthCmp f c x, i + 6)"
proof -
  note at = at_drop [OF assms(1)]
  have d: "drop i tokens = [''length'', ''('', f, '')''] @ cmp_word c # show_int \<lfloor>x\<rfloor> # post"
    using assms(1) by simp
  have "parseLengthComparison tokens i = Inr (Some (LengthCmp f c x, i + 6))"
    using at(1) read_one_field_call [OF d assms(2)]
      read_numeric_comparison [OF _ assms(3,4), of "i + 3" tokens post]
    by (simp add: parseLengthComparison_def tok_lower_def)
  then show ?thesis
    using dispatch [of tokens i "''length''"] at(1) by (simp add: parseComparison_def)
qed

lemma read_index_of:
  assumes "drop i tokens = [''indexof'', ''('', f, '','', quoted needle, '')'', cmp_word c, show_int \<lfloor>x\<rfloor>] @ post"
    and "field_ok f" "order_cmp c" "int_ok x"
  shows "parseComparison pe strict tokens i = Inr (IndexOfCmp f c x needle, i + 8)"
proof -
  note at = at_drop [OF assms(1)]
  have d2: "drop (i + 2) tokens = field_tokens f None @ '','' # quoted needle # '')'' # cmp_word c # show_int \<lfloor>x\<rfloor> # post"
    using at(6) [of 2] by simp
  have d3: "drop (i + 3) tokens = '','' # quoted needle # '')'' # cmp_word c # show_int \<lfloor>x\<rfloor> # post"
    using at(6) [of 3] by simp
  have d4: "drop (i + 4) tokens = lit_token (JStr needle) # '')'' # cmp_word c # show_int \<lfloor>x\<rfloor> # post"
    using at(6) [of 4] by simp
  have d5: "drop (i + 5) tokens = '')'' # cmp_word c # show_int \<lfloor>x\<rfloor> # post"
    using at(6) [of 5] by simp
  have "parseIndexOfComparison tokens i = Inr (Some (IndexOfCmp f c x needle, i + 8))"
    using at(1,2) parse_field_operand [OF d2 assms(2)] parse_literal_operand [OF d4]
      at_drop(1) [OF d3] at_drop(1) [OF d5] read_numeric_comparison [OF d5 assms(3,4)]
    by (simp add: parseIndexOfComparison_def tok_lower_def tok_is_def eval_nat_numeral)
  then show ?thesis
    using dispatch [of tokens i "''indexof''"] at(1) by (simp add: parseComparison_def)
qed

lemma read_substring:
  assumes "drop i tokens = [''substring'', ''('', f, '','', show_int \<lfloor>start\<rfloor>]
      @ (case len of None \<Rightarrow> [] | Some n \<Rightarrow> ['','', show_int \<lfloor>n\<rfloor>]) @ ['')'', cmp_word c, quoted literal] @ post"
    and f: "field_ok f" and c: "c = Eq \<or> c = Neq" and start: "int_ok start"
    and len: "case len of None \<Rightarrow> True | Some n \<Rightarrow> int_ok n"
  shows "parseComparison pe strict tokens i =
     Inr (SubstrCmp f start len c literal, i + 8 + (case len of None \<Rightarrow> 0 | Some n \<Rightarrow> 2))"
proof -
  note at = at_drop [OF assms(1)]
  let ?fin = "'')'' # cmp_word c # quoted literal # post"
  let ?l = "case len of None \<Rightarrow> 0 | Some n \<Rightarrow> 2"
  have fin: "substring_comparison f start len tokens k = Inr (Some (SubstrCmp f start len c literal, k + 3))"
    if "drop k tokens = ?fin" for k
    using at_drop(1,2,3) [OF that] eq_or_ne_word [OF c]
    by (simp add: substring_comparison_def tok_is_def tok_missing_def tok_lower_def)
  have d2: "drop (i + 2) tokens = field_tokens f None @ '','' # show_int \<lfloor>start\<rfloor>
      # (case len of None \<Rightarrow> [] | Some n \<Rightarrow> ['','', show_int \<lfloor>n\<rfloor>]) @ ?fin"
    using at(6) [of 2] by simp
  have d3: "drop (i + 3) tokens = '','' # show_int \<lfloor>start\<rfloor>
      # (case len of None \<Rightarrow> [] | Some n \<Rightarrow> ['','', show_int \<lfloor>n\<rfloor>]) @ ?fin"
    using at(6) [of 3] by simp
  have d4: "drop (i + 4) tokens = lit_token (JNum (Finite start))
      # (case len of None \<Rightarrow> [] | Some n \<Rightarrow> ['','', show_int \<lfloor>n\<rfloor>]) @ ?fin"
    using at(6) [of 4] by simp
  have d5: "drop (i + 5) tokens = (case len of None \<Rightarrow> [] | Some n \<Rightarrow> ['','', show_int \<lfloor>n\<rfloor>]) @ ?fin"
    using at(6) [of 5] by simp
  have l: "substring_length tokens (i + 5) = Inr (len, i + 5 + ?l) \<and> drop (i + 5 + ?l) tokens = ?fin"
  proof (cases len)
    case None
    then show ?thesis using d5 at_drop(1) [OF d5] by (simp add: substring_length_def tok_is_def)
  next
    case (Some n)
    have "drop (i + 6) tokens = lit_token (JNum (Finite n)) # ?fin"
      using at_drop(6) [OF d5, of 1] Some by (simp add: add.commute)
    then have "parseOperand tokens (i + 6) = Inr (LiteralOperand (JNum (Finite n)) None, Suc (i + 6))"
      using parse_literal_operand [of "i + 6" tokens "JNum (Finite n)" ?fin] len Some by simp
    then show ?thesis
      using Some at_drop(1) [OF d5] at_drop(6) [OF d5, of 2]
      by (simp add: substring_length_def tok_is_def eval_nat_numeral)
  qed
  have "parseSubstringComparison tokens i = Inr (Some (SubstrCmp f start len c literal, i + 8 + ?l))"
    using at(1,2) parse_field_operand [OF d2 f] parse_literal_operand [OF d4] start
      at_drop(1) [OF d3] l fin [of "i + 5 + ?l"]
    by (simp add: parseSubstringComparison_def tok_lower_def tok_is_def eval_nat_numeral)
  then show ?thesis
    using dispatch [of tokens i "''substring''"] at(1) by (simp add: parseComparison_def)
qed

lemma read_transform:
  assumes "drop i tokens = field_tokens f (Some t)
      @ [cmp_word c, case v of None \<Rightarrow> ''null'' | Some s \<Rightarrow> quoted s] @ post"
    and f: "field_ok f" and c: "c = Eq \<or> c = Neq"
  shows "parseComparison pe strict tokens i = Inr (TransformCmp t f c v, i + 6)"
proof -
  have d: "drop i tokens = transform_name t # ''('' # f # '')'' # cmp_word c
      # (case v of None \<Rightarrow> ''null'' | Some s \<Rightarrow> quoted s) # post"
    using assms(1) by simp
  note at = at_drop [OF d]
  have n: "lower ''null'' = ''null''" "parseLiteral ''null'' = JNull"
    using parseLiteral_token [of JNull] by (simp_all add: char_eval)
  have "nth_opt tokens (i + 3) = Some '')''" "nth_opt tokens (i + 4) = Some (cmp_word c)"
    "nth_opt tokens (i + 5) = Some (case v of None \<Rightarrow> ''null'' | Some s \<Rightarrow> quoted s)"
    using at(4) by simp_all
  then have "parseTransformComparison tokens i = Inr (Some (TransformCmp t f c v, i + 6))"
    using at(1,2,3) field_facts(6,9) [OF f] eq_or_ne_word [OF c] n
    by (cases v) (simp_all add: parseTransformComparison_def tok_is_def tok_missing_def tok_lower_def)
  then show ?thesis
    using dispatch(1) [of tokens i "transform_name t"] at(1) by (simp add: parseComparison_def)
qed

lemma parse_arg:
  assumes "drop j tokens = arg_tokens a @ rest" "arg_ok a"
  shows "\<exists>op. parseOperand tokens j = Inr (op, j + length (arg_tokens a)) \<and> operandToFunctionArg op = a"
proof (cases a)
  case (ArgField f t)
  then show ?thesis using parse_field_operand [of j tokens f t rest] assms by simp
next
  case (ArgLiteral v)
  then show ?thesis using parse_literal_operand [of j tokens v rest] assms by simp
qed

lemma arg_tokens_not_Nil [simp]: "arg_tokens a \<noteq> []"
proof (cases a)
  case (ArgField f t)
  then show ?thesis by (cases t) auto
qed simp

lemma read_args:
  assumes "args \<noteq> []" "list_all arg_ok args" "drop j tokens = commas (map arg_tokens args) @ '')'' # post"
  shows "parse_args tokens j acc = Inr (acc @ args, j + length (commas (map arg_tokens args)))"
  using assms
proof (induction args arbitrary: j acc)
  case (Cons a as)
  have "drop j tokens \<noteq> []" unfolding Cons.prems(3) by simp
  then have j: "j < length tokens" by simp
  show ?case
  proof (cases as)
    case Nil
    with Cons.prems have d: "drop j tokens = arg_tokens a @ '')'' # post" by simp
    obtain op where "parseOperand tokens j = Inr (op, j + length (arg_tokens a))" "operandToFunctionArg op = a"
      using parse_arg [OF d] Cons.prems by auto
    moreover have "nth_opt tokens (j + length (arg_tokens a)) = Some '')''"
      using nth_opt_drop [of tokens j] d nth_opt_append_right [of "arg_tokens a" _ 0] by simp
    ultimately show ?thesis using j Nil by (subst parse_args.simps) (simp add: tok_is_def)
  next
    case (Cons b bs)
    let ?k = "j + length (arg_tokens a)"
    have d: "drop j tokens = arg_tokens a @ '','' # commas (map arg_tokens as) @ '')'' # post"
      using Cons.prems(3) Cons by simp
    obtain op where op: "parseOperand tokens j = Inr (op, ?k)" "operandToFunctionArg op = a"
      using parse_arg [OF d] Cons.prems by auto
    have comma: "nth_opt tokens ?k = Some '',''"
      using nth_opt_drop [of tokens j] d nth_opt_append_right [of "arg_tokens a" _ 0] by simp
    have "drop (?k + 1) tokens = commas (map arg_tokens as) @ '')'' # post"
      using at_drop(6) [OF d, of "length (arg_tokens a) + 1"] by (simp add: add.assoc)
    then have "parse_args tokens (?k + 1) (acc @ [a])
        = Inr ((acc @ [a]) @ as, ?k + 1 + length (commas (map arg_tokens as)))"
      using Cons.IH Cons.prems Cons by simp
    then show ?thesis
      using j op comma Cons by (subst parse_args.simps) (simp add: tok_is_def)
  qed
qed simp

lemma read_string_fn:
  assumes "drop i tokens = [string_fn_name fn, ''(''] @ commas (map arg_tokens args)
      @ ['')'', cmp_word c, quoted literal] @ post"
    and c: "c = Eq \<or> c = Neq" and args: "list_all arg_ok args"
    and number: "case fn of Trim \<Rightarrow> length args = 1 | Concat \<Rightarrow> 2 \<le> length args"
  shows "parseComparison pe strict tokens i =
     Inr (StringFnCmp fn args c literal, i + 5 + length (commas (map arg_tokens args)))"
proof -
  note at = at_drop [OF assms(1)]
  let ?k = "length (commas (map arg_tokens args))"
  have d2: "drop (i + 2) tokens = commas (map arg_tokens args) @ '')'' # cmp_word c # quoted literal # post"
    using at(6) [of 2] by simp
  have d3: "drop (i + 2 + ?k) tokens = '')'' # cmp_word c # quoted literal # post"
    using at_drop(6) [OF d2, of ?k] by simp
  have lw: "lower ''trim'' = ''trim''" "lower ''concat'' = ''concat''" by (simp_all add: char_eval)
  have "args \<noteq> []" using number by (auto split: string_fn.splits)
  from read_args [OF this args d2] have "parse_args tokens (i + 2) [] = Inr (args, i + 2 + ?k)" by simp
  then have "parseStringFunctionComparison tokens i =
      Inr (Some (StringFnCmp fn args c literal, i + 5 + ?k))"
    using at(1,2) at_drop(1-3) [OF d3] eq_or_ne_word [OF c] number
    by (cases fn) (simp_all add: parseStringFunctionComparison_def tok_is_def tok_missing_def tok_lower_def Let_def
        string_fn_of.simps lw)
  then show ?thesis
    using dispatch(1,2) [of tokens i "string_fn_name fn"] at(1) by (simp add: parseComparison_def)
qed

section \<open>Reading every atom\<close>

lemma read_atom:
  assumes "atom_ok e" "drop i tokens = print_atom e @ post"
  shows "parseComparison pe strict tokens i = Inr (e, i + length (print_atom e))"
proof (cases e)
  case (Comparison f c v)
  show ?thesis
  proof (cases "\<exists>vs. c = Inq \<and> v = JArr vs")
    case True
    then obtain vs where "c = Inq" "v = JArr vs" by blast
    with Comparison assms show ?thesis
      using read_in [of i tokens f vs post] by (simp add: eval_nat_numeral)
  next
    case False
    then have "order_cmp c \<and> lit_ok v \<and> field_ok f" "print_atom e = [f, cmp_word c, lit_token v]"
      using Comparison assms(1) by (cases c; cases v; simp add: order_cmp_def)+
    then show ?thesis
      using Comparison assms(2) read_comparison [of i tokens f c v post] by simp
  qed
next
  case (StringTest fn f vs ci t neg)
  with assms show ?thesis using read_test [of i tokens fn f t "hd vs" post] by (auto simp: eval_nat_numeral)
next
  case (TransformCmp t f c v)
  with assms show ?thesis using read_transform [of i tokens f t c v post] by auto
next
  case (FnCmp fn f c x)
  with assms show ?thesis using read_number_fn [of i tokens fn f c x post] by simp
next
  case (DatePart p f c x)
  with assms show ?thesis using read_date_part [of i tokens p f c x post] by simp
next
  case (LengthCmp f c x)
  with assms show ?thesis using read_length [of i tokens f c x post] by simp
next
  case (IndexOfCmp f c x needle)
  with assms show ?thesis using read_index_of [of i tokens f needle c x post] by simp
next
  case (SubstrCmp f start len c literal)
  with assms show ?thesis using read_substring [of i tokens f start len c literal post]
    by (cases len) (simp_all add: eval_nat_numeral)
next
  case (StringFnCmp fn args c literal)
  with assms show ?thesis using read_string_fn [of i tokens fn args c literal post] by (simp add: eval_nat_numeral)
qed (use assms in simp_all)

section \<open>Reading the levels of the grammar\<close>

lemma binary_loop_fuel:
  assumes moves: "\<And>i x j. i0 \<le> i \<Longrightarrow> operand tokens i = Inr (x, j) \<Longrightarrow> i < j \<and> j \<le> length tokens"
  shows "i0 \<le> i \<Longrightarrow> length tokens - i < k \<Longrightarrow> length tokens - i < k' \<Longrightarrow>
    binary_loop k operand word t tokens left i = binary_loop k' operand word t tokens left i"
proof (induction k arbitrary: k' i left)
  case (Suc k)
  obtain k'' where k': "k' = Suc k''" using Suc.prems by (cases k') auto
  have "binary_loop k operand word t tokens (Logical t [left, x]) j = binary_loop k'' operand word t tokens (Logical t [left, x]) j"
    if "operand tokens (i + 1) = Inr (x, j)" "i < length tokens" for x j
    using moves [OF _ that(1)] Suc.prems that(2) by (intro Suc.IH) (auto simp: k')
  then show ?case
    by (auto simp: k' intro!: rbind_cong)
qed simp

text \<open>The level stands with the expression \<open>e\<close> read and the next token at \<open>j\<close>.\<close>

definition reaches :: "expr_parser \<Rightarrow> string \<Rightarrow> logical_type \<Rightarrow> string list \<Rightarrow> nat \<Rightarrow> parsed_expression \<Rightarrow> nat \<Rightarrow> bool" where
  "reaches operand word t tokens i e j \<longleftrightarrow>
     i < j \<and> binary_level operand word t tokens i = binary_loop (Suc (length tokens)) operand word t tokens e j"

lemma reaches_first:
  "operand tokens i = Inr (e, j) \<Longrightarrow> i < j \<Longrightarrow> reaches operand word t tokens i e j"
  by (simp add: reaches_def binary_level_def del: binary_loop.simps)

lemma reaches_next:
  assumes moves: "\<And>j x k. i \<le> j \<Longrightarrow> operand tokens j = Inr (x, k) \<Longrightarrow> j < k \<and> k \<le> length tokens"
    and a: "reaches operand word t tokens i a j" and w: "tok_lower tokens j = Some word"
    and b: "operand tokens (j + 1) = Inr (b, k)"
  shows "reaches operand word t tokens i (Logical t [a, b]) k"
proof -
  have j: "i < j" "j < length tokens" using a w by (auto simp: reaches_def tok_lower_def dest: nth_opt_SomeD)
  have k: "j + 1 < k" "k \<le> length tokens" using moves [OF _ b] j by auto
  have "binary_level operand word t tokens i = binary_loop (length tokens) operand word t tokens (Logical t [a, b]) k"
    using a w b j by (simp add: reaches_def)
  also have "\<dots> = binary_loop (Suc (length tokens)) operand word t tokens (Logical t [a, b]) k"
    by (rule binary_loop_fuel [of i operand tokens]) (use moves j k in auto)
  finally show ?thesis using j k by (simp add: reaches_def)
qed

lemma reaches_end:
  "reaches operand word t tokens i e j \<Longrightarrow> tok_lower tokens j \<noteq> Some word \<Longrightarrow>
   binary_level operand word t tokens i = Inr (e, j)"
  by (auto simp: reaches_def)

abbreviation unary_at :: "bool \<Rightarrow> nat \<Rightarrow> expr_parser" where
  "unary_at strict m \<equiv> parseUnary (parseExpression m strict) strict"

lemma unary_moves:
  "length tokens - i \<le> m \<Longrightarrow> unary_at strict m tokens i = Inr (x, j) \<Longrightarrow> i < j \<and> j \<le> length tokens"
  using ensuresD [OF parseUnary_ensures [OF parseExpression_ok]] by fastforce

lemma and_moves:
  "length tokens - i \<le> m \<Longrightarrow> parseAnd (parseExpression m strict) strict tokens i = Inr (x, j) \<Longrightarrow>
   i < j \<and> j \<le> length tokens"
proof -
  assume l: "length tokens - i \<le> m" and p: "parseAnd (parseExpression m strict) strict tokens i = Inr (x, j)"
  have "ensures (unary_at strict m tokens k) (moved tokens k)" if "i \<le> k" for k
    using l that by (intro parseUnary_ensures [OF parseExpression_ok]) simp
  then have "ensures (parseAnd (parseExpression m strict) strict tokens i) (moved tokens i)"
    unfolding parseAnd_def using binary_level_ensures [of i "unary_at strict m" tokens i] by blast
  then show ?thesis using p by simp
qed

definition read2 :: "bool \<Rightarrow> nat \<Rightarrow> parsed_expression \<Rightarrow> bool" where
  "read2 strict m e \<longleftrightarrow> (\<forall>tokens i post. drop i tokens = print_expr 2 e @ post \<longrightarrow> length tokens - i \<le> m \<longrightarrow>
     unary_at strict m tokens i = Inr (e, i + length (print_expr 2 e)))"

definition read1 :: "bool \<Rightarrow> nat \<Rightarrow> parsed_expression \<Rightarrow> bool" where
  "read1 strict m e \<longleftrightarrow> (\<forall>tokens i post. drop i tokens = print_expr 1 e @ post \<longrightarrow> length tokens - i \<le> m \<longrightarrow>
     reaches (unary_at strict m) ''and'' And tokens i e (i + length (print_expr 1 e)))"

definition read0 :: "bool \<Rightarrow> nat \<Rightarrow> parsed_expression \<Rightarrow> bool" where
  "read0 strict m e \<longleftrightarrow> (\<forall>tokens i post. drop i tokens = print_expr 0 e @ post \<longrightarrow> length tokens - i \<le> m \<longrightarrow>
     map_option lower (nth_opt post 0) \<noteq> Some ''and'' \<longrightarrow>
     reaches (parseAnd (parseExpression m strict) strict) ''or'' Or tokens i e (i + length (print_expr 0 e)))"

lemma read2_level1: "read2 strict m e \<Longrightarrow> print_expr 1 e = print_expr 2 e \<Longrightarrow> read1 strict m e"
  unfolding read1_def read2_def using unary_moves by (metis reaches_first)

lemma tok_lower_drop:
  "drop i tokens = ts @ post \<Longrightarrow> tok_lower tokens (i + length ts) = map_option lower (nth_opt post 0)"
  using nth_opt_drop [of tokens i "length ts"] nth_opt_append_right [of ts post 0] by (simp add: tok_lower_def)

lemma read1_and:
  assumes "read1 strict m e" "drop i tokens = print_expr 1 e @ post" "length tokens - i \<le> m"
    "map_option lower (nth_opt post 0) \<noteq> Some ''and''"
  shows "parseAnd (parseExpression m strict) strict tokens i = Inr (e, i + length (print_expr 1 e))"
  unfolding parseAnd_def
  using assms tok_lower_drop [OF assms(2)] by (intro reaches_end) (simp_all add: read1_def)

lemma read1_level0: "read1 strict m e \<Longrightarrow> print_expr 0 e = print_expr 1 e \<Longrightarrow> read0 strict m e"
  unfolding read0_def using read1_and and_moves by (metis reaches_first)

lemma keyword_lower: "lower ''and'' = ''and''" "lower ''or'' = ''or''" "lower ''not'' = ''not''"
  by (simp_all add: char_eval)

lemma read1_and_node:
  assumes a: "read1 strict m a" and b: "read2 strict m b"
  shows "read1 strict m (Logical And [a, b])"
  unfolding read1_def
proof (intro allI impI)
  fix tokens i post
  assume d: "drop i tokens = print_expr 1 (Logical And [a, b]) @ post" and l: "length tokens - i \<le> m"
  let ?j = "i + length (print_expr 1 a)"
  have d1: "drop i tokens = print_expr 1 a @ ''and'' # print_expr 2 b @ post"
    using d by (simp add: parens_if_def)
  have d2: "drop (?j + 1) tokens = print_expr 2 b @ post"
    using at_drop(6) [OF d1, of "length (print_expr 1 a) + 1"] by (simp add: add.assoc)
  have "reaches (unary_at strict m) ''and'' And tokens i a ?j"
    using a d1 l unfolding read1_def by blast
  moreover have "tok_lower tokens ?j = Some ''and''"
    using tok_lower_drop [OF d1] by (simp add: keyword_lower)
  moreover have "length tokens - (?j + 1) \<le> m" using l by simp
  then have "unary_at strict m tokens (?j + 1) = Inr (b, ?j + 1 + length (print_expr 2 b))"
    using b d2 unfolding read2_def by blast
  moreover have "j < k \<and> k \<le> length tokens" if "i \<le> j" "unary_at strict m tokens j = Inr (x, k)" for j x k
    using that l by (intro unary_moves [of tokens j m strict]) simp_all
  ultimately have "reaches (unary_at strict m) ''and'' And tokens i (Logical And [a, b]) (?j + 1 + length (print_expr 2 b))"
    by (intro reaches_next) auto
  then show "reaches (unary_at strict m) ''and'' And tokens i (Logical And [a, b])
      (i + length (print_expr 1 (Logical And [a, b])))"
    by (simp add: parens_if_def add.assoc)
qed

lemma read0_or_node:
  assumes a: "read0 strict m a" and b: "read1 strict m b"
  shows "read0 strict m (Logical Or [a, b])"
  unfolding read0_def
proof (intro allI impI)
  fix tokens i post
  let ?and = "parseAnd (parseExpression m strict) strict"
  assume d: "drop i tokens = print_expr 0 (Logical Or [a, b]) @ post" and l: "length tokens - i \<le> m"
    and post: "map_option lower (nth_opt post 0) \<noteq> Some ''and''"
  let ?j = "i + length (print_expr 0 a)"
  have d1: "drop i tokens = print_expr 0 a @ ''or'' # print_expr 1 b @ post"
    using d by (simp add: parens_if_def)
  have d2: "drop (?j + 1) tokens = print_expr 1 b @ post"
    using at_drop(6) [OF d1, of "length (print_expr 0 a) + 1"] by (simp add: add.assoc)
  have "map_option lower (nth_opt (''or'' # print_expr 1 b @ post) 0) \<noteq> Some ''and''"
    by (simp add: keyword_lower)
  then have "reaches ?and ''or'' Or tokens i a ?j"
    using a d1 l unfolding read0_def by blast
  moreover have "tok_lower tokens ?j = Some ''or''"
    using tok_lower_drop [OF d1] by (simp add: keyword_lower)
  moreover have "?and tokens (?j + 1) = Inr (b, ?j + 1 + length (print_expr 1 b))"
    using l by (intro read1_and [OF b d2 _ post]) simp
  moreover have "j < k \<and> k \<le> length tokens" if "i \<le> j" "?and tokens j = Inr (x, k)" for j x k
    using that l by (intro and_moves [of tokens j m strict]) simp_all
  ultimately have "reaches ?and ''or'' Or tokens i (Logical Or [a, b]) (?j + 1 + length (print_expr 1 b))"
    by (intro reaches_next) auto
  then show "reaches ?and ''or'' Or tokens i (Logical Or [a, b])
      (i + length (print_expr 0 (Logical Or [a, b])))"
    by (simp add: parens_if_def add.assoc)
qed

lemma read0_expr:
  assumes "read0 strict m e" "drop i tokens = print_expr 0 e @ post" "length tokens - i \<le> m"
    "post = [] \<or> hd post = '')''"
  shows "parseExpression (Suc m) strict tokens i = Inr (e, i + length (print_expr 0 e))"
proof -
  have "map_option lower (nth_opt post 0) \<notin> {Some ''and'', Some ''or''}"
    using assms(4) by (cases post) (auto simp: char_eval)
  then show ?thesis
    using assms(1-3) tok_lower_drop [OF assms(2)]
    by (simp add: parseOr_def) (intro reaches_end, auto simp: read0_def)
qed

lemma lower_paren: "lower ''('' = ''(''"
  by (simp add: char_eval)

lemma read_parens:
  assumes e: "\<And>m. read0 strict m e" and d: "drop i tokens = ''('' # print_expr 0 e @ '')'' # post"
    and l: "length tokens - i \<le> m"
  shows "unary_at strict m tokens i = Inr (e, i + 2 + length (print_expr 0 e))"
proof -
  have "drop i tokens \<noteq> []" unfolding d by simp
  then have i: "i < length tokens" by simp
  with l obtain m' where m: "m = Suc m'" by (cases m) auto
  have d1: "drop (Suc i) tokens = print_expr 0 e @ '')'' # post" using at_drop(5) [OF d] by simp
  have "parseExpression (Suc m') strict tokens (Suc i) = Inr (e, Suc i + length (print_expr 0 e))"
    by (rule read0_expr [OF e d1]) (use l i m in auto)
  moreover have "nth_opt tokens (Suc i + length (print_expr 0 e)) = Some '')''"
    unfolding nth_opt_drop [of tokens "Suc i"] d1 nth_opt_append_right [of _ _ 0, simplified] by simp
  ultimately show ?thesis
    using at_drop(1) [OF d] lower_paren
    by (subst parseUnary.simps) (simp add: m parsePrimary_def tok_is_def tok_lower_def del: parseExpression.simps)
qed

lemma read2_not: "read2 strict m e \<Longrightarrow> read2 strict m (Not e)"
  unfolding read2_def
proof (intro allI impI)
  fix tokens i post
  assume e: "\<forall>tokens i post. drop i tokens = print_expr 2 e @ post \<longrightarrow> length tokens - i \<le> m \<longrightarrow>
      unary_at strict m tokens i = Inr (e, i + length (print_expr 2 e))"
    and "drop i tokens = print_expr 2 (Not e) @ post" and l: "length tokens - i \<le> m"
  then have d: "drop i tokens = ''not'' # print_expr 2 e @ post" by simp
  have "unary_at strict m tokens (Suc i) = Inr (e, Suc i + length (print_expr 2 e))"
    using e at_drop(5) [OF d] l by simp
  then show "unary_at strict m tokens i = Inr (Not e, i + length (print_expr 2 (Not e)))"
    using at_drop(1) [OF d] keyword_lower(3) by (subst parseUnary.simps) (simp add: tok_lower_def)
qed

section \<open>Reading lambda expressions\<close>

text \<open>\<open>collect_inner\<close> passes over the tokens of an expression, whose parentheses match.\<close>

definition passes :: "string list \<Rightarrow> bool" where
  "passes ts \<longleftrightarrow> (\<forall>rest depth inner i. 1 \<le> depth \<longrightarrow>
     collect_inner (ts @ rest) depth inner i = collect_inner rest depth (inner @ ts) (i + length ts))"

lemma passes_Nil: "passes []"
  by (simp add: passes_def)

lemma passes_append: "passes u \<Longrightarrow> passes v \<Longrightarrow> passes (u @ v)"
  unfolding passes_def by (auto simp: add.assoc)

lemma passes_token: "t \<noteq> ''('' \<Longrightarrow> t \<noteq> '')'' \<Longrightarrow> passes [t]"
  by (simp add: passes_def)

lemma passes_Cons: "t \<noteq> ''('' \<Longrightarrow> t \<noteq> '')'' \<Longrightarrow> passes ts \<Longrightarrow> passes (t # ts)"
  using passes_append [OF passes_token, of t ts] by simp

lemma passes_words: "(\<forall>t\<in>set ts. t \<noteq> ''('' \<and> t \<noteq> '')'') \<Longrightarrow> passes ts"
  by (induction ts) (auto intro: passes_Nil passes_Cons)

lemma passes_parens: "passes ts \<Longrightarrow> passes us \<Longrightarrow> passes (''('' # ts @ '')'' # us)"
proof -
  assume ts: "passes ts" and us: "passes us"
  then have "passes (''('' # ts @ ['')''])" unfolding passes_def by simp
  from passes_append [OF this us] show ?thesis by simp
qed

lemma passes_commas: "(\<forall>x\<in>set xs. passes x) \<Longrightarrow> passes (commas xs)"
proof (induction xs rule: commas.induct)
  case (3 x y ys)
  then have "passes ('','' # commas (y # ys))" by (intro passes_Cons) auto
  with 3 show ?case by (auto intro: passes_append)
qed (simp_all add: passes_Nil)

lemma token_not_paren:
  "field_ok f \<Longrightarrow> f \<noteq> ''('' \<and> f \<noteq> '')''" "lit_ok v \<Longrightarrow> lit_token v \<noteq> ''('' \<and> lit_token v \<noteq> '')''"
  "show_int n \<noteq> ''('' \<and> show_int n \<noteq> '')''" "quoted s \<noteq> ''('' \<and> quoted s \<noteq> '')''"
  "cmp_word c \<noteq> ''('' \<and> cmp_word c \<noteq> '')''" "test_name fn \<noteq> ''('' \<and> test_name fn \<noteq> '')''"
  "number_fn_name g \<noteq> ''('' \<and> number_fn_name g \<noteq> '')''" "part_name p \<noteq> ''('' \<and> part_name p \<noteq> '')''"
  "string_fn_name sf \<noteq> ''('' \<and> string_fn_name sf \<noteq> '')''" "transform_name t \<noteq> ''('' \<and> transform_name t \<noteq> '')''"
proof -
  show "field_ok f \<Longrightarrow> f \<noteq> ''('' \<and> f \<noteq> '')''"
    by (auto simp: field_ok_def ident_start_def is_alpha_def is_upper_def is_lower_def code_def)
  show "lit_ok v \<Longrightarrow> lit_token v \<noteq> ''('' \<and> lit_token v \<noteq> '')''"
    using operand_literal(3) list_literal_token(2) by blast
  show "cmp_word c \<noteq> ''('' \<and> cmp_word c \<noteq> '')''" by (cases c) simp_all
  show "test_name fn \<noteq> ''('' \<and> test_name fn \<noteq> '')''" by (cases fn) simp_all
  show "number_fn_name g \<noteq> ''('' \<and> number_fn_name g \<noteq> '')''" by (cases g) simp_all
  show "part_name p \<noteq> ''('' \<and> part_name p \<noteq> '')''" by (cases p) simp_all
  show "string_fn_name sf \<noteq> ''('' \<and> string_fn_name sf \<noteq> '')''" by (cases sf) simp_all
  show "transform_name t \<noteq> ''('' \<and> transform_name t \<noteq> '')''" by (cases t) simp_all
qed simp_all

lemma passes_call:
  assumes "\<forall>t\<in>set ts. t \<noteq> ''('' \<and> t \<noteq> '')''" "w \<noteq> ''('' \<and> w \<noteq> '')''" "\<forall>t\<in>set us. t \<noteq> ''('' \<and> t \<noteq> '')''"
  shows "passes (w # ''('' # ts @ '')'' # us)"
  using passes_parens [OF passes_words [OF assms(1)] passes_words [OF assms(3)]] assms(2)
  by (auto intro: passes_Cons [of w])

lemma passes_field: "field_ok f \<Longrightarrow> passes (field_tokens f t)"
proof (cases t)
  case None
  assume "field_ok f"
  with None show ?thesis using token_not_paren(1) by (simp add: passes_words)
next
  case (Some u)
  assume "field_ok f"
  with Some show ?thesis
    using passes_call [of "[f]" "transform_name u" "[]"] token_not_paren(1,10) by simp
qed

lemma passes_arg: "arg_ok a \<Longrightarrow> passes (arg_tokens a)"
proof (cases a)
  case (ArgField f t)
  then show "arg_ok a \<Longrightarrow> passes (arg_tokens a)" using passes_field by simp
next
  case (ArgLiteral v)
  then show "arg_ok a \<Longrightarrow> passes (arg_tokens a)" using token_not_paren(2) by (simp add: passes_token)
qed

lemma passes_function:
  assumes "passes ts" "w \<noteq> ''('' \<and> w \<noteq> '')''" "\<forall>t\<in>set us. t \<noteq> ''('' \<and> t \<noteq> '')''"
  shows "passes (w # ''('' # ts @ '')'' # us)"
  using passes_parens [OF assms(1) passes_words [OF assms(3)]] assms(2) by (auto intro: passes_Cons [of w])

lemma passes_atom:
  assumes ok: "atom_ok e"
  shows "passes (print_atom e)"
proof (cases e)
  case (Comparison f c v)
  show ?thesis
  proof (cases "\<exists>vs. c = Inq \<and> v = JArr vs")
    case True
    then obtain vs where vs: "c = Inq" "v = JArr vs" by blast
    have "passes (commas (map (\<lambda>v. [lit_token v]) vs))"
      using ok vs Comparison token_not_paren(2)
      by (intro passes_commas) (auto simp: list_all_iff intro!: passes_token)
    from passes_function [OF this, of "''in''" "[]"]
    have "passes (''in'' # ''('' # commas (map (\<lambda>v. [lit_token v]) vs) @ '')'' # [])" by simp
    moreover have "passes [f]"
      using ok vs Comparison token_not_paren(1) [of f] by (intro passes_words) simp
    ultimately have "passes ([f] @ ''in'' # ''('' # commas (map (\<lambda>v. [lit_token v]) vs) @ '')'' # [])"
      by (intro passes_append)
    then show ?thesis using vs Comparison by simp
  next
    case False
    then have "lit_ok v \<and> field_ok f" "print_atom e = [f, cmp_word c, lit_token v]"
      using Comparison ok by (cases c; cases v; simp add: order_cmp_def)+
    then show ?thesis using token_not_paren(1,2,5) by (simp add: passes_words)
  qed
next
  case (StringTest fn f vs ci t neg)
  then have f: "field_ok f" "lit_ok (hd vs)" using ok by auto
  then have "passes (field_tokens f t @ ['','', lit_token (hd vs)])"
    using token_not_paren(2) by (intro passes_append passes_field passes_words) auto
  from passes_function [OF this token_not_paren(6), where us = "[]"] show ?thesis using StringTest by simp
next
  case (TransformCmp t f c v)
  then have f: "field_ok f" using ok by simp
  show ?thesis
    using passes_call [of "[f]" "transform_name t" "[cmp_word c, case v of None \<Rightarrow> ''null'' | Some s \<Rightarrow> quoted s]"]
      token_not_paren(1) [OF f] token_not_paren(4,5,10) TransformCmp by (simp split: option.splits)
next
  case (FnCmp fn f c x)
  then have f: "field_ok f" using ok by simp
  show ?thesis
    using passes_call [of "[f]" "number_fn_name fn" "[cmp_word c, show_int \<lfloor>x\<rfloor>]"]
      token_not_paren(1) [OF f] token_not_paren(3,5,7) FnCmp by simp
next
  case (DatePart p f c x)
  then have f: "field_ok f" using ok by simp
  show ?thesis
    using passes_call [of "[f]" "part_name p" "[cmp_word c, show_int \<lfloor>x\<rfloor>]"]
      token_not_paren(1) [OF f] token_not_paren(3,5,8) DatePart by simp
next
  case (LengthCmp f c x)
  then have f: "field_ok f" using ok by simp
  show ?thesis
    using passes_call [of "[f]" "''length''" "[cmp_word c, show_int \<lfloor>x\<rfloor>]"]
      token_not_paren(1) [OF f] token_not_paren(3,5) LengthCmp by simp
next
  case (IndexOfCmp f c x needle)
  then have f: "field_ok f" using ok by simp
  show ?thesis
    using passes_call [of "[f, '','', quoted needle]" "''indexof''" "[cmp_word c, show_int \<lfloor>x\<rfloor>]"]
      token_not_paren(1) [OF f] token_not_paren(3,4,5) IndexOfCmp by simp
next
  case (SubstrCmp f start len c literal)
  then have f: "field_ok f" using ok by simp
  show ?thesis
    using passes_call [of "[f, '','', show_int \<lfloor>start\<rfloor>] @ (case len of None \<Rightarrow> [] | Some n \<Rightarrow> ['','', show_int \<lfloor>n\<rfloor>])"
        "''substring''" "[cmp_word c, quoted literal]"]
      token_not_paren(1) [OF f] token_not_paren(3,4,5) SubstrCmp by (cases len) simp_all
next
  case (StringFnCmp fn args c literal)
  have "passes (commas (map arg_tokens args))"
    using ok StringFnCmp passes_arg by (intro passes_commas) (auto simp: list_all_iff)
  from passes_function [OF this token_not_paren(9), where us = "[cmp_word c, quoted literal]"]
  show ?thesis using token_not_paren(4,5) StringFnCmp by simp
qed (use ok in simp_all)

definition lambda_token :: "string list \<Rightarrow> lambda_type \<Rightarrow> string" where
  "lambda_token path k = join ''/'' path @ ''/'' @ lambda_name k"

lemma segment_ok_path: "segment_ok s \<Longrightarrow> s \<noteq> [] \<and> ident_start (hd s) \<and> list_all path_char s"
  by (auto simp: segment_ok_def list_all_iff path_char_def)

lemma join_segments:
  "path \<noteq> [] \<Longrightarrow> list_all segment_ok path \<Longrightarrow>
   join ''/'' path \<noteq> [] \<and> ident_start (hd (join ''/'' path)) \<and> list_all path_char (join ''/'' path)"
proof (induction "''/''" path rule: join.induct)
  case (3 x y ys)
  then show ?case using segment_ok_path [of x] by (auto simp: path_char_def)
qed (use segment_ok_path in auto)

lemma match_lambda_token:
  assumes "path \<noteq> []" "list_all segment_ok path"
  shows "match_lambda (lambda_token path k) = Some (join ''/'' path, k)" "path_segments (join ''/'' path) = path"
proof -
  show "match_lambda (lambda_token path k) = Some (join ''/'' path, k)"
    using join_segments [OF assms]
    by (cases k) (simp_all add: match_lambda_def lambda_token_def lambda_name_def Let_def char_eval)
  have "\<forall>x\<in>set path. CHR ''/'' \<notin> set x"
    using assms(2) by (fastforce simp: list_all_iff segment_ok_def ident_char_def ident_start_def is_alpha_def
        is_upper_def is_lower_def is_digit_def code_def)
  from split_on_join [OF assms(1) this] show "path_segments (join ''/'' path) = path"
    using assms(2) unfolding path_segments_def by (auto simp: list_all_iff segment_ok_def intro: filter_True)
qed

lemma lambda_token_length: "5 \<le> length (lambda_token path k) \<or> join ''/'' path = []"
  by (cases k; cases "join ''/'' path") (auto simp: lambda_token_def lambda_name_def)

lemma lambda_token_no_paren:
  assumes "path \<noteq> []" "list_all segment_ok path"
  shows "lambda_token path k \<noteq> ''('' \<and> lambda_token path k \<noteq> '')''" "lower (lambda_token path k) \<noteq> ''not''"
proof -
  have l: "5 \<le> length (lambda_token path k)"
    using lambda_token_length join_segments [OF assms] by blast
  then show "lambda_token path k \<noteq> ''('' \<and> lambda_token path k \<noteq> '')''" by auto
  from l have "length (lower (lambda_token path k)) \<noteq> length ''not''" by simp
  then show "lower (lambda_token path k) \<noteq> ''not''" by metis
qed

lemma passes_print: "writable e \<Longrightarrow> passes (print_expr l e)"
proof (induction e arbitrary: l)
  case (Logical t es)
  then obtain a b where es: "es = [a, b]" "writable a" "writable b"
    by (auto split: list.splits)
  have ab: "passes (print_expr l a)" "passes (print_expr l b)" for l
    using Logical.IH es by auto
  have parens: "passes (parens_if c ts)" if "passes ts" for c ts
    using passes_parens [OF that passes_Nil] that by (simp add: parens_if_def)
  have w: "passes (print_expr i a @ w # print_expr j b)" if "w \<noteq> ''('' \<and> w \<noteq> '')''" for i j w
    using that passes_append [OF ab(1) passes_Cons [OF _ _ ab(2)]] by blast
  show ?case by (cases t) (auto simp: es intro!: parens w)
next
  case (Not e)
  then show ?case by (auto intro: passes_Cons)
next
  case (Lambda k path al p)
  have "passes ((al @ '':'') # print_expr 0 p)"
    using Lambda by (intro passes_Cons) (auto simp: segment_ok_def)
  from passes_function [OF this, of "lambda_token path k" "[]"] show ?case
    using lambda_token_no_paren [of path k] Lambda.prems by (simp add: lambda_token_def)
qed (simp_all add: passes_atom del: print_atom.simps atom_ok.simps)

lemma print_not_Nil: "writable e \<Longrightarrow> print_expr l e \<noteq> []"
proof (cases e)
  case (Logical t es)
  then show "writable e \<Longrightarrow> print_expr l e \<noteq> []"
    by (cases t) (auto simp: parens_if_def split: list.splits)
qed (auto split: comparator.splits js_value.splits)

lemma split_alias_print:
  "segment_ok a \<Longrightarrow> ts \<noteq> [] \<Longrightarrow> split_alias ((a @ '':'') # ts) = Inr (a, ts)"
  by (simp add: split_alias_def ends_with_def segment_ok_def)

lemma read2_lambda:
  assumes p: "\<And>m. read0 strict m p" and w: "writable (Lambda k path al p)"
  shows "read2 strict m (Lambda k path al p)"
  unfolding read2_def
proof (intro allI impI)
  fix tokens i post
  let ?e = "Lambda k path al p" and ?ts = "print_expr 0 p"
  assume "drop i tokens = print_expr 2 ?e @ post" and l: "length tokens - i \<le> m"
  then have d: "drop i tokens = lambda_token path k # ''('' # (al @ '':'') # ?ts @ '')'' # post"
    by (simp add: lambda_token_def)
  have ok: "path \<noteq> []" "list_all segment_ok path" "segment_ok al" "writable p" using w by auto
  note at = at_drop [OF d]
  have "length (drop i tokens) = length ?ts + 4 + length post" unfolding d by simp
  then have len: "length ?ts + 4 \<le> length tokens - i" by simp
  with l obtain m' where m: "m = Suc m'" "length ?ts \<le> m'" by (cases m) auto
  have al: "al @ '':'' \<noteq> ''('' \<and> al @ '':'' \<noteq> '')''"
    using ok(3) by (auto simp: segment_ok_def)
  have "collect_inner (drop (i + 1) tokens) 0 [] (i + 1)
      = collect_inner (?ts @ '')'' # post) 1 [al @ '':''] (i + 3)"
    using at(5) al by (simp add: eval_nat_numeral)
  also have "\<dots> = collect_inner ('')'' # post) 1 ([al @ '':''] @ ?ts) (i + 3 + length ?ts)"
    using passes_print [OF ok(4), of 0] unfolding passes_def by simp
  finally have inner: "collect_inner (drop (i + 1) tokens) 0 [] (i + 1)
      = Inr (0, (al @ '':'') # ?ts, Some (i + 3 + length ?ts))" by simp
  have "parseExpression (Suc m') strict ?ts 0 = Inr (p, 0 + length ?ts)"
    by (rule read0_expr [OF p, where post = "[]"]) (use m in auto)
  then have "tryParseLambda (parseExpression m strict) tokens i = Inr (Some (?e, i + 4 + length ?ts))"
    using at(1,2) inner match_lambda_token [OF ok(1,2)] split_alias_print [OF ok(3) print_not_Nil [OF ok(4)]] m ok(1)
    by (simp add: tryParseLambda_def tok_is_def del: parseExpression.simps)
  then have "parsePrimary (parseExpression m strict) strict tokens i = Inr (?e, i + 4 + length ?ts)"
    using at(1) lambda_token_no_paren [OF ok(1,2)]
    by (simp add: parsePrimary_def tok_is_def parseComparison_def)
  then show "unary_at strict m tokens i = Inr (?e, i + length (print_expr 2 ?e))"
    using at(1) lambda_token_no_paren(2) [OF ok(1,2)]
    by (subst parseUnary.simps) (simp add: tok_lower_def)
qed

section \<open>The round trip\<close>

lemma atom_head:
  assumes "atom_ok e"
  shows "\<exists>w ts. print_atom e = w # ts \<and> w \<noteq> ''('' \<and> lower w \<noteq> ''not''"
proof (cases e)
  case (Comparison f c v)
  then have "field_ok f" using assms by simp
  moreover have "\<exists>ts. print_atom e = f # ts" using Comparison by (cases c; cases v) auto
  ultimately show ?thesis using token_not_paren(1) field_not_function(9) by blast
next
  case (StringTest fn f vs ci t neg)
  then show ?thesis by (cases fn) (simp_all add: char_eval)
next
  case (TransformCmp t f c v)
  then show ?thesis by (cases t) (simp_all add: char_eval)
next
  case (FnCmp fn f c x)
  then show ?thesis by (cases fn) (simp_all add: char_eval)
next
  case (DatePart p f c x)
  then show ?thesis by (cases p) (simp_all add: char_eval)
next
  case (StringFnCmp fn args c literal)
  then show ?thesis by (cases fn) (simp_all add: char_eval)
qed (use assms in \<open>simp_all add: char_eval\<close>)

lemma read2_atom:
  assumes "atom_ok e" "\<And>l. print_expr l e = print_atom e"
  shows "read2 strict m e"
  unfolding read2_def
proof (intro allI impI)
  fix tokens i post
  assume d: "drop i tokens = print_expr 2 e @ post"
  obtain w ts where w: "print_atom e = w # ts" "w \<noteq> ''(''" "lower w \<noteq> ''not''"
    using atom_head [OF assms(1)] by blast
  have "parseComparison (parseExpression m strict) strict tokens i = Inr (e, i + length (print_atom e))"
    by (rule read_atom [OF assms(1)]) (use d assms(2) in simp)
  moreover have "nth_opt tokens i = Some w" using at_drop(1) [OF d] w(1) assms(2) by simp
  ultimately show "unary_at strict m tokens i = Inr (e, i + length (print_expr 2 e))"
    using w assms(2) by (subst parseUnary.simps) (simp add: parsePrimary_def tok_is_def tok_lower_def)
qed

lemma read_levels:
  assumes "\<And>m. read2 strict m e" "print_expr 1 e = print_expr 2 e" "print_expr 0 e = print_expr 1 e"
  shows "read0 strict m e \<and> read1 strict m e \<and> read2 strict m e"
  using assms read2_level1 read1_level0 by blast

theorem read_writable: "writable e \<Longrightarrow> read0 strict m e \<and> read1 strict m e \<and> read2 strict m e"
proof (induction e arbitrary: m)
  case (Logical t es)
  then obtain a b where es: "es = [a, b]" "writable a" "writable b"
    by (auto split: list.splits)
  have a: "read0 strict m a" "read1 strict m a" "read2 strict m a"
    and b: "read0 strict m b" "read1 strict m b" "read2 strict m b" for m
    using Logical.IH es by auto
  show ?case
  proof (cases t)
    case And
    have 1: "read1 strict m (Logical And [a, b])" for m by (rule read1_and_node [OF a(2) b(3)])
    have 0: "read0 strict m (Logical And [a, b])" for m by (rule read1_level0 [OF 1]) (simp add: parens_if_def)
    have 2: "read2 strict m (Logical And [a, b])"
      unfolding read2_def
      using read_parens [OF 0] by (auto simp: parens_if_def)
    from 0 1 2 And es show ?thesis by simp
  next
    case Or
    have 0: "read0 strict m (Logical Or [a, b])" for m by (rule read0_or_node [OF a(1) b(2)])
    have 2: "read2 strict m (Logical Or [a, b])" for m
      unfolding read2_def
      using read_parens [OF 0] by (auto simp: parens_if_def)
    have "read1 strict m (Logical Or [a, b])" by (rule read2_level1 [OF 2]) (simp add: parens_if_def)
    with 0 2 Or es show ?thesis by simp
  qed
next
  case (Not e)
  then have "read2 strict m (Not e)" for m by (intro read2_not) simp
  then show ?case by (intro read_levels) simp_all
next
  case (Lambda k path al p)
  then have "read2 strict m (Lambda k path al p)" for m by (intro read2_lambda) simp_all
  then show ?case by (intro read_levels) simp_all
qed (intro read_levels read2_atom; simp add: atom_ok.simps del: print_atom.simps)+

lemma parseFilter_print:
  "writable e \<Longrightarrow> parseFilter (print_expr 0 e) 0 strict = Inr (e, length (print_expr 0 e))"
  using read0_expr [of strict "length (print_expr 0 e)" e 0 "print_expr 0 e" "[]"] read_writable [of e strict]
    print_not_Nil [of e 0]
  by (simp add: parseFilter_def del: parseExpression.simps)

text \<open>The tokens of a writable expression are tokens, so its text is one too.\<close>

definition filter_text :: "parsed_expression \<Rightarrow> string" where
  "filter_text e = join '' '' (print_expr 0 e)"

definition read_filter :: "bool \<Rightarrow> string \<Rightarrow> (parsed_expression \<times> nat) result" where
  "read_filter strict s = rbind (tokenize s) (\<lambda>tokens. parseFilter tokens 0 strict)"

lemma word_tokens [simp]:
  "is_token (cmp_word c)" "is_token (test_name fn)" "is_token (number_fn_name g)" "is_token (part_name p)"
  "is_token (string_fn_name sf)" "is_token (transform_name t)" "is_token ''(''" "is_token '')''" "is_token '',''"
  "is_token ''length''" "is_token ''indexof''" "is_token ''substring''" "is_token ''in''" "is_token ''and''"
  "is_token ''or''" "is_token ''eq''" "is_token ''ne''" "is_token ''not''" "is_token ''null''" "is_token ''true''" "is_token ''false''" "is_token (show_int n)"
proof -
  note defs = is_token_def quote_def punctuation_def is_space_def code_def
  show "is_token (cmp_word c)" by (cases c) (simp_all add: defs)
  show "is_token (test_name fn)" by (cases fn) (simp_all add: defs)
  show "is_token (number_fn_name g)" by (cases g) (simp_all add: defs)
  show "is_token (part_name p)" by (cases p) (simp_all add: defs)
  show "is_token (string_fn_name sf)" by (cases sf) (simp_all add: defs)
  show "is_token (transform_name t)" by (cases t) (simp_all add: defs)
  show "is_token (show_int n)" by (rule show_int_is_token)
qed (simp_all add: is_token_def quote_def punctuation_def is_space_def code_def)

lemma lit_is_token: "lit_ok v \<Longrightarrow> is_token (lit_token v)"
  by (cases v rule: lit_ok.cases) auto

lemma field_tokens_tokens: "field_ok f \<Longrightarrow> t \<in> set (field_tokens f u) \<Longrightarrow> is_token t"
  using field_facts(7) by (cases u) auto

lemma commas_tokens: "(\<forall>x\<in>set xs. \<forall>t\<in>set x. is_token t) \<Longrightarrow> t \<in> set (commas xs) \<Longrightarrow> is_token t"
  by (induction xs rule: commas.induct) auto

lemma arg_tokens_tokens: "arg_ok a \<Longrightarrow> t \<in> set (arg_tokens a) \<Longrightarrow> is_token t"
  using field_tokens_tokens lit_is_token by (cases a) auto

lemma atom_tokens:
  assumes ok: "atom_ok e" and t: "t \<in> set (print_atom e)"
  shows "is_token t"
proof (cases e)
  case (Comparison f c v)
  show ?thesis
  proof (cases "\<exists>vs. c = Inq \<and> v = JArr vs")
    case True
    then obtain vs where vs: "c = Inq" "v = JArr vs" by blast
    have "is_token t" if "t \<in> set (commas (map (\<lambda>v. [lit_token v]) vs))"
      using ok vs Comparison lit_is_token by (intro commas_tokens [OF _ that]) (auto simp: list_all_iff)
    then show ?thesis using ok t vs Comparison field_facts(7) by auto
  next
    case False
    then have "lit_ok v \<and> field_ok f" "print_atom e = [f, cmp_word c, lit_token v]"
      using Comparison ok by (cases c; cases v; simp add: order_cmp_def)+
    then show ?thesis using t field_facts(7) lit_is_token by auto
  qed
next
  case (StringTest fn f vs ci tr neg)
  then show ?thesis using ok t field_tokens_tokens lit_is_token by auto
next
  case (SubstrCmp f start len c literal)
  then show ?thesis using ok t field_facts(7) by (auto split: option.splits)
next
  case (StringFnCmp fn args c literal)
  have "is_token t" if "t \<in> set (commas (map arg_tokens args))"
    using ok StringFnCmp arg_tokens_tokens by (intro commas_tokens [OF _ that]) (auto simp: list_all_iff)
  then show ?thesis using ok t StringFnCmp by auto
qed (use ok t field_facts(7) in \<open>auto split: option.splits\<close>)

lemma print_tokens: "writable e \<Longrightarrow> t \<in> set (print_expr l e) \<Longrightarrow> is_token t"
proof (induction e arbitrary: l)
  case (Logical lt es)
  then obtain a b where es: "es = [a, b]" "writable a" "writable b"
    by (auto split: list.splits)
  then show ?case
    using Logical.IH Logical.prems by (cases lt) (auto simp: parens_if_def split: if_splits)
next
  case (Lambda k path al p)
  then have ok: "path \<noteq> []" "list_all segment_ok path" "segment_ok al" "writable p" by auto
  have "list_all path_char (lambda_token path k)"
    using join_segments [OF ok(1,2)]
    by (cases k) (auto simp: lambda_token_def lambda_name_def path_char_def ident_char_def ident_start_def
        is_alpha_def is_upper_def is_lower_def code_def)
  then have "is_token (lambda_token path k)"
    using path_chars_word join_segments [OF ok(1,2)] by (simp add: is_token_def lambda_token_def)
  moreover have "is_token (al @ '':'')"
  proof -
    have "word_state al False = Some False"
      using path_chars_word segment_ok_path [OF ok(3)] by blast
    then show ?thesis
      by (simp add: is_token_def word_state_append) (simp add: quote_def punctuation_def is_space_def code_def)
  qed
  ultimately show ?case using Lambda by (auto simp: lambda_token_def)
qed (auto simp del: print_atom.simps atom_ok.simps intro: atom_tokens)

text \<open>Any writable expression is read back from its text.\<close>

lemma filter_text_round_trip:
  "writable e \<Longrightarrow> read_filter strict (filter_text e) = Inr (e, length (print_expr 0 e))"
  using tokenize_tokens [of "print_expr 0 e"] print_tokens [of e _ 0] parseFilter_print [of e strict]
  by (simp add: read_filter_def filter_text_def)

end
