(* ===== verification/ComputeRoundTrip.thy ===== *)
theory ComputeRoundTrip
  imports ComputeParser FilterRoundTrip
begin

text \<open>
  The grammar of \<open>$compute\<close> as a printer with the fewest parentheses: \<open>mul\<close>, \<open>div\<close> and \<open>mod\<close> bind
  tighter than \<open>add\<close> and \<open>sub\<close>, all of them to the left. The parser reads every printed
  expression back.
\<close>

section \<open>The printer\<close>

fun op_word :: "compute_op \<Rightarrow> string" where
  "op_word OpAdd = ''add''" | "op_word OpSub = ''sub''" | "op_word OpMul = ''mul''"
| "op_word OpDiv = ''div''" | "op_word OpMod = ''mod''"

fun fn_word :: "compute_fn \<Rightarrow> string" where
  "fn_word FnToLower = ''tolower''" | "fn_word FnToUpper = ''toupper''" | "fn_word FnConcat = ''concat''"

definition is_sum :: "compute_op \<Rightarrow> bool" where
  "is_sum oper \<longleftrightarrow> oper = OpAdd \<or> oper = OpSub"

fun print_compute :: "nat \<Rightarrow> compute_node \<Rightarrow> string list" where
  "print_compute l (CBinary oper a b) =
     (if is_sum oper then parens_if (0 < l) (print_compute 0 a @ op_word oper # print_compute 1 b)
      else parens_if (1 < l) (print_compute 1 a @ op_word oper # print_compute 2 b))"
| "print_compute l (CFunction fn args) = fn_word fn # ''('' # commas (map (print_compute 0) args) @ ['')'']"
| "print_compute l (CPath path) = [join ''/'' path]"
| "print_compute l (CLiteral v) = [lit_token v]"

definition compute_path :: "string list \<Rightarrow> bool" where
  "compute_path path \<longleftrightarrow> path \<noteq> [] \<and> list_all segment_ok path \<and> join ''/'' path \<noteq> ''Infinity''
     \<and> lower (join ''/'' path) \<notin> set [''null'', ''true'', ''false'', ''tolower'', ''toupper'', ''concat'']"

fun writable_compute :: "compute_node \<Rightarrow> bool" where
  "writable_compute (CBinary oper a b) = (writable_compute a \<and> writable_compute b)"
| "writable_compute (CFunction fn args) = list_all writable_compute args"
| "writable_compute (CPath path) = compute_path path"
| "writable_compute (CLiteral v) = lit_ok v"

section \<open>Words\<close>

lemma segment_no_slash: "segment_ok s \<Longrightarrow> CHR ''/'' \<notin> set s"
  by (auto simp: segment_ok_def list_all_iff ident_char_def ident_start_def is_alpha_def is_upper_def
      is_lower_def is_digit_def code_def)

lemma letter_number: "ident_start c \<Longrightarrow> c # s \<noteq> ''Infinity'' \<Longrightarrow> trim (c # s) = c # s \<Longrightarrow> js_Number (c # s) = NotANumber"
proof -
  assume c: "ident_start c" and n: "c # s \<noteq> ''Infinity''" and t: "trim (c # s) = c # s"
  have d: "\<not> is_digit c" "c \<noteq> CHR ''-''" "c \<noteq> CHR ''0''" "c \<noteq> CHR ''+''" "c \<noteq> CHR ''.''"
    using c by (auto simp: ident_start_def is_alpha_def is_upper_def is_lower_def is_digit_def code_def)
  then show ?thesis
    using n by (simp add: js_Number_def t starts_with_def decimal_number_def span_digits_def Let_def)
qed

lemma parse_path:
  assumes "compute_path path"
  shows "parse_word (join ''/'' path) = Inr (CPath path)" "isComputeFunction (lower (join ''/'' path)) = None"
    "join ''/'' path \<noteq> ''(''" "join ''/'' path \<noteq> '')''"
proof -
  have p: "path \<noteq> []" "list_all segment_ok path" using assms by (auto simp: compute_path_def)
  obtain c s where cs: "join ''/'' path = c # s" and c: "ident_start c" and chars: "list_all path_char (c # s)"
    using join_segments [OF p] by (cases "join ''/'' path") auto
  have t: "trim (c # s) = c # s" using chars by (intro trim_path) auto
  have q: "\<not> is_quoted (c # s)"
    using path_char_facts(3) [OF c] by (simp add: is_quoted_def starts_with_def)
  have "\<not> isNumericToken (c # s)"
    using letter_number [OF c _ t] assms cs by (simp add: isNumericToken_def compute_path_def)
  moreover have "split_on CHR ''/'' (c # s) = path"
    using split_on_join [of path "CHR ''/''"] p segment_no_slash cs by (simp add: list_all_iff)
  moreover have "map trim path = path" "filter (\<lambda>p. p \<noteq> []) path = path"
    using p(2) segment_ok_path trim_path by (induction path) auto
  ultimately show "parse_word (join ''/'' path) = Inr (CPath path)"
    using assms q p(1) unfolding cs by (simp add: parse_word_def Let_def compute_path_def cs)
  show "isComputeFunction (lower (join ''/'' path)) = None" using assms by (simp add: compute_path_def)
  show "join ''/'' path \<noteq> ''(''" "join ''/'' path \<noteq> '')''"
    using path_char_facts(4) [OF c] unfolding cs by auto
qed

lemma parse_literal_word:
  assumes "lit_ok v"
  shows "parse_word (lit_token v) = Inr (CLiteral v)" "isComputeFunction (lower (lit_token v)) = None"
    "lit_token v \<noteq> ''(''" "lit_token v \<noteq> '')''"
proof -
  have "parse_word (lit_token v) = Inr (CLiteral v) \<and> isComputeFunction (lower (lit_token v)) = None
      \<and> lit_token v \<noteq> ''('' \<and> lit_token v \<noteq> '')''"
  proof (cases v rule: lit_ok.cases)
    case (4 x)
    have "\<not> is_digit CHR ''c''" by (simp add: is_digit_def code_def)
    with 4 assms int_ok_floor [of x] js_Number_int [of "\<lfloor>x\<rfloor>"] show ?thesis
      by (simp add: parse_word_def isNumericToken_def show_int_not_quoted Let_def)
  next
    case (3 s)
    have "CHR ''c'' \<noteq> quote" by (simp add: quote_def)
    with 3 show ?thesis by (simp add: parse_word_def unescapeStringLiteral_def)
  next
    case (2 b)
    then show ?thesis
      by (cases b) (simp_all add: parse_word_def is_quoted_def starts_with_def char_eval Let_def)
  next
    case 1
    then show ?thesis by (simp add: parse_word_def is_quoted_def starts_with_def char_eval Let_def)
  qed (use assms in simp_all)
  then show "parse_word (lit_token v) = Inr (CLiteral v)" "isComputeFunction (lower (lit_token v)) = None"
    "lit_token v \<noteq> ''(''" "lit_token v \<noteq> '')''" by auto
qed

lemma word_facts:
  "lower (op_word oper) = op_word oper" "lower (fn_word fn) = fn_word fn" "isComputeFunction (fn_word fn) = Some fn"
  "fn_word fn \<noteq> ''(''" "mul_op (op_word oper) = (if is_sum oper then None else Some oper)"
  "add_op (op_word oper) = (if is_sum oper then Some oper else None)"
  by (cases oper; cases fn; simp add: char_eval is_sum_def)+


section \<open>Levels\<close>

lemma op_loop_fuel:
  assumes moves: "\<And>i x j. i0 \<le> i \<Longrightarrow> operand tokens i = Inr (x, j) \<Longrightarrow> i < j \<and> j \<le> length tokens"
  shows "i0 \<le> i \<Longrightarrow> length tokens - i < k \<Longrightarrow> length tokens - i < k' \<Longrightarrow>
    op_loop k operand op_of tokens node i = op_loop k' operand op_of tokens node i"
proof (induction k arbitrary: k' i node)
  case (Suc k)
  obtain k'' where k': "k' = Suc k''" using Suc.prems by (cases k') auto
  have eq: "op_loop k operand op_of tokens (CBinary oper node x) j = op_loop k'' operand op_of tokens (CBinary oper node x) j"
    if "operand tokens (i + 1) = Inr (x, j)" "i < length tokens" for oper x j
    using moves [OF _ that(1)] Suc.prems that(2) by (intro Suc.IH) (auto simp: k')
  then show ?case
  proof (cases "Option.bind (tok_lower tokens i) op_of")
    case (Some oper)
    then have "i < length tokens" by (auto simp: tok_lower_def bind_eq_Some_conv dest: nth_opt_SomeD)
    with Some eq show ?thesis by (auto simp: k' intro!: rbind_cong)
  qed (simp add: k')
qed simp

text \<open>The level stands with \<open>e\<close> read and the next token at \<open>j\<close>.\<close>

definition arrives ::
  "compute_parser \<Rightarrow> (string \<Rightarrow> compute_op option) \<Rightarrow> string list \<Rightarrow> nat \<Rightarrow> compute_node \<Rightarrow> nat \<Rightarrow> bool" where
  "arrives operand op_of tokens i e j \<longleftrightarrow>
     i < j \<and> op_level operand op_of tokens i = op_loop (Suc (length tokens)) operand op_of tokens e j"

lemma arrives_first: "operand tokens i = Inr (e, j) \<Longrightarrow> i < j \<Longrightarrow> arrives operand op_of tokens i e j"
  by (simp add: arrives_def op_level_def del: op_loop.simps)

lemma arrives_next:
  assumes moves: "\<And>j x k. i \<le> j \<Longrightarrow> operand tokens j = Inr (x, k) \<Longrightarrow> j < k \<and> k \<le> length tokens"
    and a: "arrives operand op_of tokens i a j" and w: "Option.bind (tok_lower tokens j) op_of = Some oper"
    and b: "operand tokens (j + 1) = Inr (b, k)"
  shows "arrives operand op_of tokens i (CBinary oper a b) k"
proof -
  have j: "i < j" "j < length tokens"
    using a w by (auto simp: arrives_def tok_lower_def bind_eq_Some_conv dest: nth_opt_SomeD)
  have k: "j + 1 < k" "k \<le> length tokens" using moves [OF _ b] j by auto
  have "op_level operand op_of tokens i = op_loop (length tokens) operand op_of tokens (CBinary oper a b) k"
    using a w b j by (simp add: arrives_def)
  also have "\<dots> = op_loop (Suc (length tokens)) operand op_of tokens (CBinary oper a b) k"
    by (rule op_loop_fuel [of i operand tokens]) (use moves j k in auto)
  finally show ?thesis using j k by (simp add: arrives_def)
qed

lemma arrives_end:
  "arrives operand op_of tokens i e j \<Longrightarrow> Option.bind (tok_lower tokens j) op_of = None \<Longrightarrow>
   op_level operand op_of tokens i = Inr (e, j)"
  by (auto simp: arrives_def)

abbreviation primary_at :: "nat \<Rightarrow> compute_parser" where
  "primary_at m \<equiv> parseComputePrimary (parseComputeAddSub m)"

abbreviation product_at :: "nat \<Rightarrow> compute_parser" where
  "product_at m \<equiv> parseComputeMulDiv (parseComputeAddSub m)"

lemma primary_moves: "length tokens - i \<le> m \<Longrightarrow> primary_at m tokens i = Inr (x, j) \<Longrightarrow> i < j \<and> j \<le> length tokens"
  using ensuresD [OF parseComputePrimary_ensures [OF parseComputeAddSub_ok]] by fastforce

lemma product_moves: "length tokens - i \<le> m \<Longrightarrow> product_at m tokens i = Inr (x, j) \<Longrightarrow> i < j \<and> j \<le> length tokens"
  using ensuresD [OF parseComputeMulDiv_ensures [OF parseComputeAddSub_ok]] by fastforce

text \<open>The operator a text starts with.\<close>

definition head_op :: "(string \<Rightarrow> compute_op option) \<Rightarrow> string list \<Rightarrow> compute_op option" where
  "head_op op_of post = Option.bind (map_option lower (nth_opt post 0)) op_of"

lemma head_op_at:
  "drop i tokens = ts @ post \<Longrightarrow> Option.bind (tok_lower tokens (i + length ts)) op_of = head_op op_of post"
  using tok_lower_drop [of i tokens ts post] by (simp add: head_op_def)

definition cread2 :: "nat \<Rightarrow> compute_node \<Rightarrow> bool" where
  "cread2 m e \<longleftrightarrow> (\<forall>tokens i post. drop i tokens = print_compute 2 e @ post \<longrightarrow> length tokens - i \<le> m \<longrightarrow>
     primary_at m tokens i = Inr (e, i + length (print_compute 2 e)))"

definition cread1 :: "nat \<Rightarrow> compute_node \<Rightarrow> bool" where
  "cread1 m e \<longleftrightarrow> (\<forall>tokens i post. drop i tokens = print_compute 1 e @ post \<longrightarrow> length tokens - i \<le> m \<longrightarrow>
     arrives (primary_at m) mul_op tokens i e (i + length (print_compute 1 e)))"

definition cread0 :: "nat \<Rightarrow> compute_node \<Rightarrow> bool" where
  "cread0 m e \<longleftrightarrow> (\<forall>tokens i post. drop i tokens = print_compute 0 e @ post \<longrightarrow> length tokens - i \<le> m \<longrightarrow>
     head_op mul_op post = None \<longrightarrow>
     arrives (product_at m) add_op tokens i e (i + length (print_compute 0 e)))"

lemma cread2_level1: "cread2 m e \<Longrightarrow> print_compute 1 e = print_compute 2 e \<Longrightarrow> cread1 m e"
  unfolding cread1_def cread2_def using primary_moves by (metis arrives_first)

lemma cread1_product:
  assumes "cread1 m e" "drop i tokens = print_compute 1 e @ post" "length tokens - i \<le> m" "head_op mul_op post = None"
  shows "product_at m tokens i = Inr (e, i + length (print_compute 1 e))"
  unfolding parseComputeMulDiv_def
  using assms head_op_at [OF assms(2)] by (intro arrives_end) (simp_all add: cread1_def)

lemma cread1_level0: "cread1 m e \<Longrightarrow> print_compute 0 e = print_compute 1 e \<Longrightarrow> cread0 m e"
  unfolding cread0_def using cread1_product product_moves by (metis arrives_first)

lemma cread1_node:
  assumes a: "cread1 m a" and b: "cread2 m b" and oper: "\<not> is_sum oper"
  shows "cread1 m (CBinary oper a b)"
  unfolding cread1_def
proof (intro allI impI)
  fix tokens i post
  assume d: "drop i tokens = print_compute 1 (CBinary oper a b) @ post" and l: "length tokens - i \<le> m"
  let ?j = "i + length (print_compute 1 a)"
  have d1: "drop i tokens = print_compute 1 a @ op_word oper # print_compute 2 b @ post"
    using d oper by (simp add: parens_if_def)
  have d2: "drop (?j + 1) tokens = print_compute 2 b @ post"
    using at_drop(6) [OF d1, of "length (print_compute 1 a) + 1"] by (simp add: add.assoc)
  have "arrives (primary_at m) mul_op tokens i a ?j" using a d1 l unfolding cread1_def by blast
  moreover have "Option.bind (tok_lower tokens ?j) mul_op = Some oper"
    using head_op_at [OF d1, of mul_op] oper by (simp add: head_op_def word_facts del: mul_op.simps)
  moreover have "primary_at m tokens (?j + 1) = Inr (b, ?j + 1 + length (print_compute 2 b))"
    using b d2 l unfolding cread2_def by simp
  moreover have "j < k \<and> k \<le> length tokens" if "i \<le> j" "primary_at m tokens j = Inr (x, k)" for j x k
    using that l by (intro primary_moves [of tokens j m]) simp_all
  ultimately have "arrives (primary_at m) mul_op tokens i (CBinary oper a b) (?j + 1 + length (print_compute 2 b))"
    by (intro arrives_next) auto
  then show "arrives (primary_at m) mul_op tokens i (CBinary oper a b)
      (i + length (print_compute 1 (CBinary oper a b)))"
    using oper by (simp add: parens_if_def add.assoc)
qed

lemma cread0_node:
  assumes a: "cread0 m a" and b: "cread1 m b" and oper: "is_sum oper"
  shows "cread0 m (CBinary oper a b)"
  unfolding cread0_def
proof (intro allI impI)
  fix tokens i post
  assume d: "drop i tokens = print_compute 0 (CBinary oper a b) @ post" and l: "length tokens - i \<le> m"
    and post: "head_op mul_op post = None"
  let ?j = "i + length (print_compute 0 a)"
  have d1: "drop i tokens = print_compute 0 a @ op_word oper # print_compute 1 b @ post"
    using d oper by (simp add: parens_if_def)
  have d2: "drop (?j + 1) tokens = print_compute 1 b @ post"
    using at_drop(6) [OF d1, of "length (print_compute 0 a) + 1"] by (simp add: add.assoc)
  have "head_op mul_op (op_word oper # print_compute 1 b @ post) = None"
    using oper by (simp add: head_op_def word_facts del: mul_op.simps)
  then have "arrives (product_at m) add_op tokens i a ?j" using a d1 l unfolding cread0_def by blast
  moreover have "Option.bind (tok_lower tokens ?j) add_op = Some oper"
    using head_op_at [OF d1, of add_op] oper by (simp add: head_op_def word_facts del: add_op.simps)
  moreover have "product_at m tokens (?j + 1) = Inr (b, ?j + 1 + length (print_compute 1 b))"
    using l by (intro cread1_product [OF b d2 _ post]) simp
  moreover have "j < k \<and> k \<le> length tokens" if "i \<le> j" "product_at m tokens j = Inr (x, k)" for j x k
    using that l by (intro product_moves [of tokens j m]) simp_all
  ultimately have "arrives (product_at m) add_op tokens i (CBinary oper a b) (?j + 1 + length (print_compute 1 b))"
    by (intro arrives_next) auto
  then show "arrives (product_at m) add_op tokens i (CBinary oper a b)
      (i + length (print_compute 0 (CBinary oper a b)))"
    using oper by (simp add: parens_if_def add.assoc)
qed


section \<open>Expressions\<close>

text \<open>What may follow an expression: nothing, a closing parenthesis or a comma.\<close>

definition closes :: "string list \<Rightarrow> bool" where
  "closes post \<longleftrightarrow> post = [] \<or> hd post = '')'' \<or> hd post = '',''"

lemma closes_op: "closes post \<Longrightarrow> head_op mul_op post = None \<and> head_op add_op post = None"
  by (cases post) (auto simp: closes_def head_op_def char_eval)

lemma cread0_expr:
  assumes "cread0 m e" "drop i tokens = print_compute 0 e @ post" "length tokens - i \<le> m" "closes post"
  shows "parseComputeAddSub (Suc m) tokens i = Inr (e, i + length (print_compute 0 e))"
proof -
  have "arrives (product_at m) add_op tokens i e (i + length (print_compute 0 e))"
    using assms closes_op unfolding cread0_def by blast
  moreover have "Option.bind (tok_lower tokens (i + length (print_compute 0 e))) add_op = None"
    using head_op_at [OF assms(2)] closes_op [OF assms(4)] by simp
  ultimately show ?thesis by (simp add: arrives_end)
qed

lemma drop_nonempty: "drop i xs = y # ys \<Longrightarrow> i < length xs"
  by (metis drop_all leI list.distinct(1))

lemma cread_parens:
  assumes e: "\<And>m. cread0 m e" and d: "drop i tokens = ''('' # print_compute 0 e @ '')'' # post"
    and l: "length tokens - i \<le> m"
  shows "primary_at m tokens i = Inr (e, i + 2 + length (print_compute 0 e))"
proof -
  have i: "i < length tokens" using drop_nonempty [OF d] .
  with l obtain m' where m: "m = Suc m'" by (cases m) auto
  have d1: "drop (Suc i) tokens = print_compute 0 e @ '')'' # post" using at_drop(5) [OF d] by simp
  have "parseComputeAddSub (Suc m') tokens (Suc i) = Inr (e, Suc i + length (print_compute 0 e))"
    by (rule cread0_expr [OF e d1]) (use l i m in \<open>auto simp: closes_def\<close>)
  moreover have "nth_opt tokens (Suc i + length (print_compute 0 e)) = Some '')''"
    unfolding nth_opt_drop [of tokens "Suc i"] d1 nth_opt_append_right [of _ _ 0, simplified] by simp
  ultimately show ?thesis
    using at_drop(1) [OF d] by (simp add: m parseComputePrimary_def tok_is_def del: parseComputeAddSub.simps)
qed

lemma print_compute_not_Nil [simp]: "print_compute l e \<noteq> []"
  by (cases e) (auto simp: parens_if_def)

lemma read_compute_args:
  assumes "\<forall>e\<in>set es. \<forall>m. cread0 m e" "es \<noteq> []" "length tokens - i \<le> m"
  shows "drop c tokens = commas (map (print_compute 0) es) @ '')'' # post \<Longrightarrow> i < c \<Longrightarrow> length tokens - c < k \<Longrightarrow>
    compute_args k (parseComputeAddSub m) token tokens c acc =
      Inr (acc @ es, c + length (commas (map (print_compute 0) es)) + 1)"
  using assms
proof (induction es arbitrary: c k acc)
  case (Cons e es)
  let ?rest = "if es = [] then '')'' # post else '','' # commas (map (print_compute 0) es) @ '')'' # post"
  have d: "drop c tokens = print_compute 0 e @ ?rest" using Cons.prems(1) by (cases es) auto
  then have c: "c < length tokens" using drop_nonempty [of c tokens] by (cases "print_compute 0 e") auto
  obtain k' m' where k: "k = Suc k'" "m = Suc m'" using Cons.prems c by (cases k; cases m) auto
  have r: "parseComputeAddSub m tokens c = Inr (e, c + length (print_compute 0 e))"
    unfolding k by (rule cread0_expr [OF _ d]) (use Cons.prems k c in \<open>auto simp: closes_def\<close>)
  let ?j = "c + length (print_compute 0 e)"
  have n: "nth_opt tokens ?j = Some (hd ?rest)"
    unfolding nth_opt_drop d nth_opt_append_right [of _ _ 0, simplified] by simp
  show ?case
  proof (cases "es = []")
    case True
    then show ?thesis using r n c by (simp add: k(1))
  next
    case False
    have "drop (?j + 1) tokens = commas (map (print_compute 0) es) @ '')'' # post"
      using at_drop(6) [OF d, of "length (print_compute 0 e) + 1"] False by (simp add: add.assoc)
    moreover have "length (print_compute 0 e) \<noteq> 0" by simp
    ultimately have "compute_args k' (parseComputeAddSub m) token tokens (?j + 1) (acc @ [e]) =
        Inr (acc @ [e] @ es, ?j + 1 + length (commas (map (print_compute 0) es)) + 1)"
      using Cons.prems False k c by (subst Cons.IH) auto
    moreover have "commas (map (print_compute 0) (e # es)) = print_compute 0 e @ '','' # commas (map (print_compute 0) es)"
      using False by (cases es) auto
    ultimately show ?thesis using r n c False by (simp add: k(1))
  qed
qed simp

lemma print_compute_head: "writable_compute e \<Longrightarrow> hd (print_compute l e) \<noteq> '')''"
proof (induction e arbitrary: l)
  case (CBinary oper a b)
  then show ?case by (auto simp: parens_if_def)
next
  case (CFunction fn es)
  show ?case by (cases fn) simp_all
qed (auto simp: parse_path parse_literal_word)

lemma cread_function:
  assumes "\<forall>e\<in>set es. \<forall>m. cread0 m e" "list_all writable_compute es"
    "drop i tokens = print_compute l (CFunction fn es) @ post" "length tokens - i \<le> m"
  shows "primary_at m tokens i = Inr (CFunction fn es, i + length (print_compute l (CFunction fn es)))"
proof -
  have d: "drop i tokens = fn_word fn # ''('' # commas (map (print_compute 0) es) @ '')'' # post"
    using assms(3) by simp
  note at = at_drop [OF d]
  have d2: "drop (i + 2) tokens = commas (map (print_compute 0) es) @ '')'' # post" using at(6) [of 2] by simp
  have l: "\<not> length tokens \<le> i + 2" using d2 by (metis append_is_Nil_conv drop_all list.distinct(1))
  have t: "nth_opt tokens i = Some (fn_word fn)" "tok_is tokens (Suc i) ''(''"
    using at(1,2) by (simp_all add: tok_is_def)
  show ?thesis
  proof (cases es)
    case Nil
    then have "tok_is tokens (Suc (Suc i)) '')''" using at(3) by (simp add: tok_is_def)
    with Nil t l show ?thesis
      by (simp add: parseComputePrimary_def word_facts eval_nat_numeral del: isComputeFunction.simps)
  next
    case (Cons e es')
    obtain t1 ts where p: "print_compute 0 e = t1 # ts" by (cases "print_compute 0 e") auto
    then have "t1 \<noteq> '')''" using print_compute_head [of e 0] assms(2) Cons by simp
    moreover have "\<exists>us. commas (map (print_compute 0) es) = t1 # us" using p Cons by (cases es') auto
    ultimately have n: "\<not> tok_is tokens (Suc (Suc i)) '')''"
      using at(3) by (auto simp: tok_is_def)
    have "compute_args (Suc (length tokens)) (parseComputeAddSub m) (fn_word fn) tokens (i + 2) [] =
        Inr ([] @ es, i + 2 + length (commas (map (print_compute 0) es)) + 1)"
      using assms Cons d2 by (intro read_compute_args [where i = i and post = post]) auto
    with n t l show ?thesis
      by (simp add: parseComputePrimary_def word_facts del: isComputeFunction.simps compute_args.simps)
  qed
qed

lemma cread_word:
  assumes "print_compute 2 e = [t]" "t \<noteq> ''(''" "isComputeFunction (lower t) = None" "parse_word t = Inr e"
  shows "cread2 m e"
  unfolding cread2_def
proof (intro allI impI)
  fix tokens i post
  assume "drop i tokens = print_compute 2 e @ post"
  then have "nth_opt tokens i = Some t" using at_drop(1) [of i tokens "t # post"] assms(1) by simp
  with assms show "primary_at m tokens i = Inr (e, i + length (print_compute 2 e))"
    by (simp add: parseComputePrimary_def del: isComputeFunction.simps)
qed

theorem cread_levels: "writable_compute e \<Longrightarrow> \<forall>m. cread0 m e \<and> cread1 m e \<and> cread2 m e"
proof (induction e)
  case (CBinary oper a b)
  then have ab: "cread0 m a" "cread1 m a" "cread0 m b" "cread1 m b" "cread2 m b" for m by auto
  show ?case
  proof (cases "is_sum oper")
    case True
    then have zero: "cread0 m (CBinary oper a b)" for m by (intro cread0_node ab)
    have two: "cread2 m (CBinary oper a b)" for m
      unfolding cread2_def using cread_parens [OF zero] True by (auto simp: parens_if_def)
    moreover have "cread1 m (CBinary oper a b)" for m
      by (rule cread2_level1 [OF two]) (use True in \<open>simp add: parens_if_def\<close>)
    ultimately show ?thesis using zero by blast
  next
    case False
    then have one: "cread1 m (CBinary oper a b)" for m by (intro cread1_node ab)
    have zero: "cread0 m (CBinary oper a b)" for m
      by (rule cread1_level0 [OF one]) (use False in \<open>simp add: parens_if_def\<close>)
    have "cread2 m (CBinary oper a b)" for m
      unfolding cread2_def using cread_parens [OF zero] False by (auto simp: parens_if_def)
    with one zero show ?thesis by blast
  qed
next
  case (CFunction fn es)
  then have two: "cread2 m (CFunction fn es)" for m
    unfolding cread2_def using cread_function [of es _ _ 2 fn] by (auto simp: list_all_iff simp del: print_compute.simps)
  then have "cread1 m (CFunction fn es)" for m by (rule cread2_level1) simp
  with two show ?case using cread1_level0 by force
next
  case (CPath path)
  then have "cread2 m (CPath path)" for m by (intro cread_word) (auto simp: parse_path simp del: isComputeFunction.simps)
  then show ?case using cread2_level1 cread1_level0 by force
next
  case (CLiteral v)
  then have "cread2 m (CLiteral v)" for m
    by (intro cread_word) (auto simp: parse_literal_word simp del: isComputeFunction.simps)
  then show ?case using cread2_level1 cread1_level0 by force
qed

lemma compute_print_parse:
  assumes "writable_compute e"
  shows "parseComputeExpressionTokens (print_compute 0 e) = Inr e"
proof -
  have "cread0 (length (print_compute 0 e)) e" using cread_levels [OF assms] by blast
  from cread0_expr [OF this, of 0 "print_compute 0 e" "[]"] show ?thesis
    by (simp add: parseComputeExpressionTokens_def closes_def del: parseComputeAddSub.simps)
qed

end
