(* ===== verification/ApplyRoundTrip.thy ===== *)
theory ApplyRoundTrip
  imports ApplyParser ComputeRoundTrip
begin

text \<open>
  The grammar of \<open>$apply\<close> as a printer: every transformation as a call, pipelines with slashes, the
  filters and operands as the printers of the filter and the arithmetic write them. The parser of
  pipelines reads every printed pipeline back, with its nested \<open>concat\<close>s.
\<close>

section \<open>The printer\<close>

fun operator_word :: "aggregation_operator \<Rightarrow> string" where
  "operator_word Sum = ''sum''" | "operator_word Average = ''average''" | "operator_word Min = ''min''"
| "operator_word Max = ''max''" | "operator_word Count = ''count''"
| "operator_word CountDistinct = ''countdistinct''" | "operator_word ObjectConstructor = ''constructor''"

definition compute_text :: "compute_node \<Rightarrow> string" where
  "compute_text e = join '' '' (print_compute 0 e)"

definition operand_text :: "aggregation \<Rightarrow> string" where
  "operand_text a =
     (case agg_field a of
        Some f \<Rightarrow> f
      | None \<Rightarrow> (case agg_expression a of Some e \<Rightarrow> compute_text e | None \<Rightarrow> ''*''))"

definition aggregate_text :: "aggregation \<Rightarrow> string" where
  "aggregate_text a = operand_text a @ '' with '' @ operator_word (agg_operator a) @ '' as '' @ agg_alias a"

definition call :: "string \<Rightarrow> string \<Rightarrow> string" where
  "call name body = name @ ''('' @ body @ '')''"

fun transformation_text :: "apply_transformation \<Rightarrow> string" where
  "transformation_text (TFilter e) = call ''filter'' (filter_text e)"
| "transformation_text (TGroupBy ks as) =
     call ''groupby'' (''('' @ join '','' ks @ ''),'' @ call ''aggregate'' (join '','' (map aggregate_text as)))"
| "transformation_text (TAggregate as) = call ''aggregate'' (join '','' (map aggregate_text as))"
| "transformation_text (TOrderBy items) = call ''orderby'' (join '','' (map order_text items))"
| "transformation_text (TSkip n) = call ''skip'' (show_nat n)"
| "transformation_text (TTop n) = call ''top'' (show_nat n)"
| "transformation_text (TBottom n) = call ''bottom'' (show_nat n)"
| "transformation_text (TConcat ps) =
     call ''concat'' (join '','' (map (\<lambda>p. join ''/'' (map transformation_text p)) ps))"

definition pipeline_text :: "apply_pipeline \<Rightarrow> string" where
  "pipeline_text p = join ''/'' (map transformation_text p)"

text \<open>
  What can be written: operands that are paths, the star of a count or expressions that are no
  path; URL decoding and the line structure of the patterns leave no \<open>+\<close>, \<open>%\<close> and line ends.
\<close>

definition verbatim :: "string \<Rightarrow> bool" where
  "verbatim s \<longleftrightarrow> list_all (\<lambda>c. c \<noteq> CHR ''+'' \<and> c \<noteq> CHR ''%'' \<and> \<not> line_end c) s \<and> hd s \<noteq> CHR ''$''"

definition writable_aggregate :: "aggregation \<Rightarrow> bool" where
  "writable_aggregate a \<longleftrightarrow> simple_identifier (agg_alias a) \<and>
     (case (agg_field a, agg_expression a) of
        (Some f, None) \<Rightarrow> isValidPath f
      | (None, Some e) \<Rightarrow> writable_compute e \<and> \<not> isValidPath (compute_text e)
          \<and> compute_text e \<noteq> ''*'' \<and> verbatim (compute_text e)
      | (None, None) \<Rightarrow> agg_operator a = Count
      | _ \<Rightarrow> False)"

definition order_field :: "string \<Rightarrow> bool" where
  "order_field f \<longleftrightarrow> f \<noteq> [] \<and> list_all (\<lambda>c. \<not> is_space c \<and> c \<noteq> quote \<and> \<not> punctuation c) f"

fun writable_transformation :: "apply_transformation \<Rightarrow> bool" where
  "writable_transformation (TFilter e) = writable e"
| "writable_transformation (TGroupBy ks as) =
     (ks \<noteq> [] \<and> list_all isValidPath ks \<and> as \<noteq> [] \<and> list_all writable_aggregate as)"
| "writable_transformation (TAggregate as) = (as \<noteq> [] \<and> list_all writable_aggregate as)"
| "writable_transformation (TOrderBy items) = (items \<noteq> [] \<and> list_all (\<lambda>i. order_field (fst i)) items)"
| "writable_transformation (TSkip n) = small_int (int n)"
| "writable_transformation (TTop n) = small_int (int n)"
| "writable_transformation (TBottom n) = small_int (int n)"
| "writable_transformation (TConcat ps) =
     (2 \<le> length ps \<and> list_all (\<lambda>p. p \<noteq> [] \<and> list_all writable_transformation p) ps)"

definition writable_pipeline :: "apply_pipeline \<Rightarrow> bool" where
  "writable_pipeline p \<longleftrightarrow> p \<noteq> [] \<and> list_all writable_transformation p"

section \<open>Nesting of printed texts\<close>

lemma nest_plain:
  "list_all (\<lambda>c. c \<noteq> quote \<and> c \<noteq> CHR ''('' \<and> c \<noteq> CHR '')'' \<and> c \<notin> set stops) s \<Longrightarrow>
   nest stops s d False = Some (d, False)"
  by (induction s) auto

lemma nest_deeper:
  "nest stops s d q = Some (k, b) \<Longrightarrow> nest stops' s (Suc d) q = Some (Suc k, b)"
proof (induction stops s d q rule: nest.induct)
  case (2 stops c cs d q)
  then show ?case by (cases d) (auto split: if_splits)
qed simp

lemma well_nested_append: "well_nested stops s \<Longrightarrow> well_nested stops t \<Longrightarrow> well_nested stops (s @ t)"
  by (simp add: well_nested_def nest_append)

lemma well_nested_plain:
  "list_all (\<lambda>c. c \<noteq> quote \<and> c \<noteq> CHR ''('' \<and> c \<noteq> CHR '')'' \<and> c \<notin> set stops) s \<Longrightarrow> well_nested stops s"
  unfolding well_nested_def by (rule nest_plain)

lemma well_nested_less: "well_nested stops s \<Longrightarrow> well_nested [] s"
proof -
  have "nest stops s d q = Some (k, b) \<Longrightarrow> nest [] s d q = Some (k, b)" for d q k b
    by (induction stops s d q rule: nest.induct) (auto split: if_splits)
  then show "well_nested stops s \<Longrightarrow> well_nested [] s" by (simp add: well_nested_def)
qed

lemma well_nested_parens: "well_nested stops s \<Longrightarrow> well_nested stops' (''('' @ s @ '')'')"
  using nest_deeper [of stops s 0 False 0 False stops'] by (simp add: well_nested_def nest_append)

lemma well_nested_join:
  "(\<forall>s\<in>set ss. well_nested stops s) \<Longrightarrow> well_nested stops d \<Longrightarrow> well_nested stops (join d ss)"
  by (induction d ss rule: join.induct) (auto intro: well_nested_append simp: well_nested_def [of _ "[]"])

text \<open>The parentheses of a list of tokens.\<close>

fun levels :: "bool \<Rightarrow> string list \<Rightarrow> nat \<Rightarrow> nat option" where
  "levels cs [] d = Some d"
| "levels cs (t # ts) d =
     (if t = ''('' then levels cs ts (Suc d)
      else if t = '')'' then (if d = 0 then None else levels cs ts (d - 1))
      else if t = '','' \<and> d = 0 \<and> \<not> cs then None
      else levels cs ts d)"

lemma levels_append: "levels c (us @ vs) d = Option.bind (levels c us d) (levels c vs)"
  by (induction c us d rule: levels.induct) auto

lemma levels_deeper: "levels c ts d = Some k \<Longrightarrow> levels c' ts (Suc d) = Some (Suc k)"
proof (induction c ts d rule: levels.induct)
  case (2 c t ts d)
  then show ?case by (cases d) (auto split: if_splits)
qed simp

lemma nest_word:
  "word_state w q = Some b \<Longrightarrow> set stops \<subseteq> {CHR '',''} \<Longrightarrow> nest stops w d q = Some (d, b)"
  by (induction w arbitrary: q) (auto simp: punctuation_def split: if_splits)

lemma nest_token:
  assumes "is_token t" "levels c [t] d = Some e"
  shows "nest (if c then [] else '','') t d False = Some (e, False)"
  using assms(1) unfolding is_token_def
proof (elim disjE exE conjE)
  fix ch
  assume "t = [ch]" "punctuation ch"
  with assms(2) show ?thesis by (cases c) (auto simp: punctuation_def split: if_splits)
next
  assume t: "t \<noteq> []" "word_state t False = Some False"
  then have "\<forall>ch. punctuation ch \<longrightarrow> t \<noteq> [ch]" by (auto simp: punctuation_def quote_def)
  then have "e = d" using assms(2) by (auto simp: punctuation_def split: if_splits)
  then show ?thesis using nest_word [OF t(2), of "if c then [] else '',''" d] by simp
qed

lemma nest_tokens:
  assumes "\<forall>t\<in>set ts. is_token t" "levels c ts d = Some k"
  shows "nest (if c then [] else '','') (join '' '' ts) d False = Some (k, False)"
  using assms
proof (induction "'' ''" ts arbitrary: d rule: join.induct)
  case (2 t)
  then show ?case using nest_token [of t c d k] by simp
next
  case (3 t u us)
  from 3(3) obtain e where e: "levels c [t] d = Some e" "levels c (u # us) e = Some k"
    using levels_append [of c "[t]" "u # us" d] by (cases "levels c [t] d") (simp_all del: levels.simps)
  have "nest (if c then [] else '','') t d False = Some (e, False)"
    using nest_token [OF _ e(1)] 3(2) by simp
  then show ?case using 3(1) [OF _ e(2)] 3(2) by (simp add: nest_append quote_def)
qed simp

lemma collect_levels:
  "collect_inner (ts @ ['')'']) (int (Suc d)) inner i = Inr (0, inner', Some (i + length ts)) \<Longrightarrow> levels True ts d = Some 0"
proof (induction ts arbitrary: d inner i)
  case (Cons t ts)
  consider (opens) "t = ''(''" | (closes) d' where "t = '')''" "d = Suc d'" | (other) "t \<noteq> ''(''" "t \<noteq> '')''"
    using Cons.prems by (cases d) (auto split: if_splits)
  then show ?case
  proof cases
    case opens
    then have "collect_inner (ts @ ['')'']) (int (Suc (Suc d))) (inner @ [t]) (Suc i) = Inr (0, inner', Some (Suc i + length ts))"
      using Cons.prems by simp
    from Cons.IH [OF this] opens show ?thesis by simp
  next
    case closes
    then have "collect_inner (ts @ ['')'']) (int (Suc d')) (inner @ [t]) (Suc i) = Inr (0, inner', Some (Suc i + length ts))"
      using Cons.prems by simp
    from Cons.IH [OF this] closes show ?thesis by simp
  next
    case other
    then have "collect_inner (ts @ ['')'']) (int (Suc d)) (inner @ [t]) (Suc i) = Inr (0, inner', Some (Suc i + length ts))"
      using Cons.prems by simp
    from Cons.IH [OF this] other show ?thesis by simp
  qed
qed (auto split: if_splits)

lemma passes_levels: "passes ts \<Longrightarrow> levels True ts 0 = Some 0"
  by (rule collect_levels [where inner = "[]" and i = 0 and inner' = ts]) (simp add: passes_def)

text \<open>The tokens of an arithmetic expression are tokens, and their commas stand in parentheses.\<close>

lemma words_are_tokens [simp]: "is_token (op_word oper)" "is_token (fn_word fn)"
  by (cases oper; simp add: is_token_def quote_def punctuation_def is_space_def code_def)
    (cases fn; simp add: is_token_def quote_def punctuation_def is_space_def code_def)

lemma compute_path_token: "compute_path path \<Longrightarrow> is_token (join ''/'' path)"
  using join_segments [of path] path_chars_word [of "join ''/'' path"] by (auto simp: compute_path_def is_token_def)

lemma compute_tokens: "writable_compute e \<Longrightarrow> t \<in> set (print_compute l e) \<Longrightarrow> is_token t"
proof (induction l e arbitrary: t rule: print_compute.induct)
  case (2 l fn args)
  then have "\<forall>x\<in>set (map (print_compute 0) args). \<forall>t\<in>set x. is_token t" by (auto simp: list_all_iff)
  from commas_tokens [OF this] 2(3) show ?case by (auto simp: is_token_def [of "[_]"] punctuation_def)
qed (auto simp: parens_if_def compute_path_token lit_is_token is_token_def [of "[_]"] punctuation_def split: if_splits)

lemma levels_plain: "t \<noteq> ''('' \<Longrightarrow> t \<noteq> '')'' \<Longrightarrow> t \<noteq> '','' \<Longrightarrow> levels c (t # ts) d = levels c ts d"
  by simp

lemma levels_commas:
  "(\<forall>x\<in>set xs. \<forall>c. levels c x 0 = Some 0) \<Longrightarrow> levels True (commas xs) 0 = Some 0"
  by (induction xs rule: commas.induct) (auto simp: levels_append)

lemma levels_parens: "levels c' ts 0 = Some 0 \<Longrightarrow> levels c (''('' # ts @ ['')'']) 0 = Some 0"
  using levels_deeper [of c' ts 0 0 c] by (simp add: levels_append)

lemma levels_compute: "writable_compute e \<Longrightarrow> levels c (print_compute l e) 0 = Some 0"
proof (induction l e arbitrary: c rule: print_compute.induct)
  case (1 l oper a b)
  have w: "op_word oper \<noteq> ''(''" "op_word oper \<noteq> '')''" "op_word oper \<noteq> '',''" by (cases oper; simp)+
  have "levels c (u @ op_word oper # v) 0 = Some 0" "levels c (parens_if z (u @ op_word oper # v)) 0 = Some 0"
    if uv: "\<And>c. levels c u 0 = Some 0" "\<And>c. levels c v 0 = Some 0" for u v z c
  proof -
    show *: "levels c (u @ op_word oper # v) 0 = Some 0" for c using uv w by (simp add: levels_append)
    show "levels c (parens_if z (u @ op_word oper # v)) 0 = Some 0"
      using * [of c] levels_parens [OF * [of c]] by (simp add: parens_if_def del: levels.simps)
  qed
  with 1 show ?case by auto
next
  case (2 l fn args)
  have w: "fn_word fn \<noteq> ''(''" "fn_word fn \<noteq> '')''" "fn_word fn \<noteq> '',''" by (cases fn; simp)+
  have "levels True (commas (map (print_compute 0) args)) 0 = Some 0"
    using 2 by (intro levels_commas) (auto simp: list_all_iff)
  from levels_deeper [OF this, of c] w show ?case by (simp add: levels_append)
next
  case (3 l path)
  then have "word_state (join ''/'' path) False = Some False"
    using join_segments [of path] path_chars_word by (auto simp: compute_path_def)
  then show ?case by (auto simp: punctuation_def quote_def)
next
  case (4 l v)
  then show ?case using token_not_paren(2) [of v] lit_is_token [of v]
    by (cases v rule: lit_ok.cases) auto
qed

section \<open>Aggregates\<close>

lemma trim_tokens:
  assumes "\<forall>t\<in>set ts. is_token t" "ts \<noteq> []"
  shows "join '' '' ts \<noteq> [] \<and> trim (join '' '' ts) = join '' '' ts"
proof -
  have word: "word_state w False = Some False \<Longrightarrow> w \<noteq> [] \<Longrightarrow> \<not> is_space (hd w)" for w
    by (cases w) (auto split: if_splits)
  have word_end: "word_state w q = Some False \<Longrightarrow> w \<noteq> [] \<Longrightarrow> \<not> is_space (last w)" for w q
    by (induction w arbitrary: q) (auto split: if_splits)
  have token: "is_token w \<Longrightarrow> w \<noteq> [] \<and> \<not> is_space (hd w) \<and> \<not> is_space (last w)" for w
    using word word_end punctuation_not_space by (auto simp: is_token_def)
  have "join '' '' ts \<noteq> [] \<and> \<not> is_space (hd (join '' '' ts)) \<and> \<not> is_space (last (join '' '' ts))"
    using assms token by (induction "'' ''" ts rule: join.induct) auto
  then show ?thesis using trim_id by blast
qed

lemma compute_text_facts:
  assumes "writable_compute e"
  shows "tokenize (compute_text e) = Inr (print_compute 0 e)" "compute_text e \<noteq> []"
    "trim (compute_text e) = compute_text e" "well_nested '','' (compute_text e)"
proof -
  have t: "\<forall>t\<in>set (print_compute 0 e). is_token t" using compute_tokens [OF assms] by blast
  show "tokenize (compute_text e) = Inr (print_compute 0 e)"
    unfolding compute_text_def using t by (rule tokenize_tokens)
  show "compute_text e \<noteq> []" "trim (compute_text e) = compute_text e"
    unfolding compute_text_def using trim_tokens [OF t] by simp_all
  show "well_nested '','' (compute_text e)"
    unfolding compute_text_def well_nested_def
    using nest_tokens [OF t levels_compute [OF assms, of False]] by simp
qed

lemma word_char:
  "ident_char c \<Longrightarrow> \<not> is_space c \<and> c \<noteq> CHR ''+'' \<and> c \<noteq> CHR ''%'' \<and> \<not> line_end c \<and> c \<noteq> quote \<and> \<not> punctuation c
     \<and> c \<noteq> CHR ''$'' \<and> c \<noteq> CHR ''/''"
  "ident_start c \<Longrightarrow> ident_char c"
  by (auto simp: ident_char_def ident_start_def is_alpha_def is_upper_def is_lower_def is_digit_def is_space_def
      line_end_def quote_def punctuation_def code_def)

lemma path_facts:
  assumes "isValidPath f"
  shows "f \<noteq> []" "list_all (\<lambda>c. ident_char c \<or> c = CHR ''/'') f" "ident_start (hd f)" "f \<noteq> ''*''"
proof -
  have "f = join ''/'' (split_on CHR ''/'' f)" by (simp add: join_split_on)
  moreover have "ss \<noteq> [] \<Longrightarrow> list_all simple_identifier ss \<Longrightarrow> join ''/'' ss \<noteq> []
      \<and> list_all (\<lambda>c. ident_char c \<or> c = CHR ''/'') (join ''/'' ss) \<and> ident_start (hd (join ''/'' ss))" for ss
    by (induction "''/''" ss rule: join.induct) (auto simp: simple_identifier_def list_all_iff)
  ultimately have "f \<noteq> [] \<and> list_all (\<lambda>c. ident_char c \<or> c = CHR ''/'') f \<and> ident_start (hd f)"
    using assms by (metis isValidPath_def split_on_not_Nil)
  then show "f \<noteq> []" "list_all (\<lambda>c. ident_char c \<or> c = CHR ''/'') f" "ident_start (hd f)" "f \<noteq> ''*''"
    by (auto simp: ident_start_def is_alpha_def is_upper_def is_lower_def code_def)
qed

text \<open>What an operand is, for the pattern of an aggregate.\<close>

definition operand_ok :: "string \<Rightarrow> bool" where
  "operand_ok s \<longleftrightarrow> s \<noteq> [] \<and> trim s = s \<and> verbatim s \<and> well_nested '','' s"

lemma path_operand: "isValidPath f \<Longrightarrow> operand_ok f"
proof -
  assume "isValidPath f"
  note f = path_facts [OF this]
  have c: "\<And>c. c \<in> set f \<Longrightarrow> \<not> is_space c \<and> c \<noteq> CHR ''+'' \<and> c \<noteq> CHR ''%'' \<and> \<not> line_end c \<and> c \<noteq> quote \<and> \<not> punctuation c"
    using f(2) word_char(1) by (force simp: list_all_iff is_space_def line_end_def quote_def punctuation_def code_def)
  have "trim f = f" using f(1) c by (intro trim_id) simp
  moreover have "verbatim f" using c word_char(1) [OF word_char(2) [OF f(3)]] by (simp add: verbatim_def list_all_iff)
  moreover have "well_nested '','' f" using c by (intro well_nested_plain) (auto simp: list_all_iff punctuation_def)
  ultimately show ?thesis using f(1) by (simp add: operand_ok_def)
qed

lemma operand_facts:
  assumes "writable_aggregate a"
  shows "operand_ok (operand_text a)" "aggregate_operand (operand_text a) = Inr (agg_field a, agg_expression a)"
    "operand_text a = ''*'' \<longleftrightarrow> agg_field a = None \<and> agg_expression a = None"
    "agg_field a = None \<Longrightarrow> agg_expression a = None \<Longrightarrow> agg_operator a = Count"
proof -
  consider (path) f where "agg_field a = Some f" "agg_expression a = None" "isValidPath f"
    | (expression) e where "agg_field a = None" "agg_expression a = Some e" "writable_compute e"
        "\<not> isValidPath (compute_text e)" "compute_text e \<noteq> ''*''" "verbatim (compute_text e)"
    | (star) "agg_field a = None" "agg_expression a = None" "agg_operator a = Count"
    using assms by (auto simp: writable_aggregate_def split: option.splits)
  then have "operand_ok (operand_text a) \<and> aggregate_operand (operand_text a) = Inr (agg_field a, agg_expression a)
    \<and> (operand_text a = ''*'' \<longleftrightarrow> agg_field a = None \<and> agg_expression a = None)
    \<and> (agg_field a = None \<longrightarrow> agg_expression a = None \<longrightarrow> agg_operator a = Count)"
  proof cases
    case path
    then show ?thesis using path_operand [of f] path_facts(4) [of f] by (simp add: operand_text_def aggregate_operand_def)
  next
    case expression
    note c = compute_text_facts [OF expression(3)]
    have "print_compute 0 e \<noteq> []" using c(2) by (auto simp: compute_text_def)
    with expression c show ?thesis
      by (simp add: operand_text_def aggregate_operand_def operand_ok_def compute_print_parse)
  next
    case star
    have "operand_ok ''*''" by code_simp
    with star show ?thesis by (simp add: operand_text_def aggregate_operand_def)
  qed
  then show "operand_ok (operand_text a)" "aggregate_operand (operand_text a) = Inr (agg_field a, agg_expression a)"
    "operand_text a = ''*'' \<longleftrightarrow> agg_field a = None \<and> agg_expression a = None"
    "agg_field a = None \<Longrightarrow> agg_expression a = None \<Longrightarrow> agg_operator a = Count" by auto
qed

lemma operator_word_facts:
  "operatorMap (operator_word f) = Some f" "lower (operator_word f) = operator_word f" "operator_word f \<noteq> []"
  "list_all is_alpha (operator_word f)"
  by (cases f; simp add: char_eval is_alpha_def is_lower_def)+

lemma operator_chars: "c \<in> set (operator_word f) \<Longrightarrow> ident_char c"
  using operator_word_facts(4) [of f] by (auto simp: list_all_iff ident_char_def ident_start_def)

lemma undollar_id: "CHR ''%'' \<notin> set s \<Longrightarrow> undollar s = s"
  by (induction s rule: undollar.induct) auto

lemma normalize_verbatim: "CHR ''%'' \<notin> set s \<Longrightarrow> CHR ''+'' \<notin> set s \<Longrightarrow> normalize_aggregate s = s"
  by (simp add: normalize_aggregate_def undollar_id replace_char_id decode_plain)

lemma not_count: "hd s \<noteq> CHR ''$'' \<Longrightarrow> s \<noteq> [] \<Longrightarrow> match_count s = None"
proof -
  assume s: "hd s \<noteq> CHR ''$''" "s \<noteq> []"
  then obtain c cs where c: "s = c # cs" by (cases s) auto
  have "lower_char c \<noteq> CHR ''$''"
  proof
    assume l: "lower_char c = CHR ''$''"
    then have "code (lower_char c) = 36" by (simp add: code_def)
    then have "\<not> is_upper c" by (auto simp: code_lower_char is_upper_def)
    with l s c show False by (simp add: lower_char_def)
  qed
  then show ?thesis by (simp add: c match_count_def after_word_def lower_def)
qed

lemma match_aggregate_text:
  assumes "operand_ok s" "simple_identifier al" "oper \<noteq> []" "list_all is_alpha oper"
  shows "match_aggregate (s @ '' with '' @ oper @ '' as '' @ al) = Some (s, oper, al)"
proof -
  have al: "list_all (\<lambda>c. \<not> is_space c) al" "al \<noteq> []"
    using assms(2) word_char(1) by (auto simp: simple_identifier_def list_all_iff)
  have sp: "is_space CHR '' ''" "\<not> is_alpha CHR '' ''"
    by (simp_all add: is_space_def is_alpha_def is_upper_def is_lower_def code_def)
  have wh: "after_word ''sa'' (''sa'' @ r) = Some r" "after_word ''htiw'' (''htiw'' @ r) = Some r" for r
    by (simp_all add: after_word_def char_eval)
  have so: "\<not> is_space CHR ''s''" "\<not> is_space CHR ''h''" by (simp_all add: is_space_def code_def)
  have alpha: "is_alpha c \<Longrightarrow> \<not> is_space c" for c
    by (auto simp: is_alpha_def is_upper_def is_lower_def is_space_def code_def)
  have s: "s \<noteq> []" "trim s = s" "list_all (\<lambda>c. \<not> line_end c) s"
    using assms(1) by (auto simp: operand_ok_def verbatim_def list_all_iff)
  have last: "\<not> is_space (last s)" "\<not> is_space (hd (rev s))" using last_trim [of s] s by (simp_all add: hd_rev)
  have op_hd: "\<not> is_space (hd (rev oper))" using assms(3,4) alpha by (simp add: hd_rev list_all_iff)
  have r: "rev (s @ '' with '' @ oper @ '' as '' @ al) = rev al @ '' sa '' @ rev oper @ '' htiw '' @ rev s" by simp
  have tw: "takeWhile (\<lambda>c. \<not> is_space c) (rev al @ CHR '' '' # x) = rev al"
    "dropWhile (\<lambda>c. \<not> is_space c) (rev al @ CHR '' '' # x) = CHR '' '' # x" for x
    using al sp by (simp_all add: takeWhile_append dropWhile_append list_all_iff)
  have tw2: "takeWhile is_alpha (rev oper @ CHR '' '' # x) = rev oper"
    "dropWhile is_alpha (rev oper @ CHR '' '' # x) = CHR '' '' # x" for x
    using assms(4) sp by (simp_all add: takeWhile_append dropWhile_append list_all_iff)
  have sp1: "after_spaces (CHR '' '' # x) = Some x" if "x \<noteq> []" "\<not> is_space (hd x)" for x
    using that sp dropWhile_space_id [of x] by (simp add: after_spaces_def)
  have pre: "match_operand (s @ '' '') = Some s"
    using s last sp dropWhile_space_id [of "rev s"] by (simp add: match_operand_def Let_def list_ex_iff list_all_iff)
  show ?thesis
    unfolding match_aggregate_def Let_def r
    using assms(2,3) op_hd pre so
    by (simp add: tw tw2 sp1 wh [simplified])
qed

theorem read_aggregate:
  assumes "writable_aggregate a"
  shows "parseAggregateExpression (aggregate_text a) = Inr a"
proof -
  note o = operand_facts [OF assms]
  let ?s = "operand_text a" and ?al = "agg_alias a" and ?f = "agg_operator a"
  have al: "simple_identifier ?al" using assms by (simp add: writable_aggregate_def)
  have s: "?s \<noteq> []" "trim ?s = ?s" "verbatim ?s" using o(1) by (auto simp: operand_ok_def)
  have "?al \<noteq> []" "\<not> is_space (last ?al)"
    using al word_char(1) by (auto simp: simple_identifier_def list_all_iff)
  moreover have "\<not> is_space (hd ?s)" using hd_trim [of ?s] s by simp
  ultimately have t: "trim (aggregate_text a) = aggregate_text a"
    unfolding aggregate_text_def using s(1) by (intro trim_id) simp
  have chars: "CHR ''%'' \<notin> set (aggregate_text a) \<and> CHR ''+'' \<notin> set (aggregate_text a)"
    using s(3) al operator_chars [of _ ?f] word_char(1)
    by (auto simp: aggregate_text_def verbatim_def simple_identifier_def list_all_iff)
  have "match_count (aggregate_text a) = None"
    using s by (intro not_count) (simp_all add: aggregate_text_def verbatim_def)
  moreover have "match_aggregate (aggregate_text a) = Some (?s, operator_word ?f, ?al)"
    unfolding aggregate_text_def using o(1) al operator_word_facts by (intro match_aggregate_text)
  moreover have "aggregate_text a \<noteq> []" by (simp add: aggregate_text_def)
  ultimately show ?thesis
    using o t chars operator_word_facts(1,2)
    by (cases a) (auto simp: parseAggregateExpression_def normalize_verbatim simp del: operatorMap.simps)
qed

lemma aggregate_piece:
  assumes "writable_aggregate a"
  shows "piece CHR '','' (aggregate_text a)" "list_all (\<lambda>c. \<not> line_end c) (aggregate_text a)"
proof -
  note o = operand_facts [OF assms]
  have al: "simple_identifier (agg_alias a)" using assms by (simp add: writable_aggregate_def)
  have al': "agg_alias a \<noteq> []" "\<forall>c\<in>set (agg_alias a). ident_char c" using al by (auto simp: simple_identifier_def list_all_iff)
  have s: "operand_text a \<noteq> []" "trim (operand_text a) = operand_text a" "verbatim (operand_text a)"
    "well_nested '','' (operand_text a)" using o(1) by (auto simp: operand_ok_def)
  have w: "list_all (\<lambda>c. c \<noteq> quote \<and> c \<noteq> CHR ''('' \<and> c \<noteq> CHR '')'' \<and> c \<notin> set '','' \<and> \<not> line_end c)
      ('' with '' @ operator_word (agg_operator a) @ '' as '' @ agg_alias a)"
  proof -
    have "c \<noteq> quote \<and> c \<noteq> CHR ''('' \<and> c \<noteq> CHR '')'' \<and> c \<noteq> CHR '','' \<and> \<not> line_end c" if "ident_char c" for c
      using word_char(1) [OF that] by (auto simp: punctuation_def)
    with al'(2) operator_chars show ?thesis by (simp add: list_all_iff line_end_def quote_def code_def) blast
  qed
  have "well_nested '','' ('' with '' @ operator_word (agg_operator a) @ '' as '' @ agg_alias a)"
    by (rule well_nested_plain, rule list.pred_mono_strong [OF w]) blast
  with s(4) have "well_nested '','' (aggregate_text a)"
    unfolding aggregate_text_def by (rule well_nested_append)
  moreover have "trim (aggregate_text a) = aggregate_text a"
    using hd_trim [of "operand_text a"] s(1,2) al' word_char(1) [of "last (agg_alias a)"]
    unfolding aggregate_text_def by (intro trim_id) simp
  ultimately show "piece CHR '','' (aggregate_text a)" using s(1) by (simp add: piece_def aggregate_text_def)
  show "list_all (\<lambda>c. \<not> line_end c) (aggregate_text a)"
    using s(3) w by (auto simp: aggregate_text_def verbatim_def list_all_iff)
qed

lemma read_aggregates:
  "list_all writable_aggregate as \<Longrightarrow> rmap parseAggregateExpression (map aggregate_text as) = Inr as"
  by (induction as) (simp_all add: read_aggregate)

lemma split_aggregates:
  "list_all writable_aggregate as \<Longrightarrow> splitTopLevel (join '','' (map aggregate_text as)) CHR '','' = Inr (map aggregate_text as)"
  using aggregate_piece(1) by (intro splitTopLevel_join) (auto simp: list_all_iff)

section \<open>Transformations\<close>

lemma join_trimmed:
  "ss \<noteq> [] \<Longrightarrow> \<forall>s\<in>set ss. s \<noteq> [] \<and> trim s = s \<Longrightarrow>
   join d ss \<noteq> [] \<and> \<not> is_space (hd (join d ss)) \<and> \<not> is_space (last (join d ss))"
proof (induction d ss rule: join.induct)
  case (2 d s)
  then show ?case using hd_trim [of s] last_trim [of s] by simp
next
  case (3 d s t ts)
  then show ?case using hd_trim [of s] last_trim [of s] by simp
qed simp

lemma trim_join: "ss \<noteq> [] \<Longrightarrow> \<forall>s\<in>set ss. s \<noteq> [] \<and> trim s = s \<Longrightarrow> trim (join d ss) = join d ss"
  using join_trimmed [of ss d] trim_id by blast

definition call_name :: "string \<Rightarrow> bool" where
  "call_name name \<longleftrightarrow> name \<noteq> [] \<and> list_all is_lower name"

lemma call_name_facts:
  assumes "call_name name"
  shows "lower name = name" "trim name = name" "CHR ''('' \<notin> set name" "\<not> is_space (hd name)"
    "list_all (\<lambda>c. c \<noteq> quote \<and> c \<noteq> CHR ''('' \<and> c \<noteq> CHR '')'' \<and> c \<notin> set '',/'') name"
proof -
  have l: "is_lower c \<Longrightarrow> lower_char c = c \<and> \<not> is_space c \<and> c \<noteq> CHR ''('' \<and> c \<noteq> quote \<and> c \<noteq> CHR '')''
      \<and> c \<notin> set '',/''" for c
    by (auto simp: is_lower_def lower_char_def is_upper_def is_space_def quote_def code_def)
  have n: "name \<noteq> []" "\<And>c. c \<in> set name \<Longrightarrow> is_lower c" using assms by (auto simp: call_name_def list_all_iff)
  show "lower name = name" using n(2) l by (auto simp: lower_def intro: map_idI)
  show "CHR ''('' \<notin> set name" using n(2) l by blast
  show "\<not> is_space (hd name)" using n l by simp
  show "trim name = name" using n l by (intro trim_id) simp
  show "list_all (\<lambda>c. c \<noteq> quote \<and> c \<noteq> CHR ''('' \<and> c \<noteq> CHR '')'' \<and> c \<notin> set '',/'') name"
    using n(2) l by (simp add: list_all_iff)
qed

lemma call_piece:
  assumes "call_name name" "well_nested stops body" "set stops' \<subseteq> set '',/''"
  shows "well_nested stops' (call name body)" "trim (call name body) = call name body" "call name body \<noteq> []"
proof -
  have "well_nested stops' name"
    using call_name_facts(5) [OF assms(1)] assms(3) by (intro well_nested_plain) (auto simp: list_all_iff)
  then show "well_nested stops' (call name body)"
    unfolding call_def using well_nested_parens [OF assms(2)] by (rule well_nested_append)
  have "name \<noteq> []" using assms(1) by (simp add: call_name_def)
  then show "trim (call name body) = call name body"
    unfolding call_def using call_name_facts(4) [OF assms(1)] by (intro trim_id) (simp add: is_space_def code_def)
  show "call name body \<noteq> []" by (simp add: call_def)
qed

text \<open>A call is taken apart into its name and its body.\<close>

lemma call_parts:
  assumes "call_name name" "well_nested [] body"
  shows "index_of_char CHR ''('' (call name body) = Some (length name)"
    "findClosingParen (call name body) (length name) = Inr (length name + 1 + length body)"
  using index_of_char_append [OF call_name_facts(3) [OF assms(1)]] findClosingParen_nested [OF assms(2), of name "[]"]
  by (simp_all add: call_def)

lemma read_call:
  assumes "call_name name" "well_nested [] body" "trim body = body"
  shows "parseApplyTransformation pipeline (call name body) =
    (if name = ''filter'' then parseApplyFilter body
     else if name = ''groupby'' then parseApplyGroupBy body
     else if name = ''aggregate'' then parseApplyAggregate body
     else if name = ''orderby'' then parseApplyOrderBy body
     else if name = ''skip'' then parseApplySkip body
     else if name = ''top'' then parseApplyTop body
     else if name = ''bottom'' then parseApplyBottom body
     else if name = ''concat'' then parseApplyConcat pipeline body
     else throw (''Unsupported $apply transformation: '' @ name))"
proof -
  have p: "trim (call name body) = call name body" "call name body \<noteq> []"
    using call_piece [OF assms(1,2), of "[]"] by simp_all
  have cut: "take (length name) (call name body) = name" "drop (length name + 1 + length body + 1) (call name body) = []"
    "drop (length name + 1) (take (length name + 1 + length body) (call name body)) = body"
    by (simp_all add: call_def)
  show ?thesis
    unfolding parseApplyTransformation_def Let_def p(1) call_parts(1) [OF assms(1,2)] option.case
      call_parts(2) [OF assms(1,2)] rbind.simps cut assms(3) call_name_facts(1,2) [OF assms(1)] trim_Nil
    using p(2) by simp
qed

lemma names [simp]:
  "call_name ''filter''" "call_name ''groupby''" "call_name ''aggregate''" "call_name ''orderby''"
  "call_name ''skip''" "call_name ''top''" "call_name ''bottom''" "call_name ''concat''"
  by (simp_all add: call_name_def is_lower_def code_def)

lemma filter_body:
  assumes "writable e"
  shows "well_nested [] (filter_text e)" "trim (filter_text e) = filter_text e" "filter_text e \<noteq> []"
    "parseApplyFilter (filter_text e) = Inr (TFilter e)"
proof -
  have t: "\<forall>t\<in>set (print_expr 0 e). is_token t" using print_tokens [OF assms] by blast
  show "well_nested [] (filter_text e)"
    unfolding filter_text_def well_nested_def
    using nest_tokens [OF t passes_levels [OF passes_print [OF assms]]] by simp
  show trimmed: "trim (filter_text e) = filter_text e" and n: "filter_text e \<noteq> []"
    unfolding filter_text_def using trim_tokens [OF t print_not_Nil [OF assms]] by simp_all
  have "tokenize (filter_text e) = Inr (print_expr 0 e)" unfolding filter_text_def using t by (rule tokenize_tokens)
  then show "parseApplyFilter (filter_text e) = Inr (TFilter e)"
    using n parseFilter_print [OF assms, of False] print_not_Nil [OF assms, of 0]
    by (simp add: parseApplyFilter_def trimmed)
qed

lemma aggregates_body:
  assumes "list_all writable_aggregate as" "as \<noteq> []"
  defines "body \<equiv> join '','' (map aggregate_text as)"
  shows "well_nested [] body" "trim body = body" "body \<noteq> []" "list_all (\<lambda>c. \<not> line_end c) body"
    "parseApplyAggregate body = Inr (TAggregate as)"
proof -
  have p: "piece CHR '','' (aggregate_text a)" "list_all (\<lambda>c. \<not> line_end c) (aggregate_text a)" if "a \<in> set as" for a
    using assms(1) that aggregate_piece by (auto simp: list_all_iff)
  show "well_nested [] body"
    unfolding body_def using p(1) by (intro well_nested_join) (auto simp: piece_def intro: well_nested_less well_nested_plain)
  have s: "\<forall>s\<in>set (map aggregate_text as). s \<noteq> [] \<and> trim s = s" using p(1) by (auto simp: piece_def)
  show trimmed: "trim body = body" unfolding body_def using assms(2) s by (intro trim_join) simp_all
  show n: "body \<noteq> []" unfolding body_def using join_trimmed [OF _ s] assms(2) by simp
  have "c \<in> set (join '','' ss) \<Longrightarrow> c = CHR '','' \<or> (\<exists>s\<in>set ss. c \<in> set s)" for c ss
    by (induction "'',''" ss rule: join.induct) auto
  then show "list_all (\<lambda>c. \<not> line_end c) body"
    using p(2) unfolding body_def list_all_iff by (fastforce simp: line_end_def code_def)
  show "parseApplyAggregate body = Inr (TAggregate as)"
    using n assms(2) split_aggregates [OF assms(1), folded body_def] read_aggregates [OF assms(1)]
    by (simp add: parseApplyAggregate_def trimmed)
qed

lemma keys_facts:
  assumes "list_all isValidPath ks" "ks \<noteq> []"
  shows "well_nested [] (join '','' ks)" "trim (join '','' ks) = join '','' ks" "join '','' ks \<noteq> []"
    "split_on CHR '','' (join '','' ks) = ks" "map trim ks = ks" "filter (\<lambda>p. p \<noteq> []) ks = ks"
    "find (\<lambda>f. \<not> isValidPath f) ks = None"
proof -
  have k: "operand_ok f" "CHR '','' \<notin> set f" if "f \<in> set ks" for f
    using assms(1) that path_operand path_facts(2) [of f] word_char(1) [of "CHR '',''"]
    by (auto simp: list_all_iff punctuation_def)
  show "well_nested [] (join '','' ks)"
    using k(1) by (intro well_nested_join) (auto simp: operand_ok_def intro: well_nested_less well_nested_plain)
  have s: "\<forall>s\<in>set ks. s \<noteq> [] \<and> trim s = s" using k(1) by (auto simp: operand_ok_def)
  show "trim (join '','' ks) = join '','' ks" using assms(2) s by (rule trim_join)
  show "join '','' ks \<noteq> []" using join_trimmed [OF assms(2) s] by simp
  show "split_on CHR '','' (join '','' ks) = ks" using k(2) assms(2) by (intro split_on_join) auto
  show "map trim ks = ks" "filter (\<lambda>p. p \<noteq> []) ks = ks" using s by (auto intro: map_idI)
  show "find (\<lambda>f. \<not> isValidPath f) ks = None" using assms(1) by (simp add: find_None_iff list_all_iff)
qed

lemma clause_call:
  "list_all (\<lambda>c. \<not> line_end c) b \<Longrightarrow> match_aggregate_clause ('','' @ call ''aggregate'' b) = Some b"
  by (simp add: match_aggregate_clause_def call_def after_word_def char_eval is_space_def list_ex_iff list_all_iff)

lemma groupby_body:
  assumes k: "list_all isValidPath ks" "ks \<noteq> []" and a: "list_all writable_aggregate as" "as \<noteq> []"
  defines "body \<equiv> ''('' @ join '','' ks @ ''),'' @ call ''aggregate'' (join '','' (map aggregate_text as))"
  shows "well_nested [] body" "trim body = body" "parseApplyGroupBy body = Inr (TGroupBy ks as)"
proof -
  let ?ks = "join '','' ks" and ?as = "join '','' (map aggregate_text as)"
  let ?post = "'','' @ call ''aggregate'' ?as"
  note ks = keys_facts [OF k] and as = aggregates_body [OF a]
  have b: "body = (''('' @ ?ks @ '')'') @ ?post" by (simp add: body_def)
  have post: "well_nested [] ?post"
    using call_piece(1) [of "''aggregate''", OF _ as(1), of "[]"]
    by (intro well_nested_append) (simp_all add: well_nested_def quote_def)
  show "well_nested [] body" unfolding b by (rule well_nested_append [OF well_nested_parens [OF ks(1)] post])
  show t: "trim body = body" by (intro trim_id) (simp add: b call_def is_space_def code_def)
  have tp: "trim ?post = ?post" by (intro trim_id) (simp add: call_def is_space_def code_def)
  have "findClosingParen body 0 = Inr (1 + length ?ks)"
    using findClosingParen_nested [OF ks(1), of "[]" ?post] by (simp add: b)
  moreover have "drop 1 (take (1 + length ?ks) body) = ?ks" "drop (1 + length ?ks + 1) body = ?post"
    "starts_with body ''(''" by (simp_all add: b starts_with_def)
  ultimately show "parseApplyGroupBy body = Inr (TGroupBy ks as)"
    unfolding parseApplyGroupBy_def Let_def t
    using k(2) a(2) ks tp clause_call [OF as(4)] split_aggregates [OF a(1)] read_aggregates [OF a(1)]
    by simp
qed

lemma split_ws_word:
  "list_all (\<lambda>c. \<not> is_space c) w \<Longrightarrow> split_ws_aux cur (w @ s) False = split_ws_aux (rev w @ cur) s False
     \<and> (w \<noteq> [] \<longrightarrow> split_ws_aux cur (w @ s) True = split_ws_aux (rev w @ cur) s False)"
proof (induction w arbitrary: cur)
  case (Cons c w)
  then show ?case by simp
qed simp

lemma order_text_facts:
  assumes "order_field (fst i)"
  shows "split_ws (order_text i) = [fst i, case snd i of Asc \<Rightarrow> ''ASC'' | Desc \<Rightarrow> ''DESC'']"
    "trim (order_text i) = order_text i" "order_text i \<noteq> []" "CHR '','' \<notin> set (order_text i)"
    "well_nested [] (order_text i)"
proof -
  have f: "fst i \<noteq> []" "list_all (\<lambda>c. \<not> is_space c) (fst i)" "list_all (\<lambda>c. c \<noteq> quote \<and> \<not> punctuation c) (fst i)"
    using assms by (auto simp: order_field_def list_all_iff)
  have w: "list_all (\<lambda>c. \<not> is_space c) ''ASC''" "list_all (\<lambda>c. \<not> is_space c) ''DESC''" "is_space CHR '' ''"
    by (simp_all add: is_space_def code_def)
  show "split_ws (order_text i) = [fst i, case snd i of Asc \<Rightarrow> ''ASC'' | Desc \<Rightarrow> ''DESC'']"
    using split_ws_word [OF f(2), of "[]" "CHR '' '' # _"] w
    by (cases "snd i") (simp_all add: split_ws_def order_text_def)
  show "order_text i \<noteq> []" using f(1) by (simp add: order_text_def)
  show "trim (order_text i) = order_text i"
    using f(1,2) w(1,2) by (intro trim_id) (cases "snd i"; simp add: order_text_def list_all_iff)
  show "CHR '','' \<notin> set (order_text i)"
    using f(3) by (cases "snd i") (auto simp: order_text_def list_all_iff punctuation_def)
  show "well_nested [] (order_text i)"
    using f(3) by (intro well_nested_plain) (cases "snd i"; auto simp: order_text_def list_all_iff punctuation_def quote_def)
qed

lemma read_order_item:
  assumes "order_field (fst i)"
  shows "order_part (order_text i) = Inr i" "order_item (order_text i) = i"
proof -
  obtain f d where i: "i = (f, d)" by (cases i)
  have l: "lower ''ASC'' = ''asc''" "lower ''DESC'' = ''desc''" by code_simp+
  note o = order_text_facts [OF assms]
  show "order_part (order_text i) = Inr i"
    using o(1-3) by (cases d) (simp_all add: i order_part_def Let_def l)
  show "order_item (order_text i) = i" using o(1) by (cases d) (simp_all add: i order_item_def l)
qed

lemma order_body:
  assumes "list_all (\<lambda>i. order_field (fst i)) items" "items \<noteq> []"
  defines "body \<equiv> join '','' (map order_text items)"
  shows "well_nested [] body" "trim body = body" "parseApplyOrderBy body = Inr (TOrderBy items)"
proof -
  have f: "order_field (fst i)" if "i \<in> set items" for i using assms(1) that by (simp add: list_all_iff)
  note o = order_text_facts [OF f]
  show "well_nested [] body"
    unfolding body_def using o(5) by (intro well_nested_join) (auto intro: well_nested_plain)
  have s: "\<forall>s\<in>set (map order_text items). s \<noteq> [] \<and> trim s = s" using o(2,3) by auto
  show "trim body = body" unfolding body_def using assms(2) s by (intro trim_join) simp_all
  have n: "body \<noteq> []" unfolding body_def using join_trimmed [OF _ s] assms(2) by simp
  have p: "split_on CHR '','' body = map order_text items"
    unfolding body_def using o(4) assms(2) by (intro split_on_join) auto
  have "rmap order_part (map order_text items) = Inr items"
    using f by (induction items) (simp_all add: read_order_item)
  moreover have "map order_item (map order_text items) = items"
    using f by (simp add: read_order_item map_idI)
  ultimately show "parseApplyOrderBy body = Inr (TOrderBy items)"
    using n p assms(2) by (simp add: parseApplyOrderBy_def parseOrder_def)
qed

lemma count_body:
  assumes "small_int (int n)"
  shows "well_nested [] (show_nat n)" "trim (show_nat n) = show_nat n" "parseNonNegativeInteger (show_nat n) w = Inr n"
proof -
  have d: "list_all is_digit (show_nat n)" "show_nat n \<noteq> []" by simp_all
  show "well_nested [] (show_nat n)"
    using d(1) by (intro well_nested_plain) (auto simp: list_all_iff is_digit_def quote_def code_def)
  have sp: "is_digit c \<Longrightarrow> \<not> is_space c" for c by (auto simp: is_digit_def is_space_def)
  show t: "trim (show_nat n) = show_nat n" using d sp by (intro trim_id) (simp add: list_all_iff)
  have "js_Number (show_nat n) = Finite (of_nat n)"
    using js_Number_int [OF assms] by (simp add: show_int_def)
  moreover have "signed_digits (show_nat n)"
    using d by (cases "show_nat n") (auto simp: signed_digits_def is_digit_def code_def)
  ultimately show "parseNonNegativeInteger (show_nat n) w = Inr n"
    by (simp add: parseNonNegativeInteger_def t natural_value_def is_integer_def)
qed

section \<open>Pipelines\<close>

lemma transformation_piece:
  assumes "writable_transformation t"
  shows "\<exists>name body. transformation_text t = call name body \<and> call_name name \<and> well_nested [] body \<and> trim body = body"
  using assms
proof (induction t rule: transformation_text.induct)
  case (1 e)
  then show ?case using filter_body [of e] names by fastforce
next
  case (2 ks as)
  then show ?case using groupby_body [of ks as] names(2) by (simp only: transformation_text.simps) fastforce
next
  case (3 as)
  then show ?case using aggregates_body [of as] names(3) by (simp only: transformation_text.simps) fastforce
next
  case (4 items)
  then show ?case using order_body [of items] names(4) by (simp only: transformation_text.simps) fastforce
next
  case (5 n)
  then show ?case using count_body [of n] names(5) by (simp only: transformation_text.simps) fastforce
next
  case (6 n)
  then show ?case using count_body [of n] names(6) by (simp only: transformation_text.simps) fastforce
next
  case (7 n)
  then show ?case using count_body [of n] names(7) by (simp only: transformation_text.simps) fastforce
next
  case (8 ps)
  let ?text = "\<lambda>p. join ''/'' (map transformation_text p)"
  have t: "well_nested [] (transformation_text t) \<and> trim (transformation_text t) = transformation_text t \<and> transformation_text t \<noteq> []"
    if "p \<in> set ps" "t \<in> set p" for p t
  proof -
    have "writable_transformation t" using 8(2) that by (auto simp: list_all_iff)
    from 8(1) [OF that this] obtain name body
      where "transformation_text t = call name body" "call_name name" "well_nested [] body" by blast
    then show ?thesis using call_piece [of name "[]" body "[]"] by simp
  qed
  have p: "well_nested [] (?text p) \<and> ?text p \<noteq> [] \<and> trim (?text p) = ?text p" if "p \<in> set ps" for p
  proof -
    have "p \<noteq> []" using 8(2) that by (auto simp: list_all_iff)
    moreover have "\<forall>s\<in>set (map transformation_text p). s \<noteq> [] \<and> trim s = s" using t [OF that] by auto
    ultimately have "?text p \<noteq> [] \<and> trim (?text p) = ?text p"
      using join_trimmed [of "map transformation_text p" "''/''"] trim_join by simp
    moreover have "well_nested [] (?text p)"
      using t [OF that] by (intro well_nested_join) (auto intro: well_nested_plain simp: quote_def)
    ultimately show ?thesis by blast
  qed
  have "well_nested [] (join '','' (map ?text ps))"
    using p by (intro well_nested_join) (auto intro: well_nested_plain simp: quote_def)
  moreover have "trim (join '','' (map ?text ps)) = join '','' (map ?text ps)"
    using 8(2) p by (intro trim_join) auto
  ultimately show ?case using names(8) by (simp only: transformation_text.simps) blast
qed

lemma transformation_text_piece:
  assumes "writable_transformation t" "set stops \<subseteq> set '',/''"
  shows "well_nested stops (transformation_text t)" "trim (transformation_text t) = transformation_text t"
    "transformation_text t \<noteq> []"
proof -
  from transformation_piece [OF assms(1)] obtain name body
    where "transformation_text t = call name body" "call_name name" "well_nested [] body" by blast
  with call_piece [OF _ _ assms(2)] show "well_nested stops (transformation_text t)"
    "trim (transformation_text t) = transformation_text t" "transformation_text t \<noteq> []" by simp_all
qed

lemma pipeline_piece:
  assumes "writable_pipeline p"
  shows "piece CHR '','' (pipeline_text p)" "trim (pipeline_text p) = pipeline_text p" "pipeline_text p \<noteq> []"
    "splitTopLevel (pipeline_text p) CHR ''/'' = Inr (map transformation_text p)"
proof -
  have t: "writable_transformation t" if "t \<in> set p" for t using assms that by (auto simp: writable_pipeline_def list_all_iff)
  have n: "p \<noteq> []" using assms by (simp add: writable_pipeline_def)
  have s: "\<forall>s\<in>set (map transformation_text p). s \<noteq> [] \<and> trim s = s"
    using transformation_text_piece(2,3) [OF t, of _ "[]"] by auto
  show 1: "trim (pipeline_text p) = pipeline_text p" "pipeline_text p \<noteq> []"
    unfolding pipeline_text_def using n s join_trimmed [OF _ s] trim_join [OF _ s] by simp_all
  have "well_nested '','' (pipeline_text p)"
    unfolding pipeline_text_def using transformation_text_piece(1) [OF t, of _ "'',''"]
    by (intro well_nested_join) (auto intro: well_nested_plain simp: quote_def)
  with 1 show "piece CHR '','' (pipeline_text p)" by (simp add: piece_def)
  show "splitTopLevel (pipeline_text p) CHR ''/'' = Inr (map transformation_text p)"
    unfolding pipeline_text_def using transformation_text_piece [OF t, of _ "''/''"]
    by (intro splitTopLevel_join) (auto simp: piece_def)
qed

lemma join_member_length: "s \<in> set ss \<Longrightarrow> length s \<le> length (join d ss)"
  by (induction d ss rule: join.induct) auto

lemma concat_text: "transformation_text (TConcat ps) = call ''concat'' (join '','' (map pipeline_text ps))"
  by (simp add: pipeline_text_def [abs_def])

lemma read_concat:
  assumes ps: "2 \<le> length ps" "\<forall>p\<in>set ps. writable_pipeline p \<and> pipeline (pipeline_text p) = Inr p"
  shows "parseApplyConcat pipeline (join '','' (map pipeline_text ps)) = Inr (TConcat ps)"
proof -
  have "splitTopLevel (join '','' (map pipeline_text ps)) CHR '','' = Inr (map pipeline_text ps)"
    using ps(2) pipeline_piece(1) by (intro splitTopLevel_join) auto
  moreover have "rmap pipeline (map pipeline_text ps) = Inr ps" using ps(2) by (induction ps) auto
  ultimately show ?thesis using ps(1) by (simp add: parseApplyConcat_def)
qed

lemma read_transformation:
  assumes t: "writable_transformation t"
    and sub: "\<And>p. length (pipeline_text p) < length (transformation_text t) \<Longrightarrow> writable_pipeline p \<Longrightarrow>
      pipeline (pipeline_text p) = Inr p"
  shows "parseApplyTransformation pipeline (transformation_text t) = Inr t"
proof (cases t)
  case (TFilter e)
  with t filter_body [of e] show ?thesis by (simp add: read_call)
next
  case (TGroupBy ks as)
  with t groupby_body [of ks as] show ?thesis by (simp add: read_call)
next
  case (TAggregate as)
  with t aggregates_body [of as] show ?thesis by (simp add: read_call)
next
  case (TOrderBy items)
  with t order_body [of items] show ?thesis by (simp add: read_call)
next
  case (TSkip n)
  with t count_body [of n] show ?thesis by (simp add: read_call parseApplySkip_def)
next
  case (TTop n)
  with t count_body [of n] show ?thesis by (simp add: read_call parseApplyTop_def)
next
  case (TBottom n)
  with t count_body [of n] show ?thesis by (simp add: read_call parseApplyBottom_def)
next
  case (TConcat ps)
  let ?body = "join '','' (map pipeline_text ps)"
  have w: "\<forall>p\<in>set ps. writable_pipeline p" "2 \<le> length ps"
    using t TConcat by (auto simp: writable_pipeline_def list_all_iff)
  have "length (pipeline_text p) < length (transformation_text t)" if "p \<in> set ps" for p
    using join_member_length [of "pipeline_text p" "map pipeline_text ps" "'',''"] that TConcat
    by (simp add: concat_text call_def del: transformation_text.simps)
  then have "parseApplyConcat pipeline ?body = Inr (TConcat ps)" using w sub by (intro read_concat) auto
  moreover have "well_nested [] ?body"
    using w(1) pipeline_piece(1)
    by (intro well_nested_join) (auto simp: piece_def quote_def intro: well_nested_less well_nested_plain)
  moreover have "trim ?body = ?body"
    using w pipeline_piece(2,3) by (intro trim_join) fastforce+
  ultimately show ?thesis
    unfolding TConcat concat_text by (simp add: read_call)
qed

theorem read_pipeline:
  "length (pipeline_text p) < n \<Longrightarrow> writable_pipeline p \<Longrightarrow> pipeline_within n (pipeline_text p) = Inr p"
proof (induction n arbitrary: p)
  case (Suc n)
  note p = pipeline_piece [OF Suc.prems(2)]
  have "parseApplyTransformation (pipeline_within n) (trim (transformation_text t)) = Inr t" if "t \<in> set p" for t
  proof -
    have t: "writable_transformation t" using Suc.prems(2) that by (auto simp: writable_pipeline_def list_all_iff)
    have "length (transformation_text t) \<le> length (pipeline_text p)"
      unfolding pipeline_text_def using that by (intro join_member_length) simp
    then have "parseApplyTransformation (pipeline_within n) (transformation_text t) = Inr t"
      using Suc.prems(1) by (intro read_transformation [OF t] Suc.IH) linarith
    then show ?thesis using transformation_text_piece(2) [OF t, of "[]"] by simp
  qed
  then have "rmap (\<lambda>s. parseApplyTransformation (pipeline_within n) (trim s)) (map transformation_text p) = Inr p"
    by (induction p) simp_all
  then show ?case using p Suc.prems(2) by (simp add: writable_pipeline_def)
qed simp

corollary pipeline_round_trip: "writable_pipeline p \<Longrightarrow> parseApplyPipeline (pipeline_text p) = Inr p"
  unfolding parseApplyPipeline_def by (rule read_pipeline) simp

end
