(* ===== verification/ExpandLevels.thy ===== *)
theory ExpandLevels
  imports ExpandTotal ApplyRoundTrip
begin

text \<open>
  \<open>$levels\<close>: on a relation from a model to itself it nests exactly as deep as it says, however large;
  on a relation that leads on to other models it includes in them what the first one has.
\<close>

section \<open>Options of a single relation\<close>

lemma options_loop_plain:
  "list_all (\<lambda>c. c \<noteq> quote \<and> c \<noteq> CHR ''('' \<and> c \<noteq> CHR '')'') w \<Longrightarrow>
   options_loop s (w @ t) i None 0 False = options_loop s t (i + length w) None 0 False"
  by (induction w arbitrary: i) auto

lemma extract_call:
  assumes name: "list_all (\<lambda>c. c \<noteq> quote \<and> c \<noteq> CHR ''('' \<and> c \<noteq> CHR '')'') name" "trim name = name" "name \<noteq> []"
    and body: "well_nested [] body" "trim body = body" "body \<noteq> []"
  shows "extractPathAndOptions (name @ ''('' @ body @ '')'') = Inr (name, Some body)"
proof -
  let ?s = "name @ ''('' @ body @ '')''"
  have t: "trim ?s = ?s" using hd_trim [of name] name by (intro trim_id) (simp add: is_space_def code_def)
  have "options_loop ?s ?s 0 None 0 False = options_loop ?s (body @ '')'') (length name + 1) (Some (length name)) (Suc 0) False"
    using options_loop_plain [OF name(1), of ?s "''('' @ body @ '')''" 0] by simp
  also have "\<dots> = options_loop ?s '')'' (length name + 1 + length body) (Some (length name)) (Suc 0) False"
    using options_loop_nested [OF body(1) [unfolded well_nested_def]] by blast
  also have "\<dots> = Inr (name, Some body)" using name body by (simp add: Let_def)
  finally show ?thesis unfolding extractPathAndOptions_def Let_def t .
qed

lemma levels_body:
  "trim (''$levels='' @ show_nat n) = ''$levels='' @ show_nat n"
  "set stops \<subseteq> {CHR '','', CHR '';''} \<Longrightarrow> well_nested stops (''$levels='' @ show_nat n)"
proof -
  have d: "is_digit c \<Longrightarrow> c \<noteq> CHR '';'' \<and> c \<noteq> CHR '','' \<and> c \<noteq> quote \<and> c \<noteq> CHR ''('' \<and> c \<noteq> CHR '')'' \<and> \<not> is_space c" for c
    by (auto simp: is_digit_def quote_def is_space_def code_def)
  have digits: "list_all is_digit (show_nat n)" "show_nat n \<noteq> []" by simp_all
  show "trim (''$levels='' @ show_nat n) = ''$levels='' @ show_nat n"
    using digits d by (intro trim_id) (simp add: is_space_def code_def list_all_iff)
  assume s: "set stops \<subseteq> {CHR '','', CHR '';''}"
  have "well_nested stops (show_nat n)"
    by (rule well_nested_plain, rule list.pred_mono_strong [OF digits(1)]) (use d s in blast)
  moreover have "well_nested stops ''$levels=''"
    by (rule well_nested_plain) (use s in \<open>auto simp: quote_def\<close>)
  ultimately show "well_nested stops (''$levels='' @ show_nat n)" by (intro well_nested_append)
qed

lemma levels_text:
  assumes "small_int (int n)" "0 < n"
  shows "parseExpandOptions opts sub (''$levels='' @ show_nat n) rels =
    Inr \<lparr>eo_scope = None, eo_includes = None, eo_levels = Some n\<rparr>"
proof -
  note n = count_body [OF assms(1)]
  let ?t = "''$levels='' @ show_nat n"
  have digits: "list_all is_digit (show_nat n)" "show_nat n \<noteq> []" by simp_all
  have t: "trim ?t = ?t" by (rule levels_body)
  have "well_nested '';'' ?t" by (rule levels_body) simp
  then have "splitTopLevel ?t CHR '';'' = Inr [?t]"
    using splitTopLevel_join [of "[?t]" "CHR '';''"] t by (simp add: piece_def quote_def)
  moreover have "index_of_char CHR ''='' ?t = Some 7"
    using index_of_char_append [of "CHR ''=''" "''$levels''" "show_nat n"] by simp
  moreover have "lower (trim ''$levels'') = ''$levels''" by code_simp
  moreover have "natural_value (js_Number (show_nat n)) = Some n"
    using js_Number_int [OF assms(1)] by (simp add: show_int_def natural_value_def is_integer_def)
  moreover have "lower (show_nat n) \<noteq> ''max''"
  proof
    assume l: "lower (show_nat n) = ''max''"
    obtain c cs where "show_nat n = c # cs" using digits(2) by (cases "show_nat n") auto
    with l digits(1) show False by (auto simp: lower_def lower_char_def is_digit_def is_upper_def code_def split: if_splits)
  qed
  ultimately show ?thesis
    using assms(2) n(2) digits(2) t
    by (simp add: parseExpandOptions_def expand_option_def Let_def levels_option_def)
qed

section \<open>Self relations\<close>

fun chain :: "string \<Rightarrow> nat \<Rightarrow> scope option" where
  "chain r 0 = None"
| "chain r (Suc k) = Some (only_includes [Inclusion r (chain r k)])"

lemma levels_chain: "look m r = Some (Some m) \<Longrightarrow> expandLevels look r k (Some m) None None = chain r k"
  by (induction k) (simp_all add: append_include_def no_scope_def only_includes_def)

lemma chain_depth: "opt_depth (chain r k) = k"
  by (induction k) (simp_all add: only_includes_def)

lemma chain_ensure: "map_option ensureFieldsIncludeRelations (chain r k) = chain r k"
  by (induction k) (simp_all add: only_includes_def projectRelationField_def)

lemma chain_merge: "mergeScopes None (chain r k) = chain r k"
proof (induction k)
  case 0
  show ?case by (subst mergeScopes_step) (simp add: merge_step_def)
next
  case (Suc k)
  with chain_ensure [of r k] show ?case
    by (subst mergeScopes_step)
      (simp add: merge_step_def Let_def only_includes_def merge_lists_def no_scope_def projectRelationField_def)
qed

lemma include_level:
  assumes "look m r = Some (Some m)" "r \<noteq> []" "small_int (int n)" "0 < n"
  shows "buildIncludeFromParts look opts sub [r] (Some (''$levels='' @ show_nat n)) (Some m) = Inr (Inclusion r (chain r (n - 1)))"
proof -
  have none: "mergeScopes None None = None" using chain_merge [of r 0] by simp
  have "levels_scope look r (Some m) \<lparr>eo_scope = None, eo_includes = None, eo_levels = Some n\<rparr> = chain r (n - 1)"
    using assms(4) levels_chain [of look m r, OF assms(1)]
    by (cases n) (auto simp: levels_scope_def options_scope_def none)
  with assms(1,2) show ?thesis by (simp add: relation_target_def Let_def levels_text [OF assms(3,4), simplified])
qed

theorem levels_exact:
  assumes look: "look m r = Some (Some m)" and r: "simple_identifier r" and n: "small_int (int n)" "0 < n"
  shows "parseExpand look opts (r @ ''($levels='' @ show_nat n @ '')'') (Some m) = Inr (Some [Inclusion r (chain r (n - 1))])"
proof -
  define body where "body = ''$levels='' @ show_nat n"
  let ?s = "r @ ''('' @ body @ '')''"
  have rs: "r \<noteq> []" "list_all ident_char r" using r by (auto simp: simple_identifier_def)
  have plain: "list_all (\<lambda>c. c \<noteq> quote \<and> c \<noteq> CHR ''('' \<and> c \<noteq> CHR '')'' \<and> c \<noteq> CHR '','' \<and> c \<noteq> CHR ''/'' \<and> \<not> is_space c) r"
    by (rule list.pred_mono_strong [OF rs(2)]) (use word_char(1) in \<open>auto simp: punctuation_def\<close>)
  have tr: "trim r = r" using plain rs(1) by (intro trim_id) (simp add: list_all_iff)
  have b: "well_nested [] body" "trim body = body" "body \<noteq> []" using levels_body(1) [of n] levels_body(2) [where stops = "[]" and n = n] by (simp_all add: body_def)
  have call: "r @ ''($levels='' @ show_nat n @ '')'' = ?s" by (simp add: body_def)
  have "well_nested '','' r" by (rule well_nested_plain, rule list.pred_mono_strong [OF plain]) simp
  then have "well_nested '','' ?s"
    using well_nested_parens [OF b(1)] by (rule well_nested_append)
  moreover have "trim ?s = ?s"
    using plain rs(1) by (intro trim_id) (simp add: list_all_iff is_space_def code_def)
  ultimately have "splitTopLevel ?s CHR '','' = Inr [?s]"
    using splitTopLevel_join [of "[?s]" "CHR '',''"] by (simp add: piece_def quote_def)
  moreover have "extractPathAndOptions ?s = Inr (r, Some body)"
    by (rule extract_call [OF list.pred_mono_strong [OF plain] tr rs(1) b]) simp
  moreover have "split_on CHR ''/'' r = [r]" using plain by (intro split_on_single) (auto simp: list_all_iff)
  ultimately show ?thesis
    unfolding call
    using rs(1) tr include_level [of look m r n, OF look rs(1) n, folded body_def] chain_merge [of r "n - 1"]
    by (simp add: parseExpand_def expand_segment_def Let_def del: buildIncludeFromParts.simps)
qed

section \<open>Relations that lead on\<close>

text \<open>A model with a child that has tags and a child of its own, which has no tags.\<close>

definition ragged :: "string relations" where
  "ragged m r = (if m = ''Root'' \<and> r = ''child'' then Some (Some ''Child'')
     else if m = ''Child'' \<and> r = ''child'' then Some (Some ''Leaf'')
     else if m = ''Child'' \<and> r = ''tags'' then Some (Some ''Tag'') else None)"

lemma ragged_tags: "expand_within (Suc n) ragged opts ''tags'' (Some ''Child'') = Inr (Some [Inclusion ''tags'' None])"
proof -
  have "splitTopLevel ''tags'' CHR '','' = Inr [''tags'']" by code_simp
  moreover have "extractPathAndOptions ''tags'' = Inr (''tags'', None)" by code_simp
  moreover have "map trim (split_on CHR ''/'' ''tags'') = [''tags'']" by code_simp
  moreover have "mergeScopes None None = None" using chain_merge [of r 0] by simp
  ultimately show ?thesis by (simp add: expand_segment_def ragged_def)
qed

lemma ragged_options:
  "parseExpandOptions opts (expand_within (Suc n) ragged opts) ''$levels=2;$expand=tags'' (Some ''Child'')
     = Inr \<lparr>eo_scope = None, eo_includes = Some [Inclusion ''tags'' None], eo_levels = Some 2\<rparr>"
proof -
  have "splitTopLevel ''$levels=2;$expand=tags'' CHR '';'' = Inr [''$levels=2'', ''$expand=tags'']" by code_simp
  moreover have "index_of_char CHR ''='' ''$levels=2'' = Some 7" "index_of_char CHR ''='' ''$expand=tags'' = Some 7"
    by code_simp+
  moreover have "lower (trim ''$levels'') = ''$levels''" "lower (trim ''$expand'') = ''$expand''" "trim ''tags'' = ''tags''"
    "trim ''2'' = ''2''" "lower ''2'' = ''2''"
    "trim ''$levels=2'' = ''$levels=2''" "trim ''$expand=tags'' = ''$expand=tags''" by code_simp+
  moreover have "natural_value (js_Number ''2'') = Some 2"
  proof -
    have "show_int 2 = ''2''" by code_simp
    then show ?thesis using js_Number_int [of 2] by (simp add: small_int_def natural_value_def is_integer_def)
  qed
  ultimately show ?thesis
    by (simp add: parseExpandOptions_def expand_option_def levels_option_def ragged_tags del: expand_within.simps)
qed

text \<open>The tags stand under the grandchild too, whose model has none.\<close>

definition copied :: "inclusion list" where
  "copied = [Inclusion ''child'' (Some (only_includes [Inclusion ''tags'' None,
     Inclusion ''child'' (Some (only_includes [Inclusion ''tags'' None]))]))]"

lemma ragged_levels:
  "parseExpand ragged opts ''child($levels=2;$expand=tags)'' (Some ''Root'') = Inr (Some copied)"
proof -
  have "splitTopLevel ''child($levels=2;$expand=tags)'' CHR '','' = Inr [''child($levels=2;$expand=tags)'']" by code_simp
  moreover have "extractPathAndOptions ''child($levels=2;$expand=tags)'' = Inr (''child'', Some ''$levels=2;$expand=tags'')"
    by code_simp
  moreover have "map trim (split_on CHR ''/'' ''child'') = [''child'']" by code_simp
  moreover have "ragged ''Root'' ''child'' = Some (Some ''Child'')" by (simp add: ragged_def)
  moreover have "foldl (upsert mergeScopes) [] [Inclusion ''child''
      (levels_scope ragged ''child'' (Some ''Child'') \<lparr>eo_scope = None, eo_includes = Some [Inclusion ''tags'' None], eo_levels = Some 2\<rparr>)]
      = copied" by code_simp
  ultimately show ?thesis
    by (simp add: parseExpand_def expand_segment_def relation_target_def ragged_options)
qed

lemma copied_unknown: "\<not> known_list ragged copied (Some ''Root'')"
  by (simp add: copied_def ragged_def)

end
