(* ===== verification/WhereAgreement.thy ===== *)
theory WhereAgreement
  imports WhereMeaning
begin

text \<open>
  Where the database and the in-memory evaluation of a filter agree: the ranges
  \<open>buildWhere\<close> gives \<open>floor\<close>, \<open>round\<close> and \<open>year\<close> are those of the functions, and a whole
  filter of comparable parts, negated or not, holds of an entity just when its
  translation does.
\<close>

section \<open>The ranges of the numeric functions\<close>

lemma compare_num_holds:
  assumes "field f = JNum (Finite y)"
  shows "where_holds h field (op f ''gte'' (num x)) = (x \<le> y)"
    "where_holds h field (op f ''gt'' (num x)) = (x < y)"
    "where_holds h field (op f ''lte'' (num x)) = (y \<le> x)"
    "where_holds h field (op f ''lt'' (num x)) = (y < x)"
  by (auto simp: op_where_holds op_holds_def ordered_def num_def assms compareValues_numbers)

lemma floor_bounds:
  fixes y :: rat
  shows "of_int \<lfloor>y\<rfloor> < rat_of_int k \<longleftrightarrow> y < of_int k" "rat_of_int k \<le> of_int \<lfloor>y\<rfloor> \<longleftrightarrow> of_int k \<le> y"
    "rat_of_int \<lfloor>y\<rfloor> \<le> of_int k \<longleftrightarrow> y < of_int k + 1" "rat_of_int k < of_int \<lfloor>y\<rfloor> \<longleftrightarrow> of_int k + 1 \<le> y"
  by (simp_all add: floor_less_iff le_floor_iff floor_le_iff less_floor_iff)

lemma floor_equal:
  fixes y :: rat
  shows "rat_of_int \<lfloor>y\<rfloor> = of_int k \<longleftrightarrow> of_int k \<le> y \<and> y < of_int k + 1"
  using floor_eq_iff [of y k] by auto

lemma integer_cases:
  assumes "is_integer x" obtains k where "x = rat_of_int k"
  using assms by (metis is_integer_def)

lemma floor_where_meaning:
  assumes "number_fn_where opts Floor f c x = Inr w" "is_integer x" "field f = JNum (Finite y)"
  shows "where_holds h field w = number_test c (of_int \<lfloor>y\<rfloor>) x"
proof -
  obtain k where k: "x = rat_of_int k" using assms(2) by (rule integer_cases)
  show ?thesis
    using assms(1) k floor_bounds [where y = y and k = k] floor_equal [of y k]
    by (cases c) (auto simp: number_fn_where_def unsupported_comparator_def compare_num_holds assms(3))
qed

lemma round_where_meaning:
  assumes "number_fn_where opts Round f c x = Inr w" "is_integer x" "field f = JNum (Finite y)"
  shows "where_holds h field w = number_test c (of_int (round_half_up y)) x"
proof -
  obtain k where k: "x = rat_of_int k" using assms(2) by (rule integer_cases)
  have s: "rat_of_int k \<le> y + 1 / 2 \<longleftrightarrow> of_int k - 1 / 2 \<le> y" "y + 1 / 2 < rat_of_int k + 1 \<longleftrightarrow> y < of_int k + 1 / 2"
    "rat_of_int k + 1 \<le> y + 1 / 2 \<longleftrightarrow> of_int k + 1 / 2 \<le> y" "y + 1 / 2 < rat_of_int k \<longleftrightarrow> y < of_int k - 1 / 2"
    by linarith+
  show ?thesis
    using assms(1) k s floor_bounds [where y = "y + 1 / 2" and k = k] floor_equal [of "y + 1 / 2" k]
    by (cases c) (auto simp: number_fn_where_def unsupported_comparator_def compare_num_holds assms(3)
        round_half_up_def Let_def)
qed

lemma ceiling_gte_meaning:
  assumes "number_fn_where opts Ceiling f Gte x = Inr w" "is_integer x" "field f = JNum (Finite y)"
  shows "where_holds h field w = number_test Gte (of_int \<lceil>y\<rceil>) x"
proof -
  obtain k where k: "x = rat_of_int k" using assms(2) by (rule integer_cases)
  have "k \<le> \<lceil>y\<rceil> \<longleftrightarrow> rat_of_int k - 1 < y" by (simp add: le_ceiling_iff)
  with assms(1) k show ?thesis
    by (auto simp: number_fn_where_def compare_num_holds assms(3))
qed

text \<open>The years that \<open>Date.UTC\<close> takes for what they are, and whose first days are valid dates.\<close>

definition plain_year :: "rat \<Rightarrow> bool" where
  "plain_year x \<longleftrightarrow> is_integer x \<and> 100 \<le> x \<and> x \<le> 9999"

lemma first_of_year:
  assumes "100 \<le> k" "k \<le> 10000"
  shows "date_UTC (rat_of_int k) 0 1 0 0 0 0 = Some (day_from_year k * ms_per_day)"
proof -
  have "day_from_year 100 \<le> day_from_year k" "day_from_year k \<le> day_from_year 10000"
    using assms by simp_all
  then have "- 1000000 \<le> day_from_year k" "day_from_year k \<le> 4000000"
    by (simp_all add: day_from_year_def)
  then have "\<bar>day_from_year k * ms_per_day\<bar> \<le> 8640000000000000"
    unfolding ms_per_day_def by linarith
  with assms show ?thesis by (simp add: date_UTC_def truncate_rat_def time_clip_def Let_def)
qed

lemma compareValues_dates:
  "compareValues h (JDate (Some s)) (JDate (Some t)) = (if s = t then 0 else if s < t then -1 else 1)"
  by (simp add: compareValues_def sign_of_def)

lemma compare_date_holds:
  assumes "field f = JDate (Some t)"
  shows "where_holds h field (op f ''gte'' (JDate (Some s))) = (s \<le> t)"
    "where_holds h field (op f ''lt'' (JDate (Some s))) = (t < s)"
  by (auto simp: op_where_holds op_holds_def ordered_def assms compareValues_dates)

lemma year_where_meaning:
  assumes "number_fn_where opts Year f c x = Inr w" "plain_year x" "field f = JDate (Some t)"
  shows "where_holds h field w = number_test c (of_int (utc_year t)) x"
proof -
  obtain k where k: "x = rat_of_int k" "100 \<le> k" "k \<le> 9999"
    using assms(2) by (auto simp: plain_year_def elim!: integer_cases)
  have d: "date_UTC x 0 1 0 0 0 0 = Some (day_from_year k * ms_per_day)"
    "date_UTC (x + 1) 0 1 0 0 0 0 = Some (day_from_year (k + 1) * ms_per_day)"
    using first_of_year [of k] first_of_year [of "k + 1"] k by simp_all
  have y: "utc_year t < k \<longleftrightarrow> t < day_from_year k * ms_per_day"
    "k < utc_year t \<longleftrightarrow> day_from_year (k + 1) * ms_per_day \<le> t"
    using utc_year_ge [of k t] utc_year_ge [of "k + 1" t] by linarith+
  have "number_test c (of_int (utc_year t)) (rat_of_int k) =
     (case c of Eq \<Rightarrow> \<not> utc_year t < k \<and> \<not> k < utc_year t | Neq \<Rightarrow> utc_year t < k \<or> k < utc_year t
        | Gt \<Rightarrow> k < utc_year t | Gte \<Rightarrow> \<not> utc_year t < k | Lt \<Rightarrow> utc_year t < k
        | Lte \<Rightarrow> \<not> k < utc_year t | _ \<Rightarrow> False)"
    by (cases c) auto
  then have n: "number_test c (of_int (utc_year t)) (rat_of_int k) =
     (case c of Eq \<Rightarrow> day_from_year k * ms_per_day \<le> t \<and> t < day_from_year (k + 1) * ms_per_day
        | Neq \<Rightarrow> t < day_from_year k * ms_per_day \<or> day_from_year (k + 1) * ms_per_day \<le> t
        | Gt \<Rightarrow> day_from_year (k + 1) * ms_per_day \<le> t | Gte \<Rightarrow> day_from_year k * ms_per_day \<le> t
        | Lt \<Rightarrow> t < day_from_year k * ms_per_day | Lte \<Rightarrow> t < day_from_year (k + 1) * ms_per_day | _ \<Rightarrow> False)"
    unfolding y not_less not_le by (cases c) auto
  have "\<exists>m. assertSafeFilterFieldName opts f = Inr m"
    using assms(1) by (auto simp: number_fn_where_def)
  then show ?thesis
    using assms(1) unfolding number_fn_where_def number_fn.case Let_def d
    unfolding k(1) n
    by (cases c) (auto simp: unsupported_comparator_def compare_date_holds [where field = field, OF assms(3)])
qed


section \<open>The agreement of the two evaluations\<close>

fun is_text :: "js_value \<Rightarrow> bool" where
  "is_text (JStr s) = True"
| "is_text _ = False"

fun number_fn_comparable :: "number_fn \<Rightarrow> js_value \<Rightarrow> rat \<Rightarrow> bool" where
  "number_fn_comparable Floor (JNum (Finite y)) x = is_integer x"
| "number_fn_comparable Round (JNum (Finite y)) x = is_integer x"
| "number_fn_comparable Year (JDate (Some t)) x = plain_year x"
| "number_fn_comparable _ _ _ = False"

text \<open>
  The filters the two sides are meant to agree on, for the values of their fields: no
  \<open>null\<close> or \<open>undefined\<close>, strings under the string functions, numbers and dates under the
  numeric functions, and the comparators those have in memory.
\<close>

fun comparable :: "(string \<Rightarrow> js_value) \<Rightarrow> parsed_expression \<Rightarrow> bool" where
  "comparable field (Comparison f c v) = (\<not> is_nullish (field f) \<and> (c \<in> {Inq, Nin} \<or> \<not> is_nullish v))"
| "comparable field (StringTest fn f args ci t neg) = (is_text (field f) \<and> \<not> neg)"
| "comparable field (LengthCmp f c x) = is_text (field f)"
| "comparable field (IndexOfCmp f c x needle) =
     (is_text (field f) \<and> ((c = Gte \<and> x = 0) \<or> (c = Gt \<and> x = -1) \<or> (c = Eq \<and> x = -1)))"
| "comparable field (SubstrCmp f start len c literal) =
     (len = None \<and> (c = Eq \<or> c = Neq)
      \<and> (case field f of JStr s \<Rightarrow> literal \<noteq> [] \<or> start \<le> of_nat (length s) | _ \<Rightarrow> False))"
| "comparable field (FnCmp fn f c x) = (c = Eq \<and> number_fn_comparable fn (field f) x)"
| "comparable field (Logical t es) = list_all (comparable field) es"
| "comparable field (Not e) = comparable field e"
| "comparable field _ = True"

lemma number_fn_meaning:
  assumes "number_fn_where opts fn f Eq x = Inr w" "number_fn_comparable fn (field f) x"
  shows "where_holds h field w = evaluate_fncmp h fn (field f) x"
proof -
  consider (f) y where "fn = Floor" "field f = JNum (Finite y)" "is_integer x"
    | (r) y where "fn = Round" "field f = JNum (Finite y)" "is_integer x"
    | (y) t where "fn = Year" "field f = JDate (Some t)" "plain_year x"
    using assms(2) by (cases "(fn, field f, x)" rule: number_fn_comparable.cases) auto
  then show ?thesis
  proof cases
    case f
    with assms(1) have "where_holds h field w = number_test Eq (of_int \<lfloor>y\<rfloor>) x"
      by (intro floor_where_meaning) auto
    with f show ?thesis by (simp add: evaluate_fncmp_def compareValues_numbers)
  next
    case r
    with assms(1) have "where_holds h field w = number_test Eq (of_int (round_half_up y)) x"
      by (intro round_where_meaning) auto
    with r show ?thesis by (simp add: evaluate_fncmp_def compareValues_numbers)
  next
    case y
    with assms(1) have "where_holds h field w = number_test Eq (of_int (utc_year t)) x"
      by (intro year_where_meaning) auto
    with y show ?thesis by (simp add: evaluate_fncmp_def compareValues_numbers)
  qed
qed

lemma is_text_iff: "is_text v \<longleftrightarrow> (\<exists>s. v = JStr s)"
  by (cases v) auto

lemma inverse_index:
  assumes "negateIndexOfExpression c x = Inr (c', x')"
    "(c = Gte \<and> x = 0) \<or> (c = Gt \<and> x = -1) \<or> (c = Eq \<and> x = -1)"
  shows "(c' = Gte \<and> x' = 0) \<or> (c' = Gt \<and> x' = -1) \<or> (c' = Eq \<and> x' = -1)"
    "test_comparison c' (compareValues h (JNum (Finite (index_in s needle))) (JNum (Finite x')))
     = (\<not> test_comparison c (compareValues h (JNum (Finite (index_in s needle))) (JNum (Finite x))))"
proof -
  have "index_in s needle = -1 \<or> 0 \<le> index_in s needle"
    by (auto simp: index_in_def split: option.splits)
  with assms show "(c' = Gte \<and> x' = 0) \<or> (c' = Gt \<and> x' = -1) \<or> (c' = Eq \<and> x' = -1)"
    "test_comparison c' (compareValues h (JNum (Finite (index_in s needle))) (JNum (Finite x')))
     = (\<not> test_comparison c (compareValues h (JNum (Finite (index_in s needle))) (JNum (Finite x))))"
    by (auto simp: negateIndexOfExpression_def compareValues_numbers split: if_splits)
qed

lemma inverse_length:
  "negateLengthExpression c = Inr c' \<Longrightarrow> number_test c' a x = (\<not> number_test c a x)"
  by (cases c) (auto simp: negateLengthExpression_def)

lemma logical_where_holds:
  "where_holds h field (logical_where t ws) =
     (case t of And \<Rightarrow> list_all (where_holds h field) ws | Or \<Rightarrow> list_ex (where_holds h field) ws)"
  by (cases t) (simp_all add: logical_where_def)

lemma list_all2_holds:
  assumes "list_all2 r es ws" "\<And>e w. e \<in> set es \<Longrightarrow> r e w \<Longrightarrow> p w = q e"
  shows "list_all p ws = list_all q es" "list_ex p ws = list_ex q es"
  using assms by (induction rule: list_all2_induct) auto


lemma comparison_inverse_meaning:
  assumes "comparison_where opts f (inverse_comparator c) v = Inr w" "\<not> is_nullish (field f)"
    "c \<in> {Inq, Nin} \<or> \<not> is_nullish v"
  shows "where_holds h field w = (\<not> evaluate_comparison h c (field f) v)"
proof -
  have "inverse_comparator c \<in> {Inq, Nin} \<or> \<not> is_nullish v" using assms(3) by auto
  from comparison_meaning [where field = field, OF assms(1,2) this]
  have "where_holds h field w = evaluate_comparison h (inverse_comparator c) (field f) v" .
  moreover have "c \<in> {Inq, Nin} \<longrightarrow> (\<exists>vs. v = JArr vs)"
    using assms(1) by (cases c; cases v) (auto simp: comparison_where_def in_where_def)
  ultimately show ?thesis using evaluate_inverse by blast
qed

lemma substring_test_meaning:
  assumes "substring_where opts f start len c literal = Inr w"
    "comparable field (SubstrCmp f start len c' literal)" "c = Eq \<or> c = Neq"
  obtains s where "field f = JStr s" "len = None"
    "where_holds h field w = ((js_substr s (max 0 start) None = literal) = (c = Eq))"
proof -
  obtain s where s: "field f = JStr s" "len = None" "literal \<noteq> [] \<or> start \<le> of_nat (length s)"
    using assms(2) by (auto split: js_value.splits)
  with assms show ?thesis
    using that [of s] substring_meaning [where field = field] by auto
qed

lemma buildWhere_agrees:
  assumes "comparable (\<lambda>f. resolvePredicateValue f current al rt b) e"
  shows "(buildWhere opts e = Inr w \<longrightarrow> where_holds h (\<lambda>f. resolvePredicateValue f current al rt b) w
           = evaluatePredicate h e current al rt b)
    \<and> (buildWhere opts (Not e) = Inr w \<longrightarrow> where_holds h (\<lambda>f. resolvePredicateValue f current al rt b) w
           = (\<not> evaluatePredicate h e current al rt b))"
  using assms
proof (induction e arbitrary: w)
  case (Comparison f c v)
  then show ?case by (auto simp: comparison_meaning comparison_inverse_meaning)
next
  case (StringTest fn f args ci t neg)
  then obtain s where s: "resolvePredicateValue f current al rt b = JStr s" "\<not> neg"
    by (auto simp: is_text_iff)
  from s(1) show ?case using s(2) string_test_meaning [where f = f and s = s
      and field = "\<lambda>f. resolvePredicateValue f current al rt b"] by auto
next
  case (FnCmp fn f c x)
  then show ?case by (auto simp: number_fn_meaning)
next
  case (IndexOfCmp f c x needle)
  then obtain s where s: "resolvePredicateValue f current al rt b = JStr s"
    and c: "(c = Gte \<and> x = 0) \<or> (c = Gt \<and> x = -1) \<or> (c = Eq \<and> x = -1)"
    by (auto simp: is_text_iff)
  from index_of_meaning [where f = f and s = s and field = "\<lambda>f. resolvePredicateValue f current al rt b", OF _ s]
    c inverse_index [OF _ c] show ?case by (auto simp: s split: prod.splits)
next
  case (SubstrCmp f start len c literal)
  let ?field = "\<lambda>f. resolvePredicateValue f current al rt b"
  have c: "c = Eq \<or> c = Neq" "negateSubstringExpression c = (if c = Eq then Neq else Eq)"
    using SubstrCmp by (auto simp: negateSubstringExpression_def)
  have "where_holds h ?field w = (evaluatePredicate h (SubstrCmp f start len c literal) current al rt b = (c' = c))"
    if sw: "substring_where opts f start len c' literal = Inr w" and c': "c' = Eq \<or> c' = Neq" for c'
  proof -
    obtain s where s: "?field f = JStr s" "len = None"
      and m: "where_holds h ?field w = ((js_substr s (max 0 start) None = literal) = (c' = Eq))"
      by (rule substring_test_meaning [where field = ?field, OF sw SubstrCmp.prems c'])
    have "evaluatePredicate h (SubstrCmp f start len c literal) current al rt b =
        ((js_substr s (max 0 start) None = literal) = (c = Eq))"
      using s c by auto
    with m c(1) c' show ?thesis by auto
  qed
  from this [of c] this [of "negateSubstringExpression c"] c show ?case by auto
next
  case (LengthCmp f c x)
  then obtain s where s: "resolvePredicateValue f current al rt b = JStr s" by (auto simp: is_text_iff)
  from length_meaning [where f = f and s = s and field = "\<lambda>f. resolvePredicateValue f current al rt b", OF _ s]
  show ?case by (auto simp: s inverse_length)
next
  case (Logical t es)
  let ?field = "\<lambda>f. resolvePredicateValue f current al rt b"
  have IH: "e \<in> set es \<Longrightarrow> buildWhere opts e = Inr w' \<Longrightarrow> where_holds h ?field w' = evaluatePredicate h e current al rt b"
    "e \<in> set es \<Longrightarrow> buildWhere opts (Not e) = Inr w' \<Longrightarrow> where_holds h ?field w' = (\<not> evaluatePredicate h e current al rt b)"
    for e w' using Logical by (auto simp: list_all_iff)
  show ?case
  proof (intro conjI impI)
    assume "buildWhere opts (Logical t es) = Inr w"
    then obtain ws where w: "w = logical_where t ws" "list_all2 (\<lambda>e w'. buildWhere opts e = Inr w') es ws"
      using buildWhere_logical by blast
    from list_all2_holds [OF w(2) IH(1)]
    show "where_holds h ?field w = evaluatePredicate h (Logical t es) current al rt b"
      by (cases t) (simp_all add: w(1) logical_where_holds)
  next
    assume "buildWhere opts (Not (Logical t es)) = Inr w"
    then obtain ws where w: "w = logical_where (dual t) ws" "list_all2 (\<lambda>e w'. buildWhere opts (Not e) = Inr w') es ws"
      using buildWhere_not_logical by blast
    from list_all2_holds [OF w(2) IH(2)]
    show "where_holds h ?field w = (\<not> evaluatePredicate h (Logical t es) current al rt b)"
      by (cases t) (simp_all add: w(1) logical_where_holds dual_def list_all_iff list_ex_iff)
  qed
next
  case (Not e)
  then show ?case by (auto simp: unsupported_expression_def)
qed (auto simp: unsupported_def unsupported_expression_def)

end
