(* ===== verification/Throttle.thy ===== *)
theory Throttle
  imports JsStrings
begin

text \<open>
  Tenant throttling: the in-memory store of \<open>tenant-throttle-store.ts\<close>, the throttler of
  \<open>tenant-throttler.provider.ts\<close> over any store, and the requests that pass through
  \<open>enforceTenantLimit\<close> of the generated controllers, as steps that interleave at the points where
  the source awaits. The clock is an argument of each operation.
\<close>

section \<open>The store in memory\<close>

record tenant_state =
  windowStart :: int
  windowMs :: int
  hits :: nat
  concurrent :: nat

record memory_store =
  states :: "(string \<times> tenant_state) list"
  lastCleanup :: int

record rate_result =
  rate_limited :: bool
  rate_hits :: nat
  rate_windowStart :: int
  windowResetMs :: int

record concurrent_result =
  concurrent_limited :: bool
  concurrent_now :: nat

definition new_store :: memory_store where
  "new_store = \<lparr>states = [], lastCleanup = 0\<rparr>"

text \<open>\<open>limit && limit > 0 && n > limit\<close>, and the same with \<open>n >= limit\<close>.\<close>

definition over :: "rat option \<Rightarrow> nat \<Rightarrow> bool" where
  "over limit n = (case limit of None \<Rightarrow> False | Some l \<Rightarrow> 0 < l \<and> l < of_nat n)"

definition reached :: "rat option \<Rightarrow> nat \<Rightarrow> bool" where
  "reached limit n = (case limit of None \<Rightarrow> False | Some l \<Rightarrow> 0 < l \<and> l \<le> of_nat n)"

definition ensureState :: "memory_store \<Rightarrow> string \<Rightarrow> int \<Rightarrow> int \<Rightarrow> tenant_state \<times> memory_store" where
  "ensureState st tenant now w =
     (case map_of (states st) tenant of
        Some s \<Rightarrow> (s, st)
      | None \<Rightarrow>
          let created = \<lparr>windowStart = now, windowMs = w, hits = 0, concurrent = 0\<rparr>
          in (created, st\<lparr>states := states st @ [(tenant, created)]\<rparr>))"

definition expired :: "int \<Rightarrow> tenant_state \<Rightarrow> bool" where
  "expired now s \<longleftrightarrow> concurrent s = 0 \<and> windowMs s \<le> now - windowStart s"

definition prune :: "memory_store \<Rightarrow> int \<Rightarrow> int \<Rightarrow> memory_store" where
  "prune st now w =
     (if states st = [] \<or> now - lastCleanup st < w then st
      else st\<lparr>lastCleanup := now, states := filter (\<lambda>(t, s). \<not> expired now s) (states st)\<rparr>)"

text \<open>
  The operations change the state object they hold; the map sees the change only while it still
  has the object.
\<close>

definition write_through :: "string \<Rightarrow> tenant_state \<Rightarrow> memory_store \<Rightarrow> memory_store" where
  "write_through tenant s st =
     (if map_of (states st) tenant = None then st else st\<lparr>states := obj_set tenant s (states st)\<rparr>)"

definition incrementRate ::
  "memory_store \<Rightarrow> string \<Rightarrow> int \<Rightarrow> int \<Rightarrow> rat option \<Rightarrow> rate_result \<times> memory_store" where
  "incrementRate st tenant now w limit =
     (let (s0, st1) = ensureState st tenant now w;
          st2 = prune st1 now w;
          s1 = (if w \<le> now - windowStart s0 then s0\<lparr>windowStart := now, hits := 0\<rparr> else s0);
          nextHits = hits s1 + 1;
          reset = max 0 (windowStart s1 + w - now)
      in if over limit nextHits
         then (\<lparr>rate_limited = True, rate_hits = hits s1, rate_windowStart = windowStart s1, windowResetMs = reset\<rparr>,
               write_through tenant s1 st2)
         else (\<lparr>rate_limited = False, rate_hits = nextHits, rate_windowStart = windowStart s1, windowResetMs = reset\<rparr>,
               write_through tenant (s1\<lparr>hits := nextHits, windowMs := w\<rparr>) st2))"

definition acquireConcurrent ::
  "int \<Rightarrow> memory_store \<Rightarrow> string \<Rightarrow> int \<Rightarrow> rat option \<Rightarrow> concurrent_result \<times> memory_store" where
  "acquireConcurrent defaultWindowMs st tenant now limit =
     (let (s, st1) = ensureState st tenant now defaultWindowMs;
          st2 = prune st1 now (windowMs s)
      in if reached limit (concurrent s)
         then (\<lparr>concurrent_limited = True, concurrent_now = concurrent s\<rparr>, st2)
         else (\<lparr>concurrent_limited = False, concurrent_now = concurrent s + 1\<rparr>,
               write_through tenant (s\<lparr>concurrent := concurrent s + 1\<rparr>) st2))"

definition releaseConcurrent :: "memory_store \<Rightarrow> string \<Rightarrow> int \<Rightarrow> nat \<times> memory_store" where
  "releaseConcurrent st tenant now =
     (case map_of (states st) tenant of
        None \<Rightarrow> (0, st)
      | Some s \<Rightarrow>
          let s1 = s\<lparr>concurrent := concurrent s - 1\<rparr>;
              st1 = prune (write_through tenant s1 st) now (windowMs s1)
          in if expired now s1
             then (0, st1\<lparr>states := filter (\<lambda>(t, _). t \<noteq> tenant) (states st1)\<rparr>)
             else (concurrent s1, st1))"

section \<open>The throttler\<close>

record quotas =
  maxRequestsPerMinute :: "rat option"
  maxConcurrentRequests :: "rat option"
  overrides :: "(string \<times> rat option \<times> rat option) list"

definition first_of :: "'a option \<Rightarrow> 'a option \<Rightarrow> 'a option" where
  "first_of a b = (case a of None \<Rightarrow> b | Some x \<Rightarrow> Some x)"

definition getLimits :: "quotas option \<Rightarrow> string \<Rightarrow> rat option \<times> rat option" where
  "getLimits config tenant =
     (case config of
        None \<Rightarrow> (None, None)
      | Some cfg \<Rightarrow>
          (case map_of (overrides cfg) tenant of
             None \<Rightarrow> (maxRequestsPerMinute cfg, maxConcurrentRequests cfg)
           | Some (r, c) \<Rightarrow> (first_of r (maxRequestsPerMinute cfg), first_of c (maxConcurrentRequests cfg))))"

definition set_limit :: "rat option \<Rightarrow> bool" where
  "set_limit l \<longleftrightarrow> l \<noteq> None \<and> l \<noteq> Some 0"

text \<open>A store, as the throttler uses it.\<close>

record 's store_ops =
  increment_op :: "'s \<Rightarrow> string \<Rightarrow> int \<Rightarrow> int \<Rightarrow> rat option \<Rightarrow> rate_result \<times> 's"
  acquire_op :: "'s \<Rightarrow> string \<Rightarrow> int \<Rightarrow> rat option \<Rightarrow> concurrent_result \<times> 's"
  release_op :: "'s \<Rightarrow> string \<Rightarrow> int \<Rightarrow> nat \<times> 's"

definition throttle_window :: int where
  "throttle_window = 60000"

datatype check_outcome = NoLimits | Admitted | RateExceeded | ConcurrentExceeded

text \<open>
  \<open>check\<close> awaits the store twice: the rate first, the slot afterwards. Its last call, to
  \<open>incrementActiveTenant\<close>, does nothing for a store without lease refresh, which the in-memory store is;
  what it does for others is in the section on lease refreshers.
\<close>

definition check_rate :: "'s store_ops \<Rightarrow> quotas option \<Rightarrow> 's \<Rightarrow> string \<Rightarrow> int \<Rightarrow> check_outcome option \<times> 's" where
  "check_rate ops config st tenant now =
     (let (rate, conc) = getLimits config tenant
      in if \<not> set_limit rate \<and> \<not> set_limit conc then (Some NoLimits, st)
         else if set_limit rate
         then (let (r, st1) = increment_op ops st tenant now throttle_window rate
               in if rate_limited r then (Some RateExceeded, st1) else (None, st1))
         else (None, st))"

definition check_slot :: "'s store_ops \<Rightarrow> quotas option \<Rightarrow> 's \<Rightarrow> string \<Rightarrow> int \<Rightarrow> check_outcome \<times> 's" where
  "check_slot ops config st tenant now =
     (let (r, st1) = acquire_op ops st tenant now (snd (getLimits config tenant))
      in (if concurrent_limited r then ConcurrentExceeded else Admitted, st1))"

definition check :: "'s store_ops \<Rightarrow> quotas option \<Rightarrow> 's \<Rightarrow> string \<Rightarrow> int \<Rightarrow> int \<Rightarrow> check_outcome \<times> 's" where
  "check ops config st tenant now1 now2 =
     (case check_rate ops config st tenant now1 of
        (Some outcome, st1) \<Rightarrow> (outcome, st1)
      | (None, st1) \<Rightarrow> check_slot ops config st1 tenant now2)"

section \<open>Requests\<close>

text \<open>
  A request waits between the two checks, runs, or has failed a check and is about to release. Both
  the end of the response and a failed check release the tenant, once per request. A response that
  closes while its request waits releases at once; if the request then gets its slot it is
  \<open>Orphaned\<close>: no release of its own will follow.
\<close>

datatype phase = Waiting | Closed | Running | Failed | Orphaned

record 's service =
  store :: 's
  requests :: "(string \<times> phase) list"

fun after_check :: "check_outcome \<Rightarrow> phase" where
  "after_check NoLimits = Running"
| "after_check Admitted = Running"
| "after_check RateExceeded = Failed"
| "after_check ConcurrentExceeded = Failed"

inductive enforce :: "'s store_ops \<Rightarrow> quotas option \<Rightarrow> 's service \<Rightarrow> 's service \<Rightarrow> bool" for ops config where
  arrive: "check_rate ops config (store v) t now = (outcome, st) \<Longrightarrow>
    enforce ops config v
      \<lparr>store = st, requests = (t, case outcome of None \<Rightarrow> Waiting | Some c \<Rightarrow> after_check c) # requests v\<rparr>"
| slot: "(t, Waiting) \<in> set (requests v) \<Longrightarrow> check_slot ops config (store v) t now = (outcome, st) \<Longrightarrow>
    enforce ops config v \<lparr>store = st, requests = (t, after_check outcome) # remove1 (t, Waiting) (requests v)\<rparr>"
| close: "(t, Waiting) \<in> set (requests v) \<Longrightarrow>
    enforce ops config v
      \<lparr>store = snd (release_op ops (store v) t now), requests = (t, Closed) # remove1 (t, Waiting) (requests v)\<rparr>"
| slot_closed: "(t, Closed) \<in> set (requests v) \<Longrightarrow> check_slot ops config (store v) t now = (outcome, st) \<Longrightarrow>
    enforce ops config v
      \<lparr>store = st, requests = (if outcome = Admitted then [(t, Orphaned)] else []) @ remove1 (t, Closed) (requests v)\<rparr>"
| leave: "(t, p) \<in> set (requests v) \<Longrightarrow> p = Running \<or> p = Failed \<Longrightarrow>
    enforce ops config v \<lparr>store = snd (release_op ops (store v) t now), requests = remove1 (t, p) (requests v)\<rparr>"

inductive reachable :: "'s store_ops \<Rightarrow> quotas option \<Rightarrow> 's \<Rightarrow> 's service \<Rightarrow> bool" for ops config init where
  start: "reachable ops config init \<lparr>store = init, requests = []\<rparr>"
| step: "reachable ops config init v \<Longrightarrow> enforce ops config v v' \<Longrightarrow> reachable ops config init v'"

definition running :: "'s service \<Rightarrow> string \<Rightarrow> nat" where
  "running v t = count_list (requests v) (t, Running) + count_list (requests v) (t, Orphaned)"

lemma count_remove1: "count_list (remove1 (t, p) rs) (u, q) = count_list rs (u, q) - (if u = t \<and> q = p then 1 else 0)"
  by (induction rs) auto

section \<open>What a store promises\<close>

text \<open>
  The slots a store counts for a tenant: an admission takes at most one, a release gives one back if
  there is one, and nothing else takes any. A tenant without slots is admitted when its limit
  allows a request at all.
\<close>

locale throttle_store =
  fixes ops :: "'s store_ops" and slots :: "'s \<Rightarrow> string \<Rightarrow> nat" and ok :: "'s \<Rightarrow> bool"
  assumes increment_ok: "ok st \<Longrightarrow> increment_op ops st t now w l = (r, st') \<Longrightarrow> ok st' \<and> slots st' u \<le> slots st u"
    and acquire_ok: "ok st \<Longrightarrow> acquire_op ops st t now l = (c, st') \<Longrightarrow>
      ok st' \<and> slots st' u \<le> slots st u + (if u = t \<and> \<not> concurrent_limited c then 1 else 0)"
    and release_ok: "ok st \<Longrightarrow> release_op ops st t now = (n, st') \<Longrightarrow>
      ok st' \<and> slots st' u \<le> slots st u - (if u = t then 1 else 0)"
    and acquire_free: "ok st \<Longrightarrow> acquire_op ops st t now l = (c, st') \<Longrightarrow> slots st t = 0 \<Longrightarrow> l = None \<or> l = Some b \<Longrightarrow> 1 \<le> b \<Longrightarrow>
      \<not> concurrent_limited c"
begin

lemma rate_keeps:
  "ok st \<Longrightarrow> check_rate ops config st t now = (outcome, st') \<Longrightarrow> ok st' \<and> slots st' u \<le> slots st u"
  by (auto simp: check_rate_def Let_def split: prod.splits if_splits dest: increment_ok)

text \<open>The store never counts more slots than requests run.\<close>

lemma slots_running:
  "reachable ops config init v \<Longrightarrow> ok init \<Longrightarrow> (\<And>u. slots init u = 0) \<Longrightarrow> ok (store v) \<and> slots (store v) u \<le> running v u"
proof (induction arbitrary: u rule: reachable.induct)
  case start
  then show ?case by simp
next
  case (step v v')
  have before: "ok (store v)" "slots (store v) u \<le> running v u" using step.IH step.prems by blast+
  from step.hyps(2) show ?case
  proof cases
    case (arrive t now outcome st)
    have "running v u \<le> running v' u" by (simp add: running_def arrive(1))
    moreover have "ok st \<and> slots st u \<le> slots (store v) u" by (rule rate_keeps [OF before(1) arrive(2)])
    ultimately show ?thesis using before(2) by (simp add: arrive(1))
  next
    case (slot t now outcome st)
    obtain c where c: "acquire_op ops (store v) t now (snd (getLimits config t)) = (c, st)"
      "outcome = (if concurrent_limited c then ConcurrentExceeded else Admitted)"
      using slot(3) by (auto simp: check_slot_def Let_def split: prod.splits)
    have "running v' u = running v u + (if u = t \<and> \<not> concurrent_limited c then 1 else 0)"
      by (auto simp: running_def slot(1) c(2) count_remove1)
    moreover have "ok st \<and> slots st u \<le> slots (store v) u + (if u = t \<and> \<not> concurrent_limited c then 1 else 0)"
      by (rule acquire_ok [OF before(1) c(1)])
    ultimately show ?thesis using before(2) by (simp add: slot(1))
  next
    case (close t now)
    have "running v' u = running v u" by (simp add: running_def close(1) count_remove1)
    moreover obtain n st where rel: "release_op ops (store v) t now = (n, st)" by fastforce
    moreover have "ok st \<and> slots st u \<le> slots (store v) u - (if u = t then 1 else 0)"
      by (rule release_ok [OF before(1) rel])
    ultimately show ?thesis using before(2) by (simp add: close(1) split: if_splits) linarith
  next
    case (slot_closed t now outcome st)
    obtain c where c: "acquire_op ops (store v) t now (snd (getLimits config t)) = (c, st)"
      "outcome = (if concurrent_limited c then ConcurrentExceeded else Admitted)"
      using slot_closed(3) by (auto simp: check_slot_def Let_def split: prod.splits)
    have "running v' u = running v u + (if u = t \<and> \<not> concurrent_limited c then 1 else 0)"
      by (auto simp: running_def slot_closed(1) c(2) count_remove1)
    moreover have "ok st \<and> slots st u \<le> slots (store v) u + (if u = t \<and> \<not> concurrent_limited c then 1 else 0)"
      by (rule acquire_ok [OF before(1) c(1)])
    ultimately show ?thesis using before(2) by (simp add: slot_closed(1))
  next
    case (leave t p now)
    have "running v u - (if u = t then 1 else 0) \<le> running v' u"
      using leave(3) by (auto simp: running_def leave(1) count_remove1)
    moreover obtain n st where rel: "release_op ops (store v) t now = (n, st)" by fastforce
    moreover have "ok st \<and> slots st u \<le> slots (store v) u - (if u = t then 1 else 0)"
      by (rule release_ok [OF before(1) rel])
    ultimately show ?thesis using before(2) by (simp add: leave(1) split: if_splits)
  qed
qed

text \<open>So a tenant none of whose requests runs is not refused for its concurrency.\<close>

lemma idle_admitted:
  assumes "reachable ops config init v" "ok init" "\<And>u. slots init u = 0"
    and "running v t = 0" "snd (getLimits config t) = Some b" "1 \<le> b"
    and "check_slot ops config (store v) t now = (outcome, st)"
  shows "outcome = Admitted"
proof -
  have "ok (store v)" "slots (store v) t = 0" using slots_running [OF assms(1,2), of t] assms(3,4) by auto
  with assms(5,6,7) acquire_free show ?thesis by (fastforce simp: check_slot_def Let_def split: prod.splits if_splits)
qed

end

section \<open>The store in memory keeps the promise\<close>

definition memory_ops :: "int \<Rightarrow> memory_store store_ops" where
  "memory_ops d = \<lparr>increment_op = incrementRate, acquire_op = acquireConcurrent d, release_op = releaseConcurrent\<rparr>"

definition recorded :: "memory_store \<Rightarrow> string \<Rightarrow> nat" where
  "recorded st t = (case map_of (states st) t of None \<Rightarrow> 0 | Some s \<Rightarrow> concurrent s)"

definition tenants_ok :: "memory_store \<Rightarrow> bool" where
  "tenants_ok st \<longleftrightarrow> distinct (map fst (states st))"

lemma map_of_filter: "distinct (map fst xs) \<Longrightarrow>
  map_of (filter (\<lambda>(t, s). P t s) xs) t = (case map_of xs t of None \<Rightarrow> None | Some s \<Rightarrow> if P t s then Some s else None)"
  by (induction xs) (auto split: option.splits dest: map_of_SomeD simp: image_iff)

lemma distinct_filter_fst: "distinct (map fst xs) \<Longrightarrow> distinct (map fst (filter P xs))"
  by (simp add: distinct_map_filter)

lemma ensure_facts:
  assumes "ensureState st t now w = (s, st')"
  shows "tenants_ok st \<Longrightarrow> tenants_ok st'" "recorded st' u = recorded st u" "map_of (states st') t = Some s"
    "concurrent s = recorded st t" "lastCleanup st' = lastCleanup st"
proof -
  have "(tenants_ok st \<longrightarrow> tenants_ok st') \<and> recorded st' u = recorded st u \<and> map_of (states st') t = Some s
    \<and> concurrent s = recorded st t \<and> lastCleanup st' = lastCleanup st"
  proof (cases "map_of (states st) t")
    case None
    have "t \<notin> fst ` set (states st)" using None by (simp add: map_of_eq_None_iff)
    with assms None show ?thesis
      by (cases "u = t") (auto simp: ensureState_def Let_def tenants_ok_def recorded_def map_add_def split: option.split)
  next
    case (Some c)
    with assms show ?thesis by (auto simp: ensureState_def recorded_def)
  qed
  then show "tenants_ok st \<Longrightarrow> tenants_ok st'" "recorded st' u = recorded st u" "map_of (states st') t = Some s"
    "concurrent s = recorded st t" "lastCleanup st' = lastCleanup st" by blast+
qed

lemma prune_facts:
  assumes "tenants_ok st"
  shows "tenants_ok (prune st now w)" "recorded (prune st now w) u = recorded st u"
  using assms distinct_filter_fst [of "states st"] map_of_filter [of "states st" "\<lambda>t s. \<not> expired now s" u]
  by (auto simp: prune_def tenants_ok_def recorded_def expired_def split: option.splits)

lemma write_facts:
  assumes "tenants_ok st"
  shows "tenants_ok (write_through t s st)"
    "recorded (write_through t s st) u = (if u = t \<and> map_of (states st) t \<noteq> None then concurrent s else recorded st u)"
  using assms by (auto simp: write_through_def tenants_ok_def recorded_def distinct_obj_set)

lemma write_same: "tenants_ok st \<Longrightarrow> concurrent s = recorded st t \<Longrightarrow> recorded (write_through t s st) u = recorded st u"
  by (simp add: write_facts)

lemma increment_keeps:
  assumes "tenants_ok st" "incrementRate st t now w l = (r, st')"
  shows "tenants_ok st' \<and> recorded st' u = recorded st u"
proof -
  obtain s st1 where e: "ensureState st t now w = (s, st1)" by fastforce
  let ?s = "if w \<le> now - windowStart s then s\<lparr>windowStart := now, hits := 0\<rparr> else s"
  note f = ensure_facts [OF e]
  have p: "tenants_ok (prune st1 now w)" "\<And>u. recorded (prune st1 now w) u = recorded st u"
    using prune_facts f(1,2) assms(1) by auto
  have c: "concurrent ?s = recorded (prune st1 now w) t" using f(4) p(2) by simp
  from assms(2) consider "st' = write_through t ?s (prune st1 now w)"
    | "st' = write_through t (?s\<lparr>hits := hits ?s + 1, windowMs := w\<rparr>) (prune st1 now w)"
    unfolding incrementRate_def e by (simp only: Let_def prod.case split: if_splits) auto
  then show ?thesis
    using p c write_facts(1) [OF p(1)] write_same [OF p(1)] by cases simp_all
qed

lemma acquire_keeps:
  assumes "tenants_ok st" "acquireConcurrent d st t now l = (c, st')"
  shows "tenants_ok st' \<and> recorded st' u \<le> recorded st u + (if u = t \<and> \<not> concurrent_limited c then 1 else 0)
    \<and> (concurrent_limited c \<longrightarrow> reached l (recorded st t))"
proof -
  obtain s st1 where e: "ensureState st t now d = (s, st1)" by fastforce
  note f = ensure_facts [OF e]
  let ?st2 = "prune st1 now (windowMs s)"
  have p: "tenants_ok ?st2" "\<And>u. recorded ?st2 u = recorded st u"
    using prune_facts f(1,2) assms(1) by auto
  show ?thesis
  proof (cases "reached l (concurrent s)")
    case True
    with assms(2) have "c = \<lparr>concurrent_limited = True, concurrent_now = concurrent s\<rparr>" "st' = ?st2"
      by (simp_all add: acquireConcurrent_def e Let_def)
    with p True f(4) show ?thesis by simp
  next
    case False
    with assms(2) have c: "c = \<lparr>concurrent_limited = False, concurrent_now = concurrent s + 1\<rparr>"
      "st' = write_through t (s\<lparr>concurrent := concurrent s + 1\<rparr>) ?st2"
      by (simp_all add: acquireConcurrent_def e Let_def)
    with write_facts [OF p(1)] p f(4) show ?thesis by simp
  qed
qed

lemma release_keeps:
  assumes "tenants_ok st" "releaseConcurrent st t now = (n, st')"
  shows "tenants_ok st' \<and> recorded st' u = recorded st u - (if u = t then 1 else 0)"
proof (cases "map_of (states st) t")
  case None
  with assms show ?thesis by (auto simp: releaseConcurrent_def recorded_def)
next
  case (Some s)
  let ?s = "s\<lparr>concurrent := concurrent s - 1\<rparr>"
  let ?st = "prune (write_through t ?s st) now (windowMs ?s)"
  have w: "tenants_ok (write_through t ?s st)" using write_facts(1) assms(1) by blast
  have p: "tenants_ok ?st" "\<And>u. recorded ?st u = recorded st u - (if u = t then 1 else 0)"
    using prune_facts [OF w] write_facts(2) [OF assms(1), of t ?s] Some by (auto simp: recorded_def)
  show ?thesis
  proof (cases "expired now ?s")
    case True
    then have "concurrent s - 1 = 0" by (simp add: expired_def)
    then have z: "recorded st t - 1 = 0" using Some by (simp add: recorded_def)
    have st': "st' = ?st\<lparr>states := filter (\<lambda>(t', _). t' \<noteq> t) (states ?st)\<rparr>"
      using assms(2) Some True by (simp add: releaseConcurrent_def Let_def)
    have d: "distinct (map fst (states ?st))" using p(1) by (simp add: tenants_ok_def)
    have "recorded st' u = (if u = t then 0 else recorded ?st u)"
      using map_of_filter [OF d, of "\<lambda>t' _. t' \<noteq> t" u] unfolding st' by (auto simp: recorded_def split: option.splits)
    moreover have "tenants_ok st'" using distinct_filter_fst [OF d] unfolding st' by (simp add: tenants_ok_def)
    ultimately show ?thesis using p(2) z by simp
  next
    case False
    then have "snd (releaseConcurrent st t now) = ?st" by (simp add: releaseConcurrent_def Let_def Some)
    then have "st' = ?st" using assms(2) by simp
    with p show ?thesis by simp
  qed
qed

interpretation memory: throttle_store "memory_ops d" recorded tenants_ok
proof (unfold_locales, goal_cases)
  case (1 st t now w l r st' u)
  then show ?case using increment_keeps [of st t now w l r st' u] by (simp add: memory_ops_def)
next
  case (2 st t now l c st' u)
  then show ?case using acquire_keeps [of st d t now l c st' u] by (simp add: memory_ops_def)
next
  case (3 st t now n st' u)
  then show ?case using release_keeps [of st t now n st' u] by (simp add: memory_ops_def)
next
  case (4 st t now l c st' b)
  then show ?case using acquire_keeps [of st d t now l c st' t] by (auto simp: memory_ops_def reached_def)
qed

lemma new_store_facts: "tenants_ok new_store" "recorded new_store t = 0"
  by (simp_all add: tenants_ok_def recorded_def new_store_def)

section \<open>The rate inside a window\<close>

text \<open>The requests of a tenant at the given times; whether each of them is limited.\<close>

fun rate_run :: "memory_store \<Rightarrow> string \<Rightarrow> int \<Rightarrow> rat option \<Rightarrow> int list \<Rightarrow> bool list \<times> memory_store" where
  "rate_run st t w l [] = ([], st)"
| "rate_run st t w l (now # ts) =
     (let (r, st1) = incrementRate st t now w l; (rs, st2) = rate_run st1 t w l ts
      in (rate_limited r # rs, st2))"

lemma prune_lookup:
  assumes "tenants_ok st" "map_of (states st) t = Some s" "\<not> expired now s"
  shows "map_of (states (prune st now w)) t = Some s"
  using assms map_of_filter [of "states st" "\<lambda>t s. \<not> expired now s" t] by (simp add: prune_def tenants_ok_def)

lemma increment_in_window:
  assumes "tenants_ok st" "map_of (states st) t = Some s" "windowMs s = w" "now - windowStart s < w" "0 < l"
  shows "incrementRate st t now w (Some l) = (r, st') \<Longrightarrow>
    rate_limited r = (l < of_nat (hits s + 1)) \<and> tenants_ok st' \<and>
    map_of (states st') t = Some (s\<lparr>hits := (if l < of_nat (hits s + 1) then hits s else hits s + 1)\<rparr>)"
proof -
  assume i: "incrementRate st t now w (Some l) = (r, st')"
  have p: "map_of (states (prune st now w)) t = Some s"
    using assms by (intro prune_lookup) (auto simp: expired_def)
  have "tenants_ok st'" using increment_keeps [OF assms(1) i] by blast
  moreover have "ensureState st t now w = (s, st)" using assms(2) by (simp add: ensureState_def)
  ultimately show ?thesis
    using i assms p by (auto simp: incrementRate_def over_def write_through_def Let_def split: if_splits)
qed

lemma rate_run_window:
  assumes "tenants_ok st" "map_of (states st) t = Some s" "windowMs s = w" "0 < l"
    and "\<forall>now\<in>set ts. now - windowStart s < w" "of_nat (hits s) \<le> l"
  shows "fst (rate_run st t w (Some l) ts) = map (\<lambda>i. l < of_nat (hits s + i + 1)) [0..<length ts]"
  using assms
proof (induction ts arbitrary: st s)
  case (Cons now ts)
  obtain r st1 where i: "incrementRate st t now w (Some l) = (r, st1)" by fastforce
  let ?s = "s\<lparr>hits := (if l < of_nat (hits s + 1) then hits s else hits s + 1)\<rparr>"
  have n: "rate_limited r = (l < of_nat (hits s + 1))" "tenants_ok st1" "map_of (states st1) t = Some ?s"
    using increment_in_window [OF Cons.prems(1-3) _ Cons.prems(4) i] Cons.prems(5) by auto
  have rest: "fst (rate_run st1 t w (Some l) ts) = map (\<lambda>i. l < of_nat (hits ?s + i + 1)) [0..<length ts]"
    using Cons.prems by (intro Cons.IH n) auto
  have "l < of_nat (hits ?s + i + 1) \<longleftrightarrow> l < of_nat (hits s + Suc i + 1)" for i
  proof (cases "l < of_nat (hits s + 1)")
    case True
    have "(of_nat (hits s + 1) :: rat) \<le> of_nat (hits s + i + 1)" "(of_nat (hits s + 1) :: rat) \<le> of_nat (hits s + Suc i + 1)"
      by simp_all
    with True show ?thesis by auto
  qed simp
  then have "fst (rate_run st t w (Some l) (now # ts)) = (l < of_nat (hits s + 0 + 1)) # map (\<lambda>i. l < of_nat (hits s + Suc i + 1)) [0..<length ts]"
    using i n(1) rest by (simp add: prod.case_eq_if)
  then show ?case by (simp only: length_Cons upt_conv_Cons [of 0 "Suc (length ts)"] list.map map_Suc_upt [symmetric] map_map comp_def zero_less_Suc)
qed simp

lemma fresh_window:
  assumes "tenants_ok st" "map_of (states st) t = None" "0 < w" "1 \<le> l" "\<forall>now\<in>set ts. now - t0 < w"
  shows "fst (rate_run st t w (Some l) (t0 # ts)) = map (\<lambda>i. l < of_nat (i + 1)) [0..<Suc (length ts)]"
proof -
  let ?s = "\<lparr>windowStart = t0, windowMs = w, hits = 0, concurrent = 0\<rparr>"
  obtain s0 st0 where e: "ensureState st t t0 w = (s0, st0)" by fastforce
  then have s0: "s0 = ?s" using assms(2) by (auto simp: ensureState_def Let_def)
  note f = ensure_facts [OF e]
  have same: "rate_run st t w (Some l) (t0 # ts) = rate_run st0 t w (Some l) (t0 # ts)"
  proof -
    have "ensureState st0 t t0 w = (s0, st0)" using f(3) by (simp add: ensureState_def)
    then have "incrementRate st t t0 w (Some l) = incrementRate st0 t t0 w (Some l)"
      unfolding incrementRate_def e by simp
    then show ?thesis by simp
  qed
  have "fst (rate_run st0 t w (Some l) (t0 # ts)) = map (\<lambda>i. l < of_nat (hits ?s + i + 1)) [0..<length (t0 # ts)]"
    by (rule rate_run_window) (use f(1,3) s0 assms in auto)
  with same show ?thesis by simp
qed

section \<open>Where the limits fail\<close>

text \<open>\<open>now\<close> in milliseconds from an arbitrary origin.\<close>

definition one_slot :: "quotas option" where
  "one_slot = Some \<lparr>maxRequestsPerMinute = None, maxConcurrentRequests = Some 1, overrides = []\<rparr>"

definition one_taken :: memory_store where
  "one_taken = \<lparr>states = [(''a'', \<lparr>windowStart = 0, windowMs = 60000, hits = 0, concurrent = 1\<rparr>)], lastCleanup = 0\<rparr>"

definition none_taken :: memory_store where
  "none_taken = \<lparr>states = [(''a'', \<lparr>windowStart = 0, windowMs = 60000, hits = 0, concurrent = 0\<rparr>)], lastCleanup = 0\<rparr>"

abbreviation memory60 :: "memory_store store_ops" where
  "memory60 \<equiv> memory_ops 60000"

lemmas store_eval = memory_ops_def check_rate_def check_slot_def getLimits_def one_slot_def set_limit_def
  acquireConcurrent_def releaseConcurrent_def ensureState_def prune_def write_through_def reached_def expired_def

lemma one_slot_steps:
  "check_rate memory60 one_slot st ''a'' 0 = (None, st)"
  "check_slot memory60 one_slot new_store ''a'' 0 = (Admitted, one_taken)"
  "check_slot memory60 one_slot none_taken ''a'' 0 = (Admitted, one_taken)"
  "check_slot memory60 one_slot one_taken ''a'' 0 = (ConcurrentExceeded, one_taken)"
  "snd (release_op memory60 one_taken ''a'' 0) = none_taken"
  by (simp_all add: store_eval one_taken_def none_taken_def new_store_def Let_def)

lemma request_admitted:
  assumes "reachable memory60 one_slot new_store \<lparr>store = st, requests = rs\<rparr>"
    and "check_slot memory60 one_slot st ''a'' 0 = (outcome, st')"
  shows "reachable memory60 one_slot new_store \<lparr>store = st', requests = (''a'', after_check outcome) # rs\<rparr>"
proof -
  have "enforce memory60 one_slot \<lparr>store = st, requests = rs\<rparr> \<lparr>store = st, requests = (''a'', Waiting) # rs\<rparr>"
    using enforce.arrive [of memory60 one_slot "\<lparr>store = st, requests = rs\<rparr>" "''a''" 0 None st] one_slot_steps(1) by simp
  with assms(1) have r: "reachable memory60 one_slot new_store \<lparr>store = st, requests = (''a'', Waiting) # rs\<rparr>"
    by (rule reachable.step)
  have "enforce memory60 one_slot \<lparr>store = st, requests = (''a'', Waiting) # rs\<rparr>
      \<lparr>store = st', requests = (''a'', after_check outcome) # rs\<rparr>"
    using enforce.slot [of "''a''" "\<lparr>store = st, requests = (''a'', Waiting) # rs\<rparr>" memory60 one_slot 0 outcome st'] assms(2)
    by simp
  with r show ?thesis by (rule reachable.step)
qed

lemma any_number_runs:
  "\<exists>rs. reachable memory60 one_slot new_store \<lparr>store = one_taken, requests = rs\<rparr> \<and> count_list rs (''a'', Running) = Suc n"
proof (induction n)
  case 0
  have "reachable memory60 one_slot new_store \<lparr>store = one_taken, requests = [(''a'', Running)]\<rparr>"
    using request_admitted [OF reachable.start one_slot_steps(2)] by simp
  then show ?case by force
next
  case (Suc n)
  then obtain rs where rs: "reachable memory60 one_slot new_store \<lparr>store = one_taken, requests = rs\<rparr>"
    "count_list rs (''a'', Running) = Suc n" by blast
  have failed: "reachable memory60 one_slot new_store \<lparr>store = one_taken, requests = (''a'', Failed) # rs\<rparr>"
    using request_admitted [OF rs(1) one_slot_steps(4)] by simp
  have "enforce memory60 one_slot \<lparr>store = one_taken, requests = (''a'', Failed) # rs\<rparr> \<lparr>store = none_taken, requests = rs\<rparr>"
    using enforce.leave [of "''a''" Failed "\<lparr>store = one_taken, requests = (''a'', Failed) # rs\<rparr>" memory60 one_slot 0]
      one_slot_steps(5) by simp
  with failed have "reachable memory60 one_slot new_store \<lparr>store = none_taken, requests = rs\<rparr>" by (rule reachable.step)
  from request_admitted [OF this one_slot_steps(3)] rs(2) show ?case by force
qed

text \<open>
  \<open>prune\<close> runs after the state is read and before the window is opened anew: it drops the state the
  operation holds, so the first request after an idle window is not counted, and a slot taken then
  is not recorded.
\<close>

lemma window_opener_lost:
  "fst (rate_run new_store ''a'' 60000 (Some 1) [60000, 120000, 120001]) = [False, False, False]"
  by (simp add: incrementRate_def ensureState_def prune_def expired_def write_through_def over_def new_store_def Let_def)

lemma slot_lost:
  "fst (acquireConcurrent 60000 \<lparr>states = [(''a'', \<lparr>windowStart = 0, windowMs = 60000, hits = 1, concurrent = 0\<rparr>)],
     lastCleanup = 0\<rparr> ''a'' 60000 (Some 1)) = \<lparr>concurrent_limited = False, concurrent_now = 1\<rparr>
   \<and> states (snd (acquireConcurrent 60000 \<lparr>states = [(''a'', \<lparr>windowStart = 0, windowMs = 60000, hits = 1, concurrent = 0\<rparr>)],
     lastCleanup = 0\<rparr> ''a'' 60000 (Some 1))) = []"
  by (simp add: acquireConcurrent_def ensureState_def prune_def expired_def write_through_def reached_def Let_def)

section \<open>Lease refreshers\<close>

text \<open>
  With a store whose slots are leases the throttler keeps one timer per tenant with running
  requests, and no more timers than \<open>leaseTimerLimit\<close>. An entry of \<open>active\<close> is the number of
  requests of its tenant; every entry has its timer, since the store refreshes.
\<close>

record leases =
  active :: "(string \<times> nat) list"
  timers :: nat

definition resolveLeaseTimerLimit :: "rat option \<Rightarrow> rat" where
  "resolveLeaseTimerLimit configured =
     (case configured of Some l \<Rightarrow> if 0 < l then l else 1000 | None \<Rightarrow> 1000)"

definition incrementActiveTenant :: "rat \<Rightarrow> string \<Rightarrow> leases \<Rightarrow> leases option" where
  "incrementActiveTenant bound tenant ls =
     (case map_of (active ls) tenant of
        Some n \<Rightarrow> Some (ls\<lparr>active := obj_set tenant (n + 1) (active ls)\<rparr>)
      | None \<Rightarrow>
          if bound \<le> of_nat (timers ls) then None
          else Some (ls\<lparr>active := obj_set tenant 1 (active ls), timers := timers ls + 1\<rparr>))"

definition decrementActiveTenant :: "string \<Rightarrow> leases \<Rightarrow> leases" where
  "decrementActiveTenant tenant ls =
     (case map_of (active ls) tenant of
        None \<Rightarrow> ls
      | Some n \<Rightarrow>
          if n - 1 = 0
          then ls\<lparr>active := filter (\<lambda>(t, _). t \<noteq> tenant) (active ls), timers := timers ls - 1\<rparr>
          else ls\<lparr>active := obj_set tenant (n - 1) (active ls)\<rparr>)"

definition getLeaseRefreshInterval :: "int option \<Rightarrow> int" where
  "getLeaseRefreshInterval ttl =
     (let base = (case ttl of Some t \<Rightarrow> if 0 < t then t else 120000 | None \<Rightarrow> 120000)
      in max 5000 (min (base div 2) (base - 1000)))"

text \<open>\<open>Take\<close> is a check that reaches \<open>incrementActiveTenant\<close>, \<open>Give\<close> a release.\<close>

datatype lease_event = Take string | Give string

fun lease_step :: "rat \<Rightarrow> lease_event \<Rightarrow> leases \<Rightarrow> leases" where
  "lease_step bound (Take t) ls = (case incrementActiveTenant bound t ls of None \<Rightarrow> ls | Some ls' \<Rightarrow> ls')"
| "lease_step bound (Give t) ls = decrementActiveTenant t ls"

definition leases_ok :: "rat \<Rightarrow> leases \<Rightarrow> bool" where
  "leases_ok bound ls \<longleftrightarrow> distinct (map fst (active ls)) \<and> timers ls = length (active ls)
     \<and> list_all (\<lambda>(_, n). 0 < n) (active ls) \<and> of_nat (timers ls) < bound + 1"

lemma length_obj_set: "length (obj_set k v xs) = length xs + (if map_of xs k = None then 1 else 0)"
  by (induction xs) auto

lemma length_without:
  "distinct (map fst xs) \<Longrightarrow> map_of xs k = Some v \<Longrightarrow> length (filter (\<lambda>(t, _). t \<noteq> k) xs) = length xs - 1"
proof (induction xs)
  case (Cons x xs)
  obtain t u where x: "x = (t, u)" by fastforce
  show ?case
  proof (cases "t = k")
    case True
    then have "filter (\<lambda>(t, _). t \<noteq> k) xs = xs" using Cons.prems(1) x by (intro filter_True) (auto simp: image_iff)
    with True x show ?thesis by simp
  next
    case False
    with Cons x have "length (filter (\<lambda>(t, _). t \<noteq> k) xs) = length xs - 1" "xs \<noteq> []" by auto
    with False x show ?thesis by (cases xs) auto
  qed
qed simp

lemma positive_obj_set:
  "list_all (\<lambda>(_, n). 0 < n) xs \<Longrightarrow> 0 < (v::nat) \<Longrightarrow> list_all (\<lambda>(_, n). 0 < n) (obj_set k v xs)"
  by (induction xs) auto

lemma lease_step_keeps:
  assumes "leases_ok bound ls"
  shows "leases_ok bound (lease_step bound x ls)"
proof (cases x)
  case (Take t)
  with assms show ?thesis
    by (auto simp: leases_ok_def incrementActiveTenant_def distinct_obj_set length_obj_set positive_obj_set
        split: option.splits)
next
  case (Give t)
  show ?thesis
  proof (cases "map_of (active ls) t")
    case None
    with assms Give show ?thesis by (simp add: decrementActiveTenant_def)
  next
    case (Some n)
    have "length (active ls) \<noteq> 0" using Some by (cases "active ls") auto
    have "length (filter (\<lambda>(u, _). u \<noteq> t) (active ls)) = length (active ls) - 1"
      using assms Some by (intro length_without) (auto simp: leases_ok_def)
    moreover have "list_all (\<lambda>(_, n). 0 < n) (filter (\<lambda>(u, _). u \<noteq> t) (active ls))"
      using assms by (auto simp: leases_ok_def list_all_iff)
    moreover have "of_nat (length (active ls) - 1) \<le> (of_nat (length (active ls)) :: rat)" by simp
    ultimately show ?thesis using assms Some Give
      by (auto simp: leases_ok_def decrementActiveTenant_def distinct_filter_fst distinct_obj_set length_obj_set
          positive_obj_set)
  qed
qed

lemma leases_bounded:
  assumes "0 < bound"
  shows "leases_ok bound (fold (lease_step bound) xs \<lparr>active = [], timers = 0\<rparr>)"
proof -
  have "leases_ok bound ls \<Longrightarrow> leases_ok bound (fold (lease_step bound) xs ls)" for ls
    by (induction xs arbitrary: ls) (simp_all add: lease_step_keeps)
  moreover have "leases_ok bound \<lparr>active = [], timers = 0\<rparr>" using assms by (simp add: leases_ok_def)
  ultimately show ?thesis by blast
qed

lemma resolved_positive: "0 < resolveLeaseTimerLimit c"
  by (auto simp: resolveLeaseTimerLimit_def split: option.split)

text \<open>The timer fires while the lease lasts only for leases longer than five seconds.\<close>

lemma refresh_in_time: "0 < t \<Longrightarrow> getLeaseRefreshInterval (Some t) < t \<longleftrightarrow> 5000 < t"
  by (auto simp: getLeaseRefreshInterval_def Let_def)

end
