(* ===== verification/SqlText.thy ===== *)
theory SqlText
  imports WhereBuilder
begin

text \<open>
  The SQL texts the push-down builders put together: quoted identifiers, placeholders, and a
  reader of such texts that follows the quotes and returns the numbers of the placeholders. A text
  the reader accepts has every quote closed, no character outside quotes that could end the
  statement or start a comment, and parameters only where its placeholders are. The lemmas let
  the reader through the pieces the builders join.
\<close>

section \<open>Attempts\<close>

text \<open>
  A builder returns \<open>undefined\<close> for what it does not translate, and its callers then give up as
  well; or it throws.
\<close>

datatype push_error = Undefined | Thrown odata_error

type_synonym 'a push = "push_error + 'a"

fun pbind :: "'a push \<Rightarrow> ('a \<Rightarrow> 'b push) \<Rightarrow> 'b push" where
  "pbind (Inl e) f = Inl e"
| "pbind (Inr x) f = f x"

lemma pbind_cong [fundef_cong]:
  "m = m' \<Longrightarrow> (\<And>x. m' = Inr x \<Longrightarrow> f x = g x) \<Longrightarrow> pbind m f = pbind m' g"
  by (cases m') auto

lemma pbind_eq_Inr [simp]: "pbind m f = Inr y \<longleftrightarrow> (\<exists>x. m = Inr x \<and> f x = Inr y)"
  by (cases m) auto

section \<open>Reading SQL\<close>

text \<open>The reader is outside quotes, in a quoted identifier, in a string literal or in a placeholder.\<close>

datatype sql_mode = Outside | InName | InLiteral | InNumber nat

definition dquote :: char where
  "dquote = CHR 34"

definition safe_char :: "char \<Rightarrow> bool" where
  "safe_char c \<longleftrightarrow> ident_char c \<or> c \<in> set '' (),.=<>:*''"

fun sql_scan :: "sql_mode \<Rightarrow> string \<Rightarrow> nat list option" where
  "sql_scan Outside [] = Some []"
| "sql_scan (InNumber n) [] = Some [n]"
| "sql_scan InName [] = None"
| "sql_scan InLiteral [] = None"
| "sql_scan InName (c # cs) = (if c = dquote then sql_scan Outside cs else sql_scan InName cs)"
| "sql_scan InLiteral (c # cs) = (if c = quote then sql_scan Outside cs else sql_scan InLiteral cs)"
| "sql_scan Outside (c # cs) =
     (if c = dquote then sql_scan InName cs
      else if c = quote then sql_scan InLiteral cs
      else if c = CHR ''$'' then sql_scan (InNumber 0) cs
      else if safe_char c then sql_scan Outside cs else None)"
| "sql_scan (InNumber n) (c # cs) =
     (if is_digit c then sql_scan (InNumber (10 * n + (code c - 48))) cs
      else map_option (Cons n)
        (if c = dquote then sql_scan InName cs
         else if c = quote then sql_scan InLiteral cs
         else if c = CHR ''$'' then sql_scan (InNumber 0) cs
         else if safe_char c then sql_scan Outside cs else None))"

lemma number_end: "s = [] \<or> \<not> is_digit (hd s) \<Longrightarrow> sql_scan (InNumber n) s = map_option (Cons n) (sql_scan Outside s)"
  by (cases s) auto

lemma sql_scan_append:
  "sql_scan m s = Some ns \<Longrightarrow> sql_scan Outside t = Some ks \<Longrightarrow> t = [] \<or> \<not> is_digit (hd t) \<Longrightarrow>
     sql_scan m (s @ t) = Some (ns @ ks)"
proof (induction m s arbitrary: ns rule: sql_scan.induct)
  case (2 n)
  then show ?case by (simp add: number_end)
qed (auto split: if_splits)

text \<open>
  A piece that can follow any other: the reader gets through it and finds the placeholders \<open>ns\<close>, and it
  does not go on with the number of a placeholder before it.
\<close>

definition sql_piece :: "string \<Rightarrow> nat list \<Rightarrow> bool" where
  "sql_piece s ns \<longleftrightarrow> sql_scan Outside s = Some ns \<and> (s = [] \<or> \<not> is_digit (hd s))"

named_theorems pieces \<open>the pieces of SQL texts\<close>

lemma piece_Nil [pieces]: "sql_piece [] []"
  by (simp add: sql_piece_def)

lemma piece_append: "sql_piece s ns \<Longrightarrow> sql_piece t ks \<Longrightarrow> sql_piece (s @ t) (ns @ ks)"
  by (auto simp: sql_piece_def hd_append intro: sql_scan_append)

lemma piece_around: "sql_piece s ns \<Longrightarrow> sql_piece a [] \<Longrightarrow> sql_piece b [] \<Longrightarrow> sql_piece (a @ s @ b) ns"
  using piece_append [of a "[]" "s @ b" ns] piece_append [of s ns b "[]"] by simp

lemma piece_before: "sql_piece s ns \<Longrightarrow> sql_piece a [] \<Longrightarrow> sql_piece (a @ s) ns"
  using piece_append [of a "[]" s ns] by simp

lemma piece_after: "sql_piece s ns \<Longrightarrow> sql_piece b [] \<Longrightarrow> sql_piece (s @ b) ns"
  using piece_append [of s ns b "[]"] by simp

section \<open>Identifiers\<close>

definition quoteIdentifier :: "string \<Rightarrow> string" where
  "quoteIdentifier identifier = [dquote] @ replace_char dquote [dquote, dquote] identifier @ [dquote]"

lemma scan_quoted: "sql_scan InName (replace_char dquote [dquote, dquote] s @ dquote # t) = sql_scan Outside t"
proof (induction s)
  case Nil
  then show ?case by simp
next
  case (Cons c s)
  then show ?case by (cases "c = dquote") (simp_all add: replace_char_Cons)
qed

lemma piece_identifier [pieces]: "sql_piece (quoteIdentifier s) []"
  by (simp add: sql_piece_def quoteIdentifier_def scan_quoted) (simp add: dquote_def is_digit_def code_def)

text \<open>What a quoted identifier says is the identifier, whatever it holds.\<close>

fun unquote :: "string \<Rightarrow> (string \<times> string) option" where
  "unquote [] = None"
| "unquote (c # cs) =
     (if c \<noteq> dquote then map_option (map_prod (Cons c) id) (unquote cs)
      else case cs of
          d # ds \<Rightarrow> if d = dquote then map_option (map_prod (Cons c) id) (unquote ds) else Some ([], cs)
        | [] \<Rightarrow> Some ([], []))"

lemma unquote_quoted:
  "t = [] \<or> hd t \<noteq> dquote \<Longrightarrow> unquote (replace_char dquote [dquote, dquote] s @ dquote # t) = Some (s, t)"
proof (induction s)
  case Nil
  then show ?case by (cases t) auto
next
  case (Cons c s)
  then show ?case by (cases "c = dquote") (auto simp: replace_char_Cons)
qed

section \<open>Placeholders\<close>

definition placeholder_text :: "nat \<Rightarrow> string" where
  "placeholder_text n = ''$'' @ show_nat n"

definition placeholder :: "js_value list \<Rightarrow> js_value \<Rightarrow> string \<times> js_value list" where
  "placeholder params value = (placeholder_text (length params + 1), params @ [value])"

fun placeholders :: "js_value list \<Rightarrow> js_value list \<Rightarrow> string list \<times> js_value list" where
  "placeholders params [] = ([], params)"
| "placeholders params (v # vs) =
     (let (s, params1) = placeholder params v; (ss, params2) = placeholders params1 vs in (s # ss, params2))"

lemma scan_number: "list_all is_digit ds \<Longrightarrow> sql_scan (InNumber n) ds = Some [nat_of_digits n ds]"
  by (induction ds arbitrary: n) auto

lemma piece_placeholder: "sql_piece (placeholder_text n) [n]"
proof -
  have "list_all is_digit (show_nat n)" using show_nat_digits by (auto simp: list_all_iff)
  from scan_number [OF this, of 0] show ?thesis
    by (simp add: sql_piece_def placeholder_text_def nat_of_show_nat dquote_def quote_def)
      (simp add: is_digit_def code_def)
qed

section \<open>Joining\<close>

definition paren :: "string \<Rightarrow> string" where
  "paren s = ''('' @ s @ '')''"

definition in_parens :: "string \<Rightarrow> string list \<Rightarrow> string" where
  "in_parens joiner ss = join joiner (map paren ss)"

text \<open>One part stands alone, several are joined in parentheses.\<close>

definition joined :: "string \<Rightarrow> string list \<Rightarrow> string" where
  "joined joiner ss = (case ss of [s] \<Rightarrow> s | _ \<Rightarrow> in_parens joiner ss)"

lemmas char_facts = sql_piece_def dquote_def quote_def safe_char_def ident_char_def ident_start_def is_alpha_def
  is_upper_def is_lower_def is_digit_def code_def

lemma piece_paren: "sql_piece s ns \<Longrightarrow> sql_piece (paren s) ns"
  unfolding paren_def by (rule piece_around) (simp_all add: char_facts)

text \<open>The pieces of a list, each with its placeholders.\<close>

fun all_pieces :: "string list \<Rightarrow> nat list \<Rightarrow> bool" where
  "all_pieces [] ns \<longleftrightarrow> ns = []"
| "all_pieces (s # ss) ns \<longleftrightarrow> (\<exists>ks ms. ns = ks @ ms \<and> sql_piece s ks \<and> all_pieces ss ms)"

lemma all_pieces_append: "all_pieces ss ns \<Longrightarrow> all_pieces ts ks \<Longrightarrow> all_pieces (ss @ ts) (ns @ ks)"
  by (induction ss arbitrary: ns) (auto, metis append_assoc)

lemma all_pieces_map: "all_pieces ss ns \<Longrightarrow> (\<And>s ks. sql_piece s ks \<Longrightarrow> sql_piece (f s) ks) \<Longrightarrow> all_pieces (map f ss) ns"
  by (induction ss arbitrary: ns) (auto, blast)

lemma piece_join: "all_pieces ss ns \<Longrightarrow> sql_piece sep [] \<Longrightarrow> sql_piece (join sep ss) ns"
proof (induction sep ss arbitrary: ns rule: join.induct)
  case (3 sep x y xs)
  then obtain ks ms where "ns = ks @ ms" "sql_piece x ks" "all_pieces (y # xs) ms" by auto
  with 3 piece_append piece_before [of "join sep (y # xs)" ms sep] show ?case by (auto simp del: all_pieces.simps)
qed (auto simp: piece_Nil)

lemma piece_in_parens: "all_pieces ss ns \<Longrightarrow> sql_piece joiner [] \<Longrightarrow> sql_piece (in_parens joiner ss) ns"
  unfolding in_parens_def by (intro piece_join all_pieces_map piece_paren)

lemma piece_joined: "all_pieces ss ns \<Longrightarrow> sql_piece joiner [] \<Longrightarrow> sql_piece (joined joiner ss) ns"
  by (auto simp: joined_def piece_in_parens split: list.split)

text \<open>The placeholders that the values pushed between two states of the parameters get.\<close>

definition numbers :: "js_value list \<Rightarrow> js_value list \<Rightarrow> nat list" where
  "numbers params params' = [Suc (length params)..<Suc (length params')]"

definition pushed :: "js_value list \<Rightarrow> js_value list \<Rightarrow> bool" where
  "pushed params params' \<longleftrightarrow> (\<exists>vs. params' = params @ vs)"

lemma pushed_refl [simp]: "pushed ps ps"
  by (simp add: pushed_def)

lemma pushed_trans [trans]: "pushed ps qs \<Longrightarrow> pushed qs rs \<Longrightarrow> pushed ps rs"
  by (auto simp: pushed_def)

lemma numbers_same [simp]: "numbers ps ps = []"
  by (simp add: numbers_def)

lemma numbers_append: "pushed ps qs \<Longrightarrow> pushed qs rs \<Longrightarrow> numbers ps qs @ numbers qs rs = numbers ps rs"
proof -
  assume "pushed ps qs" "pushed qs rs"
  then obtain vs ws where "qs = ps @ vs" "rs = ps @ vs @ ws" by (auto simp: pushed_def)
  then show ?thesis
    using upt_add_eq_append [of "Suc (length ps)" "Suc (length ps + length vs)" "length ws"] by (simp add: numbers_def add.assoc del: upt_Suc)
qed

text \<open>A text built while the parameters grow: it is a piece with exactly the new placeholders.\<close>

definition built :: "js_value list \<Rightarrow> string \<Rightarrow> js_value list \<Rightarrow> bool" where
  "built ps s qs \<longleftrightarrow> pushed ps qs \<and> sql_piece s (numbers ps qs)"

definition all_built :: "js_value list \<Rightarrow> string list \<Rightarrow> js_value list \<Rightarrow> bool" where
  "all_built ps ss qs \<longleftrightarrow> pushed ps qs \<and> all_pieces ss (numbers ps qs)"

lemma built_const: "sql_piece s [] \<Longrightarrow> built ps s ps"
  by (simp add: built_def)

lemma built_append: "built ps s qs \<Longrightarrow> built qs t rs \<Longrightarrow> built ps (s @ t) rs"
  using pushed_trans piece_append numbers_append by (fastforce simp: built_def)

lemma built_before: "sql_piece a [] \<Longrightarrow> built ps s qs \<Longrightarrow> built ps (a @ s) qs"
  by (simp add: built_def piece_before)

lemma built_after: "built ps s qs \<Longrightarrow> sql_piece b [] \<Longrightarrow> built ps (s @ b) qs"
  by (simp add: built_def piece_after)

lemma built_paren: "built ps s qs \<Longrightarrow> built ps (paren s) qs"
  by (simp add: built_def piece_paren)

lemma built_placeholder: "placeholder ps v = (s, qs) \<Longrightarrow> built ps s qs"
  using piece_placeholder [of "Suc (length ps)"] by (auto simp: placeholder_def built_def pushed_def numbers_def)

lemma all_built_Nil: "all_built ps [] ps"
  by (simp add: all_built_def)

lemma all_built_Cons: "built ps s qs \<Longrightarrow> all_built qs ss rs \<Longrightarrow> all_built ps (s # ss) rs"
  unfolding all_built_def built_def all_pieces.simps using pushed_trans numbers_append by metis

lemma all_built_snoc: "all_built ps ss qs \<Longrightarrow> built qs s rs \<Longrightarrow> all_built ps (ss @ [s]) rs"
proof -
  assume "all_built ps ss qs" "built qs s rs"
  moreover from this(2) have "all_built qs [s] rs" by (rule all_built_Cons) (rule all_built_Nil)
  ultimately show ?thesis
    unfolding all_built_def using pushed_trans numbers_append all_pieces_append by metis
qed

lemma built_joined: "all_built ps ss qs \<Longrightarrow> sql_piece joiner [] \<Longrightarrow> built ps (joined joiner ss) qs"
  by (simp add: all_built_def built_def piece_joined)

lemma built_in_parens: "all_built ps ss qs \<Longrightarrow> sql_piece joiner [] \<Longrightarrow> built ps (in_parens joiner ss) qs"
  by (simp add: all_built_def built_def piece_in_parens)

lemma built_join: "all_built ps ss qs \<Longrightarrow> sql_piece sep [] \<Longrightarrow> built ps (join sep ss) qs"
  by (simp add: all_built_def built_def piece_join)

lemma all_built_placeholders: "placeholders ps vs = (ss, qs) \<Longrightarrow> all_built ps ss qs"
  by (induction ps vs arbitrary: ss qs rule: placeholders.induct)
    (auto simp: all_built_Nil Let_def split: prod.splits intro: all_built_Cons built_placeholder)

section \<open>Trimming a text\<close>

lemma scan_spaces: "list_all is_space t \<Longrightarrow> sql_scan m t = Some ks \<Longrightarrow> sql_scan m [] = Some ks"
proof (induction m t arbitrary: ks rule: sql_scan.induct)
  case (5 c cs)
  have "c \<noteq> dquote" using 5 by (auto simp: dquote_def is_space_def code_def)
  with 5 show ?case by auto
next
  case (6 c cs)
  have "c \<noteq> quote" using 6 by (auto simp: quote_def is_space_def code_def)
  with 6 show ?case by auto
next
  case (7 c cs)
  have "c \<noteq> dquote" "c \<noteq> quote" "c \<noteq> CHR ''$''" using 7 by (auto simp: dquote_def quote_def is_space_def code_def)
  with 7 show ?case by (auto split: if_splits)
next
  case (8 n c cs)
  have "c \<noteq> dquote" "c \<noteq> quote" "c \<noteq> CHR ''$''" "\<not> is_digit c"
    using 8 by (auto simp: dquote_def quote_def is_space_def is_digit_def code_def)
  with 8 show ?case by (auto split: if_splits)
qed auto

lemma scan_trim_end: "list_all is_space t \<Longrightarrow> sql_scan m (s @ t) = Some ks \<Longrightarrow> sql_scan m s = Some ks"
proof (induction m s arbitrary: ks rule: sql_scan.induct)
  case (1)
  then show ?case using scan_spaces by fastforce
next
  case (2 n)
  then show ?case using scan_spaces by fastforce
next
  case 3
  then show ?case using scan_spaces by fastforce
next
  case 4
  then show ?case using scan_spaces by fastforce
qed (auto split: if_splits)

lemma trim_is_prefix:
  assumes "s \<noteq> []" "\<not> is_space (hd s)"
  shows "\<exists>t. list_all is_space t \<and> s = trim s @ t"
proof -
  have d: "dropWhile is_space s = s" using assms by (cases s) auto
  have "s = rev (dropWhile is_space (rev s)) @ rev (takeWhile is_space (rev s))"
    by (metis rev_append rev_rev_ident takeWhile_dropWhile_id)
  moreover have "list_all is_space (rev (takeWhile is_space (rev s)))"
    by (auto simp: list_all_iff dest: set_takeWhileD)
  ultimately show ?thesis unfolding trim_def d by blast
qed

lemma scan_trim: "sql_piece s ns \<Longrightarrow> s \<noteq> [] \<Longrightarrow> \<not> is_space (hd s) \<Longrightarrow> sql_scan Outside (trim s) = Some ns"
  using trim_is_prefix [of s] scan_trim_end [of _ Outside "trim s" ns] by (fastforce simp: sql_piece_def)

end
