(* ===== verification/Navigation.thy ===== *)
theory Navigation
  imports SqlText
begin

text \<open>
  The models as the push-down builders see them: their relations and keys, the table and columns the
  connector gives them (\<open>sql-metadata.ts\<close>), and navigation paths resolved to joins
  (\<open>navigation-path.ts\<close>, \<open>relation-metadata.ts\<close>). A model is identified by a string; what LoopBack
  keeps of it and what the connector answers are arguments of the model.
\<close>

section \<open>Models\<close>

record through_meta =
  through_model :: "string option"
  through_keyFrom :: string
  through_keyTo :: string

text \<open>
  A relation: its \<open>relationType ?? type\<close>, its target where it can be resolved, its keys (empty where
  not given).
\<close>

record relation_meta =
  relation_type :: string
  target :: "string option"
  source_model :: "string option"
  keyFrom :: "string option"
  keyTo :: string
  through :: "through_meta option"

record model_definition =
  id_properties :: "string list"
  flagged_ids :: "string list"
  property_names :: "string list"
  relations_of :: "(string \<times> relation_meta) list"

text \<open>
  The metadata functions of a connector; a function it does not have, or that throws, answers \<open>None\<close>.
\<close>

record connector =
  connector_name :: string
  can_execute :: bool
  table :: "string \<Rightarrow> string option"
  schema :: "string \<Rightarrow> string option"
  column :: "string \<Rightarrow> string \<Rightarrow> string option"

record world =
  definition_of :: "string \<Rightarrow> model_definition option"
  model_name :: "string \<Rightarrow> string"
  data_source :: connector

text \<open>A key of every object: what an object literal inherits answers to these names.\<close>

definition inherited_names :: "string list" where
  "inherited_names = [''constructor'', ''__proto__'', ''toString'', ''toLocaleString'', ''valueOf'',
     ''hasOwnProperty'', ''isPrototypeOf'', ''propertyIsEnumerable'', ''__defineGetter__'',
     ''__defineSetter__'', ''__lookupGetter__'', ''__lookupSetter__'']"

section \<open>Tables and columns\<close>

record sql_metadata =
  tableName :: string
  schema_name :: "string option"
  columnMap :: "(string \<times> string) list"

text \<open>\<open>x ? x : undefined\<close> of a string.\<close>

definition nonempty :: "string option \<Rightarrow> string option" where
  "nonempty x = (case x of None \<Rightarrow> None | Some s \<Rightarrow> if s = [] then None else Some s)"

text \<open>
  A column the connector does not name keeps the name of its property, unless the object the columns
  are collected in inherits that name.
\<close>

definition column_entry :: "world \<Rightarrow> string \<Rightarrow> string \<Rightarrow> (string \<times> string) list" where
  "column_entry w name p =
     (case nonempty (column (data_source w) name p) of
        Some c \<Rightarrow> [(p, c)]
      | None \<Rightarrow> if p \<in> set inherited_names then [] else [(p, p)])"

definition inferSqlMetadata :: "world \<Rightarrow> string \<Rightarrow> sql_metadata option" where
  "inferSqlMetadata w m =
     (let name = model_name w m
      in if name = [] then None
         else Some
          \<lparr>tableName = (case nonempty (table (data_source w) name) of Some t \<Rightarrow> t | None \<Rightarrow> name),
           schema_name = schema (data_source w) name,
           columnMap = (case definition_of w m of
               None \<Rightarrow> []
             | Some d \<Rightarrow> concat (map (column_entry w name) (property_names d)))\<rparr>)"

definition buildTableRef :: "sql_metadata \<Rightarrow> string" where
  "buildTableRef meta =
     (case nonempty (schema_name meta) of None \<Rightarrow> [] | Some s \<Rightarrow> quoteIdentifier s @ ''.'') @ quoteIdentifier (tableName meta)"

text \<open>
  \<open>resolveColumn\<close>: a name without a column is taken for a column; one the map inherits is a function,
  and quoting it throws. The cache of the source holds what \<open>inferSqlMetadata\<close> gives.
\<close>

definition resolveColumn :: "world \<Rightarrow> string \<Rightarrow> string \<Rightarrow> string push" where
  "resolveColumn w m p =
     (if p = [] \<or> CHR ''/'' \<in> set p \<or> CHR ''.'' \<in> set p \<or> p \<in> set DANGEROUS_FIELD_NAMES then Inl Undefined
      else case inferSqlMetadata w m of
          None \<Rightarrow> Inl Undefined
        | Some meta \<Rightarrow>
            (case map_of (columnMap meta) p of
               Some c \<Rightarrow> Inr (quoteIdentifier c)
             | None \<Rightarrow> if p \<in> set inherited_names then Inl (Thrown TypeError) else Inr (quoteIdentifier p)))"

definition getSingleIdProperty :: "world \<Rightarrow> string \<Rightarrow> string option" where
  "getSingleIdProperty w m =
     (case definition_of w m of
        None \<Rightarrow> None
      | Some d \<Rightarrow> (case id_properties d of [k] \<Rightarrow> nonempty (Some k) | _ \<Rightarrow> None))"

lemma piece_column: "resolveColumn w m p = Inr c \<Longrightarrow> sql_piece c []"
  by (auto simp: resolveColumn_def piece_identifier split: if_splits option.splits)

lemma piece_dot: "sql_piece ''.'' []"
  by (simp add: char_facts)

lemma piece_table [pieces]: "sql_piece (buildTableRef meta) []"
proof (cases "nonempty (schema_name meta)")
  case None
  then show ?thesis by (simp add: buildTableRef_def piece_identifier)
next
  case (Some s)
  have "sql_piece ((quoteIdentifier s @ ''.'') @ quoteIdentifier (tableName meta)) []"
    by (intro piece_before piece_after piece_identifier piece_dot)
  with Some show ?thesis by (simp add: buildTableRef_def)
qed

section \<open>Navigation paths\<close>

datatype relation_kind = HasMany | HasOne | BelongsTo

record join_segment =
  relationType :: relation_kind
  sourceModel :: string
  targetModel :: string
  sourceKey :: string
  targetKey :: string

record resolved_path =
  joins :: "join_segment list"
  propertyPath :: "string option"

text \<open>A \<open>NavigationPathError\<close> is its code, when it has one; the callers use nothing else of it.\<close>

type_synonym 'a nav = "string option + 'a"

fun nbind :: "'a nav \<Rightarrow> ('a \<Rightarrow> 'b nav) \<Rightarrow> 'b nav" where
  "nbind (Inl e) f = Inl e"
| "nbind (Inr x) f = f x"

lemma nbind_cong [fundef_cong]:
  "m = m' \<Longrightarrow> (\<And>x. m' = Inr x \<Longrightarrow> f x = g x) \<Longrightarrow> nbind m f = nbind m' g"
  by (cases m') auto

lemma nbind_eq_Inr [simp]: "nbind m f = Inr y \<longleftrightarrow> (\<exists>x. m = Inr x \<and> f x = Inr y)"
  by (cases m) auto

definition unsupported_through :: "string option" where
  "unsupported_through = Some ''through-relation-unsupported''"

definition normalizeRelationType :: "relation_meta \<Rightarrow> relation_kind option" where
  "normalizeRelationType meta =
     (let type = lower (relation_type meta)
      in if type = ''hasmany'' then Some HasMany
         else if type = ''hasone'' then Some HasOne
         else if type = ''belongsto'' then Some BelongsTo
         else None)"

definition selectSingleKey :: "string list \<Rightarrow> string nav" where
  "selectSingleKey keys = (case keys of [k] \<Rightarrow> Inr k | _ \<Rightarrow> Inl None)"

definition getPrimaryKey :: "model_definition \<Rightarrow> string nav" where
  "getPrimaryKey d =
     (if id_properties d \<noteq> [] then selectSingleKey (id_properties d)
      else if flagged_ids d \<noteq> [] then selectSingleKey (flagged_ids d)
      else Inl None)"

text \<open>The words of a name, each with its first letter in upper case; the first word of the key in lower case.\<close>

definition capital :: "string \<Rightarrow> string" where
  "capital s = (case s of [] \<Rightarrow> [] | c # cs \<Rightarrow> upper_char c # cs)"

definition inferForeignKeyFromSource :: "string \<Rightarrow> string option" where
  "inferForeignKeyFromSource name =
     (let normalized = map (\<lambda>c. if is_alpha c \<or> is_digit c then c else CHR '' '') name;
          tokens = map capital (filter (\<lambda>t. t \<noteq> []) (split_ws normalized))
      in case tokens of
          [] \<Rightarrow> None
        | t # ts \<Rightarrow>
            (let camel = map lower_char (take 1 t) @ drop 1 t @ concat ts
             in Some (if ends_with camel ''Id'' then camel else camel @ ''Id'')))"

text \<open>The key found is also written to the metadata, where the next call finds it again.\<close>

definition ensureNavigationTargetKey :: "world \<Rightarrow> relation_meta \<Rightarrow> string option" where
  "ensureNavigationTargetKey w meta =
     (if keyTo meta \<noteq> [] then Some (keyTo meta)
      else case (source_model meta, target meta) of
          (Some s, Some t) \<Rightarrow>
            (let known = (case definition_of w t of None \<Rightarrow> [] | Some d \<Rightarrow> property_names d)
             in case inferForeignKeyFromSource (model_name w s) of
                 None \<Rightarrow> None
               | Some k \<Rightarrow> if k \<in> set known then Some k else None)
        | _ \<Rightarrow> None)"

definition buildJoinSegment ::
  "world \<Rightarrow> string \<Rightarrow> string \<Rightarrow> relation_meta \<Rightarrow> relation_kind \<Rightarrow> join_segment nav" where
  "buildJoinSegment w src tgt meta kind =
     (case (definition_of w src, definition_of w tgt) of
        (Some sd, Some td) \<Rightarrow>
          nbind (getPrimaryKey sd) (\<lambda>sourceId. nbind (getPrimaryKey td) (\<lambda>targetId.
            if kind = BelongsTo
            then (case nonempty (keyFrom meta) of
                None \<Rightarrow> Inl None
              | Some k \<Rightarrow> Inr \<lparr>relationType = kind, sourceModel = src, targetModel = tgt, sourceKey = k, targetKey = targetId\<rparr>)
            else (case ensureNavigationTargetKey w meta of
                None \<Rightarrow> Inl None
              | Some fk \<Rightarrow> Inr \<lparr>relationType = kind, sourceModel = src, targetModel = tgt,
                  sourceKey = (case keyFrom meta of Some k \<Rightarrow> k | None \<Rightarrow> sourceId), targetKey = fk\<rparr>)))
      | _ \<Rightarrow> Inl None)"

definition resolveThroughMeta :: "through_meta \<Rightarrow> string option \<Rightarrow> (string \<times> string) option" where
  "resolveThroughMeta th tgt =
     (case (tgt, through_model th) of
        (Some t, Some m) \<Rightarrow> if through_keyFrom th = [] \<or> through_keyTo th = [] then None else Some (m, t)
      | _ \<Rightarrow> None)"

text \<open>The two joins of a \<open>hasManyThrough\<close>, and the model they lead to.\<close>

definition through_joins :: "world \<Rightarrow> string \<Rightarrow> relation_meta \<Rightarrow> through_meta \<Rightarrow> (join_segment list \<times> string) nav" where
  "through_joins w current meta th =
     (case resolveThroughMeta th (target meta) of
        None \<Rightarrow> Inl unsupported_through
      | Some (m, t) \<Rightarrow>
          (case definition_of w current of
             None \<Rightarrow> Inl unsupported_through
           | Some sd \<Rightarrow> nbind (getPrimaryKey sd) (\<lambda>sourceId.
               case definition_of w t of
                 None \<Rightarrow> Inl unsupported_through
               | Some td \<Rightarrow> nbind (getPrimaryKey td) (\<lambda>targetId. Inr
                   ([\<lparr>relationType = HasMany, sourceModel = current, targetModel = m,
                      sourceKey = sourceId, targetKey = through_keyFrom th\<rparr>,
                     \<lparr>relationType = BelongsTo, sourceModel = m, targetModel = t,
                      sourceKey = through_keyTo th, targetKey = targetId\<rparr>], t)))))"

text \<open>
  The relation of a model by its name. A name every object inherits finds a function, which is no
  relation of a supported type.
\<close>

datatype relation_found = NoRelation | Inherited | Relation relation_meta

definition getRelationMeta :: "world \<Rightarrow> string \<Rightarrow> string \<Rightarrow> relation_found" where
  "getRelationMeta w m name =
     (case map_of (case definition_of w m of None \<Rightarrow> [] | Some d \<Rightarrow> relations_of d) name of
        Some r \<Rightarrow> Relation r
      | None \<Rightarrow> if name \<in> set inherited_names then Inherited else NoRelation)"

fun nav_loop ::
  "world \<Rightarrow> nat \<Rightarrow> bool \<Rightarrow> bool \<Rightarrow> string \<Rightarrow> nat \<Rightarrow> string list \<Rightarrow> join_segment list \<Rightarrow> (join_segment list \<times> string list) nav" where
  "nav_loop w maxDepth allowThrough usedThrough current i [] js = Inr (js, [])"
| "nav_loop w maxDepth allowThrough usedThrough current i (seg # segs) js =
     (if maxDepth \<le> i then Inl None
      else case getRelationMeta w current seg of
          NoRelation \<Rightarrow> Inr (js, seg # segs)
        | Inherited \<Rightarrow> Inl None
        | Relation meta \<Rightarrow>
            (case through meta of
               Some th \<Rightarrow>
                 if \<not> allowThrough \<or> usedThrough then Inl unsupported_through
                 else nbind (through_joins w current meta th) (\<lambda>(ts, t).
                   nav_loop w maxDepth allowThrough True t (i + 1) segs (js @ ts))
             | None \<Rightarrow>
                 (case (normalizeRelationType meta, target meta) of
                    (Some kind, Some t) \<Rightarrow>
                      nbind (buildJoinSegment w current t meta kind) (\<lambda>j.
                        nav_loop w maxDepth allowThrough usedThrough t (i + 1) segs (js @ [j]))
                  | _ \<Rightarrow> Inl None)))"

definition resolveNavigationPath :: "world \<Rightarrow> string \<Rightarrow> string \<Rightarrow> nat \<Rightarrow> bool \<Rightarrow> resolved_path nav" where
  "resolveNavigationPath w m path maxDepth allowThrough =
     (let segments = filter (\<lambda>s. s \<noteq> []) (split_on CHR ''/'' path)
      in if segments = [] then Inl None
         else nbind (nav_loop w maxDepth allowThrough False m 0 segments []) (\<lambda>(js, rest).
           Inr \<lparr>joins = js, propertyPath = (if rest = [] then None else Some (join ''/'' rest))\<rparr>))"

section \<open>Bounds on the joins\<close>

text \<open>
  A path makes at most one join a segment, and one more for the only \<open>hasManyThrough\<close> it may have.
\<close>

lemma through_joins_two: "through_joins w current meta th = Inr (ts, t) \<Longrightarrow> length ts = 2"
  by (auto simp: through_joins_def split: option.splits)

lemma nav_loop_bound:
  "nav_loop w d allow used m i segs js = Inr (js', rest) \<Longrightarrow>
     length js' + length rest \<le> length js + length segs + (if allow \<and> \<not> used then 1 else 0)
     \<and> length js' + i \<le> length js + max i d + (if allow \<and> \<not> used then 1 else 0)"
proof (induction w d allow used m i segs js arbitrary: js' rest rule: nav_loop.induct)
  case (2 w d allow used m i seg segs js)
  show ?case
  proof (cases "d \<le> i")
    case False
    show ?thesis
    proof (cases "getRelationMeta w m seg")
      case NoRelation
      with 2 False show ?thesis by auto
    next
      case Inherited
      with 2 False show ?thesis by simp
    next
      case (Relation meta)
      show ?thesis
      proof (cases "through meta")
        case None
        obtain kind t j where j: "normalizeRelationType meta = Some kind" "target meta = Some t"
          "buildJoinSegment w m t meta kind = Inr j" "nav_loop w d allow used t (i + 1) segs (js @ [j]) = Inr (js', rest)"
          using 2(3) False Relation None by (auto split: option.splits)
        from 2(1) [OF False Relation None refl j(1) j(2) j(3) j(4)] False show ?thesis by auto
      next
        case (Some th)
        obtain ts t where t: "allow" "\<not> used" "through_joins w m meta th = Inr (ts, t)"
          "nav_loop w d allow True t (i + 1) segs (js @ ts) = Inr (js', rest)"
          using 2(3) False Relation Some by (auto split: if_splits)
        from 2(2) [OF False Relation Some _ t(3) refl t(4)] t False through_joins_two [OF t(3)] show ?thesis by auto
      qed
    qed
  qed (use 2 in simp)
qed simp

lemma path_bound:
  "resolveNavigationPath w m path d allow = Inr p \<Longrightarrow> length (joins p) \<le> d + (if allow then 1 else 0)"
  by (auto simp: resolveNavigationPath_def Let_def split: if_splits dest!: nav_loop_bound)

end
