(* ===== verification/FilterPushdown.thy ===== *)
theory FilterPushdown
  imports Navigation
begin

text \<open>
  The SQL of \<open>postgres-filter-pushdown.ts\<close>: a \<open>Where\<close> object and a filter with fields of the model and of
  models it leads to become one query for the identifiers, or for the count, of the entities. The
  parameters are an array the builders append to. A builder that gives up may leave values in it;
  then its callers give up as well and the array is dropped, so the model returns it on success only.
\<close>

section \<open>Conditions on a column\<close>

type_synonym sql_out = "(string \<times> js_value list) push"

fun comparator_sql :: "comparator \<Rightarrow> string option" where
  "comparator_sql Eq = Some ''=''"
| "comparator_sql Neq = Some ''<>''"
| "comparator_sql Gt = Some ''>''"
| "comparator_sql Gte = Some ''>=''"
| "comparator_sql Lt = Some ''<''"
| "comparator_sql Lte = Some ''<=''"
| "comparator_sql Inq = None"
| "comparator_sql Nin = None"

text \<open>\<open>lhs operator $n\<close>, and the same with what comes after the placeholder.\<close>

definition compared :: "string \<Rightarrow> string \<Rightarrow> js_value \<Rightarrow> string \<Rightarrow> js_value list \<Rightarrow> string \<times> js_value list" where
  "compared lhs operator v rest params =
     (let (s, params1) = placeholder params v in (lhs @ '' '' @ operator @ '' '' @ s @ rest, params1))"

definition escape_clause :: string where
  "escape_clause = '' ESCAPE E'' @ [quote, backslash, backslash, quote]"

definition in_list_sql :: "string \<Rightarrow> bool \<Rightarrow> js_value list \<Rightarrow> js_value list \<Rightarrow> string \<times> js_value list" where
  "in_list_sql col inq vs params =
     (let hasNull = JNull \<in> set vs;
          nonNull = filter (\<lambda>v. v \<noteq> JNull) vs;
          (places, params1) = placeholders params nonNull;
          nullSql = col @ (if inq then '' IS NULL'' else '' IS NOT NULL'');
          listSql = col @ (if inq then '' IN '' else '' NOT IN '') @ paren (join '', '' places)
      in (if hasNull \<and> nonNull \<noteq> [] then paren (nullSql @ (if inq then '' OR '' else '' AND '') @ listSql)
          else if hasNull then nullSql
          else if nonNull \<noteq> [] then listSql
          else if inq then ''FALSE'' else ''TRUE'', params1))"

section \<open>Where objects\<close>

definition op_clause ::
  "(js_value \<Rightarrow> bool) \<Rightarrow> bool \<Rightarrow> string \<Rightarrow> string \<Rightarrow> js_value \<Rightarrow> js_value list \<Rightarrow> sql_out" where
  "op_clause like_ok insensitive col name operand params =
     (if name = ''eq''
      then Inr (if operand = JNull then (col @ '' IS NULL'', params) else compared col ''='' operand [] params)
      else if name = ''neq''
      then Inr (if operand = JNull then (col @ '' IS NOT NULL'', params) else compared col ''<>'' operand [] params)
      else if name = ''gt'' then Inr (compared col ''>'' operand [] params)
      else if name = ''gte'' then Inr (compared col ''>='' operand [] params)
      else if name = ''lt'' then Inr (compared col ''<'' operand [] params)
      else if name = ''lte'' then Inr (compared col ''<='' operand [] params)
      else if name = ''like'' \<or> name = ''nlike''
      then (if \<not> like_ok operand then Inl Undefined
            else Inr (compared col ((if name = ''nlike'' then ''NOT '' else []) @ (if insensitive then ''ILIKE'' else ''LIKE''))
              operand escape_clause params))
      else if name = ''inq'' \<or> name = ''nin''
      then (case operand of JArr vs \<Rightarrow> Inr (in_list_sql col (name = ''inq'') vs params) | _ \<Rightarrow> Inl Undefined)
      else if name = ''between''
      then (case operand of
              JArr [low, high] \<Rightarrow>
                (let (s, params1) = compared col ''BETWEEN'' low [] params; (t, params2) = placeholder params1 high
                 in Inr (s @ '' AND '' @ t, params2))
            | _ \<Rightarrow> Inl Undefined)
      else Inl Undefined)"

fun op_clauses ::
  "(js_value \<Rightarrow> bool) \<Rightarrow> bool \<Rightarrow> string \<Rightarrow> (string \<times> js_value) list \<Rightarrow> js_value list \<Rightarrow> (string list \<times> js_value list) push" where
  "op_clauses like_ok insensitive col [] params = Inr ([], params)"
| "op_clauses like_ok insensitive col ((name, operand) # ops) params =
     (if name = ''options'' then op_clauses like_ok insensitive col ops params
      else pbind (op_clause like_ok insensitive col name operand params) (\<lambda>(s, params1).
        pbind (op_clauses like_ok insensitive col ops params1) (\<lambda>(ss, params2). Inr (s # ss, params2))))"

definition option_insensitive :: "(string \<times> js_value) list \<Rightarrow> bool" where
  "option_insensitive ops = (case map_of ops ''options'' of Some (JStr s) \<Rightarrow> lower s = ''i'' | _ \<Rightarrow> False)"

text \<open>Clauses joined by \<open>AND\<close>; without any there is nothing to translate.\<close>

definition conjoined :: "string list \<times> js_value list \<Rightarrow> sql_out" where
  "conjoined r = (if fst r = [] then Inl Undefined else Inr (joined '' AND '' (fst r), snd r))"

definition field_clause ::
  "(js_value \<Rightarrow> bool) \<Rightarrow> world \<Rightarrow> string \<Rightarrow> string \<Rightarrow> string \<Rightarrow> js_value \<Rightarrow> js_value list \<Rightarrow> sql_out" where
  "field_clause like_ok w m alias key value params =
     pbind (resolveColumn w m key) (\<lambda>c.
       let col = alias @ ''.'' @ c
       in case value of
           JNull \<Rightarrow> Inr (col @ '' IS NULL'', params)
         | JUndefined \<Rightarrow> Inl Undefined
         | JObj ops \<Rightarrow> pbind (op_clauses like_ok (option_insensitive ops) col ops params) conjoined
         | _ \<Rightarrow> Inr (compared col ''='' value [] params))"

lemma entry_sizes: "size_list (\<lambda>e. size (snd e)) es \<le> size_list (size_prod (\<lambda>x. 0) size) (es :: (string \<times> js_value) list)"
  by (induction es) auto

text \<open>
  The recursion over the object, given what becomes of an ordinary field: the entries of an object,
  or the elements of an array under their indices, are joined.
\<close>

function (sequential) where_sql :: "(string \<Rightarrow> js_value \<Rightarrow> js_value list \<Rightarrow> sql_out) \<Rightarrow> js_value \<Rightarrow> js_value list \<Rightarrow> sql_out"
  and where_entry :: "(string \<Rightarrow> js_value \<Rightarrow> js_value list \<Rightarrow> sql_out) \<Rightarrow> string \<Rightarrow> js_value \<Rightarrow> js_value list \<Rightarrow> sql_out"
  and where_entries ::
    "(string \<Rightarrow> js_value \<Rightarrow> js_value list \<Rightarrow> sql_out) \<Rightarrow> (string \<times> js_value) list \<Rightarrow> js_value list \<Rightarrow> (string list \<times> js_value list) push"
  and where_index ::
    "(string \<Rightarrow> js_value \<Rightarrow> js_value list \<Rightarrow> sql_out) \<Rightarrow> nat \<Rightarrow> js_value list \<Rightarrow> js_value list \<Rightarrow> (string list \<times> js_value list) push"
  and where_items ::
    "(string \<Rightarrow> js_value \<Rightarrow> js_value list \<Rightarrow> sql_out) \<Rightarrow> js_value list \<Rightarrow> js_value list \<Rightarrow> (string list \<times> js_value list) push"
where
  "where_sql field (JObj es) params = pbind (where_entries field es params) conjoined"
| "where_sql field (JArr vs) params = pbind (where_index field 0 vs params) conjoined"
| "where_sql field v params = Inl Undefined"
| "where_entry field key value params =
     (if key = ''and'' \<or> key = ''or''
      then (case value of
              JArr items \<Rightarrow> pbind (where_items field items params) (\<lambda>(ss, params1).
                if ss = [] then Inl Undefined else Inr (in_parens ('' '' @ upper key @ '' '') ss, params1))
            | _ \<Rightarrow> Inl Undefined)
      else if key = ''not''
      then pbind (where_sql field value params) (\<lambda>(s, params1). Inr (''NOT '' @ paren s, params1))
      else field key value params)"
| "where_entries field [] params = Inr ([], params)"
| "where_entries field (e # es) params =
     pbind (where_entry field (fst e) (snd e) params) (\<lambda>(s, params1).
       pbind (where_entries field es params1) (\<lambda>(ss, params2). Inr (s # ss, params2)))"
| "where_index field i [] params = Inr ([], params)"
| "where_index field i (v # vs) params =
     pbind (where_entry field (show_nat i) v params) (\<lambda>(s, params1).
       pbind (where_index field (i + 1) vs params1) (\<lambda>(ss, params2). Inr (s # ss, params2)))"
| "where_items field [] params = Inr ([], params)"
| "where_items field (v # vs) params =
     pbind (where_sql field v params) (\<lambda>(s, params1).
       pbind (where_items field vs params1) (\<lambda>(ss, params2). Inr (s # ss, params2)))"
  by pat_completeness auto

termination
proof (relation "measure (\<lambda>x. case x of
    Inl (Inl (_, v, _)) \<Rightarrow> 2 * size v
  | Inl (Inr (_, _, v, _)) \<Rightarrow> 2 * size v + 1
  | Inr (Inl (_, es, _)) \<Rightarrow> 2 * size_list (\<lambda>e. size (snd e)) es + 1
  | Inr (Inr (Inl (_, _, vs, _))) \<Rightarrow> 2 * size_list size vs + 1
  | Inr (Inr (Inr (_, vs, _))) \<Rightarrow> 2 * size_list size vs + 1)")
qed (use entry_sizes in \<open>auto simp: le_imp_less_Suc\<close>)

definition translateWhere ::
  "(js_value \<Rightarrow> bool) \<Rightarrow> world \<Rightarrow> string \<Rightarrow> string \<Rightarrow> js_value \<Rightarrow> js_value list \<Rightarrow> sql_out" where
  "translateWhere like_ok w m alias = where_sql (field_clause like_ok w m alias)"

text \<open>What \<open>like\<close> takes here.\<close>

definition like_not_nullish :: "js_value \<Rightarrow> bool" where
  "like_not_nullish v \<longleftrightarrow> v \<noteq> JUndefined \<and> v \<noteq> JNull"

section \<open>Leaves of a filter\<close>

definition column_in :: "world \<Rightarrow> string \<Rightarrow> string \<Rightarrow> string \<Rightarrow> string push" where
  "column_in w m alias p = pbind (resolveColumn w m p) (\<lambda>c. Inr (alias @ ''.'' @ c))"

definition root_column :: "world \<Rightarrow> string \<Rightarrow> string \<Rightarrow> string \<Rightarrow> string push" where
  "root_column w m alias field = (if CHR ''/'' \<in> set field then Inl Undefined else column_in w m alias field)"

definition null_test :: "string \<Rightarrow> comparator \<Rightarrow> js_value list \<Rightarrow> sql_out" where
  "null_test lhs c params =
     (case c of Eq \<Rightarrow> Inr (lhs @ '' IS NULL'', params) | Neq \<Rightarrow> Inr (lhs @ '' IS NOT NULL'', params) | _ \<Rightarrow> Inl Undefined)"

definition comparison_sql :: "string \<Rightarrow> comparator \<Rightarrow> js_value \<Rightarrow> js_value list \<Rightarrow> sql_out" where
  "comparison_sql col c v params =
     (if c = Inq \<or> c = Nin
      then (case v of JArr vs \<Rightarrow> Inr (in_list_sql col (c = Inq) vs params) | _ \<Rightarrow> Inl Undefined)
      else if v = JNull then null_test col c params
      else case comparator_sql c of None \<Rightarrow> Inl Undefined | Some sign \<Rightarrow> Inr (compared col sign v [] params))"

fun transformed_sql :: "transform option \<Rightarrow> string \<Rightarrow> string" where
  "transformed_sql (Some ToLower) col = ''LOWER'' @ paren col"
| "transformed_sql (Some ToUpper) col = ''UPPER'' @ paren col"
| "transformed_sql None col = col"

definition transform_sql :: "string \<Rightarrow> transform \<Rightarrow> comparator \<Rightarrow> string option \<Rightarrow> js_value list \<Rightarrow> sql_out" where
  "transform_sql col t c value params =
     (let lhs = transformed_sql (Some t) col
      in case value of
          None \<Rightarrow> null_test lhs c params
        | Some s \<Rightarrow>
            (if c = Eq then Inr (compared lhs ''='' (JStr s) [] params)
             else if c = Neq then Inr (compared lhs ''<>'' (JStr s) [] params)
             else Inl Undefined))"

fun like_pattern :: "string_test \<Rightarrow> string \<Rightarrow> string" where
  "like_pattern Contains s = ''%'' @ escapeLikeLiteral s @ ''%''"
| "like_pattern StartsWith s = escapeLikeLiteral s @ ''%''"
| "like_pattern EndsWith s = ''%'' @ escapeLikeLiteral s"

definition like_sql :: "string \<Rightarrow> string \<Rightarrow> string \<Rightarrow> js_value list \<Rightarrow> string \<times> js_value list" where
  "like_sql lhs operator pat params = compared lhs operator (JStr pat) escape_clause params"

definition function_sql ::
  "string \<Rightarrow> string_test \<Rightarrow> js_value list \<Rightarrow> bool \<Rightarrow> transform option \<Rightarrow> bool \<Rightarrow> js_value list \<Rightarrow> sql_out" where
  "function_sql col fn args caseInsensitive t negated params =
     (case args of
        JStr s # _ \<Rightarrow> Inr (like_sql (transformed_sql t col)
          ((if negated then ''NOT '' else []) @ (if t = None \<and> caseInsensitive then ''ILIKE'' else ''LIKE''))
          (like_pattern fn s) params)
      | _ \<Rightarrow> Inl Undefined)"

definition translateRootComparison where
  "translateRootComparison w m alias field c v params =
     pbind (root_column w m alias field) (\<lambda>col. comparison_sql col c v params)"

definition translateRootTransformComparison where
  "translateRootTransformComparison w m alias t field c value params =
     pbind (root_column w m alias field) (\<lambda>col. transform_sql col t c value params)"

definition translateRootFunction where
  "translateRootFunction w m alias fn field args ci t negated params =
     pbind (root_column w m alias field) (\<lambda>col. function_sql col fn args ci t negated params)"

definition resolve_arg :: "world \<Rightarrow> string \<Rightarrow> string \<Rightarrow> function_arg \<Rightarrow> js_value list \<Rightarrow> sql_out" where
  "resolve_arg w m alias arg params =
     (case arg of
        ArgLiteral v \<Rightarrow> Inr (placeholder params v)
      | ArgField name t \<Rightarrow> pbind (root_column w m alias name) (\<lambda>col. Inr (transformed_sql t col, params)))"

text \<open>The arguments of \<open>concat\<close>: a literal is cast to text.\<close>

fun concat_parts ::
  "(function_arg \<Rightarrow> js_value list \<Rightarrow> sql_out) \<Rightarrow> function_arg list \<Rightarrow> js_value list \<Rightarrow> (string list \<times> js_value list) push" where
  "concat_parts resolve [] params = Inr ([], params)"
| "concat_parts resolve (arg # args) params =
     pbind (case arg of
         ArgLiteral v \<Rightarrow> (let (s, params1) = placeholder params v in Inr (s @ ''::TEXT'', params1))
       | ArgField name t \<Rightarrow> resolve arg params) (\<lambda>(s, params1).
       pbind (concat_parts resolve args params1) (\<lambda>(ss, params2). Inr (s # ss, params2)))"

definition translateRootStringFunction where
  "translateRootStringFunction w m alias fn args c value params =
     (let sign = (if c = Eq then ''='' else ''<>'')
      in case fn of
          Trim \<Rightarrow>
            (case args of
               [arg] \<Rightarrow> pbind (resolve_arg w m alias arg params) (\<lambda>(s, params1).
                 Inr (compared (''btrim'' @ paren s) sign (JStr value) [] params1))
             | _ \<Rightarrow> Inl Undefined)
        | Concat \<Rightarrow>
            (if length args < 2 then Inl Undefined
             else pbind (concat_parts (resolve_arg w m alias) args params) (\<lambda>(ss, params1).
               Inr (compared (''concat'' @ paren (join '', '' ss)) sign (JStr value) [] params1))))"

fun date_part_sql :: "date_part \<Rightarrow> string" where
  "date_part_sql Month = ''MONTH''"
| "date_part_sql Day = ''DAY''"
| "date_part_sql Hour = ''HOUR''"
| "date_part_sql Minute = ''MINUTE''"
| "date_part_sql Second = ''SECOND''"

definition extract_sql :: "date_part \<Rightarrow> string \<Rightarrow> string" where
  "extract_sql part col =
     ''EXTRACT('' @ date_part_sql part @ '' FROM timezone('' @ [quote] @ ''UTC'' @ [quote] @ '', '' @ col @ ''))''"

definition translateRootDatePart where
  "translateRootDatePart w m alias part field c x params =
     pbind (root_column w m alias field) (\<lambda>col.
       case comparator_sql c of
         None \<Rightarrow> Inl Undefined
       | Some sign \<Rightarrow> Inr (compared (extract_sql part col) sign (JNum (Finite x)) [] params))"

definition translateRootIndexOf where
  "translateRootIndexOf w m alias field c x needle params =
     pbind (root_column w m alias field) (\<lambda>col.
       if c = Gte \<and> 0 \<le> x \<or> c = Gt \<and> -1 < x
       then Inr (like_sql col ''ILIKE'' (like_pattern Contains needle) params)
       else if c = Eq \<and> x = -1
       then Inr (like_sql col ''NOT ILIKE'' (like_pattern Contains needle) params)
       else Inl Undefined)"

definition translateRootSubstring where
  "translateRootSubstring w m alias field start len c literal params =
     pbind (root_column w m alias field) (\<lambda>col.
       Inr (like_sql col (if c = Eq then ''LIKE'' else ''NOT LIKE'')
         (replicate (nat \<lfloor>start\<rfloor>) CHR ''_'' @ escapeLikeLiteral literal @ (if len = None then [] else ''%'')) params))"

definition translateRootLength where
  "translateRootLength w m alias field c x params =
     pbind (root_column w m alias field) (\<lambda>col.
       if x < 0 \<or> \<not> is_integer x then Inl Undefined
       else (let n = nat \<lfloor>x\<rfloor>; under = (\<lambda>k. replicate k CHR ''_'')
             in case c of
                 Eq \<Rightarrow> Inr (if n = 0 then compared col ''='' (JStr []) [] params else like_sql col ''LIKE'' (under n) params)
               | Neq \<Rightarrow> Inr (if n = 0 then compared col ''<>'' (JStr []) [] params else like_sql col ''NOT LIKE'' (under n) params)
               | Gt \<Rightarrow> Inr (if n = 0 then compared col ''<>'' (JStr []) [] params
                   else like_sql col ''LIKE'' (under (n + 1) @ ''%'') params)
               | Gte \<Rightarrow> Inr (like_sql col ''LIKE'' (under n @ ''%'') params)
               | Lt \<Rightarrow> Inr (like_sql col ''NOT LIKE'' (under n @ ''%'') params)
               | Lte \<Rightarrow> Inr (if n = 0 then compared col ''='' (JStr []) [] params
                   else like_sql col ''NOT LIKE'' (under (n + 1) @ ''%'') params)
               | _ \<Rightarrow> Inl Undefined))"

section \<open>Leaves on other models\<close>

definition isSupportedNavPath :: "resolved_path \<Rightarrow> (join_segment list \<times> string) option" where
  "isSupportedNavPath p =
     (case propertyPath p of
        None \<Rightarrow> None
      | Some property \<Rightarrow>
          if joins p = [] \<or> property = [] \<or> CHR ''/'' \<in> set property
            \<or> list_ex (\<lambda>j. relationType j = HasMany) (joins p)
          then None else Some (joins p, property))"

definition table_id :: "world \<Rightarrow> string \<Rightarrow> string" where
  "table_id w m =
     (case inferSqlMetadata w m of
        Some meta \<Rightarrow> (case nonempty (schema_name meta) of None \<Rightarrow> [] | Some s \<Rightarrow> s @ ''.'') @ tableName meta
      | None \<Rightarrow> model_name w m)"

definition join_key :: "world \<Rightarrow> join_segment \<Rightarrow> string" where
  "join_key w j = table_id w (sourceModel j) @ ''.'' @ sourceKey j @ ''->'' @ table_id w (targetModel j) @ ''.'' @ targetKey j"

definition joinKeysForSegments :: "world \<Rightarrow> join_segment list \<Rightarrow> string list" where
  "joinKeysForSegments w js = remdups (map (join_key w) js)"

definition unionJoinKeys :: "string list \<Rightarrow> string list \<Rightarrow> string list" where
  "unionJoinKeys left right = left @ filter (\<lambda>k. k \<notin> set left) right"

text \<open>Two columns, both looked up before either is tested.\<close>

definition pboth :: "'a push \<Rightarrow> 'b push \<Rightarrow> ('a \<times> 'b) push" where
  "pboth a b =
     (case (a, b) of
        (Inl (Thrown e), _) \<Rightarrow> Inl (Thrown e)
      | (_, Inl (Thrown e)) \<Rightarrow> Inl (Thrown e)
      | (Inr x, Inr y) \<Rightarrow> Inr (x, y)
      | _ \<Rightarrow> Inl Undefined)"

definition table_alias :: "nat \<Rightarrow> string" where
  "table_alias n = ''t'' @ show_nat n"

definition metadata_of :: "world \<Rightarrow> string \<Rightarrow> sql_metadata push" where
  "metadata_of w m = (case inferSqlMetadata w m of None \<Rightarrow> Inl Undefined | Some meta \<Rightarrow> Inr meta)"

definition equal_columns :: "string \<Rightarrow> string \<Rightarrow> string \<Rightarrow> string \<Rightarrow> string" where
  "equal_columns a c b d = a @ ''.'' @ c @ '' = '' @ b @ ''.'' @ d"

text \<open>The joins after the first, whose table has the alias \<open>i\<close>.\<close>

fun nav_joins :: "world \<Rightarrow> nat \<Rightarrow> join_segment \<Rightarrow> join_segment list \<Rightarrow> string list push" where
  "nav_joins w i prev [] = Inr []"
| "nav_joins w i prev (seg # segs) =
     pbind (metadata_of w (targetModel seg)) (\<lambda>meta.
     pbind (pboth (resolveColumn w (targetModel prev) (sourceKey seg)) (resolveColumn w (targetModel seg) (targetKey seg)))
       (\<lambda>(sourceColumn, targetColumn).
     pbind (nav_joins w (i + 1) seg segs) (\<lambda>rest.
       Inr ((''JOIN '' @ buildTableRef meta @ '' AS '' @ table_alias (i + 1) @ '' ON ''
         @ equal_columns (table_alias (i + 1)) targetColumn (table_alias i) sourceColumn) # rest))))"

definition exists_sql :: "string \<Rightarrow> string list \<Rightarrow> string list \<Rightarrow> string" where
  "exists_sql from joinClauses whereClauses =
     ''EXISTS (SELECT 1 FROM '' @ from @ '' '' @ join '' '' joinClauses @ '' WHERE '' @ in_parens '' AND '' whereClauses @ '')''"

text \<open>\<open>leaf\<close> is the condition of the expression on the column the path ends at.\<close>

definition translateNavLeaf ::
  "world \<Rightarrow> string \<Rightarrow> string \<Rightarrow> nat \<Rightarrow> string \<Rightarrow> (string \<Rightarrow> js_value list \<Rightarrow> sql_out) \<Rightarrow> js_value list
     \<Rightarrow> (string \<times> string list \<times> js_value list) push" where
  "translateNavLeaf w m rootAlias maxDepth field leaf params =
     (if CHR ''/'' \<notin> set field then Inl Undefined
      else case resolveNavigationPath w m field maxDepth False of
          Inl _ \<Rightarrow> Inl Undefined
        | Inr p \<Rightarrow>
            (case isSupportedNavPath p of
               None \<Rightarrow> Inl Undefined
             | Some (js, property) \<Rightarrow>
                 (let first = hd js; lastModel = targetModel (last js); lastAlias = table_alias (length js)
                  in pbind (metadata_of w (targetModel first)) (\<lambda>meta.
                     pbind (nav_joins w 1 first (tl js)) (\<lambda>joinClauses.
                     pbind (pboth (resolveColumn w (sourceModel first) (sourceKey first))
                         (resolveColumn w (targetModel first) (targetKey first))) (\<lambda>(sourceColumn, targetColumn).
                     pbind (column_in w lastModel lastAlias property) (\<lambda>col.
                     pbind (leaf col params) (\<lambda>(cond, params1).
                       Inr (exists_sql (buildTableRef meta @ '' AS '' @ table_alias 1) joinClauses
                            [equal_columns (table_alias 1) targetColumn rootAlias sourceColumn, cond],
                          joinKeysForSegments w js, params1)))))))))"

section \<open>Filters\<close>

text \<open>A leaf on the model itself makes no join.\<close>

definition no_joins :: "sql_out \<Rightarrow> (string \<times> string list \<times> js_value list) push" where
  "no_joins r = pbind r (\<lambda>(s, params). Inr (s, [], params))"

fun translateMixedPredicateExpression ::
  "world \<Rightarrow> string \<Rightarrow> string \<Rightarrow> nat \<Rightarrow> parsed_expression \<Rightarrow> js_value list \<Rightarrow> (string \<times> string list \<times> js_value list) push"
  and mixed_children ::
  "world \<Rightarrow> string \<Rightarrow> string \<Rightarrow> nat \<Rightarrow> parsed_expression list \<Rightarrow> js_value list \<Rightarrow> (string list \<times> string list \<times> js_value list) push"
where
  "translateMixedPredicateExpression w m a d (Logical t es) params =
     pbind (mixed_children w m a d es params) (\<lambda>(ss, keys, params1).
       if ss = [] then Inl Undefined
       else Inr (joined (case t of And \<Rightarrow> '' AND '' | Or \<Rightarrow> '' OR '') ss, keys, params1))"
| "translateMixedPredicateExpression w m a d (Not e) params =
     pbind (translateMixedPredicateExpression w m a d e params) (\<lambda>(s, keys, params1). Inr (''NOT '' @ paren s, keys, params1))"
| "translateMixedPredicateExpression w m a d (Comparison f c v) params =
     (if CHR ''/'' \<in> set f then translateNavLeaf w m a d f (\<lambda>col. comparison_sql col c v) params
      else no_joins (translateRootComparison w m a f c v params))"
| "translateMixedPredicateExpression w m a d (TransformCmp t f c v) params =
     (if CHR ''/'' \<in> set f then translateNavLeaf w m a d f (\<lambda>col. transform_sql col t c v) params
      else no_joins (translateRootTransformComparison w m a t f c v params))"
| "translateMixedPredicateExpression w m a d (StringTest fn f vs ci t neg) params =
     (if CHR ''/'' \<in> set f then translateNavLeaf w m a d f (\<lambda>col. function_sql col fn vs ci t neg) params
      else no_joins (translateRootFunction w m a fn f vs ci t neg params))"
| "translateMixedPredicateExpression w m a d (StringFnCmp fn args c v) params =
     no_joins (translateRootStringFunction w m a fn args c v params)"
| "translateMixedPredicateExpression w m a d (DatePart part f c x) params =
     no_joins (translateRootDatePart w m a part f c x params)"
| "translateMixedPredicateExpression w m a d (IndexOfCmp f c x needle) params =
     no_joins (translateRootIndexOf w m a f c x needle params)"
| "translateMixedPredicateExpression w m a d (SubstrCmp f x len c lit) params =
     no_joins (translateRootSubstring w m a f x len c lit params)"
| "translateMixedPredicateExpression w m a d (LengthCmp f c x) params =
     no_joins (translateRootLength w m a f c x params)"
| "translateMixedPredicateExpression w m a d (FnCmp fn f c x) params = Inl Undefined"
| "translateMixedPredicateExpression w m a d (Lambda k path alias p) params = Inl Undefined"
| "mixed_children w m a d [] params = Inr ([], [], params)"
| "mixed_children w m a d (e # es) params =
     pbind (translateMixedPredicateExpression w m a d e params) (\<lambda>(s, keys, params1).
       pbind (mixed_children w m a d es params1) (\<lambda>(ss, keys', params2).
         Inr (s # ss, unionJoinKeys keys keys', params2)))"

section \<open>Queries\<close>

definition supportsPostgresLambdaPushdown :: "world \<Rightarrow> bool" where
  "supportsPostgresLambdaPushdown w \<longleftrightarrow> can_execute (data_source w)
     \<and> contains_str (lower (connector_name (data_source w))) ''postgres''"

datatype pushdown = Query (query_sql: string) (query_params: "js_value list") | Decline string

text \<open>
  The options of a query. \<open>order\<close> is the normalised list, \<open>limit\<close> and \<open>offset\<close> are the integers the
  query parser returns, and a \<open>Where\<close> that is not given, or falsy, is \<open>None\<close>.
\<close>

record push_options =
  push_where :: "js_value option"
  push_order :: "string list"
  push_offset :: "nat option"
  push_limit :: "nat option"
  push_maxDepth :: "js_number option"
  push_maxJoinCount :: "js_number option"

definition normalize_max :: "js_number option \<Rightarrow> nat \<Rightarrow> nat" where
  "normalize_max n fallback = (case n of Some (Finite x) \<Rightarrow> if 0 < x then nat \<lfloor>x\<rfloor> else fallback | _ \<Rightarrow> fallback)"

text \<open>Giving up with a reason; what is thrown is not caught.\<close>

definition or_decline :: "'a push \<Rightarrow> string \<Rightarrow> ('a \<Rightarrow> pushdown result) \<Rightarrow> pushdown result" where
  "or_decline r reason f =
     (case r of
        Inl Undefined \<Rightarrow> Inr (Decline reason)
      | Inl (Thrown e) \<Rightarrow> Inl e
      | Inr x \<Rightarrow> f x)"

definition base_where ::
  "(js_value \<Rightarrow> bool) \<Rightarrow> world \<Rightarrow> string \<Rightarrow> push_options \<Rightarrow> (string list \<times> js_value list) push" where
  "base_where like_ok w m opts =
     (case push_where opts of
        None \<Rightarrow> Inr ([], [])
      | Some v \<Rightarrow> pbind (translateWhere like_ok w m ''r'' v []) (\<lambda>(s, params). Inr ([s], params)))"

fun order_parts :: "world \<Rightarrow> string \<Rightarrow> string list \<Rightarrow> string list push" where
  "order_parts w m [] = Inr []"
| "order_parts w m (clause # clauses) =
     (let words = split_ws (trim clause);
          direction = upper (case words of _ # d # _ \<Rightarrow> d | _ \<Rightarrow> ''ASC'')
      in if trim clause = [] then order_parts w m clauses
         else if direction \<noteq> ''ASC'' \<and> direction \<noteq> ''DESC'' then Inl Undefined
         else pbind (resolveColumn w m (hd words)) (\<lambda>col.
           pbind (order_parts w m clauses) (\<lambda>parts. Inr ((''r.'' @ col @ '' '' @ direction) # parts))))"

definition order_clause :: "string list \<Rightarrow> string" where
  "order_clause parts = (if parts = [] then [] else ''ORDER BY '' @ join '', '' parts)"

definition paging_clause :: "string \<Rightarrow> nat option \<Rightarrow> string" where
  "paging_clause keyword n =
     (case n of None \<Rightarrow> [] | Some k \<Rightarrow> if k = 0 then [] else keyword @ '' '' @ show_nat k)"

definition where_clause_sql :: "string list \<Rightarrow> string" where
  "where_clause_sql parts = (if parts = [] then [] else ''WHERE '' @ in_parens '' AND '' parts)"

definition id_query :: "string \<Rightarrow> string \<Rightarrow> sql_metadata \<Rightarrow> string list \<Rightarrow> string list \<Rightarrow> push_options \<Rightarrow> string" where
  "id_query idColumn idProperty meta whereParts orderParts opts =
     trim (''SELECT r.'' @ idColumn @ '' AS '' @ quoteIdentifier idProperty @ '' FROM '' @ buildTableRef meta @ '' AS r ''
       @ where_clause_sql whereParts @ '' '' @ order_clause orderParts @ '' ''
       @ paging_clause ''LIMIT'' (push_limit opts) @ '' '' @ paging_clause ''OFFSET'' (push_offset opts))"

definition count_query :: "sql_metadata \<Rightarrow> string list \<Rightarrow> string" where
  "count_query meta whereParts =
     trim (''SELECT COUNT(*) AS count FROM '' @ buildTableRef meta @ '' AS r '' @ where_clause_sql whereParts)"

text \<open>The part that the two mixed queries share: the clauses and parameters of the \<open>Where\<close> and of the filter.\<close>

definition mixed_clauses ::
  "world \<Rightarrow> string \<Rightarrow> parsed_expression \<Rightarrow> push_options \<Rightarrow> (string list \<Rightarrow> js_value list \<Rightarrow> pushdown result) \<Rightarrow> pushdown result" where
  "mixed_clauses w m e opts k =
     or_decline (base_where like_not_nullish w m opts) ''unsupported-root-where'' (\<lambda>(base, params).
     or_decline (translateMixedPredicateExpression w m ''r'' (normalize_max (push_maxDepth opts) 5) e params)
         ''unsupported-filter'' (\<lambda>(s, keys, params1).
       if normalize_max (push_maxJoinCount opts) 8 < length keys then Inr (Decline ''pushdown-join-count-exceeded'')
       else k (base @ [s]) params1))"

definition buildPostgresMixedFilterIdQuery ::
  "world \<Rightarrow> string \<Rightarrow> parsed_expression \<Rightarrow> push_options \<Rightarrow> pushdown result" where
  "buildPostgresMixedFilterIdQuery w m e opts =
     (if \<not> supportsPostgresLambdaPushdown w then Inr (Decline ''non-postgres'')
      else case getSingleIdProperty w m of
          None \<Rightarrow> Inr (Decline ''composite-or-missing-id'')
        | Some idProperty \<Rightarrow>
            or_decline (metadata_of w m) ''missing-sql-metadata'' (\<lambda>meta.
            or_decline (resolveColumn w m idProperty) ''id-column-resolution'' (\<lambda>idColumn.
            mixed_clauses w m e opts (\<lambda>whereParts params.
            or_decline (order_parts w m (push_order opts)) ''unsupported-order'' (\<lambda>orderParts.
              Inr (Query (id_query idColumn idProperty meta whereParts orderParts opts) params))))))"

definition buildPostgresMixedFilterCountQuery ::
  "world \<Rightarrow> string \<Rightarrow> parsed_expression \<Rightarrow> push_options \<Rightarrow> pushdown result" where
  "buildPostgresMixedFilterCountQuery w m e opts =
     (if \<not> supportsPostgresLambdaPushdown w then Inr (Decline ''non-postgres'')
      else or_decline (metadata_of w m) ''missing-sql-metadata'' (\<lambda>meta.
        mixed_clauses w m e opts (\<lambda>whereParts params. Inr (Query (count_query meta whereParts) params))))"

end
