(* ===== verification/PushdownSafety.thy ===== *)
theory PushdownSafety
  imports FilterPushdown
begin

text \<open>
  The texts of the push-down of filters are pieces with exactly the placeholders of the values they
  push, condition by condition up to the whole query.
\<close>

section \<open>Conditions\<close>

lemmas const = char_facts

lemma built_compared:
  assumes "compared lhs operator v rest ps = (s, qs)" "sql_piece lhs []" "sql_piece operator []" "sql_piece rest []"
  shows "built ps s qs"
proof -
  obtain p where p: "placeholder ps v = (p, qs)" "s = (lhs @ '' '' @ operator @ '' '') @ (p @ rest)"
    using assms(1) by (auto simp: compared_def split: prod.splits)
  have "sql_piece (lhs @ '' '' @ operator @ '' '') []"
    by (intro piece_before assms) (simp_all add: const)
  moreover have "built ps (p @ rest) qs" by (rule built_after [OF built_placeholder [OF p(1)] assms(4)])
  ultimately show ?thesis unfolding p(2) by (rule built_before)
qed

lemma piece_escape [pieces]: "sql_piece escape_clause []"
  by (simp add: escape_clause_def backslash_def const)

lemma built_like: "like_sql lhs operator pat ps = (s, qs) \<Longrightarrow> sql_piece lhs [] \<Longrightarrow> sql_piece operator [] \<Longrightarrow> built ps s qs"
  unfolding like_sql_def by (rule built_compared [OF _ _ _ piece_escape])

lemma piece_signs: "comparator_sql c = Some s \<Longrightarrow> sql_piece s []"
  by (cases c) (auto simp: const)

lemma built_in_list:
  assumes "in_list_sql col inq vs ps = (s, qs)" "sql_piece col []"
  shows "built ps s qs"
proof -
  obtain places where p: "placeholders ps (filter (\<lambda>v. v \<noteq> JNull) vs) = (places, qs)"
    using assms(1) by (auto simp: in_list_sql_def Let_def split: prod.splits)
  have none: "qs = ps" if "filter (\<lambda>v. v \<noteq> JNull) vs = []" using p that by simp
  have places: "built ps (paren (join '', '' places)) qs"
    by (intro built_paren built_join all_built_placeholders [OF p]) (simp add: const)
  have nulls: "sql_piece (col @ (if inq then '' IS NULL'' else '' IS NOT NULL'')) []"
    by (intro piece_before assms) (simp add: const)
  have lists: "built ps (col @ (if inq then '' IN '' else '' NOT IN '') @ paren (join '', '' places)) qs"
    by (intro built_before assms places) (simp add: const)
  have glue: "sql_piece (if inq then '' OR '' else '' AND '') []" "sql_piece (if inq then ''FALSE'' else ''TRUE'') []"
    by (simp_all add: const)
  have both: "built ps (paren ((col @ (if inq then '' IS NULL'' else '' IS NOT NULL'')) @ (if inq then '' OR '' else '' AND '')
      @ col @ (if inq then '' IN '' else '' NOT IN '') @ paren (join '', '' places))) qs"
    by (intro built_paren built_before nulls glue lists)
  show ?thesis
  proof (cases "filter (\<lambda>v. v \<noteq> JNull) vs = []")
    case True
    with assms(1) p none glue(2) nulls show ?thesis
      by (auto simp: in_list_sql_def Let_def built_const split: if_splits)
  next
    case False
    with assms(1) p both lists show ?thesis by (auto simp: in_list_sql_def Let_def split: if_splits)
  qed
qed

text \<open>What a builder yields when it does not give up.\<close>

definition yields :: "js_value list \<Rightarrow> sql_out \<Rightarrow> bool" where
  "yields ps r \<longleftrightarrow> (\<forall>s qs. r = Inr (s, qs) \<longrightarrow> built ps s qs)"

named_theorems yields_intro

lemma yieldsD: "yields ps r \<Longrightarrow> r = Inr (s, qs) \<Longrightarrow> built ps s qs"
  by (simp add: yields_def)

lemma yields_fail [yields_intro]: "yields ps (Inl e)"
  by (simp add: yields_def)

lemma yields_const [yields_intro]: "sql_piece s [] \<Longrightarrow> yields ps (Inr (s, ps))"
  by (simp add: yields_def built_const)

lemma yields_if [yields_intro]: "yields ps a \<Longrightarrow> yields ps b \<Longrightarrow> yields ps (if c then a else b)"
  by simp

lemma yields_Inr_if [yields_intro]: "yields ps (Inr a) \<Longrightarrow> yields ps (Inr b) \<Longrightarrow> yields ps (Inr (if c then a else b))"
  by simp

lemma yields_compared [yields_intro]:
  "sql_piece lhs [] \<Longrightarrow> sql_piece operator [] \<Longrightarrow> sql_piece rest [] \<Longrightarrow> yields ps (Inr (compared lhs operator v rest ps))"
  using built_compared by (fastforce simp: yields_def)

lemma yields_like [yields_intro]: "sql_piece lhs [] \<Longrightarrow> sql_piece operator [] \<Longrightarrow> yields ps (Inr (like_sql lhs operator pat ps))"
  using built_like by (fastforce simp: yields_def)

lemma yields_in_list [yields_intro]: "sql_piece col [] \<Longrightarrow> yields ps (Inr (in_list_sql col inq vs ps))"
  using built_in_list by (fastforce simp: yields_def)

lemma yields_bind:
  "(\<And>x. r = Inr x \<Longrightarrow> yields ps (f x)) \<Longrightarrow> yields ps (pbind r f)"
  by (auto simp: yields_def)

lemma piece_words [pieces]:
  "sql_piece ''='' []" "sql_piece ''<>'' []" "sql_piece ''>'' []" "sql_piece ''>='' []" "sql_piece ''<'' []" "sql_piece ''<='' []"
  "sql_piece ''LIKE'' []" "sql_piece ''NOT LIKE'' []" "sql_piece ''ILIKE'' []" "sql_piece ''NOT ILIKE'' []" "sql_piece ''BETWEEN'' []"
  "sql_piece '' IS NULL'' []" "sql_piece '' IS NOT NULL'' []" "sql_piece '' AND '' []" "sql_piece '' OR '' []" "sql_piece ''NOT '' []"
  "sql_piece '', '' []" "sql_piece ''LOWER'' []" "sql_piece ''UPPER'' []" "sql_piece ''btrim'' []" "sql_piece ''concat'' []" "sql_piece '' '' []"
  "sql_piece ''FALSE'' []" "sql_piece ''TRUE'' []" "sql_piece ''::TEXT'' []"
  by (simp_all add: const)

lemma piece_like_word [pieces]:
  "sql_piece ((if neg then ''NOT '' else []) @ (if ins then ''ILIKE'' else ''LIKE'')) []"
  by (simp add: const)

lemma yields_null_test [yields_intro]: "sql_piece lhs [] \<Longrightarrow> yields ps (null_test lhs c ps)"
  unfolding null_test_def by (cases c) (simp_all add: yields_intro piece_before pieces)

lemma yields_comparison: "sql_piece col [] \<Longrightarrow> yields ps (comparison_sql col c v ps)"
  unfolding comparison_sql_def
  by (intro yields_if) (auto intro: yields_intro pieces piece_signs split: js_value.split option.split)

lemma piece_transformed [pieces]: "sql_piece col [] \<Longrightarrow> sql_piece (transformed_sql t col) []"
  by (cases "(t, col)" rule: transformed_sql.cases)
    (simp_all only: prod.inject transformed_sql.simps piece_before [OF piece_paren] pieces)

lemma yields_transform: "sql_piece col [] \<Longrightarrow> yields ps (transform_sql col t c v ps)"
  unfolding transform_sql_def Let_def
  by (cases v) (auto intro!: yields_null_test yields_compared yields_fail pieces)

lemma yields_function: "sql_piece col [] \<Longrightarrow> yields ps (function_sql col fn args ci t neg ps)"
  unfolding function_sql_def
  by (cases args; cases "hd args") (auto intro!: yields_like yields_fail piece_transformed piece_like_word
      simp del: append_Cons append.append_Cons if_cancel if_distrib split del: if_split)

section \<open>Where objects\<close>

lemma yields_between:
  assumes "sql_piece col []"
  shows "yields ps (let (s, ps1) = compared col ''BETWEEN'' low [] ps; (t, ps2) = placeholder ps1 high
    in Inr (s @ '' AND '' @ t, ps2))"
proof -
  obtain a rs b ts where ab: "compared col ''BETWEEN'' low [] ps = (a, rs)" "placeholder rs high = (b, ts)" by fastforce
  have "built ps (a @ '' AND '' @ b) ts"
  proof (rule built_append)
    show "built ps a rs" by (rule built_compared [OF ab(1) assms]) (rule pieces)+
    show "built rs ('' AND '' @ b) ts" by (rule built_before [OF _ built_placeholder [OF ab(2)]]) (rule pieces)
  qed
  with ab show ?thesis by (simp add: yields_def)
qed

lemma yields_op:
  assumes "sql_piece col []"
  shows "yields ps (op_clause like_ok ins col name v ps)"
proof -
  have nulls: "sql_piece (col @ '' IS NULL'') []" "sql_piece (col @ '' IS NOT NULL'') []"
    by (intro piece_before assms pieces)+
  show ?thesis
    unfolding op_clause_def
    by (intro yields_if yields_Inr_if yields_const yields_compared yields_fail assms nulls pieces)
      ((cases v rule: js_value.exhaust; simp add: yields_in_list yields_fail assms),
       auto split: js_value.split list.split intro: yields_fail yields_between [unfolded Let_def append.simps] assms)
qed

text \<open>The same for lists of texts.\<close>

definition yields_all :: "js_value list \<Rightarrow> (string list \<times> js_value list) push \<Rightarrow> bool" where
  "yields_all ps r \<longleftrightarrow> (\<forall>ss qs. r = Inr (ss, qs) \<longrightarrow> all_built ps ss qs)"

lemma yields_all_Nil: "yields_all ps (Inr ([], ps))"
  by (simp add: yields_all_def all_built_Nil)

lemma yields_all_Cons:
  assumes "yields ps r" "\<And>s qs. r = Inr (s, qs) \<Longrightarrow> yields_all qs (f qs)"
  shows "yields_all ps (pbind r (\<lambda>(s, qs). pbind (f qs) (\<lambda>(ss, rs). Inr (s # ss, rs))))"
  using assms by (fastforce simp: yields_def yields_all_def intro: all_built_Cons)

lemma yields_conjoined: "yields_all ps r \<Longrightarrow> yields ps (pbind r conjoined)"
  by (auto simp: yields_def yields_all_def conjoined_def split: if_splits intro: built_joined pieces)

lemma yields_ops: "sql_piece col [] \<Longrightarrow> yields_all ps (op_clauses like_ok ins col ops ps)"
proof (induction like_ok ins col ops ps rule: op_clauses.induct)
  case (2 like_ok ins col name operand ops ps)
  then show ?case
    by (cases "name = ''options''") (auto intro!: yields_all_Cons yields_op)
qed (simp add: yields_all_Nil)

lemma yields_field:
  assumes "sql_piece alias []"
  shows "yields ps (field_clause like_ok w m alias key v ps)"
  unfolding field_clause_def
proof (rule yields_bind)
  fix c assume "resolveColumn w m key = Inr c"
  then have col: "sql_piece (alias @ ''.'' @ c) []" by (intro piece_before assms piece_column piece_dot)
  have null: "sql_piece ((alias @ ''.'' @ c) @ '' IS NULL'') []" by (rule piece_before [OF _ col]) (rule pieces)
  show "yields ps (let col = alias @ ''.'' @ c
       in case v of JUndefined \<Rightarrow> Inl Undefined | JNull \<Rightarrow> Inr (col @ '' IS NULL'', ps)
          | JObj ops \<Rightarrow> pbind (op_clauses like_ok (option_insensitive ops) col ops ps) conjoined
          | _ \<Rightarrow> Inr (compared col ''='' v [] ps))"
    unfolding Let_def
    by (cases v; simp only: js_value.case;
        intro yields_fail yields_const yields_compared yields_conjoined yields_ops null col pieces)
qed

lemma built_not: "built ps s qs \<Longrightarrow> built ps (''NOT '' @ paren s) qs"
  by (intro built_before built_paren) (rule pieces)

lemma upper_words: "upper ''and'' = ''AND''" "upper ''or'' = ''OR''"
  by code_simp+

lemma yields_where_all:
  assumes "\<And>k v ps. yields ps (field k v ps)"
  shows "yields ps1 (where_sql field v1 ps1)" "yields ps2 (where_entry field k2 v2 ps2)"
    "yields_all ps3 (where_entries field es3 ps3)" "yields_all ps4 (where_index field i4 vs4 ps4)"
    "yields_all ps5 (where_items field vs5 ps5)"
  using assms
proof (induction field v1 ps1 and field k2 v2 ps2 and field es3 ps3 and field i4 vs4 ps4 and field vs5 ps5
    rule: where_sql_where_entry_where_entries_where_index_where_items.induct)
  case (4 field key v params)
  have glue: "sql_piece ('' '' @ upper key @ '' '') []" if "key = ''and'' \<or> key = ''or''"
    using that by (elim disjE) (simp_all only: upper_words, simp_all add: const)
  show ?case
  proof (cases "key = ''and'' \<or> key = ''or''")
    case True
    show ?thesis
    proof (cases v)
      case (JArr items)
      then show ?thesis using True 4 glue by (auto simp: yields_def yields_all_def split: if_splits intro!: built_in_parens)
    qed (use True in \<open>simp_all add: yields_fail\<close>)
  next
    case False
    then show ?thesis using 4 by (auto simp: yields_def intro: built_not [unfolded append.simps])
  qed
qed (auto intro!: yields_conjoined yields_fail yields_all_Nil yields_all_Cons)

lemma yields_where:
  assumes "sql_piece alias []"
  shows "yields ps (translateWhere like_ok w m alias v ps)"
  unfolding translateWhere_def by (rule yields_where_all) (rule yields_field [OF assms])

section \<open>Leaves\<close>

lemma piece_column_in: "column_in w m alias p = Inr col \<Longrightarrow> sql_piece alias [] \<Longrightarrow> sql_piece col []"
proof -
  assume "column_in w m alias p = Inr col" and a: "sql_piece alias []"
  then obtain c where "resolveColumn w m p = Inr c" "col = alias @ ''.'' @ c" by (auto simp: column_in_def)
  then show ?thesis using piece_before [OF piece_before [OF piece_column piece_dot] a] by blast
qed

lemma piece_root_column: "root_column w m alias f = Inr col \<Longrightarrow> sql_piece alias [] \<Longrightarrow> sql_piece col []"
  by (auto simp: root_column_def intro: piece_column_in split: if_splits)

lemma yields_root:
  assumes "sql_piece alias []" "\<And>col. sql_piece col [] \<Longrightarrow> yields ps (f col)"
  shows "yields ps (pbind (root_column w m alias field) f)"
  by (rule yields_bind) (rule assms(2), rule piece_root_column [OF _ assms(1)])

lemma piece_extract: "sql_piece col [] \<Longrightarrow> sql_piece (extract_sql part col) []"
proof -
  assume col: "sql_piece col []"
  have "sql_piece ((''EXTRACT('' @ date_part_sql part @ '' FROM timezone('' @ [quote] @ ''UTC'' @ [quote] @ '', '') @ col @ ''))'') []"
  proof (rule piece_around [OF col])
    show "sql_piece (''EXTRACT('' @ date_part_sql part @ '' FROM timezone('' @ [quote] @ ''UTC'' @ [quote] @ '', '') []"
      by (cases part) (simp_all add: const)
  qed (simp add: const)
  then show ?thesis by (simp add: extract_sql_def)
qed

lemma yields_arg: "sql_piece alias [] \<Longrightarrow> yields ps (resolve_arg w m alias arg ps)"
  unfolding resolve_arg_def
  by (cases arg) (auto simp: yields_def intro: built_placeholder built_const piece_transformed piece_root_column)

lemma yields_concat_parts:
  assumes "\<And>arg ps. yields ps (resolve arg ps)"
  shows "yields_all ps (concat_parts resolve args ps)"
proof (induction args arbitrary: ps)
  case (Cons arg args)
  have "yields ps (case arg of ArgLiteral v \<Rightarrow> (let (s, ps1) = placeholder ps v in Inr (s @ ''::TEXT'', ps1))
      | ArgField name t \<Rightarrow> resolve arg ps)"
  proof (cases arg)
    case (ArgLiteral v)
    obtain s qs where "placeholder ps v = (s, qs)" by fastforce
    moreover from this have "built ps (s @ ''::TEXT'') qs"
      by (intro built_after built_placeholder) (simp_all add: pieces)
    ultimately show ?thesis using ArgLiteral by (simp add: yields_def)
  qed (simp add: assms)
  with Cons.IH show ?case by (auto intro: yields_all_Cons)
qed (simp add: yields_all_Nil)

lemma built_then:
  assumes "built ps s qs" "sql_piece a []" "sql_piece sign []"
  shows "built ps (fst (compared (a @ paren s) sign v [] qs)) (snd (compared (a @ paren s) sign v [] qs))"
proof -
  obtain p rs where p: "placeholder qs v = (p, rs)" by fastforce
  have "built ps ((a @ paren s) @ ('' '' @ sign @ '' '') @ p) rs"
    by (rule built_append [OF built_before [OF assms(2) built_paren [OF assms(1)]]])
      (intro built_before built_placeholder [OF p] piece_before assms pieces)
  with p show ?thesis by (simp add: compared_def)
qed

lemma yields_then:
  assumes "yields ps r" "sql_piece a []" "sql_piece sign []"
  shows "yields ps (pbind r (\<lambda>(s, ps1). Inr (compared (a @ paren s) sign v [] ps1)))"
  unfolding yields_def
proof (intro allI impI)
  fix s qs assume "pbind r (\<lambda>(s, ps1). Inr (compared (a @ paren s) sign v [] ps1)) = Inr (s, qs)"
  then obtain s1 ps1 where r: "r = Inr (s1, ps1)" "compared (a @ paren s1) sign v [] ps1 = (s, qs)" by auto
  from built_then [OF yieldsD [OF assms(1) r(1)] assms(2,3), of v] r(2) show "built ps s qs" by simp
qed

lemma yields_joined_list:
  "yields_all ps r \<Longrightarrow> sql_piece sep [] \<Longrightarrow> yields ps (pbind r (\<lambda>(ss, ps1). Inr (join sep ss, ps1)))"
  by (auto simp: yields_all_def yields_def intro: built_join)

lemma yields_string_function:
  assumes "sql_piece alias []"
  shows "yields ps (translateRootStringFunction w m alias fn args c v ps)"
proof -
  have sign: "sql_piece (if c = Eq then ''='' else ''<>'') []" by (simp add: pieces)
  have trim: "yields ps (pbind (resolve_arg w m alias arg ps) (\<lambda>(s, ps1).
      Inr (compared (''btrim'' @ paren s) (if c = Eq then ''='' else ''<>'') (JStr v) [] ps1)))" for arg
    by (intro yields_then yields_arg assms sign) (rule pieces)
  have "yields ps (pbind (pbind (concat_parts (resolve_arg w m alias) args ps) (\<lambda>(ss, ps1). Inr (join '', '' ss, ps1)))
      (\<lambda>(s, ps1). Inr (compared (''concat'' @ paren s) (if c = Eq then ''='' else ''<>'') (JStr v) [] ps1)))"
    by (intro yields_then yields_joined_list yields_concat_parts yields_arg assms sign) (rule pieces)+
  moreover have "pbind (pbind r (\<lambda>(ss, ps1). Inr (join '', '' ss, ps1))) (\<lambda>(s, ps1). f s ps1)
      = pbind r (\<lambda>(ss, ps1). f (join '', '' ss) ps1)" for r and f :: "string \<Rightarrow> js_value list \<Rightarrow> sql_out"
    by (cases r) auto
  ultimately have concat: "yields ps (pbind (concat_parts (resolve_arg w m alias) args ps) (\<lambda>(ss, ps1).
      Inr (compared (''concat'' @ paren (join '', '' ss)) (if c = Eq then ''='' else ''<>'') (JStr v) [] ps1)))"
    by simp
  show ?thesis
  proof (cases fn)
    case Trim
    show ?thesis unfolding translateRootStringFunction_def Let_def Trim string_fn.case
      by (cases args; cases "tl args") (simp_all only: list.case list.sel yields_fail trim)
  next
    case Concat
    show ?thesis unfolding translateRootStringFunction_def Let_def Concat string_fn.case
      by (intro yields_if yields_fail concat)
  qed
qed

lemma yields_leaves:
  assumes "sql_piece alias []"
  shows "yields ps (translateRootComparison w m alias f c v ps)"
    "yields ps (translateRootTransformComparison w m alias t f c s ps)"
    "yields ps (translateRootFunction w m alias fn f vs ci t' neg ps)"
    "yields ps (translateRootDatePart w m alias part f c x ps)"
    "yields ps (translateRootIndexOf w m alias f c x needle ps)"
    "yields ps (translateRootSubstring w m alias f x len c lit ps)"
    "yields ps (translateRootLength w m alias f c x ps)"
proof -
  show "yields ps (translateRootComparison w m alias f c v ps)"
    unfolding translateRootComparison_def by (intro yields_root assms yields_comparison)
  show "yields ps (translateRootTransformComparison w m alias t f c s ps)"
    unfolding translateRootTransformComparison_def by (intro yields_root assms yields_transform)
  show "yields ps (translateRootFunction w m alias fn f vs ci t' neg ps)"
    unfolding translateRootFunction_def by (intro yields_root assms yields_function)
  show "yields ps (translateRootDatePart w m alias part f c x ps)"
    unfolding translateRootDatePart_def
    by (intro yields_root assms) (auto split: option.split intro: yields_fail yields_compared piece_extract pieces piece_signs)
  show "yields ps (translateRootIndexOf w m alias f c x needle ps)"
    unfolding translateRootIndexOf_def by (intro yields_root assms yields_if yields_like yields_fail pieces)
  show "yields ps (translateRootSubstring w m alias f x len c lit ps)"
    unfolding translateRootSubstring_def by (intro yields_root assms yields_like) (simp_all add: pieces)
  show "yields ps (translateRootLength w m alias f c x ps)"
    unfolding translateRootLength_def Let_def
    by (intro yields_root assms yields_if yields_fail)
      (cases c; simp only: comparator.case; intro yields_Inr_if yields_like yields_compared yields_fail pieces)
qed

section \<open>Leaves on other models\<close>

lemma piece_alias [pieces]: "sql_piece (table_alias n) []"
proof -
  have "sql_scan Outside s = Some []" if "list_all is_digit s" for s
    using that by (induction s) (auto simp: safe_char_def ident_char_def dquote_def quote_def is_digit_def code_def)
  moreover have "list_all is_digit (show_nat n)" using show_nat_digits by (auto simp: list_all_iff)
  ultimately have "sql_scan Outside (show_nat n) = Some []" by blast
  then show ?thesis by (simp add: table_alias_def const)
qed

lemma piece_equal_columns:
  "sql_piece a [] \<Longrightarrow> sql_piece c [] \<Longrightarrow> sql_piece b [] \<Longrightarrow> sql_piece d [] \<Longrightarrow> sql_piece (equal_columns a c b d) []"
  unfolding equal_columns_def by (intro piece_before piece_dot) (simp_all add: const)

lemma pboth_Inr [simp]: "pboth a b = Inr z \<longleftrightarrow> (\<exists>x y. a = Inr x \<and> b = Inr y \<and> z = (x, y))"
  by (cases a; cases b) (auto simp: pboth_def split: push_error.splits)

lemma piece_nav_joins: "nav_joins w i prev segs = Inr ss \<Longrightarrow> all_pieces ss []"
proof (induction w i prev segs arbitrary: ss rule: nav_joins.induct)
  case (2 w i prev seg segs)
  then obtain meta sc tc rest where r: "resolveColumn w (targetModel prev) (sourceKey seg) = Inr sc"
    "resolveColumn w (targetModel seg) (targetKey seg) = Inr tc" "nav_joins w (i + 1) seg segs = Inr rest"
    "ss = (''JOIN '' @ buildTableRef meta @ '' AS '' @ table_alias (i + 1) @ '' ON ''
         @ equal_columns (table_alias (i + 1)) tc (table_alias i) sc) # rest"
    "metadata_of w (targetModel seg) = Inr meta"
    by (auto simp del: append_Cons append.append_Cons)
  have "all_pieces rest []" using 2(1) [OF r(5) _ refl r(3)] r by auto
  moreover have "sql_piece (''JOIN '' @ buildTableRef meta @ '' AS '' @ table_alias (i + 1) @ '' ON ''
         @ equal_columns (table_alias (i + 1)) tc (table_alias i) sc) []"
    by (intro piece_before piece_equal_columns pieces piece_column [OF r(1)] piece_column [OF r(2)]) (simp_all add: const)
  ultimately show ?case unfolding r(4) by auto
qed simp

lemma built_exists:
  assumes "sql_piece from []" "all_pieces js []" "sql_piece eq []" "built ps c qs"
  shows "built ps (exists_sql from js [eq, c]) qs"
proof -
  have "built ps (in_parens '' AND '' [eq, c]) qs"
    by (intro built_in_parens all_built_Cons [of ps eq ps] all_built_Cons [of ps c qs] built_const assms all_built_Nil) (rule pieces)
  then have "built ps ((''EXISTS (SELECT 1 FROM '' @ from @ '' '' @ join '' '' js @ '' WHERE '') @ in_parens '' AND '' [eq, c] @ '')'') qs"
    by (intro built_before built_after piece_before piece_join assms) (simp_all add: const)
  then show ?thesis by (simp add: exists_sql_def)
qed

definition yields_nav :: "js_value list \<Rightarrow> (string \<times> string list \<times> js_value list) push \<Rightarrow> bool" where
  "yields_nav ps r \<longleftrightarrow> (\<forall>s keys qs. r = Inr (s, keys, qs) \<longrightarrow> built ps s qs)"

lemma yields_nav_leaf:
  assumes "sql_piece rootAlias []" "\<And>col. sql_piece col [] \<Longrightarrow> yields ps (leaf col ps)"
  shows "yields_nav ps (translateNavLeaf w m rootAlias d f leaf ps)"
  unfolding yields_nav_def
proof (intro allI impI)
  fix s keys qs assume t: "translateNavLeaf w m rootAlias d f leaf ps = Inr (s, keys, qs)"
  then obtain js property meta joinClauses sc tc col cond where r:
    "nav_joins w 1 (hd js) (tl js) = Inr joinClauses"
    "resolveColumn w (sourceModel (hd js)) (sourceKey (hd js)) = Inr sc"
    "resolveColumn w (targetModel (hd js)) (targetKey (hd js)) = Inr tc"
    "column_in w (targetModel (last js)) (table_alias (length js)) property = Inr col"
    "leaf col ps = Inr (cond, qs)"
    "s = exists_sql (buildTableRef meta @ '' AS '' @ table_alias 1) joinClauses
        [equal_columns (table_alias 1) tc rootAlias sc, cond]"
    by (auto simp: translateNavLeaf_def Let_def split: if_splits sum.splits option.splits
        simp del: append_Cons append.append_Cons)
  have col: "sql_piece col []" by (rule piece_column_in [OF r(4) piece_alias])
  show "built ps s qs" unfolding r(6)
    by (intro built_exists piece_before piece_equal_columns piece_nav_joins [OF r(1)] pieces assms(1)
        piece_column [OF r(2)] piece_column [OF r(3)] yieldsD [OF assms(2) [OF col] r(5)]) (simp add: const)
qed

section \<open>Filters and queries\<close>

lemma yields_no_joins: "yields ps r \<Longrightarrow> yields_nav ps (no_joins r)"
  by (auto simp: yields_def yields_nav_def no_joins_def)

lemma yields_mixed:
  assumes "sql_piece a []"
  shows "yields_nav ps1 (translateMixedPredicateExpression w m a d e ps1)"
    "mixed_children w m a d es ps2 = Inr (ss, keys, qs) \<Longrightarrow> all_built ps2 ss qs"
  using assms
proof (induction w m a d e ps1 and w m a d es ps2 arbitrary: and ss keys qs
    rule: translateMixedPredicateExpression_mixed_children.induct)
  case (1 w m a d t es params)
  have "sql_piece (case t of And \<Rightarrow> '' AND '' | Or \<Rightarrow> '' OR '') []" by (cases t) (simp_all add: pieces)
  with 1 show ?case by (auto simp: yields_nav_def split: if_splits intro!: built_joined)
next
  case (2 w m a d e params)
  then show ?case by (auto simp: yields_nav_def intro: built_not [unfolded append.simps])
next
  case (14 w m a d e es params)
  then show ?case by (fastforce simp: yields_nav_def intro: all_built_Cons)
qed (auto simp: yields_nav_def [of _ "Inl _"] all_built_Nil intro!: yields_nav_leaf yields_no_joins yields_leaves yields_string_function
    yields_comparison yields_transform yields_function)

lemma all_built_base: "base_where like_ok w m opts = Inr (ss, ps) \<Longrightarrow> all_built [] ss ps"
proof -
  assume b: "base_where like_ok w m opts = Inr (ss, ps)"
  show ?thesis
  proof (cases "push_where opts")
    case None
    with b show ?thesis by (simp add: base_where_def all_built_Nil)
  next
    case (Some v)
    have "sql_piece ''r'' []" by (simp add: const)
    with b Some show ?thesis
      by (auto simp: base_where_def intro!: all_built_Cons all_built_Nil yieldsD [OF yields_where])
  qed
qed

lemma pieces_order: "order_parts w m clauses = Inr parts \<Longrightarrow> all_pieces parts []"
proof (induction clauses arbitrary: parts)
  case (Cons clause clauses)
  have word: "sql_piece ('' '' @ dir) []" if "dir = ''ASC'' \<or> dir = ''DESC''" for dir
    using that by (auto simp: const)
  have part: "sql_piece (''r.'' @ col @ '' '' @ dir) []" if "sql_piece col []" "dir = ''ASC'' \<or> dir = ''DESC''" for col dir
    by (intro piece_before [of "'' '' @ dir"] piece_before word that) (simp add: const)
  from Cons part [unfolded append.simps] piece_column show ?case
    by (auto simp: Let_def split: if_splits)
qed simp

lemma piece_number: "sql_piece (a @ '' '') [] \<Longrightarrow> sql_piece (a @ '' '' @ show_nat n) []"
proof -
  assume a: "sql_piece (a @ '' '') []"
  have "sql_scan Outside s = Some []" if "list_all is_digit s" for s
    using that by (induction s) (auto simp: safe_char_def ident_char_def dquote_def quote_def is_digit_def code_def)
  moreover have "list_all is_digit (show_nat n)" using show_nat_digits by (auto simp: list_all_iff)
  ultimately have "sql_piece ('' '' @ show_nat n) []" by (simp add: const)
  moreover have "sql_scan Outside a = Some []"
    by (rule scan_trim_end [of "'' ''"]) (use a in \<open>simp_all add: sql_piece_def is_space_def code_def\<close>)
  then have "sql_piece a []" using a by (cases a) (auto simp: sql_piece_def)
  ultimately show ?thesis by (simp add: piece_before)
qed

lemma piece_paging: "sql_piece (keyword @ '' '') [] \<Longrightarrow> sql_piece (paging_clause keyword n) []"
  unfolding paging_clause_def by (auto split: option.split intro: piece_Nil piece_number [unfolded append.simps])

lemma built_where_clause: "all_built ps ss qs \<Longrightarrow> built ps (where_clause_sql ss) qs"
proof (cases "ss = []")
  case True
  then show "all_built ps ss qs \<Longrightarrow> ?thesis" by (simp add: all_built_def where_clause_sql_def built_def piece_Nil)
next
  case False
  assume "all_built ps ss qs"
  then have "built ps (''WHERE '' @ in_parens '' AND '' ss) qs"
    by (intro built_before built_in_parens) (simp_all add: const)
  with False show ?thesis by (simp add: where_clause_sql_def)
qed

text \<open>A trimmed text that starts with \<open>SELECT\<close> still has all its placeholders.\<close>

lemma scan_query:
  assumes "built [] (''SELECT'' @ s) qs"
  shows "sql_scan Outside (trim (''SELECT'' @ s)) = Some [1..<Suc (length qs)]"
  using assms scan_trim [of "''SELECT'' @ s" "numbers [] qs"] by (simp add: built_def numbers_def is_space_def code_def del: upt_Suc)

lemma scan_id_query:
  assumes "all_built [] ss qs" "sql_piece idColumn []" "all_pieces parts []"
  shows "sql_scan Outside (id_query idColumn idp meta ss parts opts) = Some [1..<Suc (length qs)]"
proof -
  have order: "sql_piece (order_clause parts) []"
  proof (cases "parts = []")
    case False
    have "sql_piece (''ORDER BY '' @ join '', '' parts) []" by (intro piece_before piece_join assms(3)) (simp_all add: const)
    with False show ?thesis by (simp add: order_clause_def)
  qed (simp add: order_clause_def piece_Nil)
  have words: "sql_piece (''LIMIT'' @ '' '') []" "sql_piece (''OFFSET'' @ '' '') []" by (simp_all add: const)
  have "sql_piece (paging_clause ''LIMIT'' (push_limit opts)) []" "sql_piece (paging_clause ''OFFSET'' (push_offset opts)) []"
    by (rule piece_paging [OF words(1)], rule piece_paging [OF words(2)])
  then have tail: "sql_piece ('' '' @ order_clause parts @ '' '' @ paging_clause ''LIMIT'' (push_limit opts) @ '' ''
      @ paging_clause ''OFFSET'' (push_offset opts)) []"
    by (intro piece_before order pieces)
  have "sql_piece (''SELECT'' @ '' r.'' @ idColumn @ '' AS '' @ quoteIdentifier idp @ '' FROM '' @ buildTableRef meta @ '' AS r '') []"
    by (intro piece_before assms pieces) (simp_all add: const)
  from built_before [OF this built_after [OF built_where_clause [OF assms(1)] tail]]
  show ?thesis using scan_query [of "'' r.'' @ idColumn @ '' AS '' @ quoteIdentifier idp @ '' FROM '' @ buildTableRef meta @ '' AS r ''
       @ where_clause_sql ss @ '' '' @ order_clause parts @ '' ''
       @ paging_clause ''LIMIT'' (push_limit opts) @ '' '' @ paging_clause ''OFFSET'' (push_offset opts)" qs]
    by (simp add: id_query_def)
qed

lemma scan_count_query:
  assumes "all_built [] ss qs"
  shows "sql_scan Outside (count_query meta ss) = Some [1..<Suc (length qs)]"
proof -
  have "sql_piece (''SELECT'' @ '' COUNT(*) AS count FROM '' @ buildTableRef meta @ '' AS r '') []"
    by (intro piece_before pieces) (simp_all add: const)
  from built_before [OF this built_where_clause [OF assms]]
  show ?thesis using scan_query [of "'' COUNT(*) AS count FROM '' @ buildTableRef meta @ '' AS r '' @ where_clause_sql ss" qs]
    by (simp add: count_query_def)
qed

lemma or_decline_Query:
  "or_decline r reason f = Inr (Query s ps) \<longleftrightarrow> (\<exists>x. r = Inr x \<and> f x = Inr (Query s ps))"
  by (auto simp: or_decline_def split: sum.split push_error.split)

lemma mixed_clauses_built:
  assumes "mixed_clauses w m e opts k = Inr (Query s ps)"
  shows "\<exists>ss qs. all_built [] ss qs \<and> k ss qs = Inr (Query s ps)"
proof -
  obtain base params frag keys qs where r: "base_where like_not_nullish w m opts = Inr (base, params)"
    "translateMixedPredicateExpression w m ''r'' (normalize_max (push_maxDepth opts) 5) e params = Inr (frag, keys, qs)"
    "k (base @ [frag]) qs = Inr (Query s ps)"
    using assms by (auto simp: mixed_clauses_def or_decline_Query split: if_splits)
  have "sql_piece ''r'' []" by (simp add: const)
  from yields_mixed(1) [OF this, of params w m "normalize_max (push_maxDepth opts) 5" e] r(2) have "built params frag qs"
    by (simp add: yields_nav_def)
  with r(3) all_built_snoc [OF all_built_base [OF r(1)]] show ?thesis by blast
qed

lemma mixed_queries_safe:
  "buildPostgresMixedFilterIdQuery w m e opts = Inr (Query s ps) \<Longrightarrow> sql_scan Outside s = Some [1..<Suc (length ps)]"
  "buildPostgresMixedFilterCountQuery w m e opts = Inr (Query s ps) \<Longrightarrow> sql_scan Outside s = Some [1..<Suc (length ps)]"
proof -
  show "sql_scan Outside s = Some [1..<Suc (length ps)]" if "buildPostgresMixedFilterCountQuery w m e opts = Inr (Query s ps)"
    using that by (auto simp: buildPostgresMixedFilterCountQuery_def or_decline_Query split: if_splits
        dest!: mixed_clauses_built intro: scan_count_query simp del: upt_Suc One_nat_def)
  show "sql_scan Outside s = Some [1..<Suc (length ps)]" if "buildPostgresMixedFilterIdQuery w m e opts = Inr (Query s ps)"
    using that by (auto simp: buildPostgresMixedFilterIdQuery_def or_decline_Query split: if_splits option.splits
        dest!: mixed_clauses_built intro!: scan_id_query intro: pieces_order piece_column simp del: upt_Suc One_nat_def)
qed

end
