(* ===== verification/PushdownShape.thy ===== *)
theory PushdownShape
  imports PushdownSafety
begin

text \<open>
  The text of a pushed down filter depends on the shape of the filter only: two filters that differ in
  their literals give one text. And the query for the count has the clauses of the query for the
  identifiers.
\<close>

section \<open>Filters without their literals\<close>

definition blank_item :: "js_value \<Rightarrow> js_value" where
  "blank_item v = (if v = JNull then JNull else JStr [])"

fun blank_value :: "js_value \<Rightarrow> js_value" where
  "blank_value (JArr vs) = JArr (map blank_item vs)"
| "blank_value v = blank_item v"

fun blank_string :: "js_value \<Rightarrow> js_value" where
  "blank_string (JStr s) = JStr []"
| "blank_string v = v"

fun blank_arg :: "function_arg \<Rightarrow> function_arg" where
  "blank_arg (ArgLiteral v) = ArgLiteral JNull"
| "blank_arg (ArgField f t) = ArgField f t"

fun blank :: "parsed_expression \<Rightarrow> parsed_expression" where
  "blank (Logical t es) = Logical t (map blank es)"
| "blank (Not e) = Not (blank e)"
| "blank (Comparison f c v) = Comparison f c (blank_value v)"
| "blank (TransformCmp t f c v) = TransformCmp t f c (map_option (\<lambda>_. []) v)"
| "blank (StringTest fn f vs ci t neg) = StringTest fn f (map blank_string vs) ci t neg"
| "blank (StringFnCmp fn args c v) = StringFnCmp fn (map blank_arg args) c []"
| "blank (DatePart part f c x) = DatePart part f c 0"
| "blank (IndexOfCmp f c x needle) = IndexOfCmp f c x []"
| "blank (SubstrCmp f x len c lit) = SubstrCmp f 0 (map_option (\<lambda>_. 0) len) c []"
| "blank (LengthCmp f c x) = LengthCmp f c x"
| "blank (FnCmp fn f c x) = FnCmp fn f c x"
| "blank (Lambda k path alias p) = Lambda k path alias p"

section \<open>The same text\<close>

text \<open>Two attempts that fail alike, or give one text and as many parameters.\<close>

definition alike :: "('a \<times> js_value list) push \<Rightarrow> ('a \<times> js_value list) push \<Rightarrow> bool" where
  "alike = rel_sum (=) (rel_prod (=) (\<lambda>ps qs. length ps = length qs))"

lemma alike_Inl [simp]: "alike (Inl e) (Inl e)"
  by (simp add: alike_def)

lemma alike_Inr [simp]: "alike (Inr (s, ps)) (Inr (t, qs)) \<longleftrightarrow> s = t \<and> length ps = length qs"
  by (simp add: alike_def)

lemma alike_InrI: "fst r = fst r' \<Longrightarrow> length (snd r) = length (snd r') \<Longrightarrow> alike (Inr r) (Inr r')"
  by (cases r; cases r') simp

lemma alike_bind:
  assumes "alike r r'" "\<And>s ps qs. length ps = length qs \<Longrightarrow> alike (f s ps) (g s qs)"
  shows "alike (pbind r (\<lambda>(s, ps). f s ps)) (pbind r' (\<lambda>(s, qs). g s qs))"
  using assms by (cases r; cases r') (auto simp: alike_def rel_sum_simps elim!: rel_prod.cases)

lemma alike_same_bind: "(\<And>x. alike (f x) (g x)) \<Longrightarrow> alike (pbind r f) (pbind r g)"
  by (cases r) simp_all

lemma compared_alike:
  "length ps = length qs \<Longrightarrow> alike (Inr (compared lhs sign v rest ps)) (Inr (compared lhs sign u rest qs))"
  by (simp add: compared_def placeholder_def)

lemma like_alike: "length ps = length qs \<Longrightarrow> alike (Inr (like_sql lhs sign v ps)) (Inr (like_sql lhs sign u qs))"
  by (simp add: like_sql_def compared_alike)

lemma placeholders_alike:
  "length ps = length qs \<Longrightarrow> length vs = length us \<Longrightarrow>
     fst (placeholders ps vs) = fst (placeholders qs us) \<and> length (snd (placeholders ps vs)) = length (snd (placeholders qs us))"
proof (induction vs arbitrary: us ps qs)
  case (Cons v vs)
  then obtain u us' where u: "us = u # us'" "length vs = length us'" by (cases us) auto
  from Cons.IH [of "ps @ [v]" "qs @ [u]" us'] Cons.prems(1) u show ?case
    by (simp add: placeholder_def case_prod_beta Let_def)
qed simp

lemma blank_item_null [simp]: "blank_item v = JNull \<longleftrightarrow> v = JNull" "JNull = blank_item v \<longleftrightarrow> v = JNull"
  by (auto simp: blank_item_def)

lemma in_list_alike:
  assumes "length ps = length qs"
  shows "alike (Inr (in_list_sql col inq vs ps)) (Inr (in_list_sql col inq (map blank_item vs) qs))"
proof -
  have "JNull \<in> set (map blank_item vs) \<longleftrightarrow> JNull \<in> set vs" by (auto simp: image_iff)
  moreover have "filter (\<lambda>v. v \<noteq> JNull) (map blank_item vs) = map blank_item (filter (\<lambda>v. v \<noteq> JNull) vs)"
    by (induction vs) auto
  moreover note placeholders_alike [OF assms, of "filter (\<lambda>v. v \<noteq> JNull) vs" "map blank_item (filter (\<lambda>v. v \<noteq> JNull) vs)"]
  ultimately show ?thesis by (intro alike_InrI) (auto simp: in_list_sql_def Let_def case_prod_beta)
qed

lemma null_alike: "length ps = length qs \<Longrightarrow> alike (null_test lhs c ps) (null_test lhs c qs)"
  by (cases c) (simp_all add: null_test_def)

lemma comparison_alike:
  assumes "length ps = length qs"
  shows "alike (comparison_sql col c v ps) (comparison_sql col c (blank_value v) qs)"
proof (cases "c = Inq \<or> c = Nin")
  case True
  with assms show ?thesis by (cases v) (auto simp: comparison_sql_def in_list_alike blank_item_def)
next
  case False
  have "blank_value v = JNull \<longleftrightarrow> v = JNull" by (cases v) auto
  with assms False null_alike compared_alike show ?thesis
    by (auto simp: comparison_sql_def split: option.split)
qed

lemma transform_alike:
  "length ps = length qs \<Longrightarrow> alike (transform_sql col t c v ps) (transform_sql col t c (map_option (\<lambda>_. []) v) qs)"
  by (cases v) (auto simp: transform_sql_def Let_def null_alike compared_alike)

lemma function_alike:
  "length ps = length qs \<Longrightarrow> alike (function_sql col fn vs ci t neg ps) (function_sql col fn (map blank_string vs) ci t neg qs)"
  by (cases vs; cases "hd vs") (auto simp: function_sql_def intro!: like_alike)

lemma arg_alike: "length ps = length qs \<Longrightarrow> alike (resolve_arg w m a arg ps) (resolve_arg w m a (blank_arg arg) qs)"
  by (cases arg) (auto simp: resolve_arg_def placeholder_def intro!: alike_same_bind)

lemma concat_alike:
  "length ps = length qs \<Longrightarrow>
     alike (concat_parts (resolve_arg w m a) args ps) (concat_parts (resolve_arg w m a) (map blank_arg args) qs)"
proof (induction args arbitrary: ps qs)
  case (Cons arg args)
  have "alike (case arg of ArgLiteral v \<Rightarrow> (let (s, ps1) = placeholder ps v in Inr (s @ ''::TEXT'', ps1)) | ArgField name t \<Rightarrow> resolve_arg w m a arg ps)
    (case blank_arg arg of ArgLiteral v \<Rightarrow> (let (s, ps1) = placeholder qs v in Inr (s @ ''::TEXT'', ps1))
      | ArgField name t \<Rightarrow> resolve_arg w m a (blank_arg arg) qs)"
    using Cons.prems arg_alike [OF Cons.prems, of w m a arg] by (cases arg) (simp_all add: placeholder_def)
  then show ?case unfolding concat_parts.simps list.map
    by (rule alike_bind) (rule alike_bind [OF Cons.IH], simp_all)
qed simp

lemma string_function_alike:
  assumes "length ps = length qs"
  shows "alike (translateRootStringFunction w m a fn args c v ps) (translateRootStringFunction w m a fn (map blank_arg args) c [] qs)"
proof (cases fn)
  case Trim
  then show ?thesis unfolding translateRootStringFunction_def Let_def
    by (cases args; cases "tl args")
      (auto intro!: alike_bind [where f = "\<lambda>s ps. Inr (f s ps)" and g = "\<lambda>s ps. Inr (g s ps)" for f g] arg_alike assms compared_alike)
next
  case Concat
  then show ?thesis unfolding translateRootStringFunction_def Let_def
    by (auto intro!: alike_bind [where f = "\<lambda>s ps. Inr (f s ps)" and g = "\<lambda>s ps. Inr (g s ps)" for f g] concat_alike assms compared_alike)
qed

section \<open>Filters\<close>

lemma alike_no_joins: "alike r r' \<Longrightarrow> rel_sum (=) (rel_prod (=) (rel_prod (=) (\<lambda>ps qs. length ps = length qs))) (no_joins r) (no_joins r')"
  by (cases r; cases r') (auto simp: alike_def no_joins_def elim!: rel_prod.cases)

text \<open>The same for results that also have the joins.\<close>

definition alike_nav ::
  "('a \<times> string list \<times> js_value list) push \<Rightarrow> ('a \<times> string list \<times> js_value list) push \<Rightarrow> bool" where
  "alike_nav = rel_sum (=) (rel_prod (=) (rel_prod (=) (\<lambda>ps qs. length ps = length qs)))"

lemma alike_nav_simps [simp]:
  "alike_nav (Inl e) (Inl e)"
  "alike_nav (Inr (s, k, ps)) (Inr (t, l, qs)) \<longleftrightarrow> s = t \<and> k = l \<and> length ps = length qs"
  by (simp_all add: alike_nav_def)

lemma alike_nav_bind:
  assumes "alike_nav r r'" "\<And>s k ps qs. r = Inr (s, k, ps) \<Longrightarrow> length ps = length qs \<Longrightarrow> alike_nav (f s k ps) (g s k qs)"
  shows "alike_nav (pbind r (\<lambda>(s, k, ps). f s k ps)) (pbind r' (\<lambda>(s, k, qs). g s k qs))"
  using assms by (cases r; cases r') (auto simp: alike_nav_def elim!: rel_prod.cases)

lemma alike_nav_same: "(\<And>x. alike_nav (f x) (g x)) \<Longrightarrow> alike_nav (pbind r f) (pbind r g)"
  by (cases r) simp_all

lemma nav_of_alike:
  "alike r r' \<Longrightarrow> alike_nav (pbind r (\<lambda>(s, ps). Inr (h s, k, ps))) (pbind r' (\<lambda>(s, ps). Inr (h s, k, ps)))"
  by (cases r; cases r') (auto simp: alike_def elim!: rel_prod.cases)

lemma no_joins_alike: "alike r r' \<Longrightarrow> alike_nav (no_joins r) (no_joins r')"
  unfolding no_joins_def by (rule nav_of_alike)

lemma nav_leaf_alike:
  assumes "\<And>col. alike (leaf col ps) (leaf' col qs)"
  shows "alike_nav (translateNavLeaf w m a d f leaf ps) (translateNavLeaf w m a d f leaf' qs)"
  unfolding translateNavLeaf_def Let_def
  by (auto split: sum.split option.split intro!: alike_nav_same nav_of_alike assms)

lemma root_alike: "(\<And>col. alike (f col) (g col)) \<Longrightarrow> alike_nav (no_joins (pbind r f)) (no_joins (pbind r g))"
  by (intro no_joins_alike alike_same_bind)

lemma mixed_alike:
  "length ps1 = length qs1 \<Longrightarrow>
     alike_nav (translateMixedPredicateExpression w m a d e ps1) (translateMixedPredicateExpression w m a d (blank e) qs1)"
  "length ps2 = length qs2 \<Longrightarrow> alike_nav (mixed_children w m a d es ps2) (mixed_children w m a d (map blank es) qs2)"
proof (induction w m a d e ps1 and w m a d es ps2 arbitrary: qs1 and qs2
    rule: translateMixedPredicateExpression_mixed_children.induct)
  case (1 w m a d t es params)
  then show ?case by (auto intro!: alike_nav_bind)
next
  case (2 w m a d e params)
  then show ?case by (auto intro!: alike_nav_bind)
next
  case (3 w m a d f c v params)
  then show ?case by (auto simp: translateRootComparison_def intro!: nav_leaf_alike root_alike comparison_alike)
next
  case (4 w m a d t f c v params)
  then show ?case by (auto simp: translateRootTransformComparison_def intro!: nav_leaf_alike root_alike transform_alike)
next
  case (5 w m a d fn f vs ci t neg params)
  then show ?case by (auto simp: translateRootFunction_def intro!: nav_leaf_alike root_alike function_alike)
next
  case (6 w m a d fn args c v params)
  then show ?case by (auto intro!: no_joins_alike string_function_alike)
next
  case (7 w m a d part f c x params)
  then show ?case by (auto simp: translateRootDatePart_def intro!: root_alike compared_alike split: option.split)
next
  case (8 w m a d f c x needle params)
  then show ?case by (auto simp: translateRootIndexOf_def intro!: root_alike like_alike)
next
  case (9 w m a d f x len c lit params)
  then show ?case by (auto simp: translateRootSubstring_def intro!: root_alike like_alike)
next
  case (10 w m a d f c x params)
  then show ?case
    by (cases c) (auto simp: translateRootLength_def Let_def intro!: root_alike like_alike compared_alike)
next
  case (14 w m a d e es params)
  show ?case unfolding mixed_children.simps list.map
  proof (rule alike_nav_bind [OF 14(1) [OF 14(3)]])
    fix s k ps and qs :: "js_value list"
    assume r: "translateMixedPredicateExpression w m a d e params = Inr (s, k, ps)" and l: "length ps = length qs"
    show "alike_nav (pbind (mixed_children w m a d es ps) (\<lambda>(ss, keys', params2). Inr (s # ss, unionJoinKeys k keys', params2)))
        (pbind (mixed_children w m a d (map blank es) qs) (\<lambda>(ss, keys', params2). Inr (s # ss, unionJoinKeys k keys', params2)))"
      by (rule alike_nav_bind [OF 14(2) [OF r refl refl l]]) simp
  qed
qed simp_all

section \<open>Queries\<close>

lemma mixed_clauses_cases:
  assumes "mixed_clauses w m e opts k = Inr (Query s ps)"
  obtains base params frag keys qs where "base_where like_not_nullish w m opts = Inr (base, params)"
    "translateMixedPredicateExpression w m ''r'' (normalize_max (push_maxDepth opts) 5) e params = Inr (frag, keys, qs)"
    "length keys \<le> normalize_max (push_maxJoinCount opts) 8" "k (base @ [frag]) qs = Inr (Query s ps)"
  using assms by (auto simp: mixed_clauses_def or_decline_Query split: if_splits)

lemma mixed_clauses_blank:
  assumes "mixed_clauses w m e opts k = Inr (Query s ps)"
    and "\<And>parts ps qs t. k parts ps = Inr (Query s t) \<Longrightarrow> t = ps \<and> k parts qs = Inr (Query s qs)"
  shows "\<exists>qs. mixed_clauses w m (blank e) opts k = Inr (Query s qs) \<and> length qs = length ps"
proof -
  obtain base params frag keys qs where r: "base_where like_not_nullish w m opts = Inr (base, params)"
    "translateMixedPredicateExpression w m ''r'' (normalize_max (push_maxDepth opts) 5) e params = Inr (frag, keys, qs)"
    "length keys \<le> normalize_max (push_maxJoinCount opts) 8" "k (base @ [frag]) qs = Inr (Query s ps)"
    by (rule mixed_clauses_cases [OF assms(1)])
  from mixed_alike(1) [OF refl, of w m "''r''" "normalize_max (push_maxDepth opts) 5" e params] r(2) obtain qs' where
    b: "translateMixedPredicateExpression w m ''r'' (normalize_max (push_maxDepth opts) 5) (blank e) params = Inr (frag, keys, qs')"
    "length qs = length qs'"
    by (auto simp: alike_nav_def rel_sum.simps rel_prod.simps)
  from assms(2) [OF r(4)] have "ps = qs" "k (base @ [frag]) qs' = Inr (Query s qs')" by auto
  with r b show ?thesis by (simp add: mixed_clauses_def or_decline_def)
qed

lemma id_query_blank:
  assumes "buildPostgresMixedFilterIdQuery w m e opts = Inr (Query s ps)"
  shows "\<exists>qs. buildPostgresMixedFilterIdQuery w m (blank e) opts = Inr (Query s qs) \<and> length qs = length ps"
proof -
  obtain idp meta idc where i: "supportsPostgresLambdaPushdown w" "getSingleIdProperty w m = Some idp"
    "metadata_of w m = Inr meta" "resolveColumn w m idp = Inr idc"
    "mixed_clauses w m e opts (\<lambda>parts params. or_decline (order_parts w m (push_order opts)) ''unsupported-order''
       (\<lambda>orderParts. Inr (Query (id_query idc idp meta parts orderParts opts) params))) = Inr (Query s ps)"
    using assms by (auto simp: buildPostgresMixedFilterIdQuery_def or_decline_Query split: if_splits option.splits)
  from mixed_clauses_blank [OF i(5)] obtain qs where
    "mixed_clauses w m (blank e) opts (\<lambda>parts params. or_decline (order_parts w m (push_order opts)) ''unsupported-order''
       (\<lambda>orderParts. Inr (Query (id_query idc idp meta parts orderParts opts) params))) = Inr (Query s qs)" "length qs = length ps"
    by (auto simp: or_decline_Query)
  with i(1-4) show ?thesis by (auto simp: buildPostgresMixedFilterIdQuery_def or_decline_def)
qed

text \<open>Where the query for the identifiers is built, so is the one for the count, over the same rows.\<close>

lemma count_of_id_query:
  assumes "buildPostgresMixedFilterIdQuery w m e opts = Inr (Query s ps)"
  shows "\<exists>idc idp meta parts orderParts. s = id_query idc idp meta parts orderParts opts
    \<and> buildPostgresMixedFilterCountQuery w m e opts = Inr (Query (count_query meta parts) ps)"
proof -
  obtain idp meta idc where i: "supportsPostgresLambdaPushdown w" "getSingleIdProperty w m = Some idp"
    "metadata_of w m = Inr meta" "resolveColumn w m idp = Inr idc"
    "mixed_clauses w m e opts (\<lambda>parts params. or_decline (order_parts w m (push_order opts)) ''unsupported-order''
       (\<lambda>orderParts. Inr (Query (id_query idc idp meta parts orderParts opts) params))) = Inr (Query s ps)"
    using assms by (auto simp: buildPostgresMixedFilterIdQuery_def or_decline_Query split: if_splits option.splits)
  obtain base params frag keys qs where r: "base_where like_not_nullish w m opts = Inr (base, params)"
    "translateMixedPredicateExpression w m ''r'' (normalize_max (push_maxDepth opts) 5) e params = Inr (frag, keys, qs)"
    "length keys \<le> normalize_max (push_maxJoinCount opts) 8"
    "or_decline (order_parts w m (push_order opts)) ''unsupported-order''
       (\<lambda>orderParts. Inr (Query (id_query idc idp meta (base @ [frag]) orderParts opts) qs)) = Inr (Query s ps)"
    by (rule mixed_clauses_cases [OF i(5)])
  from r(4) obtain orderParts where "s = id_query idc idp meta (base @ [frag]) orderParts opts" "ps = qs"
    by (auto simp: or_decline_Query)
  moreover from i(1,3) r(1-3) have "buildPostgresMixedFilterCountQuery w m e opts = Inr (Query (count_query meta (base @ [frag])) qs)"
    by (simp add: buildPostgresMixedFilterCountQuery_def mixed_clauses_def or_decline_def)
  ultimately show ?thesis by blast
qed

end
