(* ===== verification/LambdaPushdown.thy ===== *)
theory LambdaPushdown
  imports PushdownSafety
begin

text \<open>
  The SQL of \<open>postgres-lambda-pushdown.ts\<close>: a filter whose lambdas become \<open>EXISTS\<close> queries over the joins
  of their paths, nested as the lambdas are. Besides the parameters the builders share a counter for
  the aliases of tables. A \<open>LambdaPushdownBuildError\<close> is a \<open>LambdaRejected\<close> with its reason.
\<close>

section \<open>Fields\<close>

text \<open>An alias stands for a model and the alias of its table; outside every lambda there is a default.\<close>

record pred_ctx =
  bound :: "(string \<times> string \<times> string) list"
  default_binding :: "(string \<times> string) option"

text \<open>
  A name the object of the bindings inherits finds a function, which has no model; asking for the columns
  of none throws.
\<close>

definition inherited_column :: "string \<Rightarrow> string push" where
  "inherited_column p =
     (if p = [] \<or> CHR ''/'' \<in> set p \<or> CHR ''.'' \<in> set p \<or> p \<in> set DANGEROUS_FIELD_NAMES then Inl Undefined
      else Inl (Thrown TypeError))"

definition resolvePredicateField :: "world \<Rightarrow> pred_ctx \<Rightarrow> string \<Rightarrow> string push" where
  "resolvePredicateField w ctx field =
     (if field = [] then Inl Undefined
      else case split_on CHR ''/'' field of
          [] \<Rightarrow> Inl Undefined
        | [p] \<Rightarrow> (case default_binding ctx of None \<Rightarrow> Inl Undefined | Some (m, a) \<Rightarrow> column_in w m a p)
        | token # rest \<Rightarrow>
            if token = [] then Inl Undefined
            else (case map_of (bound ctx) token of
                Some (m, a) \<Rightarrow> column_in w m a (join ''/'' rest)
              | None \<Rightarrow> if token \<in> set inherited_names then inherited_column (join ''/'' rest) else Inl Undefined))"

section \<open>Lambdas\<close>

type_synonym lambda_out = "(string \<times> nat \<times> js_value list \<times> nat) push"

definition join_condition :: "join_segment \<Rightarrow> string \<Rightarrow> string \<Rightarrow> string \<Rightarrow> string \<Rightarrow> string" where
  "join_condition seg sourceAlias sourceColumn targetAlias targetColumn =
     (if relationType seg = BelongsTo then equal_columns sourceAlias sourceColumn targetAlias targetColumn
      else equal_columns targetAlias targetColumn sourceAlias sourceColumn)"

definition segment_columns :: "world \<Rightarrow> join_segment \<Rightarrow> (string \<times> string) push" where
  "segment_columns w seg =
     pboth (resolveColumn w (sourceModel seg) (sourceKey seg)) (resolveColumn w (targetModel seg) (targetKey seg))"

fun lambda_joins :: "world \<Rightarrow> nat \<Rightarrow> join_segment list \<Rightarrow> string list push" where
  "lambda_joins w i [] = Inr []"
| "lambda_joins w i (seg # segs) =
     pbind (metadata_of w (targetModel seg)) (\<lambda>meta.
     pbind (segment_columns w seg) (\<lambda>(sourceColumn, targetColumn).
     pbind (lambda_joins w (i + 1) segs) (\<lambda>rest.
       Inr ((''JOIN '' @ buildTableRef meta @ '' AS '' @ table_alias (i + 1) @ '' ON ''
         @ join_condition seg (table_alias i) sourceColumn (table_alias (i + 1)) targetColumn) # rest))))"

text \<open>\<open>predicate\<close> translates the predicate of the lambda with the alias bound.\<close>

definition buildLambdaExistsClause ::
  "world \<Rightarrow> string \<times> string \<Rightarrow> string list \<Rightarrow> lambda_type \<Rightarrow> string \<Rightarrow> (string \<times> string \<times> string) list
     \<Rightarrow> (pred_ctx \<Rightarrow> js_value list \<Rightarrow> nat \<Rightarrow> lambda_out) \<Rightarrow> js_value list \<Rightarrow> nat \<Rightarrow> lambda_out" where
  "buildLambdaExistsClause w src path kind token outer predicate params n =
     (case resolveNavigationPath w (fst src) (join ''/'' path) 5 True of
        Inl (Some reason) \<Rightarrow> Inl (Thrown (LambdaRejected reason))
      | Inl None \<Rightarrow> Inl Undefined
      | Inr p \<Rightarrow>
          (let js = joins p; first = hd js; lambdaModel = targetModel (last js); firstAlias = table_alias (n + 1)
           in if js = [] \<or> propertyPath p \<noteq> None then Inl Undefined
              else pbind (metadata_of w lambdaModel) (\<lambda>_.
                pbind (metadata_of w (targetModel first)) (\<lambda>meta.
                pbind (segment_columns w first) (\<lambda>(sourceColumn, targetColumn).
                pbind (lambda_joins w (n + 1) (tl js)) (\<lambda>joinClauses.
                pbind (predicate \<lparr>bound = obj_set token (lambdaModel, table_alias (n + length js)) outer, default_binding = None\<rparr>
                    params (n + length js)) (\<lambda>(s, joinCount, params1, n1).
                  let from = buildTableRef meta @ '' AS '' @ firstAlias;
                      condition = join_condition first (snd src) sourceColumn firstAlias targetColumn
                  in Inr (case kind of
                        AnyOf \<Rightarrow> exists_sql from joinClauses [condition, s]
                      | AllOf \<Rightarrow> ''NOT '' @ exists_sql from joinClauses [condition, paren s @ '' IS NOT TRUE''],
                     length js - 1 + joinCount, params1, n1))))))))"

text \<open>Inside a filter, what a lambda throws is \<open>undefined\<close>, but for the errors with a reason.\<close>

definition catch_lambda :: "lambda_out \<Rightarrow> lambda_out" where
  "catch_lambda r =
     (case r of
        Inl (Thrown (LambdaRejected reason)) \<Rightarrow> r
      | Inl _ \<Rightarrow> Inl Undefined
      | Inr _ \<Rightarrow> r)"

definition lambda_comparison :: "string \<Rightarrow> comparator \<Rightarrow> js_value \<Rightarrow> js_value list \<Rightarrow> sql_out" where
  "lambda_comparison col c v params =
     (case comparator_sql c of
        None \<Rightarrow> Inl Undefined
      | Some sign \<Rightarrow> if v = JNull then null_test col c params else Inr (compared col sign v [] params))"

definition predicate_arg :: "world \<Rightarrow> pred_ctx \<Rightarrow> function_arg \<Rightarrow> js_value list \<Rightarrow> sql_out" where
  "predicate_arg w ctx arg params =
     (case arg of
        ArgLiteral v \<Rightarrow> Inr (placeholder params v)
      | ArgField name t \<Rightarrow> pbind (resolvePredicateField w ctx name) (\<lambda>col. Inr (transformed_sql t col, params)))"

definition predicate_string_function ::
  "world \<Rightarrow> pred_ctx \<Rightarrow> string_fn \<Rightarrow> function_arg list \<Rightarrow> comparator \<Rightarrow> string \<Rightarrow> js_value list \<Rightarrow> sql_out" where
  "predicate_string_function w ctx fn args c value params =
     (let finish = (\<lambda>f s params1. if c = Eq then Inr (compared (f @ paren s) ''='' (JStr value) [] params1)
                      else if c = Neq then Inr (compared (f @ paren s) ''<>'' (JStr value) [] params1)
                      else Inl Undefined)
      in case fn of
          Trim \<Rightarrow>
            (case args of
               [arg] \<Rightarrow> pbind (predicate_arg w ctx arg params) (\<lambda>(s, params1). finish ''btrim'' s params1)
             | _ \<Rightarrow> Inl Undefined)
        | Concat \<Rightarrow>
            (if length args < 2 then Inl Undefined
             else pbind (concat_parts (predicate_arg w ctx) args params) (\<lambda>(ss, params1).
               finish ''concat'' (join '', '' ss) params1)))"

definition no_lambda :: "sql_out \<Rightarrow> nat \<Rightarrow> lambda_out" where
  "no_lambda r n = pbind r (\<lambda>(s, params). Inr (s, 0, params, n))"

text \<open>The source of a lambda: its path starts at an alias, or at the default.\<close>

definition lambda_source :: "pred_ctx \<Rightarrow> string list \<Rightarrow> ((string \<times> string) \<times> string list) push" where
  "lambda_source ctx path =
     (let from_default = (case default_binding ctx of
            None \<Rightarrow> Inl Undefined
          | Some b \<Rightarrow> if path = [] then Inl Undefined else Inr (b, path))
      in case path of
          token # rest \<Rightarrow>
            if token = [] \<or> rest = [] then from_default
            else (case map_of (bound ctx) token of
                Some b \<Rightarrow> Inr (b, rest)
              | None \<Rightarrow> if token \<in> set inherited_names then Inl Undefined else from_default)
        | [] \<Rightarrow> from_default)"

fun translatePredicateExpression :: "world \<Rightarrow> pred_ctx \<Rightarrow> parsed_expression \<Rightarrow> js_value list \<Rightarrow> nat \<Rightarrow> lambda_out"
  and predicate_children ::
    "world \<Rightarrow> pred_ctx \<Rightarrow> parsed_expression list \<Rightarrow> js_value list \<Rightarrow> nat \<Rightarrow> (string list \<times> nat \<times> js_value list \<times> nat) push"
where
  "translatePredicateExpression w ctx (Comparison f c v) params n =
     no_lambda (pbind (resolvePredicateField w ctx f) (\<lambda>col. lambda_comparison col c v params)) n"
| "translatePredicateExpression w ctx (TransformCmp t f c v) params n =
     no_lambda (pbind (resolvePredicateField w ctx f) (\<lambda>col. transform_sql col t c v params)) n"
| "translatePredicateExpression w ctx (Logical t es) params n =
     pbind (predicate_children w ctx es params n) (\<lambda>(ss, joinCount, params1, n1).
       if ss = [] then Inl Undefined
       else Inr (joined (case t of And \<Rightarrow> '' AND '' | Or \<Rightarrow> '' OR '') ss, joinCount, params1, n1))"
| "translatePredicateExpression w ctx (Not e) params n =
     pbind (translatePredicateExpression w ctx e params n) (\<lambda>(s, joinCount, params1, n1).
       Inr (''NOT '' @ paren s, joinCount, params1, n1))"
| "translatePredicateExpression w ctx (StringTest fn f vs ci t neg) params n =
     no_lambda (pbind (resolvePredicateField w ctx f) (\<lambda>col. function_sql col fn vs ci t neg params)) n"
| "translatePredicateExpression w ctx (StringFnCmp fn args c v) params n =
     no_lambda (predicate_string_function w ctx fn args c v params) n"
| "translatePredicateExpression w ctx (DatePart part f c x) params n =
     no_lambda (pbind (resolvePredicateField w ctx f) (\<lambda>col.
       case comparator_sql c of
         None \<Rightarrow> Inl Undefined
       | Some sign \<Rightarrow> Inr (compared (extract_sql part col) sign (JNum (Finite x)) [] params))) n"
| "translatePredicateExpression w ctx (LengthCmp f c x) params n =
     no_lambda (pbind (resolvePredicateField w ctx f) (\<lambda>col.
       if x < 0 \<or> \<not> is_integer x then Inl Undefined
       else case comparator_sql c of
         None \<Rightarrow> Inl Undefined
       | Some sign \<Rightarrow> Inr (compared (''char_length'' @ paren col) sign (JNum (Finite x)) [] params))) n"
| "translatePredicateExpression w ctx (Lambda kind path token p) params n =
     pbind (lambda_source ctx path) (\<lambda>(src, rest).
       catch_lambda (buildLambdaExistsClause w src rest kind token (bound ctx)
         (\<lambda>ctx' params' n'. translatePredicateExpression w ctx' p params' n') params n))"
| "translatePredicateExpression w ctx (FnCmp fn f c x) params n = Inl Undefined"
| "translatePredicateExpression w ctx (IndexOfCmp f c x needle) params n = Inl Undefined"
| "translatePredicateExpression w ctx (SubstrCmp f x len c lit) params n = Inl Undefined"
| "predicate_children w ctx [] params n = Inr ([], 0, params, n)"
| "predicate_children w ctx (e # es) params n =
     pbind (translatePredicateExpression w ctx e params n) (\<lambda>(s, joinCount, params1, n1).
       pbind (predicate_children w ctx es params1 n1) (\<lambda>(ss, joinCount', params2, n2).
         Inr (s # ss, joinCount + joinCount', params2, n2)))"

section \<open>Queries\<close>

definition like_is_string :: "js_value \<Rightarrow> bool" where
  "like_is_string v = (case v of JStr s \<Rightarrow> True | _ \<Rightarrow> False)"

definition root_ctx :: "string \<Rightarrow> pred_ctx" where
  "root_ctx m = \<lparr>bound = [], default_binding = Some (m, ''r'')\<rparr>"

text \<open>\<open>catch {...}\<close> around a translation.\<close>

definition caught :: "'a push \<Rightarrow> 'a push" where
  "caught r = (case r of Inl _ \<Rightarrow> Inl Undefined | Inr x \<Rightarrow> Inr x)"

text \<open>The clauses of a filter; only the query for the identifiers catches what its translation throws.\<close>

definition filter_clauses ::
  "(lambda_out \<Rightarrow> lambda_out) \<Rightarrow> world \<Rightarrow> string \<Rightarrow> parsed_expression \<Rightarrow> push_options
     \<Rightarrow> (string list \<Rightarrow> js_value list \<Rightarrow> pushdown result) \<Rightarrow> pushdown result" where
  "filter_clauses guard w m e opts k =
     or_decline (base_where like_is_string w m opts) ''unsupported-root-where'' (\<lambda>(base, params).
     or_decline (guard (translatePredicateExpression w (root_ctx m) e params 0)) ''unsupported-filter''
         (\<lambda>(s, joinCount, params1, n).
       if normalize_max (push_maxJoinCount opts) 8 < joinCount then Inr (Decline ''pushdown-join-count-exceeded'')
       else k (base @ [s]) params1))"

text \<open>What every query for identifiers, and every query for a count, does around its clauses.\<close>

definition id_query_with ::
  "world \<Rightarrow> string \<Rightarrow> push_options \<Rightarrow> ((string list \<Rightarrow> js_value list \<Rightarrow> pushdown result) \<Rightarrow> pushdown result) \<Rightarrow> pushdown result" where
  "id_query_with w m opts clauses =
     (if \<not> supportsPostgresLambdaPushdown w then Inr (Decline ''non-postgres'')
      else case getSingleIdProperty w m of
          None \<Rightarrow> Inr (Decline ''composite-or-missing-id'')
        | Some idProperty \<Rightarrow>
            or_decline (metadata_of w m) ''missing-sql-metadata'' (\<lambda>meta.
            or_decline (resolveColumn w m idProperty) ''id-column-resolution'' (\<lambda>idColumn.
            clauses (\<lambda>whereParts params.
            or_decline (order_parts w m (push_order opts)) ''unsupported-order'' (\<lambda>orderParts.
              Inr (Query (id_query idColumn idProperty meta whereParts orderParts opts) params))))))"

definition count_query_with ::
  "world \<Rightarrow> string \<Rightarrow> ((string list \<Rightarrow> js_value list \<Rightarrow> pushdown result) \<Rightarrow> pushdown result) \<Rightarrow> pushdown result" where
  "count_query_with w m clauses =
     (if \<not> supportsPostgresLambdaPushdown w then Inr (Decline ''non-postgres'')
      else or_decline (metadata_of w m) ''missing-sql-metadata'' (\<lambda>meta.
        clauses (\<lambda>whereParts params. Inr (Query (count_query meta whereParts) params))))"

definition buildPostgresFilterIdQuery :: "world \<Rightarrow> string \<Rightarrow> parsed_expression \<Rightarrow> push_options \<Rightarrow> pushdown result" where
  "buildPostgresFilterIdQuery w m e opts = id_query_with w m opts (filter_clauses caught w m e opts)"

definition buildPostgresFilterCountQuery :: "world \<Rightarrow> string \<Rightarrow> parsed_expression \<Rightarrow> push_options \<Rightarrow> pushdown result" where
  "buildPostgresFilterCountQuery w m e opts = count_query_with w m (filter_clauses id w m e opts)"

text \<open>The lambdas of a filter: a tree with lambdas in it, or a list of them that all hold.\<close>

datatype lambda_input = Tree parsed_expression | Terms "lambda_expression list"

definition lambda_decline :: "lambda_out \<Rightarrow> (string \<times> nat \<times> js_value list \<times> nat \<Rightarrow> pushdown result) \<Rightarrow> pushdown result" where
  "lambda_decline r f =
     (case r of
        Inl (Thrown (LambdaRejected reason)) \<Rightarrow> Inr (Decline reason)
      | Inl _ \<Rightarrow> Inr (Decline ''unsupported-lambda'')
      | Inr x \<Rightarrow> f x)"

fun lambda_terms ::
  "world \<Rightarrow> string \<Rightarrow> nat \<Rightarrow> lambda_expression list \<Rightarrow> string list \<Rightarrow> nat \<Rightarrow> js_value list \<Rightarrow> nat
     \<Rightarrow> (string list \<Rightarrow> js_value list \<Rightarrow> pushdown result) \<Rightarrow> pushdown result" where
  "lambda_terms w m most [] ss joinCount params n k = k ss params"
| "lambda_terms w m most (l # ls) ss joinCount params n k =
     lambda_decline (buildLambdaExistsClause w (m, ''r'') (lambdaPath l) (lambdaType l) (lambdaAlias l) []
         (\<lambda>ctx params' n'. translatePredicateExpression w ctx (lambdaPredicate l) params' n') params n)
       (\<lambda>(s, j, params1, n1).
         if most < joinCount + j then Inr (Decline ''pushdown-join-count-exceeded'')
         else lambda_terms w m most ls (ss @ [s]) (joinCount + j) params1 n1 k)"

definition lambda_clauses ::
  "world \<Rightarrow> string \<Rightarrow> lambda_input \<Rightarrow> push_options \<Rightarrow> (string list \<Rightarrow> js_value list \<Rightarrow> pushdown result) \<Rightarrow> pushdown result" where
  "lambda_clauses w m input opts k =
     or_decline (base_where like_is_string w m opts) ''unsupported-root-where'' (\<lambda>(base, params).
     let most = normalize_max (push_maxJoinCount opts) 8
     in case input of
         Tree e \<Rightarrow>
           if \<not> containsLambda e then Inr (Decline ''no-lambdas'')
           else lambda_decline (translatePredicateExpression w (root_ctx m) e params 0) (\<lambda>(s, joinCount, params1, n).
             if most < joinCount then Inr (Decline ''pushdown-join-count-exceeded'') else k (base @ [s]) params1)
       | Terms ls \<Rightarrow>
           if ls = [] then Inr (Decline ''no-lambdas'') else lambda_terms w m most ls base 0 params 0 k)"

definition buildPostgresLambdaIdQuery :: "world \<Rightarrow> string \<Rightarrow> lambda_input \<Rightarrow> push_options \<Rightarrow> pushdown result" where
  "buildPostgresLambdaIdQuery w m input opts = id_query_with w m opts (lambda_clauses w m input opts)"

definition buildPostgresLambdaCountQuery :: "world \<Rightarrow> string \<Rightarrow> lambda_input \<Rightarrow> push_options \<Rightarrow> pushdown result" where
  "buildPostgresLambdaCountQuery w m input opts = count_query_with w m (lambda_clauses w m input opts)"

section \<open>The texts\<close>

definition ctx_ok :: "pred_ctx \<Rightarrow> bool" where
  "ctx_ok ctx \<longleftrightarrow> (\<forall>k m a. map_of (bound ctx) k = Some (m, a) \<longrightarrow> sql_piece a [])
     \<and> (\<forall>m a. default_binding ctx = Some (m, a) \<longrightarrow> sql_piece a [])"

definition yields_lambda :: "js_value list \<Rightarrow> lambda_out \<Rightarrow> bool" where
  "yields_lambda ps r \<longleftrightarrow> (\<forall>s j qs n. r = Inr (s, j, qs, n) \<longrightarrow> built ps s qs)"

lemma piece_field: "resolvePredicateField w ctx f = Inr col \<Longrightarrow> ctx_ok ctx \<Longrightarrow> sql_piece col []"
  by (auto simp: resolvePredicateField_def inherited_column_def ctx_ok_def split: if_splits list.splits option.splits
      intro: piece_column_in)

lemma yields_no_lambda: "yields ps r \<Longrightarrow> yields_lambda ps (no_lambda r n)"
  by (auto simp: yields_lambda_def no_lambda_def yields_def)

lemma yields_field_cond:
  assumes "ctx_ok ctx" "\<And>col. sql_piece col [] \<Longrightarrow> yields ps (f col)"
  shows "yields_lambda ps (no_lambda (pbind (resolvePredicateField w ctx field) f) n)"
  using assms piece_field [OF _ assms(1)] by (fastforce simp: yields_lambda_def no_lambda_def yields_def)

lemma yields_lambda_comparison: "sql_piece col [] \<Longrightarrow> yields ps (lambda_comparison col c v ps)"
  unfolding lambda_comparison_def
  by (auto split: option.split intro: yields_intro pieces piece_signs)

lemma yields_predicate_arg: "ctx_ok ctx \<Longrightarrow> yields ps (predicate_arg w ctx arg ps)"
  unfolding predicate_arg_def
  by (cases arg) (auto simp: yields_def intro: built_placeholder built_const piece_transformed piece_field)

lemma yields_finish:
  assumes "yields ps r" "sql_piece f []"
  shows "yields ps (pbind r (\<lambda>(s, ps1). if c = Eq then Inr (compared (f @ paren s) ''='' v [] ps1)
     else if c = Neq then Inr (compared (f @ paren s) ''<>'' v [] ps1) else Inl Undefined))"
  using yields_then [OF assms, of "''=''" v] yields_then [OF assms, of "''<>''" v] pieces
  by (cases "c = Eq"; cases "c = Neq") (auto simp: yields_def)

lemma yields_predicate_string:
  assumes "ctx_ok ctx"
  shows "yields ps (predicate_string_function w ctx fn args c v ps)"
proof -
  have flat: "pbind (pbind r (\<lambda>(ss, ps1). Inr (join '', '' ss, ps1))) (\<lambda>(s, ps1). f s ps1)
      = pbind r (\<lambda>(ss, ps1). f (join '', '' ss) ps1)" for r and f :: "string \<Rightarrow> js_value list \<Rightarrow> sql_out"
    by (cases r) auto
  have "yields ps (pbind (pbind (concat_parts (predicate_arg w ctx) args ps) (\<lambda>(ss, ps1). Inr (join '', '' ss, ps1)))
      (\<lambda>(s, ps1). if c = Eq then Inr (compared (''concat'' @ paren s) ''='' (JStr v) [] ps1)
         else if c = Neq then Inr (compared (''concat'' @ paren s) ''<>'' (JStr v) [] ps1) else Inl Undefined))"
    by (intro yields_finish yields_joined_list yields_concat_parts yields_predicate_arg assms) (rule pieces)+
  note concat = this [unfolded flat]
  have trim: "yields ps (pbind (predicate_arg w ctx arg ps) (\<lambda>(s, ps1).
        if c = Eq then Inr (compared (''btrim'' @ paren s) ''='' (JStr v) [] ps1)
         else if c = Neq then Inr (compared (''btrim'' @ paren s) ''<>'' (JStr v) [] ps1) else Inl Undefined))" for arg
    by (intro yields_finish yields_predicate_arg assms) (rule pieces)
  show ?thesis
  proof (cases fn)
    case Trim
    show ?thesis unfolding predicate_string_function_def Let_def Trim string_fn.case
      by (cases args; cases "tl args") (simp_all only: list.case list.sel yields_fail trim)
  next
    case Concat
    show ?thesis unfolding predicate_string_function_def Let_def Concat string_fn.case
      by (intro yields_if yields_fail concat)
  qed
qed

lemma piece_join_condition:
  "sql_piece a [] \<Longrightarrow> sql_piece c [] \<Longrightarrow> sql_piece b [] \<Longrightarrow> sql_piece d [] \<Longrightarrow> sql_piece (join_condition seg a c b d) []"
  by (simp add: join_condition_def piece_equal_columns)

lemma pieces_lambda_joins: "lambda_joins w i segs = Inr ss \<Longrightarrow> all_pieces ss []"
proof (induction w i segs arbitrary: ss rule: lambda_joins.induct)
  case (2 w i seg segs)
  then obtain meta sc tc rest where r: "segment_columns w seg = Inr (sc, tc)" "lambda_joins w (i + 1) segs = Inr rest"
    "ss = (''JOIN '' @ buildTableRef meta @ '' AS '' @ table_alias (i + 1) @ '' ON ''
         @ join_condition seg (table_alias i) sc (table_alias (i + 1)) tc) # rest"
    "metadata_of w (targetModel seg) = Inr meta"
    by (auto simp del: append_Cons append.append_Cons)
  have cols: "sql_piece sc []" "sql_piece tc []" using r(1) piece_column by (auto simp: segment_columns_def)
  have "all_pieces rest []" using 2(1) [OF r(4) r(1) refl r(2)] .
  moreover have "sql_piece (''JOIN '' @ buildTableRef meta @ '' AS '' @ table_alias (i + 1) @ '' ON ''
         @ join_condition seg (table_alias i) sc (table_alias (i + 1)) tc) []"
    by (intro piece_before piece_join_condition pieces cols) (simp_all add: const)
  ultimately show ?case unfolding r(3) by auto
qed simp

lemma yields_exists_clause:
  assumes "sql_piece (snd src) []" "\<forall>k m a. map_of outer k = Some (m, a) \<longrightarrow> sql_piece a []"
    and "\<And>ctx n. ctx_ok ctx \<Longrightarrow> yields_lambda ps (predicate ctx ps n)"
  shows "yields_lambda ps (buildLambdaExistsClause w src path kind token outer predicate ps n)"
  unfolding yields_lambda_def
proof (intro allI impI)
  fix s j qs k
  assume b: "buildLambdaExistsClause w src path kind token outer predicate ps n = Inr (s, j, qs, k)"
  obtain js meta sc tc joinClauses ctx c jc where r:
    "segment_columns w (hd js) = Inr (sc, tc)" "lambda_joins w (Suc n) (tl js) = Inr joinClauses"
    "predicate ctx ps (n + length js) = Inr (c, jc, qs, k)"
    "ctx = \<lparr>bound = obj_set token (targetModel (last js), table_alias (n + length js)) outer, default_binding = None\<rparr>"
    "s = (case kind of
        AnyOf \<Rightarrow> exists_sql (buildTableRef meta @ '' AS '' @ table_alias (Suc n)) joinClauses
          [join_condition (hd js) (snd src) sc (table_alias (Suc n)) tc, c]
      | AllOf \<Rightarrow> ''NOT '' @ exists_sql (buildTableRef meta @ '' AS '' @ table_alias (Suc n)) joinClauses
          [join_condition (hd js) (snd src) sc (table_alias (Suc n)) tc, paren c @ '' IS NOT TRUE''])"
    using b by (auto simp: buildLambdaExistsClause_def Let_def split: sum.splits option.splits if_splits
        simp del: append_Cons append.append_Cons)
  have "ctx_ok ctx" using assms(2) by (auto simp: ctx_ok_def r(4) piece_alias)
  from assms(3) [OF this, of "n + length js"] r(3) have c: "built ps c qs" by (auto simp: yields_lambda_def)
  have cols: "sql_piece sc []" "sql_piece tc []" using r(1) piece_column by (auto simp: segment_columns_def)
  have table: "sql_piece (buildTableRef meta @ '' AS '' @ table_alias (Suc n)) []"
    by (intro piece_before pieces) (simp add: const)
  have eq: "sql_piece (join_condition (hd js) (snd src) sc (table_alias (Suc n)) tc) []"
    by (intro piece_join_condition assms(1) cols pieces)
  have no: "built ps (paren c @ '' IS NOT TRUE'') qs" by (intro built_after built_paren c) (simp add: const)
  show "built ps s qs"
  proof (cases kind)
    case AnyOf
    with r(5) built_exists [OF table pieces_lambda_joins [OF r(2)] eq c] show ?thesis by simp
  next
    case AllOf
    have "built ps (''NOT '' @ exists_sql (buildTableRef meta @ '' AS '' @ table_alias (Suc n)) joinClauses
          [join_condition (hd js) (snd src) sc (table_alias (Suc n)) tc, paren c @ '' IS NOT TRUE'']) qs"
      by (rule built_before [OF _ built_exists [OF table pieces_lambda_joins [OF r(2)] eq no]]) (rule pieces)
    with AllOf r(5) show ?thesis by simp
  qed
qed

lemma source_piece: "lambda_source ctx path = Inr (src, rest) \<Longrightarrow> ctx_ok ctx \<Longrightarrow> sql_piece (snd src) []"
  by (cases src) (auto simp: lambda_source_def ctx_ok_def Let_def split: list.splits if_splits option.splits)

lemma yields_predicate:
  assumes "ctx_ok ctx"
  shows "yields_lambda ps1 (translatePredicateExpression w ctx e ps1 n1)"
    "predicate_children w ctx es ps2 n2 = Inr (ss, j, qs, k) \<Longrightarrow> all_built ps2 ss qs"
  using assms
proof (induction w ctx e ps1 n1 and w ctx es ps2 n2 arbitrary: and ss j qs k
    rule: translatePredicateExpression_predicate_children.induct)
  case (3 w ctx t es params n)
  have "sql_piece (case t of And \<Rightarrow> '' AND '' | Or \<Rightarrow> '' OR '') []" by (cases t) (simp_all add: pieces)
  with 3 show ?case by (auto simp: yields_lambda_def split: if_splits intro!: built_joined)
next
  case (4 w ctx e params n)
  then show ?case by (auto simp: yields_lambda_def intro: built_not [unfolded append.simps])
next
  case (6 w ctx fn args c v params n)
  show ?case unfolding translatePredicateExpression.simps by (rule yields_no_lambda [OF yields_predicate_string [OF 6]])
next
  case (7 w ctx part f c x params n)
  show ?case unfolding translatePredicateExpression.simps
    by (rule yields_field_cond [OF 7]) (auto split: option.split intro: yields_fail yields_compared piece_extract piece_Nil piece_signs)
next
  case (8 w ctx f c x params n)
  have "sql_piece (''char_length'' @ paren col) []" if "sql_piece col []" for col
    by (intro piece_before piece_paren that) (simp add: const)
  then have len: "yields params (case comparator_sql c of None \<Rightarrow> Inl Undefined
      | Some sign \<Rightarrow> Inr (compared (''char_length'' @ paren col) sign (JNum (Finite x)) [] params))" if "sql_piece col []" for col
    using that by (cases "comparator_sql c") (simp_all only: option.case yields_fail yields_compared piece_Nil piece_signs)
  show ?case unfolding translatePredicateExpression.simps
    by (rule yields_field_cond [OF 8], rule yields_if, rule yields_fail, erule len)
next
  case (9 w ctx kind path token p params n)
  show ?case unfolding yields_lambda_def
  proof (intro allI impI)
    fix s j qs k assume t: "translatePredicateExpression w ctx (Lambda kind path token p) params n = Inr (s, j, qs, k)"
    then obtain src rest where r: "lambda_source ctx path = Inr (src, rest)"
      "catch_lambda (buildLambdaExistsClause w src rest kind token (bound ctx)
         (\<lambda>ctx' params' n'. translatePredicateExpression w ctx' p params' n') params n) = Inr (s, j, qs, k)"
      by auto
    from r(2) have b: "buildLambdaExistsClause w src rest kind token (bound ctx)
         (\<lambda>ctx' params' n'. translatePredicateExpression w ctx' p params' n') params n = Inr (s, j, qs, k)"
      by (auto simp: catch_lambda_def split: sum.splits push_error.splits odata_error.splits)
    have "yields_lambda params (buildLambdaExistsClause w src rest kind token (bound ctx)
         (\<lambda>ctx' params' n'. translatePredicateExpression w ctx' p params' n') params n)"
      by (rule yields_exists_clause) (use 9 source_piece [OF r(1)] r(1) in \<open>auto simp: ctx_ok_def\<close>)
    with b show "built params s qs" by (simp add: yields_lambda_def)
  qed
next
  case (14 w ctx e es params n)
  then show ?case by (fastforce simp: yields_lambda_def intro: all_built_Cons)
qed (auto simp: yields_lambda_def [of _ "Inl _"] all_built_Nil intro!: yields_field_cond
    yields_lambda_comparison yields_transform yields_function)

section \<open>The queries\<close>

definition clauses_built :: "((string list \<Rightarrow> js_value list \<Rightarrow> pushdown result) \<Rightarrow> pushdown result) \<Rightarrow> bool" where
  "clauses_built clauses \<longleftrightarrow> (\<forall>k s ps. clauses k = Inr (Query s ps) \<longrightarrow>
     (\<exists>ss qs. all_built [] ss qs \<and> k ss qs = Inr (Query s ps)))"

lemma scan_id_query_with:
  assumes "clauses_built clauses" "id_query_with w m opts clauses = Inr (Query s ps)"
  shows "sql_scan Outside s = Some [1..<Suc (length ps)]"
proof -
  obtain meta idc idp where r: "resolveColumn w m idp = Inr idc"
    "clauses (\<lambda>parts params. or_decline (order_parts w m (push_order opts)) ''unsupported-order''
       (\<lambda>orderParts. Inr (Query (id_query idc idp meta parts orderParts opts) params))) = Inr (Query s ps)"
    using assms(2) by (auto simp: id_query_with_def or_decline_Query split: if_splits option.splits)
  from assms(1) r(2) obtain ss qs where "all_built [] ss qs"
    "or_decline (order_parts w m (push_order opts)) ''unsupported-order''
       (\<lambda>orderParts. Inr (Query (id_query idc idp meta ss orderParts opts) qs)) = Inr (Query s ps)"
    unfolding clauses_built_def by blast
  then show ?thesis
    by (auto simp: or_decline_Query intro!: scan_id_query intro: pieces_order piece_column [OF r(1)] simp del: upt_Suc One_nat_def)
qed

lemma scan_count_query_with:
  assumes "clauses_built clauses" "count_query_with w m clauses = Inr (Query s ps)"
  shows "sql_scan Outside s = Some [1..<Suc (length ps)]"
proof -
  obtain meta where "clauses (\<lambda>parts params. Inr (Query (count_query meta parts) params)) = Inr (Query s ps)"
    using assms(2) by (auto simp: count_query_with_def or_decline_Query split: if_splits)
  with assms(1) obtain ss where "all_built [] ss ps" "s = count_query meta ss" unfolding clauses_built_def by blast
  then show ?thesis by (simp add: scan_count_query del: upt_Suc One_nat_def)
qed

lemma root_ctx_ok: "ctx_ok (root_ctx m)"
  by (simp add: ctx_ok_def root_ctx_def const)

lemma built_root:
  "translatePredicateExpression w (root_ctx m) e ps n = Inr (s, j, qs, k) \<Longrightarrow> built ps s qs"
  using yields_predicate(1) [OF root_ctx_ok, of ps w m e n] by (simp add: yields_lambda_def)

lemma filter_clauses_built:
  assumes "\<And>r x. guard r = Inr x \<Longrightarrow> r = Inr x"
  shows "clauses_built (filter_clauses guard w m e opts)"
  unfolding clauses_built_def
proof (intro allI impI)
  fix k s ps assume "filter_clauses guard w m e opts k = Inr (Query s ps)"
  then obtain base params t j qs n where r: "base_where like_is_string w m opts = Inr (base, params)"
    "guard (translatePredicateExpression w (root_ctx m) e params 0) = Inr (t, j, qs, n)" "k (base @ [t]) qs = Inr (Query s ps)"
    by (auto simp: filter_clauses_def or_decline_Query split: if_splits)
  from all_built_snoc [OF all_built_base [OF r(1)] built_root [OF assms [OF r(2)]]] r(3)
  show "\<exists>ss qs. all_built [] ss qs \<and> k ss qs = Inr (Query s ps)" by blast
qed

lemma lambda_decline_Query: "lambda_decline r f = Inr (Query s ps) \<longleftrightarrow> (\<exists>x. r = Inr x \<and> f x = Inr (Query s ps))"
  by (auto simp: lambda_decline_def split: sum.split push_error.split odata_error.split)

lemma lambda_terms_built:
  "lambda_terms w m most ls ss joinCount params n k = Inr (Query s ps) \<Longrightarrow> all_built [] ss params \<Longrightarrow>
     \<exists>ts qs. all_built [] ts qs \<and> k ts qs = Inr (Query s ps)"
proof (induction ls arbitrary: ss joinCount params n)
  case (Cons l ls)
  then obtain t j qs n1 where r:
    "buildLambdaExistsClause w (m, ''r'') (lambdaPath l) (lambdaType l) (lambdaAlias l) []
         (\<lambda>ctx params' n'. translatePredicateExpression w ctx (lambdaPredicate l) params' n') params n = Inr (t, j, qs, n1)"
    "lambda_terms w m most ls (ss @ [t]) (joinCount + j) qs n1 k = Inr (Query s ps)"
    by (auto simp: lambda_decline_Query split: if_splits)
  have "yields_lambda params (buildLambdaExistsClause w (m, ''r'') (lambdaPath l) (lambdaType l) (lambdaAlias l) []
         (\<lambda>ctx params' n'. translatePredicateExpression w ctx (lambdaPredicate l) params' n') params n)"
    by (rule yields_exists_clause) (simp_all add: yields_predicate const)
  with r(1) have "built params t qs" by (simp add: yields_lambda_def)
  from Cons.IH [OF r(2) all_built_snoc [OF Cons.prems(2) this]] show ?case .
qed auto

lemma lambda_clauses_built: "clauses_built (lambda_clauses w m input opts)"
  unfolding clauses_built_def
proof (intro allI impI)
  fix k s ps assume l: "lambda_clauses w m input opts k = Inr (Query s ps)"
  then obtain base params where b: "base_where like_is_string w m opts = Inr (base, params)"
    by (auto simp: lambda_clauses_def or_decline_Query)
  show "\<exists>ss qs. all_built [] ss qs \<and> k ss qs = Inr (Query s ps)"
  proof (cases input)
    case (Tree e)
    with l b obtain t j qs n where r: "translatePredicateExpression w (root_ctx m) e params 0 = Inr (t, j, qs, n)"
      "k (base @ [t]) qs = Inr (Query s ps)"
      by (auto simp: lambda_clauses_def or_decline_Query lambda_decline_Query Let_def split: if_splits)
    from all_built_snoc [OF all_built_base [OF b] built_root [OF r(1)]] r(2) show ?thesis by blast
  next
    case (Terms ls)
    with l b show ?thesis
      by (auto simp: lambda_clauses_def or_decline_Query Let_def split: if_splits intro!: lambda_terms_built all_built_base)
  qed
qed

lemma filter_queries_safe:
  "buildPostgresFilterIdQuery w m e opts = Inr (Query s ps) \<Longrightarrow> sql_scan Outside s = Some [1..<Suc (length ps)]"
  "buildPostgresFilterCountQuery w m e opts = Inr (Query s ps) \<Longrightarrow> sql_scan Outside s = Some [1..<Suc (length ps)]"
proof -
  have caught: "clauses_built (filter_clauses caught w m e opts)"
    by (rule filter_clauses_built) (simp add: caught_def split: sum.splits)
  have raw: "clauses_built (filter_clauses id w m e opts)" by (rule filter_clauses_built) simp
  show "buildPostgresFilterIdQuery w m e opts = Inr (Query s ps) \<Longrightarrow> sql_scan Outside s = Some [1..<Suc (length ps)]"
    unfolding buildPostgresFilterIdQuery_def by (rule scan_id_query_with [OF caught])
  show "buildPostgresFilterCountQuery w m e opts = Inr (Query s ps) \<Longrightarrow> sql_scan Outside s = Some [1..<Suc (length ps)]"
    unfolding buildPostgresFilterCountQuery_def by (rule scan_count_query_with [OF raw])
qed

lemma lambda_queries_safe:
  "buildPostgresLambdaIdQuery w m input opts = Inr (Query s ps) \<Longrightarrow> sql_scan Outside s = Some [1..<Suc (length ps)]"
  "buildPostgresLambdaCountQuery w m input opts = Inr (Query s ps) \<Longrightarrow> sql_scan Outside s = Some [1..<Suc (length ps)]"
  unfolding buildPostgresLambdaIdQuery_def buildPostgresLambdaCountQuery_def
  by (rule scan_id_query_with [OF lambda_clauses_built], assumption, rule scan_count_query_with [OF lambda_clauses_built], assumption)

section \<open>What is thrown\<close>

text \<open>
  The query for the identifiers never throws because of its filter; the one for the count lets through
  what the translation throws.
\<close>

lemma caught_never_throws: "caught r \<noteq> Inl (Thrown e)"
  by (simp add: caught_def split: sum.split)

lemma count_throws:
  assumes "supportsPostgresLambdaPushdown w" "metadata_of w m = Inr meta"
    and "base_where like_is_string w m opts = Inr (base, params)"
    and "translatePredicateExpression w (root_ctx m) e params 0 = Inl (Thrown err)"
  shows "buildPostgresFilterCountQuery w m e opts = Inl err"
  using assms by (simp add: buildPostgresFilterCountQuery_def count_query_with_def filter_clauses_def or_decline_def)

lemma id_declines:
  assumes "supportsPostgresLambdaPushdown w" "metadata_of w m = Inr meta"
    and "getSingleIdProperty w m = Some idp" "resolveColumn w m idp = Inr idc"
    and "base_where like_is_string w m opts = Inr (base, params)"
    and "translatePredicateExpression w (root_ctx m) e params 0 = Inl (Thrown err)"
  shows "buildPostgresFilterIdQuery w m e opts = Inr (Decline ''unsupported-filter'')"
  using assms by (simp add: buildPostgresFilterIdQuery_def id_query_with_def filter_clauses_def or_decline_def caught_def)

end
