(* ===== verification/Etag.thy ===== *)
theory Etag
  imports UriCoding Navigation
begin

text \<open>
  Entity tags (\<open>util/etag.ts\<close>): the tag of a value or of several properties, the value read back from it,
  the headers \<open>If-Match\<close> and \<open>If-None-Match\<close>, and their comparison with the tag of an entity. How
  dates and numbers are printed and what \<open>JSON.stringify\<close> and \<open>BigInt\<close> give are arguments of the model.
\<close>

section \<open>Properties\<close>

text \<open>The order of \<open>sort\<close>, by the units of the strings; their bytes order them alike up to U+FFFF.\<close>

fun str_le :: "string \<Rightarrow> string \<Rightarrow> bool" where
  "str_le [] t = True"
| "str_le (c # cs) [] = False"
| "str_le (c # cs) (d # ds) = (if c = d then str_le cs ds else code c < code d)"

fun insert_str :: "string \<Rightarrow> string list \<Rightarrow> string list" where
  "insert_str s [] = [s]"
| "insert_str s (t # ts) = (if str_le s t then s # t # ts else t # insert_str s ts)"

definition sort_str :: "string list \<Rightarrow> string list" where
  "sort_str ss = foldr insert_str ss []"

definition normalizeEtagProperties :: "string list \<Rightarrow> string list option" where
  "normalizeEtagProperties props =
     (let filtered = remdups (filter (\<lambda>p. p \<noteq> []) props)
      in if filtered = [] then None else Some (sort_str filtered))"

section \<open>Encoding\<close>

record etag_host = js_host +
  iso_text :: "int \<Rightarrow> string"
  json_text :: "js_value \<Rightarrow> string option"
  big_int :: "string \<Rightarrow> js_value option"

text \<open>\<open>toISOString\<close> throws for an invalid date.\<close>

definition serializeAtomicValue :: "etag_host \<Rightarrow> js_value \<Rightarrow> string option result" where
  "serializeAtomicValue h v =
     (case v of
        JUndefined \<Rightarrow> Inr None
      | JNull \<Rightarrow> Inr None
      | JDate None \<Rightarrow> Inl RangeError
      | JDate (Some t) \<Rightarrow> Inr (Some (iso_text h t))
      | JStr s \<Rightarrow> Inr (Some s)
      | JNum n \<Rightarrow> Inr (Some (js_String (js_host.truncate h) v))
      | JBool b \<Rightarrow> Inr (Some (js_String (js_host.truncate h) v))
      | _ \<Rightarrow> Inr (json_text h v))"

definition escapeEtagValue :: "string \<Rightarrow> string" where
  "escapeEtagValue s = replace_char dquote [backslash, dquote] (replace_char backslash [backslash, backslash] s)"

text \<open>Replacing every \<open>\"\<close>, and then every pair of backslashes.\<close>

fun replace_pairs :: "char \<Rightarrow> char \<Rightarrow> string \<Rightarrow> string" where
  "replace_pairs a b (x # y # cs) = (if x = a \<and> y = b then b # replace_pairs a b cs else x # replace_pairs a b (y # cs))"
| "replace_pairs a b cs = cs"

definition unescapeEtagValue :: "string \<Rightarrow> string" where
  "unescapeEtagValue s = replace_pairs backslash backslash (replace_pairs backslash dquote s)"

definition weakWrap :: "string \<Rightarrow> string" where
  "weakWrap content = ''W/'' @ [dquote] @ content @ [dquote]"

fun encode_segments :: "etag_host \<Rightarrow> js_value \<Rightarrow> string list \<Rightarrow> string list option result" where
  "encode_segments h source [] = Inr (Some [])"
| "encode_segments h source (k # ks) =
     rbind (serializeAtomicValue h (get_prop source k)) (\<lambda>atomic.
       case atomic of
         None \<Rightarrow> Inr None
       | Some s \<Rightarrow> rbind (encode_segments h source ks) (\<lambda>rest.
           Inr (map_option (\<lambda>ss. (encodeURIComponent k @ ''='' @ encodeURIComponent s) # ss) rest)))"

definition is_object :: "js_value \<Rightarrow> bool" where
  "is_object v = (case v of JObj ps \<Rightarrow> True | JArr vs \<Rightarrow> True | JDate d \<Rightarrow> True | _ \<Rightarrow> False)"

definition composite :: "string list option \<Rightarrow> bool" where
  "composite props = (case props of None \<Rightarrow> False | Some ps \<Rightarrow> 1 < length ps)"

definition encodeEtagToken :: "etag_host \<Rightarrow> js_value \<Rightarrow> string list \<Rightarrow> string option result" where
  "encodeEtagToken h value etagProperties =
     (let props = normalizeEtagProperties etagProperties
      in if is_nullish value then Inr None
         else if \<not> composite props
         then rbind (serializeAtomicValue h value) (\<lambda>atomic. Inr (map_option (\<lambda>s. weakWrap (escapeEtagValue s)) atomic))
         else if \<not> is_object value then Inr None
         else rbind (encode_segments h value (the props)) (\<lambda>segments.
           Inr (map_option (\<lambda>ss. weakWrap (join ''&'' ss)) segments)))"

section \<open>Decoding\<close>

text \<open>The value of a tag, a string, as its property wants it; the type in lower case.\<close>

definition coerceToPropertyType :: "etag_host \<Rightarrow> string \<Rightarrow> string option \<Rightarrow> js_value" where
  "coerceToPropertyType h s type =
     (if type = Some ''number'' then JNum (js_Number s)
      else if type = Some ''boolean'' then JBool (lower s = ''true'')
      else if type = Some ''date'' then JDate (date_parse h s)
      else if type = Some ''bigint'' then (case big_int h s of Some v \<Rightarrow> v | None \<Rightarrow> JStr s)
      else JStr s)"

definition normalizeHeaderValue :: "string \<Rightarrow> string" where
  "normalizeHeaderValue s =
     (let trimmed = trim s in trim (if starts_with trimmed ''W/'' then drop 2 trimmed else trimmed))"

definition in_quotes :: "string \<Rightarrow> bool" where
  "in_quotes s \<longleftrightarrow> starts_with s [dquote] \<and> ends_with s [dquote]"

fun decode_segments ::
  "etag_host \<Rightarrow> string list \<Rightarrow> (string \<Rightarrow> string option) \<Rightarrow> string list \<Rightarrow> (string \<times> js_value) list \<Rightarrow> (string \<times> js_value) list option" where
  "decode_segments h props defs [] result = Some result"
| "decode_segments h props defs (segment # segments) result =
     (if segment = [] then decode_segments h props defs segments result
      else (case split_on CHR ''='' segment of
          [] \<Rightarrow> None
        | rawKey # rest \<Rightarrow>
            (case decodeURIComponent rawKey of
               None \<Rightarrow> None
             | Some key \<Rightarrow>
                 if key = [] then None
                 else if key \<notin> set props then decode_segments h props defs segments result
                 else (case decodeURIComponent (case rest of [] \<Rightarrow> [] | v # _ \<Rightarrow> v) of
                     None \<Rightarrow> None
                   | Some v \<Rightarrow> decode_segments h props defs segments
                       (obj_set key (coerceToPropertyType h v (defs key)) result)))))"

definition decodeEtagToken :: "etag_host \<Rightarrow> string \<Rightarrow> string list \<Rightarrow> (string \<Rightarrow> string option) \<Rightarrow> js_value" where
  "decodeEtagToken h headerValue etagProperties defs =
     (let props = normalizeEtagProperties etagProperties; normalized = normalizeHeaderValue headerValue
      in if normalized = [] then JUndefined
         else if \<not> composite props
         then coerceToPropertyType h (if in_quotes normalized then unescapeEtagValue (slice_inner 1 normalized) else normalized)
           (case props of Some [p] \<Rightarrow> defs p | _ \<Rightarrow> None)
         else (let inner = (if in_quotes normalized then slice_inner 1 normalized else normalized)
               in if inner = [] then JUndefined
                  else case decode_segments h (the props) defs (split_on CHR ''&'' inner) [] of
                      None \<Rightarrow> JUndefined
                    | Some [] \<Rightarrow> JUndefined
                    | Some result \<Rightarrow> JObj result))"

section \<open>Headers\<close>

text \<open>
  The header, with whether it is \<open>*\<close> and its tags. Splitting at the commas with the white space around them
  and trimming the parts is splitting at the commas and trimming.
\<close>

definition parseIfMatch :: "string option \<Rightarrow> (bool \<times> string list) option" where
  "parseIfMatch header =
     (case header of
        None \<Rightarrow> None
      | Some s \<Rightarrow>
          if trim s = [] then None
          else if trim s = ''*'' then Some (True, [])
          else Some (False, filter (\<lambda>t. t \<noteq> []) (map trim (split_on CHR '','' (trim s)))))"

definition parseIfNoneMatch :: "string option \<Rightarrow> (bool \<times> string list) option" where
  "parseIfNoneMatch header =
     (case parseIfMatch header of
        None \<Rightarrow> None
      | Some (any, tags) \<Rightarrow> Some (if any then (True, []) else (any, tags)))"

definition normaliseTagForComparison :: "string \<Rightarrow> string" where
  "normaliseTagForComparison s =
     (let n = normalizeHeaderValue s in if in_quotes n then unescapeEtagValue (slice_inner 1 n) else n)"

definition matchesEtag :: "string option \<Rightarrow> string list \<Rightarrow> bool" where
  "matchesEtag encoded expected =
     (case encoded of
        None \<Rightarrow> False
      | Some e \<Rightarrow> e \<noteq> [] \<and> (\<exists>item \<in> set expected. normaliseTagForComparison item = normaliseTagForComparison e))"

text \<open>The values of the tags, and whether a tag lacked a property of the composite.\<close>

fun decode_values ::
  "etag_host \<Rightarrow> string list \<Rightarrow> (string \<Rightarrow> string option) \<Rightarrow> string list \<Rightarrow> js_value list \<times> bool" where
  "decode_values h props defs [] = ([], False)"
| "decode_values h props defs (raw # raws) =
     (let v = decodeEtagToken h raw props defs;
          complete = (case v of JObj ps \<Rightarrow> list_all (\<lambda>p. p \<in> fst ` set ps) props | _ \<Rightarrow> False);
          (vs, invalid) = decode_values h props defs raws
      in if v = JUndefined then (vs, 1 < length props \<or> invalid)
         else if 1 < length props \<and> \<not> complete then (vs, True)
         else (v # vs, invalid))"

definition decodeIfMatchValues ::
  "etag_host \<Rightarrow> string list \<Rightarrow> string list \<Rightarrow> (string \<Rightarrow> string option) \<Rightarrow> js_value list \<times> bool" where
  "decodeIfMatchValues h rawValues etagProperties defs =
     (case normalizeEtagProperties etagProperties of
        None \<Rightarrow> ([], False)
      | Some props \<Rightarrow> decode_values h props defs rawValues)"

section \<open>The value of an entity\<close>

definition readEtagValue :: "js_value \<Rightarrow> string list \<Rightarrow> js_value" where
  "readEtagValue entity etagProperties =
     (case normalizeEtagProperties etagProperties of
        None \<Rightarrow> JUndefined
      | Some [p] \<Rightarrow> get_prop entity p
      | Some props \<Rightarrow> JObj (map (\<lambda>p. (p, get_prop entity p)) props))"

definition stripEtagProperty :: "(string \<times> js_value) list \<Rightarrow> string list \<Rightarrow> (string \<times> js_value) list" where
  "stripEtagProperty entity etagProperties =
     (case normalizeEtagProperties etagProperties of
        None \<Rightarrow> entity
      | Some props \<Rightarrow> filter (\<lambda>(k, _). k \<notin> set props) entity)"

text \<open>The fields of a filter: none, a list, flags by name, or one flag for all.\<close>

datatype field_filter = NoFields | FieldList "string list" | FieldFlags "(string \<times> bool) list" | AllFields bool

text \<open>\<open>next[prop] = true\<close> unless it is truthy; an object finds what it inherits, too.\<close>

definition flag_set :: "(string \<times> bool) list \<Rightarrow> string \<Rightarrow> bool" where
  "flag_set flags p = (case map_of flags p of Some b \<Rightarrow> b | None \<Rightarrow> p \<in> set inherited_names)"

definition set_flag :: "string \<Rightarrow> (string \<times> bool) list \<Rightarrow> (string \<times> bool) list" where
  "set_flag p flags = (if flag_set flags p then flags else obj_set p True flags)"

definition ensureEtagField :: "field_filter \<Rightarrow> string list \<Rightarrow> field_filter" where
  "ensureEtagField given etagProperties =
     (case normalizeEtagProperties etagProperties of
        None \<Rightarrow> given
      | Some props \<Rightarrow>
          (case given of
             NoFields \<Rightarrow> given
           | FieldList names \<Rightarrow> FieldList (names @ filter (\<lambda>p. p \<notin> set names) props)
           | FieldFlags flags \<Rightarrow> FieldFlags (fold set_flag props flags)
           | AllFields True \<Rightarrow> given
           | AllFields False \<Rightarrow> FieldFlags (fold (\<lambda>p. obj_set p True) props [])))"

section \<open>A tag and its value\<close>

lemma dquote_backslash [simp]: "dquote \<noteq> backslash" "backslash \<noteq> dquote"
  by (simp_all add: dquote_def backslash_def)

lemma escape_Cons:
  "escapeEtagValue (c # s) =
     (if c = backslash then [backslash, backslash] else if c = dquote then [backslash, dquote] else [c]) @ escapeEtagValue s"
  by (simp add: escapeEtagValue_def replace_char_Cons)

lemma escape_Nil [simp]: "escapeEtagValue [] = []"
  by (simp add: escapeEtagValue_def replace_char_def)

lemma replace_pairs_skip: "x \<noteq> a \<or> t = [] \<or> hd t \<noteq> b \<Longrightarrow> replace_pairs a b (x # t) = x # replace_pairs a b t"
  by (cases t) auto

lemma escape_head: "escapeEtagValue s = [] \<or> hd (escapeEtagValue s) \<noteq> dquote"
  by (cases s) (simp_all add: escape_Cons)

lemma unquote_escape: "replace_pairs backslash dquote (escapeEtagValue s) = replace_char backslash [backslash, backslash] s"
proof (induction s)
  case (Cons c s)
  consider "c = backslash" | "c = dquote" | "c \<noteq> backslash" "c \<noteq> dquote" by blast
  then show ?case
  proof cases
    case 1
    with Cons show ?thesis using escape_head [of s]
      by (simp add: escape_Cons replace_char_Cons replace_pairs_skip [of backslash backslash "escapeEtagValue s" dquote])
  next
    case 2
    with Cons show ?thesis by (simp add: escape_Cons replace_char_Cons)
  next
    case 3
    with Cons show ?thesis by (simp add: escape_Cons replace_char_Cons replace_pairs_skip)
  qed
qed (simp add: replace_char_def)

lemma halve_doubled: "replace_pairs backslash backslash (replace_char backslash [backslash, backslash] s) = s"
proof (induction s)
  case (Cons c s)
  then show ?case by (cases "c = backslash") (simp_all add: replace_char_Cons replace_pairs_skip)
qed (simp add: replace_char_def)

lemma unescape_escape: "unescapeEtagValue (escapeEtagValue s) = s"
  by (simp add: unescapeEtagValue_def unquote_escape halve_doubled)

lemma header_of_wrapped: "normalizeHeaderValue (weakWrap e) = [dquote] @ e @ [dquote]"
proof -
  have t: "trim (weakWrap e) = weakWrap e" "trim ([dquote] @ e @ [dquote]) = [dquote] @ e @ [dquote]"
    by (rule trim_id; simp add: weakWrap_def dquote_def is_space_def code_def)+
  then show ?thesis by (simp add: normalizeHeaderValue_def weakWrap_def starts_with_def)
qed

lemma between_quotes [simp]: "in_quotes ([dquote] @ e @ [dquote])" "slice_inner 1 ([dquote] @ e @ [dquote]) = e"
  by (simp_all add: in_quotes_def starts_with_def ends_with_def slice_inner_def)

lemma tag_of_wrapped: "normaliseTagForComparison (weakWrap (escapeEtagValue s)) = s"
  using between_quotes [of "escapeEtagValue s"] by (simp only: normaliseTagForComparison_def header_of_wrapped Let_def if_True unescape_escape)

lemma decode_single:
  assumes "\<not> composite (normalizeEtagProperties props)"
  shows "decodeEtagToken h (weakWrap (escapeEtagValue s)) props (\<lambda>_. None) = JStr s"
  using assms between_quotes [of "escapeEtagValue s"]
  by (simp add: decodeEtagToken_def Let_def header_of_wrapped unescape_escape coerceToPropertyType_def split: option.split list.split)

section \<open>Tags of several properties\<close>

lemma set_sort_str [simp]: "set (sort_str ss) = set ss"
proof -
  have "set (insert_str s ts) = insert s (set ts)" for s ts by (induction ts) auto
  then show ?thesis by (induction ss) (simp_all add: sort_str_def)
qed

lemma distinct_sort_str: "distinct ss \<Longrightarrow> distinct (sort_str ss)"
proof -
  have "set (insert_str s ts) = insert s (set ts)" for s ts by (induction ts) auto
  then have ins: "distinct ts \<Longrightarrow> s \<notin> set ts \<Longrightarrow> distinct (insert_str s ts)" for s ts by (induction ts) auto
  show "distinct ss \<Longrightarrow> distinct (sort_str ss)"
  proof (induction ss)
    case (Cons s ss)
    then show ?case using ins [of "sort_str ss" s] by (simp add: sort_str_def [of "s # ss"]) (simp add: sort_str_def)
  qed (simp add: sort_str_def)
qed

lemma normalized_properties:
  "normalizeEtagProperties props = Some ps \<Longrightarrow> distinct ps \<and> [] \<notin> set ps"
  by (auto simp: normalizeEtagProperties_def Let_def distinct_sort_str split: if_splits)

lemma encoded_free: "c \<in> set (encodeURIComponent s) \<Longrightarrow> c = CHR ''%'' \<or> unreserved c"
proof -
  have hex: "unreserved (hex_char n)" if "n < 16" for n
    using that by (auto simp: unreserved_def hex_char_def is_alpha_def is_upper_def is_digit_def code_char_of)
  have "unreserved (hex_char (code x div 16))" "unreserved (hex_char (code x mod 16))" for x
    by (rule hex, use code_less [of x] in linarith)+
  then show "c \<in> set (encodeURIComponent s) \<Longrightarrow> c = CHR ''%'' \<or> unreserved c"
    by (auto simp: encodeURIComponent_def encode_char_def percent_def split: if_splits)
qed

lemma delimiters_encoded:
  "CHR ''='' \<notin> set (encodeURIComponent s)" "CHR ''&'' \<notin> set (encodeURIComponent s)" "CHR '','' \<notin> set (encodeURIComponent s)"
  by (auto dest!: encoded_free simp: unreserved_def is_alpha_def is_upper_def is_lower_def is_digit_def code_def)

definition tag_segment :: "string \<Rightarrow> string \<Rightarrow> string" where
  "tag_segment k v = encodeURIComponent k @ ''='' @ encodeURIComponent v"

lemma split_segment: "split_on CHR ''='' (tag_segment k v) = [encodeURIComponent k, encodeURIComponent v]"
  using split_on_join [of "[encodeURIComponent k, encodeURIComponent v]" "CHR ''=''"] delimiters_encoded by (simp add: tag_segment_def)

lemma encode_segments_all:
  "\<forall>k\<in>set ks. get_prop source k = JStr (vals k) \<Longrightarrow>
     encode_segments h source ks = Inr (Some (map (\<lambda>k. tag_segment k (vals k)) ks))"
  by (induction ks) (simp_all add: serializeAtomicValue_def tag_segment_def)

lemma obj_set_fresh: "k \<notin> fst ` set xs \<Longrightarrow> obj_set k v xs = xs @ [(k, v)]"
  by (induction xs) auto

lemma decode_segments_all:
  assumes "\<forall>k\<in>set ks. k \<noteq> [] \<and> k \<in> set props \<and> valid_utf8 k \<and> valid_utf8 (vals k)"
    and "distinct ks" "set ks \<inter> fst ` set result = {}"
  shows "decode_segments h props (\<lambda>_. None) (map (\<lambda>k. tag_segment k (vals k)) ks) result
    = Some (result @ map (\<lambda>k. (k, JStr (vals k))) ks)"
  using assms
proof (induction ks arbitrary: result)
  case (Cons k ks)
  have "tag_segment k (vals k) \<noteq> []" by (simp add: tag_segment_def)
  moreover have "obj_set k (JStr (vals k)) result = result @ [(k, JStr (vals k))]"
    using Cons.prems(3) by (intro obj_set_fresh) auto
  moreover have "decode_segments h props (\<lambda>_. None) (map (\<lambda>k. tag_segment k (vals k)) ks) (result @ [(k, JStr (vals k))])
      = Some ((result @ [(k, JStr (vals k))]) @ map (\<lambda>k. (k, JStr (vals k))) ks)"
    by (rule Cons.IH) (use Cons.prems in auto)
  ultimately show ?case using Cons.prems(1)
    by (simp add: split_segment decode_encode coerceToPropertyType_def)
qed simp

lemma composite_round_trip:
  assumes "normalizeEtagProperties props = Some ps" "1 < length ps" "is_object v"
    and "\<forall>p\<in>set ps. valid_utf8 p \<and> get_prop v p = JStr (vals p) \<and> valid_utf8 (vals p)"
  shows "\<exists>tok. encodeEtagToken h v props = Inr (Some tok) \<and> CHR '','' \<notin> set tok
    \<and> decodeEtagToken h tok props (\<lambda>_. None) = readEtagValue v props"
proof -
  let ?ss = "map (\<lambda>k. tag_segment k (vals k)) ps"
  note ps = normalized_properties [OF assms(1)]
  have c: "composite (Some ps)" using assms(2) by (simp add: composite_def)
  have free: "CHR ''&'' \<notin> set (tag_segment k u)" "CHR '','' \<notin> set (tag_segment k u)" for k u
    using delimiters_encoded by (simp_all add: tag_segment_def)
  have enc: "encodeEtagToken h v props = Inr (Some (weakWrap (join ''&'' ?ss)))"
    using assms c encode_segments_all [of ps v vals h]
    by (cases v) (auto simp: encodeEtagToken_def Let_def is_object_def)
  have "?ss \<noteq> []" using assms(2) by auto
  then have split: "split_on CHR ''&'' (join ''&'' ?ss) = ?ss" using free by (intro split_on_join) auto
  have ne: "join ''&'' ?ss \<noteq> []"
  proof
    assume "join ''&'' ?ss = []"
    with split have "?ss = [[]]" by simp
    with assms(2) show False by (cases ps) auto
  qed
  have dec: "decode_segments h ps (\<lambda>_. None) ?ss [] = Some (map (\<lambda>k. (k, JStr (vals k))) ps)"
    using decode_segments_all [of ps ps vals "[]" h] ps assms(4) by auto
  have read: "readEtagValue v props = JObj (map (\<lambda>k. (k, JStr (vals k))) ps)"
    using assms by (auto simp: readEtagValue_def split: list.split)
  have "decodeEtagToken h (weakWrap (join ''&'' ?ss)) props (\<lambda>_. None) = JObj (map (\<lambda>k. (k, JStr (vals k))) ps)"
    using assms(1,2) c dec split ne between_quotes [of "join ''&'' ?ss"]
    by (auto simp: decodeEtagToken_def Let_def header_of_wrapped split: list.split)
  moreover have "CHR '','' \<notin> set (weakWrap (join ''&'' ?ss))"
  proof -
    have "set (join ''&'' ss) \<subseteq> insert CHR ''&'' (\<Union> (set ` set ss))" for ss :: "string list"
      by (induction "''&''" ss rule: join.induct) auto
    with free show ?thesis by (fastforce simp: weakWrap_def dquote_def)
  qed
  ultimately show ?thesis using enc read by auto
qed

section \<open>Headers and tags\<close>

lemma own_tag_matches:
  assumes "CHR '','' \<notin> set e"
  shows "parseIfMatch (Some (weakWrap e)) = Some (False, [weakWrap e])" "matchesEtag (Some (weakWrap e)) [weakWrap e]"
proof -
  have t: "trim (weakWrap e) = weakWrap e" by (rule trim_id) (simp add: weakWrap_def dquote_def is_space_def code_def)
  have "CHR '','' \<notin> set (weakWrap e)" using assms by (simp add: weakWrap_def dquote_def)
  with t show "parseIfMatch (Some (weakWrap e)) = Some (False, [weakWrap e])"
    by (simp add: parseIfMatch_def split_on_single) (simp add: weakWrap_def)
  show "matchesEtag (Some (weakWrap e)) [weakWrap e]" by (simp add: matchesEtag_def weakWrap_def)
qed

lemma set_replace_pairs: "set (replace_pairs a b s) \<subseteq> set s"
  by (induction a b s rule: replace_pairs.induct) auto

lemma set_tag: "set (normaliseTagForComparison s) \<subseteq> set s"
proof -
  have n: "set (normalizeHeaderValue s) \<subseteq> set s"
    using set_trim [of s] set_trim [of "trim s"] set_trim [of "drop 2 (trim s)"] set_drop_subset [of 2 "trim s"]
    by (auto simp: normalizeHeaderValue_def Let_def)
  have "set (slice_inner 1 t) \<subseteq> set t" for t :: string
    by (auto simp: slice_inner_def dest: in_set_takeD in_set_dropD)
  then have "set (unescapeEtagValue (slice_inner 1 t)) \<subseteq> set t" for t
    using set_replace_pairs unfolding unescapeEtagValue_def by blast
  with n show ?thesis by (auto simp: normaliseTagForComparison_def Let_def)
qed

lemma composite_tag:
  assumes "normalizeEtagProperties props = Some ps" "1 < length ps" "is_object v"
    and "\<forall>p\<in>set ps. valid_utf8 p \<and> get_prop v p = JStr (vals p) \<and> valid_utf8 (vals p)"
  shows "\<exists>tok. encodeEtagToken h v props = Inr (Some tok) \<and> parseIfMatch (Some tok) = Some (False, [tok])
    \<and> matchesEtag (Some tok) [tok] \<and> decodeEtagToken h tok props (\<lambda>_. None) = readEtagValue v props"
proof -
  from composite_round_trip [OF assms] obtain tok where tok: "encodeEtagToken h v props = Inr (Some tok)"
    "CHR '','' \<notin> set tok" "decodeEtagToken h tok props (\<lambda>_. None) = readEtagValue v props" by blast
  from tok(1) obtain e where e: "tok = weakWrap e"
    by (auto simp: encodeEtagToken_def Let_def composite_def split: if_splits option.splits)
  with tok(2) have "CHR '','' \<notin> set e" by (simp add: weakWrap_def)
  with e tok show ?thesis using own_tag_matches [of e] by auto
qed

lemma single_tag: "encodeEtagToken h (JStr s) [p] = Inr (Some tok) \<Longrightarrow> tok = weakWrap (escapeEtagValue s)"
  by (simp add: encodeEtagToken_def normalizeEtagProperties_def composite_def serializeAtomicValue_def sort_str_def Let_def split: if_splits)

text \<open>What a filter selects, and that with the properties of the tag added it selects them as well.\<close>

fun selects :: "field_filter \<Rightarrow> string \<Rightarrow> bool" where
  "selects NoFields p = True"
| "selects (FieldList names) p = (p \<in> set names)"
| "selects (FieldFlags flags) p = flag_set flags p"
| "selects (AllFields b) p = b"

lemma flags_grow: "flag_set flags q \<Longrightarrow> flag_set (fold set_flag props flags) q"
  by (induction props arbitrary: flags) (auto simp: set_flag_def flag_set_def split: option.splits)

lemma flags_cover: "p \<in> set props \<Longrightarrow> flag_set (fold set_flag props flags) p"
proof (induction props arbitrary: flags)
  case (Cons q qs)
  have "flag_set (set_flag q flags) q" by (simp add: set_flag_def flag_set_def)
  with Cons show ?case by (auto intro: flags_grow)
qed simp

lemma all_true: "p \<in> set props \<or> map_of flags p = Some True \<Longrightarrow> map_of (fold (\<lambda>p. obj_set p True) props flags) p = Some True"
  by (induction props arbitrary: flags) auto

lemma etag_fields_selected:
  assumes "normalizeEtagProperties etag = Some props" "p \<in> set props \<or> selects given p"
  shows "selects (ensureEtagField given etag) p"
  using assms flags_cover [of p props] flags_grow [of _ p props] all_true [of p props "[]"]
  by (auto simp: ensureEtagField_def flag_set_def [of "fold (\<lambda>p. obj_set p True) props []"] split: field_filter.split bool.split)

text \<open>No tag of a header has a comma in it, so none is the tag of a value with a comma.\<close>

lemma comma_never_matches:
  assumes "CHR '','' \<in> set s" "parseIfMatch header = Some (any, tags)"
  shows "\<not> matchesEtag (Some (weakWrap (escapeEtagValue s))) tags"
proof
  assume "matchesEtag (Some (weakWrap (escapeEtagValue s))) tags"
  then obtain item where item: "item \<in> set tags" "normaliseTagForComparison item = s"
    by (auto simp: matchesEtag_def tag_of_wrapped)
  from assms(2) item(1) obtain t part where "item = trim part" "part \<in> set (split_on CHR '','' t)"
    by (auto simp: parseIfMatch_def split: option.splits if_splits)
  then have "CHR '','' \<notin> set item" using split_on_free set_trim by fastforce
  with set_tag [of item] item(2) assms(1) show False by auto
qed

end
