(* ===== verification/PathRewriter.thy ===== *)
theory PathRewriter
  imports UriCoding
begin

text \<open>
  The rewriting of OData URLs (\<open>middleware/odata-path-rewriter.ts\<close>): a key in parentheses becomes a path segment of
  its own, the parameters of an operation become query options. The lemmas show that a string key comes out as
  one segment that decodes to the string, whatever characters it has.
\<close>

definition squote :: char where
  "squote = CHR 0x27"

definition MAX_KEY_EXPRESSION_LENGTH :: nat where
  "MAX_KEY_EXPRESSION_LENGTH = 4096"

text \<open>Operation names are given as an array; an empty text stands for no namespace.\<close>

record rewrite_options =
  rw_namespace :: string
  rw_alias :: string
  operationNames :: "string list"

section \<open>Parts of a URL\<close>

definition cut_at :: "char \<Rightarrow> string \<Rightarrow> string \<times> string option" where
  "cut_at c s = (case index_of_char c s of None \<Rightarrow> (s, None) | Some i \<Rightarrow> (take i s, Some (drop (Suc i) s)))"

definition splitUrl :: "string \<Rightarrow> string \<times> string option \<times> string option" where
  "splitUrl url = (let (rest, hash) = cut_at CHR ''#'' url; (path, query) = cut_at CHR ''?'' rest in (path, query, hash))"

definition some_text :: "string option \<Rightarrow> string" where
  "some_text t = (case t of None \<Rightarrow> [] | Some s \<Rightarrow> s)"

definition buildSuffix :: "string option \<Rightarrow> string option \<Rightarrow> string" where
  "buildSuffix query hash =
     (if some_text query = [] then [] else ''?'' @ some_text query) @ (if some_text hash = [] then [] else ''#'' @ some_text hash)"

definition mergeQueryStrings :: "string option \<Rightarrow> string option \<Rightarrow> string option" where
  "mergeQueryStrings existing extra =
     (if some_text extra = [] then existing
      else if some_text existing = [] then extra
      else Some (the existing @ ''&'' @ the extra))"

section \<open>Expressions in parentheses\<close>

fun isSegmentChar :: "char \<Rightarrow> bool" where
  "isSegmentChar c = (is_digit c \<or> is_alpha c \<or> c = CHR ''_'' \<or> c = CHR ''.'')"

text \<open>The distance of the closing parenthesis; \<open>n\<close> is the distance of what is left.\<close>

fun key_end :: "nat \<Rightarrow> bool \<Rightarrow> string \<Rightarrow> nat option" where
  "key_end n inString [] = None"
| "key_end n inString (c # cs) =
     (if c = squote
      then (if inString
            then (case cs of
                    [] \<Rightarrow> None
                  | q # cs' \<Rightarrow>
                      if q = squote then key_end (n + 2) True cs'
                      else if MAX_KEY_EXPRESSION_LENGTH < n then None else key_end (Suc n) False cs)
            else key_end (Suc n) True cs)
      else if \<not> inString \<and> c = CHR '')'' then (if MAX_KEY_EXPRESSION_LENGTH < n then None else Some n)
      else if \<not> inString \<and> MAX_KEY_EXPRESSION_LENGTH < n then None
      else key_end (Suc n) inString cs)"

definition extractKeySegment :: "string \<Rightarrow> nat \<Rightarrow> (string \<times> nat) option" where
  "extractKeySegment path openIndex =
     (if openIndex = 0 then None
      else (let preceding = path ! (openIndex - 1)
            in if preceding \<noteq> CHR ''/'' \<and> preceding \<noteq> CHR '')'' \<and> \<not> isSegmentChar preceding then None
               else map_option (\<lambda>n. (take n (drop (Suc openIndex) path), Suc openIndex + n)) (key_end 0 False (drop (Suc openIndex) path))))"

text \<open>Cutting at a delimiter outside of strings; \<open>current\<close> is the piece so far, reversed.\<close>

fun split_pieces :: "char \<Rightarrow> bool \<Rightarrow> string \<Rightarrow> string \<Rightarrow> string list" where
  "split_pieces d inString current [] = (if current = [] then [] else [trim (rev current)])"
| "split_pieces d inString current (c # cs) =
     (if c = squote
      then (if inString
            then (case cs of
                    [] \<Rightarrow> split_pieces d False (c # current) cs
                  | q # cs' \<Rightarrow> if q = squote then split_pieces d True (q # c # current) cs' else split_pieces d False (c # current) cs)
            else split_pieces d True (c # current) cs)
      else if \<not> inString \<and> c = d then trim (rev current) # split_pieces d inString [] cs
      else split_pieces d inString (c # current) cs)"

definition split_top :: "string \<Rightarrow> char \<Rightarrow> string list" where
  "split_top s d = filter (\<lambda>p. p \<noteq> []) (split_pieces d False [] s)"

fun equals_at :: "nat \<Rightarrow> bool \<Rightarrow> string \<Rightarrow> nat option" where
  "equals_at n inString [] = None"
| "equals_at n inString (c # cs) =
     (if c = squote
      then (if inString
            then (case cs of
                    [] \<Rightarrow> None
                  | q # cs' \<Rightarrow> if q = squote then equals_at (n + 2) True cs' else equals_at (Suc n) False cs)
            else equals_at (Suc n) True cs)
      else if \<not> inString \<and> c = CHR ''='' then Some n
      else equals_at (Suc n) inString cs)"

definition findTopLevelEquals :: "string \<Rightarrow> nat option" where
  "findTopLevelEquals s = equals_at 0 False s"

definition decodeComponent :: "string \<Rightarrow> string" where
  "decodeComponent s = (case decodeURIComponent s of Some t \<Rightarrow> t | None \<Rightarrow> s)"

text \<open>A type name with the quote after it, as in \<open>guid'...'\<close>: what follows the quote.\<close>

definition after_type :: "string \<Rightarrow> string option" where
  "after_type s =
     (case s of
        [] \<Rightarrow> None
      | c # cs \<Rightarrow>
          if \<not> ident_start c then None
          else (case dropWhile (\<lambda>c. ident_char c \<or> c = CHR ''.'') cs of
                  q # rest \<Rightarrow> if q = squote then Some rest else None
                | [] \<Rightarrow> None))"

definition inside_quotes :: "string \<Rightarrow> string" where
  "inside_quotes s = butlast (tl s)"

definition single_quoted :: "string \<Rightarrow> bool" where
  "single_quoted s \<longleftrightarrow> s \<noteq> [] \<and> hd s = squote \<and> last s = squote"

definition normalizeLiteral :: "string \<Rightarrow> string" where
  "normalizeLiteral raw =
     (let literal = trim (decodeComponent (trim raw));
          typed = after_type literal;
          body = (case typed of Some rest \<Rightarrow> rest | None \<Rightarrow> literal)
      in undouble (if single_quoted body \<and> 2 \<le> length body then inside_quotes body
                   else if typed \<noteq> None \<and> body \<noteq> [] \<and> last body = squote then butlast body
                   else body))"

fun assignments :: "string list \<Rightarrow> string list option" where
  "assignments [] = Some []"
| "assignments (part # parts) =
     (case findTopLevelEquals part of
        None \<Rightarrow> None
      | Some i \<Rightarrow> map_option ((#) (decodeComponent (trim (take i part)) @ ''='' @ normalizeLiteral (drop (Suc i) part))) (assignments parts))"

definition normalizeKeyExpression :: "string \<Rightarrow> string option" where
  "normalizeKeyExpression expression =
     (let parts = split_top (trim expression) CHR '',''
      in if trim expression = [] \<or> parts = [] then Some []
         else if list_ex (\<lambda>part. findTopLevelEquals part \<noteq> None) parts then map_option (join '','') (assignments parts)
         else Some (join '','' (map normalizeLiteral parts)))"

section \<open>Parameters of operations\<close>

definition encodeLiteral :: "string \<Rightarrow> string" where
  "encodeLiteral s = replace_char squote ''%27'' (encodeURIComponent s)"

text \<open>No line terminators, which a dot of a regular expression does not match.\<close>

definition one_line :: "string \<Rightarrow> bool" where
  "one_line s \<longleftrightarrow> CHR 10 \<notin> set s \<and> CHR 13 \<notin> set s
     \<and> \<not> contains_str s [CHR 0xE2, CHR 0x80, CHR 0xA8] \<and> \<not> contains_str s [CHR 0xE2, CHR 0x80, CHR 0xA9]"

definition encodeCanonicalLiteral :: "string \<Rightarrow> string" where
  "encodeCanonicalLiteral raw =
     (let t = trim raw
      in if t = [] then []
         else case after_type t of
             Some rest \<Rightarrow>
               if rest \<noteq> [] \<and> last rest = squote \<and> one_line (butlast rest)
               then encodeLiteral (take (length t - length rest - 1) t @ [squote] @ undouble (butlast rest) @ [squote])
               else encodeLiteral t
           | None \<Rightarrow> if single_quoted t then encodeLiteral (undouble (inside_quotes t)) else encodeLiteral t)"

fun parameters :: "string list \<Rightarrow> string list option" where
  "parameters [] = Some []"
| "parameters (part # parts) =
     (case findTopLevelEquals part of
        None \<Rightarrow> None
      | Some i \<Rightarrow>
          (let name = decodeComponent (trim (take i part))
           in if name = [] then None
              else map_option ((#) (encodeURIComponent name @ ''='' @ encodeCanonicalLiteral (trim (drop (Suc i) part)))) (parameters parts)))"

definition canonicalParametersToQuery :: "string \<Rightarrow> string option" where
  "canonicalParametersToQuery expression =
     (let parts = split_top (trim expression) CHR '',''
      in if trim expression = [] \<or> parts = [] then Some [] else map_option (join ''&'') (parameters parts))"

definition stripNamespace :: "rewrite_options \<Rightarrow> string \<Rightarrow> string" where
  "stripNamespace opts seg =
     (case filter (\<lambda>p. starts_with seg p) (map (\<lambda>n. n @ ''.'') (filter (\<lambda>n. n \<noteq> []) [rw_namespace opts, rw_alias opts])) of
        [] \<Rightarrow> seg
      | p # _ \<Rightarrow> drop (length p) seg)"

section \<open>The path\<close>

definition slice :: "nat \<Rightarrow> nat \<Rightarrow> string \<Rightarrow> string" where
  "slice i j s = take (j - i) (drop i s)"

text \<open>Where the segment that ends before a position starts.\<close>

definition segment_start :: "string \<Rightarrow> nat \<Rightarrow> nat" where
  "segment_start path i = i - length (takeWhile (\<lambda>c. c \<noteq> CHR ''/'') (rev (take i path)))"

text \<open>One parenthesis: what is added to the path, the query fragment, and the position to go on from.\<close>

definition rewrite_step :: "rewrite_options \<Rightarrow> string \<Rightarrow> nat \<Rightarrow> nat \<Rightarrow> string \<times> string \<times> nat" where
  "rewrite_step opts path i openIndex =
     (case extractKeySegment path openIndex of
        None \<Rightarrow> (slice i (Suc openIndex) path, [], Suc openIndex)
      | Some (expression, closeIndex) \<Rightarrow>
          (let start = segment_start path openIndex;
               name = slice start openIndex path;
               query = canonicalParametersToQuery expression
           in if name \<in> set (filter (\<lambda>n. n \<noteq> []) (operationNames opts)) \<and> query \<noteq> None
              then (slice i start path @ name, the query, Suc closeIndex)
              else if CHR ''.'' \<in> set name \<and> query \<noteq> None
              then (slice i start path @ stripNamespace opts name, the query, Suc closeIndex)
              else case normalizeKeyExpression expression of
                  None \<Rightarrow> (slice i (Suc closeIndex) path, [], Suc closeIndex)
                | Some key \<Rightarrow> (slice i openIndex path @ ''/'' @ encodeLiteral key, [], Suc closeIndex)))"

definition find_from :: "char \<Rightarrow> nat \<Rightarrow> string \<Rightarrow> nat option" where
  "find_from c i s = map_option ((+) i) (index_of_char c (drop i s))"

lemma find_from_bounds: "find_from c i s = Some j \<Longrightarrow> i \<le> j \<and> j < length s"
  by (auto simp: find_from_def index_of_char_Some)

lemma step_advances: "rewrite_step opts path i openIndex = (t, q, j) \<Longrightarrow> openIndex < j"
  by (auto simp: rewrite_step_def extractKeySegment_def Let_def split: option.splits if_splits)

function rewrite_loop :: "rewrite_options \<Rightarrow> string \<Rightarrow> nat \<Rightarrow> string \<times> string list" where
  "rewrite_loop opts path i =
     (if length path \<le> i then ([], [])
      else case find_from CHR ''('' i path of
          None \<Rightarrow> (drop i path, [])
        | Some openIndex \<Rightarrow>
            (let (t, q, j) = rewrite_step opts path i openIndex; (rest, qs) = rewrite_loop opts path j
             in (t @ rest, (if q = [] then [] else [q]) @ qs)))"
  by pat_completeness auto
termination
  by (relation "measure (\<lambda>(opts, path, i). length path - i)")
    (auto dest!: find_from_bounds, metis diff_less_mono2 find_from_bounds less_le_trans not_less order.strict_trans1 step_advances)

declare rewrite_loop.simps [simp del]

definition rewritePath :: "rewrite_options \<Rightarrow> string \<Rightarrow> string \<times> string option" where
  "rewritePath opts path =
     (if CHR ''('' \<notin> set path then (path, None)
      else (let (result, fragments) = rewrite_loop opts path 0
            in (result, if fragments = [] then None else Some (join ''&'' fragments))))"

definition rewriteODataUrl :: "rewrite_options \<Rightarrow> string \<Rightarrow> string" where
  "rewriteODataUrl opts url =
     (let (path, query, hash) = splitUrl url; (rewritten, extra) = rewritePath opts path
      in rewritten @ buildSuffix (mergeQueryStrings query extra) hash)"

section \<open>Encoded literals\<close>

lemma utf8_parts:
  assumes "valid_utf8 (c # cs)"
  obtains (ascii) "code c < 128" "valid_utf8 cs"
  | (long) n where "following (code c) = Some n" "0 < n" "utf8_sequence (map code (c # take n cs))" "valid_utf8 (drop n cs)"
      "\<forall>d\<in>set (c # take n cs). 128 \<le> code d"
proof -
  from assms obtain n where n: "following (code c) = Some n" "utf8_sequence (map code (c # take n cs))" "valid_utf8 (drop n cs)"
    by (auto split: option.splits)
  show thesis
  proof (cases "n = 0")
    case True
    then have "code c < 128" using n(1) by (auto simp: following_def split: if_splits)
    with n(3) True ascii show ?thesis by simp
  next
    case False
    then have "128 \<le> code c" using n(1) by (auto simp: following_def split: if_splits)
    with n False long show ?thesis by (auto simp: utf8_sequence_def list_all_iff)
  qed
qed

lemma valid_append: "valid_utf8 s \<Longrightarrow> valid_utf8 t \<Longrightarrow> valid_utf8 (s @ t)"
proof (induction s rule: valid_utf8.induct)
  case (2 c cs)
  from 2(2) obtain n where n: "following (code c) = Some n" "utf8_sequence (map code (c # take n cs))" "valid_utf8 (drop n cs)"
    by (auto split: option.splits)
  then have "n \<le> length cs" by (auto simp: utf8_sequence_def min_def split: if_splits)
  with 2(1) [OF n(1) n(3) 2(3)] n show ?case by simp
qed simp

lemma double_append: "double (s @ t) = double s @ double t"
  by (simp add: double_def)

lemma double_id: "squote \<notin> set s \<Longrightarrow> double s = s"
  by (induction s) (auto simp: double_Cons squote_def)

lemma code_squote: "code squote = 39" "unreserved squote"
  by (simp_all add: squote_def code_def unreserved_def)

lemma valid_double: "valid_utf8 s \<Longrightarrow> valid_utf8 (double s)"
proof (induction s rule: valid_utf8.induct)
  case (2 c cs)
  from 2(2) show ?case
  proof (cases rule: utf8_parts)
    case ascii
    then have "following (code c) = Some 0" by (simp add: following_def)
    with 2 ascii have "valid_utf8 (double cs)" by simp
    moreover have "valid_utf8 (if c = CHR 0x27 then [c, c] else [c])" using ascii by (intro valid_ascii) auto
    ultimately show ?thesis by (simp only: double_Cons valid_append)
  next
    case (long n)
    have "squote \<notin> set (c # take n cs)" using long(5) code_squote by force
    then have "double (c # cs) = (c # take n cs) @ double (drop n cs)"
      using double_append [of "c # take n cs" "drop n cs"] double_id by simp
    moreover have "valid_utf8 (c # take n cs)"
      using long by (simp add: utf8_sequence_def min_def split: if_splits)
    ultimately show ?thesis using valid_append [of "c # take n cs" "double (drop n cs)"] 2(1) [OF long(1,4)] by (simp del: valid_utf8.simps)
  qed
qed simp

lemma encode_char_quote: "c \<noteq> squote \<Longrightarrow> squote \<notin> set (encode_char c)"
proof -
  assume "c \<noteq> squote"
  moreover have "squote \<noteq> hex_char n" if "n < 16" for n
    using that code_char_of [of "if n < 10 then 48 + n else 55 + n"] code_squote(1) by (auto simp: hex_char_def split: if_splits)
  moreover have "code c div 16 < 16" using code_less [of c] by linarith
  ultimately show ?thesis by (auto simp: encode_char_def percent_def squote_def)
qed

lemma encodeLiteral_Nil [simp]: "encodeLiteral [] = []"
  by (simp add: encodeLiteral_def encodeURIComponent_def)

lemma encodeLiteral_Cons: "encodeLiteral (c # cs) = (if c = squote then ''%27'' else encode_char c) @ encodeLiteral cs"
proof -
  have app: "replace_char squote r (xs @ ys) = replace_char squote r xs @ replace_char squote r ys" for r xs ys
    by (simp add: replace_char_def)
  have "encode_char squote = [squote]" using code_squote by (simp add: encode_char_def)
  with encode_char_quote [of c] show ?thesis
    by (auto simp: encodeLiteral_def encodeURIComponent_def app replace_char_id replace_char_Cons)
qed

lemma encodeLiteral_append: "encodeLiteral (s @ t) = encodeLiteral s @ encodeLiteral t"
  by (induction s) (simp_all add: encodeLiteral_Cons)

lemma encodeLiteral_plain: "squote \<notin> set s \<Longrightarrow> encodeLiteral s = encodeURIComponent s"
  by (induction s) (auto simp: encodeLiteral_Cons encodeURIComponent_def)

lemma decode_quote: "decodeURIComponent (''%27'' @ t) = map_option ((#) squote) (decodeURIComponent t)"
proof -
  have "read_percent (''%27'' @ t) = Some (39, t)" by (simp add: hex_value_def is_digit_def code_def)
  moreover have "char_of (39 :: nat) = squote" using code_squote char_of_code [of squote] by simp
  ultimately show ?thesis by (cases "decodeURIComponent t") (simp_all add: following_def utf8_sequence_def)
qed

lemma decode_literal: "valid_utf8 s \<Longrightarrow> decodeURIComponent (encodeLiteral s) = Some s"
proof (induction s rule: valid_utf8.induct)
  case (2 c cs)
  show ?case
  proof (cases "c = squote")
    case True
    then have "following (code c) = Some 0" by (simp add: code_squote following_def)
    with 2 have "decodeURIComponent (encodeLiteral cs) = Some cs" by simp
    with True decode_quote [of "encodeLiteral cs"] show ?thesis by (simp only: encodeLiteral_Cons if_True) simp
  next
    case False
    from 2(2) obtain n where n: "following (code c) = Some n" "utf8_sequence (map code (c # take n cs))" "valid_utf8 (drop n cs)"
      by (auto split: option.splits)
    have "squote \<notin> set (c # take n cs)"
      using n(2) False code_squote by (auto simp: utf8_sequence_def list_all_iff)
    then have "encodeLiteral (c # cs) = encodeURIComponent (c # take n cs) @ encodeLiteral (drop n cs)"
      using encodeLiteral_append [of "c # take n cs" "drop n cs"] encodeLiteral_plain [of "c # take n cs"] by simp
    with decode_sequence [OF n(2)] 2(1) [OF n(1) n(3)] show ?thesis by simp
  qed
qed simp

lemma encode_char_chars: "x \<in> set (encode_char c) \<Longrightarrow> unreserved x \<or> x = CHR ''%''"
proof -
  have h: "unreserved (hex_char n)" if "n < 16" for n
  proof -
    have "code (hex_char n) = (if n < 10 then 48 + n else 55 + n)" using that by (simp add: hex_char_def code_char_of)
    then show ?thesis using that by (auto simp: unreserved_def is_digit_def is_alpha_def is_upper_def split: if_splits)
  qed
  have d: "code c div 16 < 16" using code_less [of c] by linarith
  show "x \<in> set (encode_char c) \<Longrightarrow> unreserved x \<or> x = CHR ''%''"
    using h [OF d] h [of "code c mod 16"] by (auto simp: encode_char_def percent_def split: if_splits)
qed

lemma encoded_chars: "x \<in> set (encodeLiteral s) \<Longrightarrow> x \<noteq> squote \<and> (unreserved x \<or> x = CHR ''%'')"
proof (induction s)
  case (Cons c s)
  have "x \<in> set (encode_char c) \<Longrightarrow> unreserved x \<or> x = CHR ''%''" by (rule encode_char_chars)
  moreover have "list_all (\<lambda>x. x \<noteq> squote \<and> (unreserved x \<or> x = CHR ''%'')) ''%27''" by code_simp
  ultimately have e: "x \<in> set (encode_char c) \<longrightarrow> unreserved x \<or> x = CHR ''%''"
    and q: "x \<in> set ''%27'' \<longrightarrow> x \<noteq> squote \<and> (unreserved x \<or> x = CHR ''%'')" unfolding list_all_iff by blast+
  show ?case
  proof (cases "c = squote")
    case True
    then have "encodeLiteral (c # s) = ''%27'' @ encodeLiteral s" by (simp only: encodeLiteral_Cons if_True simp_thms)
    with Cons q show ?thesis by (metis Un_iff set_append)
  next
    case False
    then have "encodeLiteral (c # s) = encode_char c @ encodeLiteral s" by (simp only: encodeLiteral_Cons if_False simp_thms)
    with Cons e encode_char_quote [OF False] show ?thesis by (metis Un_iff set_append)
  qed
qed simp

section \<open>String keys\<close>

definition key_text :: "string \<Rightarrow> string" where
  "key_text s = squote # encodeURIComponent (double s) @ [squote]"

lemma encode_double_Cons:
  "encodeURIComponent (double (c # s)) = (if c = squote then [squote, squote] else encode_char c) @ encodeURIComponent (double s)"
proof -
  have "encode_char squote = [squote]" using code_squote by (simp add: encode_char_def)
  then show ?thesis by (auto simp: double_Cons encodeURIComponent_def squote_def)
qed

lemma key_end_skip: "squote \<notin> set xs \<Longrightarrow> key_end n True (xs @ r) = key_end (n + length xs) True r"
  by (induction xs arbitrary: n) auto

lemma key_end_text:
  assumes "n + length (encodeURIComponent (double s)) < MAX_KEY_EXPRESSION_LENGTH"
  shows "key_end n True (encodeURIComponent (double s) @ squote # CHR '')'' # r) = Some (Suc (n + length (encodeURIComponent (double s))))"
  using assms
proof (induction s arbitrary: n)
  case Nil
  have "CHR '')'' \<noteq> squote" by (simp add: squote_def)
  with Nil show ?case by (simp add: encodeURIComponent_def)
next
  case (Cons c s)
  show ?case
  proof (cases "c = squote")
    case True
    with Cons.IH [of "n + 2"] Cons.prems show ?thesis by (simp add: encode_double_Cons)
  next
    case False
    note k = key_end_skip [OF encode_char_quote [OF False]]
    from Cons.IH [of "n + length (encode_char c)"] Cons.prems False show ?thesis
      by (simp add: encode_double_Cons k add.assoc)
  qed
qed

lemma equals_skip: "squote \<notin> set xs \<Longrightarrow> equals_at n True (xs @ r) = equals_at (n + length xs) True r"
  by (induction xs arbitrary: n) auto

lemma equals_text: "equals_at n True (encodeURIComponent (double s) @ [squote]) = None"
proof (induction s arbitrary: n)
  case (Cons c s)
  show ?case
  proof (cases "c = squote")
    case False
    then show ?thesis using Cons equals_skip [OF encode_char_quote [OF False]] by (simp add: encode_double_Cons)
  qed (use Cons in \<open>simp add: encode_double_Cons\<close>)
qed (simp add: encodeURIComponent_def)

lemma pieces_skip: "squote \<notin> set xs \<Longrightarrow> split_pieces d True cur (xs @ r) = split_pieces d True (rev xs @ cur) r"
  by (induction xs arbitrary: cur) auto

lemma pieces_text: "split_pieces d True cur (encodeURIComponent (double s) @ [squote]) = [trim (rev cur @ encodeURIComponent (double s) @ [squote])]"
proof (induction s arbitrary: cur)
  case (Cons c s)
  show ?case
  proof (cases "c = squote")
    case False
    then show ?thesis using Cons pieces_skip [OF encode_char_quote [OF False]] by (simp add: encode_double_Cons)
  qed (use Cons in \<open>simp add: encode_double_Cons\<close>)
qed (simp add: encodeURIComponent_def)

lemma trim_quoted: "trim (squote # s @ [squote]) = squote # s @ [squote]"
  by (rule trim_id) (simp add: squote_def is_space_def code_def)

lemma key_text_encoded: "key_text s = encodeURIComponent (squote # double s @ [squote])"
  using code_squote by (simp add: key_text_def encodeURIComponent_def encode_char_def)

lemma string_literal:
  assumes "valid_utf8 s"
  shows "normalizeLiteral (key_text s) = s"
proof -
  have "valid_utf8 [squote]" using code_squote by (intro valid_ascii) simp
  then have "valid_utf8 ([squote] @ double s @ [squote])" using assms by (intro valid_append valid_double)
  then have d: "decodeComponent (key_text s) = squote # double s @ [squote]"
    using decode_encode [of "squote # double s @ [squote]"] by (simp add: decodeComponent_def key_text_encoded del: valid_utf8.simps)
  have t: "trim (key_text s) = key_text s" unfolding key_text_def by (rule trim_quoted)
  have "after_type (squote # double s @ [squote]) = None"
    by (simp add: after_type_def squote_def ident_start_def is_alpha_def is_upper_def is_lower_def code_def)
  then show ?thesis by (simp add: normalizeLiteral_def t d trim_quoted single_quoted_def inside_quotes_def Let_def)
qed

lemma string_key_normal:
  assumes "valid_utf8 s"
  shows "normalizeKeyExpression (key_text s) = Some s"
proof -
  have t: "trim (key_text s) = key_text s" "key_text s \<noteq> []" unfolding key_text_def by (simp_all add: trim_quoted)
  have c: "squote \<noteq> CHR '',''" "squote \<noteq> CHR ''=''" by (simp_all add: squote_def)
  have p: "split_top (key_text s) CHR '','' = [key_text s]"
    using pieces_text [of "CHR '',''" "[squote]" s] c t by (simp add: split_top_def key_text_def trim_quoted)
  have e: "findTopLevelEquals (key_text s) = None"
    using equals_text [of 1 s] c by (simp add: findTopLevelEquals_def key_text_def)
  show ?thesis using t p e string_literal [OF assms] by (simp add: normalizeKeyExpression_def)
qed

lemma string_key_no_parameters: "canonicalParametersToQuery (key_text s) = None"
proof -
  have t: "trim (key_text s) = key_text s" "key_text s \<noteq> []" unfolding key_text_def by (simp_all add: trim_quoted)
  have c: "squote \<noteq> CHR '',''" "squote \<noteq> CHR ''=''" by (simp_all add: squote_def)
  have p: "split_top (key_text s) CHR '','' = [key_text s]"
    using pieces_text [of "CHR '',''" "[squote]" s] c t by (simp add: split_top_def key_text_def trim_quoted)
  have e: "findTopLevelEquals (key_text s) = None"
    using equals_text [of 1 s] c by (simp add: findTopLevelEquals_def key_text_def)
  show ?thesis using t p e by (simp add: canonicalParametersToQuery_def)
qed

lemma string_key_found:
  assumes "base \<noteq> []" "last base = CHR ''/'' \<or> isSegmentChar (last base)" "length (key_text s) \<le> MAX_KEY_EXPRESSION_LENGTH"
  shows "extractKeySegment (base @ ''('' @ key_text s @ '')'' @ rest) (length base) = Some (key_text s, Suc (length base) + length (key_text s))"
proof -
  have "(base @ ''('' @ key_text s @ '')'' @ rest) ! (length base - 1) = last base"
    using assms(1) by (simp add: nth_append last_conv_nth)
  moreover have "key_end 0 False (key_text s @ '')'' @ rest) = Some (length (key_text s))"
    using key_end_text [of 1 s rest] assms(3) by (simp add: key_text_def)
  ultimately show ?thesis using assms(1,2) by (auto simp: extractKeySegment_def Let_def)
qed

lemma rewrite_loop_end: "length path \<le> i \<Longrightarrow> rewrite_loop opts path i = ([], [])"
  "CHR ''('' \<notin> set (drop i path) \<Longrightarrow> rewrite_loop opts path i = (drop i path, [])"
proof -
  show "length path \<le> i \<Longrightarrow> rewrite_loop opts path i = ([], [])" by (simp add: rewrite_loop.simps)
  assume "CHR ''('' \<notin> set (drop i path)"
  then have "find_from CHR ''('' i path = None" using index_of_char_None [of "CHR ''(''" "drop i path"] by (simp add: find_from_def)
  then show "rewrite_loop opts path i = (drop i path, [])" by (simp add: rewrite_loop.simps [of opts path i])
qed

lemma cut_absent: "c \<notin> set s \<Longrightarrow> cut_at c s = (s, None)"
  using index_of_char_None [of c s] by (simp add: cut_at_def)

lemma cut_present: "c \<notin> set s \<Longrightarrow> cut_at c (s @ c # t) = (s, Some t)"
  by (simp add: cut_at_def index_of_char_append)

lemma string_key_path:
  assumes "valid_utf8 s" "base \<noteq> []" "last base = CHR ''/'' \<or> isSegmentChar (last base)" "CHR ''('' \<notin> set base"
    and "length (key_text s) \<le> MAX_KEY_EXPRESSION_LENGTH" "CHR ''('' \<notin> set rest"
  shows "rewritePath opts (base @ ''('' @ key_text s @ '')'' @ rest) = (base @ ''/'' @ encodeLiteral s @ rest, None)"
proof -
  let ?path = "base @ ''('' @ key_text s @ '')'' @ rest"
  have f: "find_from CHR ''('' 0 ?path = Some (length base)"
    using index_of_char_append [OF assms(4)] by (simp add: find_from_def)
  have st: "rewrite_step opts ?path 0 (length base) = (base @ ''/'' @ encodeLiteral s, [], length base + 1 + length (key_text s) + 1)"
    using string_key_found [OF assms(2,3,5), of rest] string_key_normal [OF assms(1)] string_key_no_parameters [of s]
    by (simp add: rewrite_step_def Let_def slice_def)
  have "drop (length base + 1 + length (key_text s) + 1) ?path = rest" by simp
  then have "rewrite_loop opts ?path (length base + 1 + length (key_text s) + 1) = (rest, [])"
    using rewrite_loop_end(2) [of "length base + 1 + length (key_text s) + 1" ?path opts] assms(6) by simp
  then have "rewrite_loop opts ?path 0 = (base @ ''/'' @ encodeLiteral s @ rest, [])"
    using assms(2) by (simp only: rewrite_loop.simps [of opts ?path 0] f st option.case Let_def split) simp
  then show ?thesis by (simp add: rewritePath_def)
qed

lemma key_text_chars: "x \<in> set (key_text s) \<Longrightarrow> unreserved x \<or> x = CHR ''%''"
  using encode_char_chars code_squote by (auto simp: key_text_def encodeURIComponent_def)

lemma not_special: "unreserved x \<or> x = CHR ''%'' \<Longrightarrow> x \<notin> {CHR ''/'', CHR ''?'', CHR ''#''}"
  by (auto simp: unreserved_def is_alpha_def is_upper_def is_lower_def is_digit_def code_def)

lemma string_key_url:
  assumes "valid_utf8 s" "base \<noteq> []" "last base = CHR ''/'' \<or> isSegmentChar (last base)" "length (key_text s) \<le> MAX_KEY_EXPRESSION_LENGTH"
    and "\<forall>c\<in>set (base @ tail). c \<noteq> CHR ''('' \<and> c \<noteq> CHR ''?'' \<and> c \<noteq> CHR ''#''"
    and "tailquery = [] \<or> (\<exists>q. tailquery = ''?'' @ q \<and> q \<noteq> [] \<and> CHR ''#'' \<notin> set q)"
  shows "rewriteODataUrl opts (base @ ''('' @ key_text s @ '')'' @ tail @ tailquery) = base @ ''/'' @ encodeLiteral s @ tail @ tailquery"
proof -
  let ?path = "base @ ''('' @ key_text s @ '')'' @ tail"
  have no: "CHR ''?'' \<notin> set ?path" "CHR ''#'' \<notin> set ?path" "CHR ''('' \<notin> set base" "CHR ''('' \<notin> set tail"
    using key_text_chars not_special assms(5) by fastforce+
  have p: "rewritePath opts ?path = (base @ ''/'' @ encodeLiteral s @ tail, None)"
    using assms(1-4) no(3,4) by (intro string_key_path)
  from assms(6) show ?thesis
  proof
    assume "tailquery = []"
    then have "splitUrl (base @ ''('' @ key_text s @ '')'' @ tail @ tailquery) = (?path, None, None)"
      using cut_absent no by (simp add: splitUrl_def)
    with \<open>tailquery = []\<close> p show ?thesis
      by (simp add: rewriteODataUrl_def buildSuffix_def mergeQueryStrings_def some_text_def)
  next
    assume "\<exists>q. tailquery = ''?'' @ q \<and> q \<noteq> [] \<and> CHR ''#'' \<notin> set q"
    then obtain q where q: "tailquery = CHR ''?'' # q" "q \<noteq> []" "CHR ''#'' \<notin> set q" by auto
    have "cut_at CHR ''#'' (?path @ CHR ''?'' # q) = (?path @ CHR ''?'' # q, None)" using no q by (intro cut_absent) auto
    moreover have "cut_at CHR ''?'' (?path @ CHR ''?'' # q) = (?path, Some q)" using no(1) by (rule cut_present)
    ultimately have "splitUrl (base @ ''('' @ key_text s @ '')'' @ tail @ tailquery) = (?path, Some q, None)"
      using q by (simp add: splitUrl_def)
    with p q show ?thesis by (simp add: rewriteODataUrl_def buildSuffix_def mergeQueryStrings_def some_text_def)
  qed
qed

text \<open>Several keys in one expression: the values lose their quotes, so commas and equals signs in them are not told apart from those between keys.\<close>

definition no_operations :: rewrite_options where
  "no_operations = \<lparr>rw_namespace = [], rw_alias = [], operationNames = []\<rparr>"

lemma composite_keys_collide:
  "rewriteODataUrl no_operations (''/Lines(a='' @ [squote] @ ''x,b=y'' @ [squote] @ '')'') = ''/Lines/a%3Dx%2Cb%3Dy''"
  "rewriteODataUrl no_operations (''/Lines(a='' @ [squote] @ ''x'' @ [squote] @ '',b='' @ [squote] @ ''y'' @ [squote] @ '')'') = ''/Lines/a%3Dx%2Cb%3Dy''"
  by code_simp+

end
