(* ===== verification/Paging.thy ===== *)
theory Paging
  imports Etag FilterTree WhereMeaning
begin

text \<open>
  Server-driven paging of the generated controllers (\<open>controllers/crud-controller-factory.ts\<close>): the order
  a page needs, its size, the values a skip token carries, the \<open>Where\<close> object that asks for the rows after
  them, and the pages a client gets by following the next links. The library section proves what a page
  after a token has, for any strict order of the rows; its laws are discharged for the order of the code.
\<close>

section \<open>Joining conditions\<close>

text \<open>An object with a property \<open>and\<close> that has entries gives them to the conjunction around it.\<close>

fun and_entries :: "where_clause \<Rightarrow> where_clause list" where
  "and_entries (WAnd (w # ws)) = w # ws"
| "and_entries w = [w]"

fun or_entries :: "where_clause \<Rightarrow> where_clause list" where
  "or_entries (WOr (w # ws)) = w # ws"
| "or_entries w = [w]"

definition combineWithAnd :: "where_clause option list \<Rightarrow> where_clause option" where
  "combineWithAnd parts =
     (case present parts of
        [] \<Rightarrow> None
      | [w] \<Rightarrow> Some w
      | ws \<Rightarrow> Some (WAnd (concat (map and_entries ws))))"

definition combineWithOr :: "where_clause option list \<Rightarrow> where_clause option" where
  "combineWithOr parts =
     (case present parts of
        [] \<Rightarrow> None
      | [w] \<Rightarrow> Some w
      | ws \<Rightarrow> Some (WOr (concat (map or_entries ws))))"

section \<open>The order of a page\<close>

record order_descriptor =
  od_field :: string
  descending :: bool

definition described :: "order_descriptor list \<Rightarrow> string set" where
  "described ds = od_field ` set ds"

text \<open>The clauses of \<open>$orderby\<close>; the first one of a field counts.\<close>

fun clause_descriptors :: "string list \<Rightarrow> order_descriptor list \<Rightarrow> order_descriptor list result" where
  "clause_descriptors [] ds = Inr ds"
| "clause_descriptors (clause # clauses) ds =
     (case split_ws (trim clause) of
        [] \<Rightarrow> clause_descriptors clauses ds
      | rawField # rest \<Rightarrow>
          if rawField = [] then clause_descriptors clauses ds
          else if CHR ''/'' \<in> set rawField
          then Inl (HttpError 400 [] ''$orderby with navigation paths cannot be combined with server-driven paging.'')
          else if rawField \<in> described ds then clause_descriptors clauses ds
          else clause_descriptors clauses
            (ds @ [\<lparr>od_field = rawField, descending = (case rest of [] \<Rightarrow> False | dir # _ \<Rightarrow> upper dir = ''DESC'')\<rparr>]))"

definition add_id :: "string \<Rightarrow> order_descriptor list \<Rightarrow> order_descriptor list" where
  "add_id key ds = (if key = [] \<or> key \<in> described ds then ds else ds @ [\<lparr>od_field = key, descending = False\<rparr>])"

definition normalizeOrderDescriptors :: "string list \<Rightarrow> string list \<Rightarrow> order_descriptor list result" where
  "normalizeOrderDescriptors clauses idProperties =
     rbind (clause_descriptors clauses []) (\<lambda>ds.
       let all = fold add_id idProperties ds
       in Inr (if all = []
          then [\<lparr>od_field = (case idProperties of [] \<Rightarrow> ''id'' | p # _ \<Rightarrow> p), descending = False\<rparr>]
          else all))"

text \<open>The fields of the order are read with the others; a path is none of the model's properties.\<close>

definition projected_field :: "order_descriptor \<Rightarrow> bool" where
  "projected_field d \<longleftrightarrow> od_field d \<noteq> [] \<and> CHR ''/'' \<notin> set (od_field d)"

definition include_name :: "string \<Rightarrow> string list \<Rightarrow> string list" where
  "include_name f names = (if f \<in> set names then names else names @ [f])"

definition ensureOrderProjection :: "field_filter \<Rightarrow> order_descriptor list \<Rightarrow> field_filter" where
  "ensureOrderProjection given ds =
     (let fs = map od_field (filter projected_field ds)
      in case given of
           FieldList names \<Rightarrow> FieldList (fold include_name fs names)
         | FieldFlags flags \<Rightarrow> FieldFlags (fold (\<lambda>f. obj_set f True) fs flags)
         | _ \<Rightarrow> given)"

definition descriptor_text :: "order_descriptor \<Rightarrow> string" where
  "descriptor_text d = od_field d @ '' '' @ (if descending d then ''DESC'' else ''ASC'')"

text \<open>The order and the fields of a filter with \<open>$skip\<close>, with its descriptors; none where nothing changes.\<close>

definition ensureManualSkipOrderDeterminism ::
  "bool \<Rightarrow> string list \<Rightarrow> string list \<Rightarrow> field_filter \<Rightarrow> (order_descriptor list \<times> string list \<times> field_filter) option result" where
  "ensureManualSkipOrderDeterminism appendKeys clauses idProperties given =
     (if \<not> appendKeys \<or> idProperties = [] then Inr None
      else rbind (normalizeOrderDescriptors clauses idProperties) (\<lambda>ds.
        Inr (Some (ds, map descriptor_text ds, ensureOrderProjection given ds))))"

section \<open>Limits\<close>

text \<open>\<open>Number(v)\<close> of a configured value, when it is positive, without its fraction; that may be zero.\<close>

definition coerceLimit :: "js_number \<Rightarrow> int option" where
  "coerceLimit n = (case n of Finite x \<Rightarrow> if 0 < x then Some \<lfloor>x\<rfloor> else None | _ \<Rightarrow> None)"

fun first_limit :: "int option list \<Rightarrow> int option" where
  "first_limit [] = None"
| "first_limit (Some n # ls) = Some n"
| "first_limit (None # ls) = first_limit ls"

text \<open>What is not configured is \<open>NaN\<close>, the number of \<open>undefined\<close>.\<close>

record pagination =
  maxTop :: js_number
  maxSkip :: js_number
  maxPageSize :: js_number
  maxApplyPageSize :: js_number

record pagination_limits =
  limit_top :: "int option"
  limit_skip :: "int option"
  limit_page :: "int option"
  limit_apply_page :: "int option"

definition getPaginationLimits :: "pagination \<Rightarrow> pagination \<Rightarrow> js_number \<Rightarrow> js_number \<Rightarrow> pagination_limits" where
  "getPaginationLimits entityLimits global cfgTop cfgSkip =
     (let page = first_limit [coerceLimit (maxPageSize entityLimits), coerceLimit (maxPageSize global)]
      in \<lparr>limit_top = first_limit [coerceLimit (maxTop entityLimits), coerceLimit (maxTop global), coerceLimit cfgTop],
          limit_skip = first_limit [coerceLimit (maxSkip entityLimits), coerceLimit (maxSkip global), coerceLimit cfgSkip],
          limit_page = page,
          limit_apply_page = first_limit [coerceLimit (maxApplyPageSize entityLimits), coerceLimit (maxApplyPageSize global), page]\<rparr>)"

text \<open>\<open>if (maxPageSize && n > maxPageSize)\<close>: a limit of zero is none.\<close>

definition above_limit :: "int option \<Rightarrow> int \<Rightarrow> bool" where
  "above_limit limit n = (case limit of None \<Rightarrow> False | Some m \<Rightarrow> m \<noteq> 0 \<and> m < n)"

definition base_page_size :: "js_number \<Rightarrow> int option \<Rightarrow> int" where
  "base_page_size configured limit =
     (let base = (case coerceLimit configured of Some n \<Rightarrow> n | None \<Rightarrow> 200)
      in if above_limit limit base then the limit else base)"

definition resolvePageSize :: "js_number \<Rightarrow> int option \<Rightarrow> js_number \<Rightarrow> int" where
  "resolvePageSize configured limit requested =
     (let base = base_page_size configured limit
      in case requested of
           Finite x \<Rightarrow>
             (let n = \<lfloor>x\<rfloor>
              in if n \<le> 0 then base
                 else if above_limit limit n then min base (the limit)
                 else if base < n then base
                 else n)
         | _ \<Rightarrow> base)"

section \<open>The values of a token\<close>

text \<open>
  The type of a property: a constructor or a name, in its definition or in its JSON schema.
\<close>

datatype type_ref = Constructor string | Named string

record property_type =
  declared_type :: "type_ref option"
  schema_type :: "string option"
  schema_format :: "string option"

definition effective_type :: "property_type \<Rightarrow> type_ref option" where
  "effective_type p = (case declared_type p of Some t \<Rightarrow> Some t | None \<Rightarrow> map_option Named (schema_type p))"

definition stringifySkipTokenValue :: "etag_host \<Rightarrow> js_value \<Rightarrow> string result" where
  "stringifySkipTokenValue h v =
     (case v of
        JUndefined \<Rightarrow> Inr ''null''
      | JNull \<Rightarrow> Inr ''null''
      | JDate None \<Rightarrow> Inl RangeError
      | JDate (Some t) \<Rightarrow> Inr (iso_text h t)
      | JArr vs \<Rightarrow> Inr (the (json_text h v))
      | JObj ps \<Rightarrow> Inr (the (json_text h v))
      | _ \<Rightarrow> Inr (js_String (js_host.truncate h) v))"

definition bad_token_value :: "string \<Rightarrow> string \<Rightarrow> 'a result" where
  "bad_token_value kind field = Inl (HttpError 400 [] (''Invalid '' @ kind @ '' value in $skiptoken for '' @ field @ ''.''))"

definition is_date_property :: "property_type \<Rightarrow> bool" where
  "is_date_property p \<longleftrightarrow> effective_type p \<in> {Some (Constructor ''Date''), Some (Named ''date''), Some (Named ''datetime'')}
     \<or> schema_format p = Some ''date-time''"

definition coerceSkipTokenValue :: "etag_host \<Rightarrow> (string \<Rightarrow> property_type option) \<Rightarrow> string \<Rightarrow> string \<Rightarrow> js_value result" where
  "coerceSkipTokenValue h props field raw =
     (if raw = ''null'' then Inr JNull
      else case props field of
          None \<Rightarrow> Inr (JStr raw)
        | Some p \<Rightarrow>
            if effective_type p \<in> {Some (Constructor ''Number''), Some (Named ''number'')}
            then (case js_Number raw of NotANumber \<Rightarrow> bad_token_value ''numeric'' field | n \<Rightarrow> Inr (JNum n))
            else if effective_type p \<in> {Some (Constructor ''Boolean''), Some (Named ''boolean'')}
            then (if raw = ''true'' \<or> raw = ''false'' then Inr (JBool (raw = ''true'')) else bad_token_value ''boolean'' field)
            else if is_date_property p
            then (case date_parse h raw of None \<Rightarrow> bad_token_value ''date'' field | Some t \<Rightarrow> Inr (JDate (Some t)))
            else Inr (JStr raw))"

text \<open>\<open>extractFieldValue\<close> reads a path, and a field without a slash is a path of one segment.\<close>

definition extractFieldValue :: "js_value \<Rightarrow> string \<Rightarrow> js_value" where
  "extractFieldValue r field = (if is_nullish r then JUndefined else resolvePath r (split_on CHR ''/'' field))"

text \<open>The values \<open>createSkipToken\<close> signs: none when a field of the order is missing.\<close>

fun token_values :: "etag_host \<Rightarrow> js_value \<Rightarrow> order_descriptor list \<Rightarrow> string list option result" where
  "token_values h r [] = Inr (Some [])"
| "token_values h r (d # ds) =
     (let v = extractFieldValue r (od_field d)
      in if v = JUndefined then Inr None
         else rbind (stringifySkipTokenValue h v) (\<lambda>s.
           rbind (token_values h r ds) (\<lambda>rest. Inr (map_option ((#) s) rest))))"

definition createSkipToken :: "etag_host \<Rightarrow> js_value \<Rightarrow> order_descriptor list \<Rightarrow> string list option result" where
  "createSkipToken h r ds = (if is_nullish r \<or> ds = [] then Inr None else token_values h r ds)"

section \<open>The rows after a token\<close>

definition buildEqualityClause :: "string \<Rightarrow> js_value \<Rightarrow> where_clause" where
  "buildEqualityClause field v = WField field (Value v)"

definition skip_comparison :: "order_descriptor \<Rightarrow> js_value \<Rightarrow> where_clause option" where
  "skip_comparison d v =
     (if v = JNull then (if descending d then Some (op (od_field d) ''neq'' JNull) else None)
      else Some (op (od_field d) (if descending d then ''lt'' else ''gt'') v))"

definition skip_branch :: "order_descriptor list \<Rightarrow> js_value list \<Rightarrow> nat \<Rightarrow> where_clause option" where
  "skip_branch ds vs i = combineWithAnd
     (map (\<lambda>j. Some (buildEqualityClause (od_field (ds ! j)) (vs ! j))) [0..<i] @ [skip_comparison (ds ! i) (vs ! i)])"

definition skip_constraint :: "order_descriptor list \<Rightarrow> js_value list \<Rightarrow> where_clause option" where
  "skip_constraint ds vs = combineWithOr (map (skip_branch ds vs) [0..<length ds])"

fun coerce_values :: "etag_host \<Rightarrow> (string \<Rightarrow> property_type option) \<Rightarrow> order_descriptor list \<Rightarrow> string list \<Rightarrow> js_value list result" where
  "coerce_values h props [] raws = Inr []"
| "coerce_values h props (d # ds) raws =
     rbind (coerceSkipTokenValue h props (od_field d) (case raws of [] \<Rightarrow> [] | raw # _ \<Rightarrow> raw)) (\<lambda>v.
       rbind (coerce_values h props ds (case raws of [] \<Rightarrow> [] | _ # rest \<Rightarrow> rest)) (\<lambda>vs. Inr (v # vs)))"

text \<open>The condition for the rows after the values of a verified token.\<close>

definition buildSkipTokenConstraint ::
  "etag_host \<Rightarrow> order_descriptor list \<Rightarrow> (string \<Rightarrow> property_type option) \<Rightarrow> string list \<Rightarrow> where_clause option result" where
  "buildSkipTokenConstraint h ds props raws =
     (if ds = [] then Inl (HttpError 400 [] ''Unable to apply $skiptoken without an order clause.'')
      else if length raws \<noteq> length ds then Inl (HttpError 400 [] ''Invalid $skiptoken value.'')
      else rbind (coerce_values h props ds raws) (\<lambda>vs. Inr (skip_constraint ds vs)))"

definition applyServerDrivenPaging ::
  "etag_host \<Rightarrow> js_value list \<Rightarrow> order_descriptor list \<Rightarrow> int \<Rightarrow> (js_value list \<times> string list option) result" where
  "applyServerDrivenPaging h data ds pageSize =
     (if pageSize \<le> 0 \<or> int (length data) \<le> pageSize then Inr (data, None)
      else (let items = take (nat pageSize) data
            in rbind (createSkipToken h (last items) ds) (\<lambda>token.
                 case token of
                   None \<Rightarrow> Inl (HttpError 500 [] ''Unable to generate $skiptoken for next page.'')
                 | Some t \<Rightarrow> Inr (items, Some t))))"

text \<open>
  One request for a page, its token verified: the condition joins the one of the filter, and the repository is
  asked for one row more than the page has. The repository answers with the rows the condition holds of, in the
  order of the descriptors (\<open>rows\<close> is the collection in that order).
\<close>

definition condition_holds :: "etag_host \<Rightarrow> where_clause option \<Rightarrow> js_value \<Rightarrow> bool" where
  "condition_holds h w r = (case w of None \<Rightarrow> True | Some c \<Rightarrow> where_holds (js_host.truncate h) (get_prop r) c)"

definition page_where ::
  "etag_host \<Rightarrow> order_descriptor list \<Rightarrow> (string \<Rightarrow> property_type option) \<Rightarrow> where_clause option \<Rightarrow> string list option
    \<Rightarrow> where_clause option result" where
  "page_where h ds props base token =
     (case token of
        None \<Rightarrow> Inr base
      | Some raws \<Rightarrow> rbind (buildSkipTokenConstraint h ds props raws) (\<lambda>constraint.
          Inr (case constraint of None \<Rightarrow> base | Some c \<Rightarrow> combineWithAnd [base, Some c])))"

definition serve_page ::
  "etag_host \<Rightarrow> order_descriptor list \<Rightarrow> (string \<Rightarrow> property_type option) \<Rightarrow> where_clause option \<Rightarrow> int \<Rightarrow> js_value list
    \<Rightarrow> string list option \<Rightarrow> (js_value list \<times> string list option) result" where
  "serve_page h ds props base pageSize rows token =
     rbind (page_where h ds props base token) (\<lambda>w.
       applyServerDrivenPaging h (take (nat (pageSize + 1)) (filter (condition_holds h w) rows)) ds pageSize)"

text \<open>A client that follows the next links, at most \<open>fuel\<close> times.\<close>

fun follow ::
  "nat \<Rightarrow> ('t option \<Rightarrow> ('r list \<times> 't option) result) \<Rightarrow> 't option \<Rightarrow> 'r list list result" where
  "follow 0 serve token = Inl OutOfFuel"
| "follow (Suc fuel) serve token =
     rbind (serve token) (\<lambda>(items, link).
       case link of
         None \<Rightarrow> Inr [items]
       | Some t \<Rightarrow> rbind (follow fuel serve (Some t)) (\<lambda>pages. Inr (items # pages)))"

section \<open>Pages of a strictly ordered list\<close>

text \<open>
  What paging by the last key relies on: the order in which one row comes after another is strict. Then the rows
  after a row of the ordered list are those that follow it, and pages that each start after the last
  row of the one before give every row once.
\<close>

definition page :: "nat \<Rightarrow> ('r \<Rightarrow> 't) \<Rightarrow> 'r list \<Rightarrow> 'r list \<times> 't option" where
  "page n token rs = (take n rs, if length rs \<le> n then None else Some (token (rs ! (n - 1))))"

locale keyset =
  fixes after :: "'r \<Rightarrow> 'r \<Rightarrow> bool"
  assumes irreflexive: "\<not> after r r"
    and asymmetric: "after r s \<Longrightarrow> \<not> after s r"
begin

lemma rest_after:
  assumes "sorted_wrt (\<lambda>r s. after s r) rs" "i < length rs"
  shows "filter (\<lambda>r. after r (rs ! i)) rs = drop (Suc i) rs"
proof -
  have order: "after (rs ! k) (rs ! j)" if "j < k" "k < length rs" for j k
    using assms(1) that by (simp add: sorted_wrt_iff_nth_less)
  have "rs = take (Suc i) rs @ drop (Suc i) rs" by simp
  moreover have "filter (\<lambda>r. after r (rs ! i)) (take (Suc i) rs) = []"
  proof -
    have "\<not> after (rs ! j) (rs ! i)" if "j \<le> i" for j
      using that order [of j i] assms(2) irreflexive asymmetric by (cases "j = i") auto
    then show ?thesis by (auto simp: filter_empty_conv in_set_conv_nth)
  qed
  moreover have "filter (\<lambda>r. after r (rs ! i)) (drop (Suc i) rs) = drop (Suc i) rs"
    using order assms(2) by (auto simp: filter_id_conv in_set_conv_nth)
  ultimately show ?thesis by (metis append_Nil filter_append)
qed

lemma follow_rest:
  assumes sorted: "sorted_wrt (\<lambda>r s. after s r) rows" and "0 < n"
    and next_page: "\<And>r. r \<in> set rows \<Longrightarrow> serve (Some (token r)) = Inr (page n token (filter (\<lambda>s. after s r) rows))"
  shows "serve t = Inr (page n token (drop k rows)) \<Longrightarrow> length rows - k < fuel \<Longrightarrow>
    \<exists>pages. follow fuel serve t = Inr pages \<and> concat pages = drop k rows \<and> (\<forall>p\<in>set pages. length p \<le> n)"
proof (induction fuel arbitrary: t k)
  case (Suc fuel)
  show ?case
  proof (cases "length rows - k \<le> n")
    case True
    then have "page n token (drop k rows) = (drop k rows, None)" by (simp add: page_def)
    with Suc.prems True show ?thesis by simp
  next
    case False
    let ?i = "k + (n - 1)"
    have i: "?i < length rows" "Suc ?i = k + n" using False \<open>0 < n\<close> by auto
    have p: "page n token (drop k rows) = (take n (drop k rows), Some (token (rows ! ?i)))"
      using False by (simp add: page_def add.commute)
    have "serve (Some (token (rows ! ?i))) = Inr (page n token (drop (k + n) rows))"
      using next_page [of "rows ! ?i"] rest_after [OF sorted i(1)] i by simp
    then obtain pages where "follow fuel serve (Some (token (rows ! ?i))) = Inr pages"
      "concat pages = drop (k + n) rows" "\<forall>p\<in>set pages. length p \<le> n"
      using Suc.IH Suc.prems(2) False \<open>0 < n\<close> by fastforce
    moreover have "take n (drop k rows) @ drop (k + n) rows = drop k rows"
      using append_take_drop_id [of n "drop k rows"] by (simp add: add.commute)
    ultimately show ?thesis using Suc.prems(1) p by simp
  qed
qed simp

lemma follow_all:
  assumes "sorted_wrt (\<lambda>r s. after s r) rows" "0 < n" "serve None = Inr (page n token rows)"
    and "\<And>r. r \<in> set rows \<Longrightarrow> serve (Some (token r)) = Inr (page n token (filter (\<lambda>s. after s r) rows))"
    and "length rows < fuel"
  shows "\<exists>pages. follow fuel serve None = Inr pages \<and> concat pages = rows \<and> (\<forall>p\<in>set pages. length p \<le> n)"
  using follow_rest [OF assms(1,2,4), of None 0 fuel] assms(3,5) by simp

end

section \<open>The order of the code is strict\<close>

definition directed :: "order_descriptor \<Rightarrow> int \<Rightarrow> int" where
  "directed d c = (if descending d then - c else c)"

text \<open>Values that come after others, the first ones that differ deciding.\<close>

fun lex_after :: "js_host \<Rightarrow> order_descriptor list \<Rightarrow> js_value list \<Rightarrow> js_value list \<Rightarrow> bool" where
  "lex_after h (d # ds) (v # vs) (w # ws) =
     (let c = directed d (compareValues h v w) in 0 < c \<or> (c = 0 \<and> lex_after h ds vs ws))"
| "lex_after h _ _ _ = False"

definition order_keys :: "order_descriptor list \<Rightarrow> js_value \<Rightarrow> js_value list" where
  "order_keys ds r = map (\<lambda>d. get_prop r (od_field d)) ds"

definition row_complete :: "order_descriptor list \<Rightarrow> js_value \<Rightarrow> bool" where
  "row_complete ds r \<longleftrightarrow> list_all (\<lambda>v. \<not> is_nullish v) (order_keys ds r)"

definition comes_after :: "js_host \<Rightarrow> order_descriptor list \<Rightarrow> js_value \<Rightarrow> js_value \<Rightarrow> bool" where
  "comes_after h ds r s \<longleftrightarrow> row_complete ds r \<and> row_complete ds s \<and> lex_after h ds (order_keys ds r) (order_keys ds s)"

lemma compareValues_refl [simp]: "compareValues h v v = 0"
proof -
  have "compare_plain h v v = 0"
    by (cases v) (simp_all add: compare_text_def sign_of_def)
  then show ?thesis
    by (cases v) (auto simp: compareValues_def sign_of_def split: option.splits)
qed

lemma directed_zero [simp]: "directed d c = 0 \<longleftrightarrow> c = 0" "directed d (- c) = - directed d c" "directed d 0 = 0"
  by (auto simp: directed_def)

lemma lex_irreflexive: "\<not> lex_after h ds vs vs"
proof (induction ds arbitrary: vs)
  case (Cons d ds)
  then show ?case by (cases vs) (simp_all add: directed_def)
qed simp

lemma lex_asymmetric:
  "list_all (\<lambda>v. \<not> is_nullish v) vs \<Longrightarrow> list_all (\<lambda>v. \<not> is_nullish v) ws \<Longrightarrow>
     lex_after h ds vs ws \<Longrightarrow> \<not> lex_after h ds ws vs"
proof (induction h ds vs ws rule: lex_after.induct)
  case (1 h d ds v vs w ws)
  then have "compareValues h w v = - compareValues h v w" by (intro compareValues_antisym) simp_all
  with 1 show ?case by (auto simp: Let_def)
qed auto

interpretation collection: keyset "comes_after h ds"
  by unfold_locales (auto simp: comes_after_def row_complete_def lex_irreflexive dest: lex_asymmetric)

section \<open>What the condition of a token says\<close>

lemma and_entries_holds [simp]: "list_all (where_holds h f) (and_entries w) = where_holds h f w"
  by (cases w rule: and_entries.cases) simp_all

lemma or_entries_holds [simp]: "list_ex (where_holds h f) (or_entries w) = where_holds h f w"
  by (cases w rule: or_entries.cases) simp_all

lemma list_all_entries: "list_all P (concat (map g ws)) = list_all (\<lambda>w. list_all P (g w)) ws"
  by (induction ws) auto

lemma list_ex_entries: "list_ex P (concat (map g ws)) = list_ex (\<lambda>w. list_ex P (g w)) ws"
  by (induction ws) auto

lemma combineWithAnd_holds:
  "present parts \<noteq> [] \<Longrightarrow> \<exists>w. combineWithAnd parts = Some w \<and> where_holds h f w = list_all (where_holds h f) (present parts)"
  by (auto simp: combineWithAnd_def list_all_entries split: list.splits)

lemma combineWithOr_holds:
  "present parts \<noteq> [] \<Longrightarrow> \<exists>w. combineWithOr parts = Some w \<and> where_holds h f w = list_ex (where_holds h f) (present parts)"
  by (auto simp: combineWithOr_def list_ex_entries split: list.splits)

lemma present_append [simp]: "present (xs @ ys) = present xs @ present ys"
  by (simp add: present_def)

lemma present_Some [simp]: "present (map (\<lambda>x. Some (g x)) xs) = map g xs"
  by (induction xs) simp_all

lemma lex_after_iff:
  "length vs = length ds \<Longrightarrow> length ws = length ds \<Longrightarrow>
     lex_after h ds vs ws \<longleftrightarrow>
       (\<exists>i<length ds. (\<forall>j<i. compareValues h (vs ! j) (ws ! j) = 0) \<and> 0 < directed (ds ! i) (compareValues h (vs ! i) (ws ! i)))"
proof (induction h ds vs ws rule: lex_after.induct)
  case (1 h d ds v vs w ws)
  then show ?case by (auto simp: Let_def Ex_less_Suc2 All_less_Suc2)
qed auto

lemma skip_branch_holds:
  assumes "length vs = length ds" "i < length ds" "row_complete ds r" "list_all (\<lambda>v. \<not> is_nullish v) vs"
  shows "\<exists>w. skip_branch ds vs i = Some w \<and> (where_holds h (get_prop r) w \<longleftrightarrow>
    (\<forall>j<i. compareValues h (order_keys ds r ! j) (vs ! j) = 0) \<and> 0 < directed (ds ! i) (compareValues h (order_keys ds r ! i) (vs ! i)))"
proof -
  have some: "\<not> is_nullish (order_keys ds r ! j)" "\<not> is_nullish (vs ! j)" "order_keys ds r ! j = get_prop r (od_field (ds ! j))" if "j < length ds" for j
    using assms that by (auto simp: row_complete_def list_all_length order_keys_def)
  have comparison: "skip_comparison (ds ! i) (vs ! i) = Some (op (od_field (ds ! i)) (if descending (ds ! i) then ''lt'' else ''gt'') (vs ! i))"
    using some(2) [OF assms(2)] by (auto simp: skip_comparison_def)
  have eqs: "where_holds h (get_prop r) (buildEqualityClause (od_field (ds ! j)) (vs ! j)) \<longleftrightarrow> compareValues h (order_keys ds r ! j) (vs ! j) = 0"
    if "j < i" for j
    using some [of j] that assms(2) by (auto simp: buildEqualityClause_def value_holds_def)
  have cmp: "where_holds h (get_prop r) (op (od_field (ds ! i)) (if descending (ds ! i) then ''lt'' else ''gt'') (vs ! i))
      \<longleftrightarrow> 0 < directed (ds ! i) (compareValues h (order_keys ds r ! i) (vs ! i))"
    using some [OF assms(2)] by (auto simp: op_where_holds op_holds_def ordered_def directed_def)
  show ?thesis
    using combineWithAnd_holds [of "map (\<lambda>j. Some (buildEqualityClause (od_field (ds ! j)) (vs ! j))) [0..<i] @ [skip_comparison (ds ! i) (vs ! i)]" h "get_prop r"]
    by (auto simp: skip_branch_def comparison cmp list_all_iff eqs)
qed

lemma skip_constraint_holds:
  assumes "length vs = length ds" "ds \<noteq> []" "row_complete ds r" "list_all (\<lambda>v. \<not> is_nullish v) vs"
  shows "\<exists>w. skip_constraint ds vs = Some w \<and> where_holds h (get_prop r) w = lex_after h ds (order_keys ds r) vs"
proof -
  define w where "w i = the (skip_branch ds vs i)" for i
  have w: "skip_branch ds vs i = Some (w i)" "where_holds h (get_prop r) (w i) \<longleftrightarrow>
    (\<forall>j<i. compareValues h (order_keys ds r ! j) (vs ! j) = 0) \<and> 0 < directed (ds ! i) (compareValues h (order_keys ds r ! i) (vs ! i))"
    if "i < length ds" for i
    using skip_branch_holds [OF assms(1) that assms(3,4), of h] by (auto simp: w_def)
  then have "skip_constraint ds vs = combineWithOr (map (\<lambda>i. Some (w i)) [0..<length ds])"
    unfolding skip_constraint_def by (intro arg_cong [of _ _ combineWithOr]) simp
  then obtain c where "skip_constraint ds vs = Some c"
    "where_holds h (get_prop r) c = list_ex (where_holds h (get_prop r)) (map w [0..<length ds])"
    using combineWithOr_holds [of "map (\<lambda>i. Some (w i)) [0..<length ds]" h "get_prop r"] assms(2)
    unfolding present_Some by auto
  moreover have "list_ex (where_holds h (get_prop r)) (map w [0..<length ds]) \<longleftrightarrow> (\<exists>i<length ds. where_holds h (get_prop r) (w i))"
    by (auto simp: list_ex_iff)
  moreover have "length (order_keys ds r) = length ds" by (simp add: order_keys_def)
  ultimately show ?thesis using w(2) by (auto simp: lex_after_iff assms(1))
qed

section \<open>Tokens bring the values of a row back\<close>

definition transported :: "etag_host \<Rightarrow> (string \<Rightarrow> property_type option) \<Rightarrow> string \<Rightarrow> js_value \<Rightarrow> bool" where
  "transported h props f v \<longleftrightarrow> \<not> is_nullish v \<and> rbind (stringifySkipTokenValue h v) (coerceSkipTokenValue h props f) = Inr v"

definition row_ready :: "etag_host \<Rightarrow> order_descriptor list \<Rightarrow> (string \<Rightarrow> property_type option) \<Rightarrow> js_value \<Rightarrow> bool" where
  "row_ready h ds props r \<longleftrightarrow> \<not> is_nullish r
     \<and> list_all (\<lambda>d. CHR ''/'' \<notin> set (od_field d) \<and> transported h props (od_field d) (get_prop r (od_field d))) ds"

lemma transported_string:
  "s \<noteq> ''null'' \<Longrightarrow> props f = None \<Longrightarrow> transported h props f (JStr s)"
  by (simp add: transported_def stringifySkipTokenValue_def coerceSkipTokenValue_def)

lemma transported_number:
  assumes "js_Number (number_text h x) = Finite x" "props f = Some p" "effective_type p \<in> {Some (Constructor ''Number''), Some (Named ''number'')}"
  shows "transported h props f (JNum (Finite x))"
proof -
  have "js_Number ''null'' = NotANumber" by code_simp
  with assms(1) have "number_text h x \<noteq> ''null''" by auto
  with assms show ?thesis
    by (auto simp: transported_def stringifySkipTokenValue_def coerceSkipTokenValue_def js_host.truncate_def)
qed

lemma transported_boolean:
  "props f = Some p \<Longrightarrow> effective_type p \<in> {Some (Constructor ''Boolean''), Some (Named ''boolean'')} \<Longrightarrow> transported h props f (JBool b)"
  by (auto simp: transported_def stringifySkipTokenValue_def coerceSkipTokenValue_def)

lemma transported_date:
  "date_parse h (iso_text h t) = Some t \<Longrightarrow> iso_text h t \<noteq> ''null'' \<Longrightarrow> props f = Some p \<Longrightarrow>
     effective_type p = Some (Constructor ''Date'') \<Longrightarrow> transported h props f (JDate (Some t))"
  by (simp add: transported_def stringifySkipTokenValue_def coerceSkipTokenValue_def is_date_property_def)

definition token_of :: "etag_host \<Rightarrow> order_descriptor list \<Rightarrow> js_value \<Rightarrow> string list" where
  "token_of h ds r = map (\<lambda>d. projr (stringifySkipTokenValue h (get_prop r (od_field d)))) ds"

lemma ready_Cons: "row_ready h (d # ds) props r \<Longrightarrow>
    row_ready h ds props r \<and> extractFieldValue r (od_field d) = get_prop r (od_field d)
      \<and> \<not> is_nullish (get_prop r (od_field d))
      \<and> stringifySkipTokenValue h (get_prop r (od_field d)) = Inr (projr (stringifySkipTokenValue h (get_prop r (od_field d))))
      \<and> coerceSkipTokenValue h props (od_field d) (projr (stringifySkipTokenValue h (get_prop r (od_field d)))) = Inr (get_prop r (od_field d))"
  by (auto simp: row_ready_def transported_def extractFieldValue_def split_on_single)

lemma token_values_ready: "row_ready h ds props r \<Longrightarrow> token_values h r ds = Inr (Some (token_of h ds r))"
proof (induction ds)
  case (Cons d ds)
  note facts = ready_Cons [OF Cons.prems]
  moreover have "get_prop r (od_field d) \<noteq> JUndefined" using facts by auto
  ultimately show ?case using Cons.IH
    by (cases "stringifySkipTokenValue h (get_prop r (od_field d))") (simp_all add: token_of_def)
qed (simp add: token_of_def)

lemma coerce_values_ready: "row_ready h ds props r \<Longrightarrow> coerce_values h props ds (token_of h ds r) = Inr (order_keys ds r)"
proof (induction ds)
  case (Cons d ds)
  then show ?case using ready_Cons [OF Cons.prems] by (simp add: token_of_def order_keys_def)
qed (simp add: token_of_def order_keys_def)

lemma ready_complete: "row_ready h ds props r \<Longrightarrow> row_complete ds r"
  by (auto simp: row_ready_def row_complete_def order_keys_def transported_def list_all_iff)

lemma create_ready: "row_ready h ds props r \<Longrightarrow> ds \<noteq> [] \<Longrightarrow> createSkipToken h r ds = Inr (Some (token_of h ds r))"
  using token_values_ready [of h ds props r] by (simp add: createSkipToken_def) (simp add: row_ready_def)

lemma constraint_ready:
  "row_ready h ds props r \<Longrightarrow> ds \<noteq> [] \<Longrightarrow> buildSkipTokenConstraint h ds props (token_of h ds r) = Inr (skip_constraint ds (order_keys ds r))"
  using coerce_values_ready by (simp add: buildSkipTokenConstraint_def) (simp add: token_of_def)

section \<open>The pages of a collection\<close>

lemma condition_combined:
  "condition_holds h (combineWithAnd [base, Some c]) r = (condition_holds h base r \<and> where_holds (js_host.truncate h) (get_prop r) c)"
  using combineWithAnd_holds [of "[base, Some c]" "js_host.truncate h" "get_prop r"]
  by (cases base) (auto simp: condition_holds_def)

lemma applied_page:
  assumes "0 < n" "ds \<noteq> []" "\<forall>r\<in>set rs. row_ready h ds props r"
  shows "applyServerDrivenPaging h (take (Suc n) rs) ds (int n) = Inr (page n (token_of h ds) rs)"
proof (cases "length rs \<le> n")
  case False
  then have "take n rs \<noteq> []" using assms(1) by auto
  then have "last (take n rs) = rs ! (n - 1)" using False assms(1) by (simp add: last_conv_nth min_def)
  moreover have "rs ! (n - 1) \<in> set rs" "length (take (Suc n) rs) = Suc n" using False by simp_all
  moreover note False
  ultimately show ?thesis
    using create_ready [of h ds props "rs ! (n - 1)"] assms
    by (simp add: applyServerDrivenPaging_def page_def Let_def min_def)
qed (simp add: applyServerDrivenPaging_def page_def)

lemma constraint_filters:
  assumes "row_ready h ds props r" "row_ready h ds props s" "ds \<noteq> []"
  shows "\<exists>c. skip_constraint ds (order_keys ds r) = Some c
    \<and> where_holds (js_host.truncate h) (get_prop s) c = comes_after (js_host.truncate h) ds s r"
  using skip_constraint_holds [of "order_keys ds r" ds s "js_host.truncate h"] ready_complete [OF assms(1)] ready_complete [OF assms(2)] assms(3)
  by (auto simp: comes_after_def order_keys_def row_complete_def)

lemma served_page:
  assumes "0 < n" "ds \<noteq> []" "\<forall>r\<in>set rows. row_ready h ds props r"
  shows "serve_page h ds props base (int n) rows None = Inr (page n (token_of h ds) (filter (condition_holds h base) rows))"
    and "r \<in> set rows \<Longrightarrow> serve_page h ds props base (int n) rows (Some (token_of h ds r)) =
      Inr (page n (token_of h ds) (filter (\<lambda>s. comes_after (js_host.truncate h) ds s r) (filter (condition_holds h base) rows)))"
proof -
  have n: "nat (int n + 1) = Suc n" by simp
  have ready: "\<forall>r\<in>set (filter P rows). row_ready h ds props r" for P using assms(3) by simp
  show "serve_page h ds props base (int n) rows None = Inr (page n (token_of h ds) (filter (condition_holds h base) rows))"
    unfolding serve_page_def page_where_def n using applied_page [OF assms(1,2) ready] by simp
  assume r: "r \<in> set rows"
  then obtain c where c: "skip_constraint ds (order_keys ds r) = Some c"
    using constraint_filters assms(2,3) by blast
  have "where_holds (js_host.truncate h) (get_prop s) c = comes_after (js_host.truncate h) ds s r" if "s \<in> set rows" for s
    using constraint_filters [of h ds props r s] r that assms(2,3) c by auto
  then have "filter (condition_holds h (combineWithAnd [base, Some c])) rows
      = filter (\<lambda>s. comes_after (js_host.truncate h) ds s r) (filter (condition_holds h base) rows)"
    by (auto simp: condition_combined filter_filter intro: filter_cong)
  with c r show "serve_page h ds props base (int n) rows (Some (token_of h ds r)) =
      Inr (page n (token_of h ds) (filter (\<lambda>s. comes_after (js_host.truncate h) ds s r) (filter (condition_holds h base) rows)))"
    unfolding serve_page_def page_where_def n
    using constraint_ready [of h ds props r] applied_page [OF assms(1,2) ready] assms(2,3) by simp
qed

lemma pages_cover:
  assumes "0 < n" "ds \<noteq> []" "\<forall>r\<in>set rows. row_ready h ds props r"
    and "sorted_wrt (\<lambda>r s. comes_after (js_host.truncate h) ds s r) rows" "length rows < fuel"
  shows "\<exists>pages. follow fuel (serve_page h ds props base (int n) rows) None = Inr pages
    \<and> concat pages = filter (condition_holds h base) rows \<and> (\<forall>p\<in>set pages. length p \<le> n)"
proof (rule collection.follow_all)
  show "sorted_wrt (\<lambda>r s. comes_after (js_host.truncate h) ds s r) (filter (condition_holds h base) rows)"
    by (rule sorted_wrt_filter [OF assms(4)])
  show "length (filter (condition_holds h base) rows) < fuel"
    using assms(5) by (rule le_less_trans [OF length_filter_le])
qed (use assms(1) served_page [OF assms(1,2,3)] in auto)

section \<open>Rows without a value\<close>

lemma combined_or_member:
  "combineWithOr parts = Some w \<Longrightarrow> where_holds h f w = list_ex (where_holds h f) (present parts)"
  using combineWithOr_holds [of parts h f] by (cases "present parts = []") (auto simp: combineWithOr_def)

lemma combined_and_member:
  "combineWithAnd parts = Some w \<Longrightarrow> where_holds h f w = list_all (where_holds h f) (present parts)"
  using combineWithAnd_holds [of parts h f] by (cases "present parts = []") (auto simp: combineWithAnd_def)

lemma present_iff: "x \<in> set (present xs) \<longleftrightarrow> Some x \<in> set xs"
  by (induction xs) (auto simp: present_def split: option.splits)

text \<open>A row without a value in the first field of the order never comes after a token with one.\<close>

lemma null_never_after:
  assumes "skip_constraint ds vs = Some w" "ds \<noteq> []" "\<not> is_nullish (vs ! 0)" "is_nullish (f (od_field (ds ! 0)))"
  shows "\<not> where_holds h f w"
proof
  assume "where_holds h f w"
  then obtain i b where i: "i < length ds" "skip_branch ds vs i = Some b" "where_holds h f b"
    using assms(1) by (force simp: skip_constraint_def combined_or_member list_ex_iff present_iff)
  have b: "\<forall>c\<in>set (present (map (\<lambda>j. Some (buildEqualityClause (od_field (ds ! j)) (vs ! j))) [0..<i] @ [skip_comparison (ds ! i) (vs ! i)])).
      where_holds h f c"
    using i(2,3) combined_and_member unfolding skip_branch_def list_all_iff by blast
  show False
  proof (cases i)
    case 0
    have "skip_comparison (ds ! 0) (vs ! 0) = Some (op (od_field (ds ! 0)) (if descending (ds ! 0) then ''lt'' else ''gt'') (vs ! 0))"
      using assms(3) by (auto simp: skip_comparison_def)
    with b 0 assms(4) show False by (simp add: op_where_holds op_holds_def ordered_def split: if_splits)
  next
    case (Suc j)
    have "buildEqualityClause (od_field (ds ! 0)) (vs ! 0) \<in> set (map (\<lambda>j. buildEqualityClause (od_field (ds ! j)) (vs ! j)) [0..<i])"
      unfolding set_map by (rule image_eqI [of _ _ 0]) (simp_all add: Suc del: upt_Suc)
    with b have "where_holds h f (buildEqualityClause (od_field (ds ! 0)) (vs ! 0))"
      unfolding present_append present_Some set_append by blast
    moreover have "compareValues h (f (od_field (ds ! 0))) (vs ! 0) \<noteq> 0"
      using assms(3,4) by (cases "f (od_field (ds ! 0))"; cases "vs ! 0") (simp_all add: compareValues_def)
    ultimately show False using assms(3) by (simp add: buildEqualityClause_def value_holds_def)
  qed
qed

text \<open>A token of a row with a null in a later ascending field asks for that row again.\<close>

lemma null_token_repeats:
  assumes "skip_constraint ds (order_keys ds r) = Some w" "0 < i" "i < length ds"
    and "\<not> descending (ds ! i)" "get_prop r (od_field (ds ! i)) = JNull"
  shows "where_holds h (get_prop r) w"
proof -
  let ?eqs = "map (\<lambda>j. buildEqualityClause (od_field (ds ! j)) (order_keys ds r ! j)) [0..<i]"
  have k: "order_keys ds r ! j = get_prop r (od_field (ds ! j))" if "j < length ds" for j using that by (simp add: order_keys_def)
  have "skip_comparison (ds ! i) (order_keys ds r ! i) = None"
    using assms(3,4,5) by (simp add: skip_comparison_def k)
  then have p: "present (map (\<lambda>j. Some (buildEqualityClause (od_field (ds ! j)) (order_keys ds r ! j))) [0..<i]
      @ [skip_comparison (ds ! i) (order_keys ds r ! i)]) = ?eqs" by simp
  obtain b where b: "skip_branch ds (order_keys ds r) i = Some b" "where_holds h (get_prop r) b = list_all (where_holds h (get_prop r)) ?eqs"
    using combineWithAnd_holds [of "map (\<lambda>j. Some (buildEqualityClause (od_field (ds ! j)) (order_keys ds r ! j))) [0..<i]
      @ [skip_comparison (ds ! i) (order_keys ds r ! i)]" h "get_prop r"] assms(2) unfolding p skip_branch_def by auto
  have "list_all (where_holds h (get_prop r)) ?eqs"
    using assms(3) by (auto simp: list_all_iff buildEqualityClause_def value_holds_def k)
  with b have "list_ex (where_holds h (get_prop r)) (present (map (skip_branch ds (order_keys ds r)) [0..<length ds]))"
    using assms(3) by (force simp: list_ex_iff present_iff)
  with assms(1) show ?thesis by (simp add: skip_constraint_def combined_or_member)
qed

section \<open>Sizes\<close>

lemma base_page_size_bounds:
  assumes "case limit of None \<Rightarrow> True | Some m \<Rightarrow> 0 \<le> m"
  shows "0 \<le> base_page_size configured limit" "\<not> above_limit limit (base_page_size configured limit)"
  using assms by (auto simp: base_page_size_def above_limit_def coerceLimit_def Let_def split: js_number.splits option.splits)

lemma page_size_bounds:
  assumes "case limit of None \<Rightarrow> True | Some m \<Rightarrow> 0 \<le> m"
  shows "resolvePageSize configured limit requested \<le> base_page_size configured limit"
    and "\<not> above_limit limit (resolvePageSize configured limit requested)"
    and "requested = Finite x \<Longrightarrow> 1 \<le> x \<Longrightarrow> resolvePageSize configured limit requested = min \<lfloor>x\<rfloor> (base_page_size configured limit)"
  using base_page_size_bounds [OF assms, of configured] assms
  by (auto simp: resolvePageSize_def Let_def above_limit_def min_def split: js_number.splits option.splits)

section \<open>The order names every key once\<close>

lemma clause_descriptors_distinct:
  "clause_descriptors clauses ds = Inr all \<Longrightarrow> distinct (map od_field ds) \<Longrightarrow> distinct (map od_field all)"
proof (induction clauses ds rule: clause_descriptors.induct)
  case (2 clause clauses ds)
  then show ?case by (auto simp: described_def split: list.splits if_splits)
qed simp

lemma add_ids:
  "distinct (map od_field ds) \<Longrightarrow> distinct (map od_field (fold add_id ids ds))
     \<and> described (fold add_id ids ds) = described ds \<union> (set ids - {[]})"
proof (induction ids arbitrary: ds)
  case (Cons k ids)
  have "distinct (map od_field (add_id k ds))" "described (add_id k ds) = described ds \<union> ({k} - {[]})"
    using Cons.prems by (auto simp: add_id_def described_def)
  with Cons.IH [of "add_id k ds"] show ?case by auto
qed simp

lemma descriptors_facts:
  assumes "normalizeOrderDescriptors clauses ids = Inr ds"
  shows "ds \<noteq> []" "distinct (map od_field ds)" "set ids - {[]} \<subseteq> described ds"
proof -
  obtain ds' where ds': "clause_descriptors clauses [] = Inr ds'" using assms by (auto simp: normalizeOrderDescriptors_def)
  then have d: "distinct (map od_field ds')" using clause_descriptors_distinct by fastforce
  note all = add_ids [OF d, of ids]
  have ds: "ds = (if fold add_id ids ds' = [] then [\<lparr>od_field = (case ids of [] \<Rightarrow> ''id'' | p # _ \<Rightarrow> p), descending = False\<rparr>]
      else fold add_id ids ds')"
    using assms ds' by (simp add: normalizeOrderDescriptors_def Let_def)
  show "ds \<noteq> []" "distinct (map od_field ds)" using all by (simp_all add: ds)
  show "set ids - {[]} \<subseteq> described ds"
  proof (cases "fold add_id ids ds' = []")
    case True
    with all have "set ids - {[]} = {}" by (auto simp: described_def)
    then show ?thesis by blast
  qed (use all ds in auto)
qed

end
