(* ===== verification/BatchUrls.thy ===== *)
theory BatchUrls
  imports PathRewriter Paging
begin

text \<open>
  The URLs of batch requests: the base path of the service (\<open>util/base-path.ts\<close>), and how the batch controller
  (\<open>controllers/batch.controller.ts\<close>) takes a URL into the service, finds the entity set it addresses and names the
  entity of a response. What the \<open>URL\<close> class makes of absolute URLs and what LoopBack knows of the relations of a model
  are arguments.
\<close>

section \<open>Base paths\<close>

definition normalizeBasePath :: "string option \<Rightarrow> string" where
  "normalizeBasePath configured =
     (let t = (case configured of None \<Rightarrow> [] | Some s \<Rightarrow> trim s)
      in if t = [] then ''/odata''
         else (let p = (if starts_with t ''/'' then t else CHR ''/'' # t)
               in if 1 < length p \<and> ends_with p ''/'' then butlast p else p))"

definition pathMatches :: "string \<Rightarrow> string \<Rightarrow> bool" where
  "pathMatches path base =
     (if path = [] \<or> base = [] then False
      else if base = ''/'' then path = ''/'' \<or> starts_with path ''/?'' \<or> starts_with path ''/#''
      else path = base \<or> starts_with path (base @ ''/'') \<or> starts_with path (base @ ''?'') \<or> starts_with path (base @ ''#''))"

definition normalizePathForMatching :: "string \<Rightarrow> string" where
  "normalizePathForMatching path =
     (let (withoutHash, hash) = cut_at CHR ''#'' (trim path); (bare, query) = cut_at CHR ''?'' withoutHash
      in if bare = [] then ''/'' else bare)"

definition extractFirstPathSegment :: "string \<Rightarrow> string option" where
  "extractFirstPathSegment path =
     (let p = normalizePathForMatching path
      in if \<not> starts_with p ''/'' then None else Some (hd (split_on CHR ''/'' (tl p))))"

definition normalizeFirstSegment :: "string \<Rightarrow> string" where
  "normalizeFirstSegment seg =
     (case index_of_char CHR ''('' seg of None \<Rightarrow> seg | Some i \<Rightarrow> if 0 < i then take i seg else seg)"

definition matchesConfiguredODataPath :: "string \<Rightarrow> string \<Rightarrow> string list \<Rightarrow> bool" where
  "matchesConfiguredODataPath path base names =
     (if path = [] \<or> base = [] then False
      else if base \<noteq> ''/'' then pathMatches path base
      else (let p = normalizePathForMatching path
            in if \<not> starts_with p ''/'' then False
               else if p = ''/'' then True
               else case extractFirstPathSegment p of
                   None \<Rightarrow> True
                 | Some seg \<Rightarrow> seg = [] \<or> seg \<in> {''$metadata'', ''$batch''} \<or> normalizeFirstSegment seg \<in> set names))"

definition stripBasePath :: "string \<Rightarrow> string \<Rightarrow> string" where
  "stripBasePath url base =
     (if base = ''/''
      then (let r = drop 1 url
            in if r = [] then [] else if starts_with r ''?'' \<or> starts_with r ''#'' then r else CHR ''/'' # r)
      else (let r = drop (length base) url in if r = [] then ''/'' else r))"

text \<open>The URLs of a request, without repetitions; an absent one is \<open>None\<close>.\<close>

definition with_slash :: "string \<Rightarrow> string" where
  "with_slash s = (if starts_with s ''/'' then s else CHR ''/'' # s)"

definition gatherRequestUrls :: "string option \<Rightarrow> string option \<Rightarrow> string option \<Rightarrow> string list" where
  "gatherRequestUrls url baseUrl originalUrl =
     (let push = (\<lambda>s. if s = [] then [] else [with_slash s]);
          combined = (if some_text baseUrl \<noteq> [] \<and> some_text url \<noteq> []
            then (let base = (if ends_with (the baseUrl) ''/'' then butlast (the baseUrl) else the baseUrl)
                  in if the url = ''/'' then push (if base = [] then ''/'' else base) else push (base @ with_slash (the url)))
            else [])
      in rev (remdups (rev (push (some_text url) @ combined @ push (some_text originalUrl)))))"

definition findMatchingRequestUrl :: "string list \<Rightarrow> string \<Rightarrow> string list \<Rightarrow> string option" where
  "findMatchingRequestUrl urls base names =
     (if base = [] then None
      else case filter (\<lambda>u. matchesConfiguredODataPath u base names) urls of [] \<Rightarrow> None | u # _ \<Rightarrow> Some u)"

section \<open>Entity sets\<close>

text \<open>
  The actions and functions of a set with whether they are unbound; the ids of the model, and its properties with
  their types and whether they are marked as ids.
\<close>

record set_def =
  set_name :: string
  set_model :: string
  exposed :: bool
  singleton_name :: "string option"
  set_operations :: "(string \<times> bool) list"
  set_ids :: "string list"
  set_properties :: "(string \<times> type_ref option \<times> bool) list"
  repository_key :: "string option"
  supports_transactions :: "bool option"
  capability_locked :: "bool option"

definition buildODataRootRouteNames :: "set_def list \<Rightarrow> string list" where
  "buildODataRootRouteNames defs = concat (map (\<lambda>d.
     (if exposed d \<and> set_name d \<noteq> [] then [set_name d] else [])
     @ (if some_text (singleton_name d) \<noteq> [] then [the (singleton_name d)] else [])
     @ map fst (filter (\<lambda>(n, unbound). unbound \<and> n \<noteq> []) (set_operations d))) defs)"

definition findByName :: "set_def list \<Rightarrow> string \<Rightarrow> set_def option" where
  "findByName defs name = find (\<lambda>d. lower (set_name d) = lower name) defs"

definition find_model :: "set_def list \<Rightarrow> string \<Rightarrow> set_def option" where
  "find_model defs model = find (\<lambda>d. set_model d = model) defs"

section \<open>URLs inside the service\<close>

text \<open>
  \<open>parse_url\<close>: origin and path with query of an absolute URL; \<open>server_origin\<close>, \<open>resolve_url\<close>: the origin of the server and
  the path with query of a path resolved against it; \<open>site_relations\<close>: the relations of a model with their targets.
\<close>

record site =
  service_root :: string
  site_sets :: "set_def list"
  site_namespace :: string
  site_alias :: string
  parse_url :: "string \<Rightarrow> (string \<times> string) option"
  server_origin :: "string option"
  resolve_url :: "string \<Rightarrow> string option"
  site_relations :: "string \<Rightarrow> (string \<times> string option) list"

definition absolute_url :: "string \<Rightarrow> bool" where
  "absolute_url s \<longleftrightarrow> starts_with (lower s) ''http://'' \<or> starts_with (lower s) ''https://''"

definition ensureWithinServiceRoot :: "site \<Rightarrow> string \<Rightarrow> string option" where
  "ensureWithinServiceRoot w url =
     (if \<not> starts_with url ''/'' then None
      else if matchesConfiguredODataPath url (service_root w)
        (if service_root w = ''/'' then buildODataRootRouteNames (site_sets w) else []) then Some url
      else None)"

definition buildServiceRelativePath :: "site \<Rightarrow> string \<Rightarrow> string option" where
  "buildServiceRelativePath w raw =
     (let t = trim raw
      in if t = [] then Some (service_root w)
         else if starts_with t ''//'' then None
         else if starts_with t ''/'' then Some t
         else (let path = (case index_of_char CHR ''?'' t of None \<Rightarrow> t | Some i \<Rightarrow> take i t);
                   query = (case index_of_char CHR ''?'' t of None \<Rightarrow> [] | Some i \<Rightarrow> drop i t);
                   p = dropWhile (\<lambda>c. c = CHR ''/'') path;
                   separator = (if p = [] \<or> service_root w = ''/'' then [] else ''/'')
               in ensureWithinServiceRoot w (service_root w @ separator @ p @ query)))"

definition sanitizeUrl :: "site \<Rightarrow> string \<Rightarrow> bool \<Rightarrow> string option" where
  "sanitizeUrl w raw allowRelative =
     (let t = trim raw
      in if t = [] \<or> starts_with t ''//'' then None
         else if absolute_url t
         then (case parse_url w t of None \<Rightarrow> None | Some (origin, path) \<Rightarrow> ensureWithinServiceRoot w path)
         else if starts_with t ''/'' then ensureWithinServiceRoot w t
         else if allowRelative then buildServiceRelativePath w t
         else None)"

definition resolveRedirectPath :: "site \<Rightarrow> string \<Rightarrow> string option" where
  "resolveRedirectPath w location =
     (let t = trim location
      in if t = [] then None
         else if absolute_url t
         then (case (parse_url w t, server_origin w) of
                 (Some (origin, path), Some base) \<Rightarrow> if origin = base then Some path else None
               | _ \<Rightarrow> None)
         else case sanitizeUrl w t True of None \<Rightarrow> None | Some u \<Rightarrow> resolve_url w u)"

definition normalizeReferencedUrl :: "site \<Rightarrow> string \<Rightarrow> string option" where
  "normalizeReferencedUrl w raw =
     (let t = trim raw
      in if t = [] then None
         else if absolute_url t then map_option snd (parse_url w t)
         else if starts_with t ''/'' then Some t
         else buildServiceRelativePath w t)"

definition segments_of :: "string \<Rightarrow> string list" where
  "segments_of path = filter (\<lambda>s. s \<noteq> []) (split_on CHR ''/'' path)"

definition stripServiceRootSegments :: "site \<Rightarrow> string list \<Rightarrow> string list option" where
  "stripServiceRootSegments w segs =
     (let roots = segments_of (service_root w)
      in if length segs < length roots \<or> map lower (take (length roots) segs) \<noteq> map lower roots then None
         else Some (drop (length roots) segs))"

definition stripServiceRootFromUrl :: "site \<Rightarrow> string \<Rightarrow> string list option" where
  "stripServiceRootFromUrl w raw =
     (case sanitizeUrl w raw True of
        None \<Rightarrow> None
      | Some u \<Rightarrow> stripServiceRootSegments w (segments_of (hd (split_on CHR ''?'' u))))"

section \<open>The entity set of a URL\<close>

definition normalizePathSegment :: "string \<Rightarrow> string option" where
  "normalizePathSegment seg =
     (let t = trim seg; base = (case index_of_char CHR ''('' t of None \<Rightarrow> t | Some i \<Rightarrow> take i t)
      in if base = [] then None else Some (decodeComponent base))"

definition stripNamespacePrefix :: "site \<Rightarrow> string \<Rightarrow> string" where
  "stripNamespacePrefix w name =
     stripNamespace \<lparr>rw_namespace = site_namespace w, rw_alias = site_alias w, operationNames = []\<rparr> name"

definition findRelationMeta :: "(string \<times> string option) list \<Rightarrow> string \<Rightarrow> string option option" where
  "findRelationMeta rels seg =
     (case map_of rels seg of
        Some tgt \<Rightarrow> Some tgt
      | None \<Rightarrow> map_option snd (find (\<lambda>(n, tgt). lower n = lower seg) rels))"

definition resolveNavigationTargetEntitySet :: "site \<Rightarrow> set_def \<Rightarrow> string \<Rightarrow> set_def option" where
  "resolveNavigationTargetEntitySet w cur seg =
     (case findRelationMeta (site_relations w (set_model cur)) seg of
        Some (Some tgt) \<Rightarrow> find_model (site_sets w) tgt
      | _ \<Rightarrow> None)"

text \<open>Navigation along segments, as far as they name relations to entity sets.\<close>

fun navigate :: "site \<Rightarrow> set_def \<Rightarrow> string list \<Rightarrow> set_def" where
  "navigate w cur [] = cur"
| "navigate w cur (seg # segs) =
     (if starts_with seg ''$'' then cur
      else case resolveNavigationTargetEntitySet w cur seg of None \<Rightarrow> cur | Some d \<Rightarrow> navigate w d segs)"

definition resolveEntitySetName :: "site \<Rightarrow> string \<Rightarrow> string option" where
  "resolveEntitySetName w raw =
     (case stripServiceRootFromUrl w raw of
        None \<Rightarrow> None
      | Some stripped \<Rightarrow>
          (case filter (\<lambda>s. s \<noteq> []) (concat (map (\<lambda>s. case normalizePathSegment s of None \<Rightarrow> [] | Some t \<Rightarrow> [t]) stripped)) of
             [] \<Rightarrow> None
           | first # rest \<Rightarrow>
               if starts_with first ''$'' then None
               else (case (case findByName (site_sets w) first of
                       Some d \<Rightarrow> Some d | None \<Rightarrow> findByName (site_sets w) (stripNamespacePrefix w first)) of
                       None \<Rightarrow> None
                     | Some d \<Rightarrow> Some (set_name (navigate w d rest)))))"

text \<open>From the set of a referenced entity; the walk ends at a segment without a name.\<close>

fun navigate_raw :: "site \<Rightarrow> set_def \<Rightarrow> string list \<Rightarrow> set_def" where
  "navigate_raw w cur [] = cur"
| "navigate_raw w cur (raw # raws) =
     (case normalizePathSegment raw of
        None \<Rightarrow> cur
      | Some seg \<Rightarrow>
          if seg = [] \<or> starts_with seg ''$'' then cur
          else case resolveNavigationTargetEntitySet w cur seg of None \<Rightarrow> cur | Some d \<Rightarrow> navigate_raw w d raws)"

definition resolveEntitySetFromBase :: "site \<Rightarrow> string \<Rightarrow> string list \<Rightarrow> string option" where
  "resolveEntitySetFromBase w base trailing =
     map_option (\<lambda>d. set_name (navigate_raw w d trailing)) (findByName (site_sets w) base)"

section \<open>The URL of an entity\<close>

definition serializeKeyValue :: "etag_host \<Rightarrow> js_value \<Rightarrow> type_ref option \<Rightarrow> string result" where
  "serializeKeyValue h v t =
     (if is_nullish v then Inl (HttpError 400 ''content-id-reference-invalid'' ''Missing key value for Content-ID reference.'')
      else if t \<in> {Some (Named ''bigint''), Some (Constructor ''BigInt''), Some (Named ''int64''), Some (Named ''long''), Some (Named ''integer'')}
      then Inr (js_String (js_host.truncate h) v)
      else if t \<in> {Some (Constructor ''Number''), Some (Named ''number'')} \<and> js_to_number (js_host.truncate h) v \<noteq> NotANumber
      then Inr (js_String (js_host.truncate h) (JNum (js_to_number (js_host.truncate h) v)))
      else if t \<in> {Some (Constructor ''Boolean''), Some (Named ''boolean'')} then Inr (if js_truthy v then ''true'' else ''false'')
      else case v of
          JDate None \<Rightarrow> Inl RangeError
        | JDate (Some d) \<Rightarrow> Inr (''datetime'' @ [squote] @ iso_text h d @ [squote])
        | _ \<Rightarrow> Inr ([squote] @ double (js_String (js_host.truncate h) v) @ [squote]))"

definition key_names :: "set_def \<Rightarrow> string list" where
  "key_names d =
     (let keys = (if set_ids d \<noteq> [] then set_ids d else map fst (filter (\<lambda>(n, t, marked). marked) (set_properties d)))
      in if keys = [] then [''id''] else keys)"

definition property_type_of :: "set_def \<Rightarrow> string \<Rightarrow> type_ref option" where
  "property_type_of d k = (case map_of (set_properties d) k of None \<Rightarrow> None | Some (t, marked) \<Rightarrow> t)"

fun key_pairs :: "(string \<times> js_value) list \<Rightarrow> string list \<Rightarrow> (string \<times> js_value) list option" where
  "key_pairs ps [] = Some []"
| "key_pairs ps (k # ks) = (case map_of ps k of None \<Rightarrow> None | Some v \<Rightarrow> map_option ((#) (k, v)) (key_pairs ps ks))"

definition buildKeyLiteral :: "etag_host \<Rightarrow> set_def \<Rightarrow> (string \<times> js_value) list \<Rightarrow> string result" where
  "buildKeyLiteral h d kvs =
     (case kvs of
        [(k, v)] \<Rightarrow> serializeKeyValue h v (property_type_of d k)
      | _ \<Rightarrow> rbind (rmap (\<lambda>(k, v). rbind (serializeKeyValue h v (property_type_of d k)) (\<lambda>t. Inr (k @ ''='' @ t))) kvs) (\<lambda>ts. Inr (join '','' ts)))"

text \<open>Bodies that are arrays have none of the keys.\<close>

definition buildEntityKeyPath :: "etag_host \<Rightarrow> site \<Rightarrow> string \<Rightarrow> js_value \<Rightarrow> string option result" where
  "buildEntityKeyPath h w name response_body =
     (case findByName (site_sets w) name of
        None \<Rightarrow> Inr None
      | Some d \<Rightarrow>
          (case key_pairs (case response_body of JObj ps \<Rightarrow> ps | _ \<Rightarrow> []) (key_names d) of
             None \<Rightarrow> Inr None
           | Some kvs \<Rightarrow> rbind (buildKeyLiteral h d kvs) (\<lambda>literal.
               Inr (Some (service_root w @ (if ends_with (service_root w) ''/'' then [] else ''/'') @ name @ ''('' @ literal @ '')'')))))"

section \<open>What is let in\<close>

text \<open>A URL is only let in when it lies under the base path, or at the root names a route of the service.\<close>

definition inside :: "site \<Rightarrow> string \<Rightarrow> bool" where
  "inside w url \<longleftrightarrow> matchesConfiguredODataPath url (service_root w)
     (if service_root w = ''/'' then buildODataRootRouteNames (site_sets w) else [])"

lemma ensured_inside: "ensureWithinServiceRoot w url = Some u \<Longrightarrow> u = url \<and> starts_with u ''/'' \<and> inside w u"
  by (auto simp: ensureWithinServiceRoot_def inside_def split: if_splits)

lemma sanitized_inside: "sanitizeUrl w raw rel = Some u \<Longrightarrow> starts_with u ''/'' \<and> inside w u"
proof -
  assume s: "sanitizeUrl w raw rel = Some u"
  show "starts_with u ''/'' \<and> inside w u"
  proof (cases "absolute_url (trim raw) \<or> starts_with (trim raw) ''/''")
    case True
    then show ?thesis using s ensured_inside by (auto simp: sanitizeUrl_def Let_def split: if_splits option.splits)
  next
    case False
    then have "buildServiceRelativePath w (trim raw) = Some u" "trim raw \<noteq> []" "\<not> starts_with (trim raw) ''/''"
      using s by (auto simp: sanitizeUrl_def Let_def split: if_splits)
    then show ?thesis using ensured_inside by (auto simp: buildServiceRelativePath_def Let_def starts_with_def split: if_splits)
  qed
qed

lemma inside_prefix: "service_root w \<noteq> ''/'' \<Longrightarrow> inside w u \<Longrightarrow> u = service_root w \<or> (\<exists>c rest. c \<in> set ''/?#'' \<and> u = service_root w @ c # rest)"
  by (auto simp: inside_def matchesConfiguredODataPath_def pathMatches_def starts_with_prefix prefix_def split: if_splits)

end
