(* ===== verification/BatchIds.thy ===== *)
theory BatchIds
  imports BatchUrls
begin

text \<open>
  The requests of a batch and their identifiers (\<open>controllers/batch.controller.ts\<close>): which identifiers are accepted,
  which requests may depend on which, how the groups are laid out, and how references to earlier requests are found and replaced.
\<close>

section \<open>Requests and responses\<close>

text \<open>A body that is absent is \<open>undefined\<close>; \<open>raw_body\<close> is the buffer of a multipart request.\<close>

record sub_request =
  sub_id :: "string option"
  sub_group :: "string option"
  sub_method :: string
  sub_url :: string
  sub_headers :: "(string \<times> string) list option"
  sub_body :: js_value
  raw_body :: "string option"
  depends_on :: "string list option"

datatype entry_content = Plain js_value | Bytes string

record batch_entry =
  entry_id :: "string option"
  entry_group :: "string option"
  entry_status :: int
  entry_headers :: "(string \<times> string) list option"
  entry_body :: entry_content

definition odataError :: "string \<Rightarrow> string \<Rightarrow> entry_content" where
  "odataError code_text message = Plain (JObj [(''error'', JObj [(''code'', JStr code_text), (''message'', JStr message)])])"

definition failed_entry :: "string option \<Rightarrow> int \<Rightarrow> string \<Rightarrow> string \<Rightarrow> batch_entry" where
  "failed_entry i status code_text message =
     \<lparr>entry_id = i, entry_group = None, entry_status = status, entry_headers = None, entry_body = odataError code_text message\<rparr>"

definition refuse_batch :: "string \<Rightarrow> 'a result" where
  "refuse_batch message = Inl (HttpError 400 [] message)"

section \<open>Identifiers\<close>

text \<open>The identifiers of a request as they come: of any type.\<close>

record raw_identifiers =
  raw_id :: js_value
  raw_group :: js_value
  raw_depends :: js_value

definition batch_token_char :: "char \<Rightarrow> bool" where
  "batch_token_char c \<longleftrightarrow> is_alpha c \<or> is_digit c \<or> c \<in> set ''!#$%&*+.^_`|~-'' \<or> c = squote"

definition sanitizeBatchToken :: "js_value \<Rightarrow> string \<Rightarrow> string option result" where
  "sanitizeBatchToken v field =
     (if is_nullish v then Inr None
      else case v of
          JStr s \<Rightarrow>
            if trim s = [] then refuse_batch (''Batch '' @ field @ '' must be a non-empty token.'')
            else if \<not> list_all batch_token_char (trim s)
            then refuse_batch (''Batch '' @ field @ '' contains invalid characters. Only RFC7230 tokens are allowed.'')
            else Inr (Some (trim s))
        | _ \<Rightarrow> refuse_batch (''Batch '' @ field @ '' must be a string token.''))"

text \<open>Entries of \<open>dependsOn\<close> that are null become \<open>undefined\<close>.\<close>

definition sanitize_depends :: "js_value \<Rightarrow> string option list option result" where
  "sanitize_depends v =
     (case v of
        JUndefined \<Rightarrow> Inr None
      | JArr vs \<Rightarrow> rbind (rmap (\<lambda>d. sanitizeBatchToken d ''dependsOn entry'') vs) (\<lambda>ds. Inr (Some ds))
      | _ \<Rightarrow> refuse_batch ''dependsOn must be an array of request identifiers.'')"

type_synonym identifiers = "string option \<times> string option \<times> string option list option"

fun sanitizeBatchRequestIdentifiers :: "raw_identifiers list \<Rightarrow> identifiers list result" where
  "sanitizeBatchRequestIdentifiers [] = Inr []"
| "sanitizeBatchRequestIdentifiers (r # rs) =
     rbind (sanitizeBatchToken (raw_id r) ''request id'') (\<lambda>i.
     rbind (sanitizeBatchToken (raw_group r) ''atomicityGroup'') (\<lambda>g.
     rbind (sanitize_depends (raw_depends r)) (\<lambda>d.
     rbind (sanitizeBatchRequestIdentifiers rs) (\<lambda>rest. Inr ((i, g, d) # rest)))))"

section \<open>Dependencies\<close>

fun dependency_names :: "string option list \<Rightarrow> string list result" where
  "dependency_names [] = Inr []"
| "dependency_names (d # ds) =
     (case d of
        None \<Rightarrow> refuse_batch ''dependsOn entries must be non-empty strings.''
      | Some s \<Rightarrow>
          if trim s = [] then refuse_batch ''dependsOn entries must be non-empty strings.''
          else rbind (dependency_names ds) (\<lambda>rest. Inr (trim s # rest)))"

text \<open>The first pass: no identifier twice, and the names of the dependencies; \<open>seen\<close> are the positions so far.\<close>

fun identifier_pass :: "nat \<Rightarrow> (string \<times> nat) list \<Rightarrow> identifiers list \<Rightarrow> ((string option \<times> string list option) list \<times> (string \<times> nat) list) result" where
  "identifier_pass n seen [] = Inr ([], seen)"
| "identifier_pass n seen ((i, g, d) # rs) =
     (if some_text i \<noteq> [] \<and> map_of seen (the i) \<noteq> None
      then refuse_batch (''Duplicate request id detected in batch payload: '' @ the i)
      else rbind (case d of None \<Rightarrow> Inr None | Some ds \<Rightarrow> rbind (dependency_names ds) (\<lambda>ns. Inr (Some ns))) (\<lambda>deps.
        rbind (identifier_pass (Suc n) (if some_text i = [] then seen else seen @ [(the i, n)]) rs) (\<lambda>(rest, positions).
          Inr ((i, deps) # rest, positions))))"

fun check_dependencies :: "(string \<times> nat) list \<Rightarrow> nat \<Rightarrow> string \<Rightarrow> string list \<Rightarrow> unit result" where
  "check_dependencies positions n i [] = Inr ()"
| "check_dependencies positions n i (d # ds) =
     (case map_of positions d of
        None \<Rightarrow> refuse_batch (''dependsOn references unknown request id: '' @ d @ ''.'')
      | Some m \<Rightarrow>
          if n \<le> m then refuse_batch (''Request '' @ i @ '' depends on '' @ d @ '', which appears later in the payload.'')
          else check_dependencies positions n i ds)"

fun dependency_pass :: "(string \<times> nat) list \<Rightarrow> nat \<Rightarrow> (string option \<times> string list option) list \<Rightarrow> unit result" where
  "dependency_pass positions n [] = Inr ()"
| "dependency_pass positions n ((i, deps) # rs) =
     (case deps of
        Some (d # ds) \<Rightarrow>
          if some_text i = [] then refuse_batch ''Requests that declare dependsOn must also specify an id.''
          else rbind (check_dependencies positions n (the i) (d # ds)) (\<lambda>_. dependency_pass positions (Suc n) rs)
      | _ \<Rightarrow> dependency_pass positions (Suc n) rs)"

definition validateJsonDependsOn :: "identifiers list \<Rightarrow> string list option list result" where
  "validateJsonDependsOn rs =
     rbind (identifier_pass 0 [] rs) (\<lambda>(deps, positions).
       rbind (dependency_pass positions 0 deps) (\<lambda>_. Inr (map snd deps)))"

section \<open>Groups\<close>

definition group_of :: "sub_request \<Rightarrow> string" where
  "group_of r = trim (some_text (sub_group r))"

text \<open>The requests of a group stand together.\<close>

fun contiguous :: "string list \<Rightarrow> string \<Rightarrow> sub_request list \<Rightarrow> unit result" where
  "contiguous seen active [] = Inr ()"
| "contiguous seen active (r # rs) =
     (let g = group_of r
      in if g = [] then contiguous seen [] rs
         else if g \<notin> set seen then contiguous (g # seen) g rs
         else if active \<noteq> g then refuse_batch (''Atomicity group '' @ g @ '' must be contiguous within the batch payload.'')
         else contiguous seen g rs)"

definition validateContiguousAtomicityGroups :: "sub_request list \<Rightarrow> unit result" where
  "validateContiguousAtomicityGroups rs = contiguous [] [] rs"

definition collectAtomicityGroups :: "sub_request list \<Rightarrow> (string \<times> sub_request list) list" where
  "collectAtomicityGroups rs =
     fold (\<lambda>r groups. if group_of r = [] then groups
       else obj_set (group_of r) ((case map_of groups (group_of r) of None \<Rightarrow> [] | Some b \<Rightarrow> b) @ [r]) groups) rs []"

section \<open>References\<close>

type_synonym content_ids = "(string \<times> string) list"

text \<open>A value in quotes, or in escaped quotes: what is inside, and the quotes.\<close>

definition unwrapContentIdWrapper :: "string \<Rightarrow> (string \<times> string) option" where
  "unwrapContentIdWrapper v =
     (if length v < 2 then None
      else if (hd v = dquote \<or> hd v = squote) \<and> last v = hd v
      then (if length v \<le> 2 then None else Some (inside_quotes v, [hd v]))
      else if 4 \<le> length v \<and> hd v = backslash \<and> (v ! 1 = dquote \<or> v ! 1 = squote) \<and> v ! (length v - 2) = backslash \<and> last v = v ! 1
      then (if length v \<le> 4 then None else Some (inside_quotes (inside_quotes v), [backslash, v ! 1]))
      else None)"

text \<open>The token a value consists of, and the quotes around it.\<close>

definition reference_name :: "string \<Rightarrow> string option" where
  "reference_name v =
     (if length v < 2 \<or> hd v \<noteq> CHR ''$'' then None
      else if list_all is_digit (tl v) then Some (tl v)
      else if ident_start (v ! 1) \<and> list_all (\<lambda>c. ident_char c \<or> c = CHR ''.'' \<or> c = CHR ''-'') (tl v) then Some (tl v)
      else if starts_with (lower v) ''$requests('' \<and> last v = CHR '')'' \<and> CHR '')'' \<notin> set (butlast v)
      then (if butlast (drop 10 v) = [] then None else Some (''requests('' @ butlast (drop 10 v) @ '')''))
      else None)"

definition extractContentIdToken :: "string \<Rightarrow> (string \<times> string) option" where
  "extractContentIdToken v =
     (if length v < 2 then None
      else case unwrapContentIdWrapper v of
          None \<Rightarrow> map_option (\<lambda>t. (t, [])) (reference_name v)
        | Some (inner, quotes) \<Rightarrow> map_option (\<lambda>t. (t, quotes)) (reference_name inner))"

definition getContentIdValue :: "content_ids \<Rightarrow> string \<Rightarrow> string option" where
  "getContentIdValue ids key =
     (if key = [] then None
      else case map_of ids key of
          Some v \<Rightarrow> Some v
        | None \<Rightarrow> if lower key \<noteq> key then map_of ids (lower key) else None)"

definition in_either_quotes :: "string \<Rightarrow> bool" where
  "in_either_quotes s \<longleftrightarrow> s \<noteq> [] \<and> (hd s = squote \<and> last s = squote \<or> hd s = dquote \<and> last s = dquote)"

definition expandContentIdToken :: "string \<Rightarrow> string list" where
  "expandContentIdToken token =
     (if starts_with token ''requests('' \<and> ends_with token '')'' \<and> in_either_quotes (butlast (drop 9 token))
      then [token, ''requests('' @ inside_quotes (butlast (drop 9 token)) @ '')''] else [token])"

fun first_resolved :: "content_ids \<Rightarrow> string list \<Rightarrow> string option" where
  "first_resolved ids [] = None"
| "first_resolved ids (c # cs) = (if some_text (getContentIdValue ids c) \<noteq> [] then getContentIdValue ids c else first_resolved ids cs)"

definition resolveContentIdTokenValue :: "string \<Rightarrow> content_ids \<Rightarrow> string option" where
  "resolveContentIdTokenValue token ids =
     (if token = [] then None
      else if \<not> starts_with token ''requests('' then getContentIdValue ids token
      else case first_resolved ids (expandContentIdToken token) of
          Some v \<Rightarrow> Some v
        | None \<Rightarrow>
            (let inner = butlast (drop 9 token)
             in if inner = [] then None
                else if some_text (getContentIdValue ids inner) \<noteq> [] then getContentIdValue ids inner
                else if in_either_quotes inner then getContentIdValue ids (inside_quotes inner)
                else None))"

definition unknown_reference :: "string \<Rightarrow> 'a result" where
  "unknown_reference v = Inl (HttpError 400 ''content-id-reference-invalid'' (''Unknown Content-ID reference '' @ v @ ''.''))"

definition replaceContentIdTokensInString :: "content_ids \<Rightarrow> string \<Rightarrow> string result" where
  "replaceContentIdTokensInString ids v =
     (case extractContentIdToken v of
        None \<Rightarrow> Inr v
      | Some (token, quotes) \<Rightarrow>
          (let resolved = some_text (resolveContentIdTokenValue token ids)
           in if resolved = [] then unknown_reference v else Inr (quotes @ resolved @ quotes)))"

definition detectUnknownContentIdsInString :: "content_ids \<Rightarrow> string \<Rightarrow> unit result" where
  "detectUnknownContentIdsInString ids v =
     (case extractContentIdToken v of
        None \<Rightarrow> Inr ()
      | Some (token, quotes) \<Rightarrow> if some_text (resolveContentIdTokenValue token ids) = [] then unknown_reference v else Inr ())"

definition shouldInspectContentIdValue :: "string \<Rightarrow> bool" where
  "shouldInspectContentIdValue key \<longleftrightarrow> lower key = ''@odata.id'' \<or> ends_with (lower key) ''@odata.bind''"

fun detectUnknownContentIdsInBody :: "content_ids \<Rightarrow> string \<Rightarrow> js_value \<Rightarrow> unit result" where
  "detectUnknownContentIdsInBody ids key (JStr s) =
     (if shouldInspectContentIdValue key then detectUnknownContentIdsInString ids s else Inr ())"
| "detectUnknownContentIdsInBody ids key (JArr vs) =
     rbind (rmap (\<lambda>v. detectUnknownContentIdsInBody ids key v) vs) (\<lambda>_. Inr ())"
| "detectUnknownContentIdsInBody ids key (JObj ps) =
     rbind (rmap (\<lambda>(k, v). detectUnknownContentIdsInBody ids k v) ps) (\<lambda>_. Inr ())"
| "detectUnknownContentIdsInBody ids key v = Inr ()"

fun replaceContentIdTokensInBody :: "content_ids \<Rightarrow> string \<Rightarrow> js_value \<Rightarrow> js_value result" where
  "replaceContentIdTokensInBody ids key (JStr s) =
     (if shouldInspectContentIdValue key then rbind (replaceContentIdTokensInString ids s) (\<lambda>t. Inr (JStr t)) else Inr (JStr s))"
| "replaceContentIdTokensInBody ids key (JArr vs) =
     rbind (rmap (\<lambda>v. replaceContentIdTokensInBody ids key v) vs) (\<lambda>us. Inr (JArr us))"
| "replaceContentIdTokensInBody ids key (JObj ps) =
     rbind (rmap (\<lambda>(k, v). rbind (replaceContentIdTokensInBody ids k v) (\<lambda>u. Inr (k, u))) ps) (\<lambda>us. Inr (JObj us))"
| "replaceContentIdTokensInBody ids key v = Inr v"

definition assertContentIdAvailability :: "content_ids \<Rightarrow> sub_request \<Rightarrow> unit result" where
  "assertContentIdAvailability ids r =
     rbind (detectUnknownContentIdsInString ids (sub_url r)) (\<lambda>_.
     rbind (rmap (\<lambda>(k, v). detectUnknownContentIdsInString ids v) (case sub_headers r of None \<Rightarrow> [] | Some hs \<Rightarrow> hs)) (\<lambda>_.
       detectUnknownContentIdsInBody ids [] (sub_body r)))"

definition applyContentIdReferences :: "content_ids \<Rightarrow> sub_request \<Rightarrow> sub_request result" where
  "applyContentIdReferences ids r =
     rbind (replaceContentIdTokensInString ids (sub_url r)) (\<lambda>url.
     rbind (case sub_headers r of
         None \<Rightarrow> Inr None
       | Some hs \<Rightarrow> rbind (rmap (\<lambda>(k, v). rbind (replaceContentIdTokensInString ids v) (\<lambda>t. Inr (k, t))) hs) (\<lambda>ts. Inr (Some ts))) (\<lambda>headers.
     rbind (replaceContentIdTokensInBody ids [] (sub_body r)) (\<lambda>content.
       Inr (r\<lparr>sub_url := url, sub_headers := headers, sub_body := content\<rparr>))))"

section \<open>What a response adds\<close>

definition registerContentIdAlias :: "string \<Rightarrow> string \<Rightarrow> content_ids \<Rightarrow> content_ids" where
  "registerContentIdAlias key v ids =
     (if key = [] then ids
      else if lower key \<noteq> key then obj_set (lower key) v (obj_set key v ids) else obj_set key v ids)"

fun getHeaderCaseInsensitive :: "(string \<times> string) list option \<Rightarrow> string \<Rightarrow> string option" where
  "getHeaderCaseInsensitive None name = None"
| "getHeaderCaseInsensitive (Some hs) name = map_option snd (find (\<lambda>(k, v). lower k = lower name) hs)"

definition body_field :: "entry_content \<Rightarrow> string \<Rightarrow> js_value" where
  "body_field content k = (case content of Plain v \<Rightarrow> (case v of JObj ps \<Rightarrow> get_prop v k | _ \<Rightarrow> JUndefined) | Bytes s \<Rightarrow> JUndefined)"

definition extractEtagFromResponse :: "batch_entry \<Rightarrow> string option" where
  "extractEtagFromResponse e =
     (if some_text (getHeaderCaseInsensitive (entry_headers e) ''etag'') \<noteq> [] then getHeaderCaseInsensitive (entry_headers e) ''etag''
      else case body_field (entry_body e) ''@odata.etag'' of JStr s \<Rightarrow> (if trim s \<noteq> [] then Some s else None) | _ \<Rightarrow> None)"

definition normalizeContentIdPath :: "string \<Rightarrow> string option" where
  "normalizeContentIdPath v =
     (let t = trim v in if t = [] then None else Some (case index_of_char CHR ''?'' t of None \<Rightarrow> t | Some i \<Rightarrow> take i t))"

definition normalizeContentIdLookupPath :: "site \<Rightarrow> string \<Rightarrow> string option" where
  "normalizeContentIdLookupPath w v =
     (if v = [] then None
      else case sanitizeUrl w v True of Some u \<Rightarrow> normalizeContentIdPath u | None \<Rightarrow> normalizeContentIdPath v)"

definition recordContentIdEtag :: "string \<Rightarrow> batch_entry \<Rightarrow> content_ids \<Rightarrow> content_ids" where
  "recordContentIdEtag tgt e etags =
     (case extractEtagFromResponse e of
        None \<Rightarrow> etags
      | Some etag \<Rightarrow> (case normalizeContentIdPath tgt of None \<Rightarrow> etags | Some path \<Rightarrow> obj_set path etag etags))"

definition hasIfMatchHeader :: "(string \<times> string) list \<Rightarrow> bool" where
  "hasIfMatchHeader hs \<longleftrightarrow> list_ex (\<lambda>(k, v). lower k = ''if-match'') hs"

text \<open>A write to an entity of an earlier response carries its tag, unless it names one.\<close>

definition ensureEtagPreconditions :: "site \<Rightarrow> content_ids \<Rightarrow> sub_request \<Rightarrow> sub_request" where
  "ensureEtagPreconditions w etags r =
     (let hs = (case sub_headers r of None \<Rightarrow> [] | Some hs \<Rightarrow> hs)
      in if upper (sub_method r) \<notin> {''PATCH'', ''PUT'', ''DELETE''} \<or> hasIfMatchHeader hs then r
         else case normalizeContentIdLookupPath w (sub_url r) of
             None \<Rightarrow> r
           | Some path \<Rightarrow>
               (let etag = some_text (map_of etags path)
                in if etag = [] then r else r\<lparr>sub_headers := Some (obj_set ''If-Match'' etag hs)\<rparr>))"

definition header_target :: "(string \<times> string) list option \<Rightarrow> string option" where
  "header_target hs =
     (case getHeaderCaseInsensitive hs ''location'' of
        Some v \<Rightarrow> Some v
      | None \<Rightarrow> (case getHeaderCaseInsensitive hs ''odata-entityid'' of
            Some v \<Rightarrow> Some v | None \<Rightarrow> getHeaderCaseInsensitive hs ''odata-entity-id''))"

definition resolveContentIdTarget :: "etag_host \<Rightarrow> site \<Rightarrow> sub_request \<Rightarrow> batch_entry \<Rightarrow> string option result" where
  "resolveContentIdTarget h w r e =
     (let fromHeaders = some_text (header_target (entry_headers e));
          normalized = (if fromHeaders = [] then None else normalizeReferencedUrl w fromHeaders);
          from_body = (case body_field (entry_body e) ''@odata.id'' of JStr s \<Rightarrow> normalizeReferencedUrl w s | _ \<Rightarrow> None)
      in if some_text normalized \<noteq> [] then Inr normalized
         else case entry_body e of
             Plain (JObj ps) \<Rightarrow>
               if some_text from_body \<noteq> [] then Inr from_body
               else (case resolveEntitySetName w (sub_url r) of
                   None \<Rightarrow> Inr None
                 | Some name \<Rightarrow> if name = [] then Inr None else buildEntityKeyPath h w name (JObj ps))
           | _ \<Rightarrow> Inr None)"

text \<open>\<open>ordinal\<close> is the position of the request in the batch.\<close>

definition recordContentIdResult ::
  "etag_host \<Rightarrow> site \<Rightarrow> sub_request \<Rightarrow> sub_request \<Rightarrow> batch_entry \<Rightarrow> nat option \<Rightarrow> content_ids \<times> content_ids \<Rightarrow> (content_ids \<times> content_ids) result" where
  "recordContentIdResult h w original prepared e ordinal maps =
     (if some_text (sub_id original) = [] \<or> entry_status e < 200 \<or> 400 \<le> entry_status e then Inr maps
      else rbind (resolveContentIdTarget h w prepared e) (\<lambda>found.
        if some_text found = [] then Inr maps
        else (let i = the (sub_id original); v = the found;
                  ids = registerContentIdAlias i v (fst maps);
                  ids1 = (case ordinal of None \<Rightarrow> ids | Some n \<Rightarrow> registerContentIdAlias (''requests('' @ show_nat (Suc n) @ '')'') v ids);
                  ids2 = registerContentIdAlias (''requests('' @ i @ '')'') v ids1;
                  ids3 = registerContentIdAlias (''requests('' @ [squote] @ i @ [squote] @ '')'') v ids2;
                  ids4 = registerContentIdAlias (''requests('' @ [dquote] @ i @ [dquote] @ '')'') v ids3
              in Inr (ids4, recordContentIdEtag v e (snd maps)))))"

section \<open>Accepted batches\<close>

text \<open>What an accepted list of identifiers is like: no identifier twice, and dependencies only on earlier requests.\<close>

definition well_ordered :: "(string option \<times> string list option) list \<Rightarrow> bool" where
  "well_ordered rs \<longleftrightarrow>
     (\<forall>i<length rs. \<forall>j<length rs. i < j \<and> some_text (fst (rs ! i)) \<noteq> [] \<longrightarrow> fst (rs ! i) \<noteq> fst (rs ! j))
     \<and> (\<forall>j<length rs. \<forall>ds. snd (rs ! j) = Some ds \<longrightarrow> (\<forall>d\<in>set ds. \<exists>i<j. fst (rs ! i) = Some d))"

lemma dependencies_checked:
  "check_dependencies positions n i ds = Inr () \<Longrightarrow> d \<in> set ds \<Longrightarrow> \<exists>m<n. map_of positions d = Some m"
  by (induction positions n i ds rule: check_dependencies.induct)
    (auto split: option.splits if_splits simp: refuse_batch_def)

lemma dependency_step:
  "dependency_pass positions n ((i, deps) # rs) = Inr () \<Longrightarrow>
     dependency_pass positions (Suc n) rs = Inr () \<and> (\<forall>ds. deps = Some ds \<longrightarrow> (\<forall>d\<in>set ds. \<exists>m<n. map_of positions d = Some m))"
  using dependencies_checked by (auto simp: refuse_batch_def split: option.splits list.splits if_splits; fastforce)

lemma dependencies_passed:
  "dependency_pass positions n xs = Inr () \<Longrightarrow> j < length xs \<Longrightarrow> snd (xs ! j) = Some ds \<Longrightarrow> d \<in> set ds \<Longrightarrow>
     \<exists>m<n + j. map_of positions d = Some m"
proof (induction xs arbitrary: n j)
  case (Cons x xs)
  obtain i deps where x: "x = (i, deps)" by (cases x)
  note step = dependency_step [OF Cons.prems(1) [unfolded x]]
  show ?case
  proof (cases j)
    case 0
    with step Cons.prems x show ?thesis by auto
  next
    case (Suc k)
    with Cons.IH [of "Suc n" k] step Cons.prems show ?thesis by auto
  qed
qed simp

text \<open>The first pass keeps the identifiers and records a position for the text of each.\<close>

lemma identifiers_passed:
  "identifier_pass n seen rs = Inr (out, positions) \<Longrightarrow>
     map fst out = map fst rs
     \<and> (\<forall>d m. map_of positions d = Some m \<longrightarrow> map_of seen d = Some m \<or> n \<le> m \<and> m < n + length out \<and> fst (out ! (m - n)) = Some d)
     \<and> (\<forall>j<length out. some_text (fst (out ! j)) \<noteq> [] \<longrightarrow>
          map_of seen (the (fst (out ! j))) = None \<and> (\<forall>i<j. fst (out ! i) \<noteq> fst (out ! j)))"
proof (induction rs arbitrary: n seen out)
  case (Cons r rs)
  obtain i g d where r: "r = (i, g, d)" by (cases r)
  let ?seen = "if some_text i = [] then seen else seen @ [(the i, n)]"
  from Cons.prems obtain deps rest where fresh: "some_text i = [] \<or> map_of seen (the i) = None"
    and rest: "identifier_pass (Suc n) ?seen rs = Inr (rest, positions)" and out: "out = (i, deps) # rest"
    by (auto simp: r refuse_batch_def split: if_splits)
  note IH = Cons.IH [OF rest]
  have i: "some_text i \<noteq> [] \<Longrightarrow> i = Some (the i)" by (cases i) (simp_all add: some_text_def)
  have names: "map fst out = map fst (r # rs)" using IH by (simp add: out r)
  have places: "map_of seen d = Some m \<or> n \<le> m \<and> m < n + length out \<and> fst (out ! (m - n)) = Some d"
    if "map_of positions d = Some m" for d m
  proof -
    from IH that have "map_of ?seen d = Some m \<or> Suc n \<le> m \<and> m < Suc n + length rest \<and> fst (rest ! (m - Suc n)) = Some d" by blast
    then show ?thesis
    proof
      assume "map_of ?seen d = Some m"
      then show ?thesis using i by (auto simp: out map_add_Some_iff split: if_splits)
    next
      assume a: "Suc n \<le> m \<and> m < Suc n + length rest \<and> fst (rest ! (m - Suc n)) = Some d"
      then have "Suc n \<le> m" by blast
      then have "m - n = Suc (m - Suc n)" by arith
      with a show ?thesis by (simp add: out)
    qed
  qed
  have distinct: "map_of seen (the (fst (out ! j))) = None \<and> (\<forall>k<j. fst (out ! k) \<noteq> fst (out ! j))"
    if j: "j < length out" "some_text (fst (out ! j)) \<noteq> []" for j
  proof (cases j)
    case 0
    with fresh j out show ?thesis by auto
  next
    case (Suc k)
    with j out have k: "k < length rest" "some_text (fst (rest ! k)) \<noteq> []" by simp_all
    with IH have old: "map_of ?seen (the (fst (rest ! k))) = None" "\<forall>l<k. fst (rest ! l) \<noteq> fst (rest ! k)" by blast+
    have "i \<noteq> fst (rest ! k)" using old(1) k(2) by (auto simp: map_add_None split: if_splits)
    moreover have "map_of seen (the (fst (rest ! k))) = None" using old(1) by (auto simp: map_add_None split: if_splits)
    ultimately show ?thesis using old(2) Suc by (auto simp: out less_Suc_eq_0_disj)
  qed
  show ?case using names places distinct by blast
qed auto

lemma accepted_well_ordered:
  assumes "validateJsonDependsOn rs = Inr deps"
  shows "well_ordered (zip (map fst rs) deps)"
proof -
  from assms obtain out positions where
    first: "identifier_pass 0 [] rs = Inr (out, positions)" and second: "dependency_pass positions 0 out = Inr ()" and deps: "deps = map snd out"
    by (auto simp: validateJsonDependsOn_def)
  note names = identifiers_passed [OF first]
  have out: "zip (map fst rs) deps = out" using names deps by (metis zip_map_fst_snd)
  have "\<exists>i<j. fst (out ! i) = Some d" if "j < length out" "snd (out ! j) = Some ds" "d \<in> set ds" for j ds d
    using dependencies_passed [OF second that] names by force
  with names show ?thesis unfolding out well_ordered_def by (metis (no_types, lifting))
qed

end
