(* ===== verification/Json.thy ===== *)
theory Json
  imports Etag
begin

text \<open>
  \<open>JSON.stringify\<close> of the language, for the values of the model: the texts that grouping, buckets and signed
  tokens compare. The texts of two lists of scalar values are the same just when the values are, up to what
  JSON cannot tell apart.
\<close>

section \<open>Texts\<close>

definition hex_digit :: "nat \<Rightarrow> char" where
  "hex_digit n = char_of (if n < 10 then n + 48 else n + 87)"

definition short_escape :: "char \<Rightarrow> char option" where
  "short_escape c =
     (if c = dquote \<or> c = backslash then Some c
      else if code c = 8 then Some CHR ''b''
      else if code c = 9 then Some CHR ''t''
      else if code c = 10 then Some CHR ''n''
      else if code c = 12 then Some CHR ''f''
      else if code c = 13 then Some CHR ''r''
      else None)"

definition json_escape :: "char \<Rightarrow> string" where
  "json_escape c =
     (case short_escape c of
        Some e \<Rightarrow> [backslash, e]
      | None \<Rightarrow>
          if code c < 32 then [backslash, CHR ''u'', CHR ''0'', CHR ''0'', hex_digit (code c div 16), hex_digit (code c mod 16)]
          else [c])"

definition json_string :: "string \<Rightarrow> string" where
  "json_string s = [dquote] @ concat (map json_escape s) @ [dquote]"

text \<open>Nothing for \<open>undefined\<close>; an array writes \<open>null\<close> for it and an object leaves the property out.\<close>

fun json_stringify :: "etag_host \<Rightarrow> js_value \<Rightarrow> string option" where
  "json_stringify h JUndefined = None"
| "json_stringify h JNull = Some ''null''"
| "json_stringify h (JBool b) = Some (if b then ''true'' else ''false'')"
| "json_stringify h (JNum n) = Some (case n of Finite x \<Rightarrow> number_text h x | _ \<Rightarrow> ''null'')"
| "json_stringify h (JStr s) = Some (json_string s)"
| "json_stringify h (JDate d) = Some (case d of None \<Rightarrow> ''null'' | Some t \<Rightarrow> json_string (iso_text h t))"
| "json_stringify h (JArr vs) =
     Some (''['' @ join '','' (map (\<lambda>v. case json_stringify h v of None \<Rightarrow> ''null'' | Some t \<Rightarrow> t) vs) @ '']'')"
| "json_stringify h (JObj ps) =
     Some (''{'' @ join '','' (concat (map (\<lambda>(k, v). case json_stringify h v of None \<Rightarrow> [] | Some t \<Rightarrow> [json_string k @ '':'' @ t]) ps)) @ ''}'')"

section \<open>Texts of scalars\<close>

definition item_text :: "etag_host \<Rightarrow> js_value \<Rightarrow> string" where
  "item_text h v = (case json_stringify h v of None \<Rightarrow> ''null'' | Some t \<Rightarrow> t)"

fun scalar :: "js_value \<Rightarrow> bool" where
  "scalar (JArr vs) = False"
| "scalar (JObj ps) = False"
| "scalar v = True"

text \<open>What of a scalar its text keeps.\<close>

fun json_normal :: "etag_host \<Rightarrow> js_value \<Rightarrow> js_value" where
  "json_normal h JUndefined = JNull"
| "json_normal h (JNum n) = (case n of Finite x \<Rightarrow> JNum n | _ \<Rightarrow> JNull)"
| "json_normal h (JDate d) = (case d of None \<Rightarrow> JNull | Some t \<Rightarrow> JStr (iso_text h t))"
| "json_normal h v = v"

text \<open>Numbers are written with digits and a few signs, different numbers differently.\<close>

definition number_char :: "char \<Rightarrow> bool" where
  "number_char c \<longleftrightarrow> is_digit c \<or> c \<in> set ''+-.e''"

definition numbers_ok :: "etag_host \<Rightarrow> bool" where
  "numbers_ok h \<longleftrightarrow> inj (number_text h) \<and> (\<forall>x. number_text h x \<noteq> [] \<and> list_all number_char (number_text h x))"

definition delimiter :: "char \<Rightarrow> bool" where
  "delimiter c \<longleftrightarrow> c = CHR '','' \<or> c = CHR '']''"

lemma hex_digit_inject: "m < 16 \<Longrightarrow> n < 16 \<Longrightarrow> hex_digit m = hex_digit n \<Longrightarrow> m = n"
  using code_char_of [of "if m < 10 then m + 48 else m + 87"] code_char_of [of "if n < 10 then n + 48 else n + 87"]
  by (auto simp: hex_digit_def split: if_splits)

lemma short_escape_inject: "short_escape c = Some e \<Longrightarrow> short_escape d = Some e \<Longrightarrow> c = d"
  by (auto simp: short_escape_def dquote_def backslash_def code_inject [symmetric, of c d] split: if_splits)

lemma short_escape_not_u: "short_escape c \<noteq> Some CHR ''u''"
  by (auto simp: short_escape_def dquote_def backslash_def)

lemma plain_not_backslash: "short_escape c = None \<Longrightarrow> c \<noteq> backslash \<and> c \<noteq> dquote"
  by (auto simp: short_escape_def)

lemma escape_facts: "json_escape c \<noteq> []" "hd (json_escape c) \<noteq> dquote"
  using plain_not_backslash [of c] by (auto simp: json_escape_def split: option.split)

lemma escape_inject: "json_escape c @ s = json_escape d @ t \<Longrightarrow> c = d \<and> s = t"
proof (cases "short_escape c"; cases "short_escape d")
  assume n: "short_escape c = None" "short_escape d = None" and e: "json_escape c @ s = json_escape d @ t"
  show "c = d \<and> s = t"
  proof (cases "code c < 32 \<and> code d < 32")
    case True
    with n e have h: "hex_digit (code c div 16) = hex_digit (code d div 16)" "hex_digit (code c mod 16) = hex_digit (code d mod 16)" "s = t"
      by (simp_all add: json_escape_def)
    have "code c div 16 < 16" "code d div 16 < 16" using True by linarith+
    then have "code c div 16 = code d div 16" "code c mod 16 = code d mod 16"
      using hex_digit_inject [OF _ _ h(1)] hex_digit_inject [OF _ _ h(2)] True by simp_all
    then have "code c = code d" by (metis div_mult_mod_eq)
    with h(3) show ?thesis by (simp add: code_inject)
  qed (use n e plain_not_backslash in \<open>auto simp: json_escape_def split: if_splits\<close>)
qed (use short_escape_not_u [of c] short_escape_not_u [of d] plain_not_backslash [of c] plain_not_backslash [of d] short_escape_inject [of c _ d]
      in \<open>auto simp: json_escape_def split: if_splits\<close>)

lemma json_string_inject: "json_string s @ u = json_string t @ v \<Longrightarrow> s = t \<and> u = v"
proof -
  have "concat (map json_escape s) @ dquote # u = concat (map json_escape t) @ dquote # v \<Longrightarrow> s = t \<and> u = v" for u v
  proof (induction s arbitrary: t)
    case Nil
    show ?case
    proof (cases t)
      case (Cons d ds)
      with Nil show ?thesis using escape_facts [of d] by (cases "json_escape d") auto
    qed (use Nil in auto)
  next
    case (Cons c cs)
    show ?case
    proof (cases t)
      case Nil
      with Cons.prems show ?thesis using escape_facts [of c] by (cases "json_escape c") auto
    next
      case (Cons d ds)
      with Cons.prems have "c = d" "concat (map json_escape cs) @ dquote # u = concat (map json_escape ds) @ dquote # v"
        using escape_inject [of c _ d] by auto
      with Cons.IH Cons show ?thesis by simp
    qed
  qed
  then show "json_string s @ u = json_string t @ v \<Longrightarrow> s = t \<and> u = v" by (simp add: json_string_def)
qed

lemma number_text_facts:
  assumes "numbers_ok h"
  shows "number_text h x \<noteq> []" "list_all number_char (number_text h x)" "number_text h x = number_text h y \<longleftrightarrow> x = y"
    "hd (number_text h x) \<noteq> dquote" "number_text h x \<notin> {''null'', ''true'', ''false''}"
proof -
  show f: "number_text h x \<noteq> []" "list_all number_char (number_text h x)" using assms by (auto simp: numbers_ok_def)
  show "number_text h x = number_text h y \<longleftrightarrow> x = y" using assms by (auto simp: numbers_ok_def inj_eq)
  have "number_char (hd (number_text h x))" using f by (cases "number_text h x") auto
  then show "hd (number_text h x) \<noteq> dquote" "number_text h x \<notin> {''null'', ''true'', ''false''}"
    by (auto simp: number_char_def dquote_def is_digit_def code_def)
qed

text \<open>The text of a scalar is a string or has neither quotes nor delimiters.\<close>

definition bare :: "string \<Rightarrow> bool" where
  "bare t \<longleftrightarrow> t \<noteq> [] \<and> dquote \<notin> set t \<and> (\<forall>c\<in>set t. \<not> delimiter c)"

definition plain_text :: "etag_host \<Rightarrow> js_value \<Rightarrow> string" where
  "plain_text h v =
     (case v of JBool b \<Rightarrow> (if b then ''true'' else ''false'') | JNum (Finite x) \<Rightarrow> number_text h x | _ \<Rightarrow> ''null'')"

lemma item_text_cases:
  assumes "scalar v"
  shows "(\<exists>s. json_normal h v = JStr s \<and> item_text h v = json_string s)
    \<or> ((\<forall>s. json_normal h v \<noteq> JStr s) \<and> item_text h v = plain_text h (json_normal h v))"
  using assms by (cases v) (auto simp: item_text_def plain_text_def split: option.splits js_number.splits)

lemma plain_text_bare: "numbers_ok h \<Longrightarrow> bare (plain_text h v)"
proof -
  assume ok: "numbers_ok h"
  have "number_char c \<Longrightarrow> c \<noteq> dquote \<and> \<not> delimiter c" for c
    by (auto simp: number_char_def delimiter_def dquote_def is_digit_def code_def)
  then have "bare (number_text h x)" for x
    using number_text_facts(1,2) [OF ok, of x] by (auto simp: bare_def list_all_iff)
  moreover have "bare ''null''" "bare ''true''" "bare ''false''" by (simp_all add: bare_def delimiter_def dquote_def)
  ultimately show ?thesis by (auto simp: plain_text_def split: js_value.split js_number.split)
qed

lemma plain_text_inject:
  assumes "numbers_ok h" "plain_text h (json_normal h v) = plain_text h (json_normal h w)" "scalar v" "scalar w"
    and "\<forall>s. json_normal h v \<noteq> JStr s" "\<forall>s. json_normal h w \<noteq> JStr s"
  shows "json_normal h v = json_normal h w"
  using assms(2-) number_text_facts(3,5) [OF assms(1)]
  by (cases v; cases w) (auto simp: plain_text_def split: option.splits js_number.splits if_splits)

lemma bare_prefix:
  assumes "bare s" "bare t" "delimiter c" "delimiter d" "s @ c # u = t @ d # v"
  shows "s = t \<and> u = v \<and> c = d"
proof -
  have t: "takeWhile (\<lambda>c. \<not> delimiter c) (s @ c # u) = s" if "bare s" "delimiter c" for s c u
    using that by (auto simp: bare_def takeWhile_append)
  from t [OF assms(1,3), of u] t [OF assms(2,4), of v] assms(5) have "s = t" by simp
  with assms(5) show ?thesis by simp
qed

lemma item_text_prefix:
  assumes "numbers_ok h" "scalar v" "scalar w" "delimiter c" "delimiter d" "item_text h v @ c # s = item_text h w @ d # t"
  shows "json_normal h v = json_normal h w \<and> c = d \<and> s = t"
proof -
  have str: "json_string x @ y = plain_text h z @ y' \<Longrightarrow> False" for x y z y'
    using plain_text_bare [OF assms(1), of z] by (cases "plain_text h z") (auto simp: bare_def json_string_def)
  from item_text_cases [OF assms(2), of h] item_text_cases [OF assms(3), of h] show ?thesis
  proof (elim disjE exE conjE)
    fix x y
    assume "json_normal h v = JStr x" "item_text h v = json_string x" "json_normal h w = JStr y" "item_text h w = json_string y"
    then show ?thesis using assms(6) json_string_inject [of x "c # s" y "d # t"] by simp
  next
    assume "\<forall>s. json_normal h v \<noteq> JStr s" "item_text h v = plain_text h (json_normal h v)"
      "\<forall>s. json_normal h w \<noteq> JStr s" "item_text h w = plain_text h (json_normal h w)"
    then show ?thesis
      using assms bare_prefix [OF plain_text_bare plain_text_bare, of h h c d "json_normal h v" s "json_normal h w" t]
        plain_text_inject [of h v w] by simp
  qed (use assms(6) str in \<open>metis+\<close>)
qed

text \<open>Two arrays of scalars of the same length have the same text just when their values are told apart by nothing.\<close>

lemma items_inject:
  assumes "numbers_ok h"
  shows "length vs = length ws \<Longrightarrow> list_all scalar vs \<Longrightarrow> list_all scalar ws \<Longrightarrow>
    join '','' (map (item_text h) vs) @ '']'' = join '','' (map (item_text h) ws) @ '']'' \<Longrightarrow>
    map (json_normal h) vs = map (json_normal h) ws"
proof (induction vs ws rule: list_induct2)
  case (Cons v vs w ws)
  have d: "delimiter CHR '',''" "delimiter CHR '']''" by (simp_all add: delimiter_def)
  show ?case
  proof (cases vs)
    case Nil
    then show ?thesis using Cons item_text_prefix [OF assms _ _ d(2) d(2), of v w "[]" "[]"] by simp
  next
    case (Cons v' vs')
    then obtain w' ws' where ws: "ws = w' # ws'" using Cons.hyps by (cases ws) auto
    let ?r = "\<lambda>xs. join '','' (map (item_text h) xs) @ '']''"
    have "item_text h v @ CHR '','' # ?r vs = item_text h w @ CHR '','' # ?r ws"
      using Cons.prems(3) Cons ws by simp
    then have "json_normal h v = json_normal h w \<and> ?r vs = ?r ws"
      using item_text_prefix [OF assms _ _ d(1) d(1), of v w "?r vs" "?r ws"] Cons.prems by simp
    then show ?thesis using Cons.IH Cons.prems by simp
  qed
qed simp

lemma array_text: "json_stringify h (JArr vs) = Some (''['' @ join '','' (map (item_text h) vs) @ '']'')"
  by (simp add: item_text_def [abs_def])

lemma item_text_normal: "scalar v \<Longrightarrow> scalar w \<Longrightarrow> json_normal h v = json_normal h w \<Longrightarrow> item_text h v = item_text h w"
  using item_text_cases [of v h] item_text_cases [of w h] by auto

lemma array_text_iff:
  assumes "numbers_ok h" "length vs = length ws" "list_all scalar vs" "list_all scalar ws"
  shows "json_stringify h (JArr vs) = json_stringify h (JArr ws) \<longleftrightarrow> map (json_normal h) vs = map (json_normal h) ws"
proof
  assume "json_stringify h (JArr vs) = json_stringify h (JArr ws)"
  then show "map (json_normal h) vs = map (json_normal h) ws"
    using items_inject [OF assms(1-4)] by (simp add: array_text del: json_stringify.simps)
next
  assume n: "map (json_normal h) vs = map (json_normal h) ws"
  have "map (item_text h) vs = map (item_text h) ws"
    using assms(2-4) n by (induction vs ws rule: list_induct2) (auto intro: item_text_normal)
  then show "json_stringify h (JArr vs) = json_stringify h (JArr ws)" by (simp only: array_text)
qed

end
