(* ===== verification/BatchText.thy ===== *)
theory BatchText
  imports BatchIds Json
begin

text \<open>
  The responses of a batch as text and their sizes: \<open>services/multipart-batch.serializer.ts\<close>, and in
  \<open>controllers/batch.controller.ts\<close> the JSON responses and the running estimate of the size of the whole answer. The lemmas show
  that the estimate is the size of the text, as long as the entries that are counted are those that are sent.
\<close>

section \<open>Hosts\<close>

text \<open>The phrase of a status, and base64.\<close>

record text_host = etag_host +
  reason_phrase :: "int \<Rightarrow> string"
  base64 :: "string \<Rightarrow> string"

definition plain_host :: "text_host \<Rightarrow> etag_host" where
  "plain_host w = etag_host.truncate w"

definition json_text_of :: "text_host \<Rightarrow> js_value \<Rightarrow> string" where
  "json_text_of w v = some_text (json_stringify (plain_host w) v)"

definition status_text :: "text_host \<Rightarrow> int \<Rightarrow> string" where
  "status_text w n = number_text w (of_int n)"

section \<open>HTTP responses\<close>

definition header_list :: "(string \<times> string) list option \<Rightarrow> (string \<times> string) list" where
  "header_list hs = (case hs of None \<Rightarrow> [] | Some l \<Rightarrow> l)"

definition normaliseHeaders :: "(string \<times> string) list \<Rightarrow> (string \<times> string) list" where
  "normaliseHeaders hs = fold (\<lambda>(k, v). obj_set (lower k) v) hs []"

definition capitalize :: "string \<Rightarrow> string" where
  "capitalize part = (case part of [] \<Rightarrow> [] | c # cs \<Rightarrow> upper_char c # lower cs)"

definition formatHeaderName :: "string \<Rightarrow> string" where
  "formatHeaderName name = join ''-'' (map capitalize (split_on CHR ''-'' name))"

definition header_missing :: "string \<Rightarrow> (string \<times> string) list \<Rightarrow> bool" where
  "header_missing k hs \<longleftrightarrow> some_text (map_of hs k) = []"

text \<open>The body as bytes, and the headers with the type of a body that becomes JSON.\<close>

definition serializeEntryBody :: "text_host \<Rightarrow> entry_content \<Rightarrow> (string \<times> string) list \<Rightarrow> string \<times> (string \<times> string) list" where
  "serializeEntryBody w content hs =
     (case content of
        Bytes s \<Rightarrow> (s, hs)
      | Plain v \<Rightarrow>
          if is_nullish v then ([], hs)
          else case v of
              JStr s \<Rightarrow> (s, hs)
            | _ \<Rightarrow> (json_text_of w v,
                if header_missing ''content-type'' hs then obj_set ''content-type'' ''application/json; charset=utf-8'' hs else hs))"

definition response_head :: "text_host \<Rightarrow> int \<Rightarrow> (string \<times> string) list \<Rightarrow> string" where
  "response_head w status hs =
     ''HTTP/1.1 '' @ status_text w status @ '' '' @ reason_phrase w status
     @ (if hs = [] then [] else [CHR 13, CHR 10] @ join [CHR 13, CHR 10] (map (\<lambda>(k, v). formatHeaderName k @ '': '' @ v) hs))
     @ [CHR 13, CHR 10, CHR 13, CHR 10]"

definition renderHttpResponse :: "text_host \<Rightarrow> batch_entry \<Rightarrow> string" where
  "renderHttpResponse w e =
     (let (content, hs) = serializeEntryBody w (entry_body e) (normaliseHeaders (header_list (entry_headers e)));
          hs' = (if content \<noteq> [] \<and> header_missing ''content-length'' hs then obj_set ''content-length'' (show_nat (length content)) hs else hs)
      in response_head w (entry_status e) hs' @ content)"

definition line_break :: string where
  "line_break = [CHR 13, CHR 10]"

definition buildPartHeaders :: "batch_entry \<Rightarrow> string" where
  "buildPartHeaders e = join line_break ((if some_text (entry_id e) = [] then [] else [''Content-ID: '' @ the (entry_id e)])
     @ [''Content-Type: application/http'', ''Content-Transfer-Encoding: binary''])"

definition render_part :: "text_host \<Rightarrow> string \<Rightarrow> batch_entry \<Rightarrow> string" where
  "render_part w boundary e = ''--'' @ boundary @ line_break @ buildPartHeaders e @ line_break @ line_break @ renderHttpResponse w e @ line_break"

datatype response_group = Single batch_entry | Changeset string "batch_entry list"

text \<open>Neighbouring entries of one group make one changeset.\<close>

definition add_response :: "batch_entry \<Rightarrow> response_group list \<Rightarrow> response_group list" where
  "add_response e groups =
     (if some_text (entry_group e) = [] then groups @ [Single e]
      else case (if groups = [] then None else Some (last groups)) of
          Some (Changeset g es) \<Rightarrow>
            if g = the (entry_group e) then butlast groups @ [Changeset g (es @ [e])] else groups @ [Changeset (the (entry_group e)) [e]]
        | _ \<Rightarrow> groups @ [Changeset (the (entry_group e)) [e]])"

definition groupResponses :: "batch_entry list \<Rightarrow> response_group list" where
  "groupResponses es = fold add_response es []"

definition renderChangesetPart :: "text_host \<Rightarrow> string \<Rightarrow> string \<Rightarrow> batch_entry list \<Rightarrow> string" where
  "renderChangesetPart w boundary inner es =
     ''--'' @ boundary @ line_break @ ''Content-Type: multipart/mixed; boundary='' @ inner @ line_break @ line_break
     @ concat (map (render_part w inner) es) @ ''--'' @ inner @ ''--'' @ line_break"

fun render_group :: "text_host \<Rightarrow> string \<Rightarrow> (string \<Rightarrow> string) \<Rightarrow> response_group \<Rightarrow> string" where
  "render_group w boundary inner (Single e) = render_part w boundary e"
| "render_group w boundary inner (Changeset g es) = renderChangesetPart w boundary (inner g) es"

text \<open>The boundaries are made with random numbers: they are arguments.\<close>

definition serializeMultipartBatch :: "text_host \<Rightarrow> string \<Rightarrow> (string \<Rightarrow> string) \<Rightarrow> batch_entry list \<Rightarrow> string" where
  "serializeMultipartBatch w boundary inner es =
     concat (map (render_group w boundary inner) (groupResponses es)) @ ''--'' @ boundary @ ''--'' @ line_break"

section \<open>JSON responses\<close>

definition stale_headers :: "string list" where
  "stale_headers = [''content-length'', ''content-transfer-encoding'', ''content-encoding'', ''transfer-encoding'', ''te'', ''trailer'',
     ''connection'', ''keep-alive'', ''upgrade'', ''proxy-connection'']"

definition sanitizeHeadersForJsonBatchBody :: "(string \<times> string) list \<Rightarrow> (string \<times> string) list" where
  "sanitizeHeadersForJsonBatchBody hs = filter (\<lambda>(k, v). lower k \<notin> set stale_headers) hs"

definition normalize_json_entry :: "text_host \<Rightarrow> batch_entry \<Rightarrow> batch_entry" where
  "normalize_json_entry w e =
     (case entry_body e of
        Plain v \<Rightarrow> e
      | Bytes s \<Rightarrow>
          (let hs = sanitizeHeadersForJsonBatchBody (header_list (entry_headers e));
               kind = (case getHeaderCaseInsensitive (Some hs) ''content-type'' of None \<Rightarrow> ''application/octet-stream'' | Some t \<Rightarrow> t);
               rest = filter (\<lambda>(k, v). lower k \<noteq> ''content-type'') hs
           in e\<lparr>entry_headers := Some (obj_set ''Content-Transfer-Encoding'' ''base64'' (obj_set ''Content-Type'' kind rest)),
                entry_body := Plain (JStr (base64 w s))\<rparr>))"

definition normalizeJsonBatchResponses :: "text_host \<Rightarrow> batch_entry list \<Rightarrow> batch_entry list" where
  "normalizeJsonBatchResponses w es = map (normalize_json_entry w) es"

definition entry_value :: "batch_entry \<Rightarrow> js_value" where
  "entry_value e = JObj [
     (''id'', case entry_id e of None \<Rightarrow> JUndefined | Some i \<Rightarrow> JStr i),
     (''atomicityGroup'', case entry_group e of None \<Rightarrow> JUndefined | Some g \<Rightarrow> JStr g),
     (''status'', JNum (Finite (of_int (entry_status e)))),
     (''headers'', case entry_headers e of None \<Rightarrow> JUndefined | Some hs \<Rightarrow> JObj (map (\<lambda>(k, v). (k, JStr v)) hs)),
     (''body'', case entry_body e of Plain v \<Rightarrow> v | Bytes s \<Rightarrow> JUndefined)]"

definition json_payload :: "text_host \<Rightarrow> batch_entry list \<Rightarrow> string" where
  "json_payload w es = json_text_of w (JObj [(''responses'', JArr (map entry_value (normalizeJsonBatchResponses w es)))])"

section \<open>The estimate\<close>

definition ESTIMATED_BATCH_BOUNDARY :: string where
  "ESTIMATED_BATCH_BOUNDARY = ''batch_boundary''"

definition ESTIMATED_CHANGESET_BOUNDARY :: string where
  "ESTIMATED_CHANGESET_BOUNDARY = ''changeset_boundary''"

text \<open>A limit that is zero or less is none.\<close>

record size_tracker =
  size_limit :: int
  isMultipart :: bool
  bufferedBytes :: nat
  serializedBytes :: nat
  responsesCount :: nat
  activeChangesetId :: string

definition createResponseSizeTracker :: "bool \<Rightarrow> int \<Rightarrow> size_tracker" where
  "createResponseSizeTracker multipart limit =
     \<lparr>size_limit = limit, isMultipart = multipart, bufferedBytes = 0, serializedBytes = 0, responsesCount = 0, activeChangesetId = []\<rparr>"

definition estimateBufferedResponseBytes :: "text_host \<Rightarrow> batch_entry \<Rightarrow> nat" where
  "estimateBufferedResponseBytes w e =
     (case entry_body e of
        Bytes s \<Rightarrow> length s
      | Plain v \<Rightarrow> if is_nullish v then 0 else case v of JStr s \<Rightarrow> length s | _ \<Rightarrow> length (json_text_of w v))"

definition estimateJsonResponseBytes :: "text_host \<Rightarrow> batch_entry \<Rightarrow> nat" where
  "estimateJsonResponseBytes w e = length (json_text_of w (entry_value (normalize_json_entry w e)))"

definition estimateSerializedBodyLength :: "text_host \<Rightarrow> entry_content \<Rightarrow> (string \<times> string) list \<Rightarrow> nat \<times> (string \<times> string) list" where
  "estimateSerializedBodyLength w content hs =
     (case content of
        Bytes s \<Rightarrow> (length s, hs)
      | Plain v \<Rightarrow>
          if is_nullish v then (0, hs)
          else case v of
              JStr s \<Rightarrow> (length s, hs)
            | _ \<Rightarrow> (length (json_text_of w v),
                if header_missing ''content-type'' hs then obj_set ''content-type'' ''application/json; charset=utf-8'' hs else hs))"

definition estimateHttpResponseLength :: "text_host \<Rightarrow> batch_entry \<Rightarrow> nat" where
  "estimateHttpResponseLength w e =
     (let (n, hs) = estimateSerializedBodyLength w (entry_body e) (normaliseHeaders (header_list (entry_headers e)));
          hs' = (if 0 < n \<and> header_missing ''content-length'' hs then obj_set ''content-length'' (show_nat n) hs else hs)
      in length (response_head w (entry_status e) hs') + n)"

text \<open>\<open>replace(/\\r\\n/g, ...)\<close> looks for the four characters backslash, r, backslash, n.\<close>

fun unescape_breaks :: "string \<Rightarrow> string" where
  "unescape_breaks (a # b # c # d # cs) =
     (if a = backslash \<and> b = CHR ''r'' \<and> c = backslash \<and> d = CHR ''n'' then line_break @ unescape_breaks cs
      else a # unescape_breaks (b # c # d # cs))"
| "unescape_breaks s = s"

definition estimate_part_bytes :: "text_host \<Rightarrow> string \<Rightarrow> batch_entry \<Rightarrow> nat" where
  "estimate_part_bytes w boundary e =
     length (unescape_breaks (''--'' @ boundary @ line_break @ buildPartHeaders e @ line_break @ line_break)) + estimateHttpResponseLength w e + length line_break"

definition estimateChangesetStartBytes :: nat where
  "estimateChangesetStartBytes = length (unescape_breaks (''--'' @ ESTIMATED_BATCH_BOUNDARY @ line_break
     @ ''Content-Type: multipart/mixed; boundary='' @ ESTIMATED_CHANGESET_BOUNDARY @ line_break @ line_break))"

definition estimateChangesetClosingBytes :: nat where
  "estimateChangesetClosingBytes = length (unescape_breaks (''--'' @ ESTIMATED_CHANGESET_BOUNDARY @ ''--'' @ line_break))"

definition estimateBatchClosingBytes :: nat where
  "estimateBatchClosingBytes = length (unescape_breaks (''--'' @ ESTIMATED_BATCH_BOUNDARY @ ''--'' @ line_break))"

definition estimateJsonEnvelopeBytes :: "nat \<Rightarrow> nat" where
  "estimateJsonEnvelopeBytes n =
     (let base = length ([dquote] @ ''responses'' @ [dquote] @ '':'') + 1 + 1
      in if n = 0 then base + 2 else base + 2 + (if 1 < n then n - 1 else 0))"

definition enforceResponsePayloadLimit :: "size_tracker \<Rightarrow> unit result" where
  "enforceResponsePayloadLimit t =
     (if size_limit t \<le> 0 \<or> int (bufferedBytes t + serializedBytes t) \<le> size_limit t then Inr ()
      else Inl (HttpError 413 [] ''Batch responses exceeded the configured size limit.''))"

definition prepareMultipartTrackerState :: "size_tracker \<Rightarrow> string \<Rightarrow> nat \<times> size_tracker" where
  "prepareMultipartTrackerState t g =
     (let closing = (if activeChangesetId t \<noteq> [] \<and> activeChangesetId t \<noteq> g then estimateChangesetClosingBytes else 0);
          opening = (if g \<noteq> [] \<and> activeChangesetId t \<noteq> g then estimateChangesetStartBytes else 0)
      in (closing + opening, t\<lparr>activeChangesetId := g\<rparr>))"

text \<open>The tracker keeps what was added even when the limit is exceeded.\<close>

definition trackResponseSize :: "text_host \<Rightarrow> size_tracker \<Rightarrow> batch_entry \<Rightarrow> unit result \<times> size_tracker" where
  "trackResponseSize w t e =
     (let t1 = t\<lparr>responsesCount := responsesCount t + 1\<rparr>; g = some_text (entry_group e)
      in if size_limit t \<le> 0 then (Inr (), if isMultipart t then t1\<lparr>activeChangesetId := g\<rparr> else t1)
         else (let (added, t2) =
                  (if isMultipart t
                   then (let (n, u) = prepareMultipartTrackerState t1 g
                         in (n + estimate_part_bytes w (if g \<noteq> [] then ESTIMATED_CHANGESET_BOUNDARY else ESTIMATED_BATCH_BOUNDARY) e, u))
                   else (estimateJsonResponseBytes w e, t1));
                  t3 = t2\<lparr>bufferedBytes := bufferedBytes t2 + estimateBufferedResponseBytes w e, serializedBytes := serializedBytes t2 + added\<rparr>
               in (enforceResponsePayloadLimit t3, t3)))"

definition finalizeResponseSizeTracker :: "size_tracker \<Rightarrow> unit result \<times> size_tracker" where
  "finalizeResponseSizeTracker t =
     (if size_limit t \<le> 0 then (Inr (), t)
      else (let t1 = (if isMultipart t
                then t\<lparr>serializedBytes := serializedBytes t + (if activeChangesetId t \<noteq> [] then estimateChangesetClosingBytes else 0) + estimateBatchClosingBytes,
                       activeChangesetId := []\<rparr>
                else t\<lparr>serializedBytes := serializedBytes t + estimateJsonEnvelopeBytes (responsesCount t)\<rparr>)
            in (enforceResponsePayloadLimit t1, t1)))"

section \<open>The estimate is the size\<close>

lemma http_length: "estimateHttpResponseLength w e = length (renderHttpResponse w e)"
  by (cases "entry_body e")
    (auto simp: estimateHttpResponseLength_def renderHttpResponse_def estimateSerializedBodyLength_def serializeEntryBody_def Let_def split: js_value.split)

lemma unescape_plain: "backslash \<notin> set s \<Longrightarrow> unescape_breaks s = s"
  by (induction s rule: unescape_breaks.induct) auto

definition plain_id :: "batch_entry \<Rightarrow> bool" where
  "plain_id e \<longleftrightarrow> backslash \<notin> set (some_text (entry_id e))"

lemma no_backslash:
  "backslash \<notin> set line_break" "backslash \<notin> set ESTIMATED_BATCH_BOUNDARY" "backslash \<notin> set ESTIMATED_CHANGESET_BOUNDARY"
  "plain_id e \<Longrightarrow> backslash \<notin> set (buildPartHeaders e)"
  by (cases "entry_id e"; auto simp: line_break_def ESTIMATED_BATCH_BOUNDARY_def ESTIMATED_CHANGESET_BOUNDARY_def backslash_def plain_id_def buildPartHeaders_def some_text_def)+

lemma part_length: "plain_id e \<Longrightarrow> boundary \<in> {ESTIMATED_BATCH_BOUNDARY, ESTIMATED_CHANGESET_BOUNDARY} \<Longrightarrow>
    estimate_part_bytes w boundary e = length (render_part w boundary e)"
proof -
  assume a: "plain_id e" "boundary \<in> {ESTIMATED_BATCH_BOUNDARY, ESTIMATED_CHANGESET_BOUNDARY}"
  have "backslash \<notin> set ''--''" by (simp add: backslash_def)
  then have "backslash \<notin> set (''--'' @ boundary @ line_break @ buildPartHeaders e @ line_break @ line_break)"
    using a no_backslash by (simp only: set_append Un_iff) blast
  from unescape_plain [OF this] show ?thesis
    by (simp only: estimate_part_bytes_def render_part_def http_length) (simp only: length_append add.assoc)
qed

lemma frame_lengths:
  "estimateChangesetClosingBytes = length (''--'' @ ESTIMATED_CHANGESET_BOUNDARY @ ''--'' @ line_break)"
  "estimateBatchClosingBytes = length (''--'' @ ESTIMATED_BATCH_BOUNDARY @ ''--'' @ line_break)"
  "estimateChangesetStartBytes = length (''--'' @ ESTIMATED_BATCH_BOUNDARY @ line_break
     @ ''Content-Type: multipart/mixed; boundary='' @ ESTIMATED_CHANGESET_BOUNDARY @ line_break @ line_break)"
  by code_simp+

abbreviation estimated_group :: "text_host \<Rightarrow> response_group \<Rightarrow> string" where
  "estimated_group w \<equiv> render_group w ESTIMATED_BATCH_BOUNDARY (\<lambda>g. ESTIMATED_CHANGESET_BOUNDARY)"

text \<open>What the tracker knows of the groups so far.\<close>

definition tracks :: "text_host \<Rightarrow> size_tracker \<Rightarrow> response_group list \<Rightarrow> bool" where
  "tracks w t groups \<longleftrightarrow>
     activeChangesetId t = (if groups = [] then [] else case last groups of Single e \<Rightarrow> [] | Changeset g es \<Rightarrow> g)
     \<and> serializedBytes t + (if activeChangesetId t = [] then 0 else estimateChangesetClosingBytes) = length (concat (map (estimated_group w) groups))
     \<and> (\<forall>g es. Changeset g es \<in> set groups \<longrightarrow> g \<noteq> [])"

lemma changeset_length:
  "length (estimated_group w (Changeset g [e])) = estimateChangesetStartBytes + length (render_part w ESTIMATED_CHANGESET_BOUNDARY e) + estimateChangesetClosingBytes"
  "length (estimated_group w (Changeset g (es @ [e]))) = length (estimated_group w (Changeset g es)) + length (render_part w ESTIMATED_CHANGESET_BOUNDARY e)"
  by (simp_all add: renderChangesetPart_def frame_lengths)

definition tracked :: "text_host \<Rightarrow> size_tracker \<Rightarrow> batch_entry \<Rightarrow> size_tracker" where
  "tracked w t e = snd (trackResponseSize w t e)"

lemma tracked_fields [simp]: "size_limit (tracked w t e) = size_limit t" "isMultipart (tracked w t e) = isMultipart t"
  "responsesCount (tracked w t e) = Suc (responsesCount t)"
  by (auto simp: tracked_def trackResponseSize_def prepareMultipartTrackerState_def Let_def)

lemma tracks_add:
  assumes "tracks w t groups" "isMultipart t" "0 < size_limit t" "plain_id e"
  shows "tracks w (tracked w t e) (add_response e groups)"
proof -
  let ?g = "some_text (entry_group e)" and ?a = "activeChangesetId t"
  let ?part = "render_part w (if ?g \<noteq> [] then ESTIMATED_CHANGESET_BOUNDARY else ESTIMATED_BATCH_BOUNDARY) e"
  have part: "estimate_part_bytes w (if ?g \<noteq> [] then ESTIMATED_CHANGESET_BOUNDARY else ESTIMATED_BATCH_BOUNDARY) e = length ?part"
    using assms(4) by (intro part_length) simp_all
  have t: "activeChangesetId (tracked w t e) = ?g"
    "serializedBytes (tracked w t e) = serializedBytes t + (if ?a \<noteq> [] \<and> ?a \<noteq> ?g then estimateChangesetClosingBytes else 0)
       + (if ?g \<noteq> [] \<and> ?a \<noteq> ?g then estimateChangesetStartBytes else 0) + length ?part"
    using assms(2,3) part by (simp_all add: tracked_def trackResponseSize_def prepareMultipartTrackerState_def Let_def del: if_not_P)
  consider (single) "?g = []" | (same) "?g \<noteq> []" "?a = ?g" | (new) "?g \<noteq> []" "?a \<noteq> ?g" by blast
  then show ?thesis
  proof cases
    case single
    then have "add_response e groups = groups @ [Single e]" by (simp add: add_response_def)
    with single t assms(1) show ?thesis by (auto simp: tracks_def)
  next
    case same
    then obtain es where g: "groups \<noteq> []" "last groups = Changeset ?g es"
      using assms(1) by (auto simp: tracks_def split: if_splits response_group.splits)
    have e: "entry_group e = Some ?g" using same by (cases "entry_group e") (auto simp: some_text_def)
    have a: "add_response e groups = butlast groups @ [Changeset ?g (es @ [e])]" using same(1) g
      by (simp add: add_response_def e [THEN arg_cong [where f=the], simplified option.sel])
    have "groups = butlast groups @ [Changeset ?g es]" using g by (metis append_butlast_last_id)
    then have "length (concat (map (estimated_group w) groups)) = length (concat (map (estimated_group w) (butlast groups))) + length (estimated_group w (Changeset ?g es))"
      by (metis concat_append concat.simps(1,2) append_Nil2 length_append list.map(1,2) map_append)
    with a g same t assms(1) changeset_length(2) [of w ?g es e] show ?thesis
      by (auto simp: tracks_def simp del: render_group.simps dest: in_set_butlastD)
  next
    case new
    have e: "entry_group e = Some ?g" using new by (cases "entry_group e") (auto simp: some_text_def)
    have "\<And>h es. groups \<noteq> [] \<Longrightarrow> last groups = Changeset h es \<Longrightarrow> h \<noteq> ?g" using new assms(1) by (auto simp: tracks_def)
    then have a: "add_response e groups = groups @ [Changeset ?g [e]]"
      using new(1) by (auto simp: add_response_def e [THEN arg_cong [where f=the], simplified option.sel] split: response_group.split)
    with new t assms(1) changeset_length(1) [of w ?g e] show ?thesis
      by (auto simp: tracks_def simp del: render_group.simps)
  qed
qed

lemma tracks_all:
  "tracks w t groups \<Longrightarrow> isMultipart t \<Longrightarrow> 0 < size_limit t \<Longrightarrow> list_all plain_id es \<Longrightarrow>
     tracks w (fold (\<lambda>e t. tracked w t e) es t) (fold add_response es groups)
     \<and> size_limit (fold (\<lambda>e t. tracked w t e) es t) = size_limit t \<and> isMultipart (fold (\<lambda>e t. tracked w t e) es t)"
proof (induction es arbitrary: t groups)
  case (Cons e es)
  from Cons.IH [of "tracked w t e" "add_response e groups"] tracks_add [OF Cons.prems(1-3)] Cons.prems show ?case by simp
qed simp

lemma multipart_estimate:
  assumes "0 < limit" "list_all plain_id es"
  shows "serializedBytes (snd (finalizeResponseSizeTracker (fold (\<lambda>e t. tracked w t e) es (createResponseSizeTracker True limit))))
    = length (serializeMultipartBatch w ESTIMATED_BATCH_BOUNDARY (\<lambda>g. ESTIMATED_CHANGESET_BOUNDARY) es)"
proof -
  let ?t = "fold (\<lambda>e t. tracked w t e) es (createResponseSizeTracker True limit)"
  have "tracks w (createResponseSizeTracker True limit) []" by (simp add: tracks_def createResponseSizeTracker_def)
  from tracks_all [OF this _ _ assms(2)] assms(1)
  have "tracks w ?t (groupResponses es)" "size_limit ?t = limit" "isMultipart ?t"
    by (simp_all add: createResponseSizeTracker_def groupResponses_def)
  then show ?thesis
    using assms(1) by (auto simp: finalizeResponseSizeTracker_def serializeMultipartBatch_def tracks_def frame_lengths(2) Let_def split: if_splits)
qed

lemma json_sum:
  "0 < size_limit t \<Longrightarrow> \<not> isMultipart t \<Longrightarrow>
     serializedBytes (fold (\<lambda>e t. tracked w t e) es t) = serializedBytes t + sum_list (map (estimateJsonResponseBytes w) es)
     \<and> responsesCount (fold (\<lambda>e t. tracked w t e) es t) = responsesCount t + length es
     \<and> size_limit (fold (\<lambda>e t. tracked w t e) es t) = size_limit t \<and> \<not> isMultipart (fold (\<lambda>e t. tracked w t e) es t)"
proof (induction es arbitrary: t)
  case (Cons e es)
  have "serializedBytes (tracked w t e) = serializedBytes t + estimateJsonResponseBytes w e"
    using Cons.prems by (simp add: tracked_def trackResponseSize_def Let_def)
  with Cons.IH [of "tracked w t e"] Cons.prems show ?case by simp
qed simp

lemma join_length: "length (join '','' ts) = sum_list (map length ts) + (length ts - 1)"
proof (induction "'',''" ts rule: join.induct)
  case (3 s t ts)
  then show ?case by simp
qed simp_all

lemma json_estimate:
  assumes "0 < limit"
  shows "serializedBytes (snd (finalizeResponseSizeTracker (fold (\<lambda>e t. tracked w t e) es (createResponseSizeTracker False limit)))) = length (json_payload w es)"
proof -
  let ?t = "fold (\<lambda>e t. tracked w t e) es (createResponseSizeTracker False limit)"
  have t: "serializedBytes ?t = sum_list (map (estimateJsonResponseBytes w) es)" "responsesCount ?t = length es" "size_limit ?t = limit" "\<not> isMultipart ?t"
    using json_sum [of "createResponseSizeTracker False limit" w es] assms by (simp_all add: createResponseSizeTracker_def)
  let ?vs = "map entry_value (normalizeJsonBatchResponses w es)"
  have item: "item_text h (entry_value e) = some_text (json_stringify h (entry_value e))" for h e
    by (simp add: item_text_def entry_value_def some_text_def)
  have texts: "map (item_text (plain_host w)) ?vs = map (\<lambda>e. json_text_of w (entry_value (normalize_json_entry w e))) es"
    by (simp add: normalizeJsonBatchResponses_def item json_text_of_def)
  have key: "json_string ''responses'' = [dquote] @ ''responses'' @ [dquote]" by code_simp
  have "json_payload w es = ''{'' @ json_string ''responses'' @ '':'' @ ''['' @ join '','' (map (item_text (plain_host w)) ?vs) @ '']'' @ ''}''"
    by (simp only: json_payload_def json_text_of_def json_stringify.simps(8)) (simp add: array_text some_text_def del: json_stringify.simps)
  then have "length (json_payload w es) = 16 + (sum_list (map (estimateJsonResponseBytes w) es) + (length es - 1))"
    unfolding key texts by (simp add: join_length comp_def estimateJsonResponseBytes_def [abs_def])
  then show ?thesis using t assms by (cases es) (simp_all add: finalizeResponseSizeTracker_def estimateJsonEnvelopeBytes_def Let_def)
qed

end
