(* ===== verification/BatchHost.thy ===== *)
theory BatchHost
  imports BatchText MultipartParser "HOL-Library.AList"
begin

text \<open>
  What a batch runs on: the state its requests share, runs that return, throw or wait for ever, and the transactions of
  atomicity groups (\<open>AtomicityGroupContext\<close> and \<open>createAtomicGroupContext\<close> of \<open>controllers/batch.controller.ts\<close>,
  \<open>util/datasource-transactions.ts\<close>). The LoopBack handler that answers a sub-request and the transactions of a data source are
  arguments: functions on the contents of the server.
\<close>

section \<open>Hosts\<close>

text \<open>A sub-request as the handler sees it; \<open>call_group\<close> is the atomicity state it finds: the group and the transaction of each set.\<close>

record sub_call =
  call_method :: string
  call_url :: string
  call_original :: string
  call_headers :: "(string \<times> string) list"
  call_body :: string
  call_depth :: nat
  call_group :: "(string \<times> (string \<times> nat) list) option"

text \<open>What comes of it: the chunks it writes, and how it ends. A handler that never ends its response is silent.\<close>

datatype header_value = Text string | Texts "string list" | Amount int

datatype response_end = Ended int "(string \<times> header_value) list" | Broken "int option" string | Silent

record handled =
  written :: "string list"
  ending :: response_end

text \<open>
  A data source: whether its connector has \<open>beginTransaction\<close>, whether it has one of its own, and whether it has one at all.
\<close>

record batch_source =
  source_id :: nat
  source_name :: "string option"
  connector_begins :: bool
  own_begin :: bool
  can_begin :: bool

record batch_limits = MultipartParser.limits +
  maxResponseBodyBytes :: "int option"
  maxResponsePayloadBytes :: "int option"

text \<open>\<open>repository_source\<close> is the data source of the repository bound to a key; \<open>engine_message\<close> the message of an error of the language.\<close>

record 'w batch_host =
  texts :: text_host
  batch_site :: site
  batch_config :: batch_limits
  timeout_ms :: "int option"
  allowed_headers :: "string list"
  parent_headers :: "(string \<times> string list) list"
  parent_depth :: nat
  correlation :: "(string \<times> string) option"
  handle :: "sub_call \<Rightarrow> 'w \<Rightarrow> handled \<times> 'w"
  begin_tx :: "nat \<Rightarrow> 'w \<Rightarrow> nat result \<times> 'w"
  commit_tx :: "nat \<Rightarrow> 'w \<Rightarrow> unit result \<times> 'w"
  rollback_tx :: "nat \<Rightarrow> 'w \<Rightarrow> unit result \<times> 'w"
  repository_source :: "string \<Rightarrow> batch_source option result"
  read_json :: "string \<Rightarrow> js_value option"
  engine_message :: "odata_error \<Rightarrow> string"

section \<open>Runs\<close>

text \<open>
  The state of a batch: the contents of the server, what is known of the transactions of each set
  (\<open>supportsTransactions\<close> and \<open>transactionCapabilityLocked\<close>), the results by identifier, the size so far, and the references and
  their tags.
\<close>

record 'w run_state =
  contents :: 'w
  set_flags :: "(string \<times> bool option \<times> bool option) list"
  dep_results :: "(string \<times> batch_entry) list"
  size_so_far :: size_tracker
  content_maps :: "content_ids \<times> content_ids"

datatype 'a stop = Returned 'a | Raised odata_error | Hanging

type_synonym ('w, 'a) run = "'w run_state \<Rightarrow> 'a stop \<times> 'w run_state"

definition ret :: "'a \<Rightarrow> ('w, 'a) run" where
  "ret a st = (Returned a, st)"

definition raise :: "odata_error \<Rightarrow> ('w, 'a) run" where
  "raise e st = (Raised e, st)"

definition seq :: "('w, 'a) run \<Rightarrow> ('a \<Rightarrow> ('w, 'b) run) \<Rightarrow> ('w, 'b) run" where
  "seq m f st =
     (case m st of
        (Returned a, st') \<Rightarrow> f a st'
      | (Raised e, st') \<Rightarrow> (Raised e, st')
      | (Hanging, st') \<Rightarrow> (Hanging, st'))"

definition lift :: "'a result \<Rightarrow> ('w, 'a) run" where
  "lift r = (case r of Inl e \<Rightarrow> raise e | Inr a \<Rightarrow> ret a)"

text \<open>A call of the server, errors as values.\<close>

definition attempt :: "('w \<Rightarrow> 'a result \<times> 'w) \<Rightarrow> ('w, 'a result) run" where
  "attempt f st = (let (r, w) = f (contents st) in (Returned r, st\<lparr>contents := w\<rparr>))"

definition error_text :: "'w batch_host \<Rightarrow> odata_error \<Rightarrow> string" where
  "error_text h e = (case e of PlainError m \<Rightarrow> m | HttpError n c m \<Rightarrow> m | _ \<Rightarrow> engine_message h e)"

definition error_status :: "odata_error \<Rightarrow> nat option" where
  "error_status e = (case e of HttpError n c m \<Rightarrow> Some n | _ \<Rightarrow> None)"

definition once_each :: "'a list \<Rightarrow> 'a list" where
  "once_each xs = fold (\<lambda>x ys. if x \<in> set ys then ys else ys @ [x]) xs []"

section \<open>The context of a group\<close>

record atomic_context =
  ctx_group :: string
  ctx_sets :: "(string \<times> nat) list"
  transactions :: "nat list"
  settled :: bool
  rolledBack :: bool

definition new_context :: "string \<Rightarrow> (string \<times> nat) list \<Rightarrow> atomic_context" where
  "new_context g sets =
     \<lparr>ctx_group = g, ctx_sets = sets, transactions = once_each (map snd sets), settled = False, rolledBack = False\<rparr>"

fun rollback_each :: "'w batch_host \<Rightarrow> nat list \<Rightarrow> 'w \<Rightarrow> odata_error list \<times> 'w" where
  "rollback_each h [] w = ([], w)"
| "rollback_each h (tx # txs) w =
     (let (r, w1) = rollback_tx h tx w; (errors, w2) = rollback_each h txs w1
      in (case r of Inl e \<Rightarrow> e # errors | Inr u \<Rightarrow> errors, w2))"

definition safeRollback :: "'w batch_host \<Rightarrow> atomic_context \<Rightarrow> 'w \<Rightarrow> unit result \<times> atomic_context \<times> 'w" where
  "safeRollback h c w =
     (if rolledBack c then (Inr (), c, w)
      else (let (errors, w1) = rollback_each h (transactions c) w
            in (if errors = [] then Inr () else Inl (PlainError (join ''; '' (map (error_text h) errors))),
                c\<lparr>rolledBack := True, settled := True\<rparr>, w1)))"

definition rollback :: "'w batch_host \<Rightarrow> atomic_context \<Rightarrow> 'w \<Rightarrow> unit result \<times> atomic_context \<times> 'w" where
  "rollback h c w = (if settled c \<and> rolledBack c then (Inr (), c, w) else safeRollback h c w)"

fun commit_each :: "'w batch_host \<Rightarrow> nat list \<Rightarrow> 'w \<Rightarrow> unit result \<times> 'w" where
  "commit_each h [] w = (Inr (), w)"
| "commit_each h (tx # txs) w =
     (case commit_tx h tx w of (Inl e, w1) \<Rightarrow> (Inl e, w1) | (Inr u, w1) \<Rightarrow> commit_each h txs w1)"

text \<open>A commit that fails is followed by a rollback whose errors are dropped.\<close>

definition commit :: "'w batch_host \<Rightarrow> atomic_context \<Rightarrow> 'w \<Rightarrow> unit result \<times> atomic_context \<times> 'w" where
  "commit h c w =
     (if settled c then (Inr (), c, w)
      else case commit_each h (transactions c) w of
          (Inr u, w1) \<Rightarrow> (Inr (), c\<lparr>settled := True\<rparr>, w1)
        | (Inl e, w1) \<Rightarrow> (let (r, c1, w2) = safeRollback h c w1 in (Inl e, c1, w2)))"

section \<open>Data sources\<close>

definition dataSourceSupportsTransactions :: "batch_source \<Rightarrow> bool" where
  "dataSourceSupportsTransactions d \<longleftrightarrow> connector_begins d \<or> own_begin d"

definition says_unsupported :: "'w batch_host \<Rightarrow> odata_error \<Rightarrow> bool" where
  "says_unsupported h e \<longleftrightarrow>
     error_status e = Some 501 \<or> contains_str (lower (error_text h e)) ''not implemented''
     \<or> contains_str (lower (error_text h e)) ''not support''"

datatype capability = Supported | Unsupported | Unknown odata_error

definition probeDataSourceTransactionalCapability :: "'w batch_host \<Rightarrow> batch_source \<Rightarrow> ('w, capability) run" where
  "probeDataSourceTransactionalCapability h d =
     (if \<not> dataSourceSupportsTransactions d then ret Unsupported
      else seq (attempt (begin_tx h (source_id d))) (\<lambda>r.
        case r of
          Inl e \<Rightarrow> ret (if says_unsupported h e then Unsupported else Unknown e)
        | Inr tx \<Rightarrow> seq (attempt (rollback_tx h tx)) (\<lambda>ignored. ret Supported)))"

text \<open>\<open>supportsTransactions\<close> and \<open>transactionCapabilityLocked\<close> of a set: as they were set last.\<close>

definition flags_of :: "'w run_state \<Rightarrow> set_def \<Rightarrow> bool option \<times> bool option" where
  "flags_of st s = (case map_of (set_flags st) (set_name s) of None \<Rightarrow> (supports_transactions s, capability_locked s) | Some f \<Rightarrow> f)"

definition lock_flag :: "string \<Rightarrow> bool \<Rightarrow> ('w, unit) run" where
  "lock_flag name b st = (Returned (), st\<lparr>set_flags := obj_set name (Some b, Some True) (set_flags st)\<rparr>)"

definition markEntitySetNonTransactional :: "string \<Rightarrow> ('w, unit) run" where
  "markEntitySetNonTransactional name = lock_flag name False"

text \<open>The data source is given by the only caller.\<close>

definition tryRefreshTransactionalSupport :: "'w batch_host \<Rightarrow> set_def \<Rightarrow> batch_source \<Rightarrow> ('w, bool) run" where
  "tryRefreshTransactionalSupport h s d =
     (if some_text (repository_key s) = [] then ret False
      else seq (probeDataSourceTransactionalCapability h d) (\<lambda>c.
        case c of
          Supported \<Rightarrow> seq (lock_flag (set_name s) True) (\<lambda>u. ret True)
        | Unsupported \<Rightarrow> seq (markEntitySetNonTransactional (set_name s)) (\<lambda>u. ret False)
        | Unknown e \<Rightarrow> raise e))"

definition ensureTransactionalSupport :: "'w batch_host \<Rightarrow> set_def \<Rightarrow> batch_source \<Rightarrow> ('w, bool) run" where
  "ensureTransactionalSupport h s d st =
     (if fst (flags_of st s) = Some True then (Returned True, st)
      else seq (if snd (flags_of st s) = Some False then tryRefreshTransactionalSupport h s d else ret False) (\<lambda>refreshed st1.
        if refreshed then (Returned True, st1)
        else if fst (flags_of st1 s) = Some False then seq (lock_flag (set_name s) False) (\<lambda>u. ret False) st1
        else (Returned True, st1)) st)"

definition cannot_begin :: "batch_source \<Rightarrow> string \<Rightarrow> odata_error" where
  "cannot_begin d reason = HttpError 501 [] (''Datasource ''
     @ (case source_name d of None \<Rightarrow> ''unknown'' | Some n \<Rightarrow> n) @ '' cannot begin a transaction: '' @ reason @ ''.'')"

definition beginTransactionForDataSource :: "'w batch_host \<Rightarrow> batch_source \<Rightarrow> ('w, nat) run" where
  "beginTransactionForDataSource h d =
     (if \<not> can_begin d then raise (cannot_begin d ''missing beginTransaction()'')
      else seq (attempt (begin_tx h (source_id d))) (\<lambda>r.
        case r of
          Inr tx \<Rightarrow> ret tx
        | Inl e \<Rightarrow> raise (if says_unsupported h e then cannot_begin d (error_text h e) else e)))"

section \<open>The set a request writes to\<close>

text \<open>\<open>rs\<close> is the whole batch, \<open>members\<close> the requests of the group with their positions.\<close>

definition find_referenced :: "(nat \<times> sub_request) list \<Rightarrow> sub_request list \<Rightarrow> string \<Rightarrow> (nat \<times> sub_request) option" where
  "find_referenced members rs token =
     (let by_id = (\<lambda>i. find (\<lambda>(n, r). some_text (sub_id r) \<noteq> [] \<and> some_text (sub_id r) = i) (rev members))
      in if starts_with token ''requests('' \<and> ends_with token '')''
         then (let inner = trim (butlast (drop 9 token))
               in if inner \<noteq> [] \<and> list_all is_digit inner
                  then (let n = nat_of_digits 0 inner in if n = 0 \<or> length rs < n then None else Some (n - 1, rs ! (n - 1)))
                  else by_id (if in_either_quotes inner then inside_quotes inner else inner))
         else by_id token)"

definition resolveAtomicityGroupContentIdReference ::
  "string \<Rightarrow> (nat \<times> sub_request) list \<Rightarrow> sub_request list \<Rightarrow> nat \<Rightarrow> string \<Rightarrow> (nat \<times> sub_request) option" where
  "resolveAtomicityGroupContentIdReference g members rs n token =
     (case find_referenced members rs token of
        None \<Rightarrow> None
      | Some (m, r) \<Rightarrow> if group_of r \<noteq> g \<or> n \<le> m then None else Some (m, r))"

lemma referenced_earlier:
  "resolveAtomicityGroupContentIdReference g members rs n token = Some (m, r) \<Longrightarrow> m < n"
  by (auto simp: resolveAtomicityGroupContentIdReference_def split: option.splits if_splits)

text \<open>
  The cache holds what the function returns again; a request that is being visited is never met, since references lead to
  earlier requests.
\<close>

function resolveAtomicityGroupEntitySetName ::
  "site \<Rightarrow> string \<Rightarrow> (nat \<times> sub_request) list \<Rightarrow> sub_request list \<Rightarrow> nat \<Rightarrow> sub_request \<Rightarrow> string option result" where
  "resolveAtomicityGroupEntitySetName w g members rs n r =
     (if some_text (resolveEntitySetName w (sub_url r)) \<noteq> [] then Inr (resolveEntitySetName w (sub_url r))
      else case stripServiceRootFromUrl w (sub_url r) of
          None \<Rightarrow> Inr None
        | Some [] \<Rightarrow> Inr None
        | Some (seg # trailing) \<Rightarrow>
            (let first = decodeComponent seg
             in if \<not> starts_with first ''$'' then Inr None
                else case extractContentIdToken first of
                    None \<Rightarrow> Inr None
                  | Some (token, quotes) \<Rightarrow>
                      (case resolveAtomicityGroupContentIdReference g members rs n token of
                         None \<Rightarrow> Inl (HttpError 400 ''content-id-reference-invalid''
                           (''Invalid Content-ID reference '' @ first @ '': must reference an earlier request in the same changeset.''))
                       | Some (m, r1) \<Rightarrow>
                           rbind (resolveAtomicityGroupEntitySetName w g members rs m r1) (\<lambda>base.
                             if some_text base = [] then Inr None else Inr (resolveEntitySetFromBase w (the base) trailing)))))"
  by pat_completeness auto

termination
  by (relation "measure (\<lambda>(w, g, members, rs, n, r). n)") (auto dest: referenced_earlier)

declare resolveAtomicityGroupEntitySetName.simps [simp del]

section \<open>Refused groups\<close>

definition atomicityTransactionsUnsupported :: "string \<Rightarrow> string list \<Rightarrow> odata_error" where
  "atomicityTransactionsUnsupported g sets = HttpError 501 ''TransactionsNotSupported''
     (''Atomicity group '' @ g @ '' cannot be executed without transaction support. ''
      @ (if sets \<noteq> [] then ''The following entity sets do not support transactions: '' @ join '', '' sets @ ''.''
         else ''Datasource transactions are unavailable.''))"

definition atomicityMultiDataSourceUnsupported :: "string \<Rightarrow> string list \<Rightarrow> odata_error" where
  "atomicityMultiDataSourceUnsupported g sources = HttpError 501 ''MultiDataSourceChangesetNotSupported''
     (''Atomicity group '' @ g @ '' would write to multiple datasources ('' @ (if sources \<noteq> [] then join '', '' sources else ''unknown'')
      @ ''). Split into separate changesets or use a single datasource.'')"

definition atomicityGroupUnsupported :: "string \<Rightarrow> odata_error" where
  "atomicityGroupUnsupported g = HttpError 501 ''AtomicityGroupNotSupported''
     (''Atomicity group '' @ g @ '' contains a write request that cannot be mapped to a registered entity set; changeset atomicity cannot be guaranteed.'')"

text \<open>The two refusals that become answers of the requests; the rest of the description is logged.\<close>

definition describeAtomicityGroupRejection :: "odata_error \<Rightarrow> (string \<times> string) option" where
  "describeAtomicityGroupRejection e =
     (case e of
        HttpError n c m \<Rightarrow>
          if n = 501 \<and> c \<in> {''MultiDataSourceChangesetNotSupported'', ''AtomicityGroupNotSupported''} then Some (c, m) else None
      | _ \<Rightarrow> None)"

definition ensureAtomicityGroupContainsOnlyWrites :: "string \<Rightarrow> sub_request list \<Rightarrow> unit result" where
  "ensureAtomicityGroupContainsOnlyWrites g rs =
     (case find (\<lambda>r. upper (sub_method r) \<notin> {''POST'', ''PUT'', ''PATCH'', ''DELETE''}) rs of
        None \<Rightarrow> Inr ()
      | Some r \<Rightarrow> refuse_batch (''Atomicity group '' @ g @ '' contains unsupported ''
          @ (if sub_method r = [] then ''unknown'' else upper (sub_method r)) @ '' request.''))"

section \<open>Opening a group\<close>

fun written_sets :: "site \<Rightarrow> string \<Rightarrow> (nat \<times> sub_request) list \<Rightarrow> sub_request list \<Rightarrow> (nat \<times> sub_request) list \<Rightarrow> string list result" where
  "written_sets w g members rs [] = Inr []"
| "written_sets w g members rs ((n, r) # others) =
     (if upper (sub_method r) \<in> {''GET'', ''HEAD''} then written_sets w g members rs others
      else rbind (resolveAtomicityGroupEntitySetName w g members rs n r) (\<lambda>found.
        if some_text found = [] then Inl (atomicityGroupUnsupported g)
        else rbind (written_sets w g members rs others) (\<lambda>names. Inr (the found # names))))"

text \<open>The sets with a data source, and those known to have no transactions.\<close>

fun map_sources :: "'w batch_host \<Rightarrow> string \<Rightarrow> string list \<Rightarrow> ('w, (set_def \<times> batch_source) list \<times> string list) run" where
  "map_sources h g [] = ret ([], [])"
| "map_sources h g (s # names) =
     (case findByName (site_sets (batch_site h)) s of
        None \<Rightarrow> raise (atomicityGroupUnsupported g)
      | Some d \<Rightarrow> (\<lambda>st.
          if flags_of st d = (Some False, Some True)
          then seq (map_sources h g names) (\<lambda>(found, without). ret (found, set_name d # without)) st
          else if some_text (repository_key d) = []
          then (Raised (HttpError 500 [] (''Entity set '' @ set_name d @ '' is missing a repository binding and cannot participate in transactions.'')), st)
          else seq (lift (repository_source h (the (repository_key d)))) (\<lambda>source.
            case source of
              None \<Rightarrow> seq (markEntitySetNonTransactional (set_name d)) (\<lambda>u.
                seq (map_sources h g names) (\<lambda>(found, without). ret (found, set_name d # without)))
            | Some src \<Rightarrow> seq (map_sources h g names) (\<lambda>(found, without). ret ((d, src) # found, without))) st))"

text \<open>The names of several data sources in the message: with the key when two sets have sources of one name.\<close>

definition source_labels :: "(set_def \<times> batch_source) list \<Rightarrow> string list" where
  "source_labels found =
     (let times = (\<lambda>n. length (filter (\<lambda>(d, src). source_name src = Some n) found));
          sources = fold (\<lambda>(d, src). AList.update (source_id src) (source_name src, some_text (repository_key d))) found []
      in once_each (map (\<lambda>(i, n, k). if some_text n = [] then k else if 1 < times (the n) then the n @ '' ('' @ k @ '')'' else the n) sources))"

text \<open>The sets whose data source turns out to have no transactions.\<close>

fun incapable_sets :: "'w batch_host \<Rightarrow> (set_def \<times> batch_source) list \<Rightarrow> ('w, string list) run" where
  "incapable_sets h [] = ret []"
| "incapable_sets h ((d, src) # found) =
     seq (ensureTransactionalSupport h d src) (\<lambda>transactional.
     seq (if \<not> transactional then ret [set_name d]
          else if \<not> dataSourceSupportsTransactions src then seq (markEntitySetNonTransactional (set_name d)) (\<lambda>u. ret [set_name d])
          else ret []) (\<lambda>here.
     seq (incapable_sets h found) (\<lambda>others. ret (here @ others))))"

fun mark_all :: "string list \<Rightarrow> bool \<Rightarrow> ('w, unit) run" where
  "mark_all [] b = ret ()"
| "mark_all (n # names) b = seq (lock_flag n b) (\<lambda>u. mark_all names b)"

text \<open>The transaction of a group: one, for all its sets.\<close>

definition open_transaction :: "'w batch_host \<Rightarrow> string \<Rightarrow> set_def list \<Rightarrow> batch_source \<Rightarrow> ('w, atomic_context option) run" where
  "open_transaction h g defs src st =
     (case beginTransactionForDataSource h src st of
        (Returned tx, st1) \<Rightarrow>
          seq (mark_all (map set_name defs) True) (\<lambda>u. ret (Some (new_context g (map (\<lambda>d. (set_name d, tx)) defs)))) st1
      | (Raised e, st1) \<Rightarrow>
          if error_status e = Some 501
          then seq (mark_all (map set_name defs) False) (\<lambda>u. raise (atomicityTransactionsUnsupported g (map set_name defs))) st1
          else (Raised e, st1)
      | (Hanging, st1) \<Rightarrow> (Hanging, st1))"

definition createAtomicGroupContext ::
  "'w batch_host \<Rightarrow> string \<Rightarrow> (nat \<times> sub_request) list \<Rightarrow> sub_request list \<Rightarrow> ('w, atomic_context option) run" where
  "createAtomicGroupContext h g members rs =
     seq (lift (written_sets (batch_site h) g members rs members)) (\<lambda>written_names.
       let names = once_each written_names
       in if names = [] then ret None
          else seq (map_sources h g names) (\<lambda>(found, without).
            if without \<noteq> [] then raise (atomicityTransactionsUnsupported g (once_each without))
            else if 1 < length (once_each (map (source_id \<circ> snd) found))
            then raise (atomicityMultiDataSourceUnsupported g (source_labels found))
            else seq (incapable_sets h found) (\<lambda>unable.
              if unable \<noteq> [] then raise (atomicityTransactionsUnsupported g (once_each unable))
              else case found of
                  [] \<Rightarrow> raise (atomicityTransactionsUnsupported g names)
                | (d, src) # others \<Rightarrow>
                    if (case source_name src of Some n \<Rightarrow> n | None \<Rightarrow> some_text (repository_key d)) = []
                    then raise (atomicityTransactionsUnsupported g names)
                    else open_transaction h g (map fst found) src)))"

end
