(* ===== verification/BatchRun.thy ===== *)
theory BatchRun
  imports BatchHost
begin

text \<open>
  The batch controller at work (\<open>controllers/batch.controller.ts\<close>): the limits, a sub-request and its redirects, dependencies,
  atomicity groups and the whole batch. Logging and telemetry are left out.
\<close>

section \<open>Limits\<close>

definition getBatchLimits :: "batch_limits \<Rightarrow> batch_limits" where
  "getBatchLimits c =
     \<lparr>maxPayloadBytes = Some (case maxPayloadBytes c of Some n \<Rightarrow> n | None \<Rightarrow> 16 * 1024 * 1024),
      maxOperations = Some (case maxOperations c of Some n \<Rightarrow> n | None \<Rightarrow> 100),
      maxChangesetOperations = Some (case maxChangesetOperations c of Some n \<Rightarrow> n | None \<Rightarrow> 50),
      maxDepth = Some (case maxDepth c of Some n \<Rightarrow> n | None \<Rightarrow> 2),
      maxPartBodyBytes = Some (case maxPartBodyBytes c of Some n \<Rightarrow> n | None \<Rightarrow> 4 * 1024 * 1024),
      maxResponseBodyBytes = Some (case maxResponseBodyBytes c of Some n \<Rightarrow> n | None \<Rightarrow> 4 * 1024 * 1024),
      maxResponsePayloadBytes = Some (case maxResponsePayloadBytes c of Some n \<Rightarrow> n | None \<Rightarrow> 32 * 1024 * 1024)\<rparr>"

definition too_large :: "string \<Rightarrow> string \<Rightarrow> odata_error" where
  "too_large code_text message = HttpError 413 code_text message"

text \<open>\<open>declared\<close> is the Content-Length header; a limit below zero refuses every declared size.\<close>

definition enforceDeclaredSizeLimit :: "string option \<Rightarrow> batch_limits \<Rightarrow> unit result" where
  "enforceDeclaredSizeLimit declared l =
     (case maxPayloadBytes l of
        None \<Rightarrow> Inr ()
      | Some m \<Rightarrow>
          if m = 0 \<or> some_text declared = [] then Inr ()
          else case js_Number (the declared) of
              Finite n \<Rightarrow> if n > of_int m then Inl (too_large ''batch-payload-size-limit-exceeded'' ''Batch payload exceeds the configured size limit.'') else Inr ()
            | _ \<Rightarrow> Inr ())"

text \<open>The error is thrown inside the \<open>try\<close> that catches it.\<close>

definition enforceJsonPayloadSize :: "'w batch_host \<Rightarrow> js_value \<Rightarrow> batch_limits \<Rightarrow> unit result" where
  "enforceJsonPayloadSize h payload l =
     (case maxPayloadBytes l of
        None \<Rightarrow> Inr ()
      | Some m \<Rightarrow>
          if m = 0 then Inr ()
          else case (if int (length (json_text_of (texts h) (if is_nullish payload then JObj [] else payload))) > m
              then Inl (too_large ''batch-payload-size-limit-exceeded'' ''Batch payload exceeds the configured size limit.'') else Inr ()) of
            Inl (e :: odata_error) \<Rightarrow> Inr ()
          | Inr u \<Rightarrow> Inr u)"

definition resolveRequestBodyBuffer :: "'w batch_host \<Rightarrow> sub_request \<Rightarrow> string" where
  "resolveRequestBodyBuffer h r =
     (case raw_body r of
        Some s \<Rightarrow> s
      | None \<Rightarrow> (case sub_body r of JUndefined \<Rightarrow> [] | JStr s \<Rightarrow> s | v \<Rightarrow> json_text_of (texts h) v))"

definition enforceJsonPartBodySize :: "'w batch_host \<Rightarrow> sub_request list \<Rightarrow> batch_limits \<Rightarrow> unit result" where
  "enforceJsonPartBodySize h rs l =
     (if list_ex (\<lambda>r. exceeds (length (resolveRequestBodyBuffer h r)) (maxPartBodyBytes l)) rs
      then Inl (too_large ''batch-part-size-limit-exceeded'' ''Batch part exceeds the configured size limit.'') else Inr ())"

definition enforceOperationLimit :: "nat \<Rightarrow> batch_limits \<Rightarrow> unit result" where
  "enforceOperationLimit n l =
     (if exceeds n (maxOperations l)
      then Inl (HttpError 400 ''batch-operation-limit-exceeded'' ''Batch payload exceeds the configured operation limit.'') else Inr ())"

definition enforceChangesetLimit :: "(string \<times> sub_request list) list \<Rightarrow> batch_limits \<Rightarrow> unit result" where
  "enforceChangesetLimit groups l =
     (if list_ex (\<lambda>(g, rs). exceeds (length rs) (maxChangesetOperations l)) groups
      then Inl (HttpError 400 ''changeset-operation-limit-exceeded'' ''Changeset exceeds the configured operation limit for $batch requests.'')
      else Inr ())"

definition enforceBatchDepthLimit :: "nat \<Rightarrow> batch_limits \<Rightarrow> unit result" where
  "enforceBatchDepthLimit d l =
     (case maxDepth l of
        None \<Rightarrow> Inr ()
      | Some m \<Rightarrow>
          if 0 < m \<and> m \<le> int d
          then Inl (HttpError 400 ''batch-depth-limit-exceeded'' ''Batch request exceeds the configured nesting depth.'') else Inr ())"

section \<open>A sub-request\<close>

definition ODATA_BATCH_DEPTH_HEADER :: string where
  "ODATA_BATCH_DEPTH_HEADER = ''x-odata-batch-depth''"

definition DEFAULT_ALLOWED_SUBREQUEST_HEADERS :: "string list" where
  "DEFAULT_ALLOWED_SUBREQUEST_HEADERS =
     [''accept'', ''accept-charset'', ''accept-encoding'', ''accept-language'', ''content-type'', ''slug'', ''dataserviceversion'',
      ''maxdataserviceversion'', ''prefer'', ''if-match'', ''if-none-match'', ''if-modified-since'', ''if-unmodified-since'',
      ''if-range'', ''odata-version'', ''odata-maxversion'', ''odata-isolation'']"

definition resolveAllowedSubRequestHeaders :: "'w batch_host \<Rightarrow> string list" where
  "resolveAllowedSubRequestHeaders h =
     DEFAULT_ALLOWED_SUBREQUEST_HEADERS @ filter (\<lambda>n. n \<noteq> []) (map (\<lambda>n. lower (trim n)) (allowed_headers h))"

definition forbidden_headers :: "string list" where
  "forbidden_headers = [''connection'', ''content-length'', ''transfer-encoding'', ''proxy-connection'', ''keep-alive'', ''upgrade'', ''te'',
     ''trailer'', ''content-transfer-encoding'', ODATA_BATCH_DEPTH_HEADER]"

definition buildHeadersForRequest :: "'w batch_host \<Rightarrow> sub_request \<Rightarrow> (string \<times> string) list" where
  "buildHeadersForRequest h r =
     (let inherited = fold (\<lambda>(k, vs) m. if lower k = ODATA_BATCH_DEPTH_HEADER then m else obj_set (lower k) (join '','' vs) m) (parent_headers h) [];
          allowed = resolveAllowedSubRequestHeaders h;
          merged = fold (\<lambda>(k, v) m.
            if lower k = ''host'' \<or> lower k = ODATA_BATCH_DEPTH_HEADER \<or> lower k \<notin> set allowed then m else obj_set (lower k) v m)
            (header_list (sub_headers r)) inherited;
          kept = filter (\<lambda>(k, v). k \<notin> set forbidden_headers) merged
      in case correlation h of
          None \<Rightarrow> kept
        | Some (name, v) \<Rightarrow> if v = [] then kept else obj_set (lower name) v kept)"

definition shouldDefaultJsonContentType :: "sub_request \<Rightarrow> bool" where
  "shouldDefaultJsonContentType r \<longleftrightarrow>
     raw_body r = None \<and> (case sub_body r of JUndefined \<Rightarrow> False | JStr s \<Rightarrow> False | v \<Rightarrow> True)"

definition build_call :: "'w batch_host \<Rightarrow> atomic_context option \<Rightarrow> sub_request \<Rightarrow> string \<Rightarrow> sub_call" where
  "build_call h ctx r url =
     (let content = resolveRequestBodyBuffer h r; d = parent_depth h + 1;
          hs = obj_set ODATA_BATCH_DEPTH_HEADER (show_nat d) (buildHeadersForRequest h r);
          hs1 = (if content \<noteq> [] \<and> shouldDefaultJsonContentType r \<and> header_missing ''content-type'' hs
            then obj_set ''content-type'' ''application/json'' hs else hs);
          hs2 = (if content \<noteq> [] then obj_set ''content-length'' (show_nat (length content)) hs1 else hs1)
      in \<lparr>call_method = upper (sub_method r),
          call_url = rewriteODataUrl \<lparr>rw_namespace = site_namespace (batch_site h), rw_alias = site_alias (batch_site h), operationNames = []\<rparr> url,
          call_original = url, call_headers = hs2, call_body = content, call_depth = d,
          call_group = map_option (\<lambda>c. (ctx_group c, ctx_sets c)) ctx\<rparr>)"

subsection \<open>Its response\<close>

text \<open>The chunks together, \<open>None\<close> when they exceed the limit.\<close>

fun capture :: "int \<Rightarrow> nat \<Rightarrow> string list \<Rightarrow> string option" where
  "capture limit used [] = Some []"
| "capture limit used (c # cs) =
     (if 0 < limit \<and> limit < int (used + length c) then None else map_option (\<lambda>s. c @ s) (capture limit (used + length c) cs))"

definition response_headers :: "(string \<times> header_value) list \<Rightarrow> (string \<times> string) list" where
  "response_headers hs = concat (map (\<lambda>(k, v). case v of Text s \<Rightarrow> [(k, s)] | Texts vs \<Rightarrow> [(k, join '','' vs)] | Amount n \<Rightarrow> []) hs)"

definition normalizeContentType :: "string option \<Rightarrow> string option" where
  "normalizeContentType v =
     (if some_text v = [] then None
      else (let t = lower (trim (hd (split_on CHR '';'' (the v)))) in if t = [] then None else Some t))"

definition isJsonContentType :: "string option \<Rightarrow> bool" where
  "isJsonContentType v =
     (case normalizeContentType v of None \<Rightarrow> False | Some t \<Rightarrow> t = ''application/json'' \<or> ends_with t ''+json'')"

definition TEXT_LIKE_MIME_TYPES :: "string list" where
  "TEXT_LIKE_MIME_TYPES = [''application/xml'', ''application/xhtml+xml'', ''application/javascript'', ''application/ecmascript'',
     ''application/x-www-form-urlencoded'']"

definition isTextContentType :: "string option \<Rightarrow> bool" where
  "isTextContentType v =
     (case normalizeContentType v of
        None \<Rightarrow> False
      | Some t \<Rightarrow> starts_with t ''text/'' \<or> ends_with t ''+xml'' \<or> t \<in> set TEXT_LIKE_MIME_TYPES)"

definition decodeBufferedBody :: "'w batch_host \<Rightarrow> string \<Rightarrow> (string \<times> string) list \<Rightarrow> entry_content" where
  "decodeBufferedBody h content hs =
     (let kind = getHeaderCaseInsensitive (Some hs) ''content-type''
      in if content = [] then Plain JUndefined
         else if isJsonContentType kind then Plain (case read_json h content of Some v \<Rightarrow> v | None \<Rightarrow> JStr content)
         else if isTextContentType kind then Plain (JStr content)
         else Bytes content)"

definition DEFAULT_SUBREQUEST_TIMEOUT_MS :: int where
  "DEFAULT_SUBREQUEST_TIMEOUT_MS = 30000"

definition has_timeout :: "'w batch_host \<Rightarrow> bool" where
  "has_timeout h \<longleftrightarrow> 0 < (case timeout_ms h of None \<Rightarrow> DEFAULT_SUBREQUEST_TIMEOUT_MS | Some n \<Rightarrow> n)"

definition response_limit :: "'w batch_host \<Rightarrow> int" where
  "response_limit h = (case maxResponseBodyBytes (getBatchLimits (batch_config h)) of None \<Rightarrow> 0 | Some n \<Rightarrow> n)"

text \<open>Too much written is 413 however the response ends; no end is 504, or no answer at all when there is no timeout.\<close>

definition response_of :: "'w batch_host \<Rightarrow> sub_request \<Rightarrow> handled \<Rightarrow> batch_entry stop" where
  "response_of h r d =
     (case capture (response_limit h) 0 (written d) of
        None \<Rightarrow> Returned (failed_entry (sub_id r) 413 ''ResponseTooLarge''
          (''Batch sub-response exceeded the configured size limit of '' @ show_nat (nat (response_limit h)) @ '' bytes.''))
      | Some content \<Rightarrow>
          (case ending d of
             Ended status hs \<Rightarrow> Returned \<lparr>entry_id = sub_id r, entry_group = None, entry_status = status,
               entry_headers = Some (response_headers hs), entry_body = decodeBufferedBody h content (response_headers hs)\<rparr>
           | Broken status message \<Rightarrow> Returned (failed_entry (sub_id r) (case status of None \<Rightarrow> 500 | Some n \<Rightarrow> n) ''BatchExecutionError'' message)
           | Silent \<Rightarrow>
               if has_timeout h then Returned (failed_entry (sub_id r) 504 ''BatchSubRequestTimeout'' ''Batch sub-request timeout'')
               else Hanging))"

definition executeWithHandler :: "'w batch_host \<Rightarrow> atomic_context option \<Rightarrow> sub_request \<Rightarrow> ('w, batch_entry) run" where
  "executeWithHandler h ctx r =
     (let url = some_text (sanitizeUrl (batch_site h) (sub_url r) True)
      in if url = [] then ret (failed_entry (sub_id r) 400 ''InvalidUrl'' (''Invalid request URL: '' @ sub_url r))
         else if sub_method r = [] then ret (failed_entry (sub_id r) 400 ''InvalidMethod'' ''Batch request method is required.'')
         else seq (lift (enforceBatchDepthLimit (parent_depth h + 1) (getBatchLimits (batch_config h)))) (\<lambda>u st.
           let (d, w) = handle h (build_call h ctx r url) (contents st) in (response_of h r d, st\<lparr>contents := w\<rparr>)))"

definition isRedirectStatus :: "int \<Rightarrow> bool" where
  "isRedirectStatus n \<longleftrightarrow> n \<in> {301, 302, 303, 307, 308}"

text \<open>Where a response sends a request: only reads follow, and only inside the service.\<close>

definition redirect_target :: "'w batch_host \<Rightarrow> sub_request \<Rightarrow> batch_entry \<Rightarrow> string option" where
  "redirect_target h r e =
     (if \<not> isRedirectStatus (entry_status e) \<or> upper (sub_method r) \<notin> {''GET'', ''HEAD''} then None
      else (let location = some_text (getHeaderCaseInsensitive (entry_headers e) ''location'')
            in if location = [] then None
               else (case resolveRedirectPath (batch_site h) location of None \<Rightarrow> None | Some p \<Rightarrow> if p = [] then None else Some p)))"

fun follow_redirects :: "'w batch_host \<Rightarrow> atomic_context option \<Rightarrow> nat \<Rightarrow> sub_request \<Rightarrow> ('w, batch_entry) run" where
  "follow_redirects h ctx remaining r =
     seq (executeWithHandler h ctx r) (\<lambda>e.
       case redirect_target h r e of
         None \<Rightarrow> ret e
       | Some path \<Rightarrow>
           (case remaining of
              0 \<Rightarrow> ret (failed_entry (sub_id r) 400 ''TooManyRedirects'' ''Batch sub-request exceeded redirect limits.'')
            | Suc n \<Rightarrow> follow_redirects h ctx n (r\<lparr>sub_url := path\<rparr>)))"

definition executeWithRedirects :: "'w batch_host \<Rightarrow> atomic_context option \<Rightarrow> sub_request \<Rightarrow> ('w, batch_entry) run" where
  "executeWithRedirects h ctx r = follow_redirects h ctx 3 r"

section \<open>Requests in order\<close>

definition failed_dependency :: "sub_request \<Rightarrow> string \<Rightarrow> batch_entry" where
  "failed_dependency r message = failed_entry (sub_id r) 424 ''FailedDependency'' message"

fun first_unmet :: "(string \<times> batch_entry) list \<Rightarrow> string list \<Rightarrow> string option" where
  "first_unmet results [] = None"
| "first_unmet results (d # ds) =
     (case map_of results d of
        None \<Rightarrow> Some (''Request depends on '' @ d @ '', which did not execute.'')
      | Some e \<Rightarrow> if 400 \<le> entry_status e then Some (''Request depends on '' @ d @ '', which failed.'') else first_unmet results ds)"

definition evaluateDependsOn :: "(string \<times> batch_entry) list \<Rightarrow> sub_request \<Rightarrow> batch_entry option" where
  "evaluateDependsOn results r =
     map_option (failed_dependency r) (first_unmet results (case depends_on r of None \<Rightarrow> [] | Some ds \<Rightarrow> ds))"

definition track :: "'w batch_host \<Rightarrow> batch_entry \<Rightarrow> ('w, unit) run" where
  "track h e st =
     (case trackResponseSize (texts h) (size_so_far st) e of
        (Inl err, t) \<Rightarrow> (Raised err, st\<lparr>size_so_far := t\<rparr>)
      | (Inr u, t) \<Rightarrow> (Returned (), st\<lparr>size_so_far := t\<rparr>))"

text \<open>A response is counted and kept for the requests that depend on it.\<close>

definition note_entry :: "'w batch_host \<Rightarrow> sub_request \<Rightarrow> batch_entry \<Rightarrow> ('w, unit) run" where
  "note_entry h r e =
     seq (track h e) (\<lambda>u st.
       (Returned (), if some_text (sub_id r) = [] then st else st\<lparr>dep_results := obj_set (the (sub_id r)) e (dep_results st)\<rparr>))"

definition execute_one :: "'w batch_host \<Rightarrow> atomic_context option \<Rightarrow> nat \<Rightarrow> sub_request \<Rightarrow> ('w, batch_entry) run" where
  "execute_one h ctx n r st =
     (case assertContentIdAvailability (fst (content_maps st)) r of
        Inl e \<Rightarrow> (Raised e, st)
      | Inr u \<Rightarrow>
          (case evaluateDependsOn (dep_results st) r of
             Some failure \<Rightarrow> seq (note_entry h r failure) (\<lambda>u. ret failure) st
           | None \<Rightarrow>
               seq (lift (applyContentIdReferences (fst (content_maps st)) r)) (\<lambda>referenced.
                 let prepared = ensureEtagPreconditions (batch_site h) (snd (content_maps st)) referenced
                 in seq (executeWithRedirects h ctx prepared) (\<lambda>e.
                    seq (note_entry h r e) (\<lambda>u st1.
                      case recordContentIdResult (plain_host (texts h)) (batch_site h) r prepared e (Some n) (content_maps st1) of
                        Inl err \<Rightarrow> (Raised err, st1)
                      | Inr maps \<Rightarrow> (Returned e, st1\<lparr>content_maps := maps\<rparr>)))) st))"

fun executeGroup :: "'w batch_host \<Rightarrow> atomic_context option \<Rightarrow> bool \<Rightarrow> (nat \<times> sub_request) list \<Rightarrow> ('w, batch_entry list) run" where
  "executeGroup h ctx abort [] = ret []"
| "executeGroup h ctx abort ((n, r) # rs) =
     seq (execute_one h ctx n r) (\<lambda>e.
       if 400 \<le> entry_status e \<and> abort then ret [e]
       else seq (executeGroup h ctx abort rs) (\<lambda>es. ret (e # es)))"

text \<open>One answer for each of the requests.\<close>

fun fail_each :: "'w batch_host \<Rightarrow> int \<Rightarrow> string \<Rightarrow> string \<Rightarrow> sub_request list \<Rightarrow> ('w, batch_entry list) run" where
  "fail_each h status code_text message [] = ret []"
| "fail_each h status code_text message (r # rs) =
     (let e = failed_entry (sub_id r) status code_text message
      in seq (note_entry h r e) (\<lambda>u. seq (fail_each h status code_text message rs) (\<lambda>es. ret (e # es))))"

section \<open>A group\<close>

text \<open>\<open>context?.rollback()\<close> and \<open>context?.commit()\<close>\<close>

definition on_context ::
  "(atomic_context \<Rightarrow> 'w \<Rightarrow> unit result \<times> atomic_context \<times> 'w) \<Rightarrow> atomic_context option \<Rightarrow> ('w, unit result \<times> atomic_context option) run" where
  "on_context f ctx st =
     (case ctx of
        None \<Rightarrow> (Returned (Inr (), None), st)
      | Some c \<Rightarrow> (let (r, c1, w) = f c (contents st) in (Returned (r, Some c1), st\<lparr>contents := w\<rparr>)))"

text \<open>\<open>catch (error) { await context?.rollback(); throw error; }\<close>\<close>

definition rollback_and_throw :: "'w batch_host \<Rightarrow> atomic_context option \<Rightarrow> odata_error \<Rightarrow> ('w, 'a) run" where
  "rollback_and_throw h ctx e =
     seq (on_context (rollback h) ctx) (\<lambda>(r, ctx1). raise (case r of Inl e1 \<Rightarrow> e1 | Inr u \<Rightarrow> e))"

definition abandon_group :: "'w batch_host \<Rightarrow> atomic_context option \<Rightarrow> sub_request list \<Rightarrow> batch_entry list \<Rightarrow> ('w, batch_entry list) run" where
  "abandon_group h ctx rs es st =
     seq (on_context (rollback h) ctx) (\<lambda>(r, ctx1) st1.
       case r of
         Inl e \<Rightarrow> rollback_and_throw h ctx1 e st1
       | Inr u \<Rightarrow>
           (case fail_each h 424 ''FailedDependency'' ''Request not executed due to prior failure in changeset.'' (drop (length es) rs) st1 of
              (Returned others, st2) \<Rightarrow> (Returned (es @ others), st2)
            | (Raised e, st2) \<Rightarrow> rollback_and_throw h ctx1 e st2
            | (Hanging, st2) \<Rightarrow> (Hanging, st2))) st"

text \<open>What the group adds to the references of the batch: nothing that is there already.\<close>

definition merge_maps :: "content_ids \<Rightarrow> content_ids \<Rightarrow> content_ids" where
  "merge_maps shared own = fold (\<lambda>(k, v) m. if map_of m k = None then obj_set k v m else m) own shared"

definition finish_group :: "'w batch_host \<Rightarrow> atomic_context option \<Rightarrow> content_ids \<times> content_ids \<Rightarrow> batch_entry list \<Rightarrow> ('w, batch_entry list) run" where
  "finish_group h ctx own es =
     seq (on_context (commit h) ctx) (\<lambda>(r, ctx1) st.
       case r of
         Inl e \<Rightarrow> rollback_and_throw h ctx1 e st
       | Inr u \<Rightarrow> (Returned es, st\<lparr>content_maps := (merge_maps (fst (content_maps st)) (fst own), merge_maps (snd (content_maps st)) (snd own))\<rparr>))"

text \<open>The group works on copies of the references.\<close>

definition run_group :: "'w batch_host \<Rightarrow> atomic_context option \<Rightarrow> (nat \<times> sub_request) list \<Rightarrow> ('w, batch_entry list) run" where
  "run_group h ctx members st =
     (let (out, st1) = executeGroup h ctx True members st; st2 = st1\<lparr>content_maps := content_maps st\<rparr>
      in case out of
          Raised e \<Rightarrow> rollback_and_throw h ctx e st2
        | Hanging \<Rightarrow> (Hanging, st2)
        | Returned es \<Rightarrow>
            if list_ex (\<lambda>e. 400 \<le> entry_status e) es then abandon_group h ctx (map snd members) es st2
            else finish_group h ctx (content_maps st1) es st2)"

definition executeAtomicGroup :: "'w batch_host \<Rightarrow> string \<Rightarrow> (nat \<times> sub_request) list \<Rightarrow> sub_request list \<Rightarrow> ('w, batch_entry list) run" where
  "executeAtomicGroup h g members rs =
     seq (lift (ensureAtomicityGroupContainsOnlyWrites g (map snd members))) (\<lambda>u st.
       case createAtomicGroupContext h g members rs st of
         (Returned ctx, st1) \<Rightarrow> run_group h ctx members st1
       | (Hanging, st1) \<Rightarrow> (Hanging, st1)
       | (Raised e, st1) \<Rightarrow>
           (case describeAtomicityGroupRejection e of
              None \<Rightarrow> (Raised e, st1)
            | Some (c, m) \<Rightarrow> fail_each h 501 c m (map snd members) st1))"

section \<open>The batch\<close>

definition isBatchValidationError :: "odata_error \<Rightarrow> bool" where
  "isBatchValidationError e \<longleftrightarrow> (case error_status e of None \<Rightarrow> False | Some n \<Rightarrow> 400 \<le> n \<and> n < 500)"

definition resolveErrorStatus :: "odata_error \<Rightarrow> nat \<Rightarrow> nat" where
  "resolveErrorStatus e fallback = (case error_status e of None \<Rightarrow> fallback | Some n \<Rightarrow> n)"

definition members_of :: "sub_request list \<Rightarrow> string \<Rightarrow> (nat \<times> sub_request) list" where
  "members_of rs g = filter (\<lambda>(n, r). group_of r = g) (enumerate 0 rs)"

text \<open>The answers of a group; an error that is not the client's becomes an answer for each request.\<close>

definition group_answers :: "'w batch_host \<Rightarrow> sub_request list \<Rightarrow> string \<Rightarrow> ('w, batch_entry list) run" where
  "group_answers h rs g st =
     (case executeAtomicGroup h g (members_of rs g) rs st of
        (Returned es, st1) \<Rightarrow> (Returned (map (\<lambda>e. e\<lparr>entry_group := Some g\<rparr>) es), st1)
      | (Hanging, st1) \<Rightarrow> (Hanging, st1)
      | (Raised e, st1) \<Rightarrow>
          if isBatchValidationError e then (Raised e, st1)
          else (Returned (map (\<lambda>(n, r). (failed_entry (sub_id r) (int (resolveErrorStatus e 500)) ''BatchExecutionError'' (error_text h e))\<lparr>entry_group := Some g\<rparr>)
                  (members_of rs g)), st1))"

text \<open>\<open>pending\<close> holds the answers of the groups that were executed and not yet given out.\<close>

fun run_requests :: "'w batch_host \<Rightarrow> sub_request list \<Rightarrow> (string \<times> batch_entry list) list \<Rightarrow> (nat \<times> sub_request) list \<Rightarrow> ('w, batch_entry list) run" where
  "run_requests h rs pending [] = ret []"
| "run_requests h rs pending ((n, r) # rest) =
     (let g = group_of r
      in if g = []
         then seq (executeGroup h None False [(n, r)]) (\<lambda>es. seq (run_requests h rs pending rest) (\<lambda>others. ret (es @ others)))
         else seq (case map_of pending g of Some es \<Rightarrow> ret es | None \<Rightarrow> group_answers h rs g) (\<lambda>es.
           seq (run_requests h rs (obj_set g (tl es) pending) rest) (\<lambda>others. ret (take 1 es @ others))))"

definition finish_tracking :: "('w, unit) run" where
  "finish_tracking st =
     (let (r, t) = finalizeResponseSizeTracker (size_so_far st)
      in (case r of Inl e \<Rightarrow> Raised e | Inr u \<Rightarrow> Returned (), st\<lparr>size_so_far := t\<rparr>))"

definition new_state :: "bool \<Rightarrow> batch_limits \<Rightarrow> 'w run_state \<Rightarrow> 'w run_state" where
  "new_state multipart l st =
     st\<lparr>dep_results := [], content_maps := ([], []),
       size_so_far := createResponseSizeTracker multipart (case maxResponsePayloadBytes l of None \<Rightarrow> 0 | Some n \<Rightarrow> n)\<rparr>"

definition answer_requests :: "'w batch_host \<Rightarrow> bool \<Rightarrow> sub_request list \<Rightarrow> ('w, batch_entry list) run" where
  "answer_requests h multipart rs =
     seq (lift (validateContiguousAtomicityGroups rs)) (\<lambda>u.
     seq (lift (enforceChangesetLimit (collectAtomicityGroups rs) (getBatchLimits (batch_config h)))) (\<lambda>u st.
       seq (run_requests h rs [] (enumerate 0 rs)) (\<lambda>es. seq finish_tracking (\<lambda>u. ret es))
         (new_state multipart (getBatchLimits (batch_config h)) st)))"

subsection \<open>Reading the requests\<close>

text \<open>The fields the schema of the request body lets through.\<close>

definition text_field :: "js_value \<Rightarrow> string \<Rightarrow> string option" where
  "text_field v k = (case get_prop v k of JStr s \<Rightarrow> Some s | _ \<Rightarrow> None)"

definition request_of_json :: "js_value \<Rightarrow> raw_identifiers \<times> sub_request" where
  "request_of_json v =
     (\<lparr>raw_id = get_prop v ''id'', raw_group = get_prop v ''atomicityGroup'', raw_depends = get_prop v ''dependsOn''\<rparr>,
      \<lparr>sub_id = None, sub_group = None, sub_method = some_text (text_field v ''method''), sub_url = some_text (text_field v ''url''),
       sub_headers = (case get_prop v ''headers'' of
         JObj ps \<Rightarrow> Some (concat (map (\<lambda>(k, u). case u of JStr s \<Rightarrow> [(k, s)] | _ \<Rightarrow> []) ps)) | _ \<Rightarrow> None),
       sub_body = get_prop v ''body'', raw_body = (case text_field v ''rawBody'' of Some s \<Rightarrow> if s = [] then None else Some s | None \<Rightarrow> None),
       depends_on = None\<rparr>)"

definition optional_text :: "string option \<Rightarrow> js_value" where
  "optional_text s = (case s of None \<Rightarrow> JUndefined | Some t \<Rightarrow> JStr t)"

definition request_of_part :: "js_value batch_request \<Rightarrow> raw_identifiers \<times> sub_request" where
  "request_of_part p =
     (\<lparr>raw_id = optional_text (req_id p), raw_group = optional_text (atomicityGroup p), raw_depends = JUndefined\<rparr>,
      \<lparr>sub_id = None, sub_group = None, sub_method = req_method p, sub_url = req_url p, sub_headers = Some (req_headers p),
       sub_body = (case req_body p of NoBody \<Rightarrow> JUndefined | JsonBody v \<Rightarrow> v | TextBody s \<Rightarrow> JStr s),
       raw_body = req_rawBody p, depends_on = None\<rparr>)"

definition with_identifiers :: "identifiers \<Rightarrow> string list option \<Rightarrow> sub_request \<Rightarrow> sub_request" where
  "with_identifiers names deps r = r\<lparr>sub_id := fst names, sub_group := fst (snd names), depends_on := deps\<rparr>"

definition no_requests :: string where
  "no_requests = ''Batch payload must contain at least one request.''"

definition read_json_requests :: "'w batch_host \<Rightarrow> js_value \<Rightarrow> sub_request list result" where
  "read_json_requests h payload =
     (let l = getBatchLimits (batch_config h)
      in case get_prop payload ''requests'' of
          JArr vs \<Rightarrow>
            if vs = [] then refuse_batch no_requests
            else rbind (enforceOperationLimit (length vs) l) (\<lambda>u.
              rbind (enforceJsonPayloadSize h payload l) (\<lambda>u.
              rbind (sanitizeBatchRequestIdentifiers (map (fst \<circ> request_of_json) vs)) (\<lambda>names.
              rbind (validateJsonDependsOn names) (\<lambda>deps.
                let rs = map2 (\<lambda>(i, d) v. with_identifiers i d (snd (request_of_json v))) (zip names deps) vs
                in rbind (enforceJsonPartBodySize h rs l) (\<lambda>u. Inr rs)))))
        | _ \<Rightarrow> refuse_batch no_requests)"

text \<open>\<open>/boundary=([^;]+)/i\<close>, trimmed and without a quote at either end.\<close>

fun boundary_value :: "string \<Rightarrow> string option" where
  "boundary_value [] = None"
| "boundary_value (c # cs) =
     (let v = takeWhile (\<lambda>x. x \<noteq> CHR '';'') (drop 9 (c # cs))
      in if starts_with (lower (c # cs)) ''boundary='' \<and> v \<noteq> [] then Some v else boundary_value cs)"

definition strip_quote_ends :: "string \<Rightarrow> string" where
  "strip_quote_ends s =
     (let t = (if starts_with s [dquote] then tl s else s) in if ends_with t [dquote] then butlast t else t)"

definition extractBatchBoundary :: "string \<Rightarrow> string option" where
  "extractBatchBoundary content_type = map_option (\<lambda>v. strip_quote_ends (trim v)) (boundary_value content_type)"

definition read_multipart_requests :: "'w batch_host \<Rightarrow> string \<Rightarrow> bytes list \<Rightarrow> sub_request list result" where
  "read_multipart_requests h content_type chunks =
     (let l = getBatchLimits (batch_config h)
      in case extractBatchBoundary content_type of
          None \<Rightarrow> refuse_batch ''Multipart batch request must specify a boundary.''
        | Some b \<Rightarrow>
            if b = [] then refuse_batch ''Multipart batch request must specify a boundary.''
            else rbind (parseMultipartBatch (read_json h) (MultipartParser.limits.truncate l) b chunks) (\<lambda>parts.
              if parts = [] then refuse_batch no_requests
              else rbind (enforceOperationLimit (length parts) l) (\<lambda>u.
                rbind (sanitizeBatchRequestIdentifiers (map (fst \<circ> request_of_part) parts)) (\<lambda>names.
                  Inr (map2 (\<lambda>i p. with_identifiers i None (snd (request_of_part p))) names parts)))))"

text \<open>A request as it comes: its type, its declared length, and its body as JSON or as a stream.\<close>

record batch_input =
  content_type :: string
  content_length :: "string option"
  json_body :: js_value
  stream :: "bytes list"

definition is_multipart :: "batch_input \<Rightarrow> bool" where
  "is_multipart b \<longleftrightarrow> contains_str (lower (content_type b)) ''multipart/mixed''"

definition handleBatch :: "'w batch_host \<Rightarrow> batch_input \<Rightarrow> ('w, batch_entry list) run" where
  "handleBatch h b =
     (let l = getBatchLimits (batch_config h)
      in seq (lift (enforceDeclaredSizeLimit (content_length b) l)) (\<lambda>u.
         seq (lift (enforceBatchDepthLimit (parent_depth h) l)) (\<lambda>u.
         seq (lift (if is_multipart b then read_multipart_requests h (content_type b) (stream b) else read_json_requests h (json_body b))) (\<lambda>rs.
           answer_requests h (is_multipart b) rs))))"

text \<open>The text that is sent.\<close>

definition batch_text :: "'w batch_host \<Rightarrow> string \<Rightarrow> (string \<Rightarrow> string) \<Rightarrow> bool \<Rightarrow> batch_entry list \<Rightarrow> string" where
  "batch_text h outer inner multipart es =
     (if multipart then serializeMultipartBatch (texts h) outer inner es else json_payload (texts h) es)"

end
