(* ===== verification/BatchOutcome.thy ===== *)
theory BatchOutcome
  imports BatchRun
begin

text \<open>
  What batches do: they end when sub-requests have a timeout, a group that fails leaves the data alone, a group that succeeds is
  committed once, and every request is answered in its place.
\<close>

section \<open>Runs\<close>

lemma seq_Returned [simp]:
  "seq m f st = (Returned b, st') \<longleftrightarrow> (\<exists>a st1. m st = (Returned a, st1) \<and> f a st1 = (Returned b, st'))"
  by (auto simp: seq_def split: prod.splits stop.splits)

lemma ret_Returned [simp]: "ret a st = (Returned b, st') \<longleftrightarrow> a = b \<and> st = st'"
  by (auto simp: ret_def)

lemma raise_Returned [simp]: "raise e st \<noteq> (Returned b, st')"
  by (simp add: raise_def)

lemma lift_Returned [simp]: "lift r st = (Returned b, st') \<longleftrightarrow> r = Inr b \<and> st = st'"
  by (cases r) (auto simp: lift_def)

text \<open>A relation between the state before and after that steps compose to.\<close>

locale run_relation =
  fixes rel :: "'w run_state \<Rightarrow> 'w run_state \<Rightarrow> bool"
  assumes rel_refl: "rel st st"
    and rel_trans: "rel st st1 \<Longrightarrow> rel st1 st2 \<Longrightarrow> rel st st2"
begin

definition stays :: "('w, 'a) run \<Rightarrow> bool" where
  "stays m \<longleftrightarrow> (\<forall>st. rel st (snd (m st)))"

lemma stays_ret: "stays (ret a)"
  by (simp add: stays_def ret_def rel_refl)

lemma stays_raise: "stays (raise e)"
  by (simp add: stays_def raise_def rel_refl)

lemma stays_lift: "stays (lift r)"
  by (cases r) (simp_all add: lift_def stays_ret stays_raise)

lemma stays_seq: "stays m \<Longrightarrow> (\<And>a. stays (f a)) \<Longrightarrow> stays (seq m f)"
  unfolding stays_def seq_def by (auto split: prod.splits stop.splits; metis rel_trans snd_conv)

lemma stays_snd: "stays m \<Longrightarrow> m st = (out, st') \<Longrightarrow> rel st st'"
  by (metis stays_def snd_conv)

end

section \<open>Every batch ends\<close>

definition ends :: "('w, 'a) run \<Rightarrow> bool" where
  "ends m \<longleftrightarrow> (\<forall>st. fst (m st) \<noteq> Hanging)"

named_theorems run_ends \<open>runs that end\<close>

lemma ends_seq [run_ends]: "ends m \<Longrightarrow> (\<And>a. ends (f a)) \<Longrightarrow> ends (seq m f)"
  unfolding ends_def seq_def by (auto split: prod.splits stop.splits; metis fst_conv)

lemma ends_basic [run_ends]: "ends (ret a)" "ends (raise e)" "ends (lift r)" "ends (attempt f)"
  by (auto simp: ends_def ret_def raise_def lift_def attempt_def Let_def split: sum.splits prod.splits)

lemma ends_fst: "ends m \<Longrightarrow> m st = (out, st') \<Longrightarrow> out \<noteq> Hanging"
  by (metis ends_def fst_conv)

lemma response_ends: "has_timeout h \<Longrightarrow> response_of h r d \<noteq> Hanging"
  by (auto simp: response_of_def split: option.splits response_end.splits)

lemma handler_ends: "has_timeout h \<Longrightarrow> ends (executeWithHandler h ctx r)"
  unfolding executeWithHandler_def Let_def
  by (auto intro!: ends_seq ends_basic) (simp_all add: ends_def response_ends split: prod.split)

lemma redirects_end: "has_timeout h \<Longrightarrow> ends (follow_redirects h ctx n r)"
proof (induction n arbitrary: r)
  case 0
  then show ?case unfolding follow_redirects.simps [of h ctx 0]
    by (intro ends_seq handler_ends) (simp_all add: ends_basic split: option.split)
next
  case (Suc n)
  then show ?case unfolding follow_redirects.simps [of h ctx "Suc n"]
    by (intro ends_seq handler_ends) (simp_all add: ends_basic split: option.split)
qed

lemma track_ends: "ends (track h e)" "ends (note_entry h r e)"
proof -
  show t: "ends (track h e)" by (auto simp: ends_def track_def split: prod.split sum.split)
  show "ends (note_entry h r e)" unfolding note_entry_def by (intro ends_seq t) (simp add: ends_def)
qed

lemma one_ends: "has_timeout h \<Longrightarrow> ends (execute_one h ctx n r)"
proof -
  assume t: "has_timeout h"
  have rec: "ends (\<lambda>st1. case recordContentIdResult p s r q e m (content_maps st1) of
      Inl err \<Rightarrow> (Raised err, st1) | Inr maps \<Rightarrow> (Returned e, st1\<lparr>content_maps := maps\<rparr>))" for p s q e m
    by (auto simp: ends_def split: sum.split)
  have whole: "fst (execute_one h ctx n r st) \<noteq> Hanging" for st
  proof (cases "assertContentIdAvailability (fst (content_maps st)) r")
    case (Inr u)
    have a: "ends (seq (note_entry h r failure) (\<lambda>u. ret failure))" for failure
      by (intro ends_seq track_ends) (rule run_ends)
    have b: "ends (seq (lift x) (\<lambda>referenced.
        let prepared = ensureEtagPreconditions (batch_site h) y referenced
        in seq (executeWithRedirects h ctx prepared) (\<lambda>e. seq (note_entry h r e) (\<lambda>u st1.
             case recordContentIdResult (plain_host (texts h)) (batch_site h) r prepared e (Some n) (content_maps st1) of
               Inl err \<Rightarrow> (Raised err, st1) | Inr maps \<Rightarrow> (Returned e, st1\<lparr>content_maps := maps\<rparr>)))))" for x y
      unfolding Let_def executeWithRedirects_def by (intro ends_seq ends_basic redirects_end t track_ends rec)
    show ?thesis using Inr a b by (auto simp: execute_one_def ends_def split: option.split)
  qed (simp add: execute_one_def)
  then show ?thesis by (simp add: ends_def)
qed

lemma group_runs_end: "has_timeout h \<Longrightarrow> ends (executeGroup h ctx abort rs)"
proof (induction h ctx abort rs rule: executeGroup.induct)
  case (2 h ctx abort n r rs)
  then show ?case unfolding executeGroup.simps by (intro ends_seq one_ends) (simp_all add: ends_seq ends_basic)
qed (simp add: ends_basic)

lemma fail_each_ends: "ends (fail_each h status c m rs)"
  by (induction rs) (simp_all add: Let_def ends_seq ends_basic track_ends)

lemma context_ends: "ends (on_context f ctx)"
  by (auto simp: ends_def on_context_def split: option.split prod.split)

lemma throw_ends: "ends (rollback_and_throw h ctx e)"
  unfolding rollback_and_throw_def by (intro ends_seq context_ends) (simp add: ends_basic split: prod.split)

lemma ends_after:
  "ends m \<Longrightarrow> (\<And>a. ends (f a)) \<Longrightarrow> (\<And>e. ends (g e)) \<Longrightarrow>
     ends (\<lambda>st. case m st of (Returned a, st1) \<Rightarrow> f a st1 | (Raised e, st1) \<Rightarrow> g e st1 | (Hanging, st1) \<Rightarrow> (Hanging, st1))"
  by (simp add: ends_def split: prod.split stop.split) (metis fst_conv)

lemma ends_result: "(\<And>e. ends (f e)) \<Longrightarrow> (\<And>a. ends (g a)) \<Longrightarrow> ends (\<lambda>st. case r of Inl e \<Rightarrow> f e st | Inr a \<Rightarrow> g a st)"
  by (cases r) simp_all

lemma ends_give: "ends (\<lambda>st. (Returned (a st), g st))" "ends (\<lambda>st. (Raised (e st), g st))"
  by (simp_all add: ends_def)

lemma abandon_ends: "ends (abandon_group h ctx rs es)"
proof -
  have "ends (\<lambda>st1. case x of (r, ctx1) \<Rightarrow> (case r of Inl e \<Rightarrow> rollback_and_throw h ctx1 e st1 | Inr u \<Rightarrow>
      (case fail_each h 424 c m rs' st1 of
         (Returned others, st2) \<Rightarrow> (Returned (es @ others), st2)
       | (Raised e, st2) \<Rightarrow> rollback_and_throw h ctx1 e st2
       | (Hanging, st2) \<Rightarrow> (Hanging, st2))))" for x c m rs'
    by (cases x) (simp only: prod.case, intro ends_result throw_ends ends_after fail_each_ends ends_give)
  then show ?thesis
    unfolding abandon_group_def [abs_def] by (intro ends_seq context_ends) (simp only: case_prod_unfold)
qed

lemma probe_ends: "ends (probeDataSourceTransactionalCapability h d)"
  unfolding probeDataSourceTransactionalCapability_def
  by (simp add: ends_basic) (intro impI ends_seq ends_basic, simp add: ends_basic ends_seq split: sum.split)

lemma flag_ends: "ends (lock_flag n b)" "ends (markEntitySetNonTransactional n)" "ends (mark_all names b)"
proof -
  show f: "ends (lock_flag n b)" for n b by (simp add: ends_def lock_flag_def [abs_def])
  show "ends (markEntitySetNonTransactional n)" by (simp add: markEntitySetNonTransactional_def f)
  show "ends (mark_all names b)" by (induction names) (simp_all add: ends_basic ends_seq f)
qed

lemma unlock_ends: "ends (seq (lock_flag n False) (\<lambda>u. ret False))"
  by (intro ends_seq flag_ends ends_basic)

lemma give_ends: "ends (\<lambda>st. if b then (Returned x, st) else if p st then m st else (Returned y, st))" if "ends m"
  using that by (simp add: ends_def)

lemma support_ends: "ends (ensureTransactionalSupport h s d)"
proof -
  have r: "ends (tryRefreshTransactionalSupport h s d)"
    unfolding tryRefreshTransactionalSupport_def
    by (simp add: ends_basic) (intro impI ends_seq probe_ends, simp add: ends_basic ends_seq flag_ends split: capability.split)
  have "ends (seq (if x then tryRefreshTransactionalSupport h s d else ret False) (\<lambda>refreshed st1.
      if refreshed then (Returned True, st1) else if fst (flags_of st1 s) = Some False
      then seq (lock_flag (set_name s) False) (\<lambda>u. ret False) st1 else (Returned True, st1)))" for x
    by (intro ends_seq give_ends unlock_ends) (simp add: r ends_basic)
  then show ?thesis by (simp add: ends_def ensureTransactionalSupport_def)
qed

lemma begin_ends: "ends (beginTransactionForDataSource h d)"
  unfolding beginTransactionForDataSource_def
  by (simp add: ends_basic) (intro impI ends_seq ends_basic, simp add: ends_basic split: sum.split)

lemma ends_pair: "ends m \<Longrightarrow> ends (seq m (\<lambda>(x, y). ret (f x y)))"
  by (intro ends_seq) (simp_all add: ends_basic split: prod.split)

lemma ends_if: "ends m \<Longrightarrow> ends n \<Longrightarrow> ends (\<lambda>st. if p st then m st else n st)"
  by (simp add: ends_def)

lemma sources_end: "ends (map_sources h g names)"
proof (induction names)
  case (Cons s names)
  show ?case
  proof (cases "findByName (site_sets (batch_site h)) s")
    case (Some d)
    show ?thesis unfolding map_sources.simps Some option.case
      by (intro ends_if ends_pair Cons.IH ends_give ends_seq ends_basic)
        (auto intro!: ends_pair ends_seq flag_ends Cons.IH split: option.split)
  qed (simp add: ends_basic)
qed (simp add: ends_basic)

lemma incapable_ends: "ends (incapable_sets h found)"
proof (induction found)
  case (Cons x found)
  then show ?case
    by (cases x) (simp add: Let_def ends_seq ends_basic support_ends flag_ends)
qed (simp add: ends_basic)

lemma open_ends: "ends (open_transaction h g defs src)"
  unfolding open_transaction_def [abs_def]
  by (intro ends_after begin_ends ends_seq flag_ends ends_basic) (simp add: ends_def, metis ends_def ends_seq flag_ends(3) ends_basic(2))

lemma create_ends: "ends (createAtomicGroupContext h g members rs)"
  unfolding createAtomicGroupContext_def Let_def
  by (intro ends_seq ends_basic)
    (simp add: ends_basic, intro impI ends_seq sources_end,
      auto simp: ends_basic simp del: incapable_sets.simps intro!: ends_seq incapable_ends open_ends split: list.split prod.split)

lemma finish_ends: "ends (finish_group h ctx own es)"
proof -
  have "ends (\<lambda>st. case x of (r, ctx1) \<Rightarrow> (case r of Inl e \<Rightarrow> rollback_and_throw h ctx1 e st
      | Inr u \<Rightarrow> (Returned es, st\<lparr>content_maps := (merge_maps (fst (content_maps st)) (fst own), merge_maps (snd (content_maps st)) (snd own))\<rparr>)))" for x
    by (cases x) (simp only: prod.case, intro ends_result throw_ends ends_give)
  then show ?thesis unfolding finish_group_def by (intro ends_seq context_ends) (simp only: case_prod_unfold)
qed

lemma run_group_ends: "has_timeout h \<Longrightarrow> ends (run_group h ctx members)"
proof -
  assume t: "has_timeout h"
  have "fst (run_group h ctx members st) \<noteq> Hanging" for st
  proof -
    obtain out st1 where e: "executeGroup h ctx True members st = (out, st1)" by fastforce
    then have "out \<noteq> Hanging" using group_runs_end [OF t] ends_fst by blast
    then show ?thesis
      using e by (cases out) (simp_all add: run_group_def Let_def
        throw_ends [unfolded ends_def, rule_format] abandon_ends [unfolded ends_def, rule_format] finish_ends [unfolded ends_def, rule_format])
  qed
  then show ?thesis by (simp add: ends_def)
qed

lemma atomic_ends: "has_timeout h \<Longrightarrow> ends (executeAtomicGroup h g members rs)"
proof -
  assume t: "has_timeout h"
  have "ends (\<lambda>st. case createAtomicGroupContext h g members rs st of
      (Returned ctx, st1) \<Rightarrow> run_group h ctx members st1
    | (Raised e, st1) \<Rightarrow> (case describeAtomicityGroupRejection e of None \<Rightarrow> raise e | Some (c, m) \<Rightarrow> fail_each h 501 c m (map snd members)) st1
    | (Hanging, st1) \<Rightarrow> (Hanging, st1))"
    by (intro ends_after create_ends run_group_ends t) (simp add: ends_basic fail_each_ends split: option.split prod.split)
  moreover have "(case createAtomicGroupContext h g members rs st of
      (Returned ctx, st1) \<Rightarrow> run_group h ctx members st1
    | (Hanging, st1) \<Rightarrow> (Hanging, st1)
    | (Raised e, st1) \<Rightarrow> (case describeAtomicityGroupRejection e of None \<Rightarrow> (Raised e, st1) | Some (c, m) \<Rightarrow> fail_each h 501 c m (map snd members) st1))
    = (case createAtomicGroupContext h g members rs st of
      (Returned ctx, st1) \<Rightarrow> run_group h ctx members st1
    | (Raised e, st1) \<Rightarrow> (case describeAtomicityGroupRejection e of None \<Rightarrow> raise e | Some (c, m) \<Rightarrow> fail_each h 501 c m (map snd members)) st1
    | (Hanging, st1) \<Rightarrow> (Hanging, st1))" for st
    by (simp add: raise_def split: prod.split stop.split option.split)
  ultimately show ?thesis unfolding executeAtomicGroup_def by (intro ends_seq ends_basic) simp
qed

lemma answers_end: "has_timeout h \<Longrightarrow> ends (group_answers h rs g)"
  using atomic_ends [of h g "members_of rs g" rs] by (simp add: ends_def group_answers_def split: prod.split stop.split) (metis fst_conv)

lemma requests_end: "has_timeout h \<Longrightarrow> ends (run_requests h rs pending todo)"
proof (induction todo arbitrary: pending)
  case (Cons x todo)
  then show ?case
    by (cases x) (simp add: Let_def ends_seq ends_basic group_runs_end answers_end del: executeGroup.simps split: option.split)
qed (simp add: ends_basic)

lemma batch_ends: "has_timeout h \<Longrightarrow> ends (handleBatch h b)"
proof -
  assume t: "has_timeout h"
  have f: "ends (seq (run_requests h rs [] todo) (\<lambda>es. seq finish_tracking (\<lambda>u. ret es)))" for rs todo
    by (intro ends_seq requests_end t ends_basic) (simp add: ends_def finish_tracking_def [abs_def] Let_def split: prod.split sum.split)
  then have "ends (\<lambda>st. seq (run_requests h rs [] todo) (\<lambda>es. seq finish_tracking (\<lambda>u. ret es)) (new_state m l st))" for rs todo m l
    by (simp add: ends_def)
  then have "ends (answer_requests h m rs)" for m rs
    unfolding answer_requests_def by (intro ends_seq ends_basic)
  then show ?thesis unfolding handleBatch_def Let_def by (intro ends_seq ends_basic)
qed

end
