(* ===== verification/BatchAnswers.thy ===== *)
theory BatchAnswers
  imports BatchOutcome
begin

text \<open>
  The answers of a batch: one for each request in its place, and what those of a group that fails look like.
\<close>

section \<open>A sub-request\<close>

declare follow_redirects.simps [simp del]

text \<open>An answer is for the request it was made for and in no group yet.\<close>

definition answers :: "sub_request \<Rightarrow> batch_entry \<Rightarrow> bool" where
  "answers r e \<longleftrightarrow> entry_id e = sub_id r \<and> entry_group e = None"

lemma failed_answers: "answers r (failed_entry (sub_id r) n c m)"
  by (simp add: answers_def failed_entry_def)

lemma response_answers: "response_of h r d = Returned e \<Longrightarrow> answers r e"
  by (auto simp: response_of_def answers_def failed_entry_def split: option.splits response_end.splits if_splits)

lemma handler_answers: "executeWithHandler h ctx r st = (Returned e, st') \<Longrightarrow> answers r e"
  by (auto simp: executeWithHandler_def Let_def failed_answers response_answers split: if_splits prod.splits)

lemma redirects_answer: "follow_redirects h ctx n r st = (Returned e, st') \<Longrightarrow> answers r e"
proof (induction n arbitrary: r st)
  case 0
  then show ?case unfolding follow_redirects.simps [of h ctx 0]
    by (auto simp: failed_answers dest: handler_answers split: option.splits)
next
  case (Suc n)
  show ?case
  proof -
    from Suc.prems obtain e1 st1 where 1: "executeWithHandler h ctx r st = (Returned e1, st1)"
      and 2: "(case redirect_target h r e1 of None \<Rightarrow> ret e1
        | Some path \<Rightarrow> follow_redirects h ctx n (r\<lparr>sub_url := path\<rparr>)) st1 = (Returned e, st')"
      unfolding follow_redirects.simps [of h ctx "Suc n"] nat.case seq_Returned by blast
    show ?thesis
    proof (cases "redirect_target h r e1")
      case None
      with 1 2 show ?thesis by (auto dest: handler_answers)
    next
      case (Some path)
      with 2 have "follow_redirects h ctx n (r\<lparr>sub_url := path\<rparr>) st1 = (Returned e, st')" by simp
      then have "answers (r\<lparr>sub_url := path\<rparr>) e" by (rule Suc.IH)
      then show ?thesis by (simp add: answers_def)
    qed
  qed
qed

lemma referenced_id: "applyContentIdReferences ids r = Inr r1 \<Longrightarrow> sub_id r1 = sub_id r"
  by (auto simp: applyContentIdReferences_def)

lemma prepared_id: "sub_id (ensureEtagPreconditions w etags r) = sub_id r"
  by (simp add: ensureEtagPreconditions_def Let_def split: option.split)

lemma result_Returned [simp]:
  "(case r of Inl e \<Rightarrow> (Raised (f e), s e) | Inr a \<Rightarrow> (Returned (g a), t a)) = (Returned b, st') \<longleftrightarrow> (\<exists>a. r = Inr a \<and> g a = b \<and> t a = st')"
  by (cases r) auto

lemma one_answers:
  assumes "execute_one h ctx n r st = (Returned e, st')"
  shows "answers r e"
proof (cases "evaluateDependsOn (dep_results st) r")
  case (Some failure)
  then have "answers r failure" by (auto simp: evaluateDependsOn_def failed_dependency_def failed_answers)
  with Some assms show ?thesis by (auto simp: execute_one_def split: sum.splits)
next
  case None
  with assms obtain r1 st1 st2 where r1: "applyContentIdReferences (fst (content_maps st)) r = Inr r1"
    and e: "executeWithRedirects h ctx (ensureEtagPreconditions (batch_site h) (snd (content_maps st)) r1) st1 = (Returned e, st2)"
    by (auto simp: execute_one_def Let_def split: sum.splits)
  have "answers (ensureEtagPreconditions (batch_site h) (snd (content_maps st)) r1) e"
    using redirects_answer e unfolding executeWithRedirects_def .
  then show ?thesis using referenced_id [OF r1] by (simp add: answers_def prepared_id)
qed

section \<open>A group\<close>

text \<open>Entries that answer the first requests of a list.\<close>

definition answer_first :: "(nat \<times> sub_request) list \<Rightarrow> batch_entry list \<Rightarrow> bool" where
  "answer_first rs es \<longleftrightarrow> list_all2 (\<lambda>(n, r) e. answers r e) (take (length es) rs) es"

definition succeeds :: "batch_entry \<Rightarrow> bool" where
  "succeeds e \<longleftrightarrow> entry_status e < 400"

lemma group_answers_first:
  "executeGroup h ctx abort rs st = (Returned es, st') \<Longrightarrow> answer_first rs es
     \<and> (abort \<and> (\<exists>pre e. es = pre @ [e] \<and> list_all succeeds pre \<and> \<not> succeeds e) \<or> length es = length rs \<and> (abort \<longrightarrow> list_all succeeds es))"
proof (induction rs arbitrary: st es)
  case (Cons x rs)
  obtain n r where x: "x = (n, r)" by (cases x)
  from Cons.prems obtain e st1 where one: "execute_one h ctx n r st = (Returned e, st1)"
    and rest: "(if 400 \<le> entry_status e \<and> abort then ret [e] else seq (executeGroup h ctx abort rs) (\<lambda>es. ret (e # es))) st1 = (Returned es, st')"
    by (auto simp: x)
  note a = one_answers [OF one]
  show ?case
  proof (cases "400 \<le> entry_status e \<and> abort")
    case True
    with rest a show ?thesis by (auto simp: answer_first_def x succeeds_def)
  next
    case False
    with rest obtain es1 where es: "es = e # es1" and g: "executeGroup h ctx abort rs st1 = (Returned es1, st')" by auto
    note IH = Cons.IH [OF g]
    have first: "answer_first (x # rs) es" using IH a by (simp add: answer_first_def x es)
    from IH show ?thesis
    proof (elim conjE disjE exE)
      fix pre e1
      assume abort and es1: "es1 = pre @ [e1]" "list_all succeeds pre" "\<not> succeeds e1"
      then have "es = (e # pre) @ [e1] \<and> list_all succeeds (e # pre) \<and> \<not> succeeds e1"
        using False by (simp add: es succeeds_def)
      with first \<open>abort\<close> show ?thesis by blast
    next
      assume "length es1 = length rs" "abort \<longrightarrow> list_all succeeds es1"
      moreover have "succeeds e" if abort using False that by (simp add: succeeds_def)
      ultimately show ?thesis using first by (simp add: es)
    qed
  qed
qed (simp add: answer_first_def)

lemma fail_each_answers:
  "fail_each h n c m rs st = (Returned es, st') \<Longrightarrow> es = map (\<lambda>r. failed_entry (sub_id r) n c m) rs"
  by (induction rs arbitrary: st es) (auto simp: Let_def)

lemma throw_returns: "rollback_and_throw h ctx e st \<noteq> (Returned x, st')"
  by (auto simp: rollback_and_throw_def split: prod.splits)

lemma throw_or_return [simp]:
  "(case r of Inl e \<Rightarrow> rollback_and_throw h ctx e st | Inr u \<Rightarrow> (Returned a, s u)) = (Returned b, st') \<longleftrightarrow> (\<exists>u. r = Inr u \<and> a = b \<and> s u = st')"
  by (cases r) (auto simp: throw_returns)

lemma abandon_answers:
  "abandon_group h ctx rs es st = (Returned out, st') \<Longrightarrow>
     out = es @ map (\<lambda>r. failed_entry (sub_id r) 424 ''FailedDependency'' ''Request not executed due to prior failure in changeset.'') (drop (length es) rs)"
proof -
  assume "abandon_group h ctx rs es st = (Returned out, st')"
  moreover from this obtain r ctx1 st1 where "on_context (rollback h) ctx st = (Returned (r, ctx1), st1)"
    by (auto simp: abandon_group_def)
  ultimately show ?thesis
    by (cases r) (auto simp: abandon_group_def throw_returns dest: fail_each_answers split: prod.splits stop.splits)
qed

lemma finish_answers: "finish_group h ctx own es st = (Returned out, st') \<Longrightarrow> out = es"
  by (auto simp: finish_group_def case_prod_unfold)

lemma first_ids: "answer_first rs es \<Longrightarrow> map entry_id es = map (sub_id \<circ> snd) (take (length es) rs) \<and> list_all (\<lambda>e. entry_group e = None) es"
proof -
  have "list_all2 (\<lambda>(n, r) e. answers r e) xs es \<Longrightarrow> map entry_id es = map (sub_id \<circ> snd) xs \<and> list_all (\<lambda>e. entry_group e = None) es"
    for xs :: "(nat \<times> sub_request) list"
    by (induction xs es rule: list_all2_induct) (auto simp: answers_def)
  then show "answer_first rs es \<Longrightarrow> ?thesis" unfolding answer_first_def .
qed

text \<open>Every request of a group has its answer; when one fails, the earlier answers stay as they were.\<close>

definition group_shape :: "(nat \<times> sub_request) list \<Rightarrow> batch_entry list \<Rightarrow> bool" where
  "group_shape members es \<longleftrightarrow>
     map entry_id es = map (sub_id \<circ> snd) members
     \<and> (list_all succeeds es
        \<or> (\<exists>pre e rest. es = pre @ e # rest \<and> list_all succeeds pre \<and> \<not> succeeds e \<and> list_all (\<lambda>x. entry_status x \<in> {424, 501}) rest))"

lemma shape_ids: "group_shape members es \<Longrightarrow> map entry_id es = map (sub_id \<circ> snd) members"
  by (simp add: group_shape_def)

lemma run_group_shape: "run_group h ctx members st = (Returned es, st') \<Longrightarrow> group_shape members es"
proof -
  assume run: "run_group h ctx members st = (Returned es, st')"
  obtain out st1 where g: "executeGroup h ctx True members st = (out, st1)" by fastforce
  note run1 = run [unfolded run_group_def g prod.case Let_def]
  then obtain es1 where out: "out = Returned es1" by (cases out) (simp_all add: throw_returns)
  note first = group_answers_first [OF g [unfolded out]]
  have len: "length es1 \<le> length members" using first by (auto simp: answer_first_def dest!: list_all2_lengthD)
  show ?thesis
  proof (cases "list_ex (\<lambda>e. 400 \<le> entry_status e) es1")
    case True
    with run1 out have es: "es = es1 @ map (\<lambda>r. failed_entry (sub_id r) 424 ''FailedDependency'' ''Request not executed due to prior failure in changeset.'')
        (drop (length es1) (map snd members))"
      by (simp add: abandon_answers)
    from True have "\<not> list_all succeeds es1" by (auto simp: list_ex_iff list_all_iff succeeds_def not_less intro: bexI)
    with first obtain pre e where pe: "es1 = pre @ [e]" "list_all succeeds pre" "\<not> succeeds e" by auto
    have "map entry_id es = map (sub_id \<circ> snd) members"
    proof -
      have "map entry_id es = map (sub_id \<circ> snd) (take (length es1) members) @ map (sub_id \<circ> snd) (drop (length es1) members)"
        using first_ids first unfolding es by (simp add: failed_entry_def comp_def drop_map)
      also have "\<dots> = map (sub_id \<circ> snd) (take (length es1) members @ drop (length es1) members)" by (simp only: map_append)
      finally show ?thesis by (simp only: append_take_drop_id)
    qed
    moreover have "\<exists>rest. es = pre @ e # rest \<and> list_all (\<lambda>x. entry_status x \<in> {424, 501}) rest"
      unfolding es pe(1) by (auto simp: list_all_iff failed_entry_def)
    ultimately show ?thesis using pe(2,3) unfolding group_shape_def by blast
  next
    case False
    with run1 out have es: "es = es1" by (simp add: finish_answers)
    from False have "list_all succeeds es1" by (auto simp: list_ex_iff list_all_iff succeeds_def)
    with first have "length es1 = length members" by auto
    with first_ids first \<open>list_all succeeds es1\<close> show ?thesis by (simp add: group_shape_def es)
  qed
qed

lemma atomic_shape: "executeAtomicGroup h g members rs st = (Returned es, st') \<Longrightarrow> group_shape members es"
proof -
  assume run: "executeAtomicGroup h g members rs st = (Returned es, st')"
  have "group_shape members (map (\<lambda>r. failed_entry (sub_id r) 501 c m) (map snd members))" for c m
  proof (cases members)
    case (Cons x xs)
    then show ?thesis unfolding group_shape_def
      by (intro conjI disjI2 exI [of _ "[]"]) (auto simp: failed_entry_def succeeds_def list_all_iff)
  qed (simp add: group_shape_def)
  with run show ?thesis
    by (auto simp: executeAtomicGroup_def dest: run_group_shape fail_each_answers split: prod.splits stop.splits option.splits)
qed

section \<open>The batch\<close>

definition in_group :: "string \<Rightarrow> (nat \<times> sub_request) list \<Rightarrow> (nat \<times> sub_request) list" where
  "in_group g xs = filter (\<lambda>(n, r). group_of r = g) xs"

lemma answers_of_group:
  "group_answers h rs g st = (Returned es, st') \<Longrightarrow>
     map entry_id es = map (sub_id \<circ> snd) (members_of rs g) \<and> list_all (\<lambda>e. entry_group e = Some g) es"
  by (auto simp: group_answers_def list_all_iff failed_entry_def comp_def dest!: atomic_shape [THEN shape_ids] split: prod.splits stop.splits if_splits)

text \<open>What is pending answers the requests of the group that are still to come.\<close>

definition pending_ok :: "sub_request list \<Rightarrow> (string \<times> batch_entry list) list \<Rightarrow> (nat \<times> sub_request) list \<Rightarrow> bool" where
  "pending_ok rs pending todo \<longleftrightarrow>
     (\<forall>g. g \<noteq> [] \<longrightarrow> (case map_of pending g of
         None \<Rightarrow> in_group g todo = members_of rs g
       | Some es \<Rightarrow> map entry_id es = map (sub_id \<circ> snd) (in_group g todo) \<and> list_all (\<lambda>e. entry_group e = Some g) es))"

lemma pending_cong: "(\<And>g. g \<noteq> [] \<Longrightarrow> in_group g xs = in_group g ys) \<Longrightarrow> pending_ok rs pending xs = pending_ok rs pending ys"
  unfolding pending_ok_def by (intro arg_cong [where f=All] ext imp_cong refl) (simp split: option.split)

definition expected :: "(nat \<times> sub_request) list \<Rightarrow> (string option \<times> string option) list" where
  "expected todo = map (\<lambda>(n, r). (sub_id r, if group_of r = [] then None else Some (group_of r))) todo"

lemma every_request_answered:
  "run_requests h rs pending todo st = (Returned es, st') \<Longrightarrow> pending_ok rs pending todo \<Longrightarrow>
     map (\<lambda>e. (entry_id e, entry_group e)) es = expected todo"
proof (induction todo arbitrary: pending st es)
  case (Cons x todo)
  obtain n r where x: "x = (n, r)" by (cases x)
  let ?g = "group_of r"
  show ?case
  proof (cases "?g = []")
    case True
    with Cons.prems(1) obtain e es1 st1 where one: "executeGroup h None False [(n, r)] st = (Returned e, st1)"
      and rest: "run_requests h rs pending todo st1 = (Returned es1, st')" and es: "es = e @ es1"
      by (auto simp: x Let_def simp del: executeGroup.simps)
    have "answer_first [(n, r)] e \<and> length e = 1" using group_answers_first [OF one] by auto
    then obtain e1 where e1: "e = [e1]" "answers r e1" by (auto simp: answer_first_def length_Suc_conv)
    have "in_group g (x # todo) = in_group g todo" if "g \<noteq> []" for g using that True by (simp add: in_group_def x)
    then have "pending_ok rs pending todo" using Cons.prems(2) pending_cong by blast
    from Cons.IH [OF rest this] e1 True show ?thesis by (simp add: es expected_def x answers_def)
  next
    case False
    with Cons.prems(1) obtain here st1 es1 where
      here: "(case map_of pending ?g of Some es \<Rightarrow> ret es | None \<Rightarrow> group_answers h rs ?g) st = (Returned here, st1)"
      and rest: "run_requests h rs (obj_set ?g (tl here) pending) todo st1 = (Returned es1, st')" and es: "es = take 1 here @ es1"
      by (auto simp: x Let_def)
    have own: "in_group ?g ((n, r) # todo) = (n, r) # in_group ?g todo" by (simp add: in_group_def)
    have here_ok: "map entry_id here = sub_id r # map (sub_id \<circ> snd) (in_group ?g todo) \<and> list_all (\<lambda>e. entry_group e = Some ?g) here"
    proof (cases "map_of pending ?g")
      case None
      with Cons.prems(2) False have "members_of rs ?g = (n, r) # in_group ?g todo" by (auto simp: pending_ok_def x own)
      with answers_of_group here None show ?thesis by fastforce
    next
      case (Some old)
      with Cons.prems(2) False here show ?thesis by (auto simp: pending_ok_def x own)
    qed
    then obtain e1 es2 where e: "here = e1 # es2" by (cases here) auto
    have "pending_ok rs (obj_set ?g (tl here) pending) todo"
      unfolding pending_ok_def
    proof (intro allI impI)
      fix g :: string assume g: "g \<noteq> []"
      show "case map_of (obj_set ?g (tl here) pending) g of
          None \<Rightarrow> in_group g todo = members_of rs g
        | Some es \<Rightarrow> map entry_id es = map (sub_id \<circ> snd) (in_group g todo) \<and> list_all (\<lambda>e. entry_group e = Some g) es"
      proof (cases "g = ?g")
        case True
        with here_ok e show ?thesis by auto
      next
        case False
        then have "in_group g (x # todo) = in_group g todo" by (simp add: in_group_def x)
        with Cons.prems(2) [unfolded pending_ok_def, rule_format, OF g] False show ?thesis by (cases "map_of pending g") simp_all
      qed
    qed
    from Cons.IH [OF rest this] here_ok e False show ?thesis by (simp add: es expected_def x)
  qed
qed (simp add: expected_def)

lemma batch_answers:
  assumes "answer_requests h m rs st = (Returned es, st')"
  shows "map entry_id es = map sub_id rs \<and> map entry_group es = map (\<lambda>r. if group_of r = [] then None else Some (group_of r)) rs"
proof -
  from assms obtain st1 st2 where "run_requests h rs [] (enumerate 0 rs) st1 = (Returned es, st2)"
    by (auto simp: answer_requests_def)
  moreover have "pending_ok rs [] (enumerate 0 rs)" by (simp add: pending_ok_def in_group_def members_of_def)
  ultimately have e: "map (\<lambda>e. (entry_id e, entry_group e)) es = expected (enumerate 0 rs)" by (rule every_request_answered)
  have "expected (enumerate 0 rs) = map (\<lambda>r. (sub_id r, if group_of r = [] then None else Some (group_of r))) rs"
    by (simp add: expected_def case_prod_unfold flip: map_map [where f="\<lambda>r. (sub_id r, if group_of r = [] then None else Some (group_of r))" and g=snd, unfolded comp_def])
  with e have "map fst (map (\<lambda>e. (entry_id e, entry_group e)) es) = map fst (map (\<lambda>r. (sub_id r, if group_of r = [] then None else Some (group_of r))) rs)"
    and "map snd (map (\<lambda>e. (entry_id e, entry_group e)) es) = map snd (map (\<lambda>r. (sub_id r, if group_of r = [] then None else Some (group_of r))) rs)"
    by simp_all
  then show ?thesis by (simp add: comp_def)
qed

end
