(* ===== verification/BatchSafety.thy ===== *)
theory BatchSafety
  imports BatchAnswers
begin

text \<open>
  What groups do to the data: with transactions that hide what is not committed, a group that does not succeed leaves the visible
  data alone, and one that succeeds is committed once.
\<close>

section \<open>Transactions\<close>

text \<open>
  What the code relies on: \<open>visible\<close> is what others see of the contents. Opening and rolling back a transaction, a request handled
  with a transaction, and a commit that fails do not change it.
\<close>

definition transactional :: "'w batch_host \<Rightarrow> ('w \<Rightarrow> 'v) \<Rightarrow> bool" where
  "transactional h visible \<longleftrightarrow>
     (\<forall>i w. visible (snd (begin_tx h i w)) = visible w)
     \<and> (\<forall>tx w. visible (snd (rollback_tx h tx w)) = visible w)
     \<and> (\<forall>call w. call_group call \<noteq> None \<longrightarrow> visible (snd (handle h call w)) = visible w)
     \<and> (\<forall>tx w. \<not> is_ok (fst (commit_tx h tx w)) \<longrightarrow> visible (snd (commit_tx h tx w)) = visible w)"

lemma transactional_facts:
  assumes "transactional h visible"
  shows "visible (snd (begin_tx h i w)) = visible w" "visible (snd (rollback_tx h tx w)) = visible w"
    "call_group call \<noteq> None \<Longrightarrow> visible (snd (handle h call w)) = visible w"
    "commit_tx h tx w = (Inl e, w') \<Longrightarrow> visible w' = visible w"
  using assms unfolding transactional_def by (auto; metis fst_conv snd_conv is_ok.simps(1))+

section \<open>What stays the same\<close>

interpretation seen: run_relation "\<lambda>st st'. visible (contents st') = visible (contents st)" for visible
  by unfold_locales auto

abbreviation unseen :: "('w \<Rightarrow> 'v) \<Rightarrow> ('w, 'a) run \<Rightarrow> bool" where
  "unseen visible \<equiv> run_relation.stays (\<lambda>st st'. visible (contents st') = visible (contents st))"

lemmas unseen_def = seen.stays_def
lemmas unseen_steps = seen.stays_seq seen.stays_ret seen.stays_raise seen.stays_lift

lemma unseen_attempt: "(\<And>w. visible (snd (f w)) = visible w) \<Longrightarrow> unseen visible (attempt f)"
  by (simp add: unseen_def attempt_def case_prod_unfold Let_def)

lemma unseen_flag: "unseen visible (lock_flag n b)" "unseen visible (markEntitySetNonTransactional n)" "unseen visible (mark_all names b)"
proof -
  show f: "unseen visible (lock_flag n b)" for n b by (simp add: unseen_def lock_flag_def)
  show "unseen visible (markEntitySetNonTransactional n)" by (simp add: markEntitySetNonTransactional_def f)
  show "unseen visible (mark_all names b)" by (induction names) (simp_all add: unseen_steps f)
qed

lemma unseen_if: "unseen visible m \<Longrightarrow> unseen visible n \<Longrightarrow> unseen visible (\<lambda>st. if p st then m st else n st)"
  by (simp add: unseen_def)

lemma unseen_give: "(\<And>st. contents (g st) = contents st) \<Longrightarrow> unseen visible (\<lambda>st. (a st, g st))"
  by (simp add: unseen_def)

lemma unseen_pair: "unseen visible m \<Longrightarrow> unseen visible (seq m (\<lambda>(x, y). ret (f x y)))"
  by (intro seen.stays_seq) (simp_all add: seen.stays_ret split: prod.split)

lemma unseen_track: "unseen visible (track h e)" "unseen visible (note_entry h r e)"
proof -
  show t: "unseen visible (track h e)" by (simp add: unseen_def track_def split: prod.split sum.split)
  show "unseen visible (note_entry h r e)" unfolding note_entry_def by (intro seen.stays_seq t) (simp add: unseen_def)
qed

lemma unseen_fail_each: "unseen visible (fail_each h n c m rs)"
  by (induction rs) (simp_all add: Let_def unseen_steps unseen_track)

section \<open>Opening a group\<close>

lemma unseen_probe:
  assumes "transactional h visible" shows "unseen visible (probeDataSourceTransactionalCapability h d)"
  unfolding probeDataSourceTransactionalCapability_def
  by (auto intro!: unseen_steps unseen_attempt transactional_facts [OF assms] split: sum.split)

lemma unseen_support:
  assumes t: "transactional h visible" shows "unseen visible (ensureTransactionalSupport h s d)"
proof -
  have r: "unseen visible (tryRefreshTransactionalSupport h s d)"
    unfolding tryRefreshTransactionalSupport_def
    by (auto intro!: unseen_steps unseen_probe [OF t] unseen_flag split: capability.split)
  have u: "unseen visible (seq (lock_flag (set_name s) False) (\<lambda>u. ret False) :: ('a, bool) run)"
    by (intro seen.stays_seq unseen_flag seen.stays_ret)
  have "unseen visible (\<lambda>st1. if refreshed then (Returned True, st1) else if fst (flags_of st1 s) = Some False
      then seq (lock_flag (set_name s) False) (\<lambda>u. ret False) st1 else (Returned True, st1))" for refreshed
    using u by (simp add: unseen_def)
  then have "unseen visible (seq (if x then tryRefreshTransactionalSupport h s d else ret False) (\<lambda>refreshed st1.
      if refreshed then (Returned True, st1) else if fst (flags_of st1 s) = Some False
      then seq (lock_flag (set_name s) False) (\<lambda>u. ret False) st1 else (Returned True, st1)))" for x
    by (intro seen.stays_seq) (simp_all add: r seen.stays_ret)
  then show ?thesis by (simp add: unseen_def ensureTransactionalSupport_def)
qed

lemma unseen_begin:
  assumes "transactional h visible" shows "unseen visible (beginTransactionForDataSource h d)"
  unfolding beginTransactionForDataSource_def
  by (auto intro!: unseen_steps unseen_attempt transactional_facts [OF assms] split: sum.split)

lemma unseen_sources: "unseen visible (map_sources h g names)"
proof (induction names)
  case (Cons s names)
  show ?case
  proof (cases "findByName (site_sets (batch_site h)) s")
    case (Some d)
    show ?thesis unfolding map_sources.simps Some option.case
      by (intro unseen_if unseen_pair Cons.IH unseen_give seen.stays_seq seen.stays_lift refl)
        (auto intro!: unseen_pair unseen_steps unseen_flag Cons.IH split: option.split)
  qed (simp add: seen.stays_raise)
qed (simp add: seen.stays_ret)

lemma unseen_incapable:
  assumes t: "transactional h visible" shows "unseen visible (incapable_sets h found)"
proof (induction found)
  case (Cons x found)
  then show ?case by (cases x) (simp add: Let_def unseen_steps unseen_support [OF t] unseen_flag)
qed (simp add: seen.stays_ret)

lemma unseen_open:
  assumes t: "transactional h visible" shows "unseen visible (open_transaction h g defs src)"
  unfolding unseen_def
proof
  fix st :: "'a run_state"
  obtain r st1 where b: "beginTransactionForDataSource h src st = (r, st1)" by fastforce
  have 1: "visible (contents st1) = visible (contents st)" using seen.stays_snd [OF unseen_begin [OF t] b] .
  have m: "visible (contents (snd (seq (mark_all ns f) (\<lambda>u. x) st1))) = visible (contents st1)"
    if "unseen visible x" for ns f and x :: "('a, atomic_context option) run"
    using seen.stays_seq [OF unseen_flag(3) that] by (simp add: unseen_def)
  show "visible (contents (snd (open_transaction h g defs src st))) = visible (contents st)"
    using 1 m [OF seen.stays_ret] m [OF seen.stays_raise] by (cases r) (simp_all add: open_transaction_def b)
qed

lemma unseen_create:
  assumes t: "transactional h visible" shows "unseen visible (createAtomicGroupContext h g members rs)"
  unfolding createAtomicGroupContext_def Let_def
  by (auto simp del: incapable_sets.simps intro!: unseen_steps unseen_sources unseen_incapable [OF t] unseen_open [OF t] split: list.split)

section \<open>Requests in a group\<close>

lemma unseen_handler:
  assumes "transactional h visible" shows "unseen visible (executeWithHandler h (Some c) r)"
proof -
  have "visible (snd (handle h (build_call h (Some c) r url) w)) = visible w" for url w
    by (rule transactional_facts(3) [OF assms]) (simp add: build_call_def Let_def)
  then have "unseen visible (\<lambda>st. let (d, w) = handle h (build_call h (Some c) r url) (contents st) in (response_of h r d, st\<lparr>contents := w\<rparr>))" for url
    by (simp add: unseen_def case_prod_unfold Let_def)
  then show ?thesis unfolding executeWithHandler_def Let_def by (auto intro!: unseen_steps)
qed

lemma unseen_redirects:
  assumes t: "transactional h visible" shows "unseen visible (follow_redirects h (Some c) n r)"
proof (induction n arbitrary: r)
  case 0
  show ?case unfolding follow_redirects.simps [of h _ 0]
    by (intro seen.stays_seq unseen_handler [OF t]) (simp add: seen.stays_ret split: option.split)
next
  case (Suc n)
  then show ?case unfolding follow_redirects.simps [of h _ "Suc n"]
    by (intro seen.stays_seq unseen_handler [OF t]) (simp add: seen.stays_ret split: option.split)
qed

lemma unseen_one:
  assumes t: "transactional h visible" shows "unseen visible (execute_one h (Some c) n r)"
  unfolding unseen_def
proof
  fix st :: "'a run_state"
  have rec: "unseen visible (\<lambda>st1. case recordContentIdResult p s r q e m (content_maps st1) of
      Inl err \<Rightarrow> (Raised err, st1) | Inr maps \<Rightarrow> (Returned e, st1\<lparr>content_maps := maps\<rparr>))" for p s q e m
    by (simp add: unseen_def split: sum.split)
  have a: "unseen visible (seq (note_entry h r failure) (\<lambda>u. ret failure))" for failure
    by (intro seen.stays_seq unseen_track seen.stays_ret)
  have b: "unseen visible (seq (lift x) (\<lambda>referenced.
      let prepared = ensureEtagPreconditions (batch_site h) y referenced
      in seq (executeWithRedirects h (Some c) prepared) (\<lambda>e. seq (note_entry h r e) (\<lambda>u st1.
           case recordContentIdResult (plain_host (texts h)) (batch_site h) r prepared e (Some n) (content_maps st1) of
             Inl err \<Rightarrow> (Raised err, st1) | Inr maps \<Rightarrow> (Returned e, st1\<lparr>content_maps := maps\<rparr>)))))" for x y
    unfolding Let_def executeWithRedirects_def
    by (intro seen.stays_seq seen.stays_lift unseen_redirects [OF t] unseen_track rec)
  show "visible (contents (snd (execute_one h (Some c) n r st))) = visible (contents st)"
    using a b by (auto simp: execute_one_def unseen_def split: option.split sum.split)
qed

lemma unseen_group:
  assumes t: "transactional h visible" shows "unseen visible (executeGroup h (Some c) abort rs)"
proof (induction rs)
  case (Cons x rs)
  then show ?case
    by (cases x) (simp only: executeGroup.simps, intro seen.stays_seq unseen_one [OF t], simp add: unseen_steps)
qed (simp add: seen.stays_ret)

section \<open>The end of a group\<close>

lemma unseen_rollback_each: "transactional h visible \<Longrightarrow> visible (snd (rollback_each h txs w)) = visible w"
  by (induction txs arbitrary: w) (simp_all add: case_prod_unfold Let_def transactional_facts(2))

lemma unseen_safe: "transactional h visible \<Longrightarrow> visible (snd (snd (safeRollback h c w))) = visible w"
  by (simp add: safeRollback_def case_prod_unfold Let_def unseen_rollback_each)

lemma unseen_rollback: "transactional h visible \<Longrightarrow> visible (snd (snd (rollback h c w))) = visible w"
  by (simp add: rollback_def unseen_safe)

lemma unseen_context: "(\<And>c w. visible (snd (snd (f c w))) = visible w) \<Longrightarrow> unseen visible (on_context f ctx)"
  by (simp add: unseen_def on_context_def case_prod_unfold Let_def split: option.split)

lemma unseen_throw: "transactional h visible \<Longrightarrow> unseen visible (rollback_and_throw h ctx e)"
  unfolding rollback_and_throw_def
  by (intro seen.stays_seq unseen_context unseen_rollback) (simp_all add: seen.stays_raise split: prod.split)

lemma on_context_returns: "\<exists>r ctx1 st1. on_context f ctx st = (Returned (r, ctx1), st1)"
  by (cases ctx) (auto simp: on_context_def split: prod.split)

lemma unseen_abandon:
  assumes t: "transactional h visible" shows "unseen visible (abandon_group h ctx rs es)"
  unfolding unseen_def
proof
  fix st :: "'a run_state"
  have f: "visible (contents (snd (case fail_each h 424 c m rs' st1 of
      (Returned others, st2) \<Rightarrow> (Returned (es @ others), st2)
    | (Raised e, st2) \<Rightarrow> rollback_and_throw h ctx1 e st2
    | (Hanging, st2) \<Rightarrow> (Hanging, st2)))) = visible (contents st1)" for c m rs' st1 ctx1
  proof -
    obtain r st2 where e: "fail_each h 424 c m rs' st1 = (r, st2)" by fastforce
    then show ?thesis
      using seen.stays_snd [OF unseen_fail_each e, of visible] by (cases r) (simp_all add: unseen_throw [OF t, unfolded unseen_def, rule_format])
  qed
  obtain r ctx1 st1 where c: "on_context (rollback h) ctx st = (Returned (r, ctx1), st1)"
    using on_context_returns by blast
  have "visible (contents st1) = visible (contents st)"
    by (rule seen.stays_snd [OF unseen_context c]) (rule unseen_rollback [OF t])
  then show "visible (contents (snd (abandon_group h ctx rs es st))) = visible (contents st)"
    using f by (cases r) (simp_all add: abandon_group_def seq_def c unseen_throw [OF t, unfolded unseen_def, rule_format])
qed

section \<open>One transaction\<close>

lemma once_each_Nil [simp]: "once_each xs = [] \<longleftrightarrow> xs = []"
proof -
  have "fold (\<lambda>x ys. if x \<in> set ys then ys else ys @ [x]) xs ys \<noteq> []" if "ys \<noteq> []" for xs ys :: "'a list"
    using that by (induction xs arbitrary: ys) auto
  then show ?thesis by (cases xs) (simp_all add: once_each_def)
qed

lemma once_each_same: "xs \<noteq> [] \<Longrightarrow> \<forall>x\<in>set xs. x = a \<Longrightarrow> once_each xs = [a]"
proof -
  have "\<forall>x\<in>set xs. x = a \<Longrightarrow> fold (\<lambda>x ys. if x \<in> set ys then ys else ys @ [x]) xs [a] = [a]" for xs
    by (induction xs) auto
  then show "xs \<noteq> [] \<Longrightarrow> \<forall>x\<in>set xs. x = a \<Longrightarrow> once_each xs = [a]" by (cases xs) (auto simp: once_each_def)
qed

definition fresh_context :: "atomic_context \<Rightarrow> nat \<Rightarrow> bool" where
  "fresh_context c tx \<longleftrightarrow> transactions c = [tx] \<and> \<not> settled c \<and> \<not> rolledBack c"

lemma new_context_fresh: "sets \<noteq> [] \<Longrightarrow> \<forall>p\<in>set sets. snd p = tx \<Longrightarrow> fresh_context (new_context g sets) tx"
  by (simp add: fresh_context_def new_context_def once_each_same)

lemma opened_fresh: "defs \<noteq> [] \<Longrightarrow> \<exists>k. fresh_context (new_context g (map (\<lambda>d. (set_name d, tx)) defs)) k"
  by (rule exI [of _ tx], rule new_context_fresh) auto

lemma open_fresh:
  "open_transaction h g defs src st = (Returned ctx, st1) \<Longrightarrow> defs \<noteq> [] \<Longrightarrow> \<exists>c tx. ctx = Some c \<and> fresh_context c tx"
  by (auto simp: open_transaction_def opened_fresh split: prod.splits stop.splits if_splits)

lemma written_some:
  assumes "ensureAtomicityGroupContainsOnlyWrites g (map snd members) = Inr ()" "members \<noteq> []"
    "written_sets w g all rs members = Inr names"
  shows "names \<noteq> []"
proof (cases members)
  case (Cons x others)
  then have "upper (sub_method (snd x)) \<in> {''POST'', ''PUT'', ''PATCH'', ''DELETE''}"
    using assms(1) by (auto simp: ensureAtomicityGroupContainsOnlyWrites_def refuse_batch_def split: if_splits)
  then have "upper (sub_method (snd x)) \<notin> {''GET'', ''HEAD''}" by auto
  with Cons assms(3) show ?thesis by (cases x) (auto split: if_splits)
qed (use assms in simp)

lemma create_fresh:
  assumes "createAtomicGroupContext h g members rs st = (Returned ctx, st1)" "members \<noteq> []"
    "ensureAtomicityGroupContainsOnlyWrites g (map snd members) = Inr ()"
  shows "\<exists>c tx. ctx = Some c \<and> fresh_context c tx"
  using assms(1)
  by (auto simp: createAtomicGroupContext_def Let_def dest!: written_some [OF assms(3,2)] open_fresh split: if_splits list.splits prod.splits)

section \<open>All or nothing\<close>

lemma commit_fresh:
  "fresh_context c tx \<Longrightarrow> commit h c w = (case commit_tx h tx w of
     (Inr u, w1) \<Rightarrow> (Inr (), c\<lparr>settled := True\<rparr>, w1)
   | (Inl e, w1) \<Rightarrow> (let (r, c1, w2) = safeRollback h c w1 in (Inl e, c1, w2)))"
  by (auto simp: commit_def fresh_context_def split: prod.split sum.split)

definition all_or_nothing :: "'w batch_host \<Rightarrow> ('w \<Rightarrow> 'v) \<Rightarrow> 'w run_state \<Rightarrow> batch_entry list stop \<Rightarrow> 'w run_state \<Rightarrow> bool" where
  "all_or_nothing h visible st out st' \<longleftrightarrow>
     (\<exists>es tx w. out = Returned es \<and> list_all succeeds es \<and> visible w = visible (contents st) \<and> commit_tx h tx w = (Inr (), contents st'))
     \<or> (\<forall>es. out = Returned es \<longrightarrow> \<not> list_all succeeds es) \<and> visible (contents st') = visible (contents st)"

lemma finish_all_or_nothing:
  assumes t: "transactional h visible" and c: "fresh_context c tx" and es: "list_all succeeds es"
    and run: "finish_group h (Some c) own es st = (out, st')"
  shows "all_or_nothing h visible st out st'"
proof (cases "commit_tx h tx (contents st)")
  case (Pair r w1)
  show ?thesis
  proof (cases r)
    case (Inr u)
    with Pair run have "out = Returned es" "contents st' = w1"
      by (auto simp: finish_group_def seq_def on_context_def commit_fresh [OF c])
    with Pair Inr es show ?thesis unfolding all_or_nothing_def by (intro disjI1) auto
  next
    case (Inl e)
    obtain r2 c1 w2 where s: "safeRollback h c w1 = (r2, c1, w2)" by (metis prod_cases3)
    have w2: "visible w2 = visible (contents st)"
      using unseen_safe [OF t, of c w1] transactional_facts(4) [OF t] Pair Inl by (simp add: s)
    have "rollback_and_throw h (Some c1) e (st\<lparr>contents := w2\<rparr>) = (out, st')"
      using run Pair Inl s by (simp add: finish_group_def seq_def on_context_def commit_fresh [OF c])
    then have "visible (contents st') = visible (contents st)" "\<forall>es. out \<noteq> Returned es"
      using seen.stays_snd [OF unseen_throw [OF t]] w2 throw_returns by fastforce+
    then show ?thesis by (simp add: all_or_nothing_def)
  qed
qed

lemma run_all_or_nothing:
  assumes t: "transactional h visible" and c: "fresh_context c tx" and run: "run_group h (Some c) members st = (out, st')"
  shows "all_or_nothing h visible st out st'"
proof -
  obtain got st1 where g: "executeGroup h (Some c) True members st = (got, st1)" by fastforce
  have st1: "visible (contents st1) = visible (contents st)" by (rule seen.stays_snd [OF unseen_group [OF t] g])
  note run1 = run [unfolded run_group_def g prod.case Let_def]
  show ?thesis
  proof (cases got)
    case (Returned es)
    show ?thesis
    proof (cases "list_ex (\<lambda>e. 400 \<le> entry_status e) es")
      case True
      with run1 Returned have a: "abandon_group h (Some c) (map snd members) es (st1\<lparr>content_maps := content_maps st\<rparr>) = (out, st')" by simp
      have "visible (contents st') = visible (contents st)" using seen.stays_snd [OF unseen_abandon [OF t] a] st1 by simp
      moreover have "\<not> list_all succeeds es'" if "out = Returned es'" for es'
        using abandon_answers [OF a [unfolded that]] True by (auto simp: list_all_iff list_ex_iff succeeds_def not_less intro: bexI)
      ultimately show ?thesis by (simp add: all_or_nothing_def)
    next
      case False
      with run1 Returned have "finish_group h (Some c) (content_maps st1) es (st1\<lparr>content_maps := content_maps st\<rparr>) = (out, st')" by simp
      from finish_all_or_nothing [OF t c _ this] False st1 show ?thesis
        by (simp add: all_or_nothing_def list_all_iff list_ex_iff succeeds_def not_le)
    qed
  next
    case (Raised e)
    with run1 have r: "rollback_and_throw h (Some c) e (st1\<lparr>content_maps := content_maps st\<rparr>) = (out, st')" by simp
    have "visible (contents st') = visible (contents st)" using seen.stays_snd [OF unseen_throw [OF t] r] st1 by simp
    moreover have "\<forall>es. out \<noteq> Returned es" using r by (auto simp: throw_returns)
    ultimately show ?thesis by (simp add: all_or_nothing_def)
  next
    case Hanging
    with run1 st1 show ?thesis by (auto simp: all_or_nothing_def)
  qed
qed

lemma atomic_all_or_nothing:
  assumes t: "transactional h visible" and "members \<noteq> []" and run: "executeAtomicGroup h g members rs st = (out, st')"
  shows "all_or_nothing h visible st out st'"
proof (cases "ensureAtomicityGroupContainsOnlyWrites g (map snd members)")
  case (Inl e)
  with run show ?thesis by (auto simp: executeAtomicGroup_def seq_def lift_def raise_def all_or_nothing_def)
next
  case (Inr u)
  obtain got st1 where c: "createAtomicGroupContext h g members rs st = (got, st1)" by fastforce
  have st1: "visible (contents st1) = visible (contents st)" by (rule seen.stays_snd [OF unseen_create [OF t] c])
  have run1: "(case got of
      Returned ctx \<Rightarrow> run_group h ctx members st1
    | Hanging \<Rightarrow> (Hanging, st1)
    | Raised e \<Rightarrow> (case describeAtomicityGroupRejection e of None \<Rightarrow> (Raised e, st1) | Some (k, m) \<Rightarrow> fail_each h 501 k m (map snd members) st1)) = (out, st')"
    using run Inr by (cases got) (auto simp: executeAtomicGroup_def seq_def lift_def ret_def c)
  show ?thesis
  proof (cases got)
    case (Returned ctx)
    with create_fresh [OF _ assms(2)] c Inr obtain k tx where "ctx = Some k" "fresh_context k tx" by fastforce
    with run_all_or_nothing [OF t] run1 Returned st1 show ?thesis by (fastforce simp: all_or_nothing_def)
  next
    case Hanging
    with run1 st1 show ?thesis by (auto simp: all_or_nothing_def)
  next
    case (Raised e)
    show ?thesis
    proof (cases "describeAtomicityGroupRejection e")
      case None
      with run1 Raised st1 show ?thesis by (auto simp: all_or_nothing_def)
    next
      case (Some p)
      obtain k m where p: "p = (k, m)" by (cases p)
      with run1 Raised Some have f: "fail_each h 501 k m (map snd members) st1 = (out, st')" by simp
      have "\<not> list_all succeeds es" if "out = Returned es" for es
        using fail_each_answers [OF f [unfolded that]] assms(2) by (cases members) (auto simp: succeeds_def failed_entry_def)
      then show ?thesis using seen.stays_snd [OF unseen_fail_each f, of visible] st1 by (simp add: all_or_nothing_def)
    qed
  qed
qed

end
