(* ===== verification/BatchResults.thy ===== *)
theory BatchResults
  imports BatchSafety
begin

text \<open>
  The properties of batches and of the URLs of their requests. The components are those of \<open>PathRewriter\<close>, \<open>BatchUrls\<close>, \<open>BatchIds\<close>,
  \<open>BatchText\<close>, \<open>BatchHost\<close> and \<open>BatchRun\<close>; the lemmas on runs are in \<open>BatchOutcome\<close>, \<open>BatchAnswers\<close> and \<open>BatchSafety\<close>.
\<close>

section \<open>Samples\<close>

definition shop_texts :: text_host where
  "shop_texts = etag_host.extend (js_host.extend \<lparr>number_text = (\<lambda>x. show_int \<lfloor>x\<rfloor>), date_text = show_int, date_parse = (\<lambda>s. None)\<rparr>
     \<lparr>iso_text = show_int, json_text = (\<lambda>v. None), big_int = (\<lambda>s. None)\<rparr>)
     \<lparr>reason_phrase = (\<lambda>n. ''Status''), base64 = (\<lambda>s. s)\<rparr>"

definition shop_set :: set_def where
  "shop_set = \<lparr>set_name = ''P'', set_model = ''M'', exposed = True, singleton_name = None, set_operations = [],
     set_ids = [''id''], set_properties = [(''id'', None, True)], repository_key = Some ''r'',
     supports_transactions = None, capability_locked = None\<rparr>"

definition shop_site :: site where
  "shop_site = \<lparr>service_root = ''/o'', site_sets = [shop_set], site_namespace = ''D'', site_alias = [],
     parse_url = (\<lambda>s. None), server_origin = None, resolve_url = (\<lambda>s. None), site_relations = (\<lambda>m. [])\<rparr>"

text \<open>
  A server whose contents are the rows everyone sees and those of the open transaction. A write of a group goes to the
  transaction, DELETE finds nothing.
\<close>

type_synonym shop_contents = "nat \<times> nat"

definition shop_handler :: "sub_call \<Rightarrow> shop_contents \<Rightarrow> handled \<times> shop_contents" where
  "shop_handler call w =
     (if call_method call = ''DELETE'' then (\<lparr>written = [], ending = Ended 404 []\<rparr>, w)
      else if call_group call = None then (\<lparr>written = [], ending = Ended 201 []\<rparr>, (fst w + 1, snd w))
      else (\<lparr>written = [], ending = Ended 201 []\<rparr>, (fst w, snd w + 1)))"

definition shop_server :: "shop_contents batch_host" where
  "shop_server = \<lparr>texts = shop_texts, batch_site = shop_site,
     batch_config = \<lparr>maxPayloadBytes = Some 0, maxOperations = None, maxChangesetOperations = None, maxDepth = None, maxPartBodyBytes = None,
       maxResponseBodyBytes = None, maxResponsePayloadBytes = Some 0\<rparr>,
     timeout_ms = None, allowed_headers = [], parent_headers = [], parent_depth = 0, correlation = None, handle = shop_handler,
     begin_tx = (\<lambda>i w. (Inr 7, (fst w, 0))), commit_tx = (\<lambda>tx w. (Inr (), (fst w + snd w, 0))), rollback_tx = (\<lambda>tx w. (Inr (), (fst w, 0))),
     repository_source = (\<lambda>k. Inr (Some \<lparr>source_id = 1, source_name = Some ''db'', connector_begins = True, own_begin = False, can_begin = True\<rparr>)),
     read_json = (\<lambda>s. None), engine_message = (\<lambda>e. [])\<rparr>"

definition shop_state :: "shop_contents run_state" where
  "shop_state = \<lparr>contents = (5, 0), set_flags = [], dep_results = [], size_so_far = createResponseSizeTracker False 0, content_maps = ([], [])\<rparr>"

definition shop_request :: "string \<Rightarrow> string \<Rightarrow> string \<Rightarrow> sub_request" where
  "shop_request i g m = \<lparr>sub_id = Some i, sub_group = Some g, sub_method = m, sub_url = ''/o/P'', sub_headers = None,
     sub_body = JUndefined, raw_body = None, depends_on = None\<rparr>"


lemma shop_transactional: "transactional shop_server fst"
  by (simp add: transactional_def shop_server_def shop_handler_def)

section \<open>URLs of requests\<close>

text \<open>
  C22: A key that is a string becomes one segment of the path that decodes to the string, whatever characters it has; the
  path before it, what follows and the query stay as they are.
\<close>

theorem string_keys_become_segments:
  assumes "valid_utf8 s" "base \<noteq> []" "last base = CHR ''/'' \<or> isSegmentChar (last base)" "length (key_text s) \<le> MAX_KEY_EXPRESSION_LENGTH"
    and "\<forall>c\<in>set (base @ tail). c \<noteq> CHR ''('' \<and> c \<noteq> CHR ''?'' \<and> c \<noteq> CHR ''#''"
    and "query = [] \<or> (\<exists>q. query = ''?'' @ q \<and> q \<noteq> [] \<and> CHR ''#'' \<notin> set q)"
  shows "rewriteODataUrl opts (base @ ''('' @ key_text s @ '')'' @ tail @ query) = base @ ''/'' @ encodeLiteral s @ tail @ query
    \<and> decodeURIComponent (encodeLiteral s) = Some s"
  using string_key_url [OF assms] decode_literal [OF assms(1)] by blast

theorem string_keys_become_segments_witness:
  "rewriteODataUrl \<lparr>rw_namespace = [], rw_alias = [], operationNames = []\<rparr> (''/o/P'' @ ''('' @ key_text ''a/b''  @ '')'' @ ''/n'' @ ''?x=1'')
     = ''/o/P'' @ ''/'' @ encodeLiteral ''a/b'' @ ''/n'' @ ''?x=1''
   \<and> decodeURIComponent (encodeLiteral ''a/b'') = Some ''a/b''"
proof (rule string_keys_become_segments)
  show "valid_utf8 ''a/b''" by code_simp
  show "last ''/o/P'' = CHR ''/'' \<or> isSegmentChar (last ''/o/P'')" by code_simp
  have "length (key_text ''a/b'') = 7" by code_simp
  then show "length (key_text ''a/b'') \<le> MAX_KEY_EXPRESSION_LENGTH" by (simp add: MAX_KEY_EXPRESSION_LENGTH_def)
  show "\<forall>c\<in>set (''/o/P'' @ ''/n''). c \<noteq> CHR ''('' \<and> c \<noteq> CHR ''?'' \<and> c \<noteq> CHR ''#''" by code_simp
qed simp_all

text \<open>
  C21: The URL a sub-request is sent to is a path of the service: below the base path, or one of the routes of the service when
  the base path is the root.
\<close>

theorem sub_requests_stay_inside:
  assumes "sanitizeUrl w raw relative_too = Some url"
  shows "starts_with url ''/''
    \<and> (if service_root w = ''/'' then matchesConfiguredODataPath url ''/'' (buildODataRootRouteNames (site_sets w))
       else url = service_root w \<or> (\<exists>c rest. c \<in> set ''/?#'' \<and> url = service_root w @ c # rest))"
proof -
  have u: "starts_with url ''/''" "inside w url" using sanitized_inside [OF assms] by simp_all
  show ?thesis
  proof (cases "service_root w = ''/''")
    case True
    with u show ?thesis by (simp add: inside_def)
  next
    case False
    from inside_prefix [OF this u(2)] u(1) False show ?thesis by (simp only: if_False simp_thms)
  qed
qed

theorem sub_requests_stay_inside_witness:
  "starts_with ''/o/P'' ''/'' \<and> (''/o/P'' = service_root shop_site \<or> (\<exists>c rest. c \<in> set ''/?#'' \<and> ''/o/P'' = service_root shop_site @ c # rest))"
proof -
  have "sanitizeUrl shop_site ''P'' True = Some ''/o/P''" by code_simp
  from sub_requests_stay_inside [OF this] show ?thesis by (simp add: shop_site_def)
qed

section \<open>Identifiers\<close>

text \<open>
  C20: In a JSON batch that is accepted no identifier comes twice, and a request depends only on requests that come before it.
\<close>

theorem accepted_batches_are_ordered:
  assumes "validateJsonDependsOn names = Inr deps"
  shows "well_ordered (zip (map fst names) deps)"
  by (rule accepted_well_ordered [OF assms])

theorem accepted_batches_are_ordered_witness:
  "well_ordered [(Some ''1'', None), (Some ''2'', Some [''1''])]"
proof -
  have "validateJsonDependsOn [(Some ''1'', None, None), (Some ''2'', None, Some [Some '' 1''])] = Inr [None, Some [''1'']]" by code_simp
  from accepted_batches_are_ordered [OF this] show ?thesis by simp
qed

section \<open>Sizes\<close>




section \<open>Groups\<close>

text \<open>
  C1: An atomicity group is all or nothing: either every request succeeds and its one transaction is committed, or the data
  others see is as it was before. The transactions have to hide what is not committed.
\<close>

theorem groups_are_all_or_nothing:
  assumes "transactional h visible" "members \<noteq> []" "executeAtomicGroup h g members rs st = (out, st')"
  shows "(\<exists>es tx w. out = Returned es \<and> list_all succeeds es \<and> visible w = visible (contents st) \<and> commit_tx h tx w = (Inr (), contents st'))
    \<or> (\<forall>es. out = Returned es \<longrightarrow> \<not> list_all succeeds es) \<and> visible (contents st') = visible (contents st)"
  using atomic_all_or_nothing [OF assms] unfolding all_or_nothing_def .

abbreviation shop_requests :: "sub_request list" where
  "shop_requests \<equiv> [shop_request ''1'' ''g'' ''POST'', shop_request ''2'' ''g'' ''DELETE'']"

lemma shop_group:
  "\<exists>es st'. executeAtomicGroup shop_server ''g'' (enumerate 0 shop_requests) shop_requests shop_state = (Returned es, st')
     \<and> map entry_status es = [201, 404] \<and> contents st' = (5, 0)"
proof -
  have "case executeAtomicGroup shop_server ''g'' (enumerate 0 shop_requests) shop_requests shop_state of
      (Returned es, st') \<Rightarrow> map entry_status es = [201, 404] \<and> contents st' = (5, 0) | _ \<Rightarrow> False"
    by code_simp
  then show ?thesis by (auto split: prod.splits stop.splits)
qed

theorem groups_are_all_or_nothing_witness:
  "\<exists>es st'. executeAtomicGroup shop_server ''g'' (enumerate 0 shop_requests) shop_requests shop_state = (Returned es, st')
     \<and> map entry_status es = [201, 404] \<and> fst (contents st') = fst (contents shop_state)"
proof -
  obtain es st' where run: "executeAtomicGroup shop_server ''g'' (enumerate 0 shop_requests) shop_requests shop_state = (Returned es, st')"
    and es: "map entry_status es = [201, 404]" using shop_group by (elim exE conjE) (rule that)
  from es have "\<not> list_all succeeds es" by (auto simp: succeeds_def Cons_eq_map_conv)
  with groups_are_all_or_nothing [OF shop_transactional _ run] have "fst (contents st') = fst (contents shop_state)" by auto
  with run es show ?thesis by (intro exI conjI)
qed



section \<open>Batches\<close>

text \<open>
  C3: A batch that is answered has one answer for each request it was read from, in the order of the requests, with their
  identifiers and groups.
\<close>

theorem every_request_is_answered:
  assumes "handleBatch h b st = (Returned es, st')"
  shows "\<exists>rs. (if is_multipart b then read_multipart_requests h (content_type b) (stream b) else read_json_requests h (json_body b)) = Inr rs
    \<and> map entry_id es = map sub_id rs \<and> map entry_group es = map (\<lambda>r. if group_of r = [] then None else Some (group_of r)) rs"
proof -
  from assms obtain rs st1 where
    "(if is_multipart b then read_multipart_requests h (content_type b) (stream b) else read_json_requests h (json_body b)) = Inr rs"
    "answer_requests h (is_multipart b) rs st1 = (Returned es, st')"
    by (auto simp: handleBatch_def Let_def)
  with batch_answers show ?thesis by blast
qed

definition one_request :: batch_input where
  "one_request = \<lparr>content_type = ''application/json'', content_length = None, json_body = JObj [(''requests'', JArr [
     JObj [(''id'', JStr ''3''), (''method'', JStr ''POST''), (''url'', JStr ''P'')]])], stream = []\<rparr>"

theorem every_request_is_answered_witness:
  "\<exists>es st'. handleBatch shop_server one_request shop_state = (Returned es, st') \<and> map entry_id es = [Some ''3''] \<and> contents st' = (6, 0)"
proof -
  have read: "(if is_multipart one_request then read_multipart_requests shop_server (content_type one_request) (stream one_request)
      else read_json_requests shop_server (json_body one_request))
      = Inr [\<lparr>sub_id = Some ''3'', sub_group = None, sub_method = ''POST'', sub_url = ''P'', sub_headers = None, sub_body = JUndefined, raw_body = None, depends_on = None\<rparr>]"
    by code_simp
  have "case handleBatch shop_server one_request shop_state of (Returned es, st') \<Rightarrow> contents st' = (6, 0) | _ \<Rightarrow> False" by code_simp
  then obtain es st' where run: "handleBatch shop_server one_request shop_state = (Returned es, st')" "contents st' = (6, 0)"
    by (auto split: prod.splits stop.splits)
  from every_request_is_answered [OF run(1)] have "map entry_id es = [Some ''3'']" by (auto simp: read)
  with run show ?thesis by (intro exI conjI)
qed



section \<open>Limits and references\<close>

text \<open>The size of a JSON batch is never refused, whatever the limit.\<close>

lemma json_size_never_refused: "enforceJsonPayloadSize h payload l = Inr ()"
  by (simp add: enforceJsonPayloadSize_def split: option.split)

text \<open>With a nesting depth of one, no sub-request is ever sent.\<close>

lemma depth_one_refuses_all:
  assumes "maxDepth (batch_config h) = Some 1" "some_text (sanitizeUrl (batch_site h) (sub_url r) True) \<noteq> []" "sub_method r \<noteq> []"
  shows "executeWithHandler h ctx r st = (Raised (HttpError 400 ''batch-depth-limit-exceeded'' ''Batch request exceeds the configured nesting depth.''), st)"
  using assms by (simp add: executeWithHandler_def Let_def getBatchLimits_def enforceBatchDepthLimit_def seq_def lift_def raise_def)

text \<open>A tag of an entity that was known before a group stays as it was when the group changes the entity.\<close>

lemma old_tags_stay: "map_of shared path = Some etag \<Longrightarrow> map_of (merge_maps shared own) path = Some etag"
  unfolding merge_maps_def
proof (induction own arbitrary: shared)
  case (Cons p own)
  obtain k v where p: "p = (k, v)" by (cases p)
  have "map_of (obj_set k v shared) path = Some etag" if "map_of shared k = None" using that Cons.prems by auto
  with Cons show ?case by (simp add: p)
qed simp

end
