(* ===== verification/ApplyPlan.thy ===== *)
theory ApplyPlan
  imports ApplyParser WhereMeaning Navigation
begin

text \<open>
  The planner of \<open>$apply\<close> (\<open>services/odata-apply-planner.service.ts\<close>): a pipeline of transformations becomes a
  condition for the database, filters, aggregation stages, the branches of \<open>concat\<close> and what follows them.
\<close>

section \<open>Plans\<close>

text \<open>
  A navigation path of a stage: as it is written, the relations it joins, and the property at its end. The
  relation of a join is the segment it was resolved from, which is the name LoopBack keeps with it.
\<close>

record nav_path =
  originalPath :: string
  relationNames :: "string list"
  endProperty :: "string option"

type_synonym order_items = "(string \<times> direction) list"

text \<open>No order and an empty one are the same to the code.\<close>

record apply_stage =
  groupBy :: "string list"
  aggregates :: "aggregation list"
  postAggregationFilters :: "parsed_expression list"
  stage_order :: order_items
  stage_top :: "nat option"
  stage_skip :: "nat option"
  navigationPaths :: "nav_path list"

datatype apply_plan =
  Plan (pushdownWhere: "where_clause option") (preAggregationFilters: "parsed_expression list")
    (stages: "apply_stage list") (branches: "apply_plan list") (postOrderBy: order_items)
    (postTop: "nat option") (postSkip: "nat option") (postFilters: "parsed_expression list")

section \<open>Planning\<close>

definition buildWhereCandidate :: "parse_options \<Rightarrow> parsed_expression \<Rightarrow> where_clause option result" where
  "buildWhereCandidate opts e =
     (case buildWhere opts e of
        Inr w \<Rightarrow> Inr (Some w)
      | Inl (UnsupportedFilter names) \<Rightarrow>
          if strict opts then throw ''Unsupported filter() transformation in strict mode'' else Inr None
      | Inl err \<Rightarrow> Inl err)"

definition mergeWhereClauses :: "where_clause option \<Rightarrow> where_clause \<Rightarrow> where_clause" where
  "mergeWhereClauses given candidate = (case given of None \<Rightarrow> candidate | Some w \<Rightarrow> WAnd [w, candidate])"

fun pipelineContainsAggregation :: "apply_pipeline \<Rightarrow> bool" where
  "pipelineContainsAggregation [] = False"
| "pipelineContainsAggregation (TGroupBy keys as # ts) = True"
| "pipelineContainsAggregation (TAggregate as # ts) = True"
| "pipelineContainsAggregation (TConcat ps # ts) = (list_ex pipelineContainsAggregation ps \<or> pipelineContainsAggregation ts)"
| "pipelineContainsAggregation (t # ts) = pipelineContainsAggregation ts"

fun planHasAggregation :: "apply_plan \<Rightarrow> bool" where
  "planHasAggregation (Plan w fs ss bs ob tp sk pf) = (ss \<noteq> [] \<or> list_ex planHasAggregation bs)"

text \<open>
  What the planner has collected so far; \<open>current\<close> tells whether the last stage is open, as it is until a
  \<open>concat\<close>.
\<close>

record planning =
  the_where :: "where_clause option"
  pre_filters :: "parsed_expression list"
  the_stages :: "apply_stage list"
  the_branches :: "apply_plan list"
  plan_filters :: "parsed_expression list"
  plan_order :: order_items
  plan_top :: "nat option"
  plan_skip :: "nat option"
  current :: bool

definition nothing_planned :: planning where
  "nothing_planned = \<lparr>the_where = None, pre_filters = [], the_stages = [], the_branches = [], plan_filters = [],
     plan_order = [], plan_top = None, plan_skip = None, current = False\<rparr>"

definition has_results :: "planning \<Rightarrow> bool" where
  "has_results st \<longleftrightarrow> the_stages st \<noteq> [] \<or> the_branches st \<noteq> []"

definition startStage :: "string list \<Rightarrow> aggregation list \<Rightarrow> planning \<Rightarrow> planning" where
  "startStage keys as st = st\<lparr>the_stages := the_stages st @
     [\<lparr>groupBy = keys, aggregates = as, postAggregationFilters = [], stage_order = [], stage_top = None,
       stage_skip = None, navigationPaths = []\<rparr>], current := True\<rparr>"

definition change_stage :: "(apply_stage \<Rightarrow> apply_stage) \<Rightarrow> planning \<Rightarrow> planning" where
  "change_stage f st = st\<lparr>the_stages := butlast (the_stages st) @ [f (last (the_stages st))]\<rparr>"

abbreviation current_stage :: "planning \<Rightarrow> apply_stage" where
  "current_stage st \<equiv> last (the_stages st)"

definition preceding_required :: "string \<Rightarrow> 'a result" where
  "preceding_required name = throw (name @ ''() transformation requires a preceding groupby() or aggregate().'')"

fun plan_step :: "parse_options \<Rightarrow> bool \<Rightarrow> apply_transformation \<Rightarrow> planning \<Rightarrow> planning result" where
  "plan_step opts req (TFilter e) st =
     (if current st
      then Inr (change_stage (\<lambda>s. s\<lparr>postAggregationFilters := postAggregationFilters s @ [e]\<rparr>) st)
      else if has_results st then Inr (st\<lparr>plan_filters := plan_filters st @ [e]\<rparr>)
      else rbind (buildWhereCandidate opts e) (\<lambda>candidate. Inr (case candidate of
          Some w \<Rightarrow> st\<lparr>the_where := Some (mergeWhereClauses (the_where st) w)\<rparr>
        | None \<Rightarrow> st\<lparr>pre_filters := pre_filters st @ [e]\<rparr>)))"
| "plan_step opts req (TGroupBy keys as) st = Inr (startStage keys as st)"
| "plan_step opts req (TAggregate as) st = Inr (startStage [] as st)"
| "plan_step opts req (TOrderBy items) st =
     (if current st
      then if stage_order (current_stage st) \<noteq> []
        then throw ''Multiple orderby() transformations are not supported within the same stage.''
        else Inr (change_stage (\<lambda>s. s\<lparr>stage_order := items\<rparr>) st)
      else if req \<and> \<not> has_results st then preceding_required ''orderby''
      else if plan_order st \<noteq> [] then throw ''Multiple orderby() transformations are not supported for the same pipeline.''
      else Inr (st\<lparr>plan_order := items\<rparr>))"
| "plan_step opts req (TSkip n) st =
     (if current st
      then if stage_skip (current_stage st) \<noteq> None then throw ''Only one skip() transformation is supported per stage.''
        else Inr (change_stage (\<lambda>s. s\<lparr>stage_skip := Some n\<rparr>) st)
      else if req \<and> \<not> has_results st then preceding_required ''skip''
      else if plan_skip st \<noteq> None then throw ''Only one skip() transformation is supported per pipeline.''
      else Inr (st\<lparr>plan_skip := Some n\<rparr>))"
| "plan_step opts req (TTop n) st =
     (if current st
      then if stage_top (current_stage st) \<noteq> None then throw ''Only one top() transformation is supported per stage.''
        else Inr (change_stage (\<lambda>s. s\<lparr>stage_top := Some n\<rparr>) st)
      else if req \<and> \<not> has_results st then preceding_required ''top''
      else if plan_top st \<noteq> None then throw ''Only one top() transformation is supported per pipeline.''
      else Inr (st\<lparr>plan_top := Some n\<rparr>))"
| "plan_step opts req (TBottom n) st = throw ''bottom() transformation is not supported yet.''"
| "plan_step opts req (TConcat ps) st = Inr st"

section \<open>Navigation paths of a stage\<close>

fun compute_paths :: "compute_node \<Rightarrow> string list" where
  "compute_paths (CPath p) = [join ''/'' p]"
| "compute_paths (CLiteral v) = []"
| "compute_paths (CBinary f l r) = compute_paths l @ compute_paths r"
| "compute_paths (CFunction f args) = concat (map compute_paths args)"

definition aggregate_paths :: "aggregation \<Rightarrow> string list" where
  "aggregate_paths a = (case agg_field a of None \<Rightarrow> [] | Some f \<Rightarrow> [f])
     @ (case agg_expression a of None \<Rightarrow> [] | Some node \<Rightarrow> compute_paths node)"

definition resolve_nav_path :: "world \<Rightarrow> string \<Rightarrow> nat \<Rightarrow> string \<Rightarrow> nav_path result" where
  "resolve_nav_path w m maxDepth raw =
     (case resolveNavigationPath w m raw maxDepth False of
        Inl err \<Rightarrow> throw (''Unsupported navigation path '' @ [dquote] @ raw @ [dquote])
      | Inr p \<Rightarrow> Inr \<lparr>originalPath = raw,
          relationNames = take (length (joins p)) (filter (\<lambda>s. s \<noteq> []) (split_on CHR ''/'' raw)),
          endProperty = propertyPath p\<rparr>)"

fun collect_paths :: "world \<Rightarrow> string \<Rightarrow> nat \<Rightarrow> string list \<Rightarrow> nav_path list \<Rightarrow> nav_path list result" where
  "collect_paths w m d [] seen = Inr seen"
| "collect_paths w m d (raw # raws) seen =
     (if CHR ''/'' \<notin> set raw \<or> raw \<in> originalPath ` set seen then collect_paths w m d raws seen
      else rbind (resolve_nav_path w m d raw) (\<lambda>p. collect_paths w m d raws (seen @ [p])))"

definition collectNavigationPaths :: "world \<Rightarrow> string \<Rightarrow> apply_stage \<Rightarrow> nat \<Rightarrow> nav_path list result" where
  "collectNavigationPaths w m s d = collect_paths w m d (groupBy s @ concat (map aggregate_paths (aggregates s))) []"

definition populate :: "(world \<times> string \<times> nat) option \<Rightarrow> apply_stage list \<Rightarrow> apply_stage list result" where
  "populate model ss =
     (case model of
        None \<Rightarrow> Inr ss
      | Some (w, m, d) \<Rightarrow> rmap (\<lambda>s. rbind (collectNavigationPaths w m s d) (\<lambda>ps. Inr (s\<lparr>navigationPaths := ps\<rparr>))) ss)"

text \<open>The options of the planner: how filters are translated, and the model its paths belong to.\<close>

record planner_options =
  where_options :: parse_options
  planner_model :: "(world \<times> string \<times> nat) option"

definition finish_plan :: "planner_options \<Rightarrow> bool \<Rightarrow> planning \<Rightarrow> apply_plan result" where
  "finish_plan opts req st =
     (if req \<and> the_stages st = [] \<and> \<not> list_ex planHasAggregation (the_branches st)
      then throw ''groupby() or aggregate() transformation is required in the $apply pipeline.''
      else rbind (populate (planner_model opts) (the_stages st)) (\<lambda>ss.
        Inr (Plan (the_where st) (pre_filters st) ss (the_branches st) (plan_order st) (plan_top st) (plan_skip st) (plan_filters st))))"

text \<open>
  The branches of a \<open>concat\<close> are planned as pipelines that need no aggregation. Their paths are resolved with
  them; the pipeline around them resolves them again, which gives the same.
\<close>

function plan_loop :: "planner_options \<Rightarrow> bool \<Rightarrow> apply_pipeline \<Rightarrow> planning \<Rightarrow> planning result" where
  "plan_loop opts req [] st = Inr st"
| "plan_loop opts req (t # ts) st =
     (case t of
        TConcat ps \<Rightarrow>
          rbind (rmap (\<lambda>p. if p = [] then throw ''Empty $apply pipeline.''
              else rbind (plan_loop opts False p nothing_planned) (finish_plan opts False)) ps) (\<lambda>bs.
            plan_loop opts req ts (st\<lparr>the_branches := the_branches st @ bs, current := False\<rparr>))
      | _ \<Rightarrow> rbind (plan_step (where_options opts) req t st) (plan_loop opts req ts))"
  by pat_completeness auto
termination
  by (relation "measure (\<lambda>(opts, req, ts, st). size_list size ts)")
    (auto simp: less_Suc_eq_le intro: trans_le_add1 le_SucI dest: branch_size [where f = size])

definition buildApplyExecutionPlan :: "planner_options \<Rightarrow> apply_pipeline \<Rightarrow> apply_plan result" where
  "buildApplyExecutionPlan opts p =
     (if p = [] then throw ''Empty $apply pipeline.''
      else let req = pipelineContainsAggregation p
           in rbind (plan_loop opts req p nothing_planned) (finish_plan opts req))"

end
