(* ===== verification/ApplyExecution.thy ===== *)
theory ApplyExecution
  imports ApplyPlan Json FilterEval
begin

text \<open>
  Aggregation in memory (\<open>controllers/crud-controller-factory.ts\<close>), which answers \<open>$apply\<close> where the database
  does not: computed values, the variants of a row over its navigation paths, groups with their
  accumulators, ordering, slicing, and whole plans. Arithmetic is exact up to overflow. A date or an object counts
  as a value of its own each time \<open>countdistinct\<close> reads it, as the references of different rows do.
\<close>

section \<open>Arithmetic\<close>

fun negate_number :: "js_number \<Rightarrow> js_number" where
  "negate_number NotANumber = NotANumber"
| "negate_number PosInfinity = NegInfinity"
| "negate_number NegInfinity = PosInfinity"
| "negate_number (Finite x) = Finite (- x)"

fun add_numbers :: "js_number \<Rightarrow> js_number \<Rightarrow> js_number" where
  "add_numbers (Finite x) (Finite y) = to_number (x + y)"
| "add_numbers NotANumber b = NotANumber"
| "add_numbers a NotANumber = NotANumber"
| "add_numbers PosInfinity NegInfinity = NotANumber"
| "add_numbers NegInfinity PosInfinity = NotANumber"
| "add_numbers PosInfinity b = PosInfinity"
| "add_numbers NegInfinity b = NegInfinity"
| "add_numbers a PosInfinity = PosInfinity"
| "add_numbers a NegInfinity = NegInfinity"

definition number_sign :: "js_number \<Rightarrow> rat" where
  "number_sign n = (case n of Finite x \<Rightarrow> sgn x | PosInfinity \<Rightarrow> 1 | NegInfinity \<Rightarrow> -1 | NotANumber \<Rightarrow> 0)"

definition infinite_of_sign :: "rat \<Rightarrow> js_number" where
  "infinite_of_sign s = (if 0 < s then PosInfinity else if s < 0 then NegInfinity else NotANumber)"

definition mul_numbers :: "js_number \<Rightarrow> js_number \<Rightarrow> js_number" where
  "mul_numbers a b =
     (case (a, b) of
        (NotANumber, _) \<Rightarrow> NotANumber
      | (_, NotANumber) \<Rightarrow> NotANumber
      | (Finite x, Finite y) \<Rightarrow> to_number (x * y)
      | _ \<Rightarrow> infinite_of_sign (number_sign a * number_sign b))"

text \<open>Divisors are never zero here. The remainder has the sign of the dividend.\<close>

definition div_numbers :: "js_number \<Rightarrow> js_number \<Rightarrow> js_number" where
  "div_numbers a b =
     (case (a, b) of
        (NotANumber, _) \<Rightarrow> NotANumber
      | (_, NotANumber) \<Rightarrow> NotANumber
      | (Finite x, Finite y) \<Rightarrow> to_number (x / y)
      | (Finite x, _) \<Rightarrow> Finite 0
      | (_, Finite y) \<Rightarrow> infinite_of_sign (number_sign a * number_sign b)
      | _ \<Rightarrow> NotANumber)"

definition truncate_quotient :: "rat \<Rightarrow> rat" where
  "truncate_quotient q = (if 0 \<le> q then of_int \<lfloor>q\<rfloor> else of_int \<lceil>q\<rceil>)"

definition mod_numbers :: "js_number \<Rightarrow> js_number \<Rightarrow> js_number" where
  "mod_numbers a b =
     (case (a, b) of
        (Finite x, Finite y) \<Rightarrow> Finite (x - y * truncate_quotient (x / y))
      | (Finite x, PosInfinity) \<Rightarrow> Finite x
      | (Finite x, NegInfinity) \<Rightarrow> Finite x
      | _ \<Rightarrow> NotANumber)"

section \<open>Values of a row\<close>

type_synonym variant = "(string \<times> js_value) list"

fun value_at :: "js_value \<Rightarrow> string list \<Rightarrow> js_value" where
  "value_at v [] = v"
| "value_at (JArr vs) (s # ss) = JUndefined"
| "value_at v (s # ss) = (if is_nullish v then JUndefined else value_at (get_prop v s) ss)"

definition getValueAtPath :: "js_value \<Rightarrow> string \<Rightarrow> js_value" where
  "getValueAtPath source path =
     (if path = [] then JUndefined
      else if CHR ''/'' \<notin> set path then (if is_nullish source then JUndefined else get_prop source path)
      else value_at source (split_on CHR ''/'' path))"

fun extractPathValues :: "js_value \<Rightarrow> string list \<Rightarrow> js_value list" where
  "extractPathValues source [] = [source]"
| "extractPathValues source (s # ss) =
     (if is_nullish source then [JUndefined]
      else case get_prop source s of
          JArr vs \<Rightarrow> (if vs = [] then [JUndefined] else concat (map (\<lambda>v. extractPathValues v ss) vs))
        | v \<Rightarrow> extractPathValues v ss)"

definition first_value :: "js_value list \<Rightarrow> js_value" where
  "first_value vs = (case vs of [] \<Rightarrow> JUndefined | v # _ \<Rightarrow> v)"

text \<open>Without a slash the path is a property of the row; with one, the first of its values.\<close>

definition resolveVariantValue :: "js_value \<Rightarrow> variant \<Rightarrow> string \<Rightarrow> js_value" where
  "resolveVariantValue r variant path =
     (case map_of variant path of
        Some v \<Rightarrow> v
      | None \<Rightarrow>
          if CHR ''/'' \<notin> set path then getValueAtPath r path
          else first_value (extractPathValues r (split_on CHR ''/'' path)))"

definition coerceComputeNumber :: "js_value \<Rightarrow> js_number option" where
  "coerceComputeNumber v =
     (case v of
        JNum (Finite x) \<Rightarrow> Some (Finite x)
      | JStr s \<Rightarrow> if trim s = [] then None else (case js_Number s of NotANumber \<Rightarrow> None | n \<Rightarrow> Some n)
      | _ \<Rightarrow> None)"

definition evaluateNumericBinary :: "compute_op \<Rightarrow> js_value \<Rightarrow> js_value \<Rightarrow> js_value" where
  "evaluateNumericBinary f left right =
     (case (coerceComputeNumber left, coerceComputeNumber right) of
        (Some a, Some b) \<Rightarrow>
          (case f of
             OpAdd \<Rightarrow> JNum (add_numbers a b)
           | OpSub \<Rightarrow> JNum (add_numbers a (negate_number b))
           | OpMul \<Rightarrow> JNum (mul_numbers a b)
           | OpDiv \<Rightarrow> if b = Finite 0 then JNull else JNum (div_numbers a b)
           | OpMod \<Rightarrow> if b = Finite 0 then JNull else JNum (mod_numbers a b))
      | _ \<Rightarrow> JNull)"

definition evaluateComputeFunction :: "js_host \<Rightarrow> compute_fn \<Rightarrow> js_value list \<Rightarrow> js_value" where
  "evaluateComputeFunction h f args =
     (let v = first_value args
      in case f of
          FnToLower \<Rightarrow> if is_nullish v then JNull else JStr (lower (js_String h v))
        | FnToUpper \<Rightarrow> if is_nullish v then JNull else JStr (upper (js_String h v))
        | FnConcat \<Rightarrow> JStr (concat (map (\<lambda>v. if is_nullish v then [] else js_String h v) args)))"

text \<open>The variant is there in aggregation only; \<open>$compute\<close> has none.\<close>

fun evaluateComputeNode :: "js_host \<Rightarrow> compute_node \<Rightarrow> js_value \<Rightarrow> variant option \<Rightarrow> js_value" where
  "evaluateComputeNode h (CPath path) r variant =
     (case variant of
        None \<Rightarrow> resolvePath r path
      | Some values \<Rightarrow>
          if path = [] then resolvePath r path
          else (case map_of values (join ''/'' path) of
              Some v \<Rightarrow> v
            | None \<Rightarrow>
                if CHR ''/'' \<in> set (join ''/'' path)
                then first_value (extractPathValues r (split_on CHR ''/'' (join ''/'' path)))
                else resolvePath r path))"
| "evaluateComputeNode h (CLiteral v) r variant = v"
| "evaluateComputeNode h (CBinary f left right) r variant =
     evaluateNumericBinary f (evaluateComputeNode h left r variant) (evaluateComputeNode h right r variant)"
| "evaluateComputeNode h (CFunction f args) r variant =
     evaluateComputeFunction h f (map (\<lambda>a. evaluateComputeNode h a r variant) args)"

text \<open>\<open>applyComputeExpressions\<close> of one row: each alias is there for the expressions after it.\<close>

fun compute_row :: "js_host \<Rightarrow> compute_expression list \<Rightarrow> (string \<times> js_value) list \<Rightarrow> (string \<times> js_value) list" where
  "compute_row h [] r = r"
| "compute_row h ((al, node) # es) r = compute_row h es (obj_set al (evaluateComputeNode h node (JObj r) None) r)"

definition applyComputeExpressions ::
  "js_host \<Rightarrow> (string \<times> js_value) list list \<Rightarrow> compute_expression list \<Rightarrow> (string \<times> js_value) list list" where
  "applyComputeExpressions h rows es = map (compute_row h es) rows"

section \<open>Variants\<close>

definition group_key_of :: "nav_path \<Rightarrow> string" where
  "group_key_of p = join ''/'' (relationNames p)"

fun add_to_group :: "nav_path \<Rightarrow> (string \<times> nav_path list) list \<Rightarrow> (string \<times> nav_path list) list" where
  "add_to_group p [] = [(group_key_of p, [p])]"
| "add_to_group p ((k, ps) # gs) = (if k = group_key_of p then (k, ps @ [p]) # gs else (k, ps) # add_to_group p gs)"

definition groupNavigationPaths :: "nav_path list \<Rightarrow> nav_path list list" where
  "groupNavigationPaths paths = map snd (fold (\<lambda>p gs. if relationNames p = [] then gs else add_to_group p gs) paths [])"

definition related :: "string \<Rightarrow> js_value \<Rightarrow> js_value list" where
  "related name item =
     (if is_nullish item then [JUndefined]
      else case get_prop item name of
          JArr vs \<Rightarrow> if vs = [] then [JUndefined] else vs
        | v \<Rightarrow> if is_nullish v then [JUndefined] else [v])"

definition collectNavigationTargets :: "js_value \<Rightarrow> nav_path \<Rightarrow> js_value list" where
  "collectNavigationTargets r p = fold (\<lambda>name items. concat (map (related name) items)) (relationNames p) [r]"

definition resolvePropertyFromTarget :: "js_value \<Rightarrow> string option \<Rightarrow> js_value" where
  "resolvePropertyFromTarget v path =
     (case path of None \<Rightarrow> v | Some p \<Rightarrow> resolvePath v (filter (\<lambda>s. s \<noteq> []) (split_on CHR ''/'' p)))"

definition extend_variant :: "nav_path list \<Rightarrow> js_value \<Rightarrow> variant \<Rightarrow> variant" where
  "extend_variant ps v values = fold (\<lambda>p. obj_set (originalPath p) (resolvePropertyFromTarget v (endProperty p))) ps values"

definition too_many_variants :: "'a result" where
  "too_many_variants = Inl (HttpError 400 [] ''$apply navigation expansion exceeds the configured limit.'')"

fun expand_groups :: "int \<Rightarrow> js_value \<Rightarrow> nav_path list list \<Rightarrow> variant list \<Rightarrow> variant list result" where
  "expand_groups fanout r [] variants = Inr variants"
| "expand_groups fanout r (ps # groups) variants =
     (let targets = collectNavigationTargets r (hd ps);
          extended = concat (map (\<lambda>values. map (\<lambda>v. extend_variant ps v values) targets) variants)
      in if fanout < int (length extended) then too_many_variants else expand_groups fanout r groups extended)"

definition expandNavigationVariants :: "int \<Rightarrow> js_value \<Rightarrow> nav_path list list \<Rightarrow> variant list result" where
  "expandNavigationVariants fanout r groups =
     rbind (expand_groups fanout r groups [[]]) (\<lambda>variants.
       if fanout < int (length variants) then too_many_variants else Inr variants)"

section \<open>Accumulators\<close>

record accumulator =
  acc_operator :: aggregation_operator
  acc_sum :: js_number
  acc_count :: nat
  acc_min :: "rat option"
  acc_max :: "rat option"
  acc_distinct :: "js_value list"

definition createAccumulatorState :: "aggregation_operator \<Rightarrow> accumulator" where
  "createAccumulatorState f = \<lparr>acc_operator = f, acc_sum = Finite 0, acc_count = 0, acc_min = None, acc_max = None, acc_distinct = []\<rparr>"

text \<open>A \<open>Set\<close> compares primitive values, \<open>NaN\<close> with itself too, and references.\<close>

fun same_primitive :: "js_value \<Rightarrow> js_value \<Rightarrow> bool" where
  "same_primitive (JNum a) (JNum b) = (a = b)"
| "same_primitive a b = strict_equal a b"

definition set_add :: "js_value \<Rightarrow> js_value list \<Rightarrow> js_value list" where
  "set_add v vs = (if list_ex (same_primitive v) vs then vs else vs @ [v])"

definition updateAccumulatorState :: "js_host \<Rightarrow> js_value \<Rightarrow> accumulator \<Rightarrow> accumulator" where
  "updateAccumulatorState h v st =
     (case acc_operator st of
        Sum \<Rightarrow> (case js_to_number h v of
            Finite x \<Rightarrow> st\<lparr>acc_sum := add_numbers (acc_sum st) (Finite x)\<rparr> | _ \<Rightarrow> st)
      | Average \<Rightarrow> (case js_to_number h v of
            Finite x \<Rightarrow> st\<lparr>acc_sum := add_numbers (acc_sum st) (Finite x), acc_count := acc_count st + 1\<rparr> | _ \<Rightarrow> st)
      | Min \<Rightarrow> (case js_to_number h v of
            Finite x \<Rightarrow> st\<lparr>acc_min := Some (case acc_min st of None \<Rightarrow> x | Some m \<Rightarrow> min m x)\<rparr> | _ \<Rightarrow> st)
      | Max \<Rightarrow> (case js_to_number h v of
            Finite x \<Rightarrow> st\<lparr>acc_max := Some (case acc_max st of None \<Rightarrow> x | Some m \<Rightarrow> max m x)\<rparr> | _ \<Rightarrow> st)
      | Count \<Rightarrow> st\<lparr>acc_count := acc_count st + 1\<rparr>
      | CountDistinct \<Rightarrow> st\<lparr>acc_distinct := set_add v (acc_distinct st)\<rparr>
      | ObjectConstructor \<Rightarrow> st)"

definition number_of_nat :: "nat \<Rightarrow> js_value" where
  "number_of_nat n = JNum (Finite (of_nat n))"

definition finalizeAccumulatorState :: "accumulator \<Rightarrow> js_value" where
  "finalizeAccumulatorState st =
     (case acc_operator st of
        Sum \<Rightarrow> JNum (acc_sum st)
      | Average \<Rightarrow> if acc_count st = 0 then JNull else JNum (div_numbers (acc_sum st) (Finite (of_nat (acc_count st))))
      | Min \<Rightarrow> (case acc_min st of None \<Rightarrow> JNull | Some m \<Rightarrow> JNum (Finite m))
      | Max \<Rightarrow> (case acc_max st of None \<Rightarrow> JNull | Some m \<Rightarrow> JNum (Finite m))
      | Count \<Rightarrow> number_of_nat (acc_count st)
      | CountDistinct \<Rightarrow> number_of_nat (length (acc_distinct st))
      | ObjectConstructor \<Rightarrow> JNull)"

section \<open>Groups\<close>

definition evaluateAggregateOperand :: "js_host \<Rightarrow> aggregation \<Rightarrow> js_value \<Rightarrow> variant \<Rightarrow> js_value" where
  "evaluateAggregateOperand h a r variant =
     (case agg_expression a of
        Some node \<Rightarrow> evaluateComputeNode h node r (Some variant)
      | None \<Rightarrow> (case agg_field a of
            Some f \<Rightarrow> if f = [] then JUndefined else resolveVariantValue r variant f
          | None \<Rightarrow> JUndefined))"

record group =
  group_values :: "(string \<times> js_value) list"
  accumulators :: "(string \<times> accumulator) list"

definition new_group :: "string list \<Rightarrow> aggregation list \<Rightarrow> js_value list \<Rightarrow> group" where
  "new_group keys as vs = \<lparr>group_values = fold (\<lambda>(k, v). obj_set k v) (zip keys vs) [],
     accumulators = fold (\<lambda>a. obj_set (agg_alias a) (createAccumulatorState (agg_operator a))) as []\<rparr>"

definition accumulate_one :: "js_host \<Rightarrow> js_value \<Rightarrow> variant \<Rightarrow> aggregation \<Rightarrow> (string \<times> accumulator) list \<Rightarrow> (string \<times> accumulator) list" where
  "accumulate_one h r variant a accs =
     (case map_of accs (agg_alias a) of
        None \<Rightarrow> accs
      | Some st \<Rightarrow> obj_set (agg_alias a) (updateAccumulatorState h (evaluateAggregateOperand h a r variant) st) accs)"

definition accumulate :: "js_host \<Rightarrow> aggregation list \<Rightarrow> js_value \<Rightarrow> variant \<Rightarrow> group \<Rightarrow> group" where
  "accumulate h as r variant g = g\<lparr>accumulators := fold (accumulate_one h r variant) as (accumulators g)\<rparr>"

definition group_update ::
  "etag_host \<Rightarrow> apply_stage \<Rightarrow> js_value \<Rightarrow> variant \<Rightarrow> (string option \<times> group) list \<Rightarrow> (string option \<times> group) list" where
  "group_update h stage r variant groups =
     (let vs = map (resolveVariantValue r variant) (groupBy stage);
          key = json_stringify h (JArr vs);
          step = accumulate (js_host.truncate h) (aggregates stage) r variant
      in case map_of groups key of
           Some g \<Rightarrow> map (\<lambda>(k, g'). if k = key then (k, step g') else (k, g')) groups
         | None \<Rightarrow> groups @ [(key, step (new_group (groupBy stage) (aggregates stage) vs))])"

definition group_record :: "group \<Rightarrow> js_value" where
  "group_record g = JObj (fold (\<lambda>(al, st). obj_set al (finalizeAccumulatorState st)) (accumulators g) (group_values g))"

fun aggregate_rows ::
  "etag_host \<Rightarrow> int \<Rightarrow> apply_stage \<Rightarrow> js_value list \<Rightarrow> (string option \<times> group) list \<Rightarrow> (string option \<times> group) list result" where
  "aggregate_rows h fanout stage [] groups = Inr groups"
| "aggregate_rows h fanout stage (r # rs) groups =
     rbind (expandNavigationVariants fanout r (groupNavigationPaths (navigationPaths stage))) (\<lambda>variants.
       aggregate_rows h fanout stage rs (fold (group_update h stage r) (if variants = [] then [[]] else variants) groups))"

definition executeAggregation :: "etag_host \<Rightarrow> int \<Rightarrow> js_value list \<Rightarrow> apply_stage \<Rightarrow> js_value list result" where
  "executeAggregation h fanout rows stage =
     rbind (aggregate_rows h fanout stage rows []) (\<lambda>groups. Inr (map (\<lambda>(k, g). group_record g) groups))"

end
