(* ===== verification/ApplyFallback.thy ===== *)
theory ApplyFallback
  imports ApplyExecution Paging
begin

text \<open>
  Plans of \<open>$apply\<close> run in memory (\<open>controllers/crud-controller-factory.ts\<close>): ordering, slicing and filtering of
  results, the stages and branches of a plan, and the pages of its result. What the sort gives is in theory
  \<open>RowOrder\<close>.
\<close>

section \<open>Order\<close>

text \<open>The fields of the clauses, with whether they descend.\<close>

fun order_fields :: "string list \<Rightarrow> order_descriptor list" where
  "order_fields [] = []"
| "order_fields (entry # entries) =
     (case split_ws (trim entry) of
        [] \<Rightarrow> order_fields entries
      | f # rest \<Rightarrow>
          if f = [] then order_fields entries
          else \<lparr>od_field = f, descending = (case rest of [] \<Rightarrow> False | dir # _ \<Rightarrow> upper dir = ''DESC'')\<rparr> # order_fields entries)"

definition compare_values :: "js_host \<Rightarrow> js_value \<Rightarrow> js_value \<Rightarrow> int" where
  "compare_values h av bv =
     (if strict_equal av bv then 0
      else if is_nullish av then 1
      else if is_nullish bv then -1
      else case (av, bv) of
          (JNum x, JNum y) \<Rightarrow> sign_of (num_less x y) (num_less y x)
        | _ \<Rightarrow> compare_text h av bv)"

fun compare_rows :: "js_host \<Rightarrow> order_descriptor list \<Rightarrow> js_value \<Rightarrow> js_value \<Rightarrow> int" where
  "compare_rows h [] a b = 0"
| "compare_rows h (d # ds) a b =
     (let c = directed d (compare_values h (get_prop a (od_field d)) (get_prop b (od_field d)))
      in if c \<noteq> 0 then c else compare_rows h ds a b)"

text \<open>
  \<open>sort\<close> is stable; for a comparison that is a total preorder every stable sort gives the same, and for
  others the order is the engine's.
\<close>

fun insert_by :: "('a \<Rightarrow> 'a \<Rightarrow> int) \<Rightarrow> 'a \<Rightarrow> 'a list \<Rightarrow> 'a list" where
  "insert_by cmp x [] = [x]"
| "insert_by cmp x (y # ys) = (if cmp x y \<le> 0 then x # y # ys else y # insert_by cmp x ys)"

definition sort_by :: "('a \<Rightarrow> 'a \<Rightarrow> int) \<Rightarrow> 'a list \<Rightarrow> 'a list" where
  "sort_by cmp xs = foldr (insert_by cmp) xs []"

definition orderResults :: "js_host \<Rightarrow> js_value list \<Rightarrow> string list \<Rightarrow> js_value list" where
  "orderResults h data order = (let ds = order_fields order in if ds = [] then data else sort_by (compare_rows h ds) data)"

text \<open>\<open>slice\<close> of a number: a fraction is cut off, and a negative offset is not applied.\<close>

definition sliceResults :: "'a list \<Rightarrow> nat option \<Rightarrow> nat option \<Rightarrow> 'a list" where
  "sliceResults data offset limit =
     (let rest = (case offset of None \<Rightarrow> data | Some n \<Rightarrow> drop n data)
      in case limit of None \<Rightarrow> rest | Some n \<Rightarrow> take n rest)"

section \<open>Filters of results\<close>

definition post_holds :: "js_host \<Rightarrow> parsed_expression \<Rightarrow> js_value \<Rightarrow> bool" where
  "post_holds h e r = evaluatePredicate h e r [] r Map.empty"

definition applyPostFilters :: "js_host \<Rightarrow> js_value list \<Rightarrow> parsed_expression list \<Rightarrow> js_value list" where
  "applyPostFilters h data es = fold (\<lambda>e. filter (post_holds h e)) es data"

fun expression_field :: "parsed_expression \<Rightarrow> string option" where
  "expression_field (Comparison f c v) = Some f"
| "expression_field (StringTest fn f args ci t neg) = Some f"
| "expression_field (TransformCmp t f c v) = Some f"
| "expression_field (FnCmp fn f c x) = Some f"
| "expression_field (DatePart p f c x) = Some f"
| "expression_field (IndexOfCmp f c x n) = Some f"
| "expression_field (SubstrCmp f s n c l) = Some f"
| "expression_field (LengthCmp f c x) = Some f"
| "expression_field _ = None"

definition has_own :: "js_value \<Rightarrow> string \<Rightarrow> bool" where
  "has_own r f = (case r of JObj ps \<Rightarrow> f \<in> fst ` set ps | _ \<Rightarrow> False)"

definition preserving_holds :: "js_host \<Rightarrow> parsed_expression \<Rightarrow> js_value \<Rightarrow> bool" where
  "preserving_holds h e r =
     (case expression_field e of
        None \<Rightarrow> post_holds h e r
      | Some f \<Rightarrow> \<not> has_own r (hd (split_on CHR ''/'' f)) \<or> post_holds h e r)"

definition applyPostFiltersPreservingFields :: "js_host \<Rightarrow> js_value list \<Rightarrow> parsed_expression list \<Rightarrow> js_value list" where
  "applyPostFiltersPreservingFields h data es = fold (\<lambda>e. filter (preserving_holds h e)) es data"

section \<open>Plans\<close>

definition ensureApplyFallbackLimit :: "js_value list \<Rightarrow> int option \<Rightarrow> unit result" where
  "ensureApplyFallbackLimit data limit =
     (case limit of
        Some n \<Rightarrow> if 0 < n \<and> n < int (length data) then Inl (HttpError 400 [] ''$apply result exceeds the server limit.'') else Inr ()
      | None \<Rightarrow> Inr ())"

definition item_clauses :: "order_items \<Rightarrow> string list" where
  "item_clauses items = map (\<lambda>(f, d). f @ '' '' @ (case d of Asc \<Rightarrow> ''ASC'' | Desc \<Rightarrow> ''DESC'')) items"

definition slice_if :: "nat option \<Rightarrow> nat option \<Rightarrow> 'a list \<Rightarrow> 'a list" where
  "slice_if skip limit data = (if skip \<noteq> None \<or> limit \<noteq> None then sliceResults data skip limit else data)"

record apply_limits =
  max_rows :: "int option"
  max_fanout :: int

definition run_stage :: "etag_host \<Rightarrow> apply_limits \<Rightarrow> apply_stage \<Rightarrow> js_value list \<Rightarrow> js_value list result" where
  "run_stage h lims stage working =
     rbind (executeAggregation h (max_fanout lims) working stage) (\<lambda>grouped.
       let filtered = applyPostFilters (js_host.truncate h) grouped (postAggregationFilters stage)
       in rbind (ensureApplyFallbackLimit filtered (max_rows lims)) (\<lambda>_.
            let ordered = (if stage_order stage = [] then filtered
                  else orderResults (js_host.truncate h) filtered (item_clauses (stage_order stage)));
                sliced = slice_if (stage_skip stage) (stage_top stage) ordered
            in rbind (ensureApplyFallbackLimit sliced (max_rows lims)) (\<lambda>_. Inr sliced)))"

fun run_stages :: "etag_host \<Rightarrow> apply_limits \<Rightarrow> apply_stage list \<Rightarrow> js_value list \<Rightarrow> bool \<Rightarrow> (js_value list \<times> bool) result" where
  "run_stages h lims [] working sorted_last = Inr (working, sorted_last)"
| "run_stages h lims (s # ss) working sorted_last =
     rbind (run_stage h lims s working) (\<lambda>next_rows. run_stages h lims ss next_rows (stage_order s \<noteq> []))"

text \<open>The rows of a plan, whether they are ordered, and the rows by branch where they come from a \<open>concat\<close>.\<close>

record outcome =
  result_rows :: "js_value list"
  lastStageOrdered :: bool
  branchSegments :: "js_value list list"

text \<open>What a plan does to the rows of its stages and branches; no segments are an empty list.\<close>

definition finish_run :: "etag_host \<Rightarrow> apply_limits \<Rightarrow> apply_plan \<Rightarrow> outcome \<Rightarrow> outcome result" where
  "finish_run h lims plan out =
     (let h' = js_host.truncate h;
          segmented = (branchSegments out \<noteq> []);
          segs1 = (if postFilters plan = [] then branchSegments out
            else map (\<lambda>s. applyPostFiltersPreservingFields h' s (postFilters plan)) (branchSegments out));
          rows1 = (if postFilters plan = [] then result_rows out
            else if segmented then concat segs1 else applyPostFilters h' (result_rows out) (postFilters plan))
      in rbind (ensureApplyFallbackLimit rows1 (max_rows lims)) (\<lambda>_.
           let clauses = item_clauses (postOrderBy plan); sorts = (postOrderBy plan \<noteq> []);
               segs2 = (if sorts then map (\<lambda>s. orderResults h' s clauses) segs1 else segs1);
               rows2 = (if \<not> sorts then rows1 else if segmented then concat segs2 else orderResults h' rows1 clauses);
               slices = (postSkip plan \<noteq> None \<or> postTop plan \<noteq> None);
               rows3 = slice_if (postSkip plan) (postTop plan) rows2
           in rbind (ensureApplyFallbackLimit rows3 (max_rows lims)) (\<lambda>_.
                Inr \<lparr>result_rows = rows3, lastStageOrdered = (lastStageOrdered out \<or> sorts),
                     branchSegments = (if slices then [] else segs2)\<rparr>)))"

fun collect_branches ::
  "apply_limits \<Rightarrow> ('p \<Rightarrow> outcome result) \<Rightarrow> 'p list \<Rightarrow> js_value list \<Rightarrow> js_value list list \<Rightarrow> outcome result" where
  "collect_branches lims run [] rs segs = Inr \<lparr>result_rows = rs, lastStageOrdered = False, branchSegments = segs\<rparr>"
| "collect_branches lims run (b # bs) rs segs =
     rbind (run b) (\<lambda>out.
       let rs' = rs @ result_rows out
       in rbind (ensureApplyFallbackLimit rs' (max_rows lims)) (\<lambda>_.
            collect_branches lims run bs rs'
              (segs @ (if branchSegments out \<noteq> [] then branchSegments out else [result_rows out]))))"

lemma collect_branches_cong [fundef_cong]:
  "bs = bs' \<Longrightarrow> (\<And>b. b \<in> set bs' \<Longrightarrow> run b = run' b) \<Longrightarrow> collect_branches lims run bs rs segs = collect_branches lims run' bs' rs segs"
proof (induction bs' arbitrary: bs rs segs)
  case (Cons b bs')
  then show ?case by (cases "run' b") (simp_all add: Let_def)
qed simp

function executeApplyPlanBranch :: "etag_host \<Rightarrow> apply_limits \<Rightarrow> apply_plan \<Rightarrow> js_value list \<Rightarrow> outcome result" where
  "executeApplyPlanBranch h lims plan input =
     (let working = applyPostFilters (js_host.truncate h) input (preAggregationFilters plan)
      in rbind (ensureApplyFallbackLimit working (max_rows lims)) (\<lambda>_.
         rbind (run_stages h lims (stages plan) working False) (\<lambda>(staged, ordered).
         rbind (if branches plan = [] then Inr \<lparr>result_rows = staged, lastStageOrdered = ordered, branchSegments = []\<rparr>
                else collect_branches lims (\<lambda>b. executeApplyPlanBranch h lims b staged) (branches plan) [] [])
               (finish_run h lims plan))))"
  by pat_completeness auto
termination
proof (relation "measure (\<lambda>(h, lims, plan, input). size plan)")
  fix plan b :: apply_plan
  assume "b \<in> set (branches plan)"
  then have "size b < size plan" by (cases plan) (auto dest!: size_list_estimation' [where f = size, OF _ order_refl])
  then show "\<And>h lims input staged. ((h, lims, b, staged), h, lims, plan, input) \<in> measure (\<lambda>(h, lims, plan, input). size plan)"
    by simp
qed auto

declare executeApplyPlanBranch.simps [simp del]

section \<open>Pages of a result\<close>

definition bad_apply_value :: "string \<Rightarrow> 'a result" where
  "bad_apply_value kind = Inl (HttpError 400 [] (''Invalid '' @ kind @ '' value in $skiptoken.''))"

definition coerceTokenValue :: "js_host \<Rightarrow> string \<Rightarrow> js_value \<Rightarrow> js_value result" where
  "coerceTokenValue h raw sample =
     (if is_nullish sample then Inr (if raw = ''null'' then JNull else JStr raw)
      else case sample of
          JDate t \<Rightarrow> (case date_parse h raw of None \<Rightarrow> bad_apply_value ''date'' | Some u \<Rightarrow> Inr (JDate (Some u)))
        | JNum n \<Rightarrow> (case js_Number raw of NotANumber \<Rightarrow> bad_apply_value ''numeric'' | m \<Rightarrow> Inr (JNum m))
        | JBool b \<Rightarrow> if raw = ''true'' then Inr (JBool True) else if raw = ''false'' then Inr (JBool False) else bad_apply_value ''boolean''
        | _ \<Rightarrow> Inr (JStr raw))"

fun compareRowAgainstToken :: "js_host \<Rightarrow> js_value \<Rightarrow> order_descriptor list \<Rightarrow> string list \<Rightarrow> int result" where
  "compareRowAgainstToken h r [] parts = Inr 0"
| "compareRowAgainstToken h r (d # ds) parts =
     (let v = extractFieldValue r (od_field d)
      in rbind (coerceTokenValue h (case parts of [] \<Rightarrow> [] | p # _ \<Rightarrow> p) v) (\<lambda>t.
           let c = directed d (compareValues h v t)
           in if 0 < c then Inr 1 else if c < 0 then Inr (-1)
              else compareRowAgainstToken h r ds (case parts of [] \<Rightarrow> [] | _ # ps \<Rightarrow> ps)))"

fun filterRowsAfterSkipToken :: "js_host \<Rightarrow> js_value list \<Rightarrow> order_descriptor list \<Rightarrow> string list \<Rightarrow> js_value list result" where
  "filterRowsAfterSkipToken h [] ds parts = Inr []"
| "filterRowsAfterSkipToken h (r # rs) ds parts =
     (if parts = [] then Inr (r # rs)
      else rbind (compareRowAgainstToken h r ds parts) (\<lambda>c.
        rbind (filterRowsAfterSkipToken h rs ds parts) (\<lambda>rest. Inr (if 0 < c then r # rest else rest))))"

definition buildApplyOrderDescriptors :: "order_items \<Rightarrow> string list \<Rightarrow> aggregation list \<Rightarrow> order_descriptor list" where
  "buildApplyOrderDescriptors items keys as =
     (let add = (\<lambda>(f, desc) ds. if f = [] \<or> f \<in> described ds then ds else ds @ [\<lparr>od_field = f, descending = desc\<rparr>]);
          ordered = fold add (map (\<lambda>(f, d). (f, d = Desc)) items) [];
          grouped = (if ordered \<noteq> [] then ordered
            else fold add (map (\<lambda>f. (f, False)) keys @ map (\<lambda>a. (agg_alias a, False)) as) [])
      in if grouped \<noteq> [] then grouped else [\<lparr>od_field = ''value'', descending = False\<rparr>])"

definition serve_apply_page ::
  "etag_host \<Rightarrow> order_descriptor list \<Rightarrow> int \<Rightarrow> js_value list \<Rightarrow> string list option \<Rightarrow> (js_value list \<times> string list option) result" where
  "serve_apply_page h ds pageSize working token =
     (let ordered = orderResults (js_host.truncate h) working (map descriptor_text ds)
      in rbind (case token of None \<Rightarrow> Inr ordered | Some parts \<Rightarrow> filterRowsAfterSkipToken (js_host.truncate h) ordered ds parts) (\<lambda>rest.
           applyServerDrivenPaging h rest ds pageSize))"

text \<open>
  The rows of a result are put in the order of \<open>$orderby\<close> first, unless the last stage has ordered them, and then
  in that of the descriptors. Of a \<open>concat\<close> only the last branch is paged; the others are on every page.
\<close>

definition apply_rows :: "js_host \<Rightarrow> bool \<Rightarrow> string list \<Rightarrow> js_value list \<Rightarrow> js_value list" where
  "apply_rows h ordered_last order working = (if \<not> ordered_last \<and> order \<noteq> [] then orderResults h working order else working)"

definition serve_apply_result ::
  "etag_host \<Rightarrow> order_descriptor list \<Rightarrow> string list \<Rightarrow> int \<Rightarrow> outcome \<Rightarrow> string list option \<Rightarrow> (js_value list \<times> string list option) result" where
  "serve_apply_result h ds order pageSize out token =
     (let prepare = apply_rows (js_host.truncate h) (lastStageOrdered out) order
      in if branchSegments out \<noteq> []
         then rbind (serve_apply_page h ds pageSize (prepare (last (branchSegments out))) token) (\<lambda>(items, link).
           Inr (concat (butlast (branchSegments out)) @ items, link))
         else serve_apply_page h ds pageSize (prepare (result_rows out)) token)"

end
