(* ===== verification/RowOrder.thy ===== *)
theory RowOrder
  imports ApplyFallback ApplyRoundTrip "HOL-Library.Multiset"
begin

text \<open>
  What ordering and paging of results in memory give: for any comparison that is a total preorder on the rows the
  sort is a sorted, stable permutation; the comparison of the code is one on rows whose ordered columns hold
  numbers, or strings, and nulls; and pages of rows with different order keys give every row once.
\<close>

section \<open>Stable sorting\<close>

lemma mset_insert_by [simp]: "mset (insert_by cmp x ys) = add_mset x (mset ys)"
  by (induction ys) auto

lemma mset_sort_by [simp]: "mset (sort_by cmp xs) = mset xs"
  by (induction xs) (simp_all add: sort_by_def)

lemma set_insert_by [simp]: "set (insert_by cmp x ys) = insert x (set ys)"
  using mset_insert_by [of cmp x ys] by (metis set_mset_mset set_mset_add_mset_insert)

lemma set_sort_by [simp]: "set (sort_by cmp xs) = set xs"
  using mset_sort_by [of cmp xs] by (metis set_mset_mset)

lemma length_sort_by [simp]: "length (sort_by cmp xs) = length xs"
  using mset_sort_by [of cmp xs] by (metis size_mset)

lemma sort_by_Cons: "sort_by cmp (x # xs) = insert_by cmp x (sort_by cmp xs)"
  by (simp add: sort_by_def)

locale row_order =
  fixes cmp :: "'a \<Rightarrow> 'a \<Rightarrow> int" and rows :: "'a set"
  assumes antisymmetric: "x \<in> rows \<Longrightarrow> y \<in> rows \<Longrightarrow> cmp y x = - cmp x y"
    and transitive: "x \<in> rows \<Longrightarrow> y \<in> rows \<Longrightarrow> z \<in> rows \<Longrightarrow> cmp x y \<le> 0 \<Longrightarrow> cmp y z \<le> 0 \<Longrightarrow> cmp x z \<le> 0"
begin

lemma insert_sorted:
  "x \<in> rows \<Longrightarrow> set ys \<subseteq> rows \<Longrightarrow> sorted_wrt (\<lambda>a b. cmp a b \<le> 0) ys \<Longrightarrow> sorted_wrt (\<lambda>a b. cmp a b \<le> 0) (insert_by cmp x ys)"
proof (induction ys)
  case (Cons y ys)
  show ?case
  proof (cases "cmp x y \<le> 0")
    case True
    with Cons.prems show ?thesis by (auto intro: transitive [of x y])
  next
    case False
    then have "cmp y x \<le> 0" using antisymmetric [of x y] Cons.prems by simp
    with False Cons show ?thesis by auto
  qed
qed simp

lemma sorted_sort_by: "set xs \<subseteq> rows \<Longrightarrow> sorted_wrt (\<lambda>a b. cmp a b \<le> 0) (sort_by cmp xs)"
proof (induction xs)
  case (Cons x xs)
  then show ?case by (simp add: sort_by_Cons insert_sorted)
qed (simp add: sort_by_def)

lemma equal_before:
  assumes "x \<in> rows" "y \<in> rows" "z \<in> rows" "cmp x y = 0" "cmp x z = 0"
  shows "cmp y z \<le> 0"
  using transitive [of y x z] antisymmetric [of x y] assms by simp

text \<open>Rows that are equal to a row keep their order.\<close>

lemma insert_keeps:
  "x \<in> rows \<Longrightarrow> z \<in> rows \<Longrightarrow> set ys \<subseteq> rows \<Longrightarrow>
     filter (\<lambda>y. cmp z y = 0) (insert_by cmp x ys) = filter (\<lambda>y. cmp z y = 0) (x # ys)"
proof (induction ys)
  case (Cons y ys)
  show ?case
  proof (cases "cmp x y \<le> 0")
    case False
    have "\<not> (cmp z x = 0 \<and> cmp z y = 0)" using equal_before [of z x y] Cons.prems False by auto
    with False Cons show ?thesis by auto
  qed simp
qed simp

lemma stable: "set xs \<subseteq> rows \<Longrightarrow> z \<in> rows \<Longrightarrow> filter (\<lambda>y. cmp z y = 0) (sort_by cmp xs) = filter (\<lambda>y. cmp z y = 0) xs"
proof (induction xs)
  case (Cons x xs)
  then have "filter (\<lambda>y. cmp z y = 0) (sort_by cmp (x # xs)) = filter (\<lambda>y. cmp z y = 0) (x # sort_by cmp xs)"
    unfolding sort_by_Cons by (intro insert_keeps) auto
  with Cons show ?case by simp
qed (simp add: sort_by_def)

lemma sort_sorted: "set xs \<subseteq> rows \<Longrightarrow> sorted_wrt (\<lambda>a b. cmp a b \<le> 0) xs \<Longrightarrow> sort_by cmp xs = xs"
proof (induction xs)
  case (Cons x xs)
  then have "sort_by cmp xs = xs" by simp
  with Cons.prems show ?case by (cases xs) (simp_all add: sort_by_Cons)
qed (simp add: sort_by_def)

end

section \<open>The comparison of the code\<close>

definition tidy_value :: "bool \<Rightarrow> js_value \<Rightarrow> bool" where
  "tidy_value texts v \<longleftrightarrow> (case v of JNull \<Rightarrow> True | JStr s \<Rightarrow> texts | JNum (Finite x) \<Rightarrow> \<not> texts | _ \<Rightarrow> False)"

text \<open>The rows whose ordered columns hold strings (as \<open>texts\<close> says) or numbers, and nulls.\<close>

definition tidy :: "(string \<Rightarrow> bool) \<Rightarrow> order_descriptor list \<Rightarrow> js_value set" where
  "tidy texts ds = {r. \<forall>d\<in>set ds. tidy_value (texts (od_field d)) (get_prop r (od_field d))}"

lemma str_less_trans: "str_less s t \<Longrightarrow> str_less t u \<Longrightarrow> str_less s u"
proof (induction s t arbitrary: u rule: str_less.induct)
  case (2 d ds)
  then show ?case by (cases u) auto
next
  case (3 c cs d ds)
  then show ?case by (cases u) auto
qed simp

lemma tidy_iff: "tidy_value t a \<longleftrightarrow> a = JNull \<or> (t \<and> (\<exists>s. a = JStr s)) \<or> (\<not> t \<and> (\<exists>x. a = JNum (Finite x)))"
  by (cases a) (auto simp: tidy_value_def split: js_number.splits)

lemma compare_values_simps [simp]:
  "compare_values h JNull JNull = 0"
  "compare_values h JNull (JStr s) = 1" "compare_values h (JStr s) JNull = -1"
  "compare_values h JNull (JNum n) = 1" "compare_values h (JNum n) JNull = -1"
  "compare_values h (JStr s) (JStr t) = (if str_less s t then -1 else if str_less t s then 1 else 0)"
  "compare_values h (JNum (Finite x)) (JNum (Finite y)) = (if x < y then -1 else if y < x then 1 else 0)"
  by (simp_all add: compare_values_def compare_text_def sign_of_def)

lemma tidy_antisym: "tidy_value t a \<Longrightarrow> tidy_value t b \<Longrightarrow> compare_values h b a = - compare_values h a b"
  using str_less_asym by (auto simp: tidy_iff)

lemma tidy_zero: "tidy_value t a \<Longrightarrow> tidy_value t b \<Longrightarrow> compare_values h a b = 0 \<longleftrightarrow> a = b"
  using str_less_total by (auto simp: tidy_iff split: if_splits)

lemma tidy_strict:
  "tidy_value t a \<Longrightarrow> tidy_value t b \<Longrightarrow> tidy_value t c \<Longrightarrow> compare_values h a b < 0 \<Longrightarrow> compare_values h b c < 0 \<Longrightarrow> compare_values h a c < 0"
  by (auto simp: tidy_iff split: if_splits) (blast dest: str_less_trans)+

lemma directed_strict:
  assumes "tidy_value t a" "tidy_value t b" "tidy_value t c"
    and "directed d (compare_values h a b) < 0" "directed d (compare_values h b c) < 0"
  shows "directed d (compare_values h a c) < 0"
  using assms tidy_strict [of t a b c h] tidy_strict [of t c b a h] tidy_antisym [of t a b h] tidy_antisym [of t b c h] tidy_antisym [of t a c h]
  by (simp add: directed_def split: if_splits)

lemma rows_antisym:
  "x \<in> tidy texts ds \<Longrightarrow> y \<in> tidy texts ds \<Longrightarrow> compare_rows h ds y x = - compare_rows h ds x y"
proof (induction ds)
  case (Cons d ds)
  then have "compare_values h (get_prop y (od_field d)) (get_prop x (od_field d)) = - compare_values h (get_prop x (od_field d)) (get_prop y (od_field d))"
    by (intro tidy_antisym) (auto simp: tidy_def)
  with Cons show ?case by (simp add: tidy_def Let_def)
qed simp

lemma rows_trans:
  "x \<in> tidy texts ds \<Longrightarrow> y \<in> tidy texts ds \<Longrightarrow> z \<in> tidy texts ds \<Longrightarrow>
     compare_rows h ds x y \<le> 0 \<Longrightarrow> compare_rows h ds y z \<le> 0 \<Longrightarrow> compare_rows h ds x z \<le> 0"
proof (induction ds)
  case (Cons d ds)
  let ?c = "\<lambda>a b. directed d (compare_values h (get_prop a (od_field d)) (get_prop b (od_field d)))"
  have t: "tidy_value (texts (od_field d)) (get_prop x (od_field d))" "tidy_value (texts (od_field d)) (get_prop y (od_field d))"
    "tidy_value (texts (od_field d)) (get_prop z (od_field d))" "x \<in> tidy texts ds" "y \<in> tidy texts ds" "z \<in> tidy texts ds"
    using Cons.prems by (auto simp: tidy_def)
  consider "?c x y = 0" | "?c y z = 0" | "?c x y < 0" "?c y z < 0"
    using Cons.prems(4,5) by (fastforce simp: Let_def split: if_splits)
  then show ?case
  proof cases
    case 1
    then have "get_prop x (od_field d) = get_prop y (od_field d)" using tidy_zero [OF t(1,2)] by simp
    with Cons t 1 show ?thesis by (auto simp: Let_def split: if_splits)
  next
    case 2
    then have "get_prop y (od_field d) = get_prop z (od_field d)" using tidy_zero [OF t(2,3)] by simp
    with Cons t 2 show ?thesis by (auto simp: Let_def split: if_splits)
  next
    case 3
    then have "?c x z < 0" by (rule directed_strict [OF t(1,2,3)])
    then have "?c x z \<noteq> 0" "?c x z \<le> 0" by linarith+
    then show ?thesis by (simp add: Let_def del: directed_zero)
  qed
qed simp

interpretation ordering: row_order "compare_rows h ds" "tidy texts ds"
  by unfold_locales (fact rows_antisym, fact rows_trans)

section \<open>Pages of a result\<close>

text \<open>Rows with a value in every column of the order, and different ones in different rows.\<close>

definition keyed :: "etag_host \<Rightarrow> (string \<Rightarrow> bool) \<Rightarrow> order_descriptor list \<Rightarrow> js_value \<Rightarrow> bool" where
  "keyed h texts ds r \<longleftrightarrow> \<not> is_nullish r \<and> (\<forall>d\<in>set ds. od_field d \<noteq> [] \<and> CHR ''/'' \<notin> set (od_field d) \<and> list_all (\<lambda>c. \<not> is_space c) (od_field d)
     \<and> (if texts (od_field d) then \<exists>s. get_prop r (od_field d) = JStr s
        else \<exists>x. get_prop r (od_field d) = JNum (Finite x) \<and> js_Number (number_text h x) = Finite x))"

lemma keyed_tidy: "keyed h texts ds r \<Longrightarrow> r \<in> tidy texts ds"
  by (auto simp: keyed_def tidy_def tidy_iff split: if_splits)

lemma keyed_complete: "keyed h texts ds r \<Longrightarrow> row_complete ds r"
  by (fastforce simp: keyed_def row_complete_def order_keys_def list_all_iff split: if_splits)

lemma keyed_Cons: "keyed h texts (d # ds) r \<Longrightarrow> keyed h texts ds r"
  by (simp add: keyed_def)

lemma compare_agrees:
  "tidy_value t a \<Longrightarrow> tidy_value t b \<Longrightarrow> a \<noteq> JNull \<Longrightarrow> b \<noteq> JNull \<Longrightarrow> compareValues h a b = compare_values h a b"
  by (auto simp: tidy_iff compareValues_def compare_text_def sign_of_def)

lemma keyed_value: "keyed h texts (d # ds) r \<Longrightarrow>
    tidy_value (texts (od_field d)) (get_prop r (od_field d)) \<and> get_prop r (od_field d) \<noteq> JNull
      \<and> extractFieldValue r (od_field d) = get_prop r (od_field d)"
  by (auto simp: keyed_def tidy_iff extractFieldValue_def split_on_single split: if_splits)

lemma before_is_after:
  "keyed h texts ds r \<Longrightarrow> keyed h texts ds s \<Longrightarrow>
     (compare_rows h' ds r s < 0 \<longleftrightarrow> lex_after h' ds (order_keys ds s) (order_keys ds r))
     \<and> (compare_rows h' ds r s = 0 \<longleftrightarrow> order_keys ds r = order_keys ds s)"
proof (induction ds)
  case (Cons d ds)
  let ?a = "get_prop r (od_field d)" and ?b = "get_prop s (od_field d)"
  note r = keyed_value [OF Cons.prems(1)] and s = keyed_value [OF Cons.prems(2)]
  have c: "compareValues h' ?b ?a = - compare_values h' ?a ?b" "compare_values h' ?a ?b = 0 \<longleftrightarrow> ?a = ?b"
    using compare_agrees [of "texts (od_field d)" ?b ?a h'] tidy_antisym [of "texts (od_field d)" ?a ?b h'] tidy_zero r s by auto
  have IH: "(compare_rows h' ds r s < 0 \<longleftrightarrow> lex_after h' ds (order_keys ds s) (order_keys ds r))
     \<and> (compare_rows h' ds r s = 0 \<longleftrightarrow> order_keys ds r = order_keys ds s)"
    using Cons keyed_Cons by blast
  show ?case
  proof (cases "?a = ?b")
    case True
    then show ?thesis using IH c by (simp add: order_keys_def Let_def)
  next
    case False
    then have "directed d (compare_values h' ?a ?b) \<noteq> 0" using c by simp
    then show ?thesis using False c by (auto simp: order_keys_def Let_def simp del: directed_zero(1))
  qed
qed (simp add: order_keys_def)

text \<open>A row against the token of another is compared by their keys.\<close>

lemma coerce_back:
  assumes "keyed h texts (d # ds) r" "keyed h texts (d # ds) s"
  shows "coerceTokenValue (js_host.truncate h) (projr (stringifySkipTokenValue h (get_prop r (od_field d)))) (get_prop s (od_field d))
      = Inr (get_prop r (od_field d))"
    and "stringifySkipTokenValue h (get_prop r (od_field d)) = Inr (projr (stringifySkipTokenValue h (get_prop r (od_field d))))"
    and "get_prop r (od_field d) \<noteq> JUndefined"
  using assms by (auto simp: keyed_def coerceTokenValue_def stringifySkipTokenValue_def js_host.truncate_def split: if_splits)

lemma compare_with_token:
  "keyed h texts ds r \<Longrightarrow> keyed h texts ds s \<Longrightarrow>
     \<exists>c. compareRowAgainstToken (js_host.truncate h) s ds (token_of h ds r) = Inr c
       \<and> (0 < c \<longleftrightarrow> lex_after (js_host.truncate h) ds (order_keys ds s) (order_keys ds r))"
proof (induction ds)
  case (Cons d ds)
  then obtain c where "compareRowAgainstToken (js_host.truncate h) s ds (token_of h ds r) = Inr c"
    "0 < c \<longleftrightarrow> lex_after (js_host.truncate h) ds (order_keys ds s) (order_keys ds r)"
    using keyed_Cons by blast
  moreover note coerce_back(1) [OF Cons.prems] keyed_value [OF Cons.prems(2)]
  ultimately show ?case by (auto simp: token_of_def order_keys_def Let_def)
qed (simp add: token_of_def order_keys_def)

lemma filtered_rows:
  "keyed h texts ds r \<Longrightarrow> ds \<noteq> [] \<Longrightarrow> \<forall>s\<in>set rs. keyed h texts ds s \<Longrightarrow>
     filterRowsAfterSkipToken (js_host.truncate h) rs ds (token_of h ds r) =
     Inr (filter (\<lambda>s. comes_after (js_host.truncate h) ds s r) rs)"
proof (induction rs)
  case (Cons s rs)
  then obtain c where "compareRowAgainstToken (js_host.truncate h) s ds (token_of h ds r) = Inr c"
    "0 < c \<longleftrightarrow> lex_after (js_host.truncate h) ds (order_keys ds s) (order_keys ds r)"
    using compare_with_token [of h texts ds r s] by auto
  moreover have "token_of h ds r \<noteq> []" using Cons.prems(2) by (simp add: token_of_def)
  ultimately show ?case using Cons keyed_complete by (auto simp: comes_after_def)
qed simp

lemma token_values_keyed: "keyed h texts ds r \<Longrightarrow> token_values h r ds = Inr (Some (token_of h ds r))"
proof (induction ds)
  case (Cons d ds)
  then show ?case
    using coerce_back(2,3) [OF Cons.prems Cons.prems] keyed_value [OF Cons.prems] keyed_Cons [OF Cons.prems]
    by (cases "stringifySkipTokenValue h (get_prop r (od_field d))") (simp_all add: token_of_def)
qed (simp add: token_of_def)

lemma applied_keyed_page:
  assumes "0 < n" "ds \<noteq> []" "\<forall>r\<in>set rs. keyed h texts ds r"
  shows "applyServerDrivenPaging h rs ds (int n) = Inr (page n (token_of h ds) rs)"
proof (cases "length rs \<le> n")
  case False
  then have "take n rs \<noteq> []" using assms(1) by auto
  then have "last (take n rs) = rs ! (n - 1)" using False assms(1) by (simp add: last_conv_nth min_def)
  moreover have k: "keyed h texts ds (rs ! (n - 1))" using False assms(3) by simp
  moreover have "createSkipToken h (rs ! (n - 1)) ds = Inr (Some (token_of h ds (rs ! (n - 1))))"
    using token_values_keyed [OF k] k assms(2) by (simp add: createSkipToken_def keyed_def)
  ultimately show ?thesis using False assms(1) by (simp add: applyServerDrivenPaging_def page_def Let_def)
qed (simp add: applyServerDrivenPaging_def page_def)

lemma order_fields_text:
  "\<forall>d\<in>set ds. od_field d \<noteq> [] \<and> list_all (\<lambda>c. \<not> is_space c) (od_field d) \<Longrightarrow> order_fields (map descriptor_text ds) = ds"
proof (induction ds)
  case (Cons d ds)
  let ?w = "if descending d then ''DESC'' else ''ASC''"
  have f: "od_field d \<noteq> []" "list_all (\<lambda>c. \<not> is_space c) (od_field d)" using Cons.prems by simp_all
  have "trim (descriptor_text d) = descriptor_text d"
    using f by (intro trim_id) (cases "od_field d", auto simp: descriptor_text_def is_space_def code_def)
  moreover have "split_ws (descriptor_text d) = [od_field d, ?w]"
    using split_ws_word [OF f(2), of "[]" "CHR '' '' # ?w"] f(1)
    by (auto simp: split_ws_def descriptor_text_def is_space_def code_def)
  moreover have "upper ''DESC'' = ''DESC''" "upper ''ASC'' \<noteq> ''DESC''" by code_simp+
  ultimately show ?case using Cons f(1) by (cases d) auto
qed simp

lemma ordered_strictly:
  fixes h :: etag_host and ds :: "order_descriptor list" and rs :: "js_value list"
  assumes "\<forall>r\<in>set rs. keyed h texts ds r" "distinct (map (order_keys ds) rs)" "ds \<noteq> []"
  defines "out \<equiv> orderResults (js_host.truncate h) rs (map descriptor_text ds)"
  shows "sorted_wrt (\<lambda>r s. comes_after (js_host.truncate h) ds s r) out \<and> mset out = mset rs"
proof (cases "rs = []")
  case False
  then obtain r where "r \<in> set rs" by (cases rs) auto
  with assms(1) have "\<forall>d\<in>set ds. od_field d \<noteq> [] \<and> list_all (\<lambda>c. \<not> is_space c) (od_field d)" by (auto simp: keyed_def)
  then have s: "out = sort_by (compare_rows (js_host.truncate h) ds) rs"
    using assms(3) by (simp add: out_def orderResults_def order_fields_text)
  then have m: "mset out = mset rs" by simp
  have w: "sorted_wrt (\<lambda>a b. compare_rows (js_host.truncate h) ds a b \<le> 0) out"
    unfolding s using assms(1) keyed_tidy by (intro ordering.sorted_sort_by [where texts = texts]) auto
  have d: "distinct (map (order_keys ds) out)"
    using assms(2) mset_eq_imp_distinct_iff [of "map (order_keys ds) out" "map (order_keys ds) rs"] by (simp add: m)
  have after: "comes_after (js_host.truncate h) ds s' r'"
    if "compare_rows (js_host.truncate h) ds r' s' \<le> 0" "r' \<in> set rs" "s' \<in> set rs" "order_keys ds r' \<noteq> order_keys ds s'" for r' s'
    using that assms(1) before_is_after [of h texts ds r' s' "js_host.truncate h"] keyed_complete by (auto simp: comes_after_def)
  have "sorted_wrt (\<lambda>r s. comes_after (js_host.truncate h) ds s r) out"
    unfolding sorted_wrt_iff_nth_less
  proof (intro allI impI)
    fix i j assume ij: "i < j" "j < length out"
    moreover have "order_keys ds (out ! i) \<noteq> order_keys ds (out ! j)"
      using d ij nth_eq_iff_index_eq [OF d, of i j] by auto
    moreover have "compare_rows (js_host.truncate h) ds (out ! i) (out ! j) \<le> 0"
      using w ij by (simp add: sorted_wrt_iff_nth_less)
    moreover have "out ! i \<in> set rs" "out ! j \<in> set rs"
      using ij nth_mem [of i out] nth_mem [of j out] by (simp_all add: s)
    ultimately show "comes_after (js_host.truncate h) ds (out ! j) (out ! i)" using after by blast
  qed
  with m show ?thesis by simp
qed (simp_all add: out_def orderResults_def Let_def sort_by_def)

lemma apply_pages_cover:
  assumes "0 < n" "ds \<noteq> []" "\<forall>r\<in>set rs. keyed h texts ds r" "distinct (map (order_keys ds) rs)" "length rs < fuel"
  shows "\<exists>pages. follow fuel (serve_apply_page h ds (int n) rs) None = Inr pages
    \<and> concat pages = orderResults (js_host.truncate h) rs (map descriptor_text ds) \<and> (\<forall>p\<in>set pages. length p \<le> n)"
proof (rule collection.follow_all)
  let ?sorted = "orderResults (js_host.truncate h) rs (map descriptor_text ds)"
  note s = conjunct1 [OF ordered_strictly [OF assms(3,4,2)]] conjunct2 [OF ordered_strictly [OF assms(3,4,2)]]
  have set: "set ?sorted = set rs" using s(2) by (metis set_mset_mset)
  show "sorted_wrt (\<lambda>r s. comes_after (js_host.truncate h) ds s r) ?sorted" by (fact s(1))
  show "length ?sorted < fuel" using s(2) assms(5) by (metis size_mset)
  have page: "applyServerDrivenPaging h (filter P ?sorted) ds (int n) = Inr (page n (token_of h ds) (filter P ?sorted))" for P
    using assms(3) set by (intro applied_keyed_page [OF assms(1,2)]) auto
  show "serve_apply_page h ds (int n) rs None = Inr (page n (token_of h ds) ?sorted)"
    using page [of "\<lambda>_. True"] by (simp add: serve_apply_page_def Let_def)
  fix r assume "r \<in> set ?sorted"
  then show "serve_apply_page h ds (int n) rs (Some (token_of h ds r)) =
      Inr (page n (token_of h ds) (filter (\<lambda>s. comes_after (js_host.truncate h) ds s r) ?sorted))"
    using assms(2,3) set filtered_rows [of h texts ds r ?sorted] page by (simp add: serve_apply_page_def Let_def)
qed (fact assms(1))

text \<open>
  When the columns of the descriptors tell the rows apart, the order of \<open>$orderby\<close> leaves no trace: the rows are
  sorted again by the descriptors.
\<close>

lemma strictly_sorted_unique:
  assumes "sorted_wrt P xs" "sorted_wrt P ys" "mset xs = mset ys" "\<And>x y. P x y \<Longrightarrow> \<not> P y x"
  shows "xs = ys"
  using assms(1-3)
proof (induction xs arbitrary: ys)
  case (Cons x xs)
  then obtain y ys' where ys: "ys = y # ys'" by (cases ys) auto
  have "x = y"
  proof (rule ccontr)
    assume n: "x \<noteq> y"
    have "set (x # xs) = set ys" using Cons.prems(3) by (metis set_mset_mset)
    then have "y \<in> set xs" "x \<in> set ys'" using n ys by auto
    then show False using Cons.prems(1,2) ys assms(4) by auto
  qed
  with Cons ys show ?case by simp
qed simp

lemma after_asymmetric: "comes_after h ds r s \<Longrightarrow> \<not> comes_after h ds s r"
  unfolding comes_after_def row_complete_def using lex_asymmetric by blast

lemma orderby_leaves_no_trace:
  assumes "\<forall>r\<in>set rs. keyed h texts ds r" "distinct (map (order_keys ds) rs)" "ds \<noteq> []"
  shows "orderResults (js_host.truncate h) (apply_rows (js_host.truncate h) b order rs) (map descriptor_text ds)
    = orderResults (js_host.truncate h) rs (map descriptor_text ds)"
proof -
  let ?rows = "apply_rows (js_host.truncate h) b order rs"
  have m: "mset ?rows = mset rs" by (simp add: apply_rows_def orderResults_def Let_def)
  then have "set ?rows = set rs" by (metis set_mset_mset)
  moreover have "mset (map (order_keys ds) ?rows) = mset (map (order_keys ds) rs)" using m by simp
  then have "distinct (map (order_keys ds) ?rows)" using assms(2) by (metis mset_eq_imp_distinct_iff)
  ultimately have "sorted_wrt (\<lambda>r s. comes_after (js_host.truncate h) ds s r) (orderResults (js_host.truncate h) ?rows (map descriptor_text ds))
      \<and> mset (orderResults (js_host.truncate h) ?rows (map descriptor_text ds)) = mset ?rows"
    using assms by (intro ordered_strictly) auto
  with ordered_strictly [OF assms] m show ?thesis
    by (intro strictly_sorted_unique [where P = "\<lambda>r s. comes_after (js_host.truncate h) ds s r"]) (auto dest: after_asymmetric)
qed

text \<open>Every page of a \<open>concat\<close> repeats the rows of all branches but the last.\<close>

lemma concat_pages_repeat:
  assumes "branchSegments out \<noteq> []" "serve_apply_result h ds order pageSize out token = Inr (items, link)"
  shows "\<exists>rest. items = concat (butlast (branchSegments out)) @ rest"
  using assms by (auto simp: serve_apply_result_def Let_def)

lemma result_pages_cover:
  assumes "0 < n" "ds \<noteq> []" "branchSegments out = []" "\<forall>r\<in>set (result_rows out). keyed h texts ds r"
    and "distinct (map (order_keys ds) (result_rows out))" "length (result_rows out) < fuel"
  shows "\<exists>pages. follow fuel (serve_apply_result h ds order (int n) out) None = Inr pages
    \<and> concat pages = orderResults (js_host.truncate h) (result_rows out) (map descriptor_text ds) \<and> (\<forall>p\<in>set pages. length p \<le> n)"
proof -
  let ?rows = "apply_rows (js_host.truncate h) (lastStageOrdered out) order (result_rows out)"
  have m: "mset ?rows = mset (result_rows out)" by (simp add: apply_rows_def orderResults_def Let_def)
  have "serve_apply_result h ds order (int n) out = serve_apply_page h ds (int n) ?rows"
    by (rule ext) (simp add: serve_apply_result_def assms(3) Let_def)
  moreover have "set ?rows = set (result_rows out)" "length ?rows = length (result_rows out)"
    using m by (metis set_mset_mset, metis size_mset)
  moreover have "mset (map (order_keys ds) ?rows) = mset (map (order_keys ds) (result_rows out))" using m by simp
  then have "distinct (map (order_keys ds) ?rows)" using assms(5) by (metis mset_eq_imp_distinct_iff)
  ultimately show ?thesis
    using apply_pages_cover [OF assms(1,2), of ?rows h texts fuel] assms(4,6) orderby_leaves_no_trace [OF assms(4,5,2)] by simp
qed

end
