(* ===== verification/GroupMeaning.thy ===== *)
theory GroupMeaning
  imports ApplyExecution
begin

text \<open>
  What grouping in memory computes: one record for every key, in the order in which the keys first occur, with the
  aggregates of the rows that have it; and what each aggregate is of the values it is given.
\<close>

section \<open>Aggregates of values\<close>

definition finites :: "js_host \<Rightarrow> js_value list \<Rightarrow> rat list" where
  "finites h vs = concat (map (\<lambda>v. case js_to_number h v of Finite x \<Rightarrow> [x] | _ \<Rightarrow> []) vs)"

fun primitive :: "js_value \<Rightarrow> bool" where
  "primitive (JDate d) = False"
| "primitive (JArr vs) = False"
| "primitive (JObj ps) = False"
| "primitive v = True"

definition aggregate_value :: "js_host \<Rightarrow> aggregation_operator \<Rightarrow> js_value list \<Rightarrow> js_value" where
  "aggregate_value h f vs =
     (let xs = finites h vs
      in case f of
          Sum \<Rightarrow> JNum (Finite (sum_list xs))
        | Average \<Rightarrow> if xs = [] then JNull else JNum (Finite (sum_list xs / of_nat (length xs)))
        | Min \<Rightarrow> if xs = [] then JNull else JNum (Finite (linorder_class.Min (set xs)))
        | Max \<Rightarrow> if xs = [] then JNull else JNum (Finite (linorder_class.Max (set xs)))
        | Count \<Rightarrow> number_of_nat (length vs)
        | CountDistinct \<Rightarrow> number_of_nat (card (set vs))
        | ObjectConstructor \<Rightarrow> JNull)"

lemma to_number_finite: "\<bar>x\<bar> < max_double \<Longrightarrow> to_number x = Finite x"
  by (simp add: to_number_def)

lemma finites_snoc: "finites h (vs @ [v]) = finites h vs @ (case js_to_number h v of Finite x \<Rightarrow> [x] | _ \<Rightarrow> [])"
  by (simp add: finites_def)

lemma abs_sum_list: "\<bar>sum_list xs\<bar> \<le> sum_list (map abs xs)" for xs :: "rat list"
proof (induction xs)
  case (Cons x xs)
  then show ?case using abs_triangle_ineq [of x "sum_list xs"] by simp
qed simp

lemma same_primitive_eq: "primitive v \<Longrightarrow> same_primitive v w \<longleftrightarrow> v = w"
  by (cases v; cases w) auto

text \<open>The state an accumulator has after the values.\<close>

definition accumulated :: "js_host \<Rightarrow> aggregation_operator \<Rightarrow> js_value list \<Rightarrow> accumulator" where
  "accumulated h f vs = fold (updateAccumulatorState h) vs (createAccumulatorState f)"

lemma accumulated_snoc: "accumulated h f (vs @ [v]) = updateAccumulatorState h v (accumulated h f vs)"
  by (simp add: accumulated_def)

lemma accumulated_operator: "acc_operator (accumulated h f vs) = f"
proof (induction vs rule: rev_induct)
  case (snoc v vs)
  then show ?case
    by (cases f) (simp_all add: accumulated_snoc updateAccumulatorState_def split: js_number.split)
qed (simp add: accumulated_def createAccumulatorState_def)

lemma accumulated_facts:
  shows "f = Count \<Longrightarrow> acc_count (accumulated h f vs) = length vs"
    and "f = Average \<Longrightarrow> acc_count (accumulated h f vs) = length (finites h vs)"
    and "f \<in> {Sum, Average} \<Longrightarrow> sum_list (map abs (finites h vs)) < max_double \<Longrightarrow>
      acc_sum (accumulated h f vs) = Finite (sum_list (finites h vs))"
    and "f = Min \<Longrightarrow> acc_min (accumulated h f vs) = (if finites h vs = [] then None else Some (linorder_class.Min (set (finites h vs))))"
    and "f = Max \<Longrightarrow> acc_max (accumulated h f vs) = (if finites h vs = [] then None else Some (linorder_class.Max (set (finites h vs))))"
    and "f = CountDistinct \<Longrightarrow> list_all primitive vs \<Longrightarrow>
      set (acc_distinct (accumulated h f vs)) = set vs \<and> distinct (acc_distinct (accumulated h f vs))"
proof (induction vs rule: rev_induct)
  case Nil
  { case 1 show ?case by (simp add: accumulated_def createAccumulatorState_def)
  next case 2 show ?case by (simp add: accumulated_def createAccumulatorState_def finites_def)
  next case 3 show ?case by (simp add: accumulated_def createAccumulatorState_def finites_def)
  next case 4 show ?case by (simp add: accumulated_def createAccumulatorState_def finites_def)
  next case 5 show ?case by (simp add: accumulated_def createAccumulatorState_def finites_def)
  next case 6 show ?case by (simp add: accumulated_def createAccumulatorState_def) }
next
  case (snoc v vs)
  note op = accumulated_operator [of h f vs]
  { case 1 with snoc op show ?case by (simp add: accumulated_snoc updateAccumulatorState_def)
  next case 2 with snoc op show ?case
      by (simp add: accumulated_snoc updateAccumulatorState_def finites_snoc split: js_number.split)
  next
    case 3
    show ?case
    proof (cases "js_to_number h v")
      case (Finite x)
      have b: "sum_list (map abs (finites h vs)) < max_double" "\<bar>sum_list (finites h vs) + x\<bar> < max_double"
        using 3(2) abs_sum_list [of "finites h vs @ [x]"] Finite by (auto simp: finites_snoc)
      with snoc(3) 3(1) op Finite show ?thesis
        by (auto simp: accumulated_snoc updateAccumulatorState_def finites_snoc to_number_finite)
    qed (use 3 snoc(3) op in \<open>auto simp: accumulated_snoc updateAccumulatorState_def finites_snoc\<close>)
  next case 4 with snoc op show ?case
      by (auto simp: accumulated_snoc updateAccumulatorState_def finites_snoc min.commute split: js_number.split)
  next case 5 with snoc op show ?case
      by (auto simp: accumulated_snoc updateAccumulatorState_def finites_snoc max.commute split: js_number.split)
  next case 6 with snoc op show ?case
      by (auto simp: accumulated_snoc updateAccumulatorState_def set_add_def list_ex_iff same_primitive_eq) }
qed

lemma aggregate_exact:
  assumes "sum_list (map abs (finites h vs)) < max_double" "f = CountDistinct \<Longrightarrow> list_all primitive vs"
  shows "finalizeAccumulatorState (accumulated h f vs) = aggregate_value h f vs"
proof (cases f)
  case Average
  let ?xs = "finites h vs"
  have "\<bar>sum_list ?xs / of_nat (length ?xs)\<bar> < max_double" if "?xs \<noteq> []"
  proof -
    have "\<bar>sum_list ?xs / of_nat (length ?xs)\<bar> \<le> \<bar>sum_list ?xs\<bar>"
      using that by (simp add: abs_divide divide_le_eq mult_le_cancel_left1 Suc_leI)
    with assms(1) abs_sum_list [of ?xs] show ?thesis by linarith
  qed
  with Average show ?thesis
    using accumulated_facts(2,3) [where f = f and h = h and vs = vs] assms(1) accumulated_operator [of h f vs]
    by (auto simp: finalizeAccumulatorState_def aggregate_value_def Let_def div_numbers_def to_number_finite)
next
  case CountDistinct
  then have "length (acc_distinct (accumulated h f vs)) = card (set vs)"
    using accumulated_facts(6) [where f = f and h = h and vs = vs] assms(2) by (metis distinct_card)
  with CountDistinct show ?thesis
    using accumulated_operator [of h f vs] by (simp add: finalizeAccumulatorState_def aggregate_value_def Let_def)
qed (use accumulated_facts [where f = f and h = h and vs = vs] assms(1) accumulated_operator [of h f vs]
      in \<open>auto simp: finalizeAccumulatorState_def aggregate_value_def Let_def\<close>)

section \<open>Groups of rows\<close>

definition firsts :: "'a list \<Rightarrow> 'a list" where
  "firsts xs = rev (remdups (rev xs))"

lemma firsts_facts [simp]: "set (firsts xs) = set xs" "distinct (firsts xs)" "firsts [] = []"
  "firsts (xs @ [x]) = (if x \<in> set xs then firsts xs else firsts xs @ [x])"
  by (simp_all add: firsts_def)

definition stage_values :: "apply_stage \<Rightarrow> js_value \<Rightarrow> js_value list" where
  "stage_values stage r = map (resolveVariantValue r []) (groupBy stage)"

definition stage_key :: "etag_host \<Rightarrow> apply_stage \<Rightarrow> js_value \<Rightarrow> string option" where
  "stage_key h stage r = json_stringify h (JArr (stage_values stage r))"

text \<open>The group of rows with one key: the values of the first, and the aggregates of all.\<close>

definition stage_group :: "js_host \<Rightarrow> apply_stage \<Rightarrow> js_value list \<Rightarrow> group" where
  "stage_group h stage rs = fold (\<lambda>r. accumulate h (aggregates stage) r []) rs
     (new_group (groupBy stage) (aggregates stage) (stage_values stage (hd rs)))"

definition with_key :: "etag_host \<Rightarrow> apply_stage \<Rightarrow> js_value list \<Rightarrow> string option \<Rightarrow> js_value list" where
  "with_key h stage rs k = filter (\<lambda>r. stage_key h stage r = k) rs"

definition grouped :: "etag_host \<Rightarrow> apply_stage \<Rightarrow> js_value list \<Rightarrow> (string option \<times> group) list" where
  "grouped h stage rs = map (\<lambda>k. (k, stage_group (js_host.truncate h) stage (with_key h stage rs k))) (firsts (map (stage_key h stage) rs))"

lemma with_key_snoc: "with_key h stage (rs @ [r]) k = with_key h stage rs k @ (if stage_key h stage r = k then [r] else [])"
  by (simp add: with_key_def)

lemma with_key_Nil: "with_key h stage rs k = [] \<longleftrightarrow> k \<notin> set (map (stage_key h stage) rs)"
  by (auto simp: with_key_def filter_empty_conv)

lemma stage_group_snoc:
  "stage_group h stage (rs @ [r]) =
     (if rs = [] then accumulate h (aggregates stage) r [] (new_group (groupBy stage) (aggregates stage) (stage_values stage r))
      else accumulate h (aggregates stage) r [] (stage_group h stage rs))"
  by (simp add: stage_group_def hd_append)

lemma map_of_grouped:
  "map_of (map (\<lambda>k. (k, g k)) ks) k = (if k \<in> set ks then Some (g k) else None)"
  by (induction ks) auto

lemma group_update_snoc: "group_update h stage r [] (grouped h stage rs) = grouped h stage (rs @ [r])"
proof -
  let ?key = "stage_key h stage r"
  let ?step = "accumulate (js_host.truncate h) (aggregates stage) r []"
  have u: "group_update h stage r [] groups =
     (case map_of groups ?key of
        Some g \<Rightarrow> map (\<lambda>(k, g'). if k = ?key then (k, ?step g') else (k, g')) groups
      | None \<Rightarrow> groups @ [(?key, ?step (new_group (groupBy stage) (aggregates stage) (stage_values stage r)))])" for groups
    unfolding group_update_def stage_key_def stage_values_def Let_def by (rule refl)
  show ?thesis
  proof (cases "?key \<in> set (map (stage_key h stage) rs)")
    case True
    then have "with_key h stage rs ?key \<noteq> []" using with_key_Nil by blast
    with True show ?thesis
      by (auto simp: u grouped_def map_of_grouped with_key_snoc stage_group_snoc simp del: set_map)
  next
    case False
    then have n: "with_key h stage rs ?key = []" using with_key_Nil by blast
    have "with_key h stage (rs @ [r]) k = with_key h stage rs k" if "k \<in> set (firsts (map (stage_key h stage) rs))" for k
      using that False by (auto simp: with_key_snoc)
    then show ?thesis using False n
      by (simp add: u grouped_def map_of_grouped with_key_snoc [of h stage rs r ?key] stage_group_snoc [of _ _ "[]", simplified] del: set_map)
  qed
qed

lemma fold_group_update: "fold (\<lambda>r. group_update h stage r []) rs [] = grouped h stage rs"
proof (induction rs rule: rev_induct)
  case (snoc r rs)
  then show ?case by (simp add: group_update_snoc)
qed (simp add: grouped_def)

lemma aggregate_rows_plain:
  "navigationPaths stage = [] \<Longrightarrow> 1 \<le> fanout \<Longrightarrow>
     aggregate_rows h fanout stage rs groups = Inr (fold (\<lambda>r. group_update h stage r []) rs groups)"
  by (induction rs arbitrary: groups) (simp_all add: expandNavigationVariants_def groupNavigationPaths_def)

lemma aggregation_groups:
  assumes "navigationPaths stage = []" "1 \<le> fanout"
  shows "executeAggregation h fanout rs stage =
    Inr (map (\<lambda>k. group_record (stage_group (js_host.truncate h) stage (with_key h stage rs k))) (firsts (map (stage_key h stage) rs)))"
  by (simp add: executeAggregation_def aggregate_rows_plain [OF assms] fold_group_update grouped_def comp_def)

text \<open>Rows are in one group just when JSON tells their key values apart by nothing.\<close>

lemma same_group:
  assumes "numbers_ok h" "list_all scalar (stage_values stage r)" "list_all scalar (stage_values stage s)"
  shows "stage_key h stage r = stage_key h stage s \<longleftrightarrow>
    map (json_normal h) (stage_values stage r) = map (json_normal h) (stage_values stage s)"
  unfolding stage_key_def by (rule array_text_iff [OF assms(1) _ assms(2,3)]) (simp add: stage_values_def)

section \<open>Aggregates of a group\<close>

lemma accumulate_at:
  assumes "distinct (map agg_alias as)"
  shows "map_of (fold (accumulate_one h r v) as accs) al =
    (case map_of (map (\<lambda>a. (agg_alias a, a)) as) al of
       None \<Rightarrow> map_of accs al
     | Some a \<Rightarrow> map_option (updateAccumulatorState h (evaluateAggregateOperand h a r v)) (map_of accs al))"
  using assms
proof (induction as arbitrary: accs)
  case (Cons a as)
  have one: "map_of (accumulate_one h r v a accs) k =
      (if k = agg_alias a then map_option (updateAccumulatorState h (evaluateAggregateOperand h a r v)) (map_of accs k) else map_of accs k)" for k
    by (auto simp: accumulate_one_def split: option.split)
  have none: "map_of (map (\<lambda>a. (agg_alias a, a)) as) (agg_alias a) = None"
    using Cons.prems by (auto simp: map_of_eq_None_iff image_image)
  show ?case using Cons none by (simp add: one split: option.split)
qed simp

lemma accumulate_keys: "map fst (fold (accumulate_one h r v) as accs) = map fst accs"
proof (induction as arbitrary: accs)
  case (Cons a as)
  have "map_of accs k \<noteq> None \<Longrightarrow> map fst (obj_set k st accs) = map fst accs" for k st
    by (induction accs) (auto split: if_splits)
  then have "map fst (accumulate_one h r v a accs) = map fst accs"
    by (auto simp: accumulate_one_def split: option.split)
  with Cons show ?case by simp
qed simp

lemma new_group_at:
  "distinct (map agg_alias as) \<Longrightarrow> a \<in> set as \<Longrightarrow>
     map_of (accumulators (new_group keys as vs)) (agg_alias a) = Some (createAccumulatorState (agg_operator a))"
proof -
  have "distinct (map agg_alias as) \<Longrightarrow> map_of (fold (\<lambda>a. obj_set (agg_alias a) (createAccumulatorState (agg_operator a))) as accs) al =
      (case map_of (map (\<lambda>a. (agg_alias a, a)) as) al of
         None \<Rightarrow> map_of accs al | Some a \<Rightarrow> Some (createAccumulatorState (agg_operator a)))" for accs al
  proof (induction as arbitrary: accs)
    case (Cons a as)
    then have "map_of (map (\<lambda>a. (agg_alias a, a)) as) (agg_alias a) = None"
      by (auto simp: map_of_eq_None_iff image_image)
    with Cons show ?case by (auto split: option.split)
  qed simp
  moreover assume d: "distinct (map agg_alias as)" and "a \<in> set as"
  then have "map_of (map (\<lambda>a. (agg_alias a, a)) as) (agg_alias a) = Some a"
    by (intro map_of_is_SomeI) (auto simp: comp_def)
  ultimately show "map_of (accumulators (new_group keys as vs)) (agg_alias a) = Some (createAccumulatorState (agg_operator a))"
    using d by (simp add: new_group_def)
qed

lemma new_group_keys: "distinct (map fst (accumulators (new_group keys as vs)))"
proof -
  have "distinct (map fst accs) \<Longrightarrow> distinct (map fst (fold (\<lambda>a. obj_set (agg_alias a) (createAccumulatorState (agg_operator a))) as accs))" for accs
    by (induction as arbitrary: accs) (auto intro: distinct_obj_set)
  then show ?thesis by (simp add: new_group_def)
qed

lemma stage_group_at:
  assumes "distinct (map agg_alias (aggregates stage))" "a \<in> set (aggregates stage)"
  shows "map_of (accumulators (stage_group h stage rs)) (agg_alias a) =
      Some (accumulated h (agg_operator a) (map (\<lambda>r. evaluateAggregateOperand h a r []) rs))"
    and "distinct (map fst (accumulators (stage_group h stage rs)))"
proof -
  have a: "map_of (map (\<lambda>a. (agg_alias a, a)) (aggregates stage)) (agg_alias a) = Some a"
    using assms by (intro map_of_is_SomeI) (auto simp: comp_def)
  have step: "map_of (accumulators (fold (\<lambda>r. accumulate h (aggregates stage) r []) rs g)) (agg_alias a) =
      map_option (\<lambda>st. fold (updateAccumulatorState h) (map (\<lambda>r. evaluateAggregateOperand h a r []) rs) st) (map_of (accumulators g) (agg_alias a))
    \<and> map fst (accumulators (fold (\<lambda>r. accumulate h (aggregates stage) r []) rs g)) = map fst (accumulators g)" for g
  proof (induction rs arbitrary: g)
    case (Cons r rs)
    have "map_of (accumulators (accumulate h (aggregates stage) r [] g)) (agg_alias a) =
        map_option (updateAccumulatorState h (evaluateAggregateOperand h a r [])) (map_of (accumulators g) (agg_alias a))"
      "map fst (accumulators (accumulate h (aggregates stage) r [] g)) = map fst (accumulators g)"
      by (simp_all add: accumulate_def accumulate_at [OF assms(1)] accumulate_keys a)
    with Cons show ?case by (simp add: option.map_comp comp_def)
  qed (simp add: option.map_id)
  show "map_of (accumulators (stage_group h stage rs)) (agg_alias a) =
      Some (accumulated h (agg_operator a) (map (\<lambda>r. evaluateAggregateOperand h a r []) rs))"
    using step new_group_at [OF assms] by (simp add: stage_group_def accumulated_def)
  show "distinct (map fst (accumulators (stage_group h stage rs)))"
    using step new_group_keys by (simp add: stage_group_def)
qed

lemma map_of_fold_set:
  "distinct (map fst kvs) \<Longrightarrow> map_of (fold (\<lambda>(k, v). obj_set k (g v)) kvs m) k =
     (case map_of kvs k of None \<Rightarrow> map_of m k | Some v \<Rightarrow> Some (g v))"
proof (induction kvs arbitrary: m)
  case (Cons kv kvs)
  obtain k' v where kv: "kv = (k', v)" by fastforce
  with Cons.prems have "map_of kvs k' = None" by (simp add: map_of_eq_None_iff)
  with Cons kv show ?case by (simp split: option.split)
qed simp

lemma group_total:
  fixes h :: js_host and rs :: "js_value list"
  assumes "distinct (map agg_alias (aggregates stage))" "a \<in> set (aggregates stage)"
  defines "vs \<equiv> map (\<lambda>r. evaluateAggregateOperand h a r []) rs"
  assumes "sum_list (map abs (finites h vs)) < max_double" "agg_operator a = CountDistinct \<Longrightarrow> list_all primitive vs"
  shows "get_prop (group_record (stage_group h stage rs)) (agg_alias a) = aggregate_value h (agg_operator a) vs"
  using stage_group_at [OF assms(1,2), of h rs] aggregate_exact [OF assms(4,5)]
  by (simp add: group_record_def map_of_fold_set vs_def)

end
