(* ===== verification/PlanMeaning.thy ===== *)
theory PlanMeaning
  imports ApplyFallback
begin

text \<open>
  Plans and pipelines: running the transformations of a pipeline one after the other is the reference, and a
  plan gives the same for pipelines whose stages are written in the order in which a plan runs them. For
  others it does not: a plan keeps what a stage does, not in which order.
\<close>

section \<open>The reference: one transformation after the other\<close>

definition plain_stage :: "string list \<Rightarrow> aggregation list \<Rightarrow> apply_stage" where
  "plain_stage keys as = \<lparr>groupBy = keys, aggregates = as, postAggregationFilters = [], stage_order = [], stage_top = None,
     stage_skip = None, navigationPaths = []\<rparr>"

fun transform_rows :: "etag_host \<Rightarrow> int \<Rightarrow> apply_transformation \<Rightarrow> js_value list \<Rightarrow> js_value list result" where
  "transform_rows h fanout (TFilter e) rs = Inr (filter (post_holds (js_host.truncate h) e) rs)"
| "transform_rows h fanout (TGroupBy ks as) rs = executeAggregation h fanout rs (plain_stage ks as)"
| "transform_rows h fanout (TAggregate as) rs = executeAggregation h fanout rs (plain_stage [] as)"
| "transform_rows h fanout (TOrderBy items) rs = Inr (orderResults (js_host.truncate h) rs (item_clauses items))"
| "transform_rows h fanout (TSkip n) rs = Inr (drop n rs)"
| "transform_rows h fanout (TTop n) rs = Inr (take n rs)"
| "transform_rows h fanout (TBottom n) rs = throw ''bottom() transformation is not supported yet.''"
| "transform_rows h fanout (TConcat ps) rs = throw ''concat''"

fun run_pipeline :: "etag_host \<Rightarrow> int \<Rightarrow> apply_pipeline \<Rightarrow> js_value list \<Rightarrow> js_value list result" where
  "run_pipeline h fanout [] rs = Inr rs"
| "run_pipeline h fanout (t # ts) rs = rbind (transform_rows h fanout t rs) (run_pipeline h fanout ts)"

section \<open>Pipelines in the order of plans\<close>

datatype block_head = Grouping "string list" "aggregation list" | Aggregating "aggregation list"

fun head_of :: "block_head \<Rightarrow> apply_transformation" where
  "head_of (Grouping ks as) = TGroupBy ks as"
| "head_of (Aggregating as) = TAggregate as"

fun stage_of_head :: "block_head \<Rightarrow> apply_stage" where
  "stage_of_head (Grouping ks as) = plain_stage ks as"
| "stage_of_head (Aggregating as) = plain_stage [] as"

record block =
  b_head :: block_head
  b_filters :: "parsed_expression list"
  b_order :: "order_items option"
  b_skip :: "nat option"
  b_top :: "nat option"

definition opt_list :: "('a \<Rightarrow> 'b) \<Rightarrow> 'a option \<Rightarrow> 'b list" where
  "opt_list f x = (case x of None \<Rightarrow> [] | Some y \<Rightarrow> [f y])"

definition block_pipeline :: "block \<Rightarrow> apply_pipeline" where
  "block_pipeline b = [head_of (b_head b)] @ map TFilter (b_filters b) @ opt_list TOrderBy (b_order b)
     @ opt_list TSkip (b_skip b) @ opt_list TTop (b_top b)"

definition block_stage :: "block \<Rightarrow> apply_stage" where
  "block_stage b = (stage_of_head (b_head b))\<lparr>postAggregationFilters := b_filters b,
     stage_order := (case b_order b of None \<Rightarrow> [] | Some items \<Rightarrow> items), stage_top := b_top b, stage_skip := b_skip b\<rparr>"

definition staged :: "parsed_expression list \<Rightarrow> block list \<Rightarrow> apply_pipeline" where
  "staged fs bs = map TFilter fs @ concat (map block_pipeline bs)"

lemma plan_loop_append: "plan_loop opts req (ts @ us) st = rbind (plan_loop opts req ts st) (plan_loop opts req us)"
proof (induction ts arbitrary: st)
  case (Cons t ts)
  show ?case
  proof (cases t)
    case (TConcat ps)
    let ?bs = "rmap (\<lambda>p. if p = [] then throw ''Empty $apply pipeline.''
              else rbind (plan_loop opts False p nothing_planned) (finish_plan opts False)) ps"
    show ?thesis using Cons by (cases ?bs) (simp_all add: TConcat)
  qed (use Cons in \<open>cases "plan_step (where_options opts) req t st"; simp\<close>)+
qed simp

lemma plan_step_is: "\<not> is_concat t \<Longrightarrow> plan_loop opts req (t # ts) st = rbind (plan_step (where_options opts) req t st) (plan_loop opts req ts)"
  by (cases t) simp_all

declare plan_loop.simps(2) [simp del]

lemma change_change: "the_stages st \<noteq> [] \<Longrightarrow> change_stage f (change_stage g st) = change_stage (f \<circ> g) st"
  by (simp add: change_stage_def)

lemma current_change [simp]: "current (change_stage f st) = current st" "the_stages (change_stage f st) \<noteq> []"
  "the_stages st \<noteq> [] \<Longrightarrow> last (the_stages (change_stage f st)) = f (last (the_stages st))"
  by (simp_all add: change_stage_def)

lemma plan_stage_filters:
  "current st \<Longrightarrow> the_stages st \<noteq> [] \<Longrightarrow>
     plan_loop opts req (map TFilter fs) st = Inr (change_stage (\<lambda>s. s\<lparr>postAggregationFilters := postAggregationFilters s @ fs\<rparr>) st)"
proof (induction fs arbitrary: st)
  case Nil
  then show ?case by (simp add: change_stage_def)
next
  case (Cons e fs)
  then show ?case by (simp add: plan_step_is change_change comp_def)
qed

lemma plan_block:
  "plan_loop opts req (block_pipeline b) st = Inr (st\<lparr>the_stages := the_stages st @ [block_stage b], current := True\<rparr>)"
proof -
  let ?s1 = "st\<lparr>the_stages := the_stages st @ [stage_of_head (b_head b)], current := True\<rparr>"
  have "plan_loop opts req [head_of (b_head b)] st = Inr ?s1"
    by (cases "b_head b") (simp_all add: plan_step_is startStage_def plain_stage_def)
  moreover have "plan_loop opts req (map TFilter (b_filters b)) ?s1 =
      Inr (st\<lparr>the_stages := the_stages st @ [(stage_of_head (b_head b))\<lparr>postAggregationFilters := b_filters b\<rparr>], current := True\<rparr>)"
    by (cases "b_head b") (simp_all add: plan_stage_filters change_stage_def plain_stage_def)
  ultimately show ?thesis
    by (cases "b_order b"; cases "b_skip b"; cases "b_top b"; cases "b_head b")
      (simp_all add: block_pipeline_def plan_loop_append plan_step_is opt_list_def change_stage_def block_stage_def plain_stage_def)
qed

lemma plan_blocks:
  "plan_loop opts req (concat (map block_pipeline bs)) st =
     Inr (if bs = [] then st else st\<lparr>the_stages := the_stages st @ map block_stage bs, current := True\<rparr>)"
  by (induction bs arbitrary: st) (simp_all add: plan_loop_append plan_block)

text \<open>The filters at the front, by what the database can test and what it cannot.\<close>

fun split_filters :: "parse_options \<Rightarrow> parsed_expression list \<Rightarrow> (where_clause option \<times> parsed_expression list) \<Rightarrow> (where_clause option \<times> parsed_expression list) result" where
  "split_filters opts [] acc = Inr acc"
| "split_filters opts (e # es) (w, pre) =
     rbind (buildWhereCandidate opts e) (\<lambda>c. split_filters opts es
       (case c of Some w' \<Rightarrow> (Some (mergeWhereClauses w w'), pre) | None \<Rightarrow> (w, pre @ [e])))"

lemma plan_front_filters:
  "\<not> current st \<Longrightarrow> \<not> has_results st \<Longrightarrow>
     plan_loop opts req (map TFilter fs) st =
     rbind (split_filters (where_options opts) fs (the_where st, pre_filters st)) (\<lambda>(w, pre). Inr (st\<lparr>the_where := w, pre_filters := pre\<rparr>))"
proof (induction fs arbitrary: st)
  case (Cons e fs)
  show ?case
  proof (cases "buildWhereCandidate (where_options opts) e")
    case (Inr c)
    then show ?thesis using Cons by (cases c) (simp_all add: plan_step_is has_results_def)
  qed (use Cons in \<open>simp add: plan_step_is\<close>)
qed simp

definition condition_of :: "js_host \<Rightarrow> where_clause option \<Rightarrow> js_value \<Rightarrow> bool" where
  "condition_of h w r = (case w of None \<Rightarrow> True | Some c \<Rightarrow> where_holds h (get_prop r) c)"

text \<open>The database tests a pushed filter as the evaluation in memory does.\<close>

definition pushed_alike :: "js_host \<Rightarrow> parse_options \<Rightarrow> parsed_expression list \<Rightarrow> js_value list \<Rightarrow> bool" where
  "pushed_alike h opts fs rs \<longleftrightarrow>
     (\<forall>e\<in>set fs. \<forall>w. buildWhere opts e = Inr w \<longrightarrow> (\<forall>r\<in>set rs. where_holds h (get_prop r) w = post_holds h e r))"

lemma candidate_pushed: "buildWhereCandidate opts e = Inr (Some w) \<Longrightarrow> buildWhere opts e = Inr w"
  by (auto simp: buildWhereCandidate_def split: sum.splits odata_error.splits if_splits)

lemma split_filters_hold:
  assumes "split_filters opts fs (w, pre) = Inr (w', pre')" "pushed_alike h opts fs rs" "r \<in> set rs"
  shows "condition_of h w' r \<and> list_all (\<lambda>e. post_holds h e r) pre' \<longleftrightarrow>
    condition_of h w r \<and> list_all (\<lambda>e. post_holds h e r) pre \<and> list_all (\<lambda>e. post_holds h e r) fs"
  using assms
proof (induction fs arbitrary: w pre)
  case (Cons e fs)
  have "pushed_alike h opts fs rs" using Cons.prems(2) by (simp add: pushed_alike_def)
  moreover obtain c where c: "buildWhereCandidate opts e = Inr c"
    "split_filters opts fs (case c of Some w'' \<Rightarrow> (Some (mergeWhereClauses w w''), pre) | None \<Rightarrow> (w, pre @ [e])) = Inr (w', pre')"
    using Cons.prems(1) by auto
  moreover have "c = Some w'' \<Longrightarrow> where_holds h (get_prop r) w'' = post_holds h e r" for w''
    using c(1) candidate_pushed Cons.prems(2,3) by (auto simp: pushed_alike_def)
  ultimately show ?case using Cons.IH Cons.prems(3)
    by (cases c) (auto simp: condition_of_def mergeWhereClauses_def split: option.splits)
qed simp

section \<open>Plans run their pipelines\<close>

lemma post_filters: "applyPostFilters h rs es = filter (\<lambda>r. list_all (\<lambda>e. post_holds h e r) es) rs"
proof (induction es arbitrary: rs)
  case (Cons e es)
  then show ?case by (simp add: applyPostFilters_def conj_commute)
qed (simp add: applyPostFilters_def)

lemma run_append: "run_pipeline h fanout (ts @ us) rs = rbind (run_pipeline h fanout ts rs) (run_pipeline h fanout us)"
proof (induction ts arbitrary: rs)
  case (Cons t ts)
  then show ?case by (cases "transform_rows h fanout t rs") simp_all
qed simp

lemma run_filters: "run_pipeline h fanout (map TFilter es) rs = Inr (applyPostFilters (js_host.truncate h) rs es)"
  by (induction es arbitrary: rs) (simp_all add: applyPostFilters_def)

definition unlimited :: "int \<Rightarrow> apply_limits" where
  "unlimited fanout = \<lparr>max_rows = None, max_fanout = fanout\<rparr>"

lemma no_limit [simp]: "ensureApplyFallbackLimit rs (max_rows (unlimited fanout)) = Inr ()" "max_fanout (unlimited fanout) = fanout"
  by (simp_all add: ensureApplyFallbackLimit_def unlimited_def)

lemma aggregate_same_stage:
  "executeAggregation h fanout rs (block_stage b) = transform_rows h fanout (head_of (b_head b)) rs"
proof -
  have "groupBy (block_stage b) = groupBy (stage_of_head (b_head b))" "aggregates (block_stage b) = aggregates (stage_of_head (b_head b))"
    by (simp_all add: block_stage_def)
  then have g: "group_update h (block_stage b) = group_update h (stage_of_head (b_head b))"
    by (intro ext) (simp only: group_update_def)
  have "navigationPaths (block_stage b) = navigationPaths (stage_of_head (b_head b))" by (simp add: block_stage_def)
  then have "aggregate_rows h fanout (block_stage b) rs gs = aggregate_rows h fanout (stage_of_head (b_head b)) rs gs" for gs
    by (induction rs arbitrary: gs) (simp_all add: g)
  then show ?thesis by (cases "b_head b") (simp_all add: executeAggregation_def)
qed

lemma run_block: "run_stage h (unlimited fanout) (block_stage b) rs = run_pipeline h fanout (block_pipeline b) rs"
proof (cases "transform_rows h fanout (head_of (b_head b)) rs")
  case (Inr grouped)
  have [simp]: "postAggregationFilters (block_stage b) = b_filters b" "stage_skip (block_stage b) = b_skip b"
    "stage_top (block_stage b) = b_top b" "stage_order (block_stage b) = (case b_order b of None \<Rightarrow> [] | Some items \<Rightarrow> items)"
    by (simp_all add: block_stage_def)
  have "orderResults (js_host.truncate h) rs (item_clauses []) = rs" for rs
    by (simp add: orderResults_def item_clauses_def)
  then show ?thesis
    by (cases "b_order b"; cases "b_skip b"; cases "b_top b")
      (auto simp: run_stage_def block_pipeline_def run_append run_filters aggregate_same_stage Inr opt_list_def Let_def
        slice_if_def sliceResults_def)
qed (simp add: run_stage_def aggregate_same_stage block_pipeline_def)

lemma run_blocks:
  "rbind (run_stages h (unlimited fanout) (map block_stage bs) rs o1) (\<lambda>(out, o2). Inr out) = run_pipeline h fanout (concat (map block_pipeline bs)) rs"
proof (induction bs arbitrary: rs o1)
  case (Cons b bs)
  then show ?case by (cases "run_pipeline h fanout (block_pipeline b) rs") (simp_all add: run_append run_block)
qed simp

lemma staged_plan:
  assumes "buildApplyExecutionPlan opts (staged fs bs) = Inr plan" "planner_model opts = None" "bs \<noteq> []"
  shows "\<exists>w pre. plan = Plan w pre (map block_stage bs) [] [] None None []
    \<and> split_filters (where_options opts) fs (None, []) = Inr (w, pre)"
proof -
  have "plan_loop opts req (staged fs bs) nothing_planned =
    rbind (split_filters (where_options opts) fs (None, [])) (\<lambda>(w, pre).
      Inr (nothing_planned\<lparr>the_where := w, pre_filters := pre, the_stages := map block_stage bs, current := True\<rparr>))" for req
  proof (cases "split_filters (where_options opts) fs (None, [])")
    case (Inr acc)
    then show ?thesis using assms(3)
      by (cases acc) (simp add: staged_def plan_loop_append plan_front_filters plan_blocks nothing_planned_def has_results_def)
  qed (simp add: staged_def plan_loop_append plan_front_filters nothing_planned_def has_results_def)
  with assms show ?thesis
    by (auto simp: buildApplyExecutionPlan_def finish_plan_def populate_def nothing_planned_def Let_def split: if_splits)
qed

lemma staged_plan_runs:
  assumes "buildApplyExecutionPlan opts (staged fs bs) = Inr plan" "planner_model opts = None" "bs \<noteq> []"
    and "pushed_alike (js_host.truncate h) (where_options opts) fs rs"
  shows "rbind (executeApplyPlanBranch h (unlimited fanout) plan (filter (condition_of (js_host.truncate h) (pushdownWhere plan)) rs))
      (\<lambda>out. Inr (result_rows out)) = run_pipeline h fanout (staged fs bs) rs"
proof -
  obtain w pre where plan: "plan = Plan w pre (map block_stage bs) [] [] None None []"
    and split: "split_filters (where_options opts) fs (None, []) = Inr (w, pre)"
    using staged_plan [OF assms(1-3)] by blast
  let ?h = "js_host.truncate h"
  have "applyPostFilters ?h (filter (condition_of ?h w) rs) pre = applyPostFilters ?h rs fs"
    using split_filters_hold [OF split assms(4)] by (auto simp: post_filters condition_of_def [of _ None] intro!: filter_cong)
  moreover have "finish_run h (unlimited fanout) plan \<lparr>result_rows = out, lastStageOrdered = o2, branchSegments = []\<rparr>
      = Inr \<lparr>result_rows = out, lastStageOrdered = o2, branchSegments = []\<rparr>" for out o2
    by (simp add: plan finish_run_def slice_if_def Let_def)
  ultimately show ?thesis
    using run_blocks [of h fanout bs "applyPostFilters ?h rs fs" False, symmetric]
    by (cases "run_stages h (unlimited fanout) (map block_stage bs) (applyPostFilters ?h rs fs) False")
      (auto simp: executeApplyPlanBranch.simps [of h _ "Plan w pre (map block_stage bs) [] [] None None []"] Let_def staged_def run_append run_filters plan)
qed

section \<open>What plans forget\<close>

lemma plans_forget:
  "buildApplyExecutionPlan opts [TGroupBy ks as, TTop n, TSkip m] = buildApplyExecutionPlan opts [TGroupBy ks as, TSkip m, TTop n]"
  "buildApplyExecutionPlan opts [TGroupBy ks as, TTop n, TFilter e] = buildApplyExecutionPlan opts [TGroupBy ks as, TFilter e, TTop n]"
  "buildApplyExecutionPlan opts [TConcat ps, TGroupBy ks as] = buildApplyExecutionPlan opts [TGroupBy ks as, TConcat ps]"
proof -
  show "buildApplyExecutionPlan opts [TGroupBy ks as, TTop n, TSkip m] = buildApplyExecutionPlan opts [TGroupBy ks as, TSkip m, TTop n]"
    "buildApplyExecutionPlan opts [TGroupBy ks as, TTop n, TFilter e] = buildApplyExecutionPlan opts [TGroupBy ks as, TFilter e, TTop n]"
    by (simp_all add: buildApplyExecutionPlan_def plan_step_is startStage_def change_stage_def nothing_planned_def)
  let ?bs = "rmap (\<lambda>p. if p = [] then throw ''Empty $apply pipeline.''
              else rbind (plan_loop opts False p nothing_planned) (finish_plan opts False)) ps"
  show "buildApplyExecutionPlan opts [TConcat ps, TGroupBy ks as] = buildApplyExecutionPlan opts [TGroupBy ks as, TConcat ps]"
    by (cases ?bs) (simp_all add: buildApplyExecutionPlan_def plan_step_is startStage_def nothing_planned_def plan_loop.simps finish_plan_def)
qed

end
