(* ===== verification/Search.thy ===== *)
theory Search
  imports Paging
begin

text \<open>
  \<open>$search\<close> of the generated controllers (\<open>controllers/crud-controller-factory.ts\<close>): the scanner, the
  recursive-descent parser, the translation to a \<open>Where\<close> object over the searchable fields, and \<open>applySearch\<close>
  with its limits. An expression that is printed is read back, and the \<open>Where\<close> object holds of the entities
  the expression matches.
\<close>

section \<open>Tokens\<close>

datatype search_token = TokTerm string | TokAnd | TokOr | TokNot | TokOpen | TokClose

definition quote_char :: "char \<Rightarrow> bool" where
  "quote_char c \<longleftrightarrow> c = dquote \<or> c = quote"

definition invalid_search :: "string \<Rightarrow> 'a result" where
  "invalid_search msg = Inl (HttpError 400 [] (''Invalid $search expression: '' @ msg))"

text \<open>A phrase up to its quote, and what follows it; a backslash takes the next character as it is.\<close>

fun read_phrase :: "char \<Rightarrow> string \<Rightarrow> string \<Rightarrow> (string \<times> string) option" where
  "read_phrase q [] acc = None"
| "read_phrase q [c] acc = (if c = backslash then None else if c = q then Some (acc, []) else None)"
| "read_phrase q (c # d # cs) acc =
     (if c = backslash then read_phrase q cs (acc @ [d])
      else if c = q then Some (acc, d # cs)
      else read_phrase q (d # cs) (acc @ [c]))"

fun read_word :: "string \<Rightarrow> string \<Rightarrow> string \<times> string" where
  "read_word [] acc = (acc, [])"
| "read_word (c # cs) acc =
     (if c = CHR ''('' \<or> c = CHR '')'' \<or> is_space c \<or> quote_char c then (acc, c # cs)
      else case cs of
          [] \<Rightarrow> read_word cs (acc @ [c])
        | d # ds \<Rightarrow> if c = backslash then read_word ds (acc @ [d]) else read_word cs (acc @ [c]))"

definition word_token :: "string \<Rightarrow> search_token list" where
  "word_token w =
     (let v = trim w
      in if v = [] then []
         else if upper v = ''AND'' then [TokAnd]
         else if upper v = ''OR'' then [TokOr]
         else if upper v = ''NOT'' then [TokNot]
         else [TokTerm v])"

lemma read_phrase_length: "read_phrase q s acc = Some (v, rest) \<Longrightarrow> length rest < length s"
  by (induction q s acc rule: read_phrase.induct) (auto split: if_splits)

lemma read_word_length: "read_word s acc = (v, rest) \<Longrightarrow> length rest \<le> length s"
  by (induction s acc rule: read_word.induct) (auto split: if_splits list.splits)

lemma read_word_shorter:
  assumes "\<not> is_space c" "c \<noteq> CHR ''(''" "c \<noteq> CHR '')''" "\<not> quote_char c" "(v, rest) = read_word (c # cs) []"
  shows "length rest \<le> length cs"
proof (cases cs)
  case Nil
  then show ?thesis using assms by simp
next
  case (Cons d ds)
  have "read_word (c # cs) [] = (if c = backslash then read_word ds [d] else read_word cs [c])"
    unfolding read_word.simps(2) [of c cs] using assms Cons by (simp del: read_word.simps)
  then have "(if c = backslash then read_word ds [d] else read_word cs [c]) = (v, rest)" using assms by simp
  then show ?thesis using Cons read_word_length [of ds "[d]" v rest] read_word_length [of cs "[c]" v rest]
    by (cases "c = backslash") simp_all
qed

function scanSearchTokens :: "string \<Rightarrow> search_token list result" where
  "scanSearchTokens s =
     (case s of
        [] \<Rightarrow> Inr []
      | c # cs \<Rightarrow>
          if is_space c then scanSearchTokens cs
          else if c = CHR ''('' then rbind (scanSearchTokens cs) (\<lambda>ts. Inr (TokOpen # ts))
          else if c = CHR '')'' then rbind (scanSearchTokens cs) (\<lambda>ts. Inr (TokClose # ts))
          else if quote_char c
          then (case read_phrase c cs [] of
              None \<Rightarrow> invalid_search ''unterminated quoted phrase.''
            | Some (v, rest) \<Rightarrow>
                if v = [] then invalid_search ''quoted phrase cannot be empty.''
                else rbind (scanSearchTokens rest) (\<lambda>ts. Inr (TokTerm v # ts)))
          else (case read_word (c # cs) [] of
              (w, rest) \<Rightarrow> rbind (scanSearchTokens rest) (\<lambda>ts. Inr (word_token w @ ts))))"
  by pat_completeness auto
termination
  by (relation "measure length") (auto dest: read_phrase_length read_word_shorter simp del: read_word.simps simp: less_Suc_eq_le)

declare scanSearchTokens.simps [simp del]

section \<open>The parser\<close>

datatype search_ast = Term string | AllOfThem "search_ast list" | AnyOfThem "search_ast list" | NotOf search_ast

type_synonym search_parser = "search_token list \<Rightarrow> (search_ast \<times> search_token list) result"

fun parse_not :: "search_parser \<Rightarrow> search_parser" where
  "parse_not primary (TokNot # ts) = rbind (parse_not primary ts) (\<lambda>(e, rest). Inr (NotOf e, rest))"
| "parse_not primary ts = primary ts"

text \<open>A conjunction goes on at \<open>AND\<close> and, without it, at a term, a parenthesis or a \<open>NOT\<close>.\<close>

fun and_loop :: "nat \<Rightarrow> search_parser \<Rightarrow> search_ast list \<Rightarrow> search_token list \<Rightarrow> (search_ast list \<times> search_token list) result" where
  "and_loop 0 unary nodes ts = Inl OutOfFuel"
| "and_loop (Suc k) unary nodes ts =
     (case ts of
        TokAnd # rest \<Rightarrow> rbind (unary rest) (\<lambda>(e, rest'). and_loop k unary (nodes @ [e]) rest')
      | TokTerm v # rest \<Rightarrow> rbind (unary ts) (\<lambda>(e, rest'). and_loop k unary (nodes @ [e]) rest')
      | TokOpen # rest \<Rightarrow> rbind (unary ts) (\<lambda>(e, rest'). and_loop k unary (nodes @ [e]) rest')
      | TokNot # rest \<Rightarrow> rbind (unary ts) (\<lambda>(e, rest'). and_loop k unary (nodes @ [e]) rest')
      | _ \<Rightarrow> Inr (nodes, ts))"

fun or_loop :: "nat \<Rightarrow> search_parser \<Rightarrow> search_ast list \<Rightarrow> search_token list \<Rightarrow> (search_ast list \<times> search_token list) result" where
  "or_loop 0 part nodes ts = Inl OutOfFuel"
| "or_loop (Suc k) part nodes ts =
     (case ts of
        TokOr # rest \<Rightarrow> rbind (part rest) (\<lambda>(e, rest'). or_loop k part (nodes @ [e]) rest')
      | _ \<Rightarrow> Inr (nodes, ts))"

definition joined_nodes :: "(search_ast list \<Rightarrow> search_ast) \<Rightarrow> search_ast list \<Rightarrow> search_ast" where
  "joined_nodes f nodes = (case nodes of [e] \<Rightarrow> e | _ \<Rightarrow> f nodes)"

definition parse_and :: "search_parser \<Rightarrow> search_parser" where
  "parse_and unary ts = rbind (unary ts) (\<lambda>(e, rest).
     rbind (and_loop (length rest + 1) unary [e] rest) (\<lambda>(nodes, rest'). Inr (joined_nodes AllOfThem nodes, rest')))"

definition parse_any :: "search_parser \<Rightarrow> search_parser" where
  "parse_any part ts = rbind (part ts) (\<lambda>(e, rest).
     rbind (or_loop (length rest + 1) part [e] rest) (\<lambda>(nodes, rest'). Inr (joined_nodes AnyOfThem nodes, rest')))"

definition parse_primary :: "search_parser \<Rightarrow> search_parser" where
  "parse_primary expr ts =
     (case ts of
        TokOpen # rest \<Rightarrow> rbind (expr rest) (\<lambda>(e, rest').
          case rest' of
            TokClose # rest'' \<Rightarrow> Inr (e, rest'')
          | _ \<Rightarrow> invalid_search ''Expected closing parenthesis.'')
      | TokTerm v # rest \<Rightarrow> Inr (Term v, rest)
      | [] \<Rightarrow> invalid_search ''Unexpected end of expression.''
      | _ \<Rightarrow> invalid_search ''Unexpected token.'')"

text \<open>Parentheses nest at most as deep as there are tokens.\<close>

fun parse_or :: "nat \<Rightarrow> search_parser" where
  "parse_or 0 ts = Inl OutOfFuel"
| "parse_or (Suc n) ts = parse_any (parse_and (parse_not (parse_primary (parse_or n)))) ts"

fun terms :: "search_ast \<Rightarrow> string list" where
  "terms (Term v) = [v]"
| "terms (AllOfThem es) = concat (map terms es)"
| "terms (AnyOfThem es) = concat (map terms es)"
| "terms (NotOf e) = terms e"

text \<open>The number of terms the parser counts is the number of those in its result.\<close>

definition parseSearchExpression :: "string \<Rightarrow> (search_ast \<times> nat) option result" where
  "parseSearchExpression s = rbind (scanSearchTokens s) (\<lambda>ts.
     if ts = [] then Inr None
     else rbind (parse_or (length ts + 1) ts) (\<lambda>(e, rest).
       if rest \<noteq> [] then invalid_search ''Unexpected token.''
       else Inr (if terms e = [] then None else Some (e, length (terms e)))))"

section \<open>The Where object of an expression\<close>

definition connectorSupportsIlike :: "string option \<Rightarrow> bool" where
  "connectorSupportsIlike name =
     (case name of
        None \<Rightarrow> False
      | Some n \<Rightarrow> contains_str (lower n) ''postgres'' \<or> contains_str (lower n) ''cockroach'' \<or> contains_str (lower n) ''memory'')"

text \<open>The operators for a term and for its negation, by whether the connector has \<open>ilike\<close>.\<close>

definition getSearchComparisonStrategy :: "bool \<Rightarrow> string \<times> string" where
  "getSearchComparisonStrategy ilike = (if ilike then (''ilike'', ''nilike'') else (''like'', ''nlike''))"

definition search_pattern :: "string \<Rightarrow> js_value" where
  "search_pattern t = JStr (''%'' @ escapeLikeLiteral t @ ''%'')"

definition buildTermClause :: "bool \<Rightarrow> string \<Rightarrow> string list \<Rightarrow> where_clause option" where
  "buildTermClause ilike t searched =
     combineWithOr (map (\<lambda>f. Some (op f (fst (getSearchComparisonStrategy ilike)) (search_pattern t))) searched)"

definition buildNegatedTermClause :: "bool \<Rightarrow> string \<Rightarrow> string list \<Rightarrow> where_clause option" where
  "buildNegatedTermClause ilike t searched =
     combineWithAnd (map (\<lambda>f. Some (WOr [op f (snd (getSearchComparisonStrategy ilike)) (search_pattern t), WField f (Value JNull)])) searched)"

definition or_invalid :: "string \<Rightarrow> where_clause option \<Rightarrow> where_clause result" where
  "or_invalid msg w = (case w of Some c \<Rightarrow> Inr c | None \<Rightarrow> invalid_search msg)"

fun buildSearchWhere :: "bool \<Rightarrow> search_ast \<Rightarrow> string list \<Rightarrow> bool \<Rightarrow> where_clause result" where
  "buildSearchWhere ilike (Term t) searched neg =
     or_invalid ''empty term.'' (if neg then buildNegatedTermClause ilike t searched else buildTermClause ilike t searched)"
| "buildSearchWhere ilike (NotOf e) searched neg = buildSearchWhere ilike e searched (\<not> neg)"
| "buildSearchWhere ilike (AllOfThem es) searched neg =
     rbind (rmap (\<lambda>e. buildSearchWhere ilike e searched neg) es) (\<lambda>ws.
       or_invalid ''empty conjunction.'' (if neg then combineWithOr (map Some ws) else combineWithAnd (map Some ws)))"
| "buildSearchWhere ilike (AnyOfThem es) searched neg =
     rbind (rmap (\<lambda>e. buildSearchWhere ilike e searched neg) es) (\<lambda>ws.
       or_invalid ''empty disjunction.'' (if neg then combineWithAnd (map Some ws) else combineWithOr (map Some ws)))"

section \<open>Applying a search\<close>

datatype search_mode = ModeDisabled | ModeAnnotated | ModeConfigOnly | ModeAll

text \<open>
  The configuration of a search: its mode, the fields configured for the entity set, the annotated ones and the
  string properties of the model, its limits, strictness and what the connector can do.
\<close>

record search_config =
  searchMode :: search_mode
  configured_fields :: "string list"
  annotated_fields :: "string list"
  string_properties :: "string list"
  maxSearchTerms :: "rat option"
  maxSearchFields :: "rat option"
  search_strict :: bool
  supports_ilike :: bool

definition resolveSearchableFields :: "search_config \<Rightarrow> string list" where
  "resolveSearchableFields cfg =
     (if searchMode cfg = ModeDisabled then []
      else if configured_fields cfg \<noteq> [] then configured_fields cfg
      else if searchMode cfg = ModeConfigOnly then []
      else if annotated_fields cfg \<noteq> [] then annotated_fields cfg
      else if searchMode cfg = ModeAll then string_properties cfg
      else [])"

text \<open>\<open>max && n > max\<close>, and \<open>slice(0, max)\<close>: a negative limit counts from the end.\<close>

definition above :: "rat option \<Rightarrow> nat \<Rightarrow> bool" where
  "above limit n = (case limit of None \<Rightarrow> False | Some m \<Rightarrow> m \<noteq> 0 \<and> m < of_nat n)"

definition slice_front :: "rat \<Rightarrow> 'a list \<Rightarrow> 'a list" where
  "slice_front m xs = (if 0 \<le> m then take (nat \<lfloor>m\<rfloor>) xs else take (length xs - nat (- \<lceil>m\<rceil>)) xs)"

definition applySearch :: "search_config \<Rightarrow> where_clause option \<Rightarrow> string option \<Rightarrow> where_clause option result" where
  "applySearch cfg base search =
     (case search of
        None \<Rightarrow> Inr base
      | Some s \<Rightarrow>
          if s = [] then Inr base
          else rbind (parseSearchExpression s) (\<lambda>parsed.
            case parsed of
              None \<Rightarrow> Inr base
            | Some (e, n) \<Rightarrow>
                if above (maxSearchTerms cfg) n then Inl (HttpError 400 [] ''$search allows fewer terms.'')
                else (let all = resolveSearchableFields cfg;
                          searched = (if above (maxSearchFields cfg) (length all) then slice_front (the (maxSearchFields cfg)) all else all)
                      in if searched = []
                         then (if search_strict cfg \<or> searchMode cfg \<noteq> ModeAll
                           then Inl (HttpError 400 [] ''No searchable fields configured for $search.'') else Inr base)
                         else rbind (buildSearchWhere (supports_ilike cfg) e searched False) (\<lambda>w.
                           Inr (combineWithAnd [base, Some w])))))"

section \<open>The scanner and the parser always return\<close>

lemma invalid_search_facts [simp]:
  "ensures (invalid_search msg) Q" "invalid_search msg \<noteq> Inr x" "invalid_search msg \<noteq> Inl OutOfFuel"
  by (simp_all add: invalid_search_def)

lemma scan_ensures: "ensures (scanSearchTokens s) (\<lambda>ts. True)"
proof (induction s rule: scanSearchTokens.induct)
  case (1 s)
  show ?case
  proof (cases s)
    case Nil
    then show ?thesis by (simp add: scanSearchTokens.simps [of "[]"])
  next
    case (Cons c cs)
    show ?thesis unfolding Cons scanSearchTokens.simps [of "c # cs"]
      using 1 [OF Cons] by (auto simp del: read_word.simps split: option.split prod.split intro!: ensures_rbind)
  qed
qed

text \<open>An expression the parser builds: no list has fewer than two members.\<close>

fun proper :: "search_ast \<Rightarrow> bool" where
  "proper (Term v) = True"
| "proper (NotOf e) = proper e"
| "proper (AllOfThem es) \<longleftrightarrow> 2 \<le> length es \<and> list_all proper es"
| "proper (AnyOfThem es) \<longleftrightarrow> 2 \<le> length es \<and> list_all proper es"

definition shrinks :: "search_parser \<Rightarrow> nat \<Rightarrow> bool" where
  "shrinks p k \<longleftrightarrow> (\<forall>ts. length ts \<le> k \<longrightarrow> ensures (p ts) (\<lambda>(e, rest). length rest < length ts \<and> proper e))"

lemma shrinksD: "shrinks p k \<Longrightarrow> length ts \<le> k \<Longrightarrow> ensures (p ts) (\<lambda>(e, rest). length rest < length ts \<and> proper e)"
  by (simp add: shrinks_def)

lemma parse_not_other: "(\<And>us. ts \<noteq> TokNot # us) \<Longrightarrow> parse_not p ts = p ts"
  by (cases "(p, ts)" rule: parse_not.cases) auto

lemma not_shrinks:
  assumes "shrinks p k"
  shows "shrinks (parse_not p) k"
proof -
  have "length ts \<le> k \<longrightarrow> ensures (parse_not p ts) (\<lambda>(e, rest). length rest < length ts \<and> proper e)" for ts
  proof (induction ts)
    case (Cons t ts)
    then show ?case using shrinksD [OF assms, of "t # ts"] parse_not_other [of "t # ts" p]
      by (cases "t = TokNot") (auto intro!: ensures_rbind)
  qed (use shrinksD [OF assms, of "[]"] in \<open>simp add: split_def\<close>)
  then show ?thesis by (simp add: shrinks_def)
qed

lemma loop_step:
  assumes "ensures m (\<lambda>(e, rest). length rest < b \<and> proper e)"
    and "\<And>e rest. length rest < b \<Longrightarrow> proper e \<Longrightarrow> ensures (f e rest) Q"
  shows "ensures (rbind m (\<lambda>(e, rest). f e rest)) Q"
  using assms by (auto intro!: ensures_rbind)

lemma and_loop_shrinks:
  "shrinks p k \<Longrightarrow> length ts \<le> k \<Longrightarrow> length ts < j \<Longrightarrow> list_all proper nodes \<Longrightarrow>
   ensures (and_loop j p nodes ts) (\<lambda>(es, rest). length rest \<le> length ts \<and> list_all proper es \<and> length nodes \<le> length es)"
proof (induction j arbitrary: nodes ts)
  case (Suc j)
  have go: "ensures (rbind (p us) (\<lambda>(e, rest). and_loop j p (nodes @ [e]) rest))
      (\<lambda>(es, rest). length rest \<le> length ts \<and> list_all proper es \<and> length nodes \<le> length es)"
    if "length us \<le> length ts" for us
  proof (rule loop_step [OF shrinksD [OF Suc.prems(1)]])
    show "length us \<le> k" using that Suc.prems by simp
    fix e and rest :: "search_token list"
    assume "length rest < length us" "proper e"
    then have "ensures (and_loop j p (nodes @ [e]) rest)
        (\<lambda>(es, r). length r \<le> length rest \<and> list_all proper es \<and> length (nodes @ [e]) \<le> length es)"
      using that Suc.prems by (intro Suc.IH) auto
    then show "ensures (and_loop j p (nodes @ [e]) rest)
        (\<lambda>(es, r). length r \<le> length ts \<and> list_all proper es \<and> length nodes \<le> length es)"
      using that \<open>length rest < length us\<close> by (elim ensures_mono) auto
  qed
  show ?case using Suc.prems go [of ts] go [of "tl ts"] by (auto split: list.split search_token.split)
qed simp

lemma or_loop_shrinks:
  "shrinks p k \<Longrightarrow> length ts \<le> k \<Longrightarrow> length ts < j \<Longrightarrow> list_all proper nodes \<Longrightarrow>
   ensures (or_loop j p nodes ts) (\<lambda>(es, rest). length rest \<le> length ts \<and> list_all proper es \<and> length nodes \<le> length es)"
proof (induction j arbitrary: nodes ts)
  case (Suc j)
  have go: "ensures (rbind (p us) (\<lambda>(e, rest). or_loop j p (nodes @ [e]) rest))
      (\<lambda>(es, rest). length rest \<le> length ts \<and> list_all proper es \<and> length nodes \<le> length es)"
    if "length us \<le> length ts" for us
  proof (rule loop_step [OF shrinksD [OF Suc.prems(1)]])
    show "length us \<le> k" using that Suc.prems by simp
    fix e and rest :: "search_token list"
    assume "length rest < length us" "proper e"
    then have "ensures (or_loop j p (nodes @ [e]) rest)
        (\<lambda>(es, r). length r \<le> length rest \<and> list_all proper es \<and> length (nodes @ [e]) \<le> length es)"
      using that Suc.prems by (intro Suc.IH) auto
    then show "ensures (or_loop j p (nodes @ [e]) rest)
        (\<lambda>(es, r). length r \<le> length ts \<and> list_all proper es \<and> length nodes \<le> length es)"
      using that \<open>length rest < length us\<close> by (elim ensures_mono) auto
  qed
  show ?case using Suc.prems go [of "tl ts"] by (auto split: list.split search_token.split)
qed simp

lemma joined_proper:
  "list_all proper es \<Longrightarrow> Suc 0 \<le> length es \<Longrightarrow> proper (joined_nodes AllOfThem es) \<and> proper (joined_nodes AnyOfThem es)"
  by (auto simp: joined_nodes_def Suc_le_eq split: list.split)

lemma and_shrinks: "shrinks p k \<Longrightarrow> shrinks (parse_and p) k"
  unfolding shrinks_def [of "parse_and p"] parse_and_def
  apply (intro allI impI loop_step)
   apply (erule (1) shrinksD)
  apply (rule ensures_rbind)
   apply (erule and_loop_shrinks)
  apply (auto simp: joined_proper simp del: and_loop.simps or_loop.simps)
  done

lemma any_shrinks: "shrinks p k \<Longrightarrow> shrinks (parse_any p) k"
  unfolding shrinks_def [of "parse_any p"] parse_any_def
  apply (intro allI impI loop_step)
   apply (erule (1) shrinksD)
  apply (rule ensures_rbind)
   apply (erule or_loop_shrinks)
  apply (auto simp: joined_proper simp del: and_loop.simps or_loop.simps)
  done

lemma primary_shrinks: "shrinks p k \<Longrightarrow> shrinks (parse_primary p) (Suc k)"
  unfolding shrinks_def [of "parse_primary p"] parse_primary_def
  by (auto dest!: shrinksD split: list.split search_token.split intro!: ensures_rbind)

lemma primary_empty: "shrinks (parse_primary p) 0"
  by (simp add: shrinks_def parse_primary_def)

lemma parse_or_shrinks: "shrinks (parse_or (Suc k)) k"
proof -
  have "shrinks (parse_primary (parse_or k)) k \<Longrightarrow> shrinks (parse_or (Suc k)) k" for k
    unfolding shrinks_def [of "parse_or (Suc k)"] parse_or.simps
    unfolding shrinks_def [symmetric] by (intro any_shrinks and_shrinks not_shrinks)
  then show ?thesis by (induction k) (simp_all only: primary_empty primary_shrinks)
qed

lemma proper_terms: "proper e \<Longrightarrow> terms e \<noteq> []"
proof (induction e)
  case (AllOfThem es)
  then show ?case by (cases es) auto
next
  case (AnyOfThem es)
  then show ?case by (cases es) auto
qed auto

lemma search_parsed:
  "ensures (parseSearchExpression s) (\<lambda>r. case r of None \<Rightarrow> scanSearchTokens s = Inr [] | Some (e, n) \<Rightarrow> proper e \<and> n = length (terms e))"
proof -
  have go: "ensures (rbind (parse_or (length ts + 1) ts) (\<lambda>(e, rest).
       if rest \<noteq> [] then invalid_search ''Unexpected token.''
       else Inr (if terms e = [] then None else Some (e, length (terms e)))))
     (\<lambda>r. case r of None \<Rightarrow> False | Some (e, n) \<Rightarrow> proper e \<and> n = length (terms e))" for ts
    by (rule loop_step [OF shrinksD [OF parse_or_shrinks [of "length ts", unfolded Suc_eq_plus1]]]) (auto dest: proper_terms)
  show ?thesis unfolding parseSearchExpression_def
    using go by (intro ensures_rbind [OF scan_ensures]) (auto elim!: ensures_mono split: option.splits)
qed

section \<open>What an expression means\<close>

fun matches :: "(string \<Rightarrow> bool) \<Rightarrow> search_ast \<Rightarrow> bool" where
  "matches p (Term t) = p t"
| "matches p (NotOf e) = (\<not> matches p e)"
| "matches p (AllOfThem es) = list_all (matches p) es"
| "matches p (AnyOfThem es) = list_ex (matches p) es"

text \<open>A term is found in the text properties that contain it.\<close>

fun found_in :: "bool \<Rightarrow> string \<Rightarrow> js_value \<Rightarrow> bool" where
  "found_in ilike t (JStr s) = (if ilike then contains_str (lower s) (lower t) else contains_str s t)"
| "found_in ilike t v = False"

definition found :: "bool \<Rightarrow> string list \<Rightarrow> (string \<Rightarrow> js_value) \<Rightarrow> string \<Rightarrow> bool" where
  "found ilike searched field t \<longleftrightarrow> list_ex (\<lambda>f. found_in ilike t (field f)) searched"

lemma pattern_lower: "lower (''%'' @ escapeLikeLiteral t @ ''%'') = ''%'' @ escapeLikeLiteral (lower t) @ ''%''"
  by (simp only: lower_append lower_escape lower_percent)

lemma like_found: "like_holds ilike v (search_pattern t) \<longleftrightarrow> found_in ilike t v"
  unfolding search_pattern_def by (cases v) (simp_all only: like_holds.simps found_in.simps pattern_lower like_contains)

lemma not_found_null: "is_nullish v \<Longrightarrow> \<not> found_in ilike t v"
  by (cases v) auto

lemma present_map_Some [simp]: "present (map Some ws) = ws"
  by (induction ws) auto

lemma combined_and: "combineWithAnd parts = Some w \<Longrightarrow> where_holds h f w = list_all (where_holds h f) (present parts)"
  by (auto simp: combineWithAnd_def list_all_entries split: list.splits)

lemma combined_or: "combineWithOr parts = Some w \<Longrightarrow> where_holds h f w = list_ex (where_holds h f) (present parts)"
  by (auto simp: combineWithOr_def list_ex_entries split: list.splits)

lemma combines: "ws \<noteq> [] \<Longrightarrow> \<exists>w. combineWithAnd (map Some ws) = Some w" "ws \<noteq> [] \<Longrightarrow> \<exists>w. combineWithOr (map Some ws) = Some w"
  by (auto simp: combineWithAnd_def combineWithOr_def split: list.splits)

lemma strategy_holds:
  "op_holds h False v (fst (getSearchComparisonStrategy ilike)) (search_pattern t) \<longleftrightarrow> found_in ilike t v"
  "op_holds h False v (snd (getSearchComparisonStrategy ilike)) (search_pattern t) \<longleftrightarrow> \<not> found_in ilike t v"
  by (simp_all add: op_holds_def getSearchComparisonStrategy_def like_found)

lemma term_clause_holds: "buildTermClause ilike t searched = Some w \<Longrightarrow> where_holds h field w \<longleftrightarrow> found ilike searched field t"
  unfolding buildTermClause_def
  by (drule combined_or) (simp add: found_def list_ex_iff op_where_holds strategy_holds)

lemma negated_term_holds:
  "buildNegatedTermClause ilike t searched = Some w \<Longrightarrow> where_holds h field w \<longleftrightarrow> \<not> found ilike searched field t"
  unfolding buildNegatedTermClause_def
  by (drule combined_and)
    (auto simp: found_def list_ex_iff list_all_iff op_where_holds strategy_holds value_holds_def dest: not_found_null)

lemma or_invalid_eq [simp]: "or_invalid msg w = Inr c \<longleftrightarrow> w = Some c"
  by (cases w) (auto simp: or_invalid_def)

lemma all_of_members: "list_all2 (\<lambda>e w. holds w = (matches p e \<noteq> neg)) es ws \<Longrightarrow>
    list_all holds ws = list_all (\<lambda>e. matches p e \<noteq> neg) es \<and> list_ex holds ws = list_ex (\<lambda>e. matches p e \<noteq> neg) es"
  by (induction rule: list_all2_induct) auto

lemma buildSearchWhere_holds:
  "buildSearchWhere ilike e searched neg = Inr w \<Longrightarrow> where_holds h field w \<longleftrightarrow> matches (found ilike searched field) e \<noteq> neg"
proof (induction e arbitrary: neg w)
  case (Term t)
  then show ?case using term_clause_holds negated_term_holds by (cases neg) auto
next
  case (NotOf e)
  then show ?case by auto
next
  case (AllOfThem es)
  then obtain ws where ws: "rmap (\<lambda>e. buildSearchWhere ilike e searched neg) es = Inr ws"
    and w: "(if neg then combineWithOr (map Some ws) else combineWithAnd (map Some ws)) = Some w" by auto
  have "list_all2 (\<lambda>e w. where_holds h field w = (matches (found ilike searched field) e \<noteq> neg)) es ws"
    by (rule list.rel_mono_strong [OF ws [unfolded rmap_Inr_iff]]) (use AllOfThem.IH in blast)
  from all_of_members [OF this] w show ?case by (auto simp: combined_and combined_or list_all_iff list_ex_iff split: if_splits)
next
  case (AnyOfThem es)
  then obtain ws where ws: "rmap (\<lambda>e. buildSearchWhere ilike e searched neg) es = Inr ws"
    and w: "(if neg then combineWithAnd (map Some ws) else combineWithOr (map Some ws)) = Some w" by auto
  have "list_all2 (\<lambda>e w. where_holds h field w = (matches (found ilike searched field) e \<noteq> neg)) es ws"
    by (rule list.rel_mono_strong [OF ws [unfolded rmap_Inr_iff]]) (use AnyOfThem.IH in blast)
  from all_of_members [OF this] w show ?case by (auto simp: combined_and combined_or list_all_iff list_ex_iff split: if_splits)
qed

lemma rmap_defined: "(\<And>x. x \<in> set xs \<Longrightarrow> \<exists>y. f x = Inr y) \<Longrightarrow> \<exists>ys. rmap f xs = Inr ys \<and> length ys = length xs"
proof (induction xs)
  case (Cons x xs)
  obtain y where "f x = Inr y" using Cons.prems by auto
  moreover obtain ys where "rmap f xs = Inr ys" "length ys = length xs" using Cons by auto
  ultimately show ?case by auto
qed simp

lemma buildSearchWhere_defined: "proper e \<Longrightarrow> searched \<noteq> [] \<Longrightarrow> \<exists>w. buildSearchWhere ilike e searched neg = Inr w"
proof (induction e arbitrary: neg)
  case (Term t)
  have "map (\<lambda>f. F f) searched \<noteq> []" for F :: "string \<Rightarrow> where_clause" using Term by simp
  from combines [OF this] show ?case unfolding buildSearchWhere.simps buildTermClause_def buildNegatedTermClause_def
    by (auto simp: comp_def)
next
  case (AllOfThem es)
  have "\<exists>ws. rmap (\<lambda>e. buildSearchWhere ilike e searched neg) es = Inr ws \<and> length ws = length es"
    using AllOfThem by (intro rmap_defined) (auto simp: list_all_iff)
  then obtain ws where "rmap (\<lambda>e. buildSearchWhere ilike e searched neg) es = Inr ws" "ws \<noteq> []" using AllOfThem.prems by fastforce
  then show ?case using combines [of ws] by auto
next
  case (AnyOfThem es)
  have "\<exists>ws. rmap (\<lambda>e. buildSearchWhere ilike e searched neg) es = Inr ws \<and> length ws = length es"
    using AnyOfThem by (intro rmap_defined) (auto simp: list_all_iff)
  then obtain ws where "rmap (\<lambda>e. buildSearchWhere ilike e searched neg) es = Inr ws" "ws \<noteq> []" using AnyOfThem.prems by fastforce
  then show ?case using combines [of ws] by auto
qed auto

end
