(* ===== verification/SearchText.thy ===== *)
theory SearchText
  imports Search
begin

text \<open>
  The texts of \<open>$search\<close> expressions: a printer with the fewest parentheses, with \<open>AND\<close> written or left out,
  is read back by the scanner and the parser of theory \<open>Search\<close>, and the search holds of the rows it matches.
\<close>

section \<open>An expression that is printed is read back\<close>

text \<open>The token between the members of a conjunction may be left out.\<close>

definition between :: "'a list \<Rightarrow> 'a list list \<Rightarrow> 'a list" where
  "between sep xss = (case xss of [] \<Rightarrow> [] | ys # yss \<Rightarrow> ys @ concat (map (\<lambda>zs. sep @ zs) yss))"

definition wrap :: "bool \<Rightarrow> search_token list \<Rightarrow> search_token list" where
  "wrap b ts = (if b then TokOpen # ts @ [TokClose] else ts)"

fun search_tokens :: "search_token list \<Rightarrow> nat \<Rightarrow> search_ast \<Rightarrow> search_token list" where
  "search_tokens sep level (Term v) = [TokTerm v]"
| "search_tokens sep level (NotOf e) = wrap (2 < level) (TokNot # search_tokens sep 2 e)"
| "search_tokens sep level (AllOfThem es) = wrap (1 < level) (between sep (map (search_tokens sep 2) es))"
| "search_tokens sep level (AnyOfThem es) = wrap (0 < level) (between [TokOr] (map (search_tokens sep 1) es))"

fun escape_phrase :: "string \<Rightarrow> string" where
  "escape_phrase [] = []"
| "escape_phrase (c # cs) = (if c = backslash \<or> c = dquote then backslash # c # escape_phrase cs else c # escape_phrase cs)"

fun token_text :: "search_token \<Rightarrow> string" where
  "token_text (TokTerm v) = dquote # escape_phrase v @ [dquote]"
| "token_text TokAnd = ''AND''"
| "token_text TokOr = ''OR''"
| "token_text TokNot = ''NOT''"
| "token_text TokOpen = ''(''"
| "token_text TokClose = '')''"

definition tokens_text :: "search_token list \<Rightarrow> string" where
  "tokens_text ts = concat (map (\<lambda>t. CHR '' '' # token_text t) ts)"

definition full_token :: "search_token \<Rightarrow> bool" where
  "full_token t \<longleftrightarrow> t \<noteq> TokTerm []"

text \<open>The scanner reads the text of a token up to the space before the next.\<close>

definition spaced :: "string \<Rightarrow> bool" where
  "spaced s \<longleftrightarrow> s = [] \<or> hd s = CHR '' ''"

lemma space_is_space [simp]: "is_space (CHR '' '')"
  by (simp add: is_space_def code_def)

lemma spaced_text [simp]: "spaced (tokens_text ts)"
  by (cases ts) (simp_all add: spaced_def tokens_text_def)

lemma read_escaped: "read_phrase dquote (escape_phrase v @ dquote # rest) acc = Some (acc @ v, rest)"
proof (induction v arbitrary: acc)
  case Nil
  show ?case by (cases rest) (simp_all add: dquote_def backslash_def)
next
  case (Cons c cs)
  obtain d ds where "escape_phrase cs @ dquote # rest = d # ds" by (cases "escape_phrase cs") auto
  then show ?case using Cons [of "acc @ [c]"] by (simp add: dquote_def backslash_def)
qed

lemma letters: "\<not> is_space CHR ''A''" "\<not> is_space CHR ''N''" "\<not> is_space CHR ''D''" "\<not> is_space CHR ''O''"
  "\<not> is_space CHR ''R''" "\<not> is_space CHR ''T''" "\<not> is_space CHR ''(''" "\<not> is_space CHR '')''"
  "\<not> is_space dquote"
  by (simp_all add: is_space_def dquote_def code_def)

lemma read_words:
  assumes "spaced rest"
  shows "read_word (''AND'' @ rest) [] = (''AND'', rest)" "read_word (''OR'' @ rest) [] = (''OR'', rest)"
    "read_word (''NOT'' @ rest) [] = (''NOT'', rest)"
  using assms by (cases rest; auto simp: spaced_def letters quote_char_def dquote_def quote_def backslash_def)+

lemma keyword_tokens: "word_token ''AND'' = [TokAnd]" "word_token ''OR'' = [TokOr]" "word_token ''NOT'' = [TokNot]"
  by code_simp+

lemma scan_token:
  assumes "spaced rest" "full_token t"
  shows "scanSearchTokens (CHR '' '' # token_text t @ rest) = rbind (scanSearchTokens rest) (\<lambda>ts. Inr (t # ts))"
proof (cases t)
  case (TokTerm v)
  then show ?thesis using assms read_escaped [of v rest "[]"]
    by (simp add: scanSearchTokens.simps [of "CHR '' '' # _"] scanSearchTokens.simps [of "dquote # _"] letters quote_char_def
      full_token_def dquote_def [symmetric]) (simp add: dquote_def)
qed (use read_words [OF assms(1)] in \<open>simp_all add: scanSearchTokens.simps [of "CHR '' '' # _"] scanSearchTokens.simps [of "CHR ''A'' # _"]
    scanSearchTokens.simps [of "CHR ''O'' # _"] scanSearchTokens.simps [of "CHR ''N'' # _"] scanSearchTokens.simps [of "CHR ''('' # _"]
    scanSearchTokens.simps [of "CHR '')'' # _"] letters quote_char_def dquote_def quote_def keyword_tokens del: read_word.simps\<close>)

lemma scan_text: "list_all full_token ts \<Longrightarrow> scanSearchTokens (tokens_text ts) = Inr ts"
proof (induction ts)
  case Nil
  show ?case by (simp add: tokens_text_def scanSearchTokens.simps)
next
  case (Cons t ts)
  have "tokens_text (t # ts) = CHR '' '' # token_text t @ tokens_text ts" by (simp add: tokens_text_def)
  then show ?case using Cons scan_token [of "tokens_text ts" t] by simp
qed

text \<open>Where an alternative ends, and where a conjunction does.\<close>

definition or_stop :: "search_token list \<Rightarrow> bool" where
  "or_stop ts \<longleftrightarrow> ts = [] \<or> hd ts = TokClose"

definition and_stop :: "search_token list \<Rightarrow> bool" where
  "and_stop ts \<longleftrightarrow> or_stop ts \<or> hd ts = TokOr"

definition unary_start :: "search_token list \<Rightarrow> bool" where
  "unary_start ts \<longleftrightarrow> (\<exists>us. ts = TokNot # us \<or> ts = TokOpen # us \<or> (\<exists>v. ts = TokTerm v # us))"

definition reads_all :: "search_parser \<Rightarrow> search_token list \<Rightarrow> (search_token list \<Rightarrow> bool) \<Rightarrow> search_ast \<Rightarrow> bool" where
  "reads_all p ts stop e \<longleftrightarrow> (\<forall>rest. stop rest \<longrightarrow> p (ts @ rest) = Inr (e, rest))"

lemma reads_allD: "reads_all p ts stop e \<Longrightarrow> stop rest \<Longrightarrow> p (ts @ rest) = Inr (e, rest)"
  by (simp add: reads_all_def)

lemma unary_start_append: "unary_start ts \<Longrightarrow> unary_start (ts @ us)"
  by (auto simp: unary_start_def)

lemma and_loop_stop: "and_stop rest \<Longrightarrow> and_loop (Suc k) p nodes rest = Inr (nodes, rest)"
  by (cases rest) (auto simp: and_stop_def or_stop_def)

lemma or_loop_stop: "or_stop rest \<Longrightarrow> or_loop (Suc k) p nodes rest = Inr (nodes, rest)"
  by (cases rest) (auto simp: or_stop_def)

lemma and_loop_member:
  assumes "sep = [] \<or> sep = [TokAnd]" "unary_start ts" "reads_all p ts (\<lambda>r. True) e"
  shows "and_loop (Suc k) p nodes (sep @ ts @ rest) = and_loop k p (nodes @ [e]) rest"
  using assms reads_allD [OF assms(3), of rest] by (auto simp: unary_start_def)

lemma and_loop_reads:
  assumes "sep = [] \<or> sep = [TokAnd]" "and_stop rest" "length es < k"
    and "list_all (\<lambda>e. unary_start (f e) \<and> reads_all p (f e) (\<lambda>r. True) e) es"
  shows "and_loop k p nodes (concat (map (\<lambda>e. sep @ f e) es) @ rest) = Inr (nodes @ es, rest)"
  using assms(3,4)
proof (induction es arbitrary: k nodes)
  case Nil
  then show ?case using and_loop_stop [OF assms(2)] by (cases k) auto
next
  case (Cons e es)
  then obtain j where j: "k = Suc j" "length es < j" by (cases k) auto
  have "and_loop k p nodes (concat (map (\<lambda>e. sep @ f e) (e # es)) @ rest) =
      and_loop j p (nodes @ [e]) (concat (map (\<lambda>e. sep @ f e) es) @ rest)"
    using and_loop_member [OF assms(1), of "f e" p e j nodes "concat (map (\<lambda>e. sep @ f e) es) @ rest"] Cons.prems j by simp
  then show ?case using Cons.IH [OF j(2), of "nodes @ [e]"] Cons.prems by simp
qed

lemma or_loop_reads:
  assumes "or_stop rest" "length es < k" and "list_all (\<lambda>e. reads_all p (f e) and_stop e) es"
  shows "or_loop k p nodes (concat (map (\<lambda>e. [TokOr] @ f e) es) @ rest) = Inr (nodes @ es, rest)"
  using assms(2,3)
proof (induction es arbitrary: k nodes)
  case Nil
  then show ?case using or_loop_stop [OF assms(1)] by (cases k) auto
next
  case (Cons e es)
  then obtain j where j: "k = Suc j" "length es < j" by (cases k) auto
  let ?more = "concat (map (\<lambda>e. [TokOr] @ f e) es) @ rest"
  have "and_stop ?more" using assms(1) by (cases es) (auto simp: and_stop_def)
  then have "p (f e @ ?more) = Inr (e, ?more)" using Cons.prems by (auto dest: reads_allD)
  then have "or_loop k p nodes (concat (map (\<lambda>e. [TokOr] @ f e) (e # es)) @ rest) = or_loop j p (nodes @ [e]) ?more"
    using j by simp
  then show ?case using Cons.IH [OF j(2), of "nodes @ [e]"] Cons.prems by simp
qed

text \<open>A term, a negation or a group is read at every level above its own.\<close>

lemma and_single: "reads_all p ts (\<lambda>r. True) e \<Longrightarrow> reads_all (parse_and p) ts and_stop e"
  unfolding reads_all_def parse_and_def by (auto simp: and_loop_stop joined_nodes_def simp del: and_loop.simps)

lemma any_single: "reads_all p ts and_stop e \<Longrightarrow> reads_all (parse_any p) ts or_stop e"
  unfolding reads_all_def parse_any_def by (auto simp: or_loop_stop and_stop_def joined_nodes_def simp del: or_loop.simps)

lemma group_reads: "reads_all p ts or_stop e \<Longrightarrow> reads_all (parse_primary p) (TokOpen # ts @ [TokClose]) (\<lambda>r. True) e"
  unfolding reads_all_def parse_primary_def by (auto simp: or_stop_def)

lemma not_reads: "reads_all (parse_not p) ts (\<lambda>r. True) e \<Longrightarrow> reads_all (parse_not p) (TokNot # ts) (\<lambda>r. True) (NotOf e)"
  by (simp add: reads_all_def)

lemma primary_not: "reads_all p (t # ts) (\<lambda>r. True) e \<Longrightarrow> t \<noteq> TokNot \<Longrightarrow> reads_all (parse_not p) (t # ts) (\<lambda>r. True) e"
  by (simp add: reads_all_def parse_not_other)

lemma parse_and_steps:
  "p ts = Inr (e, tail) \<Longrightarrow> and_loop (length tail + 1) p [e] tail = Inr (es, rest) \<Longrightarrow> 2 \<le> length es \<Longrightarrow>
   parse_and p ts = Inr (AllOfThem es, rest)"
  by (auto simp: parse_and_def joined_nodes_def split: list.split simp del: and_loop.simps)

lemma parse_any_steps:
  "p ts = Inr (e, tail) \<Longrightarrow> or_loop (length tail + 1) p [e] tail = Inr (es, rest) \<Longrightarrow> 2 \<le> length es \<Longrightarrow>
   parse_any p ts = Inr (AnyOfThem es, rest)"
  by (auto simp: parse_any_def joined_nodes_def split: list.split simp del: or_loop.simps)

lemma members_length: "list_all (\<lambda>e. f e \<noteq> []) es \<Longrightarrow> length es \<le> length (concat (map (\<lambda>e. sep @ f e) es))"
  by (induction es) (auto simp: Suc_le_eq neq_Nil_conv)

lemma member_length:
  assumes "x \<in> set xs"
  shows "length (f x) \<le> length (between sep (map f xs))"
proof -
  have "y \<in> set ys \<Longrightarrow> length (f y) \<le> length (concat (map (\<lambda>zs. sep @ zs) (map f ys)))" for y ys
    by (induction ys) auto
  then show ?thesis using assms by (cases xs) (auto simp: between_def trans_le_add2)
qed

lemma between_Cons: "between sep (map f (e # es)) @ rest = f e @ concat (map (\<lambda>e. sep @ f e) es) @ rest"
  by (simp add: between_def comp_def)

lemma and_reads:
  assumes "sep = [] \<or> sep = [TokAnd]" "2 \<le> length es"
    and "list_all (\<lambda>e. unary_start (f e) \<and> reads_all p (f e) (\<lambda>r. True) e) es"
  shows "reads_all (parse_and p) (between sep (map f es)) and_stop (AllOfThem es)"
  unfolding reads_all_def
proof (intro allI impI)
  fix rest
  assume stop: "and_stop rest"
  obtain e es' where es: "es = e # es'" using assms(2) by (cases es) auto
  let ?more = "concat (map (\<lambda>e. sep @ f e) es') @ rest"
  have "list_all (\<lambda>e. f e \<noteq> []) es'" using assms(3) unfolding es by (auto simp: list_all_iff unary_start_def)
  from members_length [OF this, of sep] have "length es' < length ?more + 1" by simp
  then have loop: "and_loop (length ?more + 1) p [e] ?more = Inr ([e] @ es', rest)"
    using assms es by (intro and_loop_reads [OF assms(1) stop]) simp_all
  have first: "p (f e @ ?more) = Inr (e, ?more)" using assms(3) es by (auto dest: reads_allD)
  have "2 \<le> length ([e] @ es')" using assms(2) es by simp
  from parse_and_steps [OF first loop this] show "parse_and p (between sep (map f es) @ rest) = Inr (AllOfThem es, rest)"
    unfolding es between_Cons by simp
qed

lemma any_reads:
  assumes "2 \<le> length es" and "list_all (\<lambda>e. f e \<noteq> [] \<and> reads_all p (f e) and_stop e) es"
  shows "reads_all (parse_any p) (between [TokOr] (map f es)) or_stop (AnyOfThem es)"
  unfolding reads_all_def
proof (intro allI impI)
  fix rest
  assume stop: "or_stop rest"
  obtain e e' es' where es: "es = e # e' # es'" using assms(1) by (cases es rule: remdups_adj.cases) auto
  let ?more = "concat (map (\<lambda>e. [TokOr] @ f e) (e' # es')) @ rest"
  have "list_all (\<lambda>e. f e \<noteq> []) (e' # es')" using assms(2) unfolding es by (auto simp: list_all_iff)
  from members_length [OF this, of "[TokOr]"] have "length (e' # es') < length ?more + 1" by simp
  then have loop: "or_loop (length ?more + 1) p [e] ?more = Inr ([e] @ e' # es', rest)"
    using assms es by (intro or_loop_reads [OF stop]) (simp_all add: list_all_iff)
  have first: "p (f e @ ?more) = Inr (e, ?more)" using assms(2) es by (auto dest!: reads_allD simp: and_stop_def)
  have "2 \<le> length ([e] @ e' # es')" by simp
  from parse_any_steps [OF first loop this] show "parse_any p (between [TokOr] (map f es) @ rest) = Inr (AnyOfThem es, rest)"
    unfolding es between_Cons by simp
qed

text \<open>
  The five levels of the grammar, each as deep as the tokens it reads: a primary or a unary at one bound, a
  conjunction, and an alternative.
\<close>

definition unary_level :: "nat \<Rightarrow> search_parser" where
  "unary_level n = parse_not (parse_primary (parse_or n))"

definition reads_levels :: "search_token list \<Rightarrow> search_ast \<Rightarrow> bool" where
  "reads_levels sep e \<longleftrightarrow>
     (\<forall>n. length (search_tokens sep 2 e) \<le> n \<longrightarrow> reads_all (unary_level n) (search_tokens sep 2 e) (\<lambda>r. True) e) \<and>
     (\<forall>n. length (search_tokens sep 1 e) \<le> n \<longrightarrow> reads_all (parse_and (unary_level n)) (search_tokens sep 1 e) and_stop e) \<and>
     (\<forall>n. length (search_tokens sep 0 e) \<le> n \<longrightarrow> reads_all (parse_or (Suc n)) (search_tokens sep 0 e) or_stop e)"

lemma parse_or_level: "parse_or (Suc n) = parse_any (parse_and (unary_level n))"
  by (rule ext) (simp add: unary_level_def)

lemma search_tokens_start: "unary_start (search_tokens sep 2 e)"
  by (cases e) (auto simp: unary_start_def wrap_def)

lemma search_tokens_some: "proper e \<Longrightarrow> search_tokens sep l e \<noteq> []"
proof (induction e arbitrary: l)
  case (AllOfThem es)
  then show ?case by (cases es) (auto simp: wrap_def between_def)
next
  case (AnyOfThem es)
  then show ?case by (cases es) (auto simp: wrap_def between_def)
qed (auto simp: wrap_def)

lemma group_level:
  assumes "\<And>n. length ts \<le> n \<Longrightarrow> reads_all (parse_or (Suc n)) ts or_stop e" "length ts + 2 \<le> n"
  shows "reads_all (unary_level n) (TokOpen # ts @ [TokClose]) (\<lambda>r. True) e"
proof -
  obtain m where "n = Suc m" "length ts \<le> m" using assms(2) by (cases n) auto
  then show ?thesis unfolding unary_level_def by (intro primary_not group_reads) (simp_all add: assms(1))
qed

lemma levels_of_unary:
  "(\<And>n. length ts \<le> n \<Longrightarrow> reads_all (unary_level n) ts (\<lambda>r. True) e) \<Longrightarrow> (\<And>l. l \<le> 2 \<Longrightarrow> search_tokens sep l e = ts) \<Longrightarrow>
   reads_levels sep e"
  unfolding reads_levels_def parse_or_level by (auto intro: and_single any_single)

lemma search_levels: "sep = [] \<or> sep = [TokAnd] \<Longrightarrow> proper e \<Longrightarrow> reads_levels sep e"
proof (induction e)
  case (Term v)
  have "reads_all (unary_level n) [TokTerm v] (\<lambda>r. True) (Term v)" for n
    unfolding unary_level_def by (rule primary_not) (simp_all add: reads_all_def parse_primary_def)
  then show ?case by (intro levels_of_unary [where ts = "[TokTerm v]"]) simp_all
next
  case (NotOf e)
  then have "reads_all (unary_level n) (TokNot # search_tokens sep 2 e) (\<lambda>r. True) (NotOf e)"
    if "length (TokNot # search_tokens sep 2 e) \<le> n" for n
    using that unfolding unary_level_def by (intro not_reads) (simp add: reads_levels_def unary_level_def)
  then show ?case by (intro levels_of_unary [where ts = "TokNot # search_tokens sep 2 e"]) (simp_all add: wrap_def)
next
  case (AllOfThem es)
  let ?ts = "between sep (map (search_tokens sep 2) es)"
  have len: "e \<in> set es \<Longrightarrow> length (search_tokens sep 2 e) \<le> length ?ts" for e
    by (rule member_length)
  have and1: "reads_all (parse_and (unary_level n)) ?ts and_stop (AllOfThem es)" if "length ?ts \<le> n" for n
  proof (rule and_reads)
    show "list_all (\<lambda>e. unary_start (search_tokens sep 2 e) \<and> reads_all (unary_level n) (search_tokens sep 2 e) (\<lambda>r. True) e) es"
      unfolding list_all_iff using AllOfThem order.trans [OF len that] by (auto simp: search_tokens_start reads_levels_def list_all_iff)
  qed (use AllOfThem.prems in simp_all)
  then have or1: "reads_all (parse_or (Suc n)) ?ts or_stop (AllOfThem es)" if "length ?ts \<le> n" for n
    using that unfolding parse_or_level by (intro any_single)
  show ?case unfolding reads_levels_def using and1 or1 group_level [OF or1] by (auto simp: wrap_def)
next
  case (AnyOfThem es)
  let ?ts = "between [TokOr] (map (search_tokens sep 1) es)"
  have len: "e \<in> set es \<Longrightarrow> length (search_tokens sep 1 e) \<le> length ?ts" for e
    by (rule member_length)
  have or1: "reads_all (parse_or (Suc n)) ?ts or_stop (AnyOfThem es)" if "length ?ts \<le> n" for n
    unfolding parse_or_level
  proof (rule any_reads)
    show "list_all (\<lambda>e. search_tokens sep 1 e \<noteq> [] \<and> reads_all (parse_and (unary_level n)) (search_tokens sep 1 e) and_stop e) es"
      unfolding list_all_iff using AnyOfThem order.trans [OF len that] by (auto simp: search_tokens_some reads_levels_def list_all_iff)
  qed (use AnyOfThem.prems in simp)
  have and1: "reads_all (unary_level n) (TokOpen # ?ts @ [TokClose]) (\<lambda>r. True) (AnyOfThem es)" if "length ?ts + 2 \<le> n" for n
    using group_level [OF or1 that] .
  then show ?case unfolding reads_levels_def using or1 and_single [OF and1] by (auto simp: wrap_def)
qed

section \<open>Searching for a printed expression\<close>

definition search_text :: "bool \<Rightarrow> search_ast \<Rightarrow> string" where
  "search_text explicit e = tokens_text (search_tokens (if explicit then [TokAnd] else []) 0 e)"

lemma full_wrap: "list_all full_token ts \<Longrightarrow> list_all full_token (wrap b ts)"
  by (auto simp: wrap_def full_token_def)

lemma full_between: "list_all full_token sep \<Longrightarrow> list_all (list_all full_token) tss \<Longrightarrow> list_all full_token (between sep tss)"
  by (cases tss) (auto simp: between_def list_all_iff)

lemma full_tokens:
  "[] \<notin> set (terms e) \<Longrightarrow> list_all full_token sep \<Longrightarrow> list_all full_token (search_tokens sep l e)"
proof (induction e arbitrary: l)
  case (AllOfThem es)
  then show ?case unfolding search_tokens.simps by (intro full_wrap full_between) (auto simp: list_all_iff)
next
  case (AnyOfThem es)
  then show ?case unfolding search_tokens.simps by (intro full_wrap full_between) (auto simp: list_all_iff full_token_def)
next
  case (NotOf e)
  then have "list_all full_token (TokNot # search_tokens sep 2 e)" by (auto simp: full_token_def [of TokNot])
  then show ?case unfolding search_tokens.simps by (rule full_wrap)
qed (simp add: full_token_def)

lemma search_read_back:
  assumes "proper e" "[] \<notin> set (terms e)"
  shows "parseSearchExpression (search_text explicit e) = Inr (Some (e, length (terms e)))"
proof -
  let ?sep = "if explicit then [TokAnd] else []"
  let ?ts = "search_tokens ?sep 0 e"
  have "scanSearchTokens (search_text explicit e) = Inr ?ts"
    unfolding search_text_def by (intro scan_text full_tokens) (simp_all add: assms full_token_def)
  moreover have "reads_levels ?sep e" by (rule search_levels) (simp_all add: assms)
  then have "reads_all (parse_or (Suc (length ?ts))) ?ts or_stop e" unfolding reads_levels_def by blast
  then have "parse_or (Suc (length ?ts)) (?ts @ []) = Inr (e, [])" by (rule reads_allD) (simp add: or_stop_def)
  ultimately show ?thesis
    using search_tokens_some [OF assms(1)] proper_terms [OF assms(1)] by (simp add: parseSearchExpression_def del: parse_or.simps)
qed

text \<open>The fields a search looks into.\<close>

definition searched_fields :: "search_config \<Rightarrow> string list" where
  "searched_fields cfg =
     (let all = resolveSearchableFields cfg
      in if above (maxSearchFields cfg) (length all) then slice_front (the (maxSearchFields cfg)) all else all)"

lemma applySearch_parsed:
  assumes "parseSearchExpression s = Inr (Some (e, n))" "proper e" "\<not> above (maxSearchTerms cfg) n" "searched_fields cfg \<noteq> []" "s \<noteq> []"
  shows "\<exists>w. applySearch cfg base (Some s) = Inr w \<and>
    (\<forall>host row. condition_holds host w row \<longleftrightarrow>
       condition_holds host base row \<and> matches (found (supports_ilike cfg) (searched_fields cfg) (get_prop row)) e)"
proof -
  obtain w where w: "buildSearchWhere (supports_ilike cfg) e (searched_fields cfg) False = Inr w"
    using buildSearchWhere_defined assms(2,4) by blast
  have "applySearch cfg base (Some s) = Inr (combineWithAnd [base, Some w])"
    using assms w by (simp add: applySearch_def searched_fields_def Let_def split del: if_split)
  moreover have "condition_holds host (combineWithAnd [base, Some w]) row \<longleftrightarrow>
      condition_holds host base row \<and> matches (found (supports_ilike cfg) (searched_fields cfg) (get_prop row)) e" for host row
    using buildSearchWhere_holds [OF w, of _ "get_prop row"] by (simp add: condition_combined)
  ultimately show ?thesis by blast
qed

lemma search_text_some: "proper e \<Longrightarrow> search_text explicit e \<noteq> []"
  using search_tokens_some [of e "if explicit then [TokAnd] else []" 0] by (auto simp: search_text_def tokens_text_def neq_Nil_conv)

end
