(* ===== verification/Results.thy ===== *)
theory Results
  imports RowOrder GroupMeaning PlanMeaning SearchText
begin

text \<open>
  The properties of the results a collection is answered with: its pages and their tokens, the order and the
  groups of \<open>$apply\<close>, its plans, and what \<open>$search\<close> finds. The components are those of \<open>Paging\<close>, \<open>ApplyPlan\<close>,
  \<open>ApplyExecution\<close>, \<open>ApplyFallback\<close> and \<open>Search\<close>; the lemmas on them are in \<open>RowOrder\<close>, \<open>GroupMeaning\<close>,
  \<open>PlanMeaning\<close> and \<open>SearchText\<close>.
\<close>

section \<open>Samples\<close>

definition shop_host :: etag_host where
  "shop_host = js_host.extend \<lparr>number_text = (\<lambda>x. show_int \<lfloor>x\<rfloor>), date_text = show_int, date_parse = (\<lambda>s. None)\<rparr>
     \<lparr>iso_text = show_int, json_text = (\<lambda>v. None), big_int = (\<lambda>s. None)\<rparr>"

definition sale :: "string \<Rightarrow> js_value \<Rightarrow> string \<Rightarrow> js_value" where
  "sale region note n = JObj [(''region'', JStr region), (''note'', note), (''id'', JStr n)]"


definition up :: "string \<Rightarrow> order_descriptor" where
  "up f = \<lparr>od_field = f, descending = False\<rparr>"

definition three_sales :: "js_value list" where
  "three_sales = [sale ''n'' JNull ''1'', sale ''s'' JNull ''2'', sale ''s'' JNull ''3'']"

section \<open>Pages of a collection\<close>






text \<open>
  The size of a page is at most the configured one, stays within the limit of the server, and is the size the
  client asked for where that is smaller.
\<close>

lemma page_size_within_limits:
  assumes "case limit of None \<Rightarrow> True | Some m \<Rightarrow> 0 \<le> m"
  shows "resolvePageSize configured limit requested \<le> base_page_size configured limit
    \<and> \<not> above_limit limit (resolvePageSize configured limit requested)
    \<and> (\<forall>x. requested = Finite x \<longrightarrow> 1 \<le> x \<longrightarrow>
        resolvePageSize configured limit requested = min \<lfloor>x\<rfloor> (base_page_size configured limit))"
  using page_size_bounds(1,2) [OF assms, of configured requested] page_size_bounds(3) [OF assms] by blast

lemma page_size_within_limits_example:
  "resolvePageSize (Finite 50) (Some 20) (Finite (7 / 2)) = min \<lfloor>7 / 2 :: rat\<rfloor> (base_page_size (Finite 50) (Some 20))"
  using page_size_within_limits [of "Some 20" "Finite 50" "Finite (7 / 2)"] by simp

section \<open>Groups and aggregates\<close>




text \<open>
  A value that is null counts as zero in an average, although it is not part of a sum: every null lowers the
  average of the values that are there.
\<close>

lemma nulls_lower_averages:
  assumes "sum_list (map abs xs) < max_double" "0 < length xs + k"
  shows "finalizeAccumulatorState (accumulated h Average (map (\<lambda>x. JNum (Finite x)) xs @ replicate k JNull))
    = JNum (Finite (sum_list xs / of_nat (length xs + k)))"
proof -
  have f: "finites h (map (\<lambda>x. JNum (Finite x)) ys @ replicate j JNull) = ys @ replicate j 0" for ys j
    by (induction ys; induction j) (simp_all add: finites_def)
  have "sum_list (map abs (xs @ replicate k 0)) < max_double" using assms(1) by (simp add: sum_list_replicate)
  then have "finalizeAccumulatorState (accumulated h Average (map (\<lambda>x. JNum (Finite x)) xs @ replicate k JNull))
      = aggregate_value h Average (map (\<lambda>x. JNum (Finite x)) xs @ replicate k JNull)"
    by (intro aggregate_exact) (simp_all add: f)
  then show ?thesis using assms(2) by (auto simp: aggregate_value_def f sum_list_replicate)
qed

lemma nulls_lower_averages_example:
  "finalizeAccumulatorState (accumulated (js_host.truncate shop_host) Average [JNum (Finite 4), JNull]) = JNum (Finite 2)"
proof -
  have "sum_list (map abs [4 :: rat]) < max_double" by (simp add: max_double_def)
  from nulls_lower_averages [OF this, of 1] show ?thesis by simp
qed

section \<open>Order\<close>






lemma page_members: "applyServerDrivenPaging h data ds n = Inr (items, link) \<Longrightarrow> set items \<subseteq> set data"
  by (auto simp: applyServerDrivenPaging_def Let_def simp del: set_filter split: if_splits option.splits dest: in_set_takeD)

text \<open>
  C37: When they do not, groups are lost: no group that has the values of the last one of a page in the columns of
  the order is on the next page, whether it was sent before or not. An order that names a column that is no
  key, as \<open>$apply\<close> builds it from an \<open>orderby\<close>, has such groups.
\<close>

theorem tied_groups_are_lost:
  assumes "ds \<noteq> []" "\<forall>s\<in>set rs. keyed h texts ds s" "r \<in> set rs" "order_keys ds s = order_keys ds r"
    and "serve_apply_page h ds pageSize rs (Some (token_of h ds r)) = Inr (items, link)"
  shows "s \<notin> set items"
proof -
  let ?sorted = "orderResults (js_host.truncate h) rs (map descriptor_text ds)"
  have "set ?sorted = set rs" by (simp add: orderResults_def Let_def)
  then have "filterRowsAfterSkipToken (js_host.truncate h) ?sorted ds (token_of h ds r) =
      Inr (filter (\<lambda>s. comes_after (js_host.truncate h) ds s r) ?sorted)"
    using assms by (intro filtered_rows) auto
  with assms(5) have "applyServerDrivenPaging h (filter (\<lambda>s. comes_after (js_host.truncate h) ds s r) ?sorted) ds pageSize = Inr (items, link)"
    by (simp add: serve_apply_page_def)
  then have "set items \<subseteq> set (filter (\<lambda>s. comes_after (js_host.truncate h) ds s r) ?sorted)" by (rule page_members)
  then show ?thesis using lex_irreflexive assms(4) by (auto simp: comes_after_def)
qed

definition sales_order :: "order_descriptor list" where
  "sales_order = buildApplyOrderDescriptors [(''region'', Asc)] [''id''] []"

theorem tied_groups_are_lost_witness:
  "\<exists>items link. serve_apply_page shop_host sales_order 2 three_sales (Some [''s'']) = Inr (items, link) \<and> sale ''s'' JNull ''3'' \<notin> set items"
proof -
  have o: "sales_order = [up ''region'']" by code_simp
  have k: "\<forall>r\<in>set three_sales. keyed shop_host (\<lambda>f. True) sales_order r"
    unfolding o by (simp add: keyed_def three_sales_def sale_def up_def is_space_def code_def)
  have "serve_apply_page shop_host sales_order 2 three_sales (Some (token_of shop_host sales_order (sale ''s'' JNull ''2''))) = Inr ([], None)"
    by code_simp
  from tied_groups_are_lost [OF _ k _ _ this, of "sale ''s'' JNull ''3''"]
  have "sale ''s'' JNull ''3'' \<notin> set ([] :: js_value list)" by (simp add: o three_sales_def order_keys_def sale_def up_def)
  moreover have "token_of shop_host sales_order (sale ''s'' JNull ''2'') = [''s'']" by code_simp
  ultimately show ?thesis
    using \<open>serve_apply_page shop_host sales_order 2 three_sales (Some (token_of shop_host sales_order (sale ''s'' JNull ''2''))) = Inr ([], None)\<close>
    by auto
qed

section \<open>Plans\<close>







section \<open>Search\<close>

text \<open>
  Scanning and parsing a \<open>$search\<close> text always ends, with an error or with an expression whose conjunctions
  and alternatives have at least two members and whose terms are counted; only a text without tokens gives none.
\<close>

lemma search_parsing_terminates:
  "ensures (parseSearchExpression s)
     (\<lambda>r. case r of None \<Rightarrow> scanSearchTokens s = Inr [] | Some (e, n) \<Rightarrow> proper e \<and> n = length (terms e))"
  by (rule search_parsed)




end
