(* ===== verification/Tokens.thy ===== *)
theory Tokens
  imports Json Paging
begin

text \<open>
  Signed tokens (\<open>util/token-signing.ts\<close>) and the skip tokens the generated controllers make of them
  (\<open>controllers/crud-controller-factory.ts\<close>): the canonical text that is signed, the envelope, its signature, and
  what verifying a token checks. The hash, the two base64 conversions, \<open>JSON.parse\<close>, the bytes \<open>Buffer.from\<close> makes of
  a value, the clock and the nonce are arguments of the model.
\<close>

section \<open>Canonical texts\<close>

text \<open>The keys of an object: those that are array indices first, by their number, the others as they were set.\<close>

definition key_before :: "string \<Rightarrow> string \<Rightarrow> bool" where
  "key_before k l =
     (case (array_index k, array_index l) of
        (Some i, Some j) \<Rightarrow> i \<le> j
      | (Some i, None) \<Rightarrow> True
      | (None, Some j) \<Rightarrow> False
      | (None, None) \<Rightarrow> str_le k l)"

fun insert_entry :: "string \<times> js_value \<Rightarrow> (string \<times> js_value) list \<Rightarrow> (string \<times> js_value) list" where
  "insert_entry e [] = [e]"
| "insert_entry e (f # fs) = (if key_before (fst e) (fst f) then e # f # fs else f # insert_entry e fs)"

definition sort_entries :: "(string \<times> js_value) list \<Rightarrow> (string \<times> js_value) list" where
  "sort_entries ps = foldr insert_entry ps []"

text \<open>A date is an object without keys of its own.\<close>

fun normalizeStableValue :: "js_value \<Rightarrow> js_value" where
  "normalizeStableValue (JArr vs) = JArr (map normalizeStableValue vs)"
| "normalizeStableValue (JObj ps) = JObj (sort_entries (map (\<lambda>(k, v). (k, normalizeStableValue v)) ps))"
| "normalizeStableValue (JDate t) = JObj []"
| "normalizeStableValue v = v"

definition stableStringify :: "etag_host \<Rightarrow> js_value \<Rightarrow> string option" where
  "stableStringify h v = json_stringify h (normalizeStableValue v)"

section \<open>Envelopes\<close>

record token_host = etag_host +
  hmac :: "string \<Rightarrow> string \<Rightarrow> string"
  to_base64url :: "string \<Rightarrow> string"
  of_base64url :: "string \<Rightarrow> string"
  parse_json :: "string \<Rightarrow> js_value option"
  buffer_from :: "js_value \<Rightarrow> string option"

datatype token_failure = InvalidToken | ExpiredToken | LegacyDenied | TokenCrash odata_error

type_synonym 'a verified = "token_failure + 'a"

fun vbind :: "'a verified \<Rightarrow> ('a \<Rightarrow> 'b verified) \<Rightarrow> 'b verified" where
  "vbind (Inl e) f = Inl e"
| "vbind (Inr x) f = f x"

record token_options =
  secret :: string
  ttlSeconds :: "rat option"
  allowLegacyUnsigned :: bool

definition TOKEN_VERSION :: string where
  "TOKEN_VERSION = ''v3''"

definition MAX_TOKEN_ENVELOPE_BYTES :: nat where
  "MAX_TOKEN_ENVELOPE_BYTES = 65536"

definition text_of :: "string option \<Rightarrow> string" where
  "text_of t = (case t of None \<Rightarrow> ''undefined'' | Some s \<Rightarrow> s)"

definition base_host :: "('a) token_host_scheme \<Rightarrow> etag_host" where
  "base_host w = etag_host.truncate w"

text \<open>The envelope but for its signature; an expiry that is \<open>undefined\<close> is not printed.\<close>

definition unsigned_envelope :: "string \<Rightarrow> int \<Rightarrow> int option \<Rightarrow> string \<Rightarrow> js_value \<Rightarrow> (string \<times> js_value) list" where
  "unsigned_envelope kind iat expiry nonce data =
     [(''v'', JStr TOKEN_VERSION), (''type'', JStr kind), (''iat'', JNum (Finite (of_int iat)))]
     @ (case expiry of None \<Rightarrow> [] | Some e \<Rightarrow> [(''exp'', JNum (Finite (of_int e)))])
     @ [(''nonce'', JStr nonce), (''data'', data)]"

definition computeSignature :: "token_host \<Rightarrow> (string \<times> js_value) list \<Rightarrow> string \<Rightarrow> string" where
  "computeSignature w envelope key =
     hmac w key (text_of (stableStringify (base_host w) (JObj (filter (\<lambda>(k, v). k \<noteq> ''sig'') envelope))))"

definition encodeEnvelope :: "token_host \<Rightarrow> (string \<times> js_value) list \<Rightarrow> string" where
  "encodeEnvelope w envelope =
     TOKEN_VERSION @ '':'' @ to_base64url w (text_of (json_stringify (base_host w) (JObj envelope)))"

text \<open>A lifetime of less than a millisecond is none.\<close>

definition lifetime :: "token_options \<Rightarrow> int option" where
  "lifetime opts = (case ttlSeconds opts of
       None \<Rightarrow> None
     | Some s \<Rightarrow> if 0 < s \<and> \<lfloor>s * 1000\<rfloor> \<noteq> 0 then Some \<lfloor>s * 1000\<rfloor> else None)"

definition signed_envelope :: "token_host \<Rightarrow> string \<Rightarrow> js_value \<Rightarrow> token_options \<Rightarrow> int \<Rightarrow> string \<Rightarrow> (string \<times> js_value) list" where
  "signed_envelope w kind data opts now nonce =
     (let e = unsigned_envelope kind now (map_option (\<lambda>ms. now + ms) (lifetime opts)) nonce data
      in e @ [(''sig'', JStr (computeSignature w e (secret opts)))])"

definition signToken :: "token_host \<Rightarrow> string \<Rightarrow> js_value \<Rightarrow> token_options \<Rightarrow> int \<Rightarrow> string \<Rightarrow> string result" where
  "signToken w kind data opts now nonce =
     (if secret opts = [] then throw ''Missing token secret.''
      else Inr (encodeEnvelope w (signed_envelope w kind data opts now nonce)))"

definition is_js_text :: "js_value \<Rightarrow> bool" where
  "is_js_text v = (case v of JStr s \<Rightarrow> True | _ \<Rightarrow> False)"

lemma is_js_text_iff [simp]: "is_js_text v \<longleftrightarrow> (\<exists>s. v = JStr s)"
  by (simp add: is_js_text_def split: js_value.split)

definition decodeEnvelope :: "token_host \<Rightarrow> string \<Rightarrow> js_value verified" where
  "decodeEnvelope w token =
     (case index_of_char CHR '':'' token of
        None \<Rightarrow> Inl InvalidToken
      | Some i \<Rightarrow>
          if take i token \<noteq> TOKEN_VERSION then Inl InvalidToken
          else (let decoded = of_base64url w (drop (i + 1) token)
                in if MAX_TOKEN_ENVELOPE_BYTES < length decoded then Inl InvalidToken
                   else case parse_json w decoded of
                       None \<Rightarrow> Inl InvalidToken
                     | Some v \<Rightarrow>
                         if get_prop v ''v'' \<noteq> JStr TOKEN_VERSION \<or> \<not> is_js_text (get_prop v ''type'') then Inl InvalidToken
                         else Inr v))"

text \<open>\<open>Buffer.from\<close> throws for a signature that is no text and no array.\<close>

definition safeEqual :: "token_host \<Rightarrow> js_value \<Rightarrow> string \<Rightarrow> bool verified" where
  "safeEqual w a b = (case buffer_from w a of None \<Rightarrow> Inl (TokenCrash TypeError) | Some s \<Rightarrow> Inr (s = b))"

definition envelope_entries :: "js_value \<Rightarrow> (string \<times> js_value) list" where
  "envelope_entries v = (case v of JObj ps \<Rightarrow> ps | _ \<Rightarrow> [])"

definition verifyToken :: "token_host \<Rightarrow> string \<Rightarrow> string \<Rightarrow> token_options \<Rightarrow> int \<Rightarrow> js_value verified" where
  "verifyToken w token kind opts now =
     (if secret opts = [] then Inl InvalidToken
      else vbind (decodeEnvelope w token) (\<lambda>v.
        if get_prop v ''type'' \<noteq> JStr kind then Inl InvalidToken
        else if js_truthy (get_prop v ''exp'') \<and> num_less (js_to_number (js_host.truncate w) (get_prop v ''exp'')) (Finite (of_int now))
        then Inl ExpiredToken
        else vbind (safeEqual w (get_prop v ''sig'') (computeSignature w (envelope_entries v) (secret opts))) (\<lambda>same.
          if same then Inr (get_prop v ''data'') else Inl InvalidToken)))"

section \<open>Skip tokens\<close>

definition skip_payload :: "string \<Rightarrow> string \<Rightarrow> string list \<Rightarrow> js_value" where
  "skip_payload descriptor context values =
     JObj [(''descriptor'', JStr descriptor), (''context'', JStr context), (''values'', JArr (map JStr values))]"

definition signSkipToken :: "token_host \<Rightarrow> string \<Rightarrow> string \<Rightarrow> string list \<Rightarrow> token_options \<Rightarrow> int \<Rightarrow> string \<Rightarrow> string result" where
  "signSkipToken w descriptor context values opts now nonce =
     signToken w ''skip'' (skip_payload descriptor context values) opts now nonce"

definition verifySkipToken :: "token_host \<Rightarrow> string \<Rightarrow> string \<Rightarrow> string \<Rightarrow> token_options \<Rightarrow> int \<Rightarrow> js_value list verified" where
  "verifySkipToken w token descriptor context opts now =
     vbind (verifyToken w token ''skip'' opts now) (\<lambda>data.
       if \<not> js_truthy data \<or> get_prop data ''descriptor'' \<noteq> JStr descriptor \<or> get_prop data ''context'' \<noteq> JStr context
       then Inl InvalidToken
       else case get_prop data ''values'' of JArr vs \<Rightarrow> Inr vs | _ \<Rightarrow> Inl InvalidToken)"

text \<open>The lifetime of skip tokens is fifteen minutes where none is configured; one of less than a second is zero, which is none.\<close>

definition normalizeTtlSeconds :: "rat option \<Rightarrow> int \<Rightarrow> int" where
  "normalizeTtlSeconds v fallback = (case v of Some x \<Rightarrow> if 0 < x then \<lfloor>x\<rfloor> else fallback | None \<Rightarrow> fallback)"

definition requireTokenSecret :: "string \<Rightarrow> string \<Rightarrow> string result" where
  "requireTokenSecret hint key =
     (if key \<noteq> [] then Inr key
      else Inl (HttpError 500 [] (''ODataConfig.tokenSecret must be configured to issue '' @ hint @ '' values.'')))"

record token_config =
  tokenSecret :: string
  skipTokenTtl :: "rat option"
  deltaTokenTtl :: "rat option"
  legacyTokens :: bool

definition buildSkipTokenOptions :: "token_config \<Rightarrow> token_options result" where
  "buildSkipTokenOptions cfg = rbind (requireTokenSecret ''$skiptoken'' (tokenSecret cfg)) (\<lambda>key.
     Inr \<lparr>secret = key, ttlSeconds = Some (of_int (normalizeTtlSeconds (skipTokenTtl cfg) 900)), allowLegacyUnsigned = legacyTokens cfg\<rparr>)"

definition buildDeltaTokenOptions :: "token_config \<Rightarrow> token_options result" where
  "buildDeltaTokenOptions cfg = rbind (requireTokenSecret ''$deltatoken'' (tokenSecret cfg)) (\<lambda>key.
     Inr \<lparr>secret = key,
          ttlSeconds = (case deltaTokenTtl cfg of Some x \<Rightarrow> if 0 < x then Some (of_int \<lfloor>x\<rfloor>) else None | None \<Rightarrow> None),
          allowLegacyUnsigned = legacyTokens cfg\<rparr>)"

definition buildSkipTokenDescriptorKey :: "order_descriptor list \<Rightarrow> string" where
  "buildSkipTokenDescriptorKey ds = join ''|'' (map (\<lambda>d. od_field d @ '':'' @ (if descending d then ''DESC'' else ''ASC'')) ds)"

fun canonicalizeQueryValue :: "etag_host \<Rightarrow> js_value \<Rightarrow> string" where
  "canonicalizeQueryValue h (JStr s) = s"
| "canonicalizeQueryValue h (JArr vs) = ''['' @ join '','' (map (canonicalizeQueryValue h) vs) @ '']''"
| "canonicalizeQueryValue h (JObj ps) = text_of (stableStringify h (JObj ps))"
| "canonicalizeQueryValue h (JDate t) = text_of (stableStringify h (JDate t))"
| "canonicalizeQueryValue h v = (if is_nullish v then [] else js_String (js_host.truncate h) v)"

text \<open>
  The request a token belongs to: its method, path and options but for the token and \<open>$skip\<close>, sorted; \<open>before\<close>
  is the host's \<open>localeCompare\<close>.
\<close>

definition context_params :: "etag_host \<Rightarrow> (string \<times> js_value) list \<Rightarrow> (string \<times> string) list" where
  "context_params h query = concat (map (\<lambda>(k, v).
     if k = ''$skiptoken'' \<or> k = ''$skip'' then []
     else case v of
         JArr vs \<Rightarrow> map (\<lambda>x. (k, canonicalizeQueryValue h x)) vs
       | _ \<Rightarrow> [(k, canonicalizeQueryValue h v)]) query)"

definition param_before :: "(string \<Rightarrow> string \<Rightarrow> int) \<Rightarrow> string \<times> string \<Rightarrow> string \<times> string \<Rightarrow> bool" where
  "param_before cmp a b = (if fst a = fst b then cmp (snd a) (snd b) \<le> 0 else cmp (fst a) (fst b) \<le> 0)"

fun insert_param :: "(string \<Rightarrow> string \<Rightarrow> int) \<Rightarrow> string \<times> string \<Rightarrow> (string \<times> string) list \<Rightarrow> (string \<times> string) list" where
  "insert_param cmp p [] = [p]"
| "insert_param cmp p (q # qs) = (if param_before cmp p q then p # q # qs else q # insert_param cmp p qs)"

definition buildSkipTokenContext ::
  "etag_host \<Rightarrow> (string \<Rightarrow> string \<Rightarrow> int) \<Rightarrow> string \<Rightarrow> string \<Rightarrow> (string \<times> js_value) list \<Rightarrow> string" where
  "buildSkipTokenContext h cmp meth path query =
     upper meth @ '':'' @ path @ ''?'' @
     join ''&'' (map (\<lambda>(k, v). encodeURIComponent k @ ''='' @ encodeURIComponent v)
       (foldr (insert_param cmp) (context_params h query) []))"

definition signSkipTokenValues ::
  "token_host \<Rightarrow> token_config \<Rightarrow> string \<Rightarrow> string list \<Rightarrow> order_descriptor list \<Rightarrow> int \<Rightarrow> string \<Rightarrow> string option result" where
  "signSkipTokenValues w cfg context values ds now nonce =
     (if ds = [] \<or> values = [] then Inr None
      else if length values \<noteq> length ds then Inl (HttpError 500 [] ''Failed to serialize $skiptoken values.'')
      else rbind (buildSkipTokenOptions cfg) (\<lambda>opts.
        rbind (signSkipToken w (buildSkipTokenDescriptorKey ds) context values opts now nonce) (\<lambda>t. Inr (Some t))))"

definition nullish_empty :: "js_value \<Rightarrow> js_value" where
  "nullish_empty v = (if is_nullish v then JStr [] else v)"

definition decodeSkipTokenValues ::
  "token_host \<Rightarrow> token_config \<Rightarrow> string \<Rightarrow> string \<Rightarrow> order_descriptor list \<Rightarrow> int \<Rightarrow> js_value list result" where
  "decodeSkipTokenValues w cfg context token ds now =
     rbind (buildSkipTokenOptions cfg) (\<lambda>opts.
       case verifySkipToken w token (buildSkipTokenDescriptorKey ds) context opts now of
         Inl (TokenCrash e) \<Rightarrow> Inl e
       | Inl _ \<Rightarrow> Inl (HttpError 400 [] ''Invalid $skiptoken value.'')
       | Inr values \<Rightarrow>
           if length values \<noteq> length ds then Inl (HttpError 400 [] ''Invalid $skiptoken value.'')
           else Inr (map nullish_empty values))"

section \<open>The text that is signed\<close>

lemma array_index_inject: "array_index k = Some i \<Longrightarrow> array_index l = Some i \<Longrightarrow> k = l"
  by (auto simp: array_index_def split: if_splits)

lemma str_le_total: "str_le s t \<or> str_le t s"
proof (induction s t rule: str_le.induct)
  case (3 c cs d ds)
  then show ?case using code_inject [of c d] by (cases "code c" "code d" rule: linorder_cases) auto
qed auto

lemma str_le_antisym: "str_le s t \<Longrightarrow> str_le t s \<Longrightarrow> s = t"
  by (induction s t rule: str_le.induct) (auto split: if_splits simp: neq_Nil_conv elim: str_le.elims)

lemma str_le_trans: "str_le s t \<Longrightarrow> str_le t u \<Longrightarrow> str_le s u"
proof (induction s t arbitrary: u rule: str_le.induct)
  case (3 c cs d ds)
  then show ?case by (cases u) (auto split: if_splits)
qed auto

lemma key_before_total: "key_before k l \<or> key_before l k"
  using str_le_total [of k l] by (auto simp: key_before_def split: option.split)

lemma key_before_antisym: "key_before k l \<Longrightarrow> key_before l k \<Longrightarrow> k = l"
  using str_le_antisym [of k l] array_index_inject [of k _ l] by (auto simp: key_before_def split: option.splits)

lemma key_before_trans: "key_before k l \<Longrightarrow> key_before l m \<Longrightarrow> key_before k m"
  using str_le_trans [of k l m] by (auto simp: key_before_def split: option.splits)

lemma set_insert_entry [simp]: "set (insert_entry e fs) = insert e (set fs)"
  by (induction fs) auto

lemma insert_entry_sorted:
  "sorted_wrt (\<lambda>a b. key_before (fst a) (fst b)) fs \<Longrightarrow> sorted_wrt (\<lambda>a b. key_before (fst a) (fst b)) (insert_entry e fs)"
proof (induction fs)
  case (Cons f fs)
  then show ?case using key_before_total [of "fst e" "fst f"] key_before_trans [of "fst e" "fst f"] by auto
qed simp

lemma sort_entries_facts:
  "set (sort_entries ps) = set ps" "sorted_wrt (\<lambda>a b. key_before (fst a) (fst b)) (sort_entries ps)"
  "distinct (map fst ps) \<Longrightarrow> distinct (map fst (sort_entries ps))"
proof -
  have i: "distinct (map fst (e # fs)) \<Longrightarrow> distinct (map fst (insert_entry e fs))" for e fs
    by (induction fs) (auto simp: image_iff)
  show s: "set (sort_entries ps) = set ps" for ps by (induction ps) (simp_all add: sort_entries_def)
  show "sorted_wrt (\<lambda>a b. key_before (fst a) (fst b)) (sort_entries ps)"
    by (induction ps) (simp_all add: sort_entries_def insert_entry_sorted)
  show "distinct (map fst ps) \<Longrightarrow> distinct (map fst (sort_entries ps))"
  proof (induction ps)
    case (Cons e ps)
    have "sort_entries (e # ps) = insert_entry e (sort_entries ps)" by (simp add: sort_entries_def)
    then show ?case using Cons i [of e "sort_entries ps"] s [of ps] by simp
  qed (simp add: sort_entries_def)
qed

text \<open>Entries sorted by their keys are given by their set, when no key is there twice.\<close>

lemma sorted_entries_unique:
  assumes "sorted_wrt (\<lambda>a b. key_before (fst a) (fst b)) xs" "sorted_wrt (\<lambda>a b. key_before (fst a) (fst b)) ys"
    and "distinct (map fst xs)" "distinct (map fst ys)" "set xs = set ys"
  shows "xs = ys"
  using assms
proof (induction xs arbitrary: ys)
  case (Cons x xs)
  then obtain y ys' where ys: "ys = y # ys'" by (cases ys) auto
  have "x = y"
  proof (rule ccontr)
    assume n: "x \<noteq> y"
    with Cons.prems(5) ys have "y \<in> set xs" "x \<in> set ys'" by auto
    then have "key_before (fst x) (fst y)" "key_before (fst y) (fst x)" using Cons.prems(1,2) ys by auto
    then have "fst x = fst y" by (rule key_before_antisym)
    with \<open>y \<in> set xs\<close> Cons.prems(3) show False by auto
  qed
  moreover have "xs = ys'"
  proof (rule Cons.IH)
    have "x \<notin> set xs" "y \<notin> set ys'" using Cons.prems(3,4) ys by force+
    then show "set xs = set ys'" using Cons.prems(5) ys \<open>x = y\<close> by auto
  qed (use Cons.prems ys in auto)
  ultimately show ?case using ys by simp
qed simp

lemma text_ignores_order:
  assumes "set ps = set qs" "distinct (map fst ps)" "distinct (map fst qs)"
  shows "stableStringify h (JObj ps) = stableStringify h (JObj qs)"
proof -
  let ?n = "map (\<lambda>(k, v). (k, normalizeStableValue v))"
  have f: "fst \<circ> (\<lambda>(k, v). (k, normalizeStableValue v)) = fst" by auto
  have "sort_entries (?n ps) = sort_entries (?n qs)"
    using sort_entries_facts [of "?n ps"] sort_entries_facts [of "?n qs"] assms by (intro sorted_entries_unique) (simp_all add: f)
  then show ?thesis by (simp add: stableStringify_def del: json_stringify.simps)
qed

section \<open>What verifying checks\<close>

lemma index_of_version: "index_of_char CHR '':'' (TOKEN_VERSION @ '':'' @ s) = Some 2"
  by (simp add: TOKEN_VERSION_def index_of_char_def index_of.simps)

text \<open>The host reads back what it wrote.\<close>

definition reads_back :: "token_host \<Rightarrow> (string \<times> js_value) list \<Rightarrow> bool" where
  "reads_back w e \<longleftrightarrow>
     (let t = text_of (json_stringify (base_host w) (JObj e))
      in of_base64url w (to_base64url w t) = t \<and> length t \<le> MAX_TOKEN_ENVELOPE_BYTES \<and> parse_json w t = Some (JObj e))"

lemma decode_encoded:
  assumes "reads_back w e" "map_of e ''v'' = Some (JStr TOKEN_VERSION)" "map_of e ''type'' = Some (JStr k)"
  shows "decodeEnvelope w (encodeEnvelope w e) = Inr (JObj e)"
  using assms index_of_version
  by (simp add: decodeEnvelope_def encodeEnvelope_def reads_back_def Let_def TOKEN_VERSION_def del: json_stringify.simps)

lemma lifetime_positive: "lifetime opts = Some ms \<Longrightarrow> 0 < ms"
proof -
  assume "lifetime opts = Some ms"
  then obtain s :: rat where "0 < s" "ms = \<lfloor>s * 1000\<rfloor>" "ms \<noteq> 0" by (auto simp: lifetime_def split: option.splits if_splits)
  moreover have "0 \<le> \<lfloor>s * 1000\<rfloor>" using \<open>0 < s\<close> by simp
  ultimately show ?thesis by linarith
qed

lemma verify_signed:
  assumes "signToken w kind data opts now nonce = Inr tok" "reads_back w (signed_envelope w kind data opts now nonce)"
    and "\<And>s. buffer_from w (JStr s) = Some s"
    and "0 \<le> now"
  shows "verifyToken w tok kind' opts later =
    (if kind' \<noteq> kind then Inl InvalidToken
     else if (case lifetime opts of None \<Rightarrow> False | Some ms \<Rightarrow> now + ms < later) then Inl ExpiredToken
     else Inr data)"
proof -
  let ?e = "signed_envelope w kind data opts now nonce"
  let ?u = "unsigned_envelope kind now (map_option (\<lambda>ms. now + ms) (lifetime opts)) nonce data"
  have tok: "tok = encodeEnvelope w ?e" "secret opts \<noteq> []" using assms(1) by (auto simp: signToken_def split: if_splits)
  have e: "?e = ?u @ [(''sig'', JStr (computeSignature w ?u (secret opts)))]" by (simp add: signed_envelope_def Let_def)
  have m: "map_of ?e ''v'' = Some (JStr TOKEN_VERSION)" "map_of ?e ''type'' = Some (JStr kind)" "map_of ?e ''data'' = Some data"
    "map_of ?e ''sig'' = Some (JStr (computeSignature w ?u (secret opts)))"
    "map_of ?e ''exp'' = map_option (\<lambda>ms. JNum (Finite (of_int (now + ms)))) (lifetime opts)"
    by (simp_all add: e unsigned_envelope_def split: option.split)
  have "filter (\<lambda>(k, v). k \<noteq> ''sig'') ?e = ?u"
    by (simp add: e unsigned_envelope_def split: option.split)
  then have s: "computeSignature w ?e (secret opts) = computeSignature w ?u (secret opts)"
    by (simp add: computeSignature_def unsigned_envelope_def split: option.split)
  show ?thesis unfolding tok(1) verifyToken_def decode_encoded [OF assms(2) m(1,2)]
    using tok(2) m s assms(3,4) lifetime_positive [of opts] by (auto simp: safeEqual_def envelope_entries_def split: option.splits)
qed

text \<open>Whatever is accepted is of the right kind, not expired, and signed with the secret.\<close>

lemma verified_token:
  assumes "verifyToken w tok kind opts now = Inr data"
  shows "\<exists>v. decodeEnvelope w tok = Inr v \<and> get_prop v ''type'' = JStr kind \<and> get_prop v ''data'' = data
    \<and> buffer_from w (get_prop v ''sig'') = Some (computeSignature w (envelope_entries v) (secret opts))
    \<and> \<not> (js_truthy (get_prop v ''exp'') \<and> num_less (js_to_number (js_host.truncate w) (get_prop v ''exp'')) (Finite (of_int now)))"
  using assms by (cases "decodeEnvelope w tok") (auto simp: verifyToken_def safeEqual_def split: if_splits option.splits)

text \<open>A token without a signature is no bad request: comparing its signature throws.\<close>

lemma unsigned_token_crashes:
  assumes "buffer_from w JUndefined = None" "decodeEnvelope w tok = Inr v" "get_prop v ''type'' = JStr kind"
    and "get_prop v ''sig'' = JUndefined" "get_prop v ''exp'' = JUndefined" "secret opts \<noteq> []"
  shows "verifyToken w tok kind opts now = Inl (TokenCrash TypeError)"
  using assms by (simp add: verifyToken_def safeEqual_def)

text \<open>
  A skip token gives its values back to a request with the same order and context, before it expires; any
  other request is a bad one.
\<close>

lemma skip_token_back:
  assumes "signSkipTokenValues w cfg context values ds now nonce = Inr (Some tok)" "buildSkipTokenOptions cfg = Inr opts"
    and "reads_back w (signed_envelope w ''skip'' (skip_payload (buildSkipTokenDescriptorKey ds) context values) opts now nonce)"
    and "\<And>s. buffer_from w (JStr s) = Some s" "0 \<le> now"
  shows "decodeSkipTokenValues w cfg context' tok ds' later =
    (if context' = context \<and> buildSkipTokenDescriptorKey ds' = buildSkipTokenDescriptorKey ds \<and> length ds' = length ds
        \<and> (case lifetime opts of None \<Rightarrow> True | Some ms \<Rightarrow> later \<le> now + ms)
     then Inr (map JStr values) else Inl (HttpError 400 [] ''Invalid $skiptoken value.''))"
proof -
  let ?data = "skip_payload (buildSkipTokenDescriptorKey ds) context values"
  have sign: "signToken w ''skip'' ?data opts now nonce = Inr tok" "length values = length ds"
    using assms(1,2) by (auto simp: signSkipTokenValues_def signSkipToken_def split: if_splits)
  note v = verify_signed [OF sign(1) assms(3,4,5), of "''skip''" later]
  have d: "js_truthy ?data" "get_prop ?data ''descriptor'' = JStr (buildSkipTokenDescriptorKey ds)" "get_prop ?data ''context'' = JStr context"
    "get_prop ?data ''values'' = JArr (map JStr values)" by (simp_all add: skip_payload_def)
  have n: "map nullish_empty (map JStr values) = map JStr values" by (simp add: nullish_empty_def)
  show ?thesis
    unfolding decodeSkipTokenValues_def assms(2) rbind.simps verifySkipToken_def v
    using d n sign(2) by (auto split: option.splits)
qed

lemma context_ignores_token:
  "buildSkipTokenContext h cmp meth path ((''$skiptoken'', v) # query) = buildSkipTokenContext h cmp meth path query"
  "buildSkipTokenContext h cmp meth path (query @ [(''$skiptoken'', v)]) = buildSkipTokenContext h cmp meth path query"
  by (simp_all add: buildSkipTokenContext_def context_params_def)

text \<open>A configured lifetime of less than a second is none at all.\<close>

lemma subsecond_lifetime:
  assumes "skipTokenTtl cfg = Some x" "0 < x" "x < 1" "buildSkipTokenOptions cfg = Inr opts"
  shows "lifetime opts = None"
proof -
  have "\<lfloor>x\<rfloor> = 0" using assms(2,3) by (simp add: floor_eq_iff)
  with assms show ?thesis by (auto simp: buildSkipTokenOptions_def rbind_eq_Inr normalizeTtlSeconds_def lifetime_def)
qed

end
