(* ===== verification/DeltaToken.thy ===== *)
theory DeltaToken
  imports Tokens ApplyFallback
begin

text \<open>
  Delta tokens (\<open>util/delta-token.ts\<close>, \<open>util/delta-token-validation.ts\<close>): how the values of keys and of grouped results are
  written and read back; and what the generated controllers make of them
  (\<open>controllers/crud-controller-factory.ts\<close>): the state of a grouped result, what was removed from it, the deleted
  entities and the condition for what has changed.
\<close>

section \<open>Values\<close>

definition kinded :: "string \<Rightarrow> js_value \<Rightarrow> js_value" where
  "kinded k v = JObj [(''kind'', JStr k), (''value'', v)]"

text \<open>Every value but an invalid date, which has no \<open>toISOString\<close>.\<close>

definition encode_atom :: "etag_host \<Rightarrow> js_value \<Rightarrow> js_value" where
  "encode_atom h v =
     (case v of
        JUndefined \<Rightarrow> JObj [(''kind'', JStr ''null'')]
      | JNull \<Rightarrow> JObj [(''kind'', JStr ''null'')]
      | JStr s \<Rightarrow> kinded ''string'' v
      | JNum (Finite x) \<Rightarrow> kinded ''number'' (JStr (number_text h x))
      | JNum n \<Rightarrow> kinded ''string'' (JStr (js_String (js_host.truncate h) v))
      | JBool b \<Rightarrow> kinded ''boolean'' v
      | JDate None \<Rightarrow> JUndefined
      | JDate (Some t) \<Rightarrow> kinded ''date'' (JStr (iso_text h t))
      | _ \<Rightarrow> kinded ''json'' (JStr (text_of (json_stringify h v))))"

definition encodeValue :: "etag_host \<Rightarrow> js_value \<Rightarrow> js_value result" where
  "encodeValue h v = (if v = JDate None then Inl RangeError else Inr (encode_atom h v))"

definition isEncodedDeltaValue :: "js_value \<Rightarrow> bool" where
  "isEncodedDeltaValue v \<longleftrightarrow> (case v of JObj ps \<Rightarrow> is_js_text (get_prop v ''kind'') | _ \<Rightarrow> False)"

definition nullish_or :: "js_value \<Rightarrow> js_value \<Rightarrow> js_value" where
  "nullish_or v d = (if is_nullish v then d else v)"

definition parsed_or_text :: "token_host \<Rightarrow> string \<Rightarrow> js_value" where
  "parsed_or_text w s = (case parse_json w s of Some v \<Rightarrow> v | None \<Rightarrow> JStr s)"

definition coerceLegacyValue :: "token_host \<Rightarrow> string \<Rightarrow> js_value" where
  "coerceLegacyValue w s =
     (if s = ''null'' then JNull
      else if js_Number s \<noteq> NotANumber \<and> trim s \<noteq> [] then JNum (js_Number s)
      else if s = ''true'' then JBool True
      else if s = ''false'' then JBool False
      else if starts_with s ''{'' \<or> starts_with s ''['' then parsed_or_text w s
      else case date_parse w s of Some t \<Rightarrow> JDate (Some t) | None \<Rightarrow> JStr s)"

definition decode_kinded :: "token_host \<Rightarrow> string \<Rightarrow> js_value \<Rightarrow> js_value" where
  "decode_kinded w k v =
     (if k = ''null'' then JNull
      else if k = ''string'' then nullish_or v (JStr [])
      else if k = ''number'' then JNum (js_to_number (js_host.truncate w) (nullish_or v (JNum (Finite 0))))
      else if k = ''boolean'' then JBool (js_truthy v)
      else case v of
          JStr s \<Rightarrow>
            if k = ''bigint'' then (case big_int w s of Some n \<Rightarrow> n | None \<Rightarrow> v)
            else if k = ''date'' then (case date_parse w s of Some t \<Rightarrow> JDate (Some t) | None \<Rightarrow> v)
            else if k = ''json'' then parsed_or_text w s
            else v
        | _ \<Rightarrow> v)"

definition decodeStoredValue :: "token_host \<Rightarrow> js_value \<Rightarrow> js_value" where
  "decodeStoredValue w v =
     (case v of
        JObj ps \<Rightarrow> (case map_of ps ''kind'' of Some (JStr k) \<Rightarrow> decode_kinded w k (get_prop v ''value'') | _ \<Rightarrow> v)
      | JStr s \<Rightarrow> coerceLegacyValue w s
      | _ \<Rightarrow> v)"

section \<open>Key values\<close>

type_synonym key_values = "(string \<times> js_value) list"

fun encode_entries :: "etag_host \<Rightarrow> key_values \<Rightarrow> key_values result" where
  "encode_entries h [] = Inr []"
| "encode_entries h ((k, v) # kvs) = rbind (encodeValue h v) (\<lambda>e. rbind (encode_entries h kvs) (\<lambda>es. Inr ((k, e) # es)))"

definition encodeKeyValues :: "etag_host \<Rightarrow> key_values option \<Rightarrow> key_values option result" where
  "encodeKeyValues h kvs =
     (case kvs of
        None \<Rightarrow> Inr None
      | Some ps \<Rightarrow> if ps = [] then Inr None else rbind (encode_entries h ps) (\<lambda>es. Inr (Some es)))"

definition encodeKeyValuesArray :: "etag_host \<Rightarrow> key_values list option \<Rightarrow> key_values list option result" where
  "encodeKeyValuesArray h entries =
     (case entries of
        None \<Rightarrow> Inr None
      | Some es \<Rightarrow> rbind (rmap (\<lambda>e. encodeKeyValues h (Some e)) es) (\<lambda>rs.
          Inr (if present rs = [] then None else Some (present rs))))"

text \<open>\<open>Object.entries\<close> of what was parsed.\<close>

definition entries_of :: "js_value \<Rightarrow> key_values" where
  "entries_of v =
     (case v of
        JObj ps \<Rightarrow> ps
      | JArr vs \<Rightarrow> map (\<lambda>i. (show_nat i, vs ! i)) [0..<length vs]
      | JStr s \<Rightarrow> map (\<lambda>i. (show_nat i, JStr [s ! i])) [0..<length s]
      | _ \<Rightarrow> [])"

definition decodeKeyValuesObject :: "token_host \<Rightarrow> js_value \<Rightarrow> key_values option" where
  "decodeKeyValuesObject w raw =
     (if js_truthy raw then Some (map (\<lambda>(k, v). (k, decodeStoredValue w v)) (entries_of raw)) else None)"

definition decodeKeyValuesArray :: "token_host \<Rightarrow> js_value \<Rightarrow> key_values list option" where
  "decodeKeyValuesArray w raw =
     (case raw of
        JArr vs \<Rightarrow>
          (let decoded = present (map (\<lambda>v. case v of
               JObj ps \<Rightarrow> decodeKeyValuesObject w v | JArr us \<Rightarrow> decodeKeyValuesObject w v | _ \<Rightarrow> None) vs)
           in if decoded = [] then None else Some decoded)
      | _ \<Rightarrow> None)"

section \<open>Structured values\<close>

text \<open>A date is a plain record without properties here.\<close>

fun encodeStructuredValue :: "etag_host \<Rightarrow> js_value \<Rightarrow> js_value" where
  "encodeStructuredValue h JUndefined = JUndefined"
| "encodeStructuredValue h (JArr vs) = JArr (map (encodeStructuredValue h) vs)"
| "encodeStructuredValue h (JObj ps) = JObj (map (\<lambda>(k, v). (k, encodeStructuredValue h v)) ps)"
| "encodeStructuredValue h (JDate t) = JObj []"
| "encodeStructuredValue h v = encode_atom h v"

fun decodeStructuredValue :: "token_host \<Rightarrow> js_value \<Rightarrow> js_value" where
  "decodeStructuredValue w (JArr vs) = JArr (map (decodeStructuredValue w) vs)"
| "decodeStructuredValue w (JObj ps) =
     (if isEncodedDeltaValue (JObj ps) then decodeStoredValue w (JObj ps)
      else JObj (map (\<lambda>(k, v). (k, decodeStructuredValue w v)) ps))"
| "decodeStructuredValue w (JDate t) = JObj []"
| "decodeStructuredValue w v = v"

record bucket_state =
  bucket_key :: key_values
  bucket_data :: "key_values option"

definition map_values :: "(js_value \<Rightarrow> js_value) \<Rightarrow> key_values \<Rightarrow> key_values" where
  "map_values f kvs = map (\<lambda>(k, v). (k, f v)) kvs"

definition encodeBucketState :: "etag_host \<Rightarrow> bucket_state \<Rightarrow> bucket_state" where
  "encodeBucketState h b =
     \<lparr>bucket_key = map_values (encodeStructuredValue h) (bucket_key b),
      bucket_data = map_option (map_values (encodeStructuredValue h)) (bucket_data b)\<rparr>"

text \<open>A record with a string under \<open>kind\<close> is taken for an encoded value, and its entries are those of the value.\<close>

definition decoded_record :: "token_host \<Rightarrow> key_values \<Rightarrow> key_values" where
  "decoded_record w kvs = entries_of (decodeStructuredValue w (JObj kvs))"

definition decodeBucketState :: "token_host \<Rightarrow> bucket_state \<Rightarrow> bucket_state" where
  "decodeBucketState w b =
     \<lparr>bucket_key = decoded_record w (bucket_key b), bucket_data = map_option (decoded_record w) (bucket_data b)\<rparr>"

definition plain_record :: "js_value \<Rightarrow> key_values option" where
  "plain_record v = (case v of JObj ps \<Rightarrow> Some ps | JDate t \<Rightarrow> Some [] | _ \<Rightarrow> None)"

definition normalize_bucket :: "token_host \<Rightarrow> js_value \<Rightarrow> bucket_state option" where
  "normalize_bucket w v =
     (case plain_record v of
        None \<Rightarrow> None
      | Some ps \<Rightarrow> Some (decodeBucketState w
          (case plain_record (get_prop v ''key'') of
             Some k \<Rightarrow> \<lparr>bucket_key = k, bucket_data = plain_record (get_prop v ''data'')\<rparr>
           | None \<Rightarrow> \<lparr>bucket_key = ps, bucket_data = None\<rparr>)))"

definition normalizeBucketStates :: "token_host \<Rightarrow> js_value \<Rightarrow> bucket_state list option" where
  "normalizeBucketStates w raw =
     (case raw of
        JArr vs \<Rightarrow> (let bs = present (map (normalize_bucket w) vs) in if bs = [] then None else Some bs)
      | _ \<Rightarrow> None)"

section \<open>Tokens\<close>

record delta_payload =
  entitySet :: js_value
  lastValue :: js_value
  delta_keys :: "key_values option"
  pageKeys :: "key_values list option"
  delta_buckets :: "bucket_state list option"
  issuedAt :: js_value

text \<open>A property that is \<open>undefined\<close> is not printed, so it is left out of what is signed.\<close>

definition given_entry :: "string \<Rightarrow> ('a \<Rightarrow> js_value) \<Rightarrow> 'a option \<Rightarrow> (string \<times> js_value) list" where
  "given_entry k f v = (case v of None \<Rightarrow> [] | Some x \<Rightarrow> [(k, f x)])"

definition bucket_value :: "bucket_state \<Rightarrow> js_value" where
  "bucket_value b = JObj ((''key'', JObj (bucket_key b)) # given_entry ''data'' JObj (bucket_data b))"

definition encoded_payload :: "etag_host \<Rightarrow> delta_payload \<Rightarrow> js_value \<Rightarrow> js_value result" where
  "encoded_payload h p now_iso =
     rbind (encodeKeyValues h (delta_keys p)) (\<lambda>keys.
     rbind (encodeKeyValuesArray h (pageKeys p)) (\<lambda>pages.
       Inr (JObj ([(''entitySet'', entitySet p), (''lastValue'', lastValue p)]
         @ given_entry ''keyValues'' JObj keys
         @ given_entry ''pageKeys'' (\<lambda>es. JArr (map JObj es)) pages
         @ given_entry ''buckets'' (\<lambda>bs. JArr (map (\<lambda>b. bucket_value (encodeBucketState h b)) bs)) (delta_buckets p)
         @ [(''issuedAt'', nullish_or (issuedAt p) now_iso)]))))"

definition encodeDeltaToken :: "token_host \<Rightarrow> delta_payload \<Rightarrow> token_options \<Rightarrow> int \<Rightarrow> string \<Rightarrow> string result" where
  "encodeDeltaToken w p opts now nonce =
     rbind (encoded_payload (base_host w) p (JStr (iso_text w now))) (\<lambda>data. signToken w ''delta'' data opts now nonce)"

definition decoded_payload :: "token_host \<Rightarrow> js_value \<Rightarrow> delta_payload" where
  "decoded_payload w v =
     \<lparr>entitySet = get_prop v ''entitySet'', lastValue = get_prop v ''lastValue'',
      delta_keys = decodeKeyValuesObject w (get_prop v ''keyValues''),
      pageKeys = decodeKeyValuesArray w (get_prop v ''pageKeys''),
      delta_buckets = normalizeBucketStates w (get_prop v ''buckets''),
      issuedAt = get_prop v ''issuedAt''\<rparr>"

text \<open>The unsigned tokens of earlier versions; \<open>base64\<close> is the host's reading of base64.\<close>

definition bad_payload :: "'a verified" where
  "bad_payload = Inl (TokenCrash (PlainError ''Invalid delta token payload.''))"

definition decodeLegacyPayload :: "(string \<Rightarrow> string) \<Rightarrow> string \<Rightarrow> string verified" where
  "decodeLegacyPayload base64 raw = (if MAX_TOKEN_ENVELOPE_BYTES < length (base64 raw) then Inl InvalidToken else Inr (base64 raw))"

fun legacy_keys :: "token_host \<Rightarrow> string list \<Rightarrow> key_values \<Rightarrow> key_values verified" where
  "legacy_keys w [] acc = Inr acc"
| "legacy_keys w (pair # pairs) acc =
     (if pair = [] then legacy_keys w pairs acc
      else (let parts = split_on CHR ''='' pair; keyRaw = hd parts
            in if keyRaw = [] then legacy_keys w pairs acc
               else case (decodeURIComponent keyRaw,
                    if length parts < 2 \<or> parts ! 1 = [] then Some [] else decodeURIComponent (parts ! 1)) of
                   (Some (c # cs), Some v) \<Rightarrow> legacy_keys w pairs (obj_set (c # cs) (coerceLegacyValue w v) acc)
                 | _ \<Rightarrow> bad_payload))"

definition decodeLegacyToken :: "token_host \<Rightarrow> (string \<Rightarrow> string) \<Rightarrow> string \<Rightarrow> delta_payload verified" where
  "decodeLegacyToken w base64 token =
     vbind (decodeLegacyPayload base64 (drop 3 token)) (\<lambda>raw.
       let parts = split_on CHR ''|'' raw;
           part = (\<lambda>i. if i < length parts then parts ! i else [])
       in if part 0 = [] \<or> part 1 = [] then bad_payload
          else vbind (if part 2 = [] then Inr None else vbind (legacy_keys w (split_on CHR ''&'' (part 2)) []) (\<lambda>ks. Inr (Some ks))) (\<lambda>keys.
            Inr \<lparr>entitySet = JStr (part 0), lastValue = JStr (part 1), delta_keys = keys, pageKeys = None, delta_buckets = None,
                 issuedAt = JUndefined\<rparr>))"

definition decodeJsonToken :: "token_host \<Rightarrow> (string \<Rightarrow> string) \<Rightarrow> string \<Rightarrow> delta_payload verified" where
  "decodeJsonToken w base64 token =
     vbind (decodeLegacyPayload base64 (drop 3 token)) (\<lambda>raw.
       case parse_json w raw of
         None \<Rightarrow> Inl (TokenCrash (PlainError ''SyntaxError''))
       | Some v \<Rightarrow>
           if \<not> js_truthy (get_prop v ''entitySet'') \<or> \<not> js_truthy (get_prop v ''lastValue'') then bad_payload
           else Inr (decoded_payload w v))"

definition decodeDeltaToken :: "token_host \<Rightarrow> (string \<Rightarrow> string) \<Rightarrow> string \<Rightarrow> token_options \<Rightarrow> int \<Rightarrow> delta_payload verified" where
  "decodeDeltaToken w base64 token opts now =
     (if token = [] then Inl InvalidToken
      else if starts_with token ''v2:'' then (if allowLegacyUnsigned opts then decodeJsonToken w base64 token else Inl LegacyDenied)
      else if starts_with token ''v1:'' then (if allowLegacyUnsigned opts then decodeLegacyToken w base64 token else Inl LegacyDenied)
      else vbind (verifyToken w token ''delta'' opts now) (\<lambda>data.
        if is_nullish data then Inl (TokenCrash TypeError) else Inr (decoded_payload w data)))"

datatype delta_validation = DeltaOk delta_payload | DeltaBad string

definition validateDeltaToken :: "bool \<Rightarrow> string \<Rightarrow> delta_payload verified \<Rightarrow> delta_validation" where
  "validateDeltaToken enabled name decoded =
     (if \<not> enabled then DeltaBad ''delta-not-supported''
      else case decoded of
          Inl e \<Rightarrow> DeltaBad (if e = ExpiredToken then ''expired'' else ''invalid'')
        | Inr p \<Rightarrow>
            if js_truthy (entitySet p) \<and> entitySet p \<noteq> JStr name then DeltaBad ''entity-mismatch'' else DeltaOk p)"

section \<open>What values survive\<close>

text \<open>Values the stored form keeps: texts, truth values, nulls, and the numbers and dates the host reads back.\<close>

definition storable :: "token_host \<Rightarrow> js_value \<Rightarrow> bool" where
  "storable w v \<longleftrightarrow>
     (case v of
        JNull \<Rightarrow> True
      | JBool b \<Rightarrow> True
      | JStr s \<Rightarrow> True
      | JNum (Finite x) \<Rightarrow> js_Number (number_text w x) = Finite x
      | JDate (Some t) \<Rightarrow> date_parse w (iso_text w t) = Some t
      | _ \<Rightarrow> False)"

lemma kinded_parts: "map_of [(''kind'', JStr k), (''value'', v)] ''kind'' = Some (JStr k)" "get_prop (kinded k v) ''value'' = v"
  by (simp_all add: kinded_def)

lemma decode_kinded_value: "decodeStoredValue w (kinded k v) = decode_kinded w k v"
  by (simp add: decodeStoredValue_def kinded_def)

lemma host_texts [simp]: "number_text (base_host w) = number_text w" "iso_text (base_host w) = iso_text w"
  "js_host.truncate (base_host w) = js_host.truncate w"
  by (simp_all add: base_host_def etag_host.truncate_def js_host.truncate_def)

lemma decode_null: "decodeStoredValue w (JObj [(''kind'', JStr ''null'')]) = JNull"
  by (simp add: decodeStoredValue_def decode_kinded_def)

lemma atom_back: "storable w v \<Longrightarrow> decodeStoredValue w (encode_atom (base_host w) v) = v"
  by (cases v) (auto simp: storable_def encode_atom_def decode_kinded_value decode_null decode_kinded_def nullish_or_def
    split: js_number.splits option.splits)

lemma value_back: "storable w v \<Longrightarrow> \<exists>e. encodeValue (base_host w) v = Inr e \<and> decodeStoredValue w e = v"
  using atom_back [of w v] by (auto simp: encodeValue_def storable_def)

lemma entries_back:
  "list_all (\<lambda>(k, v). storable w v) kvs \<Longrightarrow>
     \<exists>es. encode_entries (base_host w) kvs = Inr es \<and> map (\<lambda>(k, v). (k, decodeStoredValue w v)) es = kvs"
proof (induction kvs)
  case (Cons kv kvs)
  obtain k v where kv: "kv = (k, v)" by fastforce
  with Cons.prems obtain e where "encodeValue (base_host w) v = Inr e" "decodeStoredValue w e = v" using value_back by auto
  with Cons kv show ?case by auto
qed simp

lemma key_values_back:
  assumes "kvs \<noteq> []" "list_all (\<lambda>(k, v). storable w v) kvs"
  shows "\<exists>es. encodeKeyValues (base_host w) (Some kvs) = Inr (Some es) \<and> decodeKeyValuesObject w (JObj es) = Some kvs"
  using entries_back [OF assms(2)] assms(1) by (auto simp: encodeKeyValues_def decodeKeyValuesObject_def entries_of_def)

text \<open>Structured values keep their lists and records, but dates become empty records.\<close>

fun keeps_structure :: "token_host \<Rightarrow> js_value \<Rightarrow> bool" where
  "keeps_structure w (JArr vs) = list_all (keeps_structure w) vs"
| "keeps_structure w (JObj ps) = list_all (\<lambda>(k, v). keeps_structure w v) ps"
| "keeps_structure w (JDate t) = False"
| "keeps_structure w v = storable w v"

lemma encoded_not_text: "encodeStructuredValue h v \<noteq> JStr s"
  by (cases v) (auto simp: encode_atom_def kinded_def split: js_number.splits)

lemma encoded_record_plain: "\<not> isEncodedDeltaValue (encodeStructuredValue h (JObj ps))"
  using encoded_not_text by (induction ps) (auto simp: isEncodedDeltaValue_def split: if_splits)

lemma atom_encoded: "keeps_structure w v \<Longrightarrow> (\<forall>vs. v \<noteq> JArr vs) \<Longrightarrow> (\<forall>ps. v \<noteq> JObj ps) \<Longrightarrow>
    \<exists>ps. encodeStructuredValue (base_host w) v = JObj ps \<and> isEncodedDeltaValue (JObj ps) \<and> decodeStoredValue w (JObj ps) = v"
  using atom_back [of w v] by (cases v) (auto simp: storable_def encode_atom_def kinded_def isEncodedDeltaValue_def split: js_number.splits)

lemma structured_back: "keeps_structure w v \<Longrightarrow> decodeStructuredValue w (encodeStructuredValue (base_host w) v) = v"
proof (induction w v rule: keeps_structure.induct)
  case (1 w vs)
  then show ?case by (auto simp: list_all_iff intro: map_idI)
next
  case (2 w ps)
  have "(\<lambda>(k, v). (k, decodeStructuredValue w (encodeStructuredValue (base_host w) v))) x = x" if "x \<in> set ps" for x
    using 2 that by (cases x) (auto simp: list_all_iff)
  then have "map (\<lambda>(k, v). (k, decodeStructuredValue w v)) (map (\<lambda>(k, v). (k, encodeStructuredValue (base_host w) v)) ps) = ps"
    by (auto simp: comp_def split_def intro!: map_idI)
  with encoded_record_plain [of "base_host w" ps] show ?case by simp
qed (use atom_encoded in \<open>fastforce+\<close>)

lemma date_lost: "decodeStructuredValue w (encodeStructuredValue h (JDate t)) = JObj []"
  by (simp add: isEncodedDeltaValue_def)

section \<open>What a token keeps\<close>

definition bucket_storable :: "token_host \<Rightarrow> bucket_state \<Rightarrow> bool" where
  "bucket_storable w b \<longleftrightarrow> keeps_structure w (JObj (bucket_key b)) \<and> (\<forall>d. bucket_data b = Some d \<longrightarrow> keeps_structure w (JObj d))"

lemma decoded_record_back:
  assumes "keeps_structure w (JObj ps)"
  shows "decoded_record w (map_values (encodeStructuredValue (base_host w)) ps) = ps"
proof -
  have "decodeStructuredValue w (JObj (map_values (encodeStructuredValue (base_host w)) ps)) = JObj ps"
    using structured_back [OF assms] by (simp only: encodeStructuredValue.simps map_values_def)
  then show ?thesis by (simp only: decoded_record_def entries_of_def js_value.case)
qed

lemma bucket_back:
    assumes b: "bucket_storable w b"
  shows "normalize_bucket w (bucket_value (encodeBucketState (base_host w) b)) = Some b"
proof -
  let ?e = "map_values (encodeStructuredValue (base_host w))"
  have v: "plain_record (bucket_value c) \<noteq> None" "plain_record (get_prop (bucket_value c) ''key'') = Some (bucket_key c)"
    "plain_record (get_prop (bucket_value c) ''data'') = bucket_data c" for c
    by (cases "bucket_data c"; simp add: bucket_value_def given_entry_def plain_record_def)+
  have "decodeBucketState w (encodeBucketState (base_host w) b) = b"
    using b by (cases b; cases "bucket_data b")
      (simp_all add: decodeBucketState_def encodeBucketState_def bucket_storable_def decoded_record_back)
  moreover have "normalize_bucket w (bucket_value c) = Some (decodeBucketState w c)" for c
  proof -
    obtain ps where "plain_record (bucket_value c) = Some ps" using v(1) by blast
    then have "normalize_bucket w (bucket_value c) = Some (decodeBucketState w \<lparr>bucket_key = bucket_key c, bucket_data = bucket_data c\<rparr>)"
      by (simp add: normalize_bucket_def v(2,3))
    also have "\<lparr>bucket_key = bucket_key c, bucket_data = bucket_data c\<rparr> = c" by (cases c) simp
    finally show ?thesis .
  qed
  ultimately show ?thesis by simp
qed

text \<open>The groups of a token as the request that brings it back finds them.\<close>

definition returned_buckets :: "token_host \<Rightarrow> bucket_state list \<Rightarrow> bucket_state list option" where
  "returned_buckets w bs = normalizeBucketStates w (JArr (map (\<lambda>b. bucket_value (encodeBucketState (base_host w) b)) bs))"

lemma buckets_back:
  assumes "list_all (bucket_storable w) bs" "bs \<noteq> []"
  shows "returned_buckets w bs = Some bs"
proof -
  have "map (normalize_bucket w) (map (\<lambda>b. bucket_value (encodeBucketState (base_host w) b)) bs) = map Some bs"
    using assms(1) by (simp add: bucket_back list_all_iff)
  moreover have "present (map Some bs) = bs" by (induction bs) simp_all
  ultimately show ?thesis using assms(2) by (simp only: returned_buckets_def normalizeBucketStates_def js_value.case Let_def if_False)
qed

lemma pages_back:
  assumes "list_all (\<lambda>kvs. kvs \<noteq> [] \<and> list_all (\<lambda>(k, v). storable w v) kvs) pages" "pages \<noteq> []"
  shows "\<exists>es. encodeKeyValuesArray (base_host w) (Some pages) = Inr (Some es) \<and> decodeKeyValuesArray w (JArr (map JObj es)) = Some pages"
proof -
  have "\<exists>es. rmap (\<lambda>e. encodeKeyValues (base_host w) (Some e)) pages = Inr (map Some es)
      \<and> map (\<lambda>e. decodeKeyValuesObject w (JObj e)) es = map Some pages"
    using assms(1)
  proof (induction pages)
    case (Cons kvs pages)
    then have "kvs \<noteq> []" "list_all (\<lambda>(k, v). storable w v) kvs" by simp_all
    then obtain e where e: "encodeKeyValues (base_host w) (Some kvs) = Inr (Some e)" "decodeKeyValuesObject w (JObj e) = Some kvs"
      using key_values_back by blast
    from Cons obtain es where "rmap (\<lambda>e. encodeKeyValues (base_host w) (Some e)) pages = Inr (map Some es)"
      "map (\<lambda>e. decodeKeyValuesObject w (JObj e)) es = map Some pages" by auto
    with e show ?case by (intro exI [of _ "e # es"]) simp
  qed simp
  then obtain es where es: "rmap (\<lambda>e. encodeKeyValues (base_host w) (Some e)) pages = Inr (map Some es)"
    "map (\<lambda>e. decodeKeyValuesObject w (JObj e)) es = map Some pages" by blast
  have p: "present (map Some xs) = xs" for xs :: "key_values list" by (induction xs) simp_all
  have "es \<noteq> []" using es(2) assms(2) by auto
  then have "encodeKeyValuesArray (base_host w) (Some pages) = Inr (Some es)"
    by (simp only: encodeKeyValuesArray_def option.case es(1) rbind.simps p if_False)
  moreover have "decodeKeyValuesArray w (JArr (map JObj es)) = Some pages"
    using assms(2) by (simp add: decodeKeyValuesArray_def comp_def es(2) p Let_def)
  ultimately show ?thesis by blast
qed

text \<open>Payloads of the controllers whose values are stored without loss.\<close>

definition payload_storable :: "token_host \<Rightarrow> delta_payload \<Rightarrow> bool" where
  "payload_storable w p \<longleftrightarrow>
     (\<forall>kvs. delta_keys p = Some kvs \<longrightarrow> kvs \<noteq> [] \<and> list_all (\<lambda>(k, v). storable w v) kvs)
     \<and> (\<forall>pages. pageKeys p = Some pages \<longrightarrow> pages \<noteq> [] \<and> list_all (\<lambda>kvs. kvs \<noteq> [] \<and> list_all (\<lambda>(k, v). storable w v) kvs) pages)
     \<and> (\<forall>bs. delta_buckets p = Some bs \<longrightarrow> bs \<noteq> [] \<and> list_all (bucket_storable w) bs)"

lemma payload_back:
  assumes "payload_storable w p"
  shows "\<exists>ps. encoded_payload (base_host w) p now_iso = Inr (JObj ps)
    \<and> decoded_payload w (JObj ps) = p\<lparr>issuedAt := nullish_or (issuedAt p) now_iso\<rparr>"
proof -
  have "\<exists>keys. encodeKeyValues (base_host w) (delta_keys p) = Inr keys
      \<and> decodeKeyValuesObject w (case keys of None \<Rightarrow> JUndefined | Some ps \<Rightarrow> JObj ps) = delta_keys p"
  proof (cases "delta_keys p")
    case (Some kvs)
    with assms have "kvs \<noteq> []" "list_all (\<lambda>(k, v). storable w v) kvs" by (simp_all add: payload_storable_def)
    from key_values_back [OF this] Some show ?thesis by auto
  qed (simp add: encodeKeyValues_def decodeKeyValuesObject_def)
  then obtain keys where keys: "encodeKeyValues (base_host w) (delta_keys p) = Inr keys"
    "decodeKeyValuesObject w (case keys of None \<Rightarrow> JUndefined | Some ps \<Rightarrow> JObj ps) = delta_keys p" by blast
  have "\<exists>pages. encodeKeyValuesArray (base_host w) (pageKeys p) = Inr pages
      \<and> decodeKeyValuesArray w (case pages of None \<Rightarrow> JUndefined | Some es \<Rightarrow> JArr (map JObj es)) = pageKeys p"
  proof (cases "pageKeys p")
    case (Some ks)
    with assms have "list_all (\<lambda>kvs. kvs \<noteq> [] \<and> list_all (\<lambda>(k, v). storable w v) kvs) ks" "ks \<noteq> []"
      by (simp_all add: payload_storable_def)
    from pages_back [OF this] Some show ?thesis by auto
  qed (simp add: encodeKeyValuesArray_def decodeKeyValuesArray_def)
  then obtain pages where pages: "encodeKeyValuesArray (base_host w) (pageKeys p) = Inr pages"
    "decodeKeyValuesArray w (case pages of None \<Rightarrow> JUndefined | Some es \<Rightarrow> JArr (map JObj es)) = pageKeys p" by blast
  have buckets: "normalizeBucketStates w (case delta_buckets p of None \<Rightarrow> JUndefined
      | Some bs \<Rightarrow> JArr (map (\<lambda>b. bucket_value (encodeBucketState (base_host w) b)) bs)) = delta_buckets p"
    using assms buckets_back [of w]
    by (cases "delta_buckets p") (auto simp: returned_buckets_def normalizeBucketStates_def payload_storable_def)
  show ?thesis
    using keys pages buckets
    by (cases p; cases keys; cases pages; cases "delta_buckets p") (simp_all add: encoded_payload_def decoded_payload_def given_entry_def)
qed

lemma delta_token_back:
  assumes "payload_storable w p" "secret opts \<noteq> []" "0 \<le> now" "\<And>s. buffer_from w (JStr s) = Some s"
    and "\<And>data. encoded_payload (base_host w) p (JStr (iso_text w now)) = Inr data \<Longrightarrow>
      reads_back w (signed_envelope w ''delta'' data opts now nonce)"
  shows "\<exists>tok. encodeDeltaToken w p opts now nonce = Inr tok
    \<and> decodeDeltaToken w base64 tok opts later =
        (if (case lifetime opts of None \<Rightarrow> False | Some ms \<Rightarrow> now + ms < later) then Inl ExpiredToken
         else Inr (p\<lparr>issuedAt := nullish_or (issuedAt p) (JStr (iso_text w now))\<rparr>))"
proof -
  obtain ps where ps: "encoded_payload (base_host w) p (JStr (iso_text w now)) = Inr (JObj ps)"
    "decoded_payload w (JObj ps) = p\<lparr>issuedAt := nullish_or (issuedAt p) (JStr (iso_text w now))\<rparr>"
    using payload_back [OF assms(1)] by blast
  let ?tok = "encodeEnvelope w (signed_envelope w ''delta'' (JObj ps) opts now nonce)"
  have s: "signToken w ''delta'' (JObj ps) opts now nonce = Inr ?tok" using assms(2) by (simp add: signToken_def)
  have "?tok \<noteq> []" "\<not> starts_with ?tok ''v2:''" "\<not> starts_with ?tok ''v1:''"
    by (simp_all add: encodeEnvelope_def TOKEN_VERSION_def starts_with_def)
  with verify_signed [OF s assms(5) [OF ps(1)] assms(4,3), of "''delta''" later] s ps
  show ?thesis by (simp add: encodeDeltaToken_def decodeDeltaToken_def)
qed

end
