(* ===== verification/DeltaFeed.thy ===== *)
theory DeltaFeed
  imports DeltaToken
begin

text \<open>
  Delta feeds of the generated controllers (\<open>controllers/crud-controller-factory.ts\<close>): the payload of the next delta
  token, the condition for the rows that changed since a token, the deleted entities, and the groups that
  disappeared from a grouped result.
\<close>

section \<open>Rows and keys\<close>

definition isTombstoneRow :: "js_value \<Rightarrow> bool" where
  "isTombstoneRow r =
     (let marker = get_prop r ''@removed''
      in (case r of JObj ps \<Rightarrow> True | JArr vs \<Rightarrow> True | JDate t \<Rightarrow> True | _ \<Rightarrow> False)
         \<and> (case marker of JObj ps \<Rightarrow> True | JArr vs \<Rightarrow> True | JDate t \<Rightarrow> True | _ \<Rightarrow> False)
         \<and> (case get_prop marker ''reason'' of JStr s \<Rightarrow> trim s \<noteq> [] | _ \<Rightarrow> True))"

fun collect_keys :: "js_value \<Rightarrow> string list \<Rightarrow> key_values \<Rightarrow> key_values option" where
  "collect_keys r [] acc = Some acc"
| "collect_keys r (k # ks) acc =
     (if extractFieldValue r k = JUndefined then None else collect_keys r ks (obj_set k (extractFieldValue r k) acc))"

definition collectKeyValues :: "js_value \<Rightarrow> string list \<Rightarrow> key_values option" where
  "collectKeyValues r ids = (if is_nullish r \<or> ids = [] then None else collect_keys r ids [])"

definition filterDeltaPageRows :: "js_value list \<Rightarrow> string \<Rightarrow> js_value list" where
  "filterDeltaPageRows rs f = filter (\<lambda>r. \<not> isTombstoneRow r \<and> extractFieldValue r f \<noteq> JUndefined) rs"

datatype delta_choice = KeepToken string | NewToken delta_payload

text \<open>
  No page rows are an empty list. \<open>previous\<close> is the payload of the previous token, if it could be decoded.
\<close>

definition createDeltaTokenForRows ::
  "etag_host \<Rightarrow> string \<Rightarrow> js_value list \<Rightarrow> string \<Rightarrow> string list \<Rightarrow> string option \<Rightarrow> delta_payload option
    \<Rightarrow> bucket_state list option \<Rightarrow> js_value list \<Rightarrow> js_value \<Rightarrow> delta_choice result" where
  "createDeltaTokenForRows h name rs f ids token previous buckets page_rows now_iso =
     (if rs = [] then Inr (NewToken
        (case previous of
           None \<Rightarrow> \<lparr>entitySet = JStr name, lastValue = now_iso, delta_keys = None, pageKeys = None, delta_buckets = buckets, issuedAt = JUndefined\<rparr>
         | Some p \<Rightarrow> p\<lparr>entitySet := JStr name, lastValue := nullish_or (lastValue p) now_iso, delta_buckets := buckets\<rparr>))
      else (let filtered = filterDeltaPageRows page_rows f;
                visible = (if filtered = [] then rs else filtered);
                anchor = last visible;
                v = extractFieldValue anchor f
            in if v = JUndefined
               then Inr (case token of
                   Some t \<Rightarrow> KeepToken t
                 | None \<Rightarrow> NewToken \<lparr>entitySet = JStr name, lastValue = now_iso, delta_keys = None, pageKeys = None,
                     delta_buckets = buckets, issuedAt = JUndefined\<rparr>)
               else rbind (stringifySkipTokenValue h v) (\<lambda>s.
                 let pages = present (map (\<lambda>r. collectKeyValues r ids) visible)
                 in Inr (NewToken \<lparr>entitySet = JStr name, lastValue = JStr s, delta_keys = collectKeyValues anchor ids,
                      pageKeys = (if pages = [] then None else Some pages), delta_buckets = buckets, issuedAt = JUndefined\<rparr>))))"

section \<open>Changed rows\<close>

definition key_value :: "key_values \<Rightarrow> string \<Rightarrow> js_value" where
  "key_value kvs k = get_prop (JObj kvs) k"

definition key_branch :: "string list \<Rightarrow> key_values \<Rightarrow> nat \<Rightarrow> where_clause option" where
  "key_branch ids kvs i = combineWithAnd
     (map (\<lambda>j. Some (WField (ids ! j) (Value (key_value kvs (ids ! j))))) [0..<i] @ [Some (op (ids ! i) ''gt'' (key_value kvs (ids ! i)))])"

definition buildLexKeyPredicate :: "string list \<Rightarrow> key_values \<Rightarrow> where_clause option" where
  "buildLexKeyPredicate ids kvs =
     (if ids = [] \<or> (\<exists>k\<in>set ids. key_value kvs k = JUndefined) then None
      else combineWithOr (map (key_branch ids kvs) [0..<length ids]))"

fun typed_keys ::
  "etag_host \<Rightarrow> (string \<Rightarrow> property_type option) \<Rightarrow> string list \<Rightarrow> key_values \<Rightarrow> key_values \<Rightarrow> key_values option result" where
  "typed_keys h props [] raw acc = Inr (Some acc)"
| "typed_keys h props (k # ks) raw acc =
     (if key_value raw k = JUndefined then Inr None
      else rbind (stringifySkipTokenValue h (key_value raw k)) (\<lambda>s.
        rbind (coerceSkipTokenValue h props k s) (\<lambda>v. typed_keys h props ks raw (obj_set k v acc))))"

definition buildDeltaPredicate ::
  "etag_host \<Rightarrow> (string \<Rightarrow> property_type option) \<Rightarrow> string \<Rightarrow> string \<Rightarrow> string list \<Rightarrow> key_values option \<Rightarrow> where_clause option result" where
  "buildDeltaPredicate h props f lastRaw ids raw =
     rbind (coerceSkipTokenValue h props f lastRaw) (\<lambda>lastTyped.
       let greater = op f ''gt'' lastTyped
       in if ids = [] \<or> raw = None \<or> raw = Some [] then Inr (Some greater)
          else rbind (typed_keys h props ids (the raw) []) (\<lambda>typed.
            case typed of
              None \<Rightarrow> Inr (Some greater)
            | Some kvs \<Rightarrow>
                (case buildLexKeyPredicate ids kvs of
                   None \<Rightarrow> Inr (Some greater)
                 | Some keys \<Rightarrow> Inr (combineWithOr
                     [Some greater, combineWithAnd [Some (WField f (Value lastTyped)), Some keys]]))))"

section \<open>Deleted entities\<close>

definition removed_marker :: js_value where
  "removed_marker = JObj [(''reason'', JStr ''deleted'')]"

text \<open>\<open>exists\<close> is whether the repository finds an entity with these key values.\<close>

fun tombstones :: "etag_host \<Rightarrow> (key_values \<Rightarrow> bool) \<Rightarrow> key_values list \<Rightarrow> string list \<Rightarrow> js_value list" where
  "tombstones h found_by [] seen = []"
| "tombstones h found_by (c # cs) seen =
     (let signature = text_of (stableStringify h (JObj c))
      in if signature \<in> set seen then tombstones h found_by cs seen
         else if found_by c then tombstones h found_by cs (signature # seen)
         else JObj (obj_set ''@removed'' removed_marker c) # tombstones h found_by cs (signature # seen))"

definition computeTombstones :: "etag_host \<Rightarrow> (key_values \<Rightarrow> bool) \<Rightarrow> key_values list \<Rightarrow> js_value list" where
  "computeTombstones h found_by candidates = tombstones h found_by (filter (\<lambda>c. c \<noteq> []) candidates) []"

section \<open>Groups\<close>

fun cloneBucketValue :: "js_value \<Rightarrow> js_value" where
  "cloneBucketValue (JArr vs) = JArr (map cloneBucketValue vs)"
| "cloneBucketValue (JObj ps) = JObj (concat (map (\<lambda>(k, v). if starts_with k ''@'' then [] else [(k, cloneBucketValue v)]) ps))"
| "cloneBucketValue v = v"

definition cloneBucketSnapshot :: "js_value \<Rightarrow> key_values option" where
  "cloneBucketSnapshot r =
     (let ps = concat (map (\<lambda>(k, v). if starts_with k ''@'' then [] else [(k, cloneBucketValue v)]) (entries_of r))
      in if ps = [] then None else Some ps)"

definition clonePlainRecord :: "key_values \<Rightarrow> key_values" where
  "clonePlainRecord = map_values cloneBucketValue"

definition buildBucketKeyFromRow :: "js_value \<Rightarrow> string list \<Rightarrow> key_values" where
  "buildBucketKeyFromRow r keys = fold (\<lambda>k. obj_set k (extractFieldValue r k)) keys []"

definition serializeBucketKey :: "etag_host \<Rightarrow> key_values \<Rightarrow> string list \<Rightarrow> string" where
  "serializeBucketKey h key keys = text_of (json_stringify h (JObj (fold (\<lambda>k. obj_set k (key_value key k)) keys [])))"

definition row_signature :: "etag_host \<Rightarrow> string list \<Rightarrow> js_value \<Rightarrow> string" where
  "row_signature h keys r = serializeBucketKey h (buildBucketKeyFromRow r keys) keys"

definition row_bucket :: "string list \<Rightarrow> js_value \<Rightarrow> bucket_state" where
  "row_bucket keys r = \<lparr>bucket_key = buildBucketKeyFromRow r keys, bucket_data = cloneBucketSnapshot r\<rparr>"

definition buildBucketState :: "etag_host \<Rightarrow> string list \<Rightarrow> js_value list \<Rightarrow> bucket_state list" where
  "buildBucketState h keys rs = map snd (fold (\<lambda>r. obj_set (row_signature h keys r) (row_bucket keys r)) rs [])"

definition bucket_tombstone :: "bucket_state \<Rightarrow> js_value" where
  "bucket_tombstone b = JObj (obj_set ''@removed'' removed_marker
     (fold (\<lambda>(k, v). obj_set k v) (bucket_key b) (case bucket_data b of None \<Rightarrow> [] | Some d \<Rightarrow> clonePlainRecord d)))"

definition buildRemovedBuckets :: "etag_host \<Rightarrow> bucket_state list option \<Rightarrow> js_value list \<Rightarrow> string list \<Rightarrow> js_value list" where
  "buildRemovedBuckets h previous rs keys =
     (let signatures = map (row_signature h keys) rs
      in map bucket_tombstone
           (filter (\<lambda>b. serializeBucketKey h (bucket_key b) keys \<notin> set signatures) (case previous of None \<Rightarrow> [] | Some bs \<Rightarrow> bs)))"

section \<open>The rows that changed\<close>

text \<open>The order of a delta feed: the delta field, then the ids.\<close>

definition asc :: "string list \<Rightarrow> order_descriptor list" where
  "asc fs = map (\<lambda>f. \<lparr>od_field = f, descending = False\<rparr>) fs"

lemma asc_facts [simp]: "length (asc fs) = length fs" "i < length fs \<Longrightarrow> od_field (asc fs ! i) = fs ! i"
  "i < length fs \<Longrightarrow> \<not> descending (asc fs ! i)" "asc fs = [] \<longleftrightarrow> fs = []" "asc (f # fs) = \<lparr>od_field = f, descending = False\<rparr> # asc fs"
  by (simp_all add: asc_def)

lemma key_value_set [simp]: "key_value (obj_set k v kvs) l = (if l = k then v else key_value kvs l)"
  by (simp add: key_value_def)

lemma lex_key_predicate:
  assumes "ids \<noteq> []" "\<forall>k\<in>set ids. \<not> is_nullish (key_value kvs k)"
  shows "buildLexKeyPredicate ids kvs = skip_constraint (asc ids) (map (key_value kvs) ids)"
proof -
  have n: "\<not> is_nullish (key_value kvs (ids ! j))" "key_value kvs (ids ! j) \<noteq> JNull" if "j < length ids" for j
    using assms(2) nth_mem [OF that] by auto
  have "key_branch ids kvs i = skip_branch (asc ids) (map (key_value kvs) ids) i" if "i < length ids" for i
    using that n by (auto simp: key_branch_def skip_branch_def buildEqualityClause_def skip_comparison_def intro!: arg_cong [of _ _ combineWithAnd])
  then have "map (key_branch ids kvs) [0..<length ids] = map (skip_branch (asc ids) (map (key_value kvs) ids)) [0..<length (asc ids)]"
    by simp
  moreover have "\<not> (\<exists>k\<in>set ids. key_value kvs k = JUndefined)" using assms(2) by auto
  ultimately show ?thesis using assms(1) by (simp only: buildLexKeyPredicate_def skip_constraint_def if_False simp_thms)
qed

lemma collected_keys:
  assumes "\<forall>k\<in>set ids. extractFieldValue r k \<noteq> JUndefined"
  shows "\<exists>kvs. collect_keys r ids acc = Some kvs
    \<and> (\<forall>k. key_value kvs k = (if k \<in> set ids then extractFieldValue r k else key_value acc k))
    \<and> (ids \<noteq> [] \<or> acc \<noteq> [] \<longrightarrow> kvs \<noteq> [])"
  using assms
proof (induction ids arbitrary: acc)
  case (Cons k ids)
  have "obj_set k v acc \<noteq> []" for v :: js_value by (cases acc) (auto split: if_splits)
  with Cons.IH [of "obj_set k (extractFieldValue r k) acc"] Cons.prems show ?case by (force simp: Let_def)
qed simp

lemma typed_keys_back:
  assumes "\<forall>k\<in>set ids. transported h props k (key_value raw k)"
  shows "\<exists>kvs. typed_keys h props ids raw acc = Inr (Some kvs)
    \<and> (\<forall>k. key_value kvs k = (if k \<in> set ids then key_value raw k else key_value acc k))"
  using assms
proof (induction ids arbitrary: acc)
  case (Cons k ids)
  then obtain s where s: "stringifySkipTokenValue h (key_value raw k) = Inr s" "coerceSkipTokenValue h props k s = Inr (key_value raw k)"
    by (cases "stringifySkipTokenValue h (key_value raw k)") (auto simp: transported_def)
  moreover have "key_value raw k \<noteq> JUndefined" using Cons.prems by (auto simp: transported_def)
  ultimately show ?case using Cons.IH [of "obj_set k (key_value raw k) acc"] Cons.prems by force
qed simp

lemma delta_condition:
  assumes "row_ready h (asc (f # ids)) props a" "row_ready h (asc (f # ids)) props r"
    and "stringifySkipTokenValue h (get_prop a f) = Inr s"
  shows "\<exists>w. buildDeltaPredicate h props f s ids (collectKeyValues a ids) = Inr (Some w)
    \<and> where_holds (js_host.truncate h) (get_prop r) w = comes_after (js_host.truncate h) (asc (f # ids)) r a"
proof -
  let ?h = "js_host.truncate h" and ?d = "\<lparr>od_field = f, descending = False\<rparr>"
  have ready: "row_ready h (asc ids) props a" "row_ready h (asc ids) props r" using assms(1,2) ready_Cons by auto
  have nn: "\<not> is_nullish a" "\<not> is_nullish (get_prop a f)" "\<not> is_nullish (get_prop r f)"
    using assms(1,2) by (auto simp: row_ready_def transported_def)
  have typed: "coerceSkipTokenValue h props f s = Inr (get_prop a f)"
    using ready_Cons [of h ?d "asc ids" props a] assms(1,3) by simp
  have fields: "extractFieldValue a k = get_prop a k" "transported h props k (get_prop a k)" "\<not> is_nullish (get_prop a k)"
    if "k \<in> set ids" for k
    using ready(1) that by (auto simp: row_ready_def asc_def list_all_iff extractFieldValue_def split_on_single transported_def)
  have complete: "row_complete (asc (f # ids)) a" "row_complete (asc (f # ids)) r" "row_complete (asc ids) r"
    using assms(1,2) ready(2) ready_complete by blast+
  have greater: "where_holds ?h (get_prop r) (op f ''gt'' (get_prop a f)) \<longleftrightarrow> 0 < compareValues ?h (get_prop r f) (get_prop a f)"
    and equal: "where_holds ?h (get_prop r) (WField f (Value (get_prop a f))) \<longleftrightarrow> compareValues ?h (get_prop r f) (get_prop a f) = 0"
    using nn by (auto simp: op_where_holds op_holds_def ordered_def value_holds_def)
  have after: "comes_after ?h (asc (f # ids)) r a \<longleftrightarrow> 0 < compareValues ?h (get_prop r f) (get_prop a f)
      \<or> compareValues ?h (get_prop r f) (get_prop a f) = 0 \<and> lex_after ?h (asc ids) (order_keys (asc ids) r) (order_keys (asc ids) a)"
    using complete by (auto simp: comes_after_def order_keys_def Let_def directed_def)
  show ?thesis
  proof (cases "ids = []")
    case True
    then show ?thesis using typed greater after by (simp add: buildDeltaPredicate_def order_keys_def asc_def)
  next
    case False
    obtain kvs where kvs: "collectKeyValues a ids = Some kvs" "kvs \<noteq> []" "\<forall>k\<in>set ids. key_value kvs k = get_prop a k"
      using collected_keys [of ids a "[]"] fields nn(1) False by (force simp: collectKeyValues_def)
    then obtain tvs where tvs: "typed_keys h props ids kvs [] = Inr (Some tvs)" "\<forall>k\<in>set ids. key_value tvs k = get_prop a k"
      using typed_keys_back [of ids h props kvs "[]"] fields by auto
    have "map (key_value tvs) ids = order_keys (asc ids) a" "length (order_keys (asc ids) a) = length ids"
      using tvs(2) by (simp_all add: order_keys_def asc_def)
    moreover have "list_all (\<lambda>v. \<not> is_nullish v) (map (key_value tvs) ids)" using tvs(2) fields by (simp add: list_all_iff)
    ultimately obtain c where c: "buildLexKeyPredicate ids tvs = Some c"
      "where_holds ?h (get_prop r) c = lex_after ?h (asc ids) (order_keys (asc ids) r) (order_keys (asc ids) a)"
      using skip_constraint_holds [of "map (key_value tvs) ids" "asc ids" r ?h] complete(3) False
        lex_key_predicate [OF False, of tvs] tvs(2) fields(3) by auto
    obtain e where e: "combineWithAnd [Some (WField f (Value (get_prop a f))), Some c] = Some e"
      "where_holds ?h (get_prop r) e \<longleftrightarrow> where_holds ?h (get_prop r) (WField f (Value (get_prop a f))) \<and> where_holds ?h (get_prop r) c"
      using combineWithAnd_holds [of "[Some (WField f (Value (get_prop a f))), Some c]" ?h "get_prop r"] by auto
    obtain w where "combineWithOr [Some (op f ''gt'' (get_prop a f)), Some e] = Some w"
      "where_holds ?h (get_prop r) w \<longleftrightarrow> where_holds ?h (get_prop r) (op f ''gt'' (get_prop a f)) \<or> where_holds ?h (get_prop r) e"
      using combineWithOr_holds [of "[Some (op f ''gt'' (get_prop a f)), Some e]" ?h "get_prop r"] by auto
    then show ?thesis using False kvs tvs c e typed greater equal after by (auto simp: buildDeltaPredicate_def)
  qed
qed

text \<open>The payload of the next token points to the last of the rows.\<close>

lemma token_of_rows:
  assumes "rs \<noteq> []" "\<forall>r\<in>set rs. row_ready h (asc (f # ids)) props r \<and> \<not> isTombstoneRow r"
  shows "\<exists>s p. createDeltaTokenForRows h name rs f ids token previous buckets rs now_iso = Inr (NewToken p)
    \<and> stringifySkipTokenValue h (get_prop (last rs) f) = Inr s \<and> lastValue p = JStr s \<and> entitySet p = JStr name
    \<and> delta_keys p = collectKeyValues (last rs) ids \<and> delta_buckets p = buckets
    \<and> pageKeys p = (if present (map (\<lambda>r. collectKeyValues r ids) rs) = [] then None else Some (present (map (\<lambda>r. collectKeyValues r ids) rs)))"
proof -
  have f: "extractFieldValue r f = get_prop r f" "extractFieldValue r f \<noteq> JUndefined"
    "stringifySkipTokenValue h (get_prop r f) = Inr (projr (stringifySkipTokenValue h (get_prop r f)))" if "r \<in> set rs" for r
  proof -
    note facts = ready_Cons [of h "\<lparr>od_field = f, descending = False\<rparr>" "asc ids" props r]
    show "extractFieldValue r f = get_prop r f" "stringifySkipTokenValue h (get_prop r f) = Inr (projr (stringifySkipTokenValue h (get_prop r f)))"
      using facts assms(2) that by simp_all
    show "extractFieldValue r f \<noteq> JUndefined" using facts assms(2) that by auto
  qed
  have "filterDeltaPageRows rs f = rs" using assms(2) f(2) by (auto simp: filterDeltaPageRows_def intro: filter_True)
  moreover have "last rs \<in> set rs" using assms(1) by simp
  ultimately show ?thesis
    using assms(1) f [of "last rs"]
    by (cases "stringifySkipTokenValue h (get_prop (last rs) f)") (auto simp: createDeltaTokenForRows_def Let_def)
qed

text \<open>When the ids of the rows are stored without loss, so is the payload.\<close>

lemma collected_values:
  "collect_keys r ids acc = Some kvs \<Longrightarrow> list_all (\<lambda>(k, v). P v) acc \<Longrightarrow> \<forall>k\<in>set ids. P (extractFieldValue r k) \<Longrightarrow> list_all (\<lambda>(k, v). P v) kvs"
proof (induction ids arbitrary: acc)
  case (Cons k ids)
  have "list_all (\<lambda>(k, v). P v) (obj_set k v acc)" if "P v" for v
    using Cons.prems(2) that by (induction acc) auto
  with Cons show ?case by (auto split: if_splits)
qed simp

lemma storable_token_of_rows:
  assumes "rs \<noteq> []" "ids \<noteq> []" "\<forall>r\<in>set rs. row_ready (base_host w) (asc (f # ids)) props r \<and> \<not> isTombstoneRow r"
    and "\<forall>r\<in>set rs. \<forall>k\<in>set ids. storable w (get_prop r k)"
  shows "\<exists>s p. createDeltaTokenForRows (base_host w) name rs f ids None None None rs now_iso = Inr (NewToken p)
    \<and> stringifySkipTokenValue (base_host w) (get_prop (last rs) f) = Inr s \<and> lastValue p = JStr s \<and> entitySet p = JStr name
    \<and> delta_keys p = collectKeyValues (last rs) ids \<and> payload_storable w p"
proof -
  have keys: "\<exists>kvs. collectKeyValues r ids = Some kvs \<and> kvs \<noteq> [] \<and> list_all (\<lambda>(k, v). storable w v) kvs" if "r \<in> set rs" for r
  proof -
    have nn: "\<not> is_nullish r" using assms(3) that by (auto simp: row_ready_def)
    have k: "extractFieldValue r k = get_prop r k" "\<not> is_nullish (extractFieldValue r k)" if "k \<in> set ids" for k
      using assms(3) \<open>r \<in> set rs\<close> that by (auto simp: row_ready_def asc_def list_all_iff extractFieldValue_def split_on_single transported_def)
    obtain kvs where "collect_keys r ids [] = Some kvs" "kvs \<noteq> []" using collected_keys [of ids r "[]"] k(2) assms(2) is_nullish.simps(1) by metis
    with nn k assms(2,4) that show ?thesis by (auto simp: collectKeyValues_def intro: collected_values)
  qed
  obtain s p where p: "createDeltaTokenForRows (base_host w) name rs f ids None None None rs now_iso = Inr (NewToken p)"
    "stringifySkipTokenValue (base_host w) (get_prop (last rs) f) = Inr s" "lastValue p = JStr s" "entitySet p = JStr name"
    "delta_keys p = collectKeyValues (last rs) ids" "delta_buckets p = None"
    "pageKeys p = (if present (map (\<lambda>r. collectKeyValues r ids) rs) = [] then None else Some (present (map (\<lambda>r. collectKeyValues r ids) rs)))"
    using token_of_rows [OF assms(1,3), of name None None None now_iso] by blast
  have "last rs \<in> set rs" using assms(1) by simp
  moreover have "\<forall>kvs\<in>set (present (map (\<lambda>r. collectKeyValues r ids) rs)). kvs \<noteq> [] \<and> list_all (\<lambda>(k, v). storable w v) kvs"
    using keys by (force simp: present_iff)
  ultimately have "payload_storable w p"
    using p(5-7) keys [of "last rs"] by (auto simp: payload_storable_def list_all_iff split: if_splits)
  with p show ?thesis by blast
qed

section \<open>The groups that disappeared\<close>

definition bucket_signature :: "etag_host \<Rightarrow> string list \<Rightarrow> bucket_state \<Rightarrow> string" where
  "bucket_signature h keys b = serializeBucketKey h (bucket_key b) keys"

lemma bucket_states:
  "set (buildBucketState h keys rs) \<subseteq> row_bucket keys ` set rs"
  "map (bucket_signature h keys) (buildBucketState h keys rs) = map fst (fold (\<lambda>r. obj_set (row_signature h keys r) (row_bucket keys r)) rs [])"
  "distinct (map (bucket_signature h keys) (buildBucketState h keys rs))"
  "bucket_signature h keys ` set (buildBucketState h keys rs) = row_signature h keys ` set rs"
proof -
  let ?step = "\<lambda>r. obj_set (row_signature h keys r) (row_bucket keys r)"
  have sub: "set (obj_set k v xs) \<subseteq> insert (k, v) (set xs)" for k and v :: bucket_state and xs
    by (induction xs) (auto split: if_splits)
  have m: "set (fold ?step rs acc) \<subseteq> set acc \<union> (\<lambda>r. (row_signature h keys r, row_bucket keys r)) ` set rs" for acc
  proof (induction rs arbitrary: acc)
    case (Cons r rs)
    from Cons [of "?step r acc"] sub [of "row_signature h keys r" "row_bucket keys r" acc] show ?case by auto
  qed simp
  have k: "fst ` set (fold ?step rs acc) = row_signature h keys ` set rs \<union> fst ` set acc" for acc
    by (induction rs arbitrary: acc) (auto simp: keys_obj_set)
  have d: "distinct (map fst acc) \<Longrightarrow> distinct (map fst (fold ?step rs acc))" for acc
    by (induction rs arbitrary: acc) (simp_all add: distinct_obj_set)
  from m [of "[]"] show "set (buildBucketState h keys rs) \<subseteq> row_bucket keys ` set rs"
    by (force simp: buildBucketState_def)
  show s: "map (bucket_signature h keys) (buildBucketState h keys rs) = map fst (fold ?step rs [])"
    using m [of "[]"] by (auto simp: buildBucketState_def bucket_signature_def row_signature_def row_bucket_def)
  then show "distinct (map (bucket_signature h keys) (buildBucketState h keys rs))" using d [of "[]"] by simp
  from s have "set (map (bucket_signature h keys) (buildBucketState h keys rs)) = set (map fst (fold ?step rs []))" by (rule arg_cong)
  then show "bucket_signature h keys ` set (buildBucketState h keys rs) = row_signature h keys ` set rs" using k [of "[]"] by simp
qed

definition group_storable :: "token_host \<Rightarrow> string list \<Rightarrow> js_value \<Rightarrow> bool" where
  "group_storable w keys r \<longleftrightarrow> keeps_structure w r \<and> (\<forall>k\<in>set keys. keeps_structure w (extractFieldValue r k))"

lemma structured_set: "keeps_structure w (JObj ps) \<Longrightarrow> keeps_structure w v \<Longrightarrow> keeps_structure w (JObj (obj_set k v ps))"
  by (induction ps) auto

lemma structured_clone: "keeps_structure w v \<Longrightarrow> keeps_structure w (cloneBucketValue v)"
  by (induction v rule: cloneBucketValue.induct) (fastforce simp: list_all_iff split: if_splits)+

lemma structured_snapshot:
  assumes "keeps_structure w r" "cloneBucketSnapshot r = Some d"
  shows "keeps_structure w (JObj d)"
proof -
  have "\<forall>(k, v)\<in>set (entries_of r). keeps_structure w v"
    using assms(1) by (cases r) (auto simp: entries_of_def list_all_iff storable_def)
  then have "\<forall>(k, v)\<in>set (entries_of r). keeps_structure w (cloneBucketValue v)" using structured_clone by auto
  with assms(2) show ?thesis
    by (fastforce simp: cloneBucketSnapshot_def Let_def list_all_iff split: if_splits)
qed

lemma storable_bucket:
  assumes "group_storable w keys r"
  shows "bucket_storable w (row_bucket keys r)"
proof -
  have "keeps_structure w (JObj acc) \<Longrightarrow> \<forall>k\<in>set keys. keeps_structure w (extractFieldValue r k) \<Longrightarrow>
      keeps_structure w (JObj (fold (\<lambda>k. obj_set k (extractFieldValue r k)) keys acc))" for acc
  proof (induction keys arbitrary: acc)
    case (Cons k keys)
    then show ?case using structured_set [of w acc "extractFieldValue r k" k] by (simp del: keeps_structure.simps)
  qed simp
  then have "keeps_structure w (JObj (buildBucketKeyFromRow r keys))"
    using assms by (simp add: group_storable_def buildBucketKeyFromRow_def)
  then show ?thesis using assms structured_snapshot [of w r] by (auto simp: bucket_storable_def row_bucket_def group_storable_def)
qed

lemma removed_after_trip:
  assumes "\<forall>r\<in>set old. group_storable w keys r" "old \<noteq> []"
  shows "buildRemovedBuckets h (returned_buckets w (buildBucketState h keys old)) new keys = map bucket_tombstone (filter (\<lambda>b. bucket_signature h keys b \<notin> row_signature h keys ` set new) (buildBucketState h keys old))"
proof -
  have "list_all (bucket_storable w) (buildBucketState h keys old)"
    using assms(1) bucket_states(1) [of h keys old] storable_bucket by (auto simp: list_all_iff)
  moreover have "buildBucketState h keys old \<noteq> []" using bucket_states(4) [of h keys old] assms(2) by auto
  ultimately have "returned_buckets w (buildBucketState h keys old) = Some (buildBucketState h keys old)" by (rule buckets_back)
  then show ?thesis by (simp only: buildRemovedBuckets_def Let_def option.case bucket_signature_def [symmetric] set_map)
qed

text \<open>A date among the keys of a group does not survive: its group is always taken to be gone.\<close>

lemma date_key_lost:
  assumes "extractFieldValue r k = JDate (Some t)"
  shows "\<exists>b. normalize_bucket w (bucket_value (encodeBucketState (base_host w) (row_bucket [k] r))) = Some b \<and> bucket_key b = [(k, JObj [])]"
proof -
  have key: "bucket_key (encodeBucketState (base_host w) (row_bucket [k] r)) = [(k, JObj [])]"
    by (simp add: encodeBucketState_def row_bucket_def buildBucketKeyFromRow_def assms map_values_def)
  have "decoded_record w [(k, JObj [])] = [(k, JObj [])]"
    by (simp add: decoded_record_def isEncodedDeltaValue_def entries_of_def)
  then show ?thesis
    using key by (cases "encodeBucketState (base_host w) (row_bucket [k] r)")
      (simp add: normalize_bucket_def bucket_value_def plain_record_def decodeBucketState_def)
qed

lemma date_signatures_differ:
  assumes "extractFieldValue r k = JDate (Some t)"
  shows "row_signature h [k] r \<noteq> serializeBucketKey h [(k, JObj [])] [k]"
  using assms by (simp add: row_signature_def serializeBucketKey_def buildBucketKeyFromRow_def key_value_def text_of_def json_string_def dquote_def)

lemma all_some:
  "\<forall>x\<in>set xs. \<exists>y. t x = Some y \<and> P y \<Longrightarrow> \<exists>ys. map t xs = map Some ys \<and> length ys = length xs \<and> (\<forall>y\<in>set ys. P y)"
proof (induction xs)
  case (Cons x xs)
  then obtain y ys where "t x = Some y" "P y" "map t xs = map Some ys" "length ys = length xs" "\<forall>y\<in>set ys. P y" by auto
  then show ?case by (intro exI [of _ "y # ys"]) simp
qed simp

lemma date_groups_removed:
  assumes "\<forall>r\<in>set old \<union> set new. \<exists>t. extractFieldValue r k = JDate (Some t)"
  shows "length (buildRemovedBuckets h (returned_buckets w (buildBucketState h [k] old)) new [k]) = length (buildBucketState h [k] old)"
proof -
  let ?bs = "buildBucketState h [k] old" and ?trip = "\<lambda>b. normalize_bucket w (bucket_value (encodeBucketState (base_host w) b))"
  have "\<forall>b\<in>set ?bs. \<exists>c. ?trip b = Some c \<and> bucket_key c = [(k, JObj [])]"
  proof
    fix b assume "b \<in> set ?bs"
    then obtain r where "r \<in> set old" "b = row_bucket [k] r" using bucket_states(1) [of h "[k]" old] by blast
    with assms show "\<exists>c. ?trip b = Some c \<and> bucket_key c = [(k, JObj [])]" using date_key_lost [of r k] by blast
  qed
  then obtain cs where cs: "map ?trip ?bs = map Some cs" "length cs = length ?bs" "\<forall>c\<in>set cs. bucket_key c = [(k, JObj [])]"
    using all_some [of ?bs ?trip "\<lambda>c. bucket_key c = [(k, JObj [])]"] by metis
  have p: "present (map Some cs) = cs" by (induction cs) simp_all
  have "map (normalize_bucket w) (map (\<lambda>b. bucket_value (encodeBucketState (base_host w) b)) ?bs) = map Some cs"
    using cs(1) by (simp only: map_map comp_def)
  then have "returned_buckets w ?bs = (if cs = [] then None else Some cs)"
    by (simp only: returned_buckets_def normalizeBucketStates_def js_value.case p Let_def)
  moreover have "filter (\<lambda>c. serializeBucketKey h (bucket_key c) [k] \<notin> row_signature h [k] ` set new) cs = cs"
  proof (rule filter_True, rule ballI)
    fix c assume "c \<in> set cs"
    then have "bucket_key c = [(k, JObj [])]" using cs(3) by blast
    moreover have "row_signature h [k] r \<noteq> serializeBucketKey h [(k, JObj [])] [k]" if "r \<in> set new" for r
      using assms that date_signatures_differ [of r k _ h] by blast
    ultimately show "serializeBucketKey h (bucket_key c) [k] \<notin> row_signature h [k] ` set new" unfolding image_iff by metis
  qed
  ultimately have "buildRemovedBuckets h (returned_buckets w ?bs) new [k] = map bucket_tombstone cs"
    by (cases "cs = []") (simp_all only: buildRemovedBuckets_def Let_def option.case set_map if_True if_False filter.simps)
  then show ?thesis by (simp only: length_map cs(2))
qed

text \<open>Entities that differ in a date have one signature, and only the first one is reported.\<close>

lemma dated_deletions:
  assumes "\<not> found_by [(k, JDate s)]"
  shows "computeTombstones h found_by [[(k, JDate s)], [(k, JDate t)]] = [JObj (obj_set ''@removed'' removed_marker [(k, JDate s)])]"
  using assms by (simp add: computeTombstones_def stableStringify_def sort_entries_def Let_def)

lemma tombstones_sound:
  "t \<in> set (tombstones h found_by cs seen) \<Longrightarrow> \<exists>c\<in>set cs. \<not> found_by c \<and> t = JObj (obj_set ''@removed'' removed_marker c)"
  by (induction cs arbitrary: seen) (auto simp: Let_def split: if_splits)

lemma tombstones_complete:
  assumes "inj_on (\<lambda>c. text_of (stableStringify h (JObj c))) (set cs)" "c \<in> set cs" "\<not> found_by c"
    and "text_of (stableStringify h (JObj c)) \<notin> set seen"
  shows "JObj (obj_set ''@removed'' removed_marker c) \<in> set (tombstones h found_by cs seen)"
  using assms
proof (induction cs arbitrary: seen)
  case (Cons d cs)
  let ?sig = "\<lambda>c. text_of (stableStringify h (JObj c))"
  show ?case
  proof (cases "c = d")
    case False
    with Cons.prems have c: "c \<in> set cs" "?sig c \<noteq> ?sig d" by (auto simp: inj_on_def)
    have "inj_on ?sig (set cs)" using Cons.prems(1) by (auto simp: inj_on_def)
    note ih = Cons.IH [OF this c(1) Cons.prems(3)]
    show ?thesis using ih [of seen] ih [of "?sig d # seen"] c(2) Cons.prems(4) by (simp add: Let_def)
  qed (use Cons.prems in \<open>simp add: Let_def\<close>)
qed simp

end
