(* ===== verification/TokenResults.thy ===== *)
theory TokenResults
  imports DeltaFeed
begin

text \<open>
  The properties of signed tokens, delta tokens and delta feeds: what a token brings back and to whom, which rows
  and groups the next request of a feed finds, and what is lost. The components are those of \<open>Tokens\<close>,
  \<open>DeltaToken\<close> and \<open>DeltaFeed\<close>.
\<close>

section \<open>A sample\<close>

text \<open>A host whose hash and parser are constants: enough to sign and read one token.\<close>

definition token_sample :: "js_value option \<Rightarrow> token_host" where
  "token_sample parsed = etag_host.extend
     (js_host.extend \<lparr>number_text = (\<lambda>x. ''0''), date_text = show_int, date_parse = (\<lambda>s. None)\<rparr>
        \<lparr>iso_text = (\<lambda>t. ''now''), json_text = (\<lambda>v. None), big_int = (\<lambda>s. None)\<rparr>)
     \<lparr>hmac = (\<lambda>k t. ''mac''), to_base64url = (\<lambda>s. s), of_base64url = (\<lambda>s. s), parse_json = (\<lambda>s. parsed),
      buffer_from = (\<lambda>v. case v of JStr s \<Rightarrow> Some s | _ \<Rightarrow> None)\<rparr>"

lemma sample_fields [simp]:
  "hmac (token_sample p) = (\<lambda>k t. ''mac'')" "to_base64url (token_sample p) = (\<lambda>s. s)" "of_base64url (token_sample p) = (\<lambda>s. s)"
  "parse_json (token_sample p) = (\<lambda>s. p)" "buffer_from (token_sample p) (JStr s) = Some s" "iso_text (token_sample p) t = ''now''"
  "date_parse (token_sample p) s = None"
  by (simp_all add: token_sample_def etag_host.extend_def js_host.extend_def)

definition sample_options :: token_options where
  "sample_options = \<lparr>secret = ''k'', ttlSeconds = None, allowLegacyUnsigned = False\<rparr>"

definition sample_config :: token_config where
  "sample_config = \<lparr>tokenSecret = ''k'', skipTokenTtl = None, deltaTokenTtl = None, legacyTokens = False\<rparr>"


definition version_row :: "string \<Rightarrow> string \<Rightarrow> js_value" where
  "version_row n t = JObj [(''id'', JStr n), (''at'', JStr t)]"

section \<open>Skip tokens\<close>




text \<open>
  C25: The values of a skip token come back to a request with the same order and context until the token
  expires; to any other request it is a bad one.
\<close>

theorem skip_token_returns_values:
  assumes "signSkipTokenValues w cfg context values ds now nonce = Inr (Some tok)" "buildSkipTokenOptions cfg = Inr opts"
    and "reads_back w (signed_envelope w ''skip'' (skip_payload (buildSkipTokenDescriptorKey ds) context values) opts now nonce)"
    and "\<And>s. buffer_from w (JStr s) = Some s" "0 \<le> now"
  shows "decodeSkipTokenValues w cfg context' tok ds' later =
    (if context' = context \<and> buildSkipTokenDescriptorKey ds' = buildSkipTokenDescriptorKey ds \<and> length ds' = length ds
        \<and> (case lifetime opts of None \<Rightarrow> True | Some ms \<Rightarrow> later \<le> now + ms)
     then Inr (map JStr values) else Inl (HttpError 400 [] ''Invalid $skiptoken value.''))"
  using assms by (rule skip_token_back)

definition skip_envelope :: "(string \<times> js_value) list" where
  "skip_envelope = [(''v'', JStr ''v3''), (''type'', JStr ''skip''), (''iat'', JNum (Finite 0)), (''exp'', JNum (Finite 900000)),
     (''nonce'', JStr ''n''), (''data'', skip_payload ''id:ASC'' ''GET'' [''7'']), (''sig'', JStr ''mac'')]"

lemma sample_reads_back:
  "length (text_of (json_stringify (base_host (token_sample (Some (JObj e)))) (JObj e))) \<le> MAX_TOKEN_ENVELOPE_BYTES \<Longrightarrow>
     reads_back (token_sample (Some (JObj e))) e"
  by (simp add: reads_back_def Let_def del: json_stringify.simps)

theorem skip_token_returns_values_witness:
  "\<exists>tok. signSkipTokenValues (token_sample (Some (JObj skip_envelope))) sample_config ''GET'' [''7''] (asc [''id'']) 0 ''n'' = Inr (Some tok)
    \<and> decodeSkipTokenValues (token_sample (Some (JObj skip_envelope))) sample_config ''GET'' tok (asc [''id'']) 1 = Inr [JStr ''7'']"
proof -
  let ?w = "token_sample (Some (JObj skip_envelope))"
  let ?opts = "\<lparr>secret = ''k'', ttlSeconds = Some 900, allowLegacyUnsigned = False\<rparr>"
  have o: "buildSkipTokenOptions sample_config = Inr ?opts"
    by (simp add: buildSkipTokenOptions_def sample_config_def requireTokenSecret_def normalizeTtlSeconds_def)
  have d: "buildSkipTokenDescriptorKey (asc [''id'']) = ''id:ASC''" by code_simp
  have e: "signed_envelope ?w ''skip'' (skip_payload ''id:ASC'' ''GET'' [''7'']) ?opts 0 ''n'' = skip_envelope"
    by (simp add: signed_envelope_def unsigned_envelope_def skip_envelope_def lifetime_def computeSignature_def TOKEN_VERSION_def Let_def)
  have "reads_back ?w skip_envelope"
  proof (rule sample_reads_back)
    have "length (text_of (json_stringify (base_host ?w) (JObj skip_envelope))) \<le> 200" by code_simp
    then show "length (text_of (json_stringify (base_host ?w) (JObj skip_envelope))) \<le> MAX_TOKEN_ENVELOPE_BYTES"
      by (simp add: MAX_TOKEN_ENVELOPE_BYTES_def)
  qed
  moreover obtain tok where "signSkipTokenValues ?w sample_config ''GET'' [''7''] (asc [''id'']) 0 ''n'' = Inr (Some tok)"
    by (simp add: signSkipTokenValues_def o signSkipToken_def signToken_def asc_def)
  ultimately show ?thesis
    using skip_token_returns_values [of ?w sample_config "''GET''" "[''7'']" "asc [''id'']" 0 "''n''" tok ?opts "''GET''" "asc [''id'']" 1] o d e
    by (auto simp: lifetime_def)
qed

section \<open>Delta tokens\<close>

text \<open>
  C26: A delta token brings back, until it expires, the payload it was made of: the key values with their types and the groups
  with their data, when these are texts, truth values, nulls, and numbers and dates the host reads back (no dates in groups).
\<close>

theorem delta_token_keeps_payload:
  assumes "payload_storable w p" "secret opts \<noteq> []" "0 \<le> now" "\<And>s. buffer_from w (JStr s) = Some s"
    and "\<And>data. encoded_payload (base_host w) p (JStr (iso_text w now)) = Inr data \<Longrightarrow>
      reads_back w (signed_envelope w ''delta'' data opts now nonce)"
  shows "\<exists>tok. encodeDeltaToken w p opts now nonce = Inr tok
    \<and> decodeDeltaToken w base64 tok opts later =
        (if (case lifetime opts of None \<Rightarrow> False | Some ms \<Rightarrow> now + ms < later) then Inl ExpiredToken
         else Inr (p\<lparr>issuedAt := nullish_or (issuedAt p) (JStr (iso_text w now))\<rparr>))"
  using assms by (rule delta_token_back)

definition sample_payload :: delta_payload where
  "sample_payload = \<lparr>entitySet = JStr ''Rows'', lastValue = JStr ''b'', delta_keys = Some [(''id'', JStr ''2'')], pageKeys = Some [[(''id'', JStr ''2'')]],
     delta_buckets = None, issuedAt = JUndefined\<rparr>"

definition sample_data :: js_value where
  "sample_data = JObj [(''entitySet'', JStr ''Rows''), (''lastValue'', JStr ''b''), (''keyValues'', JObj [(''id'', kinded ''string'' (JStr ''2''))]),
     (''pageKeys'', JArr [JObj [(''id'', kinded ''string'' (JStr ''2''))]]), (''issuedAt'', JStr ''now'')]"

definition delta_envelope :: "(string \<times> js_value) list" where
  "delta_envelope = [(''v'', JStr ''v3''), (''type'', JStr ''delta''), (''iat'', JNum (Finite 0)), (''nonce'', JStr ''n''), (''data'', sample_data), (''sig'', JStr ''mac'')]"

lemma sample_delta:
  "encoded_payload (base_host (token_sample q)) sample_payload (JStr ''now'') = Inr sample_data"
  "signed_envelope (token_sample q) ''delta'' sample_data sample_options 0 ''n'' = delta_envelope"
  "reads_back (token_sample (Some (JObj delta_envelope))) delta_envelope"
  "payload_storable w sample_payload"
proof -
  show "encoded_payload (base_host (token_sample q)) sample_payload (JStr ''now'') = Inr sample_data"
    by (simp add: encoded_payload_def sample_payload_def sample_data_def encodeKeyValues_def encodeValue_def encode_atom_def
      encodeKeyValuesArray_def given_entry_def nullish_or_def)
  show "signed_envelope (token_sample q) ''delta'' sample_data sample_options 0 ''n'' = delta_envelope"
    by (simp add: signed_envelope_def unsigned_envelope_def delta_envelope_def lifetime_def computeSignature_def TOKEN_VERSION_def sample_options_def)
  show "payload_storable w sample_payload" by (simp add: payload_storable_def sample_payload_def storable_def)
  have "length (text_of (json_stringify (base_host (token_sample (Some (JObj delta_envelope)))) (JObj delta_envelope))) \<le> 300" by code_simp
  then show "reads_back (token_sample (Some (JObj delta_envelope))) delta_envelope"
    by (intro sample_reads_back) (simp add: MAX_TOKEN_ENVELOPE_BYTES_def)
qed

theorem delta_token_keeps_payload_witness:
  "\<exists>tok. encodeDeltaToken (token_sample (Some (JObj delta_envelope))) sample_payload sample_options 0 ''n'' = Inr tok
    \<and> decodeDeltaToken (token_sample (Some (JObj delta_envelope))) (\<lambda>s. s) tok sample_options 1 = Inr (sample_payload\<lparr>issuedAt := JStr ''now''\<rparr>)"
  using delta_token_keeps_payload [of "token_sample (Some (JObj delta_envelope))" sample_payload sample_options 0 "''n''" "\<lambda>s. s" 1] sample_delta
  by (simp add: sample_options_def lifetime_def nullish_or_def sample_payload_def)



section \<open>Groups\<close>

text \<open>
  C23: The groups reported as removed from a grouped result are exactly those of the token that no current row belongs
  to, each one once, when no dates are among their values.
\<close>

theorem removed_groups_are_exact:
  assumes "\<forall>r\<in>set old. group_storable w keys r" "old \<noteq> []"
  shows "\<exists>bs. buildRemovedBuckets h (returned_buckets w (buildBucketState h keys old)) new keys = map bucket_tombstone bs
    \<and> set bs \<subseteq> row_bucket keys ` set old \<and> distinct (map (bucket_signature h keys) bs)
    \<and> bucket_signature h keys ` set bs = row_signature h keys ` set old - row_signature h keys ` set new"
proof (intro exI conjI)
  let ?bs = "filter (\<lambda>b. bucket_signature h keys b \<notin> row_signature h keys ` set new) (buildBucketState h keys old)"
  show "buildRemovedBuckets h (returned_buckets w (buildBucketState h keys old)) new keys = map bucket_tombstone ?bs"
    using assms by (rule removed_after_trip)
  show "set ?bs \<subseteq> row_bucket keys ` set old" using bucket_states(1) [of h keys old] by auto
  show "distinct (map (bucket_signature h keys) ?bs)" using bucket_states(3) [of h keys old] by (simp add: distinct_map_filter)
  have "bucket_signature h keys ` set ?bs = bucket_signature h keys ` set (buildBucketState h keys old) - row_signature h keys ` set new"
    by auto
  then show "bucket_signature h keys ` set ?bs = row_signature h keys ` set old - row_signature h keys ` set new"
    by (simp only: bucket_states(4))
qed

theorem removed_groups_are_exact_witness:
  "\<exists>bs. buildRemovedBuckets (base_host (token_sample None)) (returned_buckets (token_sample None) (buildBucketState (base_host (token_sample None)) [''id'']
      [version_row ''1'' ''a'', version_row ''2'' ''a''])) [version_row ''2'' ''b''] [''id''] = map bucket_tombstone bs
    \<and> bucket_signature (base_host (token_sample None)) [''id''] ` set bs = {row_signature (base_host (token_sample None)) [''id''] (version_row ''1'' ''a'')}"
proof -
  let ?w = "token_sample None" and ?old = "[version_row ''1'' ''a'', version_row ''2'' ''a'']"
  have "\<forall>r\<in>set ?old. group_storable ?w [''id''] r" by code_simp
  from removed_groups_are_exact [OF this, of "base_host ?w" "[version_row ''2'' ''b'']"]
  have "\<exists>bs. buildRemovedBuckets (base_host ?w) (returned_buckets ?w (buildBucketState (base_host ?w) [''id''] ?old)) [version_row ''2'' ''b''] [''id'']
      = map bucket_tombstone bs \<and> bucket_signature (base_host ?w) [''id''] ` set bs
      = row_signature (base_host ?w) [''id''] ` set ?old - row_signature (base_host ?w) [''id''] ` set [version_row ''2'' ''b'']" by blast
  moreover have "row_signature (base_host ?w) [''id''] ` set ?old - row_signature (base_host ?w) [''id''] ` set [version_row ''2'' ''b'']
      = {row_signature (base_host ?w) [''id''] (version_row ''1'' ''a'')}"
  proof -
    have "row_signature (base_host ?w) [''id''] (version_row ''2'' ''a'') = row_signature (base_host ?w) [''id''] (version_row ''2'' ''b'')"
      "row_signature (base_host ?w) [''id''] (version_row ''1'' ''a'') \<noteq> row_signature (base_host ?w) [''id''] (version_row ''2'' ''b'')" by code_simp+
    then show ?thesis by auto
  qed
  ultimately show ?thesis by (simp only:)
qed



end
