(* ===== verification/Spec2Isabelle.thy ===== *)
theory Spec2Isabelle
  imports MultipartParser ExpandLevels WhereAgreement Throttle PushdownShape LambdaPushdown
    Etag BatchResults Results TokenResults
begin

text \<open>
  A verification development for loopback4-odata, which adds the OData protocol to LoopBack 4 applications.
  Source paths are relative to \<open>src/src\<close>.

  \<^bold>\<open>The program.\<close> A request for a collection passes \<open>services/odata-query-parser.service.ts\<close>, which turns the query
  options into a filter with a \<open>Where\<close> object, inclusions and an expression tree. The generated controller
  (\<open>controllers/crud-controller-factory.ts\<close>) splits the tree: what the database can test stays in the \<open>Where\<close> object or
  becomes SQL (\<open>util/postgres-filter-pushdown.ts\<close>, \<open>util/postgres-lambda-pushdown.ts\<close>), the rest is evaluated in memory on
  the entities the repository returns. It adds \<open>$search\<close>, \<open>$compute\<close> and \<open>$apply\<close>
  (\<open>services/odata-apply-planner.service.ts\<close>), cuts the result into pages with signed tokens (\<open>util/token-signing.ts\<close>,
  \<open>util/delta-token.ts\<close>) and tags entities (\<open>util/etag.ts\<close>). Tenants are throttled by a store of counters
  (\<open>services/tenant-throttle-store.ts\<close>). Batch requests are cut out of multipart bodies by
  \<open>services/multipart-batch.parser.ts\<close>; \<open>controllers/batch.controller.ts\<close> sends them one after the other to the LoopBack
  handler, those of an atomicity group in one transaction, after \<open>middleware/odata-path-rewriter.ts\<close> has turned keys in
  parentheses into segments, and \<open>services/multipart-batch.serializer.ts\<close> writes the answers.

  \<^bold>\<open>Theories and code.\<close> A theory has the records, datatypes and operations of one part under the source's names, then
  their lemmas; a \<open>throw\<close> is an \<open>Inl\<close> of type \<open>odata_error\<close>, \<open>undefined\<close> where it is no value of the language is \<open>None\<close>.
  \<^item> \<open>Prelude\<close>, \<open>JsStrings\<close>, \<open>JsValues\<close>, \<open>UriCoding\<close>, \<open>Json\<close>: results, strings, values, dates, and the functions of the language the
    code calls. Strings are their UTF-8 bytes, numbers are rationals with overflow to infinity (no rounding), objects
    are association lists in insertion order.
  \<^item> \<open>BufferQueue\<close>, \<open>MultipartParser\<close>: \<open>util/buffer-queue.ts\<close> and the streaming batch parser. The queue is refined to the
    bytes it holds.
  \<^item> \<open>FilterAst\<close>, \<open>FilterParser\<close>, \<open>FilterRoundTrip\<close>: tokens, literals and the recursive-descent parser of \<open>$filter\<close>; totality
    and the round trip with a printer.
  \<^item> \<open>FilterTree\<close>, \<open>WhereBuilder\<close>, \<open>WhereMeaning\<close>, \<open>WhereAgreement\<close>: validation, rewriting and splitting of filters, \<open>buildWhere\<close>, a
    reference meaning of \<open>Where\<close> objects, and their agreement with \<open>FilterEval\<close>, the evaluation in memory.
  \<^item> \<open>TopLevel\<close>, \<open>ComputeParser\<close>, \<open>ComputeRoundTrip\<close>, \<open>ApplyParser\<close>, \<open>ApplyRoundTrip\<close>: option texts, \<open>$compute\<close>, \<open>$orderby\<close> and
    \<open>$apply\<close>.
  \<^item> \<open>Scopes\<close>, \<open>ExpandParser\<close>, \<open>ExpandTotal\<close>, \<open>ExpandLevels\<close>: \<open>$expand\<close> and the whole of \<open>parseODataQuery\<close>.
  \<^item> \<open>SqlText\<close>, \<open>Navigation\<close>, \<open>FilterPushdown\<close>, \<open>PushdownSafety\<close>, \<open>PushdownShape\<close>, \<open>LambdaPushdown\<close>: navigation paths, SQL texts, and a
    reader of SQL that shows what can be in them.
  \<^item> \<open>Etag\<close>: tags, the headers with them and their comparison.
  \<^item> \<open>Paging\<close>: orders, page sizes, tokens and pages of collections.
  \<^item> \<open>ApplyPlan\<close>, \<open>ApplyExecution\<close>, \<open>ApplyFallback\<close>: plans of \<open>$apply\<close> and their execution in memory; \<open>GroupMeaning\<close>, \<open>RowOrder\<close> and
    \<open>PlanMeaning\<close> say what groups, sorting and plans compute.
  \<^item> \<open>Search\<close>, \<open>SearchText\<close>: \<open>$search\<close> and its texts.
  \<^item> \<open>Tokens\<close>, \<open>DeltaToken\<close>, \<open>DeltaFeed\<close>: signed envelopes and skip tokens, delta tokens, and the feeds made with them: changed
    rows, deleted entities, removed groups.
  \<^item> \<open>Throttle\<close>: the in-memory store, the throttler, and the interleavings of the requests that use it.
  \<^item> \<open>PathRewriter\<close>, \<open>BatchUrls\<close>, \<open>BatchIds\<close>, \<open>BatchText\<close>: the rewriting of URLs, the URLs of sub-requests (\<open>util/base-path.ts\<close>), the
    identifiers, dependencies and references of a batch, and its answers as text with their sizes.
  \<^item> \<open>BatchHost\<close>, \<open>BatchRun\<close>: the state a batch threads through its requests, transactions (\<open>util/datasource-transactions.ts\<close>), and the
    batch controller from the limits to the whole batch; \<open>BatchOutcome\<close> shows that runs end, \<open>BatchAnswers\<close> what they answer,
    \<open>BatchSafety\<close> what they leave of the data. \<open>BatchResults\<close> has the properties.
  \<^item> \<open>Results\<close>: the properties of pages, groups, plans and searches; \<open>TokenResults\<close>: those of tokens and feeds. The others are in this theory.

  \<^bold>\<open>Interfaces.\<close> A locale states what a client relies on and is interpreted on the model: the order of rows a sort needs
  and the strict order paging needs (\<open>row_order\<close>, \<open>keyset\<close>), the operations of the throttle store, the queue of bytes, and a
  relation of states that the steps of a batch compose to (\<open>run_relation\<close>).

  \<^bold>\<open>Bounds.\<close> The recursive-descent parsers take a bound on the nesting, and their loops one on the steps, both computed
  from the length of the tokens left; \<open>OutOfFuel\<close> marks a bound that was too small, and the termination properties show
  that it never comes out, since every step consumes a token. A client that follows links has as many steps as the
  collection has rows, plus one.

  \<^bold>\<open>Parameters.\<close> What the host decides (texts of numbers and dates, readings of dates), what LoopBack knows of the models
  (relations, properties, tables), \<open>JSON.parse\<close>, hashes and random numbers are arguments of the definitions that use them.

  The handler that answers a sub-request and the transactions of a data source are functions on the contents of the
  server; what they have to satisfy is the hypothesis \<open>transactional\<close>.

  \<^bold>\<open>Not modelled.\<close> Reading and writing through LoopBack repositories, HTTP, dependency injection, booting, logging and
  telemetry, the Redis store (scripts a Redis server runs), the SQL of \<open>$apply\<close> and the metadata document. Of the batch
  controller: what a handler does after its timeout, where the nesting depth is kept, forwarded protocols.
\<close>

section \<open>Concrete inputs\<close>

text \<open>What the witnesses evaluate the properties on: a host, an order with two items, and filters over it.\<close>

definition sample_host :: js_host where
  "sample_host = \<lparr>number_text = (\<lambda>x. show_int \<lfloor>x\<rfloor>), date_text = (\<lambda>t. show_int t), date_parse = (\<lambda>s. None)\<rparr>"

definition sample_item :: "rat \<Rightarrow> js_value" where
  "sample_item price = JObj [(''price'', JNum (Finite price))]"

definition sample_order :: js_value where
  "sample_order = JObj [(''name'', JStr ''Ada''), (''total'', JNum (Finite (5 / 2))),
     (''items'', JArr [sample_item 3, sample_item 7])]"

definition cheap :: parsed_expression where
  "cheap = Comparison ''i/price'' Lt (JNum (Finite 5))"

definition any_cheap :: parsed_expression where
  "any_cheap = Lambda AnyOf [''items''] ''i'' cheap"

definition named_ada :: parsed_expression where
  "named_ada = Comparison ''name'' Eq (JStr ''Ada'')"

lemmas sample_defs = sample_host_def sample_item_def sample_order_def cheap_def any_cheap_def named_ada_def

section \<open>The batch parser\<close>

text \<open>
  C2: Parsing a multipart batch always ends: whatever the chunks of the payload, the nested
  changesets and the limits, the loops over parts and the recursion into changesets are
  never cut off by the bound the model gives them.
\<close>

theorem batch_parsing_terminates: "parseMultipartBatch json lims b chunks \<noteq> Inl OutOfFuel"
  using parseMultipartBatch_ensures by (rule ensures_fuel)

text \<open>
  C32: A batch that is accepted has no more operations, over all its changesets, than a positive
  \<open>maxOperations\<close> allows.
\<close>

theorem batch_within_limit:
  assumes "parseMultipartBatch json lims b chunks = Inr rs" "maxOperations lims = Some m" "0 < m"
  shows "int (length rs) \<le> m"
  using ensuresD [OF parseMultipartBatch_ensures assms(1)] assms(2,3) by blast

definition sample_limits :: limits where
  "sample_limits = \<lparr>maxPayloadBytes = None, maxOperations = Some 1, maxChangesetOperations = None,
     maxDepth = None, maxPartBodyBytes = None\<rparr>"

definition sample_batch :: bytes where
  "sample_batch = ''--b'' @ crlf @ ''Content-Type: application/http'' @ crlf2 @ ''GET /a HTTP/1.1'' @ crlf2 @ crlf @ ''--b--''"

lemma sample_batch_parsed:
  "\<exists>r. parseMultipartBatch (\<lambda>s. Some ()) sample_limits ''b'' [sample_batch] = Inr [r]"
  by (rule exI [where x = "\<lparr>req_id = Some ''auto-1'', req_method = ''GET'', req_url = ''/a'', req_headers = [],
        req_body = NoBody, req_rawBody = None, atomicityGroup = None\<rparr>"]) code_simp

theorem batch_within_limit_witness:
  "\<exists>r. parseMultipartBatch (\<lambda>s. Some ()) sample_limits ''b'' [sample_batch] = Inr [r]
     \<and> int (length [r]) \<le> 1"
  using sample_batch_parsed batch_within_limit [where lims = sample_limits and m = 1 and b = "''b''"
      and chunks = "[sample_batch]" and json = "\<lambda>s. Some ()"]
  by (auto simp: sample_limits_def)


section \<open>Filters: reading and printing\<close>

text \<open>
  C5: Parsing a filter always ends, and what it returns is a well-formed expression read from at
  least one token and from no token that is not there: \<open>parseFilter\<close> never runs out of its
  bounds, the index it returns lies after the start and within the tokens.
\<close>

theorem filter_parsing_total:
  "(case parseFilter tokens i only_literals of
      Inl e \<Rightarrow> e \<noteq> OutOfFuel
    | Inr (e, j) \<Rightarrow> i < j \<and> j \<le> length tokens \<and> lambdas_wf e)"
  using parseFilter_total [of tokens i only_literals] by (auto split: sum.splits)

text \<open>
  C4: The text of a filter is read back: for every expression that can be written, with the
  parentheses the precedences of \<open>not\<close>, \<open>and\<close> and \<open>or\<close> need and no others, tokenizing and
  parsing its text gives the expression and consumes every token.
\<close>

theorem filter_round_trip:
  assumes "writable e"
  shows "\<exists>tokens. tokenize (filter_text e) = Inr tokens \<and> parseFilter tokens 0 only_literals = Inr (e, length tokens)"
proof -
  have "tokenize (filter_text e) = Inr (print_expr 0 e)"
    unfolding filter_text_def using print_tokens [OF assms] by (intro tokenize_tokens) blast
  with parseFilter_print [OF assms] show ?thesis by blast
qed

theorem filter_round_trip_witness:
  "\<exists>tokens. tokenize (filter_text (Logical And [named_ada, Not any_cheap])) = Inr tokens
     \<and> parseFilter tokens 0 True = Inr (Logical And [named_ada, Not any_cheap], length tokens)"
  by (rule filter_round_trip) code_simp

text \<open>
  Tokens lose nothing but white space: a filter written with its tokens separated by blanks has
  those tokens, so a string literal stays one token, whatever it contains.
\<close>

lemma tokens_separated:
  assumes "\<forall>w\<in>set ws. is_token w"
  shows "tokenize (join '' '' ws) = Inr ws"
  using assms by (rule tokenize_tokens)

lemma tokens_separated_example:
  "tokenize (join '' '' [''name'', ''eq'', quoted ''O'' @ quoted ''and Co. (x)'']) =
     Inr [''name'', ''eq'', quoted ''O'' @ quoted ''and Co. (x)'']"
  by (rule tokens_separated) code_simp

section \<open>Filters: lambdas\<close>

text \<open>
  C13: Rewriting negated lambdas keeps the meaning of the filter: the negation of \<open>any\<close> becomes \<open>all\<close>
  of the negated predicate and the other way round, on every entity and under every binding,
  empty collections included.
\<close>

theorem rewriting_keeps_meaning:
  assumes "lambdas_wf e"
  shows "evaluatePredicate h (rewriteNegatedLambdas e) item al rt b = evaluatePredicate h e item al rt b"
  using assms by (rule rewrite_meaning)

theorem rewriting_keeps_meaning_witness:
  "evaluatePredicate sample_host (rewriteNegatedLambdas (Not (Not (Not any_cheap)))) sample_order [] sample_order Map.empty
     = evaluatePredicate sample_host (Not (Not (Not any_cheap))) sample_order [] sample_order Map.empty"
  by (rule rewriting_keeps_meaning) code_simp

text \<open>
  After the rewriting no \<open>not\<close> stands in front of a lambda or of another \<open>not\<close>, and rewriting again
  changes nothing.
\<close>

lemma rewriting_is_normal:
  "negation_normal (rewriteNegatedLambdas e)
     \<and> rewriteNegatedLambdas (rewriteNegatedLambdas e) = rewriteNegatedLambdas e"
  using rewrite_normal rewrite_normal_id by blast

text \<open>
  C14: Splitting a filter into lambdas, a predicate for the database and a rest loses nothing: an
  entity satisfies all the parts just when it satisfies the filter, and the predicate that
  goes to the database has no lambda in it.
\<close>

theorem lambda_split_meaning:
  assumes "splitLambdaExpressions e = Inr s" "lambdas_wf e"
  shows "split_holds h entity s = holds_for h entity e
     \<and> (\<forall>p. predicate_part s = Some p \<longrightarrow> \<not> containsLambda p)"
  using split_meaning [OF assms] split_lambda_free [OF assms(1)] by blast

theorem lambda_split_meaning_witness:
  "\<exists>s. splitLambdaExpressions (Logical And [named_ada, any_cheap]) = Inr s
     \<and> split_holds sample_host sample_order s
         = holds_for sample_host sample_order (Logical And [named_ada, any_cheap])
     \<and> (\<forall>p. predicate_part s = Some p \<longrightarrow> \<not> containsLambda p)"
proof -
  have "\<exists>s. splitLambdaExpressions (Logical And [named_ada, any_cheap]) = Inr s"
    by (simp add: sample_defs)
  moreover have "lambdas_wf (Logical And [named_ada, any_cheap])" by (simp add: sample_defs)
  ultimately show ?thesis using lambda_split_meaning by metis
qed

text \<open>
  A filter whose lambdas pass the validation nests them no deeper than the limit, and every field
  of the predicate of an outermost lambda is reached through an alias that is in scope.
\<close>

lemma validation_bounds_depth:
  assumes "validateLambdaExpressionTree limit e = Inr u"
  shows "lambda_depth e \<le> normalizeMaxLambdaDepth limit"
proof (cases "containsLambda e")
  case True
  with assms have "visit_lambda (normalizeMaxLambdaDepth limit) e [] 0 = Inr u"
    by (simp add: validateLambdaExpressionTree_def)
  from visit_depth [OF this] show ?thesis by auto
next
  case False
  then have "lambda_depth e = 0"
  proof (induction e)
    case (Logical t es)
    then have "set (map lambda_depth es) \<subseteq> {0}" by (auto simp: list_ex_iff)
    then show ?case by (auto simp: Max_eq_iff image_subset_iff)
  qed auto
  then show ?thesis by simp
qed

lemma validation_bounds_depth_witness:
  "validateLambdaExpressionTree (Some (Finite 1)) any_cheap = Inr ()
     \<and> lambda_depth any_cheap \<le> normalizeMaxLambdaDepth (Some (Finite 1))"
proof -
  have v: "validateLambdaExpressionTree (Some (Finite 1)) any_cheap = Inr ()" by code_simp
  with validation_bounds_depth [OF v] show ?thesis by blast
qed


text \<open>
  What a lambda's predicate says of an item depends on the item alone: when the validation has
  let it through and it nests no further lambda, no property of the enclosing entity changes
  its value.
\<close>

lemma validated_predicate_is_local:
  assumes "validateLambdaExpressionTree limit (Lambda k path a p) = Inr u"
    "\<not> containsLambda p" "args_present p"
  shows "evaluatePredicate h p item a rt b = evaluatePredicate h p item a rt' b"
proof -
  have "visit_lambda (normalizeMaxLambdaDepth limit) p [a] 1 = Inr u"
    using assms(1) by (auto simp: validateLambdaExpressionTree_def split: if_splits)
  from visit_scoped [OF this] show ?thesis by (intro scoped_isolated assms(2,3)) auto
qed

lemma validated_predicate_is_local_witness:
  "evaluatePredicate sample_host cheap (sample_item 3) ''i'' sample_order Map.empty
     = evaluatePredicate sample_host cheap (sample_item 3) ''i'' JNull Map.empty"
proof (rule validated_predicate_is_local)
  show "validateLambdaExpressionTree None (Lambda AnyOf [''items''] ''i'' cheap) = Inr ()" by code_simp
qed (simp_all add: sample_defs)

section \<open>Filters: the translation for the database\<close>


definition shopping :: parsed_expression where
  "shopping = Logical Or [Not (Logical And [named_ada, LengthCmp ''name'' Gt 3]), FnCmp Floor ''total'' Eq 2]"

lemma safe_names:
  "assertSafeFilterFieldName default_options ''name'' = Inr ()"
  "assertSafeFilterFieldName default_options ''total'' = Inr ()"
  "assertSafeFilterFieldName default_options ''at'' = Inr ()"
  by code_simp+





text \<open>
  The exception: \<open>ceiling(f) eq n\<close> is translated to an operator that does not exist: LoopBack has \<open>lte\<close>, the
  code writes \<open>le\<close>.
\<close>

lemma ceiling_names_unknown_operator:
  assumes "assertSafeFilterFieldName opts f = Inr ()"
  shows "\<exists>w. buildWhere opts (FnCmp Ceiling f Eq n) = Inr w \<and> \<not> known_where w"
  using assms by (simp add: number_fn_where_def op_def known_operators_def)

lemma unknown_operator_total:
  "\<exists>w. buildWhere default_options (FnCmp Ceiling ''total'' Eq 3) = Inr w \<and> \<not> known_where w"
  by (rule ceiling_names_unknown_operator) code_simp

text \<open>
  A year is translated to the half-open range of its days: for a year from 100 to 9999 and every
  comparator, the range holds of a date just when the year of the date, by the calendar of
  the language, compares that way.
\<close>

lemma year_range_is_exact:
  assumes "buildWhere opts (FnCmp Year f c n) = Inr w" "plain_year n" "field f = JDate (Some t)"
  shows "where_holds h field w = number_test c (of_int (utc_year t)) n"
  using assms by (simp add: year_where_meaning)

lemma year_range_is_exact_witness:
  "\<exists>w. buildWhere default_options (FnCmp Year ''at'' Lte 2024) = Inr w
     \<and> where_holds sample_host (\<lambda>f. JDate (Some 1735689599999)) w
        = number_test Lte (of_int (utc_year 1735689599999)) 2024"
proof -
  obtain w where w: "buildWhere default_options (FnCmp Year ''at'' Lte 2024) = Inr w"
    by (simp add: number_fn_where_def safe_names)
  have "plain_year 2024" by code_simp
  with year_range_is_exact [where field = "\<lambda>f. JDate (Some 1735689599999)", OF w this refl] w show ?thesis by blast
qed

text \<open>
  A rounded number is translated to the half-open range of the numbers that round to it, for
  \<open>floor\<close> and \<open>round\<close>, every comparator and every integer.
\<close>

lemma rounding_ranges_are_exact:
  assumes "buildWhere opts (FnCmp g f c n) = Inr w" "is_integer n" "field f = JNum (Finite y)"
    "g = Floor \<or> g = Round"
  shows "where_holds h field w = number_test c (of_int (if g = Floor then \<lfloor>y\<rfloor> else round_half_up y)) n"
  using assms by (auto simp: floor_where_meaning round_where_meaning)

lemma rounding_ranges_are_exact_example:
  "\<exists>w. buildWhere default_options (FnCmp Round ''total'' Gt 2) = Inr w
     \<and> where_holds sample_host (\<lambda>f. JNum (Finite (5 / 2))) w
        = number_test Gt (of_int (if Round = Floor then \<lfloor>5 / 2 :: rat\<rfloor> else round_half_up (5 / 2))) 2"
proof -
  obtain w where w: "buildWhere default_options (FnCmp Round ''total'' Gt 2) = Inr w"
    by (simp add: number_fn_where_def safe_names)
  have "is_integer 2" by code_simp
  with rounding_ranges_are_exact [where field = "\<lambda>f. JNum (Finite (5 / 2))", OF w this refl] w show ?thesis by blast
qed


text \<open>
  Splitting a filter between the database and the evaluation of structured properties loses nothing,
  and the database's part has no structured property and no case transform in it.
\<close>

lemma structured_split_meaning:
  assumes "splitParsedExpression structured e = (repo, struc)" "no_empty_or e"
  shows "(part_holds h repo c al rt b \<and> part_holds h struc c al rt b \<longleftrightarrow> evaluatePredicate h e c al rt b)
     \<and> (\<forall>r. repo = Some r \<longrightarrow> plain_for_repository structured r)"
  using splitParsedExpression_meaning [OF assms(2,1)] splitParsedExpression_plain assms(1) by blast

lemma structured_split_meaning_example:
  "\<exists>repo struc. splitParsedExpression (\<lambda>f. f = ''total'') shopping = (repo, struc)
     \<and> (part_holds sample_host repo sample_order [] sample_order Map.empty
          \<and> part_holds sample_host struc sample_order [] sample_order Map.empty
        \<longleftrightarrow> evaluatePredicate sample_host shopping sample_order [] sample_order Map.empty)
     \<and> (\<forall>r. repo = Some r \<longrightarrow> plain_for_repository (\<lambda>f. f = ''total'') r)"
proof -
  obtain repo struc where s: "splitParsedExpression (\<lambda>f. f = ''total'') shopping = (repo, struc)"
    by fastforce
  have "no_empty_or shopping" by code_simp
  from structured_split_meaning [OF s this] s show ?thesis by blast
qed

section \<open>Arithmetic and aggregation\<close>

definition sample_sum :: compute_node where
  "sample_sum = CBinary OpSub (CBinary OpAdd (CPath [''price'']) (CBinary OpMul (CPath [''item'', ''tax'']) (CLiteral (JNum (Finite 2)))))
     (CFunction FnConcat [CPath [''a''], CLiteral (JStr ''it is (b), c'')])"

definition revenue :: aggregation where
  "revenue = \<lparr>agg_field = None, agg_expression = Some (CBinary OpMul (CPath [''price'']) (CPath [''qty''])),
     agg_operator = Sum, agg_alias = ''revenue''\<rparr>"

definition counted :: aggregation where
  "counted = \<lparr>agg_field = None, agg_expression = None, agg_operator = Count, agg_alias = ''n''\<rparr>"

definition sample_pipeline :: apply_pipeline where
  "sample_pipeline = [TFilter named_ada,
     TConcat [[TGroupBy [''country'', ''city''] [revenue, counted], TTop 3], [TAggregate [counted]]],
     TOrderBy [(''revenue'', Desc)], TSkip 10]"

lemmas pipeline_defs = sample_pipeline_def revenue_def counted_def named_ada_def sample_sum_def

text \<open>
  An arithmetic expression of \<open>$compute\<close>, written with the fewest parentheses its precedences and
  the left association need, is read back from its text.
\<close>

lemma compute_round_trip:
  assumes "writable_compute e"
  shows "rbind (tokenize (compute_text e)) parseComputeExpressionTokens = Inr e"
  using assms by (simp add: compute_text_facts(1) compute_print_parse)

lemma compute_round_trip_witness:
  "rbind (tokenize (compute_text sample_sum)) parseComputeExpressionTokens = Inr sample_sum"
  by (rule compute_round_trip) code_simp

text \<open>
  Parsing \<open>$apply\<close> always ends: the recursion through nested \<open>concat\<close>s is never cut off by the bound
  of the model, whatever the text.
\<close>

lemma apply_parsing_terminates: "parseApply s \<noteq> Inl OutOfFuel"
  using parseApply_settles by (rule ensures_fuel)

text \<open>
  C30: A pipeline of transformations is read back from its text, with its filters, keys, aggregates over
  paths and over expressions, orders, counts and concatenated pipelines.
\<close>

theorem apply_round_trip:
  assumes "writable_pipeline p"
  shows "parseApplyPipeline (pipeline_text p) = Inr p"
  using assms by (rule pipeline_round_trip)

theorem apply_round_trip_witness: "parseApplyPipeline (pipeline_text sample_pipeline) = Inr sample_pipeline"
  by (rule apply_round_trip) code_simp

text \<open>
  The aggregation read off a pipeline without \<open>concat\<close> has the keys of its only \<open>groupby\<close> and all the
  aggregates in the order they are written; there is none without an aggregate, and two
  \<open>groupby\<close>s are refused.
\<close>

lemma derived_aggregation:
  assumes "\<not> list_ex is_concat p"
  shows "deriveAggregationSpecFromPipeline p =
    (if 1 < length (all_keys p) then throw ''Multiple groupby() transformations are not supported.''
     else Inr (if all_aggregates p = [] then None else Some (concat (all_keys p), all_aggregates p)))"
  using assms by (rule derive_flat)

lemma derived_aggregation_example:
  "deriveAggregationSpecFromPipeline [TGroupBy [''country''] [revenue], TAggregate [counted], TTop 3]
     = Inr (Some ([''country''], [revenue, counted]))"
  using derived_aggregation [of "[TGroupBy [''country''] [revenue], TAggregate [counted], TTop 3]"] by simp

text \<open>
  The table of aggregation operators is asked with the name as it comes, so the inherited
  \<open>constructor\<close> is taken for an operator.
\<close>

lemma constructor_is_an_operator:
  "parseAggregateExpression ''amount with constructor as total'' =
     Inr \<lparr>agg_field = Some ''amount'', agg_expression = None, agg_operator = ObjectConstructor, agg_alias = ''total''\<rparr>"
  by code_simp

section \<open>Whole queries and expansions\<close>

definition sample_query :: query where
  "sample_query = [(''$select'', One ''id''), (''$expand'', One ''child'')]"

definition sample_scope :: scope where
  "sample_scope = Scope (Some [''id'', ''child'']) None None None None (Some [Inclusion ''child'' None])"

text \<open>\<open>look\<close> for models whose only relation leads from a model to itself.\<close>

definition tree :: "string relations" where
  "tree m r = (if r = ''child'' then Some (Some m) else None)"

lemma sample_parsed: "\<exists>q. parseODataQuery tree (Some ''Node'') default_options sample_query = Inr q \<and> pq_scope q = sample_scope"
proof -
  have "parseSelect ''id'' = Some [''id'']" by code_simp
  moreover have "parseExpand tree default_options ''child'' (Some ''Node'') = Inr (Some [Inclusion ''child'' None])"
  proof -
    have "splitTopLevel ''child'' CHR '','' = Inr [''child'']" by code_simp
    moreover have "extractPathAndOptions ''child'' = Inr (''child'', None)" by code_simp
    moreover have "map trim (split_on CHR ''/'' ''child'') = [''child'']" by code_simp
    moreover have "mergeScopes None None = None" using chain_merge [of r 0] by simp
    ultimately show ?thesis by (simp add: parseExpand_def expand_segment_def tree_def)
  qed
  ultimately show ?thesis
    by (simp add: parseODataQuery_def sample_query_def sample_scope_def default_options_def check_options_def
        singleQueryValue_def filter_clause_def parseOrder_def optional_def given_def expand_value_def count_option_def
        no_filter_def projectRelationField_def add_field_def)
qed

text \<open>
  C28: Parsing a query always ends: its filter, its pipelines, its expressions and its nested expansions
  are never cut off by the bounds of the model, whatever the values of the options.
\<close>

theorem query_parsing_terminates: "parseODataQuery look rels opts query \<noteq> Inl OutOfFuel"
  using parseODataQuery_settles by (rule ensures_fuel)

text \<open>
  C29: At every level of what a query expands each relation stands once, however often the query names it,
  and where fields are selected they name the relations that are expanded beside them.
\<close>

theorem expansions_are_merged:
  assumes "parseODataQuery look rels opts query = Inr q"
  shows "single (pq_scope q) \<and> projected (pq_scope q)"
  using query_single [OF assms] query_projected [OF assms] ..

theorem expansions_are_merged_witness: "single sample_scope \<and> projected sample_scope"
  using sample_parsed expansions_are_merged by metis

text \<open>
  Only relations of the models are expanded: each relation at each level is one the model at that place
  has, as long as no relation leads to a model where a relation of its name leads elsewhere.
\<close>

lemma expanded_relations_exist:
  assumes "level_stable look" "parseODataQuery look rels opts query = Inr q"
  shows "known look (pq_scope q) rels"
  using assms by (rule query_known)

lemma expanded_relations_exist_witness: "known tree sample_scope (Some ''Node'')"
proof -
  have "level_stable tree" by (auto simp: level_stable_def tree_def)
  with sample_parsed expanded_relations_exist show ?thesis by metis
qed

text \<open>
  Without that condition it fails: \<open>$levels\<close> copies what is expanded under a relation to the next level
  without looking at the relations of the model there.
\<close>

lemma levels_expand_unknown_relations:
  "parseExpand ragged opts ''child($levels=2;$expand=tags)'' (Some ''Root'') = Inr (Some copied)
     \<and> \<not> known_list ragged copied (Some ''Root'')"
  using ragged_levels copied_unknown by blast

text \<open>
  \<open>$levels=n\<close> on a relation from a model to itself expands it exactly \<open>n\<close> levels deep; there is no
  limit on \<open>n\<close>.
\<close>

lemma levels_are_exact:
  assumes "look m r = Some (Some m)" "simple_identifier r" "small_int (int n)" "0 < n"
  shows "parseExpand look opts (r @ ''($levels='' @ show_nat n @ '')'') (Some m) = Inr (Some [Inclusion r (chain r (n - 1))])
     \<and> inclusion_depth (Inclusion r (chain r (n - 1))) = n"
  using levels_exact [of look m r n opts, OF assms] chain_depth [of r "n - 1"] assms(4) by simp

lemma levels_are_exact_witness:
  "parseExpand tree default_options (''child'' @ ''($levels='' @ show_nat 1000000 @ '')'') (Some ''Node'')
     = Inr (Some [Inclusion ''child'' (chain ''child'' (1000000 - 1))])
     \<and> inclusion_depth (Inclusion ''child'' (chain ''child'' (1000000 - 1))) = 1000000"
proof (rule levels_are_exact)
  show "tree ''Node'' ''child'' = Some (Some ''Node'')" by (simp add: tree_def)
  show "simple_identifier ''child''" by code_simp
qed (simp_all add: small_int_def)

text \<open>
  A query that is accepted gives every option but \<open>$expand\<close> at most once, and in strict mode it has
  no option the protocol does not define.
\<close>

lemma accepted_options:
  assumes "parseODataQuery look rels opts query = Inr q"
  shows "(\<forall>k \<in> set allowed_options - {''$expand''}. \<forall>vs. map_of query k \<noteq> Some (Many vs))
     \<and> (strict opts \<longrightarrow> (\<forall>k \<in> fst ` set query. starts_with k ''$'' \<longrightarrow> k \<in> set allowed_options))"
proof
  have s: "singleQueryValue query k = Inr v \<Longrightarrow> map_of query k \<noteq> Some (Many vs)" for k v vs
    by (auto simp: singleQueryValue_def)
  show "\<forall>k \<in> set allowed_options - {''$expand''}. \<forall>vs. map_of query k \<noteq> Some (Many vs)"
    using assms unfolding parseODataQuery_def allowed_options_def by (auto dest: s)
  have "check_options opts query = Inr ()" using assms unfolding parseODataQuery_def by auto
  then show "strict opts \<longrightarrow> (\<forall>k \<in> fst ` set query. starts_with k ''$'' \<longrightarrow> k \<in> set allowed_options)"
    by (auto simp: check_options_def find_None_iff split: option.splits)
qed

lemma accepted_options_example: "\<not> (\<exists>vs. map_of sample_query ''$select'' = Some (Many vs))"
proof -
  have "''$select'' \<in> set allowed_options - {''$expand''}" by (simp add: allowed_options_def)
  with sample_parsed accepted_options show ?thesis by blast
qed

section \<open>Throttling\<close>

text \<open>
  C11: Whatever the interleaving of requests, checks, closed responses and releases, the store in
  memory never counts more slots for a tenant than requests of it run.
\<close>

theorem slots_are_running:
  assumes "reachable (memory_ops d) config new_store v"
  shows "recorded (store v) t \<le> running v t"
  using memory.slots_running [OF assms] new_store_facts by blast

theorem slots_are_running_witness:
  "recorded one_taken ''a'' \<le> running \<lparr>store = one_taken, requests = [(''a'', Running)]\<rparr> ''a''"
proof -
  have "reachable memory60 one_slot new_store \<lparr>store = one_taken, requests = [(''a'', Running)]\<rparr>"
    using request_admitted [OF reachable.start one_slot_steps(2)] by simp
  from slots_are_running [OF this] show ?thesis by simp
qed

text \<open>
  A tenant none of whose requests runs is never refused for its concurrency, in any reachable
  state, when its limit is at least one.
\<close>

lemma idle_tenant_admitted:
  assumes "reachable (memory_ops d) config new_store v"
    and "running v t = 0" "snd (getLimits config t) = Some b" "1 \<le> b"
  shows "fst (check_slot (memory_ops d) config (store v) t now) = Admitted"
proof -
  obtain outcome st where c: "check_slot (memory_ops d) config (store v) t now = (outcome, st)" by fastforce
  from memory.idle_admitted [OF assms(1) new_store_facts assms(2-4) c] c show ?thesis by simp
qed

lemma idle_tenant_admitted_example: "fst (check_slot memory60 one_slot one_taken ''b'' 0) = Admitted"
proof -
  have r: "reachable memory60 one_slot new_store \<lparr>store = one_taken, requests = [(''a'', Running)]\<rparr>"
    using request_admitted [OF reachable.start one_slot_steps(2)] by simp
  have "running \<lparr>store = one_taken, requests = [(''a'', Running)]\<rparr> ''b'' = 0" by (simp add: running_def)
  with idle_tenant_admitted [OF r] show ?thesis by (simp add: one_slot_def getLimits_def)
qed

text \<open>
  C33: Within the window its first request opens, exactly the requests beyond the limit are refused,
  in the order they come.
\<close>

theorem rate_is_exact:
  assumes "tenants_ok st" "map_of (states st) t = None" "0 < w" "1 \<le> l" "\<forall>now\<in>set ts. now - t0 < w"
  shows "fst (rate_run st t w (Some l) (t0 # ts)) = map (\<lambda>i. l < of_nat (i + 1)) [0..<Suc (length ts)]"
  by (rule fresh_window [OF assms])

theorem rate_is_exact_witness:
  "fst (rate_run new_store ''a'' 60000 (Some 2) [5, 6, 60004]) = [False, False, True]"
proof -
  have "fst (rate_run new_store ''a'' 60000 (Some 2) (5 # [6, 60004])) = map (\<lambda>i. 2 < rat_of_nat (i + 1)) [0..<Suc (length [6::int, 60004])]"
    by (rule rate_is_exact [OF new_store_facts(1)]) (simp_all add: new_store_def)
  then show ?thesis by (simp add: upt_rec)
qed


text \<open>
  The rate limit fails at the turn of a window: the request that opens it again after an idle one is
  not counted, since \<open>prune\<close> drops the state it is about to write.
\<close>

lemma window_opener_not_counted:
  "fst (rate_run new_store ''a'' 60000 (Some 1) [60000, 120000, 120001]) = [False, False, False]"
  by (rule window_opener_lost)

text \<open>
  Whatever requests come and go, the throttler has one lease refresher for each tenant with
  running requests and never more than its limit, rounded up.
\<close>

lemma refreshers_bounded:
  "leases_ok (resolveLeaseTimerLimit c)
     (fold (lease_step (resolveLeaseTimerLimit c)) xs \<lparr>active = [], timers = 0\<rparr>)"
  by (rule leases_bounded) (rule resolved_positive)

section \<open>Push-down to SQL\<close>

text \<open>Orders with a customer and lines, in a database whose tables have odd names.\<close>

definition order_model :: model_definition where
  "order_model = \<lparr>id_properties = [''id''], flagged_ids = [''id''], property_names = [''id'', ''name'', ''customerId''],
     relations_of = [(''customer'', \<lparr>relation_type = ''belongsTo'', target = Some ''Customer'', source_model = Some ''Order'',
        keyFrom = Some ''customerId'', keyTo = [], through = None\<rparr>),
      (''lines'', \<lparr>relation_type = ''hasMany'', target = Some ''Line'', source_model = Some ''Order'',
        keyFrom = None, keyTo = ''orderId'', through = None\<rparr>)]\<rparr>"

definition leaf_model :: model_definition where
  "leaf_model = \<lparr>id_properties = [''id''], flagged_ids = [''id''], property_names = [''id'', ''city'', ''orderId''], relations_of = []\<rparr>"

definition shop :: world where
  "shop = \<lparr>definition_of = [''Order'' \<mapsto> order_model, ''Customer'' \<mapsto> leaf_model, ''Line'' \<mapsto> leaf_model],
     model_name = id,
     data_source = \<lparr>connector_name = ''PostgreSQL'', can_execute = True, table = (\<lambda>m. Some (m @ [dquote] @ ''; --'')),
       schema = (\<lambda>m. None), column = (\<lambda>m p. None)\<rparr>\<rparr>"

definition first_page :: push_options where
  "first_page = \<lparr>push_where = None, push_order = [''name desc''], push_offset = None, push_limit = Some 20,
     push_maxDepth = None, push_maxJoinCount = None\<rparr>"

definition of_ada :: "string \<Rightarrow> parsed_expression" where
  "of_ada city = Logical Or [Comparison ''customer/city'' Eq (JStr city), named_ada]"

definition any_city :: lambda_input where
  "any_city = Tree (Lambda AnyOf [''lines''] ''l'' (Comparison ''l/city'' Eq (JStr ''Paris'')))"

lemmas shop_defs = order_model_def leaf_model_def shop_def first_page_def of_ada_def named_ada_def any_city_def

definition is_query :: "pushdown result \<Rightarrow> bool" where
  "is_query r = (case r of Inr (Query s ps) \<Rightarrow> True | _ \<Rightarrow> False)"

lemma is_queryE: "is_query r \<Longrightarrow> \<exists>s ps. r = Inr (Query s ps)"
  by (auto simp: is_query_def split: sum.splits pushdown.splits)

lemma shop_builds: "is_query (buildPostgresMixedFilterIdQuery shop ''Order'' (of_ada ''Rome'') first_page)"
  by code_simp

lemma shop_builds_lambda: "is_query (buildPostgresLambdaIdQuery shop ''Order'' any_city first_page)"
  by code_simp

text \<open>
  C12: Whatever the names of tables, columns and properties and whatever the filter, the text of a pushed
  down query closes every quote, has nothing outside quotes that could end the statement or start a
  comment, and its placeholders are \<open>$1\<close> to \<open>$n\<close> in order, one for each of the \<open>n\<close> parameters.
\<close>

theorem mixed_text_is_safe:
  assumes "buildPostgresMixedFilterIdQuery w m e opts = Inr (Query s ps)
     \<or> buildPostgresMixedFilterCountQuery w m e opts = Inr (Query s ps)"
  shows "sql_scan Outside s = Some [1..<Suc (length ps)]"
  using assms mixed_queries_safe by blast

theorem mixed_text_is_safe_witness:
  "\<exists>s ps. buildPostgresMixedFilterIdQuery shop ''Order'' (of_ada ''Rome'') first_page = Inr (Query s ps)
     \<and> sql_scan Outside s = Some [1..<Suc (length ps)]"
  using is_queryE [OF shop_builds] mixed_text_is_safe by blast

text \<open>
  The same holds of the queries for filters with lambdas, nested to any depth, where the text grows
  around the predicate of each lambda.
\<close>

lemma lambda_text_is_safe:
  assumes "buildPostgresLambdaIdQuery w m input opts = Inr (Query s ps)
     \<or> buildPostgresLambdaCountQuery w m input opts = Inr (Query s ps)
     \<or> buildPostgresFilterIdQuery w m e opts = Inr (Query s ps)
     \<or> buildPostgresFilterCountQuery w m e opts = Inr (Query s ps)"
  shows "sql_scan Outside s = Some [1..<Suc (length ps)]"
  using assms by (elim disjE) (erule lambda_queries_safe filter_queries_safe)+

lemma lambda_text_is_safe_witness:
  "\<exists>s ps. buildPostgresLambdaIdQuery shop ''Order'' any_city first_page = Inr (Query s ps)
     \<and> sql_scan Outside s = Some [1..<Suc (length ps)]"
  using is_queryE [OF shop_builds_lambda] lambda_text_is_safe by blast

text \<open>
  No literal of a filter ever gets into the text: with all its literals blanked, the filter gives the
  same text and as many parameters.
\<close>

lemma text_has_no_literals:
  assumes "buildPostgresMixedFilterIdQuery w m e opts = Inr (Query s ps)"
  shows "\<exists>qs. buildPostgresMixedFilterIdQuery w m (blank e) opts = Inr (Query s qs) \<and> length qs = length ps"
  by (rule id_query_blank [OF assms])

lemma text_has_no_literals_example:
  "\<exists>s ps qs. buildPostgresMixedFilterIdQuery shop ''Order'' (of_ada ''Rome'') first_page = Inr (Query s ps)
     \<and> buildPostgresMixedFilterIdQuery shop ''Order'' (blank (of_ada ''Rome'')) first_page = Inr (Query s qs)"
  using is_queryE [OF shop_builds] text_has_no_literals by blast

text \<open>
  The inline count counts the entities the page is cut from: whenever the query for the identifiers is
  built, so is the one for the count, with the same conditions and the same parameters.
\<close>

lemma count_matches_page:
  assumes "buildPostgresMixedFilterIdQuery w m e opts = Inr (Query s ps)"
  shows "\<exists>idc idp meta parts orderParts. s = id_query idc idp meta parts orderParts opts
    \<and> buildPostgresMixedFilterCountQuery w m e opts = Inr (Query (count_query meta parts) ps)"
  by (rule count_of_id_query [OF assms])

lemma count_matches_page_witness:
  "\<exists>s ps. buildPostgresMixedFilterCountQuery shop ''Order'' (of_ada ''Rome'') first_page = Inr (Query s ps)"
  using is_queryE [OF shop_builds] count_matches_page by blast

text \<open>
  A field named like a method every object has breaks the push-down of its filter: where the query for
  the identifiers is declined, and so answered in memory, building the one for the count throws.
\<close>

lemma inherited_name_breaks_count:
  assumes "supportsPostgresLambdaPushdown w" "inferSqlMetadata w m = Some meta" "map_of (columnMap meta) ''toString'' = None"
    and "getSingleIdProperty w m = Some idp" "resolveColumn w m idp = Inr idc" "push_where opts = None"
  shows "buildPostgresFilterCountQuery w m (StringFnCmp Trim [ArgField ''toString'' t] c v) opts = Inl TypeError
     \<and> buildPostgresFilterIdQuery w m (StringFnCmp Trim [ArgField ''toString'' t] c v) opts = Inr (Decline ''unsupported-filter'')"
proof -
  have "resolveColumn w m ''toString'' = Inl (Thrown TypeError)"
    using assms(2,3) by (simp add: resolveColumn_def DANGEROUS_FIELD_NAMES_def inherited_names_def)
  then have "translatePredicateExpression w (root_ctx m) (StringFnCmp Trim [ArgField ''toString'' t] c v) [] 0 = Inl (Thrown TypeError)"
    by (simp add: no_lambda_def predicate_string_function_def predicate_arg_def resolvePredicateField_def column_in_def root_ctx_def)
  moreover have "metadata_of w m = Inr meta" "base_where like_is_string w m opts = Inr ([], [])"
    using assms(2,6) by (simp_all add: metadata_of_def base_where_def)
  ultimately show ?thesis using count_throws id_declines assms(1,4,5) by blast
qed

lemma inherited_name_breaks_count_example:
  "buildPostgresFilterCountQuery shop ''Order'' (StringFnCmp Trim [ArgField ''toString'' None] Eq ''x'') first_page = Inl TypeError"
proof -
  have "supportsPostgresLambdaPushdown shop" by code_simp
  moreover have "resolveColumn shop ''Order'' ''id'' = Inr (quoteIdentifier ''id'')" by code_simp
  moreover have "getSingleIdProperty shop ''Order'' = Some ''id''" by code_simp
  moreover have "push_where first_page = None" by (simp add: first_page_def)
  moreover obtain meta where m: "inferSqlMetadata shop ''Order'' = Some meta"
    by (auto simp: inferSqlMetadata_def shop_def Let_def)
  moreover from m have "map_of (columnMap meta) ''toString'' = None"
    by (auto simp: inferSqlMetadata_def shop_def order_model_def column_entry_def nonempty_def inherited_names_def Let_def)
  ultimately show ?thesis using inherited_name_breaks_count by blast
qed

text \<open>
  A navigation path makes no more joins than the depth allowed, and one more where it may pass through a
  model in between.
\<close>

lemma joins_bounded:
  assumes "resolveNavigationPath w m path d allowThrough = Inr p"
  shows "length (joins p) \<le> d + (if allowThrough then 1 else 0)"
  by (rule path_bound [OF assms])

lemma joins_bounded_example:
  "\<exists>p. resolveNavigationPath shop ''Order'' ''customer/city'' 2 False = Inr p \<and> length (joins p) \<le> 2"
proof -
  have "case resolveNavigationPath shop ''Order'' ''customer/city'' 2 False of Inr p \<Rightarrow> True | Inl e \<Rightarrow> False" by code_simp
  then obtain p where p: "resolveNavigationPath shop ''Order'' ''customer/city'' 2 False = Inr p" by (auto split: sum.splits)
  with joins_bounded [OF p] show ?thesis by auto
qed

section \<open>Entity tags\<close>

text \<open>
  C27: The tag of several properties brings their values back: the tag an entity is given has no comma, is the one
  tag of the header \<open>If-Match\<close> it comes back in, matches itself, and is decoded to the values of the properties,
  whatever characters the names and the values have.
\<close>

theorem etag_round_trip:
  assumes "normalizeEtagProperties props = Some ps" "1 < length ps" "is_object v"
    and "\<forall>p\<in>set ps. valid_utf8 p \<and> get_prop v p = JStr (vals p) \<and> valid_utf8 (vals p)"
  shows "\<exists>tok. encodeEtagToken h v props = Inr (Some tok) \<and> parseIfMatch (Some tok) = Some (False, [tok])
    \<and> matchesEtag (Some tok) [tok] \<and> decodeEtagToken h tok props (\<lambda>_. None) = readEtagValue v props"
  using composite_tag [OF assms] by blast

definition sample_etag_host :: etag_host where
  "sample_etag_host = js_host.extend sample_host \<lparr>iso_text = show_int, json_text = (\<lambda>v. None), big_int = (\<lambda>s. None)\<rparr>"

definition versioned :: js_value where
  "versioned = JObj [(''id'', JStr ''7''), (''rev'', JStr ''a, b&c=d''), (''at'', JStr ''x'')]"

theorem etag_round_trip_witness:
  "\<exists>tok. encodeEtagToken sample_etag_host versioned [''rev'', ''at''] = Inr (Some tok)
    \<and> decodeEtagToken sample_etag_host tok [''rev'', ''at''] (\<lambda>_. None) = readEtagValue versioned [''rev'', ''at'']"
proof -
  let ?vals = "\<lambda>p. if p = ''at'' then ''x'' else ''a, b&c=d''"
  have n: "normalizeEtagProperties [''rev'', ''at''] = Some [''at'', ''rev'']" by code_simp
  have o: "is_object versioned" by code_simp
  have v: "\<forall>p\<in>set [''at'', ''rev'']. valid_utf8 p \<and> get_prop versioned p = JStr (?vals p) \<and> valid_utf8 (?vals p)"
    by code_simp
  show ?thesis using etag_round_trip [OF n _ o v, of sample_etag_host] by auto
qed

text \<open>
  The tag of a single value with a comma is matched by no header \<open>If-Match\<close>, its own included: the header is
  cut at the commas inside the quotes, too.
\<close>

lemma comma_tag_never_matches:
  assumes "CHR '','' \<in> set s" "encodeEtagToken h (JStr s) [p] = Inr (Some tok)"
    and "parseIfMatch header = Some (any, tags)"
  shows "\<not> matchesEtag (Some tok) tags"
  using single_tag [OF assms(2)] comma_never_matches [OF assms(1,3)] by simp

lemma comma_tag_never_matches_example:
  "\<exists>tok any tags. encodeEtagToken sample_etag_host (JStr ''a,b'') [''rev''] = Inr (Some tok)
    \<and> parseIfMatch (Some tok) = Some (any, tags) \<and> \<not> matchesEtag (Some tok) tags"
proof -
  let ?tok = "weakWrap (escapeEtagValue ''a,b'')"
  have tok: "encodeEtagToken sample_etag_host (JStr ''a,b'') [''rev''] = Inr (Some ?tok)" by code_simp
  moreover have tags: "parseIfMatch (Some ?tok) = Some (False, [''W/'' @ [dquote] @ ''a'', ''b'' @ [dquote]])" by code_simp
  moreover have "\<not> matchesEtag (Some ?tok) [''W/'' @ [dquote] @ ''a'', ''b'' @ [dquote]]"
    by (rule comma_tag_never_matches [OF _ tok tags]) simp
  ultimately show ?thesis by blast
qed

end
